(* ===== verification/Prelude.thy ===== *)
theory Prelude
  imports Main
begin

text \<open>
  Shared vocabulary of the development.

  \<^item> \<open>py_error\<close> lists the exceptions the modelled Python code raises itself or provokes
    in the standard library. A message is kept as the text the code builds.
    \<open>IllTyped\<close> is not an exception: it marks a dynamically typed value (a JSON field) outside
    the declared type of the field, which the models do not follow further.
  \<^item> A fallible function returns \<open>py_error + 'a\<close>: \<open>Inl e\<close> is the raise of \<open>e\<close>, \<open>Inr x\<close>
    the return of \<open>x\<close>. \<open>ebind\<close> sequences two such computations (an exception in the first
    one aborts the second one), \<open>require\<close> is \<open>if not b: raise e\<close>, and \<open>mapM\<close> is a
    comprehension whose body may raise.
  \<^item> The collections \<open>err_simps\<close> (rewriting of the error monad) and \<open>val_simps\<close> (facts on
    widths and bits of four-state values) are what the component proofs pass to \<open>simp\<close>.

  \<open>check_cancelled()\<close> (src/src/cancellation.py) is a no-op unless a request is being
  abandoned, and then it raises through the whole call without changing any state that
  is modelled here; the models describe calls that are not abandoned.
\<close>

datatype py_error =
    ValueError string
  | KeyError string
  | TypeError
  | AttributeError
  | IndexError
  | ZeroDivisionError
  | ExpressionError string
  | StopIteration
  | OverflowError
  | IllTyped

type_synonym 'a result = "py_error + 'a"

named_theorems err_simps \<open>rewriting of the error monad\<close>
named_theorems val_simps \<open>widths and bits of four-state values\<close>

section \<open>The error monad\<close>

fun ebind :: "'e + 'a \<Rightarrow> ('a \<Rightarrow> 'e + 'b) \<Rightarrow> 'e + 'b" where
  "ebind (Inl e) f = Inl e"
| "ebind (Inr x) f = f x"

definition require :: "bool \<Rightarrow> 'e \<Rightarrow> 'e + unit" where
  "require b e = (if b then Inr () else Inl e)"

fun mapM :: "('a \<Rightarrow> 'e + 'b) \<Rightarrow> 'a list \<Rightarrow> 'e + 'b list" where
  "mapM f [] = Inr []"
| "mapM f (x # xs) = ebind (f x) (\<lambda>y. ebind (mapM f xs) (\<lambda>ys. Inr (y # ys)))"

text \<open>The same with a state threaded from left to right (a shared budget, for instance).\<close>

fun mapMS :: "('a \<Rightarrow> 's \<Rightarrow> 'e + 'b \<times> 's) \<Rightarrow> 'a list \<Rightarrow> 's \<Rightarrow> 'e + 'b list \<times> 's" where
  "mapMS f [] s = Inr ([], s)"
| "mapMS f (x # xs) s =
     ebind (f x s) (\<lambda>(y, s'). ebind (mapMS f xs s') (\<lambda>(ys, s''). Inr (y # ys, s'')))"

definition is_ok :: "'e + 'a \<Rightarrow> bool" where
  "is_ok r = (case r of Inl _ \<Rightarrow> False | Inr _ \<Rightarrow> True)"

lemma ebind_cong [fundef_cong]:
  "m = m' \<Longrightarrow> (\<And>x. m' = Inr x \<Longrightarrow> f x = g x) \<Longrightarrow> ebind m f = ebind m' g"
  by (cases m') auto

lemma mapM_cong [fundef_cong]:
  "xs = ys \<Longrightarrow> (\<And>x. x \<in> set ys \<Longrightarrow> f x = g x) \<Longrightarrow> mapM f xs = mapM g ys"
  by (induction ys arbitrary: xs) auto

lemma mapMS_cong [fundef_cong]:
  "xs = ys \<Longrightarrow> s = t \<Longrightarrow> (\<And>x u. x \<in> set ys \<Longrightarrow> f x u = g x u) \<Longrightarrow> mapMS f xs s = mapMS g ys t"
  by (induction ys arbitrary: xs s t) (auto intro!: ebind_cong)

lemma ebind_Inr_iff [err_simps]:
  "ebind m f = Inr y \<longleftrightarrow> (\<exists>x. m = Inr x \<and> f x = Inr y)"
  by (cases m) auto

lemma ebind_Inl_iff [err_simps]:
  "ebind m f = Inl e \<longleftrightarrow> m = Inl e \<or> (\<exists>x. m = Inr x \<and> f x = Inl e)"
  by (cases m) auto

lemma ebind_assoc: "ebind (ebind m f) g = ebind m (\<lambda>x. ebind (f x) g)"
  by (cases m) auto

lemma ebind_return [simp]: "ebind m Inr = m"
  by (cases m) auto

lemma require_simps [simp]:
  "require True e = Inr ()"
  "require False e = Inl e"
  by (simp_all add: require_def)

lemma require_Inr_iff [err_simps]: "require b e = Inr u \<longleftrightarrow> b"
  by (simp add: require_def)

lemma require_Inl_iff [err_simps]: "require b e = Inl e' \<longleftrightarrow> \<not> b \<and> e' = e"
  by (auto simp: require_def)

lemma is_ok_simps [simp]: "is_ok (Inr x)" "\<not> is_ok (Inl e)"
  by (simp_all add: is_ok_def)

lemma is_ok_iff: "is_ok r \<longleftrightarrow> (\<exists>x. r = Inr x)"
  by (cases r) auto

lemma mapM_Inr_iff [err_simps]:
  "mapM f xs = Inr ys \<longleftrightarrow> list_all2 (\<lambda>x y. f x = Inr y) xs ys"
proof (induction xs arbitrary: ys)
  case Nil
  then show ?case by auto
next
  case (Cons x xs)
  then show ?case by (cases ys) (auto simp: ebind_Inr_iff)
qed

lemma mapM_Inr_map:
  "(\<And>x. x \<in> set xs \<Longrightarrow> f x = Inr (g x)) \<Longrightarrow> mapM f xs = Inr (map g xs)"
  by (induction xs) auto

lemma mapM_map: "mapM f (map g xs) = mapM (\<lambda>x. f (g x)) xs"
  by (induction xs) auto

lemma mapM_append:
  "mapM f (xs @ ys) =
     ebind (mapM f xs) (\<lambda>us. ebind (mapM f ys) (\<lambda>vs. Inr (us @ vs)))"
  by (induction xs) (auto simp: ebind_assoc intro!: ebind_cong)

lemma mapM_length: "mapM f xs = Inr ys \<Longrightarrow> length ys = length xs"
  by (simp add: mapM_Inr_iff list_all2_lengthD)

lemma mapM_elem: "mapM f xs = Inr ys \<Longrightarrow> x \<in> set xs \<Longrightarrow> \<exists>y. f x = Inr y"
  by (induction xs arbitrary: ys) (auto simp: ebind_Inr_iff)

text \<open>
  A constructor's checks: an ordered list of conditions with the message of the ValueError, the
  first condition that holds being raised.
\<close>

fun first_failure :: "(bool \<times> string) list \<Rightarrow> unit result" where
  "first_failure [] = Inr ()"
| "first_failure ((b, msg) # rest) = (if b then Inl (ValueError msg) else first_failure rest)"

definition checked :: "(bool \<times> string) list \<Rightarrow> 'a \<Rightarrow> 'a result" where
  "checked cs x = ebind (first_failure cs) (\<lambda>_. Inr x)"

definition passes :: "(bool \<times> string) list \<Rightarrow> bool" where
  "passes cs \<longleftrightarrow> list_all (\<lambda>(b, _). \<not> b) cs"

lemma first_failure_iff: "first_failure cs = Inr () \<longleftrightarrow> list_all (\<lambda>(b, _). \<not> b) cs"
  by (induction cs) (auto split: if_splits)

lemma checked_Inr [err_simps]: "checked cs x = Inr y \<longleftrightarrow> y = x \<and> passes cs"
  by (auto simp: checked_def ebind_Inr_iff passes_def first_failure_iff)

lemma checked_passes [simp]: "passes cs \<Longrightarrow> checked cs x = Inr x"
  by (simp add: checked_Inr)

lemma passes_simps [simp]:
  "passes []" "passes ((b, m) # cs) \<longleftrightarrow> \<not> b \<and> passes cs"
  "passes (cs @ ds) \<longleftrightarrow> passes cs \<and> passes ds"
  by (auto simp: passes_def)

lemma passes_concat [simp]: "passes (concat css) \<longleftrightarrow> (\<forall>cs \<in> set css. passes cs)"
  by (induction css) auto

section \<open>Python's sequence operations\<close>

text \<open>\<open>s[-n:]\<close> for a positive \<open>n\<close>, \<open>s.rjust(n, c)\<close>, and \<open>list(dict.fromkeys(xs))\<close>.\<close>

definition last_n :: "nat \<Rightarrow> 'a list \<Rightarrow> 'a list" where
  "last_n n xs = drop (length xs - n) xs"

definition rjust :: "nat \<Rightarrow> 'a \<Rightarrow> 'a list \<Rightarrow> 'a list" where
  "rjust n c xs = replicate (n - length xs) c @ xs"

fun dedupe_from :: "'a list \<Rightarrow> 'a list \<Rightarrow> 'a list" where
  "dedupe_from seen [] = []"
| "dedupe_from seen (x # xs) =
     (if x \<in> set seen then dedupe_from seen xs else x # dedupe_from (x # seen) xs)"

definition dedupe :: "'a list \<Rightarrow> 'a list" where
  "dedupe xs = dedupe_from [] xs"

lemma length_last_n [simp]: "length (last_n n xs) = min n (length xs)"
  by (simp add: last_n_def)

lemma length_rjust [simp]: "length (rjust n c xs) = max n (length xs)"
  by (simp add: rjust_def)

lemma set_last_n: "set (last_n n xs) \<subseteq> set xs"
  by (simp add: last_n_def set_drop_subset)

lemma set_rjust: "set (rjust n c xs) \<subseteq> insert c (set xs)"
  by (auto simp: rjust_def)

lemma last_n_all [simp]: "length xs \<le> n \<Longrightarrow> last_n n xs = xs"
  by (simp add: last_n_def)

lemma rjust_id [simp]: "n \<le> length xs \<Longrightarrow> rjust n c xs = xs"
  by (simp add: rjust_def)

lemma set_dedupe_from: "set (dedupe_from seen xs) = set xs - set seen"
  by (induction xs arbitrary: seen) auto

lemma distinct_dedupe_from: "distinct (dedupe_from seen xs)"
  by (induction xs arbitrary: seen) (auto simp: set_dedupe_from)

lemma set_dedupe [simp]: "set (dedupe xs) = set xs"
  by (simp add: dedupe_def set_dedupe_from)

lemma distinct_dedupe [simp]: "distinct (dedupe xs)"
  by (simp add: dedupe_def distinct_dedupe_from)

lemma dedupe_from_id:
  "distinct xs \<Longrightarrow> set xs \<inter> set seen = {} \<Longrightarrow> dedupe_from seen xs = xs"
  by (induction xs arbitrary: seen) auto

lemma dedupe_id: "distinct xs \<Longrightarrow> dedupe xs = xs"
  by (simp add: dedupe_def dedupe_from_id)

lemma dedupe_Nil [simp]: "dedupe [] = []"
  by (simp add: dedupe_def)

end
