(* ===== verification/Four_State.thy ===== *)
theory Four_State
  imports Prelude
begin

text \<open>
  src/src/expression_values.py: bounded four-state integral values and the operators on
  them. A \<open>Value\<close> is a string of the characters 0, 1, x, z (most significant bit first) with
  a signedness; \<open>mk_value\<close> is its validating constructor. Operators are the code's operator
  strings. Widths are Python integers, checked by \<open>check_width\<close> where the code calls
  \<open>_width\<close>.
\<close>

section \<open>Values\<close>

definition max_width :: int where
  "max_width = 4096"

record fvalue =
  vbits :: string
  vsigned :: bool

definition mk_value :: "string \<Rightarrow> bool \<Rightarrow> fvalue result" where
  "mk_value b s =
     (if \<not> (1 \<le> length b \<and> int (length b) \<le> max_width) \<or> list_ex (\<lambda>c. c \<notin> set ''01xz'') b
      then Inl (ValueError ''expression_value_invalid'')
      else Inr \<lparr>vbits = b, vsigned = s\<rparr>)"

definition vwidth :: "fvalue \<Rightarrow> int" where
  "vwidth v = int (length (vbits v))"

definition vknown :: "fvalue \<Rightarrow> bool" where
  "vknown v \<longleftrightarrow> \<not> list_ex (\<lambda>c. c \<in> set (vbits v)) ''xz''"

definition vtruth :: "fvalue \<Rightarrow> char" where
  "vtruth v = (if CHR ''1'' \<in> set (vbits v) then CHR ''1''
     else if vknown v then CHR ''0'' else CHR ''x'')"

text \<open>\<open>int(bits, 2)\<close> and \<open>format(n, '0wb')\<close> for \<open>0 \<le> n < 2 ^ w\<close>.\<close>

fun bits_int :: "string \<Rightarrow> int" where
  "bits_int [] = 0"
| "bits_int (c # cs) = (if c = CHR ''1'' then 2 ^ length cs else 0) + bits_int cs"

fun int_bits :: "nat \<Rightarrow> int \<Rightarrow> string" where
  "int_bits 0 n = []"
| "int_bits (Suc w) n = int_bits w (n div 2) @ [if odd n then CHR ''1'' else CHR ''0'']"

definition vinteger :: "fvalue \<Rightarrow> int result" where
  "vinteger v = (if \<not> vknown v then Inl (ValueError ''expression_value_unknown'')
     else let n = bits_int (vbits v)
          in Inr (if vsigned v \<and> hd (vbits v) = CHR ''1'' then n - 2 ^ nat (vwidth v) else n))"

definition check_width :: "int \<Rightarrow> unit result" where
  "check_width w = require (1 \<le> w \<and> w \<le> max_width) (ValueError ''expression_width_limit'')"

definition two_state_bits :: "string \<Rightarrow> string" where
  "two_state_bits = map (\<lambda>c. if c = CHR ''x'' \<or> c = CHR ''z'' then CHR ''0'' else c)"

definition vresize ::
  "fvalue \<Rightarrow> int \<Rightarrow> bool option \<Rightarrow> bool option \<Rightarrow> bool \<Rightarrow> fvalue result" where
  "vresize v w sg sext two_state =
     ebind (check_width w) (\<lambda>_.
       let extend = (case sext of None \<Rightarrow> vsigned v | Some b \<Rightarrow> b);
           bits = rjust (nat w) (if extend then hd (vbits v) else CHR ''0'')
                    (last_n (nat w) (vbits v));
           bits' = (if two_state then two_state_bits bits else bits)
       in mk_value bits' (case sg of None \<Rightarrow> vsigned v | Some b \<Rightarrow> b))"

definition number :: "int \<Rightarrow> int \<Rightarrow> bool \<Rightarrow> fvalue result" where
  "number n w sg = ebind (check_width w) (\<lambda>_. mk_value (int_bits (nat w) (n mod 2 ^ nat w)) sg)"

definition unknown :: "int \<Rightarrow> bool \<Rightarrow> fvalue result" where
  "unknown w sg = ebind (check_width w) (\<lambda>_. mk_value (replicate (nat w) CHR ''x'') sg)"

section \<open>Unary operators\<close>

definition logic :: "string \<Rightarrow> char \<Rightarrow> char \<Rightarrow> char result" where
  "logic op a b =
     (if op = ''&&'' then
        Inr (if a = CHR ''0'' \<or> b = CHR ''0'' then CHR ''0''
             else if a = CHR ''1'' \<and> b = CHR ''1'' then CHR ''1'' else CHR ''x'')
      else if op = ''||'' then
        Inr (if a = CHR ''1'' \<or> b = CHR ''1'' then CHR ''1''
             else if a = CHR ''0'' \<and> b = CHR ''0'' then CHR ''0'' else CHR ''x'')
      else Inl (ValueError ''expression_operator_invalid''))"

definition invert :: "char \<Rightarrow> char" where
  "invert c = (if c = CHR ''0'' then CHR ''1'' else if c = CHR ''1'' then CHR ''0'' else CHR ''x'')"

text \<open>\<open>str(reduce(xor, map(int, bits), 0))\<close> on known bits.\<close>

definition parity :: "string \<Rightarrow> char" where
  "parity b = (if odd (count_list b CHR ''1'') then CHR ''1'' else CHR ''0'')"

definition reduce_bit :: "string \<Rightarrow> fvalue \<Rightarrow> char" where
  "reduce_bit op v =
     (if op \<in> {''&'', ''~&''} then
        (if CHR ''0'' \<in> set (vbits v) then CHR ''0''
         else if vknown v then CHR ''1'' else CHR ''x'')
      else if op \<in> {''|'', ''~|''} then vtruth v
      else if vknown v then parity (vbits v) else CHR ''x'')"

definition unary :: "string \<Rightarrow> fvalue \<Rightarrow> fvalue result" where
  "unary op v =
     (if op = ''+'' then Inr v
      else if op = ''-'' then
        (if vknown v then ebind (vinteger v) (\<lambda>n. number (- n) (vwidth v) (vsigned v))
         else unknown (vwidth v) (vsigned v))
      else if op = ''!'' then mk_value [invert (vtruth v)] False
      else if op = ''~'' then mk_value (map invert (vbits v)) (vsigned v)
      else if op \<in> {''&'', ''~&'', ''|'', ''~|'', ''^'', ''~^'', ''^~''} then
        mk_value [if op \<in> {''~&'', ''~|'', ''~^'', ''^~''} then invert (reduce_bit op v)
                  else reduce_bit op v] False
      else Inl (ValueError ''expression_operator_invalid''))"

section \<open>Binary operators\<close>

definition COMPARISONS :: "string list" where
  "COMPARISONS = [''=='', ''!='', ''==='', ''!=='', ''==?'', ''!=?'', ''<'', ''<='', ''>'', ''>='']"

definition LOGICAL :: "string list" where
  "LOGICAL = [''&&'', ''||'', ''->'', ''<->'']"

definition LEFT_TYPED :: "string list" where
  "LEFT_TYPED = [''<<'', ''>>'', ''<<<'', ''>>>'', ''**'']"

definition BINARY :: "string list" where
  "BINARY = COMPARISONS @ LOGICAL @ LEFT_TYPED @
     [''+'', ''-'', ''*'', ''/'', ''%'', ''&'', ''|'', ''^'', ''~^'', ''^~'']"

text \<open>Python's \<open>width or d\<close> for a width that may be \<open>None\<close> (or 0).\<close>

definition width_or :: "int option \<Rightarrow> int \<Rightarrow> int" where
  "width_or w d = (case w of None \<Rightarrow> d | Some n \<Rightarrow> if n = 0 then d else n)"

definition is01 :: "char \<Rightarrow> bool" where
  "is01 c \<longleftrightarrow> c = CHR ''0'' \<or> c = CHR ''1''"

definition isxz :: "char \<Rightarrow> bool" where
  "isxz c \<longleftrightarrow> c = CHR ''x'' \<or> c = CHR ''z''"

definition binary_logical :: "string \<Rightarrow> fvalue \<Rightarrow> fvalue \<Rightarrow> fvalue result" where
  "binary_logical op lhs rhs =
     (let a = vtruth lhs; b = vtruth rhs in
      if op = ''->'' then ebind (logic ''||'' (invert a) b) (\<lambda>c. mk_value [c] False)
      else if op = ''<->'' then
        mk_value [if is01 a \<and> is01 b then (if a = b then CHR ''1'' else CHR ''0'') else CHR ''x''] False
      else ebind (logic op a b) (\<lambda>c. mk_value [c] False))"

definition binary_equality :: "string \<Rightarrow> fvalue \<Rightarrow> fvalue \<Rightarrow> fvalue result" where
  "binary_equality op a b =
     (let pairs = zip (vbits a) (vbits b);
          pairs' = (if op \<in> {''==?'', ''!=?''} then filter (\<lambda>(x, y). \<not> isxz y) pairs else pairs);
          r = (if op \<in> {''==='', ''!==''} then (if vbits a = vbits b then CHR ''1'' else CHR ''0'')
               else if list_ex (\<lambda>(x, y). is01 x \<and> is01 y \<and> x \<noteq> y) pairs' then CHR ''0''
               else if list_ex (\<lambda>(x, y). isxz x \<or> isxz y) pairs' then CHR ''x''
               else CHR ''1'')
      in mk_value [if op \<in> {''!='', ''!=='', ''!=?''} then invert r else r] False)"

definition bitwise_bit :: "string \<Rightarrow> char \<Rightarrow> char \<Rightarrow> char result" where
  "bitwise_bit op x y =
     (if op \<in> {''&'', ''|''} then
        logic (if op = ''&'' then ''&&'' else ''||'')
          (if is01 x then x else CHR ''x'') (if is01 y then y else CHR ''x'')
      else
        let bit = (if is01 x \<and> is01 y then (if x \<noteq> y then CHR ''1'' else CHR ''0'') else CHR ''x'')
        in Inr (if op \<noteq> ''^'' then invert bit else bit))"

definition binary_bitwise :: "string \<Rightarrow> fvalue \<Rightarrow> fvalue \<Rightarrow> bool \<Rightarrow> int \<Rightarrow> fvalue result" where
  "binary_bitwise op a b sg out_width =
     ebind (mapM (\<lambda>(x, y). bitwise_bit op x y) (zip (vbits a) (vbits b))) (\<lambda>bits.
     ebind (mk_value bits sg) (\<lambda>v. vresize v out_width None None False))"

definition binary_shift ::
  "string \<Rightarrow> fvalue \<Rightarrow> fvalue \<Rightarrow> bool \<Rightarrow> int \<Rightarrow> int \<Rightarrow> fvalue result" where
  "binary_shift op a b sg common out_width =
     (if \<not> vknown b then unknown out_width sg
      else
        let amount = nat (min (bits_int (vbits b)) common);
            bits = (if op \<in> {''<<'', ''<<<''}
                    then drop amount (vbits a) @ replicate amount CHR ''0''
                    else replicate amount (if op = ''>>>'' \<and> sg then hd (vbits a) else CHR ''0'')
                         @ take (nat common - amount) (vbits a))
        in ebind (mk_value bits sg) (\<lambda>v. vresize v out_width None None False))"

text \<open>\<open>(abs(x) // abs(y)) * (-1 if (x < 0) != (y < 0) else 1)\<close>: truncating division.\<close>

definition quotient :: "int \<Rightarrow> int \<Rightarrow> int" where
  "quotient x y = (\<bar>x\<bar> div \<bar>y\<bar>) * (if (x < 0) \<noteq> (y < 0) then - 1 else 1)"

definition binary_arith ::
  "string \<Rightarrow> fvalue \<Rightarrow> fvalue \<Rightarrow> bool \<Rightarrow> int \<Rightarrow> fvalue result" where
  "binary_arith op a b sg out_width =
     (if \<not> vknown a \<or> \<not> vknown b then
        unknown out_width (if op \<notin> set COMPARISONS then sg else False)
      else ebind (vinteger a) (\<lambda>x. ebind (vinteger b) (\<lambda>y.
        if op = ''<'' then mk_value [if x < y then CHR ''1'' else CHR ''0''] False
        else if op = ''<='' then mk_value [if x \<le> y then CHR ''1'' else CHR ''0''] False
        else if op = ''>'' then mk_value [if x > y then CHR ''1'' else CHR ''0''] False
        else if op = ''>='' then mk_value [if x \<ge> y then CHR ''1'' else CHR ''0''] False
        else if op \<in> {''/'', ''%''} then
          (if y = 0 then unknown out_width sg
           else number (if op = ''/'' then quotient x y else x - quotient x y * y) out_width sg)
        else if op = ''**'' then
          (if y < 0 then
             (if x = 0 then unknown out_width sg
              else number (if x = 1 then 1
                           else if x = - 1 then (if odd y then - 1 else 1) else 0) out_width sg)
           else number (x ^ nat y mod 2 ^ nat out_width) out_width sg)
        else if op = ''+'' then number (x + y) out_width sg
        else if op = ''-'' then number (x - y) out_width sg
        else number (x * y) out_width sg)))"

definition binary :: "string \<Rightarrow> fvalue \<Rightarrow> fvalue \<Rightarrow> int option \<Rightarrow> fvalue result" where
  "binary op lhs rhs width =
     (if op \<notin> set BINARY then Inl (ValueError ''expression_operator_invalid'')
      else if op \<in> set LOGICAL then binary_logical op lhs rhs
      else
        let left = (op \<in> set LEFT_TYPED);
            common0 = (if left then vwidth lhs else max (vwidth lhs) (vwidth rhs));
            common = (if op \<in> set COMPARISONS then common0 else max common0 (width_or width common0));
            sg = (if left then vsigned lhs else vsigned lhs \<and> vsigned rhs)
        in ebind (vresize lhs common (Some sg) (Some sg) False) (\<lambda>a.
           ebind (if left then Inr rhs else vresize rhs common (Some sg) (Some sg) False) (\<lambda>b.
           let out_width = (if op \<in> set COMPARISONS then 1 else width_or width common)
           in ebind (check_width out_width) (\<lambda>_.
             if op \<in> {''==='', ''!=='', ''=='', ''!='', ''==?'', ''!=?''} then binary_equality op a b
             else if op \<in> {''&'', ''|'', ''^'', ''~^'', ''^~''} then binary_bitwise op a b sg out_width
             else if op \<in> {''<<'', ''>>'', ''<<<'', ''>>>''} then binary_shift op a b sg common out_width
             else binary_arith op a b sg out_width))))"

section \<open>Conditional, concatenation, streaming, system functions\<close>

definition merge_bit :: "char \<Rightarrow> char \<Rightarrow> char" where
  "merge_bit a b = (if a = b then a else CHR ''x'')"

definition conditional :: "fvalue \<Rightarrow> fvalue \<Rightarrow> fvalue \<Rightarrow> int option \<Rightarrow> fvalue result" where
  "conditional c lhs rhs width =
     (let w = width_or width (max (vwidth lhs) (vwidth rhs));
          sg = (vsigned lhs \<and> vsigned rhs)
      in ebind (vresize lhs w (Some sg) (Some sg) False) (\<lambda>l.
         ebind (vresize rhs w (Some sg) (Some sg) False) (\<lambda>r.
         if is01 (vtruth c) then Inr (if vtruth c = CHR ''1'' then l else r)
         else mk_value (map2 merge_bit (vbits l) (vbits r)) sg)))"

definition concatenate :: "fvalue list \<Rightarrow> fvalue result" where
  "concatenate vs =
     ebind (check_width (sum_list (map vwidth vs))) (\<lambda>_. mk_value (concat (map vbits vs)) False)"

text \<open>
  \<open>''.join(bits[max(0, end-size):end] for end in range(width, 0, -size))\<close>: groups from the
  right, each kept in order, the last one possibly partial.
\<close>

function stream_groups :: "nat \<Rightarrow> string \<Rightarrow> string" where
  "stream_groups sz bits =
     (if bits = [] \<or> sz = 0 then []
      else last_n sz bits @ stream_groups sz (take (length bits - sz) bits))"
  by pat_completeness auto
termination
  by (relation "measure (\<lambda>(sz, bits). length bits)") auto

declare stream_groups.simps [simp del]

definition stream :: "fvalue \<Rightarrow> string \<Rightarrow> int \<Rightarrow> fvalue result" where
  "stream v direction sz =
     (if \<not> (1 \<le> sz \<and> sz \<le> max_width) then Inl (ValueError ''expression_stream_size_invalid'')
      else if direction = ''>>'' then mk_value (vbits v) False
      else if direction \<noteq> ''<<'' then Inl (ValueError ''expression_operator_invalid'')
      else mk_value (stream_groups (nat sz) (vbits v)) False)"

text \<open>\<open>int.bit_length\<close> of a non-negative integer.\<close>

fun bit_length :: "nat \<Rightarrow> nat" where
  "bit_length n = (if n = 0 then 0 else Suc (bit_length (n div 2)))"

declare bit_length.simps [simp del]

definition builtin :: "string \<Rightarrow> fvalue list \<Rightarrow> fvalue result" where
  "builtin name args =
     (case args of
        [] \<Rightarrow> Inl (ValueError ''expression_function_arity_invalid'')
      | v # rest \<Rightarrow>
          let ones = int (count_list (vbits v) CHR ''1'') in
          if name \<in> {''$signed'', ''$unsigned''} \<and> rest = [] then mk_value (vbits v) (name = ''$signed'')
          else if name = ''$isunknown'' \<and> rest = [] then number (if vknown v then 0 else 1) 1 False
          else if name = ''$onehot'' \<and> rest = [] then number (if ones = 1 then 1 else 0) 1 False
          else if name = ''$onehot0'' \<and> rest = [] then number (if ones \<le> 1 then 1 else 0) 1 False
          else if name = ''$countones'' \<and> rest = [] then number ones 32 True
          else if name = ''$countbits'' \<and> rest \<noteq> [] then
            number (int (length (filter (\<lambda>c. c \<in> set (map (\<lambda>a. last (vbits a)) rest)) (vbits v)))) 32 True
          else if name = ''$clog2'' \<and> rest = [] then
            (if \<not> vknown v then unknown 32 True
             else let n = bits_int (vbits v)
                  in number (if n > 0 then int (bit_length (nat (n - 1))) else 0) 32 True)
          else Inl (ValueError ''expression_function_invalid''))"

end
