(* ===== verification/Four_State_Laws.thy ===== *)
theory Four_State_Laws
  imports Four_State "HOL-Library.Signed_Division"
begin

text \<open>
  The laws of the four-state values of \<open>Four_State\<close>: binary representation, widths and
  well-formedness, wrap-around arithmetic, and soundness of unknown bits.
\<close>

section \<open>Binary representation\<close>

lemma length_int_bits [simp]: "length (int_bits w n) = w"
  by (induction w arbitrary: n) auto

lemma set_int_bits: "set (int_bits w n) \<subseteq> {CHR ''0'', CHR ''1''}"
  by (induction w arbitrary: n) auto

lemma bits_int_append: "bits_int (a @ b) = bits_int a * 2 ^ length b + bits_int b"
  by (induction a) (auto simp: power_add algebra_simps)

lemma bits_int_nonneg [simp]: "0 \<le> bits_int b"
  by (induction b) auto

lemma bits_int_less: "bits_int b < 2 ^ length b"
proof (induction b)
  case Nil
  then show ?case by simp
next
  case (Cons c b)
  moreover have "0 < (2::int) ^ length b" by simp
  ultimately show ?case by (simp del: zero_less_power)
qed

lemma bits_int_replicate_zero [simp]: "bits_int (replicate n CHR ''0'') = 0"
  by (induction n) auto

lemma bits_int_replicate_one: "bits_int (replicate n CHR ''1'') = 2 ^ n - 1"
  by (induction n) auto

lemma bits_int_int_bits: "bits_int (int_bits w n) = n mod 2 ^ w"
proof (induction w arbitrary: n)
  case 0
  then show ?case by simp
next
  case (Suc w)
  have "n mod 2 ^ Suc w = 2 * (n div 2 mod 2 ^ w) + n mod 2"
    using zmod_zmult2_eq [of "2 ^ w" n 2] by simp
  then show ?case
    by (simp add: Suc bits_int_append odd_iff_mod_2_eq_one)
qed

lemma int_bits_bits_int:
  "set b \<subseteq> {CHR ''0'', CHR ''1''} \<Longrightarrow> int_bits (length b) (bits_int b) = b"
proof (induction b rule: rev_induct)
  case Nil
  then show ?case by simp
next
  case (snoc c b)
  then show ?case
    by (auto simp: bits_int_append)
qed

lemma hd_int_bits: "hd (int_bits (Suc w) n) = CHR ''1'' \<longleftrightarrow> bit n w"
proof (induction w arbitrary: n)
  case 0
  then show ?case by (simp add: bit_0)
next
  case (Suc w)
  have "hd (int_bits (Suc (Suc w)) n) = hd (int_bits (Suc w) (n div 2))"
    by (simp only: int_bits.simps(2) [of "Suc w"]) (simp add: hd_append)
  with Suc [of "n div 2"] show ?case by (simp add: bit_Suc)
qed

lemma bits_int_bound_hd:
  "set b \<subseteq> {CHR ''0'', CHR ''1''} \<Longrightarrow> b \<noteq> [] \<Longrightarrow>
     hd b = CHR ''1'' \<longleftrightarrow> 2 ^ (length b - 1) \<le> bits_int b"
  using bits_int_less by (cases b) (auto simp: not_le)


section \<open>Well-formed values\<close>

definition is_bit :: "char \<Rightarrow> bool" where
  "is_bit c \<longleftrightarrow> c \<in> set ''01xz''"

definition bits_ok :: "string \<Rightarrow> bool" where
  "bits_ok b \<longleftrightarrow> b \<noteq> [] \<and> int (length b) \<le> max_width \<and> set b \<subseteq> Collect is_bit"

lemma is_bit_consts [simp]: "is_bit CHR ''0''" "is_bit CHR ''1''" "is_bit CHR ''x''" "is_bit CHR ''z''"
  by (simp_all add: is_bit_def)

lemma is_bit_if [simp]: "is_bit (if P then c else d) \<longleftrightarrow> (P \<longrightarrow> is_bit c) \<and> (\<not> P \<longrightarrow> is_bit d)"
  by simp

definition value_ok :: "fvalue \<Rightarrow> bool" where
  "value_ok v \<longleftrightarrow> bits_ok (vbits v)"

lemma mk_value_Inr_iff [err_simps]:
  "mk_value b s = Inr v \<longleftrightarrow> bits_ok b \<and> v = \<lparr>vbits = b, vsigned = s\<rparr>"
proof -
  have "list_ex (\<lambda>c. c \<notin> set ''01xz'') b \<longleftrightarrow> \<not> set b \<subseteq> Collect is_bit"
    unfolding is_bit_def list_ex_iff by blast
  then show ?thesis
    by (auto simp add: mk_value_def bits_ok_def Suc_le_eq simp del: list.set)
qed

lemma mk_value_ok [simp]: "bits_ok b \<Longrightarrow> mk_value b s = Inr \<lparr>vbits = b, vsigned = s\<rparr>"
  by (simp add: mk_value_Inr_iff)

lemma check_width_iff [err_simps]: "check_width w = Inr u \<longleftrightarrow> 1 \<le> w \<and> w \<le> max_width"
  by (simp add: check_width_def require_Inr_iff)

lemma check_width_ok [simp]: "1 \<le> w \<Longrightarrow> w \<le> max_width \<Longrightarrow> check_width w = Inr ()"
  by (simp add: check_width_iff)

lemma bits_ok_single [simp]: "bits_ok [c] \<longleftrightarrow> is_bit c"
  by (simp add: bits_ok_def max_width_def)

lemma value_ok_width: "value_ok v \<Longrightarrow> 1 \<le> vwidth v \<and> vwidth v \<le> max_width"
  by (auto simp: value_ok_def bits_ok_def vwidth_def Suc_le_eq)

lemma vknown_iff: "vknown v \<longleftrightarrow> CHR ''x'' \<notin> set (vbits v) \<and> CHR ''z'' \<notin> set (vbits v)"
  by (simp add: vknown_def)

lemma value_ok_known_bits:
  "value_ok v \<Longrightarrow> vknown v \<Longrightarrow> set (vbits v) \<subseteq> {CHR ''0'', CHR ''1''}"
  by (auto simp: value_ok_def bits_ok_def vknown_iff is_bit_def)

definition resize_bits :: "string \<Rightarrow> nat \<Rightarrow> bool \<Rightarrow> string" where
  "resize_bits b w ext = rjust w (if ext then hd b else CHR ''0'') (last_n w b)"

lemma length_resize_bits [simp]: "length (resize_bits b w ext) = w"
  by (simp add: resize_bits_def)

lemma set_resize_bits:
  "b \<noteq> [] \<Longrightarrow> set (resize_bits b w ext) \<subseteq> insert CHR ''0'' (set b)"
  using set_last_n [of w b] set_rjust [of w "if ext then hd b else CHR ''0''" "last_n w b"] hd_in_set [of b]
  by (auto simp: resize_bits_def split: if_splits)

lemma bits_ok_resize:
  "bits_ok b \<Longrightarrow> 1 \<le> w \<Longrightarrow> w \<le> max_width \<Longrightarrow> bits_ok (resize_bits b (nat w) ext)"
  using set_resize_bits [of b "nat w" ext] by (auto simp: bits_ok_def simp flip: length_greater_0_conv)

lemma bits_ok_two_state: "bits_ok b \<Longrightarrow> bits_ok (two_state_bits b)"
  by (auto simp: bits_ok_def two_state_bits_def)

lemma vresize_eq:
  assumes "value_ok v" "1 \<le> w" "w \<le> max_width"
  shows "vresize v w sg sext ts =
    Inr \<lparr>vbits = (if ts then two_state_bits else id)
             (resize_bits (vbits v) (nat w) (case sext of None \<Rightarrow> vsigned v | Some b \<Rightarrow> b)),
         vsigned = (case sg of None \<Rightarrow> vsigned v | Some b \<Rightarrow> b)\<rparr>"
  using assms bits_ok_resize [of "vbits v" w] bits_ok_two_state
  by (auto simp: vresize_def resize_bits_def value_ok_def Let_def)

lemma int_bits_in [simp]: "set (int_bits w n) \<subseteq> Collect is_bit"
  using set_int_bits [of w n] by force

lemma number_eq:
  "1 \<le> w \<Longrightarrow> w \<le> max_width \<Longrightarrow> number n w s = Inr \<lparr>vbits = int_bits (nat w) (n mod 2 ^ nat w), vsigned = s\<rparr>"
  by (simp add: number_def bits_ok_def flip: length_greater_0_conv)

lemma unknown_eq:
  "1 \<le> w \<Longrightarrow> w \<le> max_width \<Longrightarrow> unknown w s = Inr \<lparr>vbits = replicate (nat w) CHR ''x'', vsigned = s\<rparr>"
  by (auto simp: unknown_def bits_ok_def simp flip: length_greater_0_conv intro!: mk_value_ok)


section \<open>Every operator is total on well-formed values\<close>

lemma invert_in [simp]: "is_bit (invert c)"
  by (simp add: invert_def)

lemma vtruth_in [simp]: "is_bit (vtruth v)"
  by (simp add: vtruth_def)

lemma parity_in [simp]: "is_bit (parity b)"
  by (simp add: parity_def)

lemma reduce_bit_in [simp]: "is_bit (reduce_bit op v)"
  by (simp add: reduce_bit_def)

lemma bits_ok_map: "bits_ok b \<Longrightarrow> (\<And>c. c \<in> set b \<Longrightarrow> is_bit (f c)) \<Longrightarrow> bits_ok (map f b)"
  by (auto simp: bits_ok_def)

lemma value_ok_simps [simp]: "value_ok \<lparr>vbits = b, vsigned = s\<rparr> = bits_ok b"
  "vwidth \<lparr>vbits = b, vsigned = s\<rparr> = int (length b)"
  by (simp_all add: value_ok_def vwidth_def)

lemma number_typed:
  "1 \<le> w \<Longrightarrow> w \<le> max_width \<Longrightarrow> \<exists>v. number n w s = Inr v \<and> value_ok v \<and> vwidth v = w \<and> vsigned v = s"
  by (simp add: number_eq bits_ok_def flip: length_greater_0_conv)

lemma unknown_typed:
  "1 \<le> w \<Longrightarrow> w \<le> max_width \<Longrightarrow> \<exists>v. unknown w s = Inr v \<and> value_ok v \<and> vwidth v = w \<and> vsigned v = s"
  by (auto simp: unknown_eq bits_ok_def simp flip: length_greater_0_conv)

lemma vresize_typed:
  "value_ok v \<Longrightarrow> 1 \<le> w \<Longrightarrow> w \<le> max_width \<Longrightarrow>
     \<exists>r. vresize v w sg sext ts = Inr r \<and> value_ok r \<and> vwidth r = w"
  using bits_ok_resize [of "vbits v" w] bits_ok_two_state
  by (auto simp: vresize_eq value_ok_def vwidth_def two_state_bits_def)

lemma vinteger_known: "vknown v \<Longrightarrow> \<exists>n. vinteger v = Inr n"
  by (auto simp: vinteger_def Let_def)

lemma unary_typed:
  assumes "value_ok v" and "op \<in> {''+'', ''-'', ''!'', ''~'', ''&'', ''~&'', ''|'', ''~|'', ''^'', ''~^'', ''^~''}"
  shows "\<exists>r. unary op v = Inr r \<and> value_ok r \<and>
     vwidth r = (if op \<in> {''+'', ''-'', ''~''} then vwidth v else 1)"
proof -
  have w: "1 \<le> vwidth v" "vwidth v \<le> max_width" using value_ok_width [OF assms(1)] by auto
  have one: "\<exists>r. mk_value [c] False = Inr r \<and> value_ok r \<and> vwidth r = 1" if "is_bit c" for c
    using that by simp
  show ?thesis
  proof (cases "op \<in> {''&'', ''~&'', ''|'', ''~|'', ''^'', ''~^'', ''^~''}")
    case True
    have "unary op v = mk_value [if op \<in> {''~&'', ''~|'', ''~^'', ''^~''} then invert (reduce_bit op v)
        else reduce_bit op v] False"
      using True by (elim insertE emptyE; simp add: unary_def)
    moreover have "op \<notin> {''+'', ''-'', ''~''}" using True by (elim insertE emptyE; simp)
    ultimately show ?thesis
      using one [of "if op \<in> {''~&'', ''~|'', ''~^'', ''^~''} then invert (reduce_bit op v) else reduce_bit op v"]
      by (simp only: if_False is_bit_if invert_in reduce_bit_in simp_thms)
  next
    case False
    then have "op \<in> {''+'', ''-'', ''!'', ''~''}" using assms(2) by simp
    moreover have "\<exists>r. unary ''-'' v = Inr r \<and> value_ok r \<and> vwidth r = vwidth v"
    proof (cases "vknown v")
      case True
      then obtain n where "vinteger v = Inr n" using vinteger_known by blast
      with True show ?thesis using number_typed [OF w, of "- n"] by (auto simp: unary_def)
    next
      case False
      then show ?thesis using unknown_typed [OF w] by (auto simp: unary_def)
    qed
    moreover have "\<exists>r. unary ''~'' v = Inr r \<and> value_ok r \<and> vwidth r = vwidth v"
      using assms(1) bits_ok_map [of "vbits v" invert] by (simp add: unary_def value_ok_def vwidth_def)
    moreover have "\<exists>r. unary ''!'' v = Inr r \<and> value_ok r \<and> vwidth r = 1"
      by (simp add: unary_def)
    moreover have "\<exists>r. unary ''+'' v = Inr r \<and> value_ok r \<and> vwidth r = vwidth v"
      using assms(1) by (simp add: unary_def)
    ultimately show ?thesis by (elim insertE emptyE; simp)
  qed
qed

lemma logic_typed:
  "op \<in> {''&&'', ''||''} \<Longrightarrow> \<exists>c. logic op a b = Inr c \<and> is_bit c"
  by (auto simp: logic_def)

lemma binary_logical_typed:
  assumes "op \<in> set LOGICAL"
  shows "\<exists>v. binary_logical op lhs rhs = Inr v \<and> value_ok v \<and> vwidth v = 1"
proof -
  have "op \<in> {''&&'', ''||'', ''->'', ''<->''}" using assms by (simp add: LOGICAL_def)
  then show ?thesis
    using logic_typed [of "''||''" "invert (vtruth lhs)" "vtruth rhs"]
      logic_typed [of op "vtruth lhs" "vtruth rhs"]
    by (elim insertE emptyE) (auto simp: binary_logical_def Let_def)
qed

lemma binary_equality_typed:
  "\<exists>v. binary_equality op a b = Inr v \<and> value_ok v \<and> vwidth v = 1"
  by (simp add: binary_equality_def Let_def split del: if_split)

lemma bitwise_bit_typed: "\<exists>c. bitwise_bit op x y = Inr c \<and> is_bit c"
  using logic_typed [of "if op = ''&'' then ''&&'' else ''||''" "if is01 x then x else CHR ''x''"
    "if is01 y then y else CHR ''x''"]
  by (simp add: bitwise_bit_def Let_def)

definition bitwise_fun :: "string \<Rightarrow> char \<Rightarrow> char \<Rightarrow> char" where
  "bitwise_fun op x y = (case bitwise_bit op x y of Inr c \<Rightarrow> c | Inl _ \<Rightarrow> CHR ''x'')"

lemma bitwise_bit_eq: "bitwise_bit op x y = Inr (bitwise_fun op x y)"
  using bitwise_bit_typed [of op x y] by (auto simp: bitwise_fun_def)

lemma bitwise_fun_in: "is_bit (bitwise_fun op x y)"
  using bitwise_bit_typed [of op x y] by (auto simp: bitwise_fun_def)

lemma binary_bitwise_eq:
  assumes "value_ok a" "value_ok b" "vwidth a = vwidth b" "1 \<le> w" "w \<le> max_width"
  shows "binary_bitwise op a b sg w =
    Inr \<lparr>vbits = resize_bits (map2 (bitwise_fun op) (vbits a) (vbits b)) (nat w) sg, vsigned = sg\<rparr>"
proof -
  have ok: "bits_ok (map2 (bitwise_fun op) (vbits a) (vbits b))"
    using assms(1-3) bitwise_fun_in
    by (auto simp: value_ok_def bits_ok_def vwidth_def zip_eq_Nil_iff)
  have "mapM (\<lambda>(x, y). bitwise_bit op x y) (zip (vbits a) (vbits b))
          = Inr (map2 (bitwise_fun op) (vbits a) (vbits b))"
    by (rule mapM_Inr_map) (auto simp: bitwise_bit_eq)
  with ok assms(4,5) show ?thesis
    by (simp add: binary_bitwise_def vresize_eq)
qed

lemma binary_bitwise_typed:
  assumes "value_ok a" "value_ok b" "vwidth a = vwidth b" "1 \<le> w" "w \<le> max_width"
  shows "\<exists>v. binary_bitwise op a b sg w = Inr v \<and> value_ok v \<and> vwidth v = w"
proof -
  have "bits_ok (map2 (bitwise_fun op) (vbits a) (vbits b))"
    using assms(1-3) bitwise_fun_in
    by (auto simp: value_ok_def bits_ok_def vwidth_def zip_eq_Nil_iff)
  then show ?thesis
    using assms bits_ok_resize by (simp add: binary_bitwise_eq)
qed

definition shift_bits :: "string \<Rightarrow> string \<Rightarrow> nat \<Rightarrow> bool \<Rightarrow> string" where
  "shift_bits op b n s =
     (if op \<in> {''<<'', ''<<<''} then drop n b @ replicate n CHR ''0''
      else replicate n (if op = ''>>>'' \<and> s then hd b else CHR ''0'') @ take (length b - n) b)"

lemma bits_ok_shift:
  assumes "bits_ok b" "n \<le> length b"
  shows "bits_ok (shift_bits op b n s)"
proof -
  have hd: "is_bit (hd b)" using assms(1) hd_in_set by (auto simp: bits_ok_def)
  have r: "bits_ok (replicate n c @ take (length b - n) b)" if "is_bit c" for c
    using assms that set_take_subset [of "length b - n" b]
    by (auto simp: bits_ok_def simp flip: length_greater_0_conv)
  have "bits_ok (drop n b @ replicate n CHR ''0'')"
    using assms set_drop_subset [of n b] by (auto simp: bits_ok_def simp flip: length_greater_0_conv)
  with r hd show ?thesis by (simp add: shift_bits_def del: insert_iff)
qed

lemma binary_shift_eq:
  assumes "value_ok a" "vwidth a = common" "vknown b" "1 \<le> w" "w \<le> max_width"
  shows "binary_shift op a b sg common w = Inr
    \<lparr>vbits = resize_bits (shift_bits op (vbits a) (nat (min (bits_int (vbits b)) common)) sg) (nat w) sg,
     vsigned = sg\<rparr>"
proof -
  let ?n = "nat (min (bits_int (vbits b)) common)"
  have c: "nat common = length (vbits a)" using assms(2) by (simp add: vwidth_def)
  have ok: "bits_ok (shift_bits op (vbits a) ?n sg)"
    using assms(1,2) by (intro bits_ok_shift) (auto simp: value_ok_def vwidth_def)
  then show ?thesis
    using assms(3-5) unfolding binary_shift_def Let_def c shift_bits_def [symmetric]
    by (simp add: vresize_eq)
qed

lemma binary_shift_typed:
  assumes "value_ok a" "vwidth a = common" "1 \<le> w" "w \<le> max_width"
  shows "\<exists>v. binary_shift op a b sg common w = Inr v \<and> value_ok v \<and> vwidth v = w"
proof (cases "vknown b")
  case False
  then show ?thesis using unknown_typed [OF assms(3,4)] by (auto simp: binary_shift_def)
next
  case True
  have "bits_ok (shift_bits op (vbits a) (nat (min (bits_int (vbits b)) common)) sg)"
    using assms(1,2) by (intro bits_ok_shift) (auto simp: value_ok_def vwidth_def)
  with True show ?thesis
    using assms bits_ok_resize by (simp add: binary_shift_eq)
qed

text \<open>
  The reference for the arithmetic operators: HOL's integer operations, with \<open>sdiv\<close> and \<open>smod\<close>
  (division truncating towards zero) of \<open>HOL-Library.Signed_Division\<close>; \<open>None\<close> is the
  all-unknown result.
\<close>

definition ARITHMETIC :: "string list" where
  "ARITHMETIC = [''+'', ''-'', ''*'', ''/'', ''%'', ''**'']"

definition arith_spec :: "string \<Rightarrow> int \<Rightarrow> int \<Rightarrow> int option" where
  "arith_spec op x y =
     (if op = ''+'' then Some (x + y)
      else if op = ''-'' then Some (x - y)
      else if op = ''*'' then Some (x * y)
      else if op = ''/'' then (if y = 0 then None else Some (x sdiv y))
      else if op = ''%'' then (if y = 0 then None else Some (x smod y))
      else if y \<ge> 0 then Some (x ^ nat y)
      else if x = 0 then None else Some (1 sdiv (x ^ nat (- y))))"

definition compare_spec :: "string \<Rightarrow> int \<Rightarrow> int \<Rightarrow> bool" where
  "compare_spec op x y =
     (if op = ''<'' then x < y else if op = ''<='' then x \<le> y
      else if op = ''>'' then x > y else x \<ge> y)"

definition arith_value :: "int option \<Rightarrow> int \<Rightarrow> bool \<Rightarrow> fvalue result" where
  "arith_value r w sg = (case r of None \<Rightarrow> unknown w sg | Some n \<Rightarrow> number n w sg)"

lemma quotient_sdiv: "quotient x y = x sdiv y"
  by (cases "x = 0 \<or> y = 0") (auto simp: quotient_def signed_divide_int_def sgn_if)

lemma remainder_smod: "(x::int) - (x sdiv y) * y = x smod y"
  using sdiv_mult_smod_eq [of x y] by linarith

lemma number_mod: "number (n mod 2 ^ nat w) w sg = number n w sg"
  by (simp add: number_def)

lemma sdiv_power_small:
  fixes x :: int
  assumes "x \<noteq> 0" "y < 0"
  shows "1 sdiv (x ^ nat (- y)) = (if x = 1 then 1 else if x = - 1 then (if odd y then - 1 else 1) else 0)"
proof -
  have n: "0 < nat (- y)" using assms(2) by simp
  have par: "odd (nat (- y)) \<longleftrightarrow> odd y" using assms(2) by (simp add: even_nat_iff)
  consider "x = 1" | "x = - 1" | "\<bar>x\<bar> > 1" using assms(1) by linarith
  then show ?thesis
  proof cases
    case 3
    then have "1 < \<bar>x\<bar> ^ nat (- y)" using n by (rule one_less_power)
    then have "1 < \<bar>x ^ nat (- y)\<bar>" by (simp add: power_abs)
    then have "(1::int) div \<bar>x ^ nat (- y)\<bar> = 0" by simp
    with 3 show ?thesis by (auto simp: signed_divide_int_def)
  qed (use par in \<open>auto simp: signed_divide_int_def minus_one_power_iff\<close>)
qed

lemma binary_arith_eq:
  assumes "op \<in> set ARITHMETIC" "vknown a" "vknown b" "vinteger a = Inr x" "vinteger b = Inr y"
  shows "binary_arith op a b sg w = arith_value (arith_spec op x y) w sg"
  using assms sdiv_power_small [of x y]
  by (simp add: ARITHMETIC_def)
     (elim disjE; simp add: binary_arith_def arith_value_def arith_spec_def quotient_sdiv remainder_smod
        number_mod)

lemma binary_compare_eq:
  assumes "op \<in> {''<'', ''<='', ''>'', ''>=''}" "vknown a" "vknown b" "vinteger a = Inr x" "vinteger b = Inr y"
  shows "binary_arith op a b sg w = mk_value [if compare_spec op x y then CHR ''1'' else CHR ''0''] False"
  using assms by (elim insertE emptyE; simp add: binary_arith_def compare_spec_def)

lemma arith_value_typed:
  "1 \<le> w \<Longrightarrow> w \<le> max_width \<Longrightarrow>
     \<exists>v. arith_value r w sg = Inr v \<and> value_ok v \<and> vwidth v = w \<and> vsigned v = sg"
  using number_typed unknown_typed by (auto simp: arith_value_def split: option.splits)

lemma binary_arith_typed:
  assumes "1 \<le> w" "w \<le> max_width"
    and op: "op \<in> set ARITHMETIC \<or> op \<in> {''<'', ''<='', ''>'', ''>=''} \<and> w = 1"
  shows "\<exists>v. binary_arith op a b sg w = Inr v \<and> value_ok v \<and> vwidth v = w"
proof (cases "vknown a \<and> vknown b")
  case False
  then show ?thesis using unknown_typed [OF assms(1,2)] by (auto simp: binary_arith_def)
next
  case True
  then obtain x y where xy: "vinteger a = Inr x" "vinteger b = Inr y" using vinteger_known by metis
  from op show ?thesis
  proof
    assume "op \<in> set ARITHMETIC"
    then show ?thesis
      using True xy binary_arith_eq arith_value_typed [OF assms(1,2)] by metis
  next
    assume "op \<in> {''<'', ''<='', ''>'', ''>=''} \<and> w = 1"
    then show ?thesis
      using True xy by (simp add: binary_compare_eq)
  qed
qed


section \<open>Dispatch of the binary operators\<close>

definition EQUALITY :: "string list" where
  "EQUALITY = [''==='', ''!=='', ''=='', ''!='', ''==?'', ''!=?'']"

definition RELATIONAL :: "string list" where
  "RELATIONAL = [''<'', ''<='', ''>'', ''>='']"

definition BITWISE :: "string list" where
  "BITWISE = [''&'', ''|'', ''^'', ''~^'', ''^~'']"

definition SHIFTS :: "string list" where
  "SHIFTS = [''<<'', ''>>'', ''<<<'', ''>>>'']"

lemmas op_lists = EQUALITY_def RELATIONAL_def BITWISE_def SHIFTS_def ARITHMETIC_def
  COMPARISONS_def LOGICAL_def LEFT_TYPED_def BINARY_def

text \<open>How the groups make up \<open>BINARY\<close>, and which groups exclude each other.\<close>

lemma set_BINARY:
  "set BINARY = set LOGICAL \<union> set EQUALITY \<union> set RELATIONAL \<union> set BITWISE \<union> set SHIFTS \<union> set ARITHMETIC"
  by code_simp

lemma set_COMPARISONS: "set COMPARISONS = set EQUALITY \<union> set RELATIONAL"
  by code_simp

lemma op_groups_disjoint:
  "set EQUALITY \<inter> set LOGICAL = {}" "set RELATIONAL \<inter> set LOGICAL = {}" "set BITWISE \<inter> set LOGICAL = {}"
  "set SHIFTS \<inter> set LOGICAL = {}" "set ARITHMETIC \<inter> set LOGICAL = {}"
  "set EQUALITY \<inter> set RELATIONAL = {}" "set EQUALITY \<inter> set BITWISE = {}" "set EQUALITY \<inter> set SHIFTS = {}"
  "set EQUALITY \<inter> set ARITHMETIC = {}" "set RELATIONAL \<inter> set BITWISE = {}"
  "set RELATIONAL \<inter> set SHIFTS = {}" "set RELATIONAL \<inter> set ARITHMETIC = {}"
  "set BITWISE \<inter> set SHIFTS = {}" "set BITWISE \<inter> set ARITHMETIC = {}" "set SHIFTS \<inter> set ARITHMETIC = {}"
  "set EQUALITY \<inter> set LEFT_TYPED = {}" "set RELATIONAL \<inter> set LEFT_TYPED = {}"
  "set BITWISE \<inter> set LEFT_TYPED = {}" "set SHIFTS \<subseteq> set LEFT_TYPED"
  by code_simp+

lemma op_groupD:
  "op \<in> set EQUALITY \<Longrightarrow> op \<in> set BINARY \<and> op \<notin> set LOGICAL \<and> op \<notin> set LEFT_TYPED \<and> op \<in> set COMPARISONS"
  "op \<in> set BITWISE \<Longrightarrow> op \<in> set BINARY \<and> op \<notin> set LOGICAL \<and> op \<notin> set EQUALITY \<and> op \<notin> set COMPARISONS
     \<and> op \<notin> set LEFT_TYPED"
  "op \<in> set SHIFTS \<Longrightarrow> op \<in> set BINARY \<and> op \<notin> set LOGICAL \<and> op \<notin> set EQUALITY \<and> op \<notin> set BITWISE
     \<and> op \<notin> set COMPARISONS \<and> op \<in> set LEFT_TYPED"
  "op \<in> set ARITHMETIC \<Longrightarrow> op \<in> set BINARY \<and> op \<notin> set LOGICAL \<and> op \<notin> set EQUALITY \<and> op \<notin> set BITWISE
     \<and> op \<notin> set SHIFTS \<and> op \<notin> set COMPARISONS"
  "op \<in> set RELATIONAL \<Longrightarrow> op \<in> set BINARY \<and> op \<notin> set LOGICAL \<and> op \<notin> set EQUALITY \<and> op \<notin> set BITWISE
     \<and> op \<notin> set SHIFTS \<and> op \<in> set COMPARISONS \<and> op \<notin> set LEFT_TYPED"
  "op \<in> set LOGICAL \<Longrightarrow> op \<in> set BINARY"
  unfolding set_BINARY set_COMPARISONS
  by (use op_groups_disjoint [unfolded disjoint_iff] in \<open>auto simp: subset_iff\<close>)

text \<open>The width, signedness and result width that \<open>binary\<close> computes from its operands.\<close>

definition op_common :: "string \<Rightarrow> fvalue \<Rightarrow> fvalue \<Rightarrow> int option \<Rightarrow> int" where
  "op_common op l r w =
     (let c = (if op \<in> set LEFT_TYPED then vwidth l else max (vwidth l) (vwidth r))
      in if op \<in> set COMPARISONS then c else max c (width_or w c))"

definition op_signed :: "string \<Rightarrow> fvalue \<Rightarrow> fvalue \<Rightarrow> bool" where
  "op_signed op l r = (if op \<in> set LEFT_TYPED then vsigned l else vsigned l \<and> vsigned r)"

definition op_out :: "string \<Rightarrow> fvalue \<Rightarrow> fvalue \<Rightarrow> int option \<Rightarrow> int" where
  "op_out op l r w = (if op \<in> set COMPARISONS \<or> op \<in> set LOGICAL then 1 else width_or w (op_common op l r w))"

definition op_left :: "string \<Rightarrow> fvalue \<Rightarrow> fvalue \<Rightarrow> int option \<Rightarrow> fvalue" where
  "op_left op l r w = \<lparr>vbits = resize_bits (vbits l) (nat (op_common op l r w)) (op_signed op l r),
                       vsigned = op_signed op l r\<rparr>"

definition op_right :: "string \<Rightarrow> fvalue \<Rightarrow> fvalue \<Rightarrow> int option \<Rightarrow> fvalue" where
  "op_right op l r w =
     (if op \<in> set LEFT_TYPED then r
      else \<lparr>vbits = resize_bits (vbits r) (nat (op_common op l r w)) (op_signed op l r),
            vsigned = op_signed op l r\<rparr>)"

definition width_ok :: "int option \<Rightarrow> bool" where
  "width_ok w = (case w of None \<Rightarrow> True | Some n \<Rightarrow> 1 \<le> n \<and> n \<le> max_width)"

lemma width_or_bounds:
  "width_ok w \<Longrightarrow> 1 \<le> d \<Longrightarrow> d \<le> max_width \<Longrightarrow> 1 \<le> width_or w d \<and> width_or w d \<le> max_width"
  by (auto simp: width_ok_def width_or_def split: option.splits)

lemma op_common_bounds:
  assumes "value_ok l" "value_ok r" "width_ok w"
  shows "1 \<le> op_common op l r w" "op_common op l r w \<le> max_width"
  using value_ok_width [OF assms(1)] value_ok_width [OF assms(2)] width_or_bounds [OF assms(3)]
  by (simp_all add: op_common_def Let_def max_def)

lemma op_out_bounds:
  assumes "value_ok l" "value_ok r" "width_ok w"
  shows "1 \<le> op_out op l r w" "op_out op l r w \<le> max_width"
proof -
  have "1 \<le> max_width" by (simp add: max_width_def)
  with width_or_bounds [OF assms(3) op_common_bounds [OF assms, of op]]
  show "1 \<le> op_out op l r w" "op_out op l r w \<le> max_width"
    unfolding op_out_def by (auto split: if_splits)
qed

lemma op_left_ok:
  "value_ok l \<Longrightarrow> value_ok r \<Longrightarrow> width_ok w \<Longrightarrow>
     value_ok (op_left op l r w) \<and> vwidth (op_left op l r w) = op_common op l r w"
  using op_common_bounds [of l r w op] bits_ok_resize [of "vbits l" "op_common op l r w"]
  by (simp add: op_left_def value_ok_def vwidth_def)

lemma op_right_ok:
  "value_ok l \<Longrightarrow> value_ok r \<Longrightarrow> width_ok w \<Longrightarrow>
     value_ok (op_right op l r w) \<and>
     (op \<notin> set LEFT_TYPED \<longrightarrow> vwidth (op_right op l r w) = op_common op l r w)"
  using op_common_bounds [of l r w op] bits_ok_resize [of "vbits r" "op_common op l r w"]
  by (simp add: op_right_def value_ok_def vwidth_def)

lemma binary_unfold:
  assumes "value_ok l" "value_ok r" "width_ok w" "op \<in> set BINARY" "op \<notin> set LOGICAL"
  shows "binary op l r w =
    (let a = op_left op l r w; b = op_right op l r w; s = op_signed op l r; out = op_out op l r w in
     if op \<in> set EQUALITY then binary_equality op a b
     else if op \<in> set BITWISE then binary_bitwise op a b s out
     else if op \<in> set SHIFTS then binary_shift op a b s (op_common op l r w) out
     else binary_arith op a b s out)"
proof -
  have c: "1 \<le> op_common op l r w" "op_common op l r w \<le> max_width"
    using op_common_bounds [OF assms(1-3)] by auto
  have o: "check_width (op_out op l r w) = Inr ()"
    using op_out_bounds [OF assms(1-3)] by simp
  have out: "op_out op l r w = (if op \<in> set COMPARISONS then 1 else width_or w (op_common op l r w))"
    using assms(5) by (simp add: op_out_def)
  have sets: "set EQUALITY = {''==='', ''!=='', ''=='', ''!='', ''==?'', ''!=?''}"
    "set BITWISE = {''&'', ''|'', ''^'', ''~^'', ''^~''}" "set SHIFTS = {''<<'', ''>>'', ''<<<'', ''>>>''}"
    by (simp_all add: EQUALITY_def BITWISE_def SHIFTS_def)
  have a: "vresize l (op_common op l r w) (Some (op_signed op l r)) (Some (op_signed op l r)) False
      = Inr (op_left op l r w)"
    using assms(1) c by (simp add: vresize_eq op_left_def)
  have b: "(if op \<in> set LEFT_TYPED then Inr r
       else vresize r (op_common op l r w) (Some (op_signed op l r)) (Some (op_signed op l r)) False)
      = Inr (op_right op l r w)"
    using assms(2) c by (simp add: vresize_eq op_right_def)
  show ?thesis
    using assms(4,5) a b o unfolding out sets
    by (simp only: binary_def op_common_def op_signed_def Let_def not_not if_False if_True ebind.simps
      HOL.simp_thms cong: if_cong)
qed


lemma binary_group_eqs:
  assumes "value_ok l" "value_ok r" "width_ok w"
  shows "op \<in> set EQUALITY \<Longrightarrow> binary op l r w = binary_equality op (op_left op l r w) (op_right op l r w)"
    and "op \<in> set BITWISE \<Longrightarrow> binary op l r w =
      binary_bitwise op (op_left op l r w) (op_right op l r w) (op_signed op l r) (op_out op l r w)"
    and "op \<in> set SHIFTS \<Longrightarrow> binary op l r w =
      binary_shift op (op_left op l r w) r (op_signed op l r) (op_common op l r w) (op_out op l r w)"
    and "op \<in> set ARITHMETIC \<or> op \<in> set RELATIONAL \<Longrightarrow> binary op l r w =
      binary_arith op (op_left op l r w) (op_right op l r w) (op_signed op l r) (op_out op l r w)"
  by (use op_groupD [of op] in \<open>auto simp: binary_unfold [OF assms] op_right_def Let_def\<close>)

lemma binary_typed:
  assumes "value_ok l" "value_ok r" "width_ok w" "op \<in> set BINARY"
  shows "\<exists>v. binary op l r w = Inr v \<and> value_ok v \<and> vwidth v = op_out op l r w"
proof -
  have out: "1 \<le> op_out op l r w" "op_out op l r w \<le> max_width"
    using op_out_bounds [OF assms(1-3)] by auto
  have lr: "value_ok (op_left op l r w)" "vwidth (op_left op l r w) = op_common op l r w"
    "value_ok (op_right op l r w)"
    "op \<notin> set LEFT_TYPED \<Longrightarrow> vwidth (op_right op l r w) = op_common op l r w"
    using op_left_ok [OF assms(1-3)] op_right_ok [OF assms(1-3)] by auto
  note eqs = binary_group_eqs [OF assms(1-3)]
  from assms(4) consider "op \<in> set LOGICAL" | "op \<in> set EQUALITY" | "op \<in> set BITWISE"
    | "op \<in> set SHIFTS" | "op \<in> set ARITHMETIC \<or> op \<in> set RELATIONAL"
    unfolding set_BINARY by blast
  then show ?thesis
  proof cases
    case 1
    then show ?thesis
      using binary_logical_typed [OF 1, of l r] assms(4) by (simp add: binary_def op_out_def)
  next
    case 2
    then show ?thesis
      using binary_equality_typed eqs(1) op_groupD(1) by (simp add: op_out_def)
  next
    case 3
    then have "vwidth (op_left op l r w) = vwidth (op_right op l r w)" using lr op_groupD(2) by simp
    from binary_bitwise_typed [OF lr(1,3) this out] show ?thesis by (simp add: eqs(2) [OF 3])
  next
    case 4
    from binary_shift_typed [OF lr(1,2) out] show ?thesis by (simp add: eqs(3) [OF 4])
  next
    case 5
    then have "op \<in> set ARITHMETIC \<or> op \<in> {''<'', ''<='', ''>'', ''>=''} \<and> op_out op l r w = 1"
      using op_groupD(5) by (auto simp: op_out_def RELATIONAL_def)
    from binary_arith_typed [OF out this] show ?thesis by (simp add: eqs(4) [OF 5])
  qed
qed


section \<open>Arithmetic with wrap-around\<close>

text \<open>
  The integer a string of known bits stands for, and the reference for wrap-around: HOL's
  \<open>take_bit\<close> (unsigned) and \<open>signed_take_bit\<close> (two's complement).
\<close>

definition sint_bits :: "bool \<Rightarrow> string \<Rightarrow> int" where
  "sint_bits s b = (if s \<and> hd b = CHR ''1'' then bits_int b - 2 ^ length b else bits_int b)"

definition wrap :: "int \<Rightarrow> bool \<Rightarrow> int \<Rightarrow> int" where
  "wrap w s n = (if s then signed_take_bit (nat w - 1) n else take_bit (nat w) n)"

lemma vinteger_eq: "vknown v \<Longrightarrow> vinteger v = Inr (sint_bits (vsigned v) (vbits v))"
  by (simp add: vinteger_def sint_bits_def vwidth_def Let_def)

lemma vknown_bits_iff: "value_ok v \<Longrightarrow> vknown v \<longleftrightarrow> set (vbits v) \<subseteq> {CHR ''0'', CHR ''1''}"
  by (auto simp: vknown_iff value_ok_def bits_ok_def is_bit_def)

lemma sint_bits_int_bits:
  assumes "1 \<le> w"
  shows "sint_bits s (int_bits (nat w) (n mod 2 ^ nat w)) = wrap w s n"
proof -
  obtain k where k: "nat w = Suc k" using assms by (cases "nat w") auto
  have hd: "hd (int_bits (Suc k) (n mod 2 ^ Suc k)) = CHR ''1'' \<longleftrightarrow> bit n k"
    by (simp only: hd_int_bits take_bit_eq_mod [symmetric]) (simp add: bit_take_bit_iff)
  have val: "bits_int (int_bits (Suc k) (n mod 2 ^ Suc k)) = take_bit (Suc k) n"
    by (simp only: bits_int_int_bits) (simp add: take_bit_eq_mod)
  show ?thesis
    unfolding sint_bits_def wrap_def k hd val length_int_bits
    by (auto simp: signed_take_bit_eq_take_bit_minus)
qed

lemma number_integer:
  assumes "1 \<le> w" "w \<le> max_width"
  shows "\<exists>v. number n w s = Inr v \<and> vwidth v = w \<and> vsigned v = s \<and> vinteger v = Inr (wrap w s n)"
proof -
  let ?b = "int_bits (nat w) (n mod 2 ^ nat w)"
  have "vknown \<lparr>vbits = ?b, vsigned = s\<rparr>"
    using set_int_bits [of "nat w" "n mod 2 ^ nat w"] by (auto simp: vknown_iff)
  from vinteger_eq [OF this] show ?thesis
    using assms by (simp add: number_eq sint_bits_int_bits)
qed

lemma resize_grow:
  "length b \<le> w \<Longrightarrow> resize_bits b w e = replicate (w - length b) (if e then hd b else CHR ''0'') @ b"
  by (simp add: resize_bits_def rjust_def)

lemma hd_known: "set b \<subseteq> {CHR ''0'', CHR ''1''} \<Longrightarrow> b \<noteq> [] \<Longrightarrow> hd b = CHR ''0'' \<or> hd b = CHR ''1''"
  using hd_in_set by blast

lemma sint_bits_grow:
  assumes b: "b \<noteq> []" "set b \<subseteq> {CHR ''0'', CHR ''1''}" and w: "length b \<le> w"
  shows "sint_bits s (resize_bits b w s) = sint_bits s b"
proof -
  let ?k = "w - length b"
  have p: "(2::int) ^ (?k + length b) = 2 ^ ?k * 2 ^ length b" by (simp add: power_add)
  have h: "hd (replicate ?k c @ b) = (if ?k = 0 then hd b else c)" for c
    by (cases ?k) (simp_all add: hd_append)
  consider "\<not> s" | "s" "hd b = CHR ''0''" | "s" "hd b = CHR ''1''" using hd_known [OF b(2,1)] by blast
  then show ?thesis
  proof cases
    case 1
    then show ?thesis by (simp add: sint_bits_def resize_grow [OF w] bits_int_append)
  next
    case 2
    then show ?thesis by (simp add: sint_bits_def resize_grow [OF w] h bits_int_append)
  next
    case 3
    then have "bits_int (resize_bits b w s) = (2 ^ ?k - 1) * 2 ^ length b + bits_int b"
      by (simp add: resize_grow [OF w] bits_int_append bits_int_replicate_one)
    moreover have "(2::int) ^ w = 2 ^ ?k * 2 ^ length b" using p w by simp
    ultimately show ?thesis using 3 h [of "CHR ''1''"]
      by (simp add: sint_bits_def resize_grow [OF w] algebra_simps)
  qed
qed

lemma known_grow:
  "b \<noteq> [] \<Longrightarrow> set b \<subseteq> {CHR ''0'', CHR ''1''} \<Longrightarrow> set (resize_bits b w e) \<subseteq> {CHR ''0'', CHR ''1''}"
  using set_resize_bits [of b w e] by auto

lemma op_operands_known:
  assumes ok: "value_ok l" "value_ok r" "width_ok w" and k: "vknown l" "vknown r"
  shows "vknown (op_left op l r w)"
    and "vinteger (op_left op l r w) = Inr (sint_bits (op_signed op l r) (vbits l))"
    and "vknown (op_right op l r w)"
    and "vinteger (op_right op l r w) =
      Inr (sint_bits (if op \<in> set LEFT_TYPED then vsigned r else op_signed op l r) (vbits r))"
proof -
  have kl: "vbits l \<noteq> []" "set (vbits l) \<subseteq> {CHR ''0'', CHR ''1''}"
    and kr: "vbits r \<noteq> []" "set (vbits r) \<subseteq> {CHR ''0'', CHR ''1''}"
    using ok(1,2) k vknown_bits_iff by (auto simp: value_ok_def bits_ok_def)
  have wl: "length (vbits l) \<le> nat (op_common op l r w)"
    and wr: "op \<notin> set LEFT_TYPED \<Longrightarrow> length (vbits r) \<le> nat (op_common op l r w)"
    by (auto simp: op_common_def vwidth_def Let_def)
  have okl: "value_ok (op_left op l r w)" using op_left_ok [OF ok] by simp
  have okr: "value_ok (op_right op l r w)" using op_right_ok [OF ok] by simp
  show vl: "vknown (op_left op l r w)"
    unfolding vknown_bits_iff [OF okl] by (simp add: op_left_def known_grow [OF kl])
  show vr: "vknown (op_right op l r w)"
    unfolding vknown_bits_iff [OF okr] using kr known_grow [OF kr] by (simp add: op_right_def)
  show "vinteger (op_left op l r w) = Inr (sint_bits (op_signed op l r) (vbits l))"
    unfolding vinteger_eq [OF vl] by (simp add: op_left_def sint_bits_grow [OF kl wl])
  show "vinteger (op_right op l r w) =
      Inr (sint_bits (if op \<in> set LEFT_TYPED then vsigned r else op_signed op l r) (vbits r))"
    unfolding vinteger_eq [OF vr] by (simp add: op_right_def sint_bits_grow [OF kr wr])
qed

text \<open>The signedness under which the right operand is read.\<close>

definition right_signed :: "string \<Rightarrow> fvalue \<Rightarrow> fvalue \<Rightarrow> bool" where
  "right_signed op l r = (if op \<in> set LEFT_TYPED then vsigned r else op_signed op l r)"

lemma binary_arithmetic_known:
  assumes ok: "value_ok l" "value_ok r" "width_ok w" and k: "vknown l" "vknown r"
    and op: "op \<in> set ARITHMETIC"
  shows "binary op l r w =
    arith_value (arith_spec op (sint_bits (op_signed op l r) (vbits l)) (sint_bits (right_signed op l r) (vbits r)))
      (op_out op l r w) (op_signed op l r)"
  using binary_group_eqs(4) [OF ok, of op] op op_operands_known [OF ok k, of op]
  by (simp add: binary_arith_eq [OF op] right_signed_def)

lemma binary_relational_known:
  assumes ok: "value_ok l" "value_ok r" "width_ok w" and k: "vknown l" "vknown r"
    and op: "op \<in> set RELATIONAL"
  shows "binary op l r w = mk_value
    [if compare_spec op (sint_bits (op_signed op l r) (vbits l)) (sint_bits (op_signed op l r) (vbits r))
     then CHR ''1'' else CHR ''0''] False"
  using binary_group_eqs(4) [OF ok, of op] op op_operands_known [OF ok k, of op] op_groupD(5) [OF op]
  by (simp add: binary_compare_eq RELATIONAL_def)

end
