(* ===== verification/Four_State_Order.thy ===== *)
theory Four_State_Order
  imports Four_State_Laws
begin

text \<open>
  Soundness of unknown bits. \<open>le_bits b b'\<close> says that \<open>b'\<close> is a possible resolution of \<open>b\<close>:
  every bit of \<open>b\<close> that is not x or z is the same in \<open>b'\<close>. An operator is sound when it is
  monotone in this order: a result bit computed as 0 or 1 from partly unknown operands is
  the bit that every resolution of the operands yields.
\<close>

definition bit_le :: "char \<Rightarrow> char \<Rightarrow> bool" where
  "bit_le x y \<longleftrightarrow> isxz x \<or> x = y"

definition le_bits :: "string \<Rightarrow> string \<Rightarrow> bool" where
  "le_bits b b' \<longleftrightarrow> list_all2 bit_le b b'"

definition value_le :: "fvalue \<Rightarrow> fvalue \<Rightarrow> bool" where
  "value_le v v' \<longleftrightarrow> le_bits (vbits v) (vbits v') \<and> vsigned v = vsigned v'"

lemma bit_le_refl [simp]: "bit_le x x"
  by (simp add: bit_le_def)

lemma bit_le_x [simp]: "bit_le CHR ''x'' y"
  by (simp add: bit_le_def isxz_def)

lemma le_bits_refl [simp]: "le_bits b b"
  by (simp add: le_bits_def list_all2_refl)

lemma le_bits_length: "le_bits b b' \<Longrightarrow> length b' = length b"
  by (simp add: le_bits_def list_all2_lengthD)

lemma le_bits_single [simp]: "le_bits [c] [d] \<longleftrightarrow> bit_le c d"
  by (simp add: le_bits_def)

lemma le_bits_all_x: "length b = n \<Longrightarrow> le_bits (replicate n CHR ''x'') b"
  by (auto simp: le_bits_def list_all2_conv_all_nth)

lemma le_bits_append: "le_bits a a' \<Longrightarrow> le_bits b b' \<Longrightarrow> le_bits (a @ b) (a' @ b')"
  by (simp add: le_bits_def list_all2_appendI)

lemma le_bits_replicate: "bit_le c d \<Longrightarrow> le_bits (replicate n c) (replicate n d)"
  by (auto simp: le_bits_def list_all2_conv_all_nth)

lemma le_bits_take: "le_bits b b' \<Longrightarrow> le_bits (take n b) (take n b')"
  by (simp add: le_bits_def list_all2_takeI)

lemma le_bits_drop: "le_bits b b' \<Longrightarrow> le_bits (drop n b) (drop n b')"
  by (simp add: le_bits_def list_all2_dropI)

lemma le_bits_hd: "le_bits b b' \<Longrightarrow> b \<noteq> [] \<Longrightarrow> bit_le (hd b) (hd b')"
  by (cases b; cases b') (auto simp: le_bits_def)

lemma le_bits_known:
  "le_bits b b' \<Longrightarrow> CHR ''x'' \<notin> set b \<Longrightarrow> CHR ''z'' \<notin> set b \<Longrightarrow> b' = b"
  unfolding le_bits_def by (induction rule: list_all2_induct) (auto simp: bit_le_def isxz_def)

lemma le_bits_mem: "le_bits b b' \<Longrightarrow> c \<in> set b \<Longrightarrow> \<not> isxz c \<Longrightarrow> c \<in> set b'"
  unfolding le_bits_def by (induction rule: list_all2_induct) (auto simp: bit_le_def)

lemma le_bits_map2:
  assumes "le_bits a a'" "le_bits b b'"
    and "\<And>x x' y y'. bit_le x x' \<Longrightarrow> bit_le y y' \<Longrightarrow> bit_le (f x y) (f x' y')"
  shows "le_bits (map2 f a b) (map2 f a' b')"
  using assms by (auto simp: le_bits_def list_all2_conv_all_nth)

lemma le_bits_resize:
  assumes "le_bits b b'" "b \<noteq> []"
  shows "le_bits (resize_bits b w e) (resize_bits b' w e)"
proof -
  have l: "length b' = length b" using le_bits_length [OF assms(1)] .
  show ?thesis
    unfolding resize_bits_def rjust_def last_n_def l length_drop
    by (intro le_bits_append le_bits_replicate le_bits_drop assms(1))
       (use le_bits_hd [OF assms] in simp)
qed

lemma invert_mono: "bit_le x y \<Longrightarrow> bit_le (invert x) (invert y)"
  by (auto simp: bit_le_def invert_def isxz_def)

lemma vknown_le: "value_le v v' \<Longrightarrow> vknown v \<Longrightarrow> v' = v"
  using le_bits_known [of "vbits v" "vbits v'"] by (cases v; cases v') (simp add: value_le_def vknown_iff)

lemma vtruth_mono:
  assumes "value_le v v'"
  shows "bit_le (vtruth v) (vtruth v')"
proof (cases "vknown v")
  case True
  then show ?thesis using vknown_le [OF assms] by simp
next
  case False
  have "CHR ''1'' \<in> set (vbits v')" if "CHR ''1'' \<in> set (vbits v)"
    using assms that le_bits_mem [of "vbits v" "vbits v'" "CHR ''1''"]
    by (simp add: value_le_def isxz_def)
  with False show ?thesis by (simp add: vtruth_def)
qed

lemma logic_mono:
  assumes "op \<in> {''&&'', ''||''}" "bit_le a a'" "bit_le b b'"
  shows "\<exists>c c'. logic op a b = Inr c \<and> logic op a' b' = Inr c' \<and> bit_le c c'"
  using assms by (elim insertE emptyE) (auto simp: logic_def bit_le_def isxz_def)

lemma bitwise_fun_mono:
  assumes "bit_le x x'" "bit_le y y'"
  shows "bit_le (bitwise_fun op x y) (bitwise_fun op x' y')"
proof (cases "op \<in> {''&'', ''|''}")
  case True
  let ?c = "\<lambda>c. if is01 c then c else CHR ''x''"
  have "bit_le (?c x) (?c x')" "bit_le (?c y) (?c y')"
    using assms by (auto simp: bit_le_def is01_def isxz_def)
  from logic_mono [OF _ this, of "if op = ''&'' then ''&&'' else ''||''"] True show ?thesis
    by (auto simp: bitwise_fun_def bitwise_bit_def)
next
  case False
  let ?x = "\<lambda>x y. if is01 x \<and> is01 y then (if x \<noteq> y then CHR ''1'' else CHR ''0'') else CHR ''x''"
  have "bit_le (?x x y) (?x x' y')"
    using assms by (auto simp: bit_le_def is01_def isxz_def)
  with False show ?thesis
    using invert_mono by (simp add: bitwise_fun_def bitwise_bit_def Let_def)
qed

section \<open>Equality under resolution\<close>

definition eq_char :: "(char \<times> char) list \<Rightarrow> char" where
  "eq_char ps =
     (if list_ex (\<lambda>(x, y). is01 x \<and> is01 y \<and> x \<noteq> y) ps then CHR ''0''
      else if list_ex (\<lambda>(x, y). isxz x \<or> isxz y) ps then CHR ''x'' else CHR ''1'')"

definition pair_le :: "char \<times> char \<Rightarrow> char \<times> char \<Rightarrow> bool" where
  "pair_le p q \<longleftrightarrow> bit_le (fst p) (fst q) \<and> bit_le (snd p) (snd q)"

lemma eq_char_mono:
  assumes "list_all2 pair_le ps qs"
  shows "bit_le (eq_char ps) (eq_char qs)"
proof -
  have diff: "list_ex (\<lambda>(x, y). is01 x \<and> is01 y \<and> x \<noteq> y) ps \<Longrightarrow>
      list_ex (\<lambda>(x, y). is01 x \<and> is01 y \<and> x \<noteq> y) qs"
    using assms by (induction rule: list_all2_induct)
      (auto simp: pair_le_def bit_le_def is01_def isxz_def)
  have same: "\<not> list_ex (\<lambda>(x, y). isxz x \<or> isxz y) ps \<Longrightarrow> qs = ps"
    using assms by (induction rule: list_all2_induct) (auto simp: pair_le_def bit_le_def)
  show ?thesis
    using diff same by (auto simp: eq_char_def)
qed

lemma zip_pair_le:
  "le_bits a a' \<Longrightarrow> le_bits b b' \<Longrightarrow> list_all2 pair_le (zip a b) (zip a' b')"
  by (auto simp: le_bits_def list_all2_conv_all_nth pair_le_def)

lemma filter_pair_le:
  assumes "le_bits a a'"
  shows "list_all2 pair_le (filter (\<lambda>(x, y). \<not> isxz y) (zip a b)) (filter (\<lambda>(x, y). \<not> isxz y) (zip a' b))"
  using assms unfolding le_bits_def
  by (induction arbitrary: b rule: list_all2_induct) (auto simp: pair_le_def split: list.splits nat.splits simp: zip_Cons1)

lemma binary_equality_mono:
  assumes "le_bits (vbits a) (vbits a')" "le_bits (vbits b) (vbits b')"
    and "op \<in> {''=='', ''!=''} \<or> op \<in> {''==?'', ''!=?''} \<and> vbits b' = vbits b"
  shows "\<exists>v v'. binary_equality op a b = Inr v \<and> binary_equality op a' b' = Inr v' \<and>
     le_bits (vbits v) (vbits v')"
proof -
  note z = eq_char_mono [OF zip_pair_le [OF assms(1,2)]]
  have e: "is_bit (eq_char ps)" for ps by (simp add: eq_char_def)
  from assms(3) show ?thesis
  proof
    assume "op \<in> {''=='', ''!=''}"
    then show ?thesis
      using z invert_mono [OF z]
      by (elim insertE emptyE; simp add: binary_equality_def Let_def e flip: eq_char_def)
  next
    assume o: "op \<in> {''==?'', ''!=?''} \<and> vbits b' = vbits b"
    note f = eq_char_mono [OF filter_pair_le [OF assms(1), of "vbits b"]]
    from o show ?thesis
      using f invert_mono [OF f]
      by (elim conjE insertE emptyE; simp add: binary_equality_def Let_def e flip: eq_char_def)
  qed
qed
text \<open>A decided mismatch of two bits is decided for every resolution, also of a wildcard pattern.\<close>

lemma mismatch_mono:
  assumes "le_bits a a'" "le_bits b b'"
    and "\<exists>(x, y) \<in> set (zip a b). is01 x \<and> is01 y \<and> x \<noteq> y"
  shows "\<exists>(x, y) \<in> set (zip a' b'). is01 x \<and> is01 y \<and> x \<noteq> y"
proof -
  have l: "length a' = length a" "length b' = length b" using assms(1,2) le_bits_length by auto
  obtain i where i: "i < length a" "i < length b" "is01 (a ! i)" "is01 (b ! i)" "a ! i \<noteq> b ! i"
    using assms(3) by (auto simp: in_set_zip)
  have "bit_le (a ! i) (a' ! i)" "bit_le (b ! i) (b' ! i)"
    using assms(1,2) i(1,2) by (auto simp: le_bits_def list_all2_conv_all_nth)
  then have "a' ! i = a ! i" "b' ! i = b ! i" using i(3,4) by (auto simp: bit_le_def isxz_def is01_def)
  then show ?thesis using i l by (intro bexI [of _ "(a' ! i, b' ! i)"]) (auto simp: in_set_zip)
qed

lemma wildcard_mismatch:
  assumes "op \<in> {''==?'', ''!=?''}" "binary_equality op a b = Inr v"
  shows "vbits v = (if op = ''==?'' then ''0'' else ''1'') \<longleftrightarrow>
     (\<exists>(x, y) \<in> set (zip (vbits a) (vbits b)). is01 x \<and> is01 y \<and> x \<noteq> y)"
proof -
  have "list_ex (\<lambda>(x, y). is01 x \<and> is01 y \<and> x \<noteq> y) (filter (\<lambda>(x, y). \<not> isxz y) (zip (vbits a) (vbits b))) \<longleftrightarrow>
      (\<exists>(x, y) \<in> set (zip (vbits a) (vbits b)). is01 x \<and> is01 y \<and> x \<noteq> y)"
    by (fastforce simp: list_ex_iff isxz_def is01_def)
  then show ?thesis
    using assms by (elim insertE emptyE) (auto simp: binary_equality_def Let_def invert_def split: if_splits)
qed

lemma case_equality_literal:
  assumes "op \<in> {''==='', ''!==''}"
  shows "\<exists>v. binary_equality op a b = Inr v \<and>
     vbits v = [if (vbits a = vbits b) = (op = ''==='') then CHR ''1'' else CHR ''0'']"
  using assms by (elim insertE emptyE) (auto simp: binary_equality_def Let_def invert_def)

section \<open>The binary operators\<close>

lemma op_operands_mono:
  assumes "value_ok l" "value_ok r" "value_le l l'" "value_le r r'"
  shows "op_common op l' r' w = op_common op l r w" "op_signed op l' r' = op_signed op l r"
    "op_out op l' r' w = op_out op l r w"
    "value_le (op_left op l r w) (op_left op l' r' w)" "value_le (op_right op l r w) (op_right op l' r' w)"
proof -
  have w: "vwidth l' = vwidth l" "vwidth r' = vwidth r" "vsigned l' = vsigned l" "vsigned r' = vsigned r"
    using assms(3,4) le_bits_length by (auto simp: value_le_def vwidth_def)
  show c: "op_common op l' r' w = op_common op l r w" and g: "op_signed op l' r' = op_signed op l r"
    by (simp_all add: op_common_def op_signed_def w)
  then show "op_out op l' r' w = op_out op l r w" by (simp add: op_out_def)
  have ne: "vbits l \<noteq> []" "vbits r \<noteq> []" using assms(1,2) by (auto simp: value_ok_def bits_ok_def)
  show "value_le (op_left op l r w) (op_left op l' r' w)"
    using assms(3) ne c g by (simp add: op_left_def value_le_def le_bits_resize)
  show "value_le (op_right op l r w) (op_right op l' r' w)"
    using assms(4) ne c g by (simp add: op_right_def value_le_def le_bits_resize)
qed

lemma binary_bitwise_mono:
  assumes "value_ok a" "value_ok b" "value_ok a'" "value_ok b'" "vwidth a = vwidth b"
    and "value_le a a'" "value_le b b'" "1 \<le> w" "w \<le> max_width"
  shows "\<exists>v v'. binary_bitwise op a b s w = Inr v \<and> binary_bitwise op a' b' s w = Inr v' \<and>
     le_bits (vbits v) (vbits v')"
proof -
  have le: "le_bits (vbits a) (vbits a')" "le_bits (vbits b) (vbits b')"
    using assms(6,7) by (auto simp: value_le_def)
  then have "vwidth a' = vwidth b'" using assms(5) le_bits_length by (simp add: vwidth_def)
  moreover have "map2 (bitwise_fun op) (vbits a) (vbits b) \<noteq> []"
    using assms(1,2) by (auto simp: value_ok_def bits_ok_def zip_eq_Nil_iff)
  ultimately show ?thesis
    using assms le_bits_resize [OF le_bits_map2 [OF le bitwise_fun_mono]]
    by (simp add: binary_bitwise_eq)
qed

lemma shift_bits_mono:
  assumes "le_bits b b'" "b \<noteq> []"
  shows "le_bits (shift_bits op b n s) (shift_bits op b' n s)"
proof -
  have L: "le_bits (drop n b @ replicate n CHR ''0'') (drop n b' @ replicate n CHR ''0'')"
    by (intro le_bits_append le_bits_drop assms(1) le_bits_refl)
  have R: "le_bits (replicate n (if P then hd b else CHR ''0'') @ take m b)
      (replicate n (if P then hd b' else CHR ''0'') @ take m b')" for P m
    by (intro le_bits_append le_bits_take assms(1) le_bits_replicate) (use le_bits_hd [OF assms] in simp)
  show ?thesis
    unfolding shift_bits_def le_bits_length [OF assms(1)] using L R by (simp del: insert_iff)
qed

lemma binary_shift_mono:
  assumes a: "value_ok a" "value_ok a'" "vwidth a = common" "value_le a a'" "value_le b b'"
    and w: "1 \<le> w" "w \<le> max_width"
  shows "\<exists>v v'. binary_shift op a b s common w = Inr v \<and> binary_shift op a' b' s common w = Inr v' \<and>
     le_bits (vbits v) (vbits v')"
proof (cases "vknown b")
  case False
  obtain v' where "binary_shift op a' b' s common w = Inr v'" "vwidth v' = w"
    using binary_shift_typed [of a' common w op b' s] a w le_bits_length
    by (auto simp: value_le_def vwidth_def)
  then show ?thesis
    using False w by (simp add: binary_shift_def unknown_eq le_bits_all_x vwidth_def)
next
  case True
  then have b: "b' = b" using vknown_le a(5) by blast
  let ?n = "nat (min (bits_int (vbits b)) common)"
  have le: "le_bits (vbits a) (vbits a')" and ne: "vbits a \<noteq> []" and c: "vwidth a' = common"
    using a le_bits_length by (auto simp: value_le_def value_ok_def bits_ok_def vwidth_def)
  have "bits_ok (shift_bits op (vbits a) ?n s)"
    using a(1,3) by (intro bits_ok_shift) (auto simp: value_ok_def vwidth_def)
  then have "shift_bits op (vbits a) ?n s \<noteq> []" by (simp add: bits_ok_def)
  from le_bits_resize [OF shift_bits_mono [OF le ne] this] show ?thesis
    by (simp add: b binary_shift_eq [OF a(1,3) True w] binary_shift_eq [OF a(2) c True w])
qed

lemma binary_arith_mono:
  assumes "value_le a a'" "value_le b b'" "1 \<le> w" "w \<le> max_width"
    and op: "op \<in> set ARITHMETIC \<or> op \<in> {''<'', ''<='', ''>'', ''>=''} \<and> w = 1"
  shows "\<exists>v v'. binary_arith op a b s w = Inr v \<and> binary_arith op a' b' s w = Inr v' \<and>
     le_bits (vbits v) (vbits v')"
proof -
  obtain v v' where v: "binary_arith op a b s w = Inr v" "vwidth v = w"
      "binary_arith op a' b' s w = Inr v'" "vwidth v' = w"
    using binary_arith_typed [OF assms(3,4) op] by meson
  have "le_bits (vbits v) (vbits v')"
  proof (cases "vknown a \<and> vknown b")
    case True
    then have "a' = a" "b' = b" using vknown_le assms(1,2) by auto
    with v show ?thesis by simp
  next
    case False
    then have "vbits v = replicate (nat w) CHR ''x''"
      using v(1) assms(3,4) by (auto simp: binary_arith_def unknown_eq)
    moreover have "length (vbits v') = nat w" using v(4) by (auto simp: vwidth_def)
    ultimately show ?thesis by (simp add: le_bits_all_x)
  qed
  with v show ?thesis by blast
qed

lemma iff_bit_mono:
  "bit_le x x' \<Longrightarrow> bit_le y y' \<Longrightarrow>
   bit_le (if is01 x \<and> is01 y then (if x = y then CHR ''1'' else CHR ''0'') else CHR ''x'')
     (if is01 x' \<and> is01 y' then (if x' = y' then CHR ''1'' else CHR ''0'') else CHR ''x'')"
  by (auto simp: bit_le_def is01_def isxz_def)

lemma binary_logical_mono:
  assumes "op \<in> set LOGICAL" "value_le a a'" "value_le b b'"
  shows "\<exists>v v'. binary_logical op a b = Inr v \<and> binary_logical op a' b' = Inr v' \<and>
     le_bits (vbits v) (vbits v')"
proof -
  have t: "bit_le (vtruth a) (vtruth a')" "bit_le (vtruth b) (vtruth b')"
    using assms(2,3) vtruth_mono by auto
  let ?eq = "\<lambda>x y. if is01 x \<and> is01 y then (if x = y then CHR ''1'' else CHR ''0'') else CHR ''x''"
  have eq: "bit_le (?eq (vtruth a) (vtruth b)) (?eq (vtruth a') (vtruth b'))"
    using iff_bit_mono [OF t] .
  have "op \<in> {''&&'', ''||'', ''->'', ''<->''}" using assms(1) by (simp add: LOGICAL_def)
  then consider "op \<in> {''&&'', ''||''}" | "op = ''->''" | "op = ''<->''" by auto
  then show ?thesis
  proof cases
    case 1
    obtain c c' where c: "logic op (vtruth a) (vtruth b) = Inr c" "logic op (vtruth a') (vtruth b') = Inr c'"
        "bit_le c c'"
      using logic_mono [OF 1 t] by blast
    moreover have "is_bit c" "is_bit c'" using c logic_typed [OF 1] by (metis sum.inject(2))+
    moreover have "op \<noteq> ''->''" "op \<noteq> ''<->''" using 1 by auto
    ultimately show ?thesis by (simp add: binary_logical_def)
  next
    case 2
    have o: "''||'' \<in> {''&&'', ''||''}" by simp
    obtain c c' where c: "logic ''||'' (invert (vtruth a)) (vtruth b) = Inr c"
        "logic ''||'' (invert (vtruth a')) (vtruth b') = Inr c'" "bit_le c c'"
      using logic_mono [OF o invert_mono [OF t(1)] t(2)] by blast
    moreover have "is_bit c" "is_bit c'" using c logic_typed [OF o] by (metis sum.inject(2))+
    ultimately show ?thesis using 2 by (simp add: binary_logical_def)
  next
    case 3
    then show ?thesis using eq by (simp add: binary_logical_def Let_def split del: if_split)
  qed
qed

text \<open>The two case-equality operators compare x and z literally, so they are not sound in this sense.\<close>

definition RESOLVABLE :: "string \<Rightarrow> fvalue \<Rightarrow> fvalue \<Rightarrow> bool" where
  "RESOLVABLE op r r' \<longleftrightarrow> op \<in> set BINARY \<and> op \<notin> {''==='', ''!==''} \<and>
     (op \<in> {''==?'', ''!=?''} \<longrightarrow> r' = r)"

lemma binary_mono:
  assumes ok: "value_ok l" "value_ok r" "value_ok l'" "value_ok r'" "width_ok w"
    and le: "value_le l l'" "value_le r r'" and op: "RESOLVABLE op r r'"
  shows "\<exists>v v'. binary op l r w = Inr v \<and> binary op l' r' w = Inr v' \<and> le_bits (vbits v) (vbits v')"
proof -
  note eqs = binary_group_eqs [OF ok(1,2,5)] and eqs' = binary_group_eqs [OF ok(3,4,5)]
  note m = op_operands_mono [OF ok(1,2) le]
  have out: "1 \<le> op_out op l r w" "op_out op l r w \<le> max_width"
    using op_out_bounds [OF ok(1,2,5)] by auto
  have lr: "value_ok (op_left op l r w)" "vwidth (op_left op l r w) = op_common op l r w"
      "value_ok (op_right op l r w)" "value_ok (op_left op l' r' w)" "value_ok (op_right op l' r' w)"
      "op \<notin> set LEFT_TYPED \<Longrightarrow> vwidth (op_right op l r w) = op_common op l r w"
    using op_left_ok [OF ok(1,2,5)] op_right_ok [OF ok(1,2,5)] op_left_ok [OF ok(3,4,5)]
      op_right_ok [OF ok(3,4,5)] by auto
  have "op \<in> set BINARY" using op by (simp add: RESOLVABLE_def)
  then consider "op \<in> set LOGICAL" | "op \<in> set EQUALITY" | "op \<in> set BITWISE"
    | "op \<in> set SHIFTS" | "op \<in> set ARITHMETIC \<or> op \<in> set RELATIONAL"
    unfolding set_BINARY by blast
  then show ?thesis
  proof cases
    case 1
    then show ?thesis using binary_logical_mono [OF 1 le] op_groupD(6) by (simp add: binary_def)
  next
    case 2
    then have "op \<in> {''=='', ''!=''} \<or> op \<in> {''==?'', ''!=?''} \<and>
        vbits (op_right op l' r' w) = vbits (op_right op l r w)"
      using op m(1,2) op_groupD(1) [OF 2] by (auto simp: EQUALITY_def RESOLVABLE_def op_right_def)
    then show ?thesis
      using binary_equality_mono m(4,5) by (simp add: eqs(1) [OF 2] eqs'(1) [OF 2] value_le_def)
  next
    case 3
    then show ?thesis
      using binary_bitwise_mono [OF lr(1,3,4,5) _ m(4,5) out] lr(2,6) op_groupD(2) m(2,3)
      by (simp add: eqs(2) [OF 3] eqs'(2) [OF 3])
  next
    case 4
    then show ?thesis
      using binary_shift_mono [OF lr(1,4,2) m(4) le(2) out] m(1-3)
      by (simp add: eqs(3) [OF 4] eqs'(3) [OF 4])
  next
    case 5
    then have "op \<in> set ARITHMETIC \<or> op \<in> {''<'', ''<='', ''>'', ''>=''} \<and> op_out op l r w = 1"
      using op_groupD(5) by (auto simp: op_out_def RELATIONAL_def)
    from binary_arith_mono [OF m(4,5) out this] show ?thesis
      using m(2,3) by (simp add: eqs(4) [OF 5] eqs'(4) [OF 5])
  qed
qed

section \<open>The conditional operator\<close>

lemma conditional_eq:
  assumes "value_ok l" "value_ok r" "width_ok w"
  defines "n \<equiv> width_or w (max (vwidth l) (vwidth r))" and "s \<equiv> vsigned l \<and> vsigned r"
  shows "conditional c l r w = Inr \<lparr>vbits =
     (if vtruth c = CHR ''1'' then resize_bits (vbits l) (nat n) s
      else if vtruth c = CHR ''0'' then resize_bits (vbits r) (nat n) s
      else map2 merge_bit (resize_bits (vbits l) (nat n) s) (resize_bits (vbits r) (nat n) s)), vsigned = s\<rparr>"
proof -
  have n: "1 \<le> n" "n \<le> max_width"
    using width_or_bounds [OF assms(3), of "max (vwidth l) (vwidth r)"] value_ok_width [OF assms(1)]
      value_ok_width [OF assms(2)] by (auto simp: n_def max_def)
  let ?m = "map2 merge_bit (resize_bits (vbits l) (nat n) s) (resize_bits (vbits r) (nat n) s)"
  have ok: "bits_ok (resize_bits (vbits l) (nat n) s)" "bits_ok (resize_bits (vbits r) (nat n) s)"
    using assms(1,2) bits_ok_resize n by (auto simp: value_ok_def)
  then have "bits_ok ?m"
    by (auto simp: bits_ok_def merge_bit_def zip_eq_Nil_iff dest!: set_zip_leftD)
  then show ?thesis
    using assms(1,2) n unfolding conditional_def Let_def n_def [symmetric] s_def [symmetric]
    by (auto simp: vresize_eq is01_def vtruth_def)
qed

lemma merge_mono: "le_bits a a' \<Longrightarrow> length b = length a \<Longrightarrow> le_bits (map2 merge_bit a b) a'"
  "le_bits b b' \<Longrightarrow> length b = length a \<Longrightarrow> le_bits (map2 merge_bit a b) b'"
  by (auto simp: le_bits_def list_all2_conv_all_nth merge_bit_def)

lemma merge_bit_mono: "bit_le x x' \<Longrightarrow> bit_le y y' \<Longrightarrow> bit_le (merge_bit x y) (merge_bit x' y')"
  by (auto simp: bit_le_def merge_bit_def isxz_def)

lemma conditional_mono:
  assumes ok: "value_ok l" "value_ok r" "value_ok l'" "value_ok r'" "width_ok w"
    and le: "value_le c c'" "value_le l l'" "value_le r r'"
  shows "\<exists>v v'. conditional c l r w = Inr v \<and> conditional c' l' r' w = Inr v' \<and> le_bits (vbits v) (vbits v')"
proof -
  have w: "vwidth l' = vwidth l" "vwidth r' = vwidth r" "vsigned l' = vsigned l" "vsigned r' = vsigned r"
    using le le_bits_length by (auto simp: value_le_def vwidth_def)
  define n where "n = nat (width_or w (max (vwidth l) (vwidth r)))"
  define s where "s = (vsigned l \<and> vsigned r)"
  have ne: "vbits l \<noteq> []" "vbits r \<noteq> []" using ok by (auto simp: value_ok_def bits_ok_def)
  have L: "le_bits (resize_bits (vbits l) n s) (resize_bits (vbits l') n s)"
    and R: "le_bits (resize_bits (vbits r) n s) (resize_bits (vbits r') n s)"
    using le ne le_bits_resize by (auto simp: value_le_def)
  have t: "bit_le (vtruth c) (vtruth c')" using vtruth_mono le(1) .
  let ?l = "resize_bits (vbits l) n s" and ?r = "resize_bits (vbits r) n s"
  let ?l' = "resize_bits (vbits l') n s" and ?r' = "resize_bits (vbits r') n s"
  have M: "le_bits (map2 merge_bit ?l ?r) ?l'" "le_bits (map2 merge_bit ?l ?r) ?r'"
    "le_bits (map2 merge_bit ?l ?r) (map2 merge_bit ?l' ?r')"
    by (simp_all add: merge_mono(1) [OF L] merge_mono(2) [OF R] le_bits_map2 [OF L R merge_bit_mono])
  have "vtruth c \<noteq> CHR ''z''" by (simp add: vtruth_def)
  then have "vtruth c = CHR ''x'' \<or> vtruth c' = vtruth c" using t by (auto simp: bit_le_def isxz_def)
  then show ?thesis
    using L R M
    unfolding conditional_eq [OF ok(1,2,5)] conditional_eq [OF ok(3,4,5)] w n_def [symmetric] s_def [symmetric]
    by auto
qed

end
