(* ===== verification/Four_State_Claims.thy ===== *)
theory Four_State_Claims
  imports Four_State_Order
begin

text \<open>
  What the four-state operators promise to their callers: totality and result widths,
  arithmetic with wrap-around against HOL's integers, soundness of unknown bits, the
  streaming operator as its own inverse, and \<open>$clog2\<close>.
\<close>

section \<open>Streaming and bit counting\<close>

lemma stream_groups_append:
  assumes "length ys = sz" "0 < sz"
  shows "stream_groups sz (xs @ ys) = ys @ stream_groups sz xs"
proof -
  have "ys \<noteq> []" using assms by auto
  then show ?thesis
    using assms by (subst stream_groups.simps) (simp add: last_n_def)
qed

lemma stream_groups_prepend:
  assumes "length ys = sz" "0 < sz"
  shows "length zs = k * sz \<Longrightarrow> stream_groups sz (ys @ zs) = stream_groups sz zs @ ys"
proof (induction k arbitrary: zs)
  case 0
  then show ?case using stream_groups_append [OF assms, of "[]"] by (simp add: stream_groups.simps)
next
  case (Suc k)
  let ?n = "length zs - sz"
  let ?a = "take ?n zs" and ?c = "drop ?n zs"
  have c: "length ?c = sz" and a: "length ?a = k * sz" using Suc.prems by auto
  have "stream_groups sz (ys @ ?a @ ?c) = ?c @ stream_groups sz (ys @ ?a)"
    using stream_groups_append [OF c assms(2), of "ys @ ?a"] by simp
  also have "\<dots> = ?c @ stream_groups sz ?a @ ys" using Suc.IH [OF a] by simp
  also have "\<dots> = stream_groups sz (?a @ ?c) @ ys" using stream_groups_append [OF c assms(2), of ?a] by simp
  finally show ?case by simp
qed

lemma stream_groups_involution:
  assumes "0 < sz"
  shows "length zs = k * sz \<Longrightarrow>
     length (stream_groups sz zs) = k * sz \<and> stream_groups sz (stream_groups sz zs) = zs"
proof (induction k arbitrary: zs)
  case 0
  then show ?case by (simp add: stream_groups.simps)
next
  case (Suc k)
  let ?n = "length zs - sz"
  let ?a = "take ?n zs" and ?c = "drop ?n zs"
  have c: "length ?c = sz" and a: "length ?a = k * sz" using Suc.prems by auto
  have s: "stream_groups sz (?a @ ?c) = ?c @ stream_groups sz ?a"
    using stream_groups_append [OF c assms] .
  have l: "length (stream_groups sz ?a) = k * sz" and i: "stream_groups sz (stream_groups sz ?a) = ?a"
    using Suc.IH [OF a] by auto
  have z: "?a @ ?c = zs" by simp
  show ?case
    using s stream_groups_prepend [OF c assms l] l i c unfolding z by simp
qed

lemma set_stream_groups: "set (stream_groups sz b) \<subseteq> set b"
proof (induction sz b rule: stream_groups.induct)
  case (1 sz b)
  show ?case
  proof (cases "b = [] \<or> sz = 0")
    case True
    then show ?thesis by (simp add: stream_groups.simps)
  next
    case False
    then have "stream_groups sz b = last_n sz b @ stream_groups sz (take (length b - sz) b)"
      by (subst stream_groups.simps) simp
    then show ?thesis
      using 1 [OF False] set_last_n [of sz b] set_take_subset [of "length b - sz" b] by auto
  qed
qed

lemma bit_length_bounds: "n < 2 ^ bit_length n \<and> (0 < n \<longrightarrow> 2 ^ (bit_length n - 1) \<le> n)"
proof (induction n rule: bit_length.induct)
  case (1 n)
  show ?case
  proof (cases "n = 0")
    case True
    then show ?thesis by simp
  next
    case False
    then have b: "bit_length n = Suc (bit_length (n div 2))" by (subst bit_length.simps) simp
    have u: "n div 2 < 2 ^ bit_length (n div 2)" using 1 [OF False] by blast
    then have "n < 2 * 2 ^ bit_length (n div 2)" by linarith
    moreover have "2 ^ bit_length (n div 2) \<le> n"
    proof (cases "n div 2 = 0")
      case True
      then show ?thesis using False by (simp add: bit_length.simps)
    next
      case n2: False
      then obtain m where m: "bit_length (n div 2) = Suc m"
        by (metis bit_length.simps)
      then have "2 ^ m \<le> n div 2" using 1 [OF False] n2 by simp
      then show ?thesis using m by simp
    qed
    ultimately show ?thesis using b by simp
  qed
qed

lemma bit_length_le:
  assumes "n < 2 ^ w"
  shows "bit_length n \<le> w"
proof (cases "n = 0")
  case False
  then have "2 ^ (bit_length n - 1) < (2::nat) ^ w" using bit_length_bounds [of n] assms by linarith
  then have "bit_length n - 1 < w" by (rule power_less_imp_less_exp [rotated]) simp
  then show ?thesis by simp
qed (simp add: bit_length.simps)

lemma wrap_small:
  assumes "0 \<le> n" "n < 2 ^ (nat w - 1)"
  shows "wrap w s n = n"
proof -
  have "(2::int) ^ (nat w - 1) \<le> 2 ^ nat w" by (rule power_increasing) auto
  then have "n < 2 ^ nat w" using assms(2) by linarith
  moreover have "0 < (2::int) ^ (nat w - 1)" by simp
  then have "- (2 ^ (nat w - 1)) \<le> n" using assms(1) by linarith
  ultimately show ?thesis
    using assms by (simp add: wrap_def take_bit_int_eq_self_iff signed_take_bit_int_eq_self_iff)
qed

section \<open>Properties\<close>

text \<open>On well-formed operands and a legal (or absent) context width, every binary operator of
  the four-state core returns normally; its result is a well-formed value whose width is 1 for a
  comparison or a logical operator and otherwise the context width, or the common operand width
  when there is none (the left operand's width for shifts and powers).\<close>

theorem binary_total:
  assumes "value_ok l" "value_ok r" "width_ok w" "op \<in> set BINARY"
  shows "\<exists>v. binary op l r w = Inr v \<and> value_ok v \<and> vwidth v = op_out op l r w"
  by (rule binary_typed [OF assms])

theorem binary_total_witness:
  "value_ok \<lparr>vbits = ''1x'', vsigned = True\<rparr> \<and>
   (\<exists>v. binary ''+'' \<lparr>vbits = ''1x'', vsigned = True\<rparr> \<lparr>vbits = ''011'', vsigned = True\<rparr> (Some 8) = Inr v
      \<and> vwidth v = 8)"
proof -
  have l: "value_ok \<lparr>vbits = ''1x'', vsigned = True\<rparr>" "value_ok \<lparr>vbits = ''011'', vsigned = True\<rparr>"
    and w: "width_ok (Some 8)" and o: "''+'' \<in> set BINARY"
    by (simp_all add: bits_ok_def max_width_def width_ok_def op_lists)
  have "op_out ''+'' \<lparr>vbits = ''1x'', vsigned = True\<rparr> \<lparr>vbits = ''011'', vsigned = True\<rparr> (Some 8) = 8"
    by (simp add: op_out_def op_common_def op_lists width_or_def)
  then show ?thesis using l binary_total [OF l w o] by auto
qed

text \<open>C19. On known operands the arithmetic operators compute HOL's integer arithmetic: the operands
  are read as unsigned or (when both are signed, or the left one for a power) two's complement
  integers, the exact result is wrapped to the result width, division and modulo truncate
  towards zero, and a division by zero (or zero to a negative power) gives an all-unknown value.\<close>

theorem binary_arithmetic_exact:
  assumes "value_ok l" "value_ok r" "width_ok w" "vknown l" "vknown r" "op \<in> set ARITHMETIC"
  defines "x \<equiv> sint_bits (op_signed op l r) (vbits l)" and "y \<equiv> sint_bits (right_signed op l r) (vbits r)"
  shows "\<exists>v. binary op l r w = Inr v \<and> vwidth v = op_out op l r w \<and> vsigned v = op_signed op l r \<and>
     (case arith_spec op x y of
        None \<Rightarrow> vbits v = replicate (nat (op_out op l r w)) CHR ''x''
      | Some n \<Rightarrow> vinteger v = Inr (wrap (op_out op l r w) (op_signed op l r) n))"
proof -
  note out = op_out_bounds [OF assms(1-3), of op]
  have b: "binary op l r w = arith_value (arith_spec op x y) (op_out op l r w) (op_signed op l r)"
    unfolding x_def y_def by (rule binary_arithmetic_known [OF assms(1-6)])
  show ?thesis
  proof (cases "arith_spec op x y")
    case None
    then show ?thesis using b out by (simp add: arith_value_def unknown_eq)
  next
    case (Some n)
    then show ?thesis using b number_integer [OF out, of n "op_signed op l r"] by (simp add: arith_value_def)
  qed
qed

theorem binary_arithmetic_exact_witness:
  "binary ''/'' \<lparr>vbits = ''1001'', vsigned = True\<rparr> \<lparr>vbits = ''0010'', vsigned = True\<rparr> None
     = Inr \<lparr>vbits = ''1101'', vsigned = True\<rparr> \<and>
   (\<exists>v. binary ''/'' \<lparr>vbits = ''1001'', vsigned = True\<rparr> \<lparr>vbits = ''0010'', vsigned = True\<rparr> None = Inr v
      \<and> vwidth v = 4)"
proof -
  let ?l = "\<lparr>vbits = ''1001'', vsigned = True\<rparr>" and ?r = "\<lparr>vbits = ''0010'', vsigned = True\<rparr>"
  have h: "value_ok ?l" "value_ok ?r" "width_ok None" "vknown ?l" "vknown ?r" "''/'' \<in> set ARITHMETIC"
    by (simp_all add: bits_ok_def max_width_def width_ok_def ARITHMETIC_def vknown_iff)
  have "op_out ''/'' ?l ?r None = 4" by code_simp
  moreover have "binary ''/'' ?l ?r None = Inr \<lparr>vbits = ''1101'', vsigned = True\<rparr>" by code_simp
  ultimately show ?thesis using binary_arithmetic_exact [OF h] by auto
qed

text \<open>C24. Unknown bits are sound, operator by operator. For every binary operator other than case
  and wildcard equality, replacing x and z bits of the operands by any other bits changes no result
  bit that was computed as 0 or 1. For wildcard equality (\<open>==?\<close>, \<open>!=?\<close>, whose right operand is a
  pattern) this holds in the left operand, and a decided mismatch stays one however the x and z of
  both sides are resolved. Case equality (\<open>===\<close>, \<open>!==\<close>) is not a question about resolutions: it
  is always decided, by the literal identity of the operands extended to their common width.\<close>

theorem binary_unknown_sound:
  assumes "value_ok l" "value_ok r" "value_ok l'" "value_ok r'" "width_ok w"
    and "value_le l l'" "value_le r r'" "op \<in> set BINARY"
  shows "\<exists>v v'. binary op l r w = Inr v \<and> binary op l' r' w = Inr v' \<and>
     (if op \<in> {''==='', ''!==''} then
        vbits v = [if (vbits (op_left op l r w) = vbits (op_right op l r w)) = (op = ''==='') then CHR ''1'' else CHR ''0'']
      else if op \<in> {''==?'', ''!=?''} \<and> r' \<noteq> r then
        vbits v = (if op = ''==?'' then ''0'' else ''1'') \<longrightarrow> vbits v' = vbits v
      else le_bits (vbits v) (vbits v'))"
proof -
  note m = op_operands_mono [OF assms(1,2,6,7), where op = op]
  have eqs: "binary op l r w = binary_equality op (op_left op l r w) (op_right op l r w)"
    "binary op l' r' w = binary_equality op (op_left op l' r' w) (op_right op l' r' w)" if "op \<in> set EQUALITY"
    using binary_group_eqs(1) [OF assms(1,2,5) that] binary_group_eqs(1) [OF assms(3,4,5) that] by auto
  consider (lit) "op \<in> {''==='', ''!==''}" | (wild) "op \<in> {''==?'', ''!=?''}" "r' \<noteq> r" | (mono) "RESOLVABLE op r r'"
    using assms(8) unfolding RESOLVABLE_def by blast
  then show ?thesis
  proof cases
    case lit
    then have "op \<in> set EQUALITY" by (auto simp: EQUALITY_def)
    obtain v where v: "binary_equality op (op_left op l r w) (op_right op l r w) = Inr v"
      "vbits v = [if (vbits (op_left op l r w) = vbits (op_right op l r w)) = (op = ''==='') then CHR ''1'' else CHR ''0'']"
      using case_equality_literal [OF lit] by blast
    obtain v' where "binary_equality op (op_left op l' r' w) (op_right op l' r' w) = Inr v'"
      using case_equality_literal [OF lit] by blast
    then show ?thesis using eqs [OF \<open>op \<in> set EQUALITY\<close>] v lit by simp
  next
    case wild
    then have eq: "op \<in> set EQUALITY" by (auto simp: EQUALITY_def)
    obtain v v' where v: "binary_equality op (op_left op l r w) (op_right op l r w) = Inr v"
      "binary_equality op (op_left op l' r' w) (op_right op l' r' w) = Inr v'"
      using binary_equality_typed by metis
    have le: "le_bits (vbits (op_left op l r w)) (vbits (op_left op l' r' w))"
      "le_bits (vbits (op_right op l r w)) (vbits (op_right op l' r' w))" using m(4,5) by (auto simp: value_le_def)
    have "vbits v = (if op = ''==?'' then ''0'' else ''1'') \<Longrightarrow> vbits v' = (if op = ''==?'' then ''0'' else ''1'')"
      unfolding wildcard_mismatch [OF wild(1) v(1)] wildcard_mismatch [OF wild(1) v(2)] by (rule mismatch_mono [OF le])
    then have "vbits v = (if op = ''==?'' then ''0'' else ''1'') \<longrightarrow> vbits v' = vbits v" by simp
    moreover have "\<not> op \<in> {''==='', ''!==''}" using wild(1) by auto
    ultimately show ?thesis using eqs [OF eq] v wild by (simp only: if_False if_True) simp
  next
    case mono
    then have "\<not> op \<in> {''==='', ''!==''}" "\<not> (op \<in> {''==?'', ''!=?''} \<and> r' \<noteq> r)"
      by (auto simp: RESOLVABLE_def)
    then show ?thesis using binary_mono [OF assms(1-7) mono] by (simp only: if_False)
  qed
qed

theorem binary_unknown_sound_witness:
  "(\<exists>v v'. binary ''&'' \<lparr>vbits = ''0x'', vsigned = False\<rparr> \<lparr>vbits = ''11'', vsigned = False\<rparr> None = Inr v \<and>
     binary ''&'' \<lparr>vbits = ''01'', vsigned = False\<rparr> \<lparr>vbits = ''11'', vsigned = False\<rparr> None = Inr v' \<and>
     le_bits (vbits v) (vbits v')) \<and>
   (\<exists>v. binary ''==='' \<lparr>vbits = ''x'', vsigned = False\<rparr> \<lparr>vbits = ''1'', vsigned = False\<rparr> None = Inr v \<and> vbits v = ''0'') \<and>
   (\<exists>v v'. binary ''==?'' \<lparr>vbits = ''0x'', vsigned = False\<rparr> \<lparr>vbits = ''1x'', vsigned = False\<rparr> None = Inr v \<and>
     binary ''==?'' \<lparr>vbits = ''01'', vsigned = False\<rparr> \<lparr>vbits = ''11'', vsigned = False\<rparr> None = Inr v' \<and>
     vbits v = ''0'' \<and> vbits v' = ''0'')"
proof -
  let ?v = "\<lambda>b. \<lparr>vbits = b, vsigned = False\<rparr>"
  note facts = bits_ok_def max_width_def width_ok_def value_le_def le_bits_def bit_le_def isxz_def op_lists
  have a: "\<exists>v v'. binary ''&'' (?v ''0x'') (?v ''11'') None = Inr v \<and> binary ''&'' (?v ''01'') (?v ''11'') None = Inr v' \<and>
      le_bits (vbits v) (vbits v')"
    using binary_unknown_sound [of "?v ''0x''" "?v ''11''" "?v ''01''" "?v ''11''" None "''&''"] by (simp add: facts)
  have "vbits (op_left ''==='' (?v ''x'') (?v ''1'') None) \<noteq> vbits (op_right ''==='' (?v ''x'') (?v ''1'') None)"
    by code_simp
  then have b: "\<exists>v. binary ''==='' (?v ''x'') (?v ''1'') None = Inr v \<and> vbits v = ''0''"
    using binary_unknown_sound [of "?v ''x''" "?v ''1''" "?v ''x''" "?v ''1''" None "''===''"] by (auto simp: facts)
  have "binary ''==?'' (?v ''0x'') (?v ''1x'') None = Inr (?v ''0'')" by code_simp
  then have c: "\<exists>v v'. binary ''==?'' (?v ''0x'') (?v ''1x'') None = Inr v \<and> binary ''==?'' (?v ''01'') (?v ''11'') None = Inr v' \<and>
      vbits v = ''0'' \<and> vbits v' = ''0''"
    using binary_unknown_sound [of "?v ''0x''" "?v ''1x''" "?v ''01''" "?v ''11''" None "''==?''"] by (auto simp: facts)
  show ?thesis using a b c by blast
qed

text \<open>C5. The conditional operator is sound for unknown bits in all three operands: with an
  undecided condition the merged value keeps a bit only where both branches agree, and every
  resolution of condition and branches refines it.\<close>

theorem conditional_unknown_sound:
  assumes "value_ok l" "value_ok r" "value_ok l'" "value_ok r'" "width_ok w"
    and "value_le c c'" "value_le l l'" "value_le r r'"
  shows "\<exists>v v'. conditional c l r w = Inr v \<and> conditional c' l' r' w = Inr v' \<and>
     le_bits (vbits v) (vbits v')"
  by (rule conditional_mono [OF assms])

theorem conditional_unknown_sound_witness:
  "\<exists>v v'. conditional \<lparr>vbits = ''x'', vsigned = False\<rparr> \<lparr>vbits = ''01'', vsigned = False\<rparr>
       \<lparr>vbits = ''11'', vsigned = False\<rparr> None = Inr v \<and>
     conditional \<lparr>vbits = ''1'', vsigned = False\<rparr> \<lparr>vbits = ''01'', vsigned = False\<rparr>
       \<lparr>vbits = ''11'', vsigned = False\<rparr> None = Inr v' \<and> le_bits (vbits v) (vbits v')"
  by (rule conditional_unknown_sound)
     (simp_all add: bits_ok_def max_width_def width_ok_def value_le_def le_bits_def bit_le_def isxz_def)

text \<open>The left streaming operator is its own inverse: when the slice size divides the width,
  streaming twice gives back the bits (as an unsigned value).\<close>

theorem stream_left_involution:
  assumes "value_ok v" "1 \<le> sz" "sz \<le> max_width" "vwidth v = k * sz" "0 \<le> k"
  shows "\<exists>u. stream v ''<<'' sz = Inr u \<and> value_ok u \<and> vwidth u = vwidth v \<and>
     stream u ''<<'' sz = Inr \<lparr>vbits = vbits v, vsigned = False\<rparr>"
proof -
  let ?u = "stream_groups (nat sz) (vbits v)"
  have n: "0 < nat sz" and l: "length (vbits v) = nat k * nat sz"
    using assms by (auto simp: vwidth_def nat_mult_distrib [symmetric])
  have u: "length ?u = length (vbits v)" "stream_groups (nat sz) ?u = vbits v"
    using stream_groups_involution [OF n l] l by auto
  have ok: "bits_ok ?u"
    using assms(1) u(1) set_stream_groups [of "nat sz" "vbits v"]
    by (auto simp: value_ok_def bits_ok_def simp flip: length_greater_0_conv)
  then show ?thesis
    using assms(1-3) u by (simp add: stream_def vwidth_def value_ok_def)
qed

theorem stream_left_involution_witness:
  "\<exists>u. stream \<lparr>vbits = ''10x0'', vsigned = True\<rparr> ''<<'' 2 = Inr u \<and> value_ok u \<and>
     vwidth u = vwidth \<lparr>vbits = ''10x0'', vsigned = True\<rparr> \<and>
     stream u ''<<'' 2 = Inr \<lparr>vbits = vbits \<lparr>vbits = ''10x0'', vsigned = True\<rparr>, vsigned = False\<rparr>"
  by (rule stream_left_involution [where k = 2]) (simp_all add: bits_ok_def max_width_def)

text \<open>\<open>$clog2\<close> of a known value is the least exponent whose power of two reaches the value
  read as unsigned, and 0 for the value 0.\<close>

theorem clog2_least:
  assumes "value_ok v" "vknown v"
  shows "\<exists>r c. builtin ''$clog2'' [v] = Inr r \<and> vinteger r = Inr c \<and> 0 \<le> c \<and>
     bits_int (vbits v) \<le> 2 ^ nat c \<and> (\<forall>d. 0 \<le> d \<longrightarrow> bits_int (vbits v) \<le> 2 ^ nat d \<longrightarrow> c \<le> d)"
proof -
  define n where "n = nat (bits_int (vbits v) - 1)"
  define c where "c = (if bits_int (vbits v) > 0 then int (bit_length n) else 0)"
  have b: "builtin ''$clog2'' [v] = number c 32 True"
    using assms(2) by (simp add: builtin_def c_def n_def)
  have "n < 2 ^ length (vbits v)"
    using bits_int_less [of "vbits v"] by (simp add: n_def nat_less_iff)
  then have "bit_length n \<le> 4096"
    using bit_length_le [of n "length (vbits v)"] assms(1) by (simp add: value_ok_def bits_ok_def max_width_def)
  then have "0 \<le> c" "c < 2 ^ (nat 32 - 1)" by (auto simp: c_def)
  then obtain r where r: "number c 32 True = Inr r" "vinteger r = Inr c"
    using number_integer [of 32 c True] wrap_small [of c 32 True] by (auto simp: max_width_def)
  have up: "bits_int (vbits v) \<le> 2 ^ nat c"
  proof (cases "bits_int (vbits v) > 0")
    case True
    have "n < 2 ^ bit_length n" using bit_length_bounds by blast
    then have "int n < 2 ^ bit_length n" using of_nat_less_iff [of n "2 ^ bit_length n", where 'a = int] by simp
    then show ?thesis using True by (simp add: c_def n_def)
  qed (simp add: c_def)
  have least: "c \<le> d" if "0 \<le> d" "bits_int (vbits v) \<le> 2 ^ nat d" for d
  proof (cases "bits_int (vbits v) > 0")
    case True
    have "n < 2 ^ nat d"
      using that(2) True by (simp add: n_def nat_less_iff)
    then show ?thesis using bit_length_le [of n "nat d"] that(1) True by (simp add: c_def)
  qed (simp add: c_def that(1))
  show ?thesis using b r up least \<open>0 \<le> c\<close> by auto
qed

theorem clog2_least_witness:
  "builtin ''$clog2'' [\<lparr>vbits = ''101'', vsigned = False\<rparr>] =
     Inr \<lparr>vbits = ''00000000000000000000000000000011'', vsigned = True\<rparr> \<and>
   (\<exists>r c. builtin ''$clog2'' [\<lparr>vbits = ''101'', vsigned = False\<rparr>] = Inr r \<and> vinteger r = Inr c \<and>
      bits_int ''101'' \<le> 2 ^ nat c)"
proof -
  have h: "value_ok \<lparr>vbits = ''101'', vsigned = False\<rparr>" "vknown \<lparr>vbits = ''101'', vsigned = False\<rparr>"
    by (simp_all add: bits_ok_def max_width_def vknown_iff)
  have "builtin ''$clog2'' [\<lparr>vbits = ''101'', vsigned = False\<rparr>] =
     Inr \<lparr>vbits = ''00000000000000000000000000000011'', vsigned = True\<rparr>"
    by code_simp
  then show ?thesis using clog2_least [OF h] by auto
qed

end
