(* ===== verification/Py_Json.thy ===== *)
theory Py_Json
  imports Prelude
begin

text \<open>
  Python values as they come out of \<open>json.loads\<close> (numbers are integers: no field of the
  modelled formats is a float), and the dynamic operations the decoders apply to them:
  \<open>payload[k]\<close>, \<open>payload.get(k, d)\<close>, iteration, \<open>str(x)\<close>, \<open>int(x)\<close> and \<open>bool(x)\<close>.
  A dict is an association list in insertion order. A character is a code point below 256.
\<close>

datatype json =
    JNull
  | JBool bool
  | JInt int
  | JStr string
  | JArr "json list"
  | JObj "(string \<times> json) list"

section \<open>Decimal numbers\<close>

definition digit_char :: "nat \<Rightarrow> char" where
  "digit_char d = char_of (48 + d)"

definition is_digit :: "char \<Rightarrow> bool" where
  "is_digit c \<longleftrightarrow> 48 \<le> (of_char c :: nat) \<and> (of_char c :: nat) \<le> 57"

definition char_digit :: "char \<Rightarrow> nat" where
  "char_digit c = of_char c - 48"

fun show_nat :: "nat \<Rightarrow> string" where
  "show_nat n = (if n < 10 then [digit_char n] else show_nat (n div 10) @ [digit_char (n mod 10)])"

declare show_nat.simps [simp del]

definition show_int :: "int \<Rightarrow> string" where
  "show_int n = (if n < 0 then CHR ''-'' # show_nat (nat (- n)) else show_nat (nat n))"

fun read_digits :: "nat \<Rightarrow> string \<Rightarrow> nat" where
  "read_digits acc [] = acc"
| "read_digits acc (c # cs) = read_digits (10 * acc + char_digit c) cs"

text \<open>Python's \<open>str.isspace\<close> for code points below 256.\<close>

definition is_space :: "char \<Rightarrow> bool" where
  "is_space c \<longleftrightarrow> (let n = (of_char c :: nat) in
     9 \<le> n \<and> n \<le> 13 \<or> 28 \<le> n \<and> n \<le> 32 \<or> n = 133 \<or> n = 160)"

definition strip :: "string \<Rightarrow> string" where
  "strip s = rev (dropWhile is_space (rev (dropWhile is_space s)))"

text \<open>
  The literals \<open>int(s)\<close> accepts: surrounding white space, a sign, digits with single
  underscores between them.
\<close>

fun digits_ok :: "bool \<Rightarrow> string \<Rightarrow> bool" where
  "digits_ok prev_digit [] = prev_digit"
| "digits_ok prev_digit (c # cs) =
     (if is_digit c then digits_ok True cs
      else if c = CHR ''_'' then prev_digit \<and> digits_ok False cs
      else False)"

definition int_of_string :: "string \<Rightarrow> int result" where
  "int_of_string s =
     (let t = strip s;
          neg = (t \<noteq> [] \<and> hd t = CHR ''-'');
          u = (if t \<noteq> [] \<and> hd t \<in> set ''+-'' then tl t else t)
      in if digits_ok False u
         then let n = int (read_digits 0 (filter is_digit u)) in Inr (if neg then - n else n)
         else Inl (ValueError ''invalid literal for int() with base 10''))"

section \<open>str, repr, int, bool\<close>

definition hex_char :: "nat \<Rightarrow> char" where
  "hex_char n = (if n < 10 then digit_char n else char_of (87 + n))"

definition repr_char :: "char \<Rightarrow> char \<Rightarrow> string" where
  "repr_char q c =
     (let n = (of_char c :: nat) in
      if c = q \<or> n = 92 then [char_of (92 :: nat), c]
      else if n = 10 then [char_of (92 :: nat), CHR ''n'']
      else if n = 13 then [char_of (92 :: nat), CHR ''r'']
      else if n = 9 then [char_of (92 :: nat), CHR ''t'']
      else if n < 32 \<or> 127 \<le> n \<and> n \<le> 160 \<or> n = 173
      then [char_of (92 :: nat), CHR ''x'', hex_char (n div 16), hex_char (n mod 16)]
      else [c])"

definition repr_str :: "string \<Rightarrow> string" where
  "repr_str s =
     (let q = (if char_of (39 :: nat) \<in> set s \<and> CHR 0x22 \<notin> set s then CHR 0x22 else char_of (39 :: nat))
      in q # concat (map (repr_char q) s) @ [q])"

fun join :: "string \<Rightarrow> string list \<Rightarrow> string" where
  "join sep [] = []"
| "join sep [s] = s"
| "join sep (s # t # ts) = s @ sep @ join sep (t # ts)"

fun py_repr :: "json \<Rightarrow> string" where
  "py_repr JNull = ''None''"
| "py_repr (JBool b) = (if b then ''True'' else ''False'')"
| "py_repr (JInt n) = show_int n"
| "py_repr (JStr s) = repr_str s"
| "py_repr (JArr xs) = ''['' @ join '', '' (map py_repr xs) @ '']''"
| "py_repr (JObj kvs) =
     ''{'' @ join '', '' (map (\<lambda>(k, v). repr_str k @ '': '' @ py_repr v) kvs) @ ''}''"

definition py_str :: "json \<Rightarrow> string" where
  "py_str x = (case x of JStr s \<Rightarrow> s | _ \<Rightarrow> py_repr x)"

definition py_int :: "json \<Rightarrow> int result" where
  "py_int x = (case x of JInt n \<Rightarrow> Inr n | JBool b \<Rightarrow> Inr (of_bool b)
     | JStr s \<Rightarrow> int_of_string s | _ \<Rightarrow> Inl TypeError)"

definition py_bool :: "json \<Rightarrow> bool" where
  "py_bool x = (case x of JNull \<Rightarrow> False | JBool b \<Rightarrow> b | JInt n \<Rightarrow> n \<noteq> 0
     | JStr s \<Rightarrow> s \<noteq> [] | JArr xs \<Rightarrow> xs \<noteq> [] | JObj kvs \<Rightarrow> kvs \<noteq> [])"

section \<open>Subscripts, get, iteration\<close>

definition py_getitem :: "json \<Rightarrow> string \<Rightarrow> json result" where
  "py_getitem x k = (case x of
     JObj kvs \<Rightarrow> (case map_of kvs k of None \<Rightarrow> Inl (KeyError k) | Some v \<Rightarrow> Inr v)
   | _ \<Rightarrow> Inl TypeError)"

definition py_get :: "json \<Rightarrow> string \<Rightarrow> json \<Rightarrow> json result" where
  "py_get x k d = (case x of
     JObj kvs \<Rightarrow> Inr (case map_of kvs k of None \<Rightarrow> d | Some v \<Rightarrow> v)
   | _ \<Rightarrow> Inl AttributeError)"

definition py_iter :: "json \<Rightarrow> json list result" where
  "py_iter x = (case x of
     JArr xs \<Rightarrow> Inr xs
   | JObj kvs \<Rightarrow> Inr (map (\<lambda>(k, _). JStr k) kvs)
   | JStr s \<Rightarrow> Inr (map (\<lambda>c. JStr [c]) s)
   | _ \<Rightarrow> Inl TypeError)"

text \<open>\<open>for a, b in ...\<close>: unpacking an item into exactly two.\<close>

definition py_pair :: "json \<Rightarrow> (json \<times> json) result" where
  "py_pair x = ebind (py_iter x) (\<lambda>xs. case xs of
     [a, b] \<Rightarrow> Inr (a, b)
   | _ \<Rightarrow> Inl (ValueError ''cannot unpack''))"

text \<open>Reading a field: \<open>str(p[k])\<close>, \<open>int(p[k])\<close>, and \<open>str(p[k]) if p.get(k) is not None else None\<close>.\<close>

definition str_field :: "json \<Rightarrow> string \<Rightarrow> string result" where
  "str_field p k = ebind (py_getitem p k) (\<lambda>v. Inr (py_str v))"

definition int_field :: "json \<Rightarrow> string \<Rightarrow> int result" where
  "int_field p k = ebind (py_getitem p k) py_int"

definition opt_field :: "(json \<Rightarrow> 'a result) \<Rightarrow> json \<Rightarrow> string \<Rightarrow> 'a option result" where
  "opt_field dec p k = ebind (py_get p k JNull) (\<lambda>v.
     if v = JNull then Inr None else ebind (dec v) (\<lambda>x. Inr (Some x)))"

definition opt_str_field :: "json \<Rightarrow> string \<Rightarrow> string option result" where
  "opt_str_field p k = opt_field (\<lambda>v. Inr (py_str v)) p k"

definition list_field :: "(json \<Rightarrow> 'a result) \<Rightarrow> json \<Rightarrow> string \<Rightarrow> 'a list result" where
  "list_field dec p k = ebind (py_getitem p k) (\<lambda>v. ebind (py_iter v) (mapM dec))"

definition list_field_or_empty :: "(json \<Rightarrow> 'a result) \<Rightarrow> json \<Rightarrow> string \<Rightarrow> 'a list result" where
  "list_field_or_empty dec p k =
     ebind (py_get p k (JArr [])) (\<lambda>v. ebind (py_iter v) (mapM dec))"

section \<open>Encoding side\<close>

definition JOptStr :: "string option \<Rightarrow> json" where
  "JOptStr x = (case x of None \<Rightarrow> JNull | Some s \<Rightarrow> JStr s)"

definition jopt :: "('a \<Rightarrow> json) \<Rightarrow> 'a option \<Rightarrow> json" where
  "jopt enc x = (case x of None \<Rightarrow> JNull | Some a \<Rightarrow> enc a)"

definition JInts :: "int list \<Rightarrow> json" where
  "JInts xs = JArr (map JInt xs)"

definition JStrs :: "string list \<Rightarrow> json" where
  "JStrs xs = JArr (map JStr xs)"

section \<open>Laws of the accessors\<close>

named_theorems json_simps \<open>evaluation of the JSON accessors\<close>

lemma py_str_simps [simp, json_simps]:
  "py_str (JStr s) = s" "py_str (JInt n) = show_int n"
  by (simp_all add: py_str_def)

lemma py_int_JInt [simp, json_simps]: "py_int (JInt n) = Inr n"
  by (simp add: py_int_def)

lemma py_bool_simps [simp, json_simps]:
  "py_bool (JBool b) = b" "py_bool JNull = False" "py_bool (JObj (x # xs))"
  by (simp_all add: py_bool_def)

lemma py_getitem_JObj [json_simps]:
  "py_getitem (JObj kvs) k = (case map_of kvs k of None \<Rightarrow> Inl (KeyError k) | Some v \<Rightarrow> Inr v)"
  by (simp add: py_getitem_def)

lemma py_get_JObj [json_simps]:
  "py_get (JObj kvs) k d = Inr (case map_of kvs k of None \<Rightarrow> d | Some v \<Rightarrow> v)"
  by (simp add: py_get_def)

lemma py_iter_JArr [simp, json_simps]: "py_iter (JArr xs) = Inr xs"
  by (simp add: py_iter_def)

lemma py_pair_JArr [simp, json_simps]: "py_pair (JArr [a, b]) = Inr (a, b)"
  by (simp add: py_pair_def)

lemma str_field_JObj [json_simps]:
  "map_of kvs k = Some v \<Longrightarrow> str_field (JObj kvs) k = Inr (py_str v)"
  by (simp add: str_field_def py_getitem_JObj)

lemma int_field_JObj [json_simps]:
  "map_of kvs k = Some v \<Longrightarrow> int_field (JObj kvs) k = py_int v"
  by (simp add: int_field_def py_getitem_JObj)

lemma opt_str_field_JObj [json_simps]:
  "map_of kvs k = Some (JOptStr x) \<Longrightarrow> opt_str_field (JObj kvs) k = Inr x"
  by (cases x) (simp_all add: opt_str_field_def opt_field_def py_get_JObj JOptStr_def)

lemma mapM_py_int [simp, json_simps]: "mapM py_int (map JInt xs) = Inr xs"
  by (induction xs) auto

lemma mapM_py_str [simp, json_simps]: "mapM (\<lambda>v. Inr (py_str v)) (map JStr xs) = Inr xs"
  by (induction xs) auto

lemma strip_id: "(\<And>c. c \<in> set s \<Longrightarrow> \<not> is_space c) \<Longrightarrow> strip s = s"
proof -
  have d: "dropWhile is_space t = t" if "\<And>c. c \<in> set t \<Longrightarrow> \<not> is_space c" for t
    using that by (cases t) auto
  assume "\<And>c. c \<in> set s \<Longrightarrow> \<not> is_space c"
  then show "strip s = s" using d [of s] d [of "rev s"] by (simp add: strip_def)
qed

section \<open>The interface of an encoder and its decoder\<close>

text \<open>
  A codec is an encoder \<open>enc\<close>, a decoder \<open>dec\<close> and the condition \<open>ok\<close> its constructor enforces.
  Decoding an encoded value gives the value back, and whatever the decoder accepts satisfies
  the condition. The facts about lists and optional fields are proved once, here.
\<close>

locale json_codec =
  fixes enc :: "'a \<Rightarrow> json" and dec :: "json \<Rightarrow> 'a result" and ok :: "'a \<Rightarrow> bool"
  assumes dec_enc: "ok x \<Longrightarrow> dec (enc x) = Inr x"
    and dec_ok: "dec p = Inr x \<Longrightarrow> ok x"
    and enc_not_null: "enc x \<noteq> JNull"
begin

lemma mapM_dec_enc: "list_all ok xs \<Longrightarrow> mapM dec (map enc xs) = Inr xs"
  by (induction xs) (auto simp: dec_enc)

lemma mapM_dec_ok: "mapM dec ps = Inr xs \<Longrightarrow> list_all ok xs"
proof (induction ps arbitrary: xs)
  case Nil
  then show ?case by simp
next
  case (Cons p ps)
  then show ?case by (auto simp: ebind_Inr_iff dec_ok)
qed

lemma list_field_enc:
  "map_of kvs k = Some (JArr (map enc xs)) \<Longrightarrow> list_all ok xs \<Longrightarrow> list_field dec (JObj kvs) k = Inr xs"
  by (simp add: list_field_def py_getitem_JObj mapM_dec_enc)

lemma list_field_or_empty_enc:
  "map_of kvs k = Some (JArr (map enc xs)) \<Longrightarrow> list_all ok xs \<Longrightarrow>
     list_field_or_empty dec (JObj kvs) k = Inr xs"
  by (simp add: list_field_or_empty_def py_get_JObj mapM_dec_enc)

lemma list_field_ok: "list_field dec p k = Inr xs \<Longrightarrow> list_all ok xs"
  by (auto simp: list_field_def ebind_Inr_iff dest: mapM_dec_ok)

lemma list_field_or_empty_ok: "list_field_or_empty dec p k = Inr xs \<Longrightarrow> list_all ok xs"
  by (auto simp: list_field_or_empty_def ebind_Inr_iff dest: mapM_dec_ok)

lemma opt_field_enc:
  "map_of kvs k = Some (jopt enc x) \<Longrightarrow> (\<And>a. x = Some a \<Longrightarrow> ok a) \<Longrightarrow> opt_field dec (JObj kvs) k = Inr x"
  by (cases x) (simp_all add: opt_field_def py_get_JObj jopt_def dec_enc enc_not_null)

lemma opt_field_ok: "opt_field dec p k = Inr (Some a) \<Longrightarrow> ok a"
  by (auto simp: opt_field_def ebind_Inr_iff dec_ok split: if_splits)

lemma getitem_dec_enc:
  "map_of kvs k = Some (enc x) \<Longrightarrow> ok x \<Longrightarrow> ebind (py_getitem (JObj kvs) k) dec = Inr x"
  by (simp add: py_getitem_JObj dec_enc)

end

interpretation int_codec: json_codec JInt
  "\<lambda>p. case p of JInt n \<Rightarrow> Inr n | _ \<Rightarrow> Inl IllTyped" "\<lambda>_. True"
  by unfold_locales auto

end
