(* ===== verification/Bit_Value.thy ===== *)
theory Bit_Value
  imports Four_State Py_Json
begin

text \<open>
  Reading a recorded value as a bit string: \<open>bit_value\<close> and \<open>known\<close> of
  src/src/divergence_compare.py, and Python's subscript on sequences.
\<close>

text \<open>
  \<open>str.lower\<close> on ASCII letters. Other letters of the code points below 256 are outside
  \<open>01xz\<close> before and after lowering, so that the callers cannot tell the difference.
\<close>

definition lower_char :: "char \<Rightarrow> char" where
  "lower_char c = (let n = (of_char c :: nat) in if 65 \<le> n \<and> n \<le> 90 then char_of (n + 32) else c)"

definition lower :: "string \<Rightarrow> string" where
  "lower s = map lower_char s"

fun starts_with :: "string \<Rightarrow> string \<Rightarrow> bool" where
  "starts_with [] s = True"
| "starts_with (p # ps) [] = False"
| "starts_with (p # ps) (c # cs) = (p = c \<and> starts_with ps cs)"

definition known :: "string option \<Rightarrow> bool" where
  "known b = (case b of None \<Rightarrow> False | Some s \<Rightarrow> s \<noteq> [] \<and> CHR ''x'' \<notin> set s \<and> CHR ''z'' \<notin> set s)"

definition is_four_state :: "char \<Rightarrow> bool" where
  "is_four_state c \<longleftrightarrow> c = CHR ''0'' \<or> c = CHR ''1'' \<or> c = CHR ''x'' \<or> c = CHR ''z''"

definition strip_prefix :: "string \<Rightarrow> string" where
  "strip_prefix s = (if starts_with ''0b'' s then drop 2 s else if starts_with ''b'' s then drop 1 s else s)"

definition normal_bits :: "string \<Rightarrow> int option \<Rightarrow> string option" where
  "normal_bits s w =
     (let bs = strip_prefix (lower (strip s)) in
      if bs = [] \<or> list_ex (\<lambda>c. \<not> is_four_state c) bs then None
      else (case w of
        None \<Rightarrow> Some bs
      | Some n \<Rightarrow> if int (length bs) > n then None
                  else Some (rjust (nat n) (if isxz (hd bs) then hd bs else CHR ''0'') bs)))"

definition bit_value :: "json \<Rightarrow> int option \<Rightarrow> string option" where
  "bit_value v w =
     (let v' = (case v of
        JObj kvs \<Rightarrow> (case map_of kvs ''bin'' of
            Some x \<Rightarrow> x
          | None \<Rightarrow> (case map_of kvs ''raw'' of Some x \<Rightarrow> x | None \<Rightarrow> JNull))
      | _ \<Rightarrow> v)
      in if v' = JNull then None else normal_bits (py_str v') w)"

section \<open>Subscripts\<close>

text \<open>\<open>xs[i]\<close>: negative subscripts count from the end, others outside the list raise.\<close>

definition py_index :: "'a list \<Rightarrow> int \<Rightarrow> 'a result" where
  "py_index xs i =
     (if 0 \<le> i \<and> i < int (length xs) then Inr (xs ! nat i)
      else if i < 0 \<and> - int (length xs) \<le> i then Inr (xs ! nat (int (length xs) + i))
      else Inl IndexError)"

lemma py_index_ok [err_simps]: "0 \<le> i \<Longrightarrow> i < int (length xs) \<Longrightarrow> py_index xs i = Inr (xs ! nat i)"
  by (simp add: py_index_def)

lemma py_index_nat [err_simps]: "i < length xs \<Longrightarrow> py_index xs (int i) = Inr (xs ! i)"
  by (simp add: py_index_def)

lemma py_index_simps [simp]:
  "py_index (x # xs) 0 = Inr x" "py_index (x # y # xs) 1 = Inr y"
  by (simp_all add: py_index_def)

section \<open>The result of bit_value\<close>

lemma starts_with_iff: "starts_with p s \<longleftrightarrow> (\<exists>t. s = p @ t)"
  by (induction p s rule: starts_with.induct) auto

definition four_state :: "string \<Rightarrow> bool" where
  "four_state s \<longleftrightarrow> list_all is_four_state s"

lemma four_state_simps [simp]:
  "four_state []" "four_state (c # cs) \<longleftrightarrow> is_four_state c \<and> four_state cs"
  "four_state (xs @ ys) \<longleftrightarrow> four_state xs \<and> four_state ys"
  by (auto simp: four_state_def)

lemma four_state_replicate [simp]: "is_four_state c \<Longrightarrow> four_state (replicate n c)"
  by (induction n) auto

lemma is_four_state_chars [simp]:
  "is_four_state CHR ''0''" "is_four_state CHR ''1''" "is_four_state CHR ''x''" "is_four_state CHR ''z''"
  by (simp_all add: is_four_state_def)

lemma normal_bits_shape:
  assumes "normal_bits s w = Some b"
  shows "four_state b \<and> b \<noteq> [] \<and> (\<forall>n. w = Some n \<longrightarrow> int (length b) = n)"
proof -
  define bs where "bs = strip_prefix (lower (strip s))"
  have ne: "bs \<noteq> []" and "\<not> list_ex (\<lambda>c. \<not> is_four_state c) bs"
    using assms by (auto simp: normal_bits_def bs_def [symmetric] Let_def split: if_splits)
  then have fs: "four_state bs"
    by (auto simp: four_state_def list_all_iff list_ex_iff)
  define c where "c = (if isxz (hd bs) then hd bs else CHR ''0'')"
  have c: "is_four_state c"
    using ne fs by (cases bs) (auto simp: c_def)
  have u: "normal_bits s w = (if bs = [] \<or> list_ex (\<lambda>c. \<not> is_four_state c) bs then None
      else (case w of None \<Rightarrow> Some bs
      | Some n \<Rightarrow> if int (length bs) > n then None else Some (rjust (nat n) c bs)))"
    by (simp only: normal_bits_def bs_def [symmetric] c_def Let_def)
  have b: "b = (case w of None \<Rightarrow> bs | Some n \<Rightarrow> rjust (nat n) c bs)"
    and n: "\<And>n. w = Some n \<Longrightarrow> int (length bs) \<le> n"
    using assms unfolding u by (auto split: if_splits option.splits)
  show ?thesis
  proof (cases w)
    case None
    then show ?thesis using b ne fs by simp
  next
    case (Some n)
    have "four_state (rjust (nat n) c bs)" and "rjust (nat n) c bs \<noteq> []"
      using c fs ne by (simp_all add: rjust_def)
    moreover have "int (length (rjust (nat n) c bs)) = n"
      using Some n [OF Some] by simp
    ultimately show ?thesis using b Some by simp
  qed
qed

lemma bit_value_shape:
  assumes "bit_value v w = Some b"
  shows "four_state b \<and> b \<noteq> [] \<and> (\<forall>n. w = Some n \<longrightarrow> int (length b) = n)"
proof -
  obtain u where "normal_bits u w = Some b"
    using assms by (simp add: bit_value_def Let_def split: if_splits)
  then show ?thesis by (rule normal_bits_shape)
qed

end
