(* ===== verification/Dyn_Expr.thy ===== *)
theory Dyn_Expr
  imports Bit_Value
begin

text \<open>
  The typed expressions of src/src/dynamic_evidence.py: the frozen dataclass \<open>Expr\<close> (a node
  record with its arguments), the checks of its \<open>__post_init__\<close>, its decoding from a dict with
  the shared node budget and the depth limit, \<open>asdict\<close>, binding to a scope, and \<open>Assignment\<close>.
\<close>

section \<open>Expr\<close>

definition MAX_EXPR_NODES :: int where
  "MAX_EXPR_NODES = 256"

definition MAX_EXPR_DEPTH :: nat where
  "MAX_EXPR_DEPTH = 32"

definition MAX_EXPR_WIDTH :: int where
  "MAX_EXPR_WIDTH = 4096"

record enode =
  e_op :: string
  e_width :: int
  e_signal :: "string option"
  e_bits :: "int list"
  e_declared :: "int list"
  e_value :: "string option"
  e_signed :: bool
  e_reason :: "string option"
  e_bounds :: "(int \<times> int) option"
  e_stride :: int
  e_function :: "string option"
  e_two_state :: bool
  e_fill :: bool
  e_dims :: "(int \<times> int) list"
  e_indices :: "int list"

datatype expr = Expr (enode_of: enode) (eargs: "expr list")

text \<open>\<open>Expr(op, width)\<close> with every other field at its default.\<close>

definition enode0 :: "string \<Rightarrow> int \<Rightarrow> enode" where
  "enode0 opr w = \<lparr>e_op = opr, e_width = w, e_signal = None, e_bits = [], e_declared = [], e_value = None,
     e_signed = False, e_reason = None, e_bounds = None, e_stride = 1, e_function = None, e_two_state = False,
     e_fill = False, e_dims = [], e_indices = []\<rparr>"

definition EXPR_OPS :: "string list" where
  "EXPR_OPS = [''signal'', ''const'', ''not'', ''and'', ''or'', ''eq'', ''ne'',
     ''mux'', ''concat'', ''cast'', ''unsupported'', ''u+'', ''u-'', ''~'',
     ''reduce_&'', ''reduce_~&'', ''reduce_|'', ''reduce_~|'',
     ''reduce_^'', ''reduce_~^'', ''reduce_^~'', ''select'',
     ''part_up'', ''part_down'', ''project'', ''function'',
     ''repeat'', ''stream_left'', ''stream_right'', ''inside'', ''range'',
     ''array'', ''array_ref'', ''array_select'', ''dimension''] @ BINARY"

definition EXPR_FUNCTIONS :: "string list" where
  "EXPR_FUNCTIONS = [''$signed'', ''$unsigned'', ''$clog2'', ''$isunknown'', ''$countones'',
     ''$onehot'', ''$onehot0'', ''$countbits'']"

definition DIMENSION_FUNCTIONS :: "string list" where
  "DIMENSION_FUNCTIONS = [''$size'', ''$left'', ''$right'', ''$low'', ''$high'', ''$increment'']"

text \<open>The table \<open>arity\<close> and the later \<open>count\<close> of arguments an operator must have.\<close>

definition base_arity :: "string \<Rightarrow> nat option" where
  "base_arity opr = map_of [(''signal'', 0), (''const'', 0), (''not'', 1), (''and'', 2), (''or'', 2),
     (''eq'', 2), (''ne'', 2), (''mux'', 3), (''cast'', 1)] opr"

definition count_arity :: "string \<Rightarrow> nat option" where
  "count_arity opr =
     (if opr \<in> set BINARY \<or> opr \<in> {''select'', ''part_up'', ''part_down'', ''array_select'', ''repeat'',
          ''stream_left'', ''stream_right'', ''range''} then Some 2
      else if starts_with ''reduce_'' opr \<or> opr \<in> {''u+'', ''u-'', ''~'', ''project''} then Some 1
      else None)"

definition small_int :: "int \<Rightarrow> bool" where
  "small_int i \<longleftrightarrow> \<bar>i\<bar> < 2 ^ 63"

definition no_value :: "string option \<Rightarrow> bool" where
  "no_value s \<longleftrightarrow> s = None \<or> s = Some []"

definition in_bounds :: "int \<times> int \<Rightarrow> int \<Rightarrow> bool" where
  "in_bounds b i \<longleftrightarrow> min (fst b) (snd b) \<le> i \<and> i \<le> max (fst b) (snd b)"

definition extent :: "int \<times> int \<Rightarrow> int" where
  "extent b = \<bar>fst b - snd b\<bar> + 1"

definition arity_fails :: "nat option \<Rightarrow> expr list \<Rightarrow> bool" where
  "arity_fails a xs \<longleftrightarrow> (case a of None \<Rightarrow> False | Some n \<Rightarrow> length xs \<noteq> n)"

text \<open>
  The checks of \<open>Expr.__post_init__\<close>, in the code's order: the first failing one raises.
\<close>

definition signal_invalid :: "enode \<Rightarrow> bool" where
  "signal_invalid n \<longleftrightarrow> e_op n = ''signal'' \<and> (no_value (e_signal n) \<or> int (length (e_bits n)) \<noteq> e_width n)"

definition const_invalid :: "enode \<Rightarrow> bool" where
  "const_invalid n \<longleftrightarrow> e_op n = ''const'' \<and> (no_value (e_value n) \<or> int (length (the (e_value n))) \<noteq> e_width n
     \<or> list_ex (\<lambda>c. c \<notin> set ''01xz'') (the (e_value n)))"

definition fill_invalid :: "enode \<Rightarrow> bool" where
  "fill_invalid n \<longleftrightarrow> e_fill n \<and> (e_op n \<noteq> ''const'' \<or> length (dedupe (the (e_value n))) \<noteq> 1)"

definition bounds_invalid :: "enode \<Rightarrow> bool" where
  "bounds_invalid n \<longleftrightarrow> (case e_bounds n of None \<Rightarrow> False
     | Some b \<Rightarrow> \<not> small_int (fst b) \<or> \<not> small_int (snd b))"

definition project_invalid :: "enode \<Rightarrow> expr list \<Rightarrow> bool" where
  "project_invalid n xs \<longleftrightarrow> e_op n = ''project'' \<and> (int (length (e_bits n)) \<noteq> e_width n \<or>
     list_ex (\<lambda>i. \<not> (0 \<le> i \<and> i < e_width (enode_of (hd xs)))) (e_bits n))"

definition function_invalid :: "enode \<Rightarrow> expr list \<Rightarrow> bool" where
  "function_invalid n xs \<longleftrightarrow> e_op n = ''function'' \<and> (e_function n \<notin> Some ` set EXPR_FUNCTIONS \<or>
     (if e_function n = Some ''$countbits'' then length xs < 2 else length xs \<noteq> 1))"

definition dimension_invalid :: "enode \<Rightarrow> expr list \<Rightarrow> bool" where
  "dimension_invalid n xs \<longleftrightarrow> e_op n = ''dimension'' \<and>
     (length xs \<noteq> 1 \<or> e_width n \<noteq> 32 \<or> e_function n \<notin> Some ` set DIMENSION_FUNCTIONS)"

definition array_invalid :: "enode \<Rightarrow> expr list \<Rightarrow> bool" where
  "array_invalid n xs \<longleftrightarrow> e_op n = ''array'' \<and>
     (e_bounds n = None \<or> length (e_bits n) \<noteq> length xs \<or> \<not> distinct (e_bits n) \<or>
      list_ex (\<lambda>a. e_width (enode_of a) \<noteq> e_width n) xs \<or>
      list_ex (\<lambda>i. \<not> in_bounds (the (e_bounds n)) i) (e_bits n))"

definition dims_invalid :: "enode \<Rightarrow> bool" where
  "dims_invalid n \<longleftrightarrow> length (e_dims n) > 8 \<or> length (e_indices n) > 8 \<or>
     list_ex (\<lambda>d. \<not> small_int (fst d) \<or> \<not> small_int (snd d)) (e_dims n) \<or>
     list_ex (\<lambda>i. \<not> small_int i) (e_indices n)"

definition array_ref_invalid :: "enode \<Rightarrow> expr list \<Rightarrow> bool" where
  "array_ref_invalid n xs \<longleftrightarrow> e_op n = ''array_ref'' \<and>
     (no_value (e_signal n) \<or> e_dims n = [] \<or> xs \<noteq> [] \<or> int (length (e_bits n)) \<noteq> e_width n \<or>
      int (length (e_declared n)) \<noteq> e_width n)"

definition select_extent :: "enode \<Rightarrow> expr \<Rightarrow> int" where
  "select_extent n base = (case e_bounds n of Some b \<Rightarrow> extent b
     | None \<Rightarrow> e_width (enode_of base) div e_stride n)"

definition select_invalid :: "enode \<Rightarrow> expr list \<Rightarrow> bool" where
  "select_invalid n xs \<longleftrightarrow> e_op n \<in> {''select'', ''part_up'', ''part_down''} \<and>
     (select_extent n (hd xs) * e_stride n \<noteq> e_width (enode_of (hd xs)) \<or> e_width n mod e_stride n \<noteq> 0 \<or>
      e_op n = ''select'' \<and> e_width n \<noteq> e_stride n)"

definition expr_checks :: "enode \<Rightarrow> expr list \<Rightarrow> (bool \<times> string) list" where
  "expr_checks n xs =
     [(\<not> (1 \<le> e_width n \<and> e_width n \<le> MAX_EXPR_WIDTH), ''dynamic_expression_width_limit''),
      (e_op n \<notin> set EXPR_OPS, ''dynamic_expression_operator_invalid''),
      (arity_fails (base_arity (e_op n)) xs, ''dynamic_expression_arity_invalid''),
      (signal_invalid n, ''dynamic_signal_selection_invalid''),
      (const_invalid n, ''dynamic_constant_invalid''),
      (fill_invalid n, ''dynamic_fill_invalid''),
      (\<not> (1 \<le> e_stride n \<and> e_stride n \<le> MAX_EXPR_WIDTH), ''dynamic_selection_stride_invalid''),
      (bounds_invalid n, ''dynamic_selection_bounds_invalid''),
      (arity_fails (count_arity (e_op n)) xs, ''dynamic_expression_arity_invalid''),
      (project_invalid n xs, ''dynamic_bit_mapping_unavailable''),
      (function_invalid n xs, ''dynamic_function_invalid''),
      (dimension_invalid n xs, ''dynamic_function_invalid''),
      (e_op n = ''inside'' \<and> length xs < 2, ''dynamic_expression_arity_invalid''),
      (array_invalid n xs, ''dynamic_array_mapping_invalid''),
      (e_op n = ''array_select'' \<and> e_bounds n = None, ''dynamic_array_mapping_invalid''),
      (dims_invalid n, ''dynamic_array_mapping_invalid''),
      (array_ref_invalid n xs, ''dynamic_array_mapping_invalid''),
      (select_invalid n xs, ''dynamic_selection_shape_invalid'')]"

definition mk_expr :: "enode \<Rightarrow> expr list \<Rightarrow> expr result" where
  "mk_expr n xs = ebind (first_failure (expr_checks n xs)) (\<lambda>_. Inr (Expr n xs))"

text \<open>An expression whose every node passed its \<open>__post_init__\<close>.\<close>

fun expr_ok :: "expr \<Rightarrow> bool" where
  "expr_ok (Expr n xs) \<longleftrightarrow> first_failure (expr_checks n xs) = Inr () \<and> (\<forall>x \<in> set xs. expr_ok x)"

fun expr_nodes :: "expr \<Rightarrow> nat" where
  "expr_nodes (Expr n xs) = Suc (sum_list (map expr_nodes xs))"

fun expr_depth :: "expr \<Rightarrow> nat" where
  "expr_depth (Expr n xs) = foldr (\<lambda>x m. max (Suc (expr_depth x)) m) xs 0"

section \<open>bind\<close>

text \<open>\<open>Expr.bind\<close>: \<open>replace\<close> runs \<open>__post_init__\<close> again on every rebuilt node.\<close>

fun expr_bind :: "string \<Rightarrow> expr \<Rightarrow> expr result" where
  "expr_bind scope (Expr n xs) =
     ebind (mapM (expr_bind scope) xs) (\<lambda>ys.
       mk_expr (n\<lparr>e_signal := (if no_value (e_signal n) then None
                             else Some (scope @ ''.'' @ the (e_signal n)))\<rparr>) ys)"

section \<open>asdict and from_dict\<close>

definition pair_to_json :: "int \<times> int \<Rightarrow> json" where
  "pair_to_json p = JInts [fst p, snd p]"

definition expr_fields :: "enode \<Rightarrow> json list \<Rightarrow> (string \<times> json) list" where
  "expr_fields n args = [
     (''op'', JStr (e_op n)), (''width'', JInt (e_width n)), (''args'', JArr args),
     (''signal'', JOptStr (e_signal n)), (''bits'', JInts (e_bits n)),
     (''declared_bits'', JInts (e_declared n)), (''value'', JOptStr (e_value n)),
     (''signed'', JBool (e_signed n)), (''reason'', JOptStr (e_reason n)),
     (''bounds'', jopt pair_to_json (e_bounds n)), (''stride'', JInt (e_stride n)),
     (''function'', JOptStr (e_function n)), (''two_state'', JBool (e_two_state n)), (''fill'', JBool (e_fill n)),
     (''dimensions'', JArr (map pair_to_json (e_dims n))),
     (''array_indices'', JInts (e_indices n))]"

fun expr_to_json :: "expr \<Rightarrow> json" where
  "expr_to_json (Expr n xs) = JObj (expr_fields n (map expr_to_json xs))"

text \<open>
  A field of the raw dict, read at its declared type; a missing one takes the default of the
  dataclass, where it has one, and is the \<open>TypeError\<close> of the constructor call otherwise.
\<close>

definition typed_field :: "(json \<Rightarrow> 'a result) \<Rightarrow> 'a option \<Rightarrow> (string \<times> json) list \<Rightarrow> string \<Rightarrow> 'a result" where
  "typed_field dec dflt kvs k = (case map_of kvs k of
     None \<Rightarrow> (case dflt of None \<Rightarrow> Inl TypeError | Some d \<Rightarrow> Inr d)
   | Some v \<Rightarrow> dec v)"

definition as_str :: "json \<Rightarrow> string result" where
  "as_str v = (case v of JStr s \<Rightarrow> Inr s | _ \<Rightarrow> Inl IllTyped)"

definition as_int :: "json \<Rightarrow> int result" where
  "as_int v = (case v of JInt n \<Rightarrow> Inr n | _ \<Rightarrow> Inl IllTyped)"

definition as_bool :: "json \<Rightarrow> bool result" where
  "as_bool v = (case v of JBool b \<Rightarrow> Inr b | _ \<Rightarrow> Inl IllTyped)"

definition as_opt :: "(json \<Rightarrow> 'a result) \<Rightarrow> json \<Rightarrow> 'a option result" where
  "as_opt dec v = (if v = JNull then Inr None else ebind (dec v) (\<lambda>x. Inr (Some x)))"

definition as_list :: "(json \<Rightarrow> 'a result) \<Rightarrow> json \<Rightarrow> 'a list result" where
  "as_list dec v = (case v of JArr xs \<Rightarrow> mapM dec xs | _ \<Rightarrow> Inl IllTyped)"

definition as_pair :: "json \<Rightarrow> (int \<times> int) result" where
  "as_pair v = ebind (as_list as_int v) (\<lambda>xs. case xs of [a, b] \<Rightarrow> Inr (a, b) | _ \<Rightarrow> Inl IllTyped)"

definition EXPR_FIELDS :: "string list" where
  "EXPR_FIELDS = [''op'', ''width'', ''args'', ''signal'', ''bits'', ''declared_bits'', ''value'',
     ''signed'', ''reason'', ''bounds'', ''stride'', ''function'', ''two_state'', ''fill'', ''dimensions'',
     ''array_indices'']"

definition enode_from_fields :: "(string \<times> json) list \<Rightarrow> enode result" where
  "enode_from_fields kvs =
     ebind (require (list_all (\<lambda>(k, _). k \<in> set EXPR_FIELDS) kvs) TypeError) (\<lambda>_.
     ebind (typed_field as_str None kvs ''op'') (\<lambda>f_op.
     ebind (typed_field as_int None kvs ''width'') (\<lambda>f_width.
     ebind (typed_field (as_opt as_str) (Some None) kvs ''signal'') (\<lambda>f_signal.
     ebind (typed_field (as_list as_int) (Some []) kvs ''bits'') (\<lambda>f_bits.
     ebind (typed_field (as_list as_int) (Some []) kvs ''declared_bits'') (\<lambda>f_declared.
     ebind (typed_field (as_opt as_str) (Some None) kvs ''value'') (\<lambda>f_value.
     ebind (typed_field as_bool (Some False) kvs ''signed'') (\<lambda>f_signed.
     ebind (typed_field (as_opt as_str) (Some None) kvs ''reason'') (\<lambda>f_reason.
     ebind (typed_field (as_opt as_pair) (Some None) kvs ''bounds'') (\<lambda>f_bounds.
     ebind (typed_field as_int (Some 1) kvs ''stride'') (\<lambda>f_stride.
     ebind (typed_field (as_opt as_str) (Some None) kvs ''function'') (\<lambda>f_function.
     ebind (typed_field as_bool (Some False) kvs ''two_state'') (\<lambda>f_two_state.
     ebind (typed_field as_bool (Some False) kvs ''fill'') (\<lambda>f_fill.
     ebind (typed_field (as_list as_pair) (Some []) kvs ''dimensions'') (\<lambda>f_dims.
     ebind (typed_field (as_list as_int) (Some []) kvs ''array_indices'') (\<lambda>f_indices.
       Inr \<lparr>e_op = f_op, e_width = f_width, e_signal = f_signal, e_bits = f_bits, e_declared = f_declared,
         e_value = f_value, e_signed = f_signed, e_reason = f_reason, e_bounds = f_bounds, e_stride = f_stride,
         e_function = f_function, e_two_state = f_two_state, e_fill = f_fill, e_dims = f_dims,
         e_indices = f_indices\<rparr>))))))))))))))))"

text \<open>
  \<open>Expr.from_dict\<close>. The first argument is the remaining depth: the call at depth \<open>d\<close> has
  \<open>MAX_EXPR_DEPTH + 1 - d\<close>, so that 0 is the check \<open>_depth > MAX_EXPR_DEPTH\<close>. The budget is the
  mutable one-element list, threaded through the arguments.
\<close>

primrec expr_from_dict_at :: "nat \<Rightarrow> json \<Rightarrow> int \<Rightarrow> (expr \<times> int) result" where
  "expr_from_dict_at 0 raw budget = Inl (ValueError ''dynamic_expression_limit'')"
| "expr_from_dict_at (Suc r) raw budget =
     (if budget - 1 < 0 then Inl (ValueError ''dynamic_expression_limit'')
      else case raw of
        JObj kvs \<Rightarrow>
          ebind (typed_field (as_list Inr) (Some []) kvs ''args'') (\<lambda>raws.
          ebind (mapMS (expr_from_dict_at r) raws (budget - 1)) (\<lambda>(xs, budget').
          ebind (enode_from_fields kvs) (\<lambda>n.
          ebind (mk_expr n xs) (\<lambda>e. Inr (e, budget')))))
      | _ \<Rightarrow> Inl AttributeError)"

definition expr_from_dict :: "json \<Rightarrow> expr result" where
  "expr_from_dict raw =
     ebind (expr_from_dict_at (Suc MAX_EXPR_DEPTH) raw MAX_EXPR_NODES) (\<lambda>(e, _). Inr e)"

section \<open>Assignment\<close>

record dyn_assignment =
  da_process :: string
  da_order :: int
  da_guard :: expr
  da_value :: expr
  da_clock :: "expr option"
  da_edge :: "string option"
  da_nonblocking :: bool
  da_gaps :: "string list"

definition dyn_assignment_to_json :: "dyn_assignment \<Rightarrow> json" where
  "dyn_assignment_to_json a = JObj [
     (''process'', JStr (da_process a)), (''order'', JInt (da_order a)),
     (''guard'', expr_to_json (da_guard a)), (''value'', expr_to_json (da_value a)),
     (''clock'', jopt expr_to_json (da_clock a)), (''edge'', JOptStr (da_edge a)),
     (''nonblocking'', JBool (da_nonblocking a)), (''gaps'', JStrs (da_gaps a))]"

definition ASSIGNMENT_FIELDS :: "string list" where
  "ASSIGNMENT_FIELDS = [''process'', ''order'', ''guard'', ''value'', ''clock'', ''edge'', ''nonblocking'', ''gaps'']"

definition dyn_assignment_from_json :: "json \<Rightarrow> dyn_assignment result" where
  "dyn_assignment_from_json raw = (case raw of
     JObj kvs \<Rightarrow>
       ebind (ebind (py_getitem raw ''guard'') expr_from_dict) (\<lambda>g.
       ebind (ebind (py_getitem raw ''value'') expr_from_dict) (\<lambda>v.
       ebind (case map_of kvs ''clock'' of
                None \<Rightarrow> Inr None
              | Some c \<Rightarrow> if py_bool c then ebind (expr_from_dict c) (\<lambda>e. Inr (Some e)) else Inr None) (\<lambda>c.
       ebind (typed_field (as_list as_str) (Some []) kvs ''gaps'') (\<lambda>gs.
       ebind (require (list_all (\<lambda>(k, _). k \<in> set ASSIGNMENT_FIELDS) kvs) TypeError) (\<lambda>_.
       ebind (typed_field as_str None kvs ''process'') (\<lambda>p.
       ebind (typed_field as_int None kvs ''order'') (\<lambda>n.
       ebind (typed_field (as_opt as_str) (Some None) kvs ''edge'') (\<lambda>e.
       ebind (typed_field as_bool (Some False) kvs ''nonblocking'') (\<lambda>nb.
         Inr \<lparr>da_process = p, da_order = n, da_guard = g, da_value = v, da_clock = c, da_edge = e,
              da_nonblocking = nb, da_gaps = gs\<rparr>)))))))))
   | _ \<Rightarrow> Inl TypeError)"

end
