(* ===== verification/Dyn_Eval.thy ===== *)
theory Dyn_Eval
  imports Dyn_Expr
begin

text \<open>
  The evaluator of src/src/dynamic_evidence.py: \<open>Evaluation\<close>, \<open>evaluate\<close> with its inner
  functions \<open>array_target\<close> and \<open>walk\<close>, and \<open>expression_gaps\<close>. A sample is a function from a
  signal node to the dict of the recorded fact. The shared budget (the \<open>nonlocal\<close> of the code)
  is threaded; the remaining depth \<open>MAX_EXPR_DEPTH + 1 - depth\<close> is the recursion argument.
  Every branch of \<open>walk\<close> is a definition over the walker \<open>w\<close> of the next depth.
\<close>

section \<open>Evaluation\<close>

record evaluation =
  ev_value :: "string option"
  ev_deps :: "json list"
  ev_gaps :: "string list"
  ev_branches :: "json list"
  ev_ref :: "(string \<times> int list) option"

definition mk_ev :: "string option \<Rightarrow> json list \<Rightarrow> string list \<Rightarrow> json list \<Rightarrow> evaluation" where
  "mk_ev v ds gs bs = \<lparr>ev_value = v, ev_deps = ds, ev_gaps = gs, ev_branches = bs, ev_ref = None\<rparr>"

definition ev_truth :: "evaluation \<Rightarrow> string" where
  "ev_truth ev = (case ev_value ev of
     None \<Rightarrow> ''unsupported''
   | Some v \<Rightarrow> if CHR ''1'' \<in> set v then ''true''
               else if known (Some v) then ''false'' else ''unknown'')"

type_synonym fact = "(string \<times> json) list"
type_synonym sampler = "enode \<Rightarrow> fact"
type_synonym walker = "expr \<Rightarrow> string \<Rightarrow> int \<Rightarrow> (evaluation \<times> int) result"
type_synonym targeter = "expr \<Rightarrow> string \<Rightarrow> int \<Rightarrow> ((expr option \<times> evaluation) \<times> int) result"

definition limit_ev :: evaluation where
  "limit_ev = mk_ev None [] [''dynamic_expression_limit''] []"

definition some_or :: "'a option \<Rightarrow> 'a result" where
  "some_or x = (case x of None \<Rightarrow> Inl TypeError | Some a \<Rightarrow> Inr a)"

section \<open>array_target\<close>

definition add_history :: "evaluation \<Rightarrow> evaluation \<Rightarrow> evaluation" where
  "add_history h i = h\<lparr>ev_deps := ev_deps h @ ev_deps i, ev_gaps := ev_gaps h @ ev_gaps i,
     ev_branches := ev_branches h @ ev_branches i\<rparr>"

definition add_gap :: "evaluation \<Rightarrow> string \<Rightarrow> evaluation" where
  "add_gap h g = h\<lparr>ev_gaps := ev_gaps h @ [g]\<rparr>"

definition fill_char :: "enode \<Rightarrow> char" where
  "fill_char n = (if e_two_state n then CHR ''0'' else CHR ''x'')"

definition index_path :: "int list \<Rightarrow> string" where
  "index_path ixs = concat (map (\<lambda>i. ''['' @ show_int i @ '']'') ixs)"

text \<open>The element of a container selected by a known, in-range index.\<close>

definition array_element :: "expr \<Rightarrow> int \<times> int \<Rightarrow> int \<Rightarrow> evaluation \<Rightarrow> (expr option \<times> evaluation) result" where
  "array_element c b i h =
     (let m = enode_of c in
      if e_op m = ''array_ref'' then
        (case e_dims m of
           [] \<Rightarrow> Inl IndexError
         | d # ds \<Rightarrow>
             if b \<noteq> d then Inr (None, add_gap h ''array_mapping_unavailable'')
             else let ixs = e_indices m @ [i] in
               if ds \<noteq> [] then
                 ebind (mk_expr (m\<lparr>e_dims := ds, e_indices := ixs\<rparr>) (eargs c)) (\<lambda>c'. Inr (Some c', h))
               else
                 ebind (some_or (e_signal m)) (\<lambda>s.
                 ebind (mk_expr (m\<lparr>e_op := ''signal'', e_signal := Some (s @ index_path ixs), e_dims := [],
                                  e_indices := ixs\<rparr>) (eargs c)) (\<lambda>c'. Inr (Some c', h))))
      else if i \<notin> set (e_bits m) then Inr (None, add_gap h ''array_element_not_dumped'')
      else ebind (py_index (eargs c) (int (length (takeWhile (\<lambda>x. x \<noteq> i) (e_bits m))))) (\<lambda>a.
             Inr (Some a, h)))"

definition target_step :: "walker \<Rightarrow> targeter \<Rightarrow> targeter" where
  "target_step w tgt e use b =
     (let n = enode_of e in
      if e_op n \<in> {''array'', ''array_ref''} then Inr ((Some e, mk_ev None [] [] []), b)
      else if e_op n \<noteq> ''array_select''
      then Inr ((None, mk_ev None [] [''array_mapping_unavailable''] []), b)
      else (case eargs e of
        [base, ix] \<Rightarrow>
          ebind (tgt base use b) (\<lambda>((c, h0), b1).
          ebind (w ix ''index'' b1) (\<lambda>(index, b2).
            let h = add_history h0 index in
            case (c, ev_value index) of
              (Some container, Some iv) \<Rightarrow>
                if \<not> known (Some iv) then
                  Inr ((None, add_gap (h\<lparr>ev_value := Some (replicate (nat (e_width n)) (fill_char n))\<rparr>)
                                ''index_unknown''), b2)
                else
                  ebind (mk_value iv (e_signed (enode_of ix))) (\<lambda>v.
                  ebind (vinteger v) (\<lambda>i.
                  ebind (some_or (e_bounds n)) (\<lambda>bd.
                    if \<not> in_bounds bd i then
                      Inr ((None, add_gap (h\<lparr>ev_value := Some (replicate (nat (e_width n)) (fill_char n))\<rparr>)
                                    ''index_out_of_range''), b2)
                    else ebind (array_element container bd i h) (\<lambda>r. Inr (r, b2)))))
            | _ \<Rightarrow> Inr ((None, h), b2)))
      | _ \<Rightarrow> Inl (ValueError ''not enough values to unpack'')))"

section \<open>The branches of walk\<close>

definition dimension_value :: "string option \<Rightarrow> int \<times> int \<Rightarrow> int result" where
  "dimension_value f d =
     (let l = fst d; r = snd d in
      case map_of [(''$left'', l), (''$right'', r), (''$low'', min l r), (''$high'', max l r),
                   (''$size'', \<bar>l - r\<bar> + 1), (''$increment'', if r \<le> l then 1 else - 1)]
             (case f of None \<Rightarrow> [] | Some g \<Rightarrow> g) of
        None \<Rightarrow> Inl (KeyError (case f of None \<Rightarrow> ''None'' | Some g \<Rightarrow> g))
      | Some v \<Rightarrow> Inr v)"

definition walk_dimension :: "walker \<Rightarrow> expr \<Rightarrow> int \<Rightarrow> (evaluation \<times> int) result" where
  "walk_dimension w e b =
     (let n = enode_of e in
      ebind (py_index (eargs e) 0) (\<lambda>a.
      ebind (w a ''index'' b) (\<lambda>(ev, b1).
        let index = ev\<lparr>ev_ref := None\<rparr> in
        case ev_value index of
          None \<Rightarrow> Inr (index, b1)
        | Some iv \<Rightarrow>
            ebind (mk_value iv (e_signed (enode_of a))) (\<lambda>v.
            if \<not> vknown v then
              Inr (add_gap (index\<lparr>ev_value := Some (replicate 32 CHR ''x'')\<rparr>) ''dimension_unknown'', b1)
            else ebind (vinteger v) (\<lambda>dim.
              if \<not> (1 \<le> dim \<and> dim \<le> int (length (e_dims n))) then
                Inr (add_gap (index\<lparr>ev_value := Some (replicate 32 CHR ''x'')\<rparr>) ''dimension_out_of_range'', b1)
              else
                ebind (py_index (e_dims n) (dim - 1)) (\<lambda>d.
                ebind (dimension_value (e_function n) d) (\<lambda>r.
                ebind (number r 32 True) (\<lambda>x.
                  Inr (index\<lparr>ev_value := Some (vbits x)\<rparr>, b1)))))))))"

text \<open>\<open>{**d, k: v, ...}\<close>.\<close>

fun dict_set :: "string \<Rightarrow> 'v \<Rightarrow> (string \<times> 'v) list \<Rightarrow> (string \<times> 'v) list" where
  "dict_set k v [] = [(k, v)]"
| "dict_set k v ((k', v') # kvs) = (if k = k' then (k, v) # kvs else (k', v') # dict_set k v kvs)"

definition dict_update :: "(string \<times> 'v) list \<Rightarrow> (string \<times> 'v) list \<Rightarrow> (string \<times> 'v) list" where
  "dict_update kvs new = fold (\<lambda>(k, v) d. dict_set k v d) new kvs"

definition fact_value :: "fact \<Rightarrow> json" where
  "fact_value f = (case map_of f ''value'' of None \<Rightarrow> JNull | Some v \<Rightarrow> v)"

definition walk_signal :: "sampler \<Rightarrow> enode \<Rightarrow> string \<Rightarrow> evaluation result" where
  "walk_signal smp n use =
     (let f = smp n; raw = bit_value (fact_value f) (Some (e_width n)) in
      ebind (typed_field (as_list as_str) (Some []) f ''gaps'') (\<lambda>gs0.
        let gs = gs0 @ (if raw = None then [''signal_not_dumped'']
                        else if \<not> known raw then [''value_unknown''] else []);
            v = (if e_two_state n then map_option two_state_bits raw else raw)
        in Inr \<lparr>ev_value = v,
             ev_deps = [JObj (dict_update f
               ([(''signal'', JOptStr (e_signal n)), (''bits'', JInts (e_bits n)),
                 (''declared_bits'', JInts (e_declared n))] @
                (if e_indices n \<noteq> [] then [(''array_indices'', JInts (e_indices n))] else []) @
                [(''width'', JInt (e_width n)), (''role'', JStr use), (''value'', JOptStr v)]))],
             ev_gaps = gs, ev_branches = [],
             ev_ref = (case e_signal n of None \<Rightarrow> None | Some s \<Rightarrow> Some (s, e_bits n))\<rparr>))"

definition walk_array_select :: "walker \<Rightarrow> targeter \<Rightarrow> expr \<Rightarrow> string \<Rightarrow> int \<Rightarrow> (evaluation \<times> int) result" where
  "walk_array_select w tgt e use b =
     ebind (tgt e use b) (\<lambda>((target, ixs), b1).
       case target of
         None \<Rightarrow> Inr (ixs, b1)
       | Some t \<Rightarrow>
           if e_op (enode_of t) \<in> {''array'', ''array_ref''} then
             Inr (mk_ev None (ev_deps ixs) (ev_gaps ixs @ [''array_requires_selection'']) (ev_branches ixs), b1)
           else
             ebind (w t use b1) (\<lambda>(data, b2).
               Inr (\<lparr>ev_value = ev_value data, ev_deps = ev_deps ixs @ ev_deps data,
                     ev_gaps = dedupe (ev_gaps ixs @ ev_gaps data),
                     ev_branches = ev_branches ixs @ ev_branches data, ev_ref = ev_ref data\<rparr>, b2)))"

definition or_x :: "string option \<Rightarrow> string" where
  "or_x v = (case v of None \<Rightarrow> ''x'' | Some s \<Rightarrow> if s = [] then ''x'' else s)"

definition decisive :: "string \<Rightarrow> string \<Rightarrow> bool" where
  "decisive opr t \<longleftrightarrow> opr = ''&&'' \<and> t = ''false'' \<or> opr = ''||'' \<and> t = ''true'' \<or> opr = ''->'' \<and> t = ''false''"

definition walk_logical :: "walker \<Rightarrow> expr \<Rightarrow> int \<Rightarrow> (evaluation \<times> int) result" where
  "walk_logical w e b =
     (let opr = e_op (enode_of e) in
      ebind (py_index (eargs e) 0) (\<lambda>a0.
      ebind (w a0 ''control'' b) (\<lambda>(lhs, b1).
        if decisive opr (ev_truth lhs) then
          Inr (mk_ev (Some (if opr = ''&&'' then ''0'' else ''1'')) (ev_deps lhs) (ev_gaps lhs)
                 (ev_branches lhs), b1)
        else
          ebind (py_index (eargs e) 1) (\<lambda>a1.
          ebind (w a1 ''control'' b1) (\<lambda>(rhs, b2).
          ebind (mk_value (or_x (ev_value lhs)) False) (\<lambda>x.
          ebind (mk_value (or_x (ev_value rhs)) False) (\<lambda>y.
          ebind (binary opr x y None) (\<lambda>r.
            let v = (if vbits r = ''x'' \<and> (ev_value lhs = None \<or> ev_value rhs = None)
                     then None else Some (vbits r))
            in Inr (mk_ev v (ev_deps lhs @ ev_deps rhs) (dedupe (ev_gaps lhs @ ev_gaps rhs))
                      (ev_branches lhs @ ev_branches rhs), b2)))))))))"

definition branch_json :: "expr \<Rightarrow> string \<Rightarrow> int option \<Rightarrow> json" where
  "branch_json c t sel = JObj [(''condition'', expr_to_json c), (''state'', JStr t),
     (''selected'', jopt JInt sel)]"

definition mux_merge :: "expr \<Rightarrow> evaluation \<Rightarrow> evaluation list \<Rightarrow> string option result" where
  "mux_merge e cond cs =
     (case (ev_value cond, cs) of
        (Some cv, [c1, c2]) \<Rightarrow>
          (case (ev_value c1, ev_value c2) of
             (Some v1, Some v2) \<Rightarrow>
               ebind (mk_value cv False) (\<lambda>c.
               ebind (py_index (eargs e) 1) (\<lambda>a1.
               ebind (mk_value v1 (e_signed (enode_of a1))) (\<lambda>x.
               ebind (py_index (eargs e) 2) (\<lambda>a2.
               ebind (mk_value v2 (e_signed (enode_of a2))) (\<lambda>y.
               ebind (conditional c x y (Some (e_width (enode_of e)))) (\<lambda>r. Inr (Some (vbits r))))))))
           | _ \<Rightarrow> Inr None)
      | _ \<Rightarrow> Inr None)"

definition walk_mux :: "walker \<Rightarrow> expr \<Rightarrow> string \<Rightarrow> int \<Rightarrow> (evaluation \<times> int) result" where
  "walk_mux w e use b =
     (let n = enode_of e in
      ebind (py_index (eargs e) 0) (\<lambda>a0.
      ebind (w a0 ''control'' b) (\<lambda>(cond, b1).
        let sel = (if ev_truth cond = ''true'' then Some 1
                   else if ev_truth cond = ''false'' then Some 2 else None) in
        ebind (mapMS (\<lambda>i s. ebind (py_index (eargs e) i) (\<lambda>a. w a use s))
                 (case sel of Some k \<Rightarrow> [k] | None \<Rightarrow> [1, 2]) b1) (\<lambda>(cs, b2).
        ebind (case sel of Some _ \<Rightarrow> Inr (ev_value (hd cs)) | None \<Rightarrow> mux_merge e cond cs) (\<lambda>v.
          let bad = list_ex (\<lambda>a. e_width (enode_of a) \<noteq> e_width n) (drop 1 (eargs e)) in
          Inr (\<lparr>ev_value = (if bad then None else v),
                ev_deps = ev_deps cond @ concat (map ev_deps cs),
                ev_gaps = ev_gaps cond @ concat (map ev_gaps cs) @
                  (if sel = None then [''guard_unresolved''] else []) @
                  (if bad then [''expression_width_unresolved''] else []),
                ev_branches = ev_branches cond @ [branch_json a0 (ev_truth cond) sel] @
                  concat (map ev_branches cs),
                ev_ref = (if sel = None then None else ev_ref (hd cs))\<rparr>, b2))))))"

text \<open>
  \<open>select_positions\<close>: the MSB-first positions in the base of a bit or part select at index
  \<open>at\<close>, \<open>None\<close> where an index leaves the declared range.
\<close>

definition select_bounds :: "enode \<Rightarrow> expr \<Rightarrow> int \<times> int" where
  "select_bounds n base = (case e_bounds n of Some b \<Rightarrow> b
     | None \<Rightarrow> (e_width (enode_of base) div e_stride n - 1, 0))"

definition select_indices :: "enode \<Rightarrow> int \<times> int \<Rightarrow> int \<Rightarrow> int list" where
  "select_indices n bd i =
     (if e_op n = ''select'' then [i]
      else let count = e_width n div e_stride n;
               low = (if e_op n = ''part_up'' then i else i - count + 1);
               ixs = map (\<lambda>k. low + int k) [0..<nat count]
           in if snd bd \<le> fst bd then rev ixs else ixs)"

definition select_positions :: "enode \<Rightarrow> expr \<Rightarrow> int \<Rightarrow> int option list" where
  "select_positions n base i =
     (let bd = select_bounds n base; dir = (if snd bd \<le> fst bd then - 1 else 1) in
      concat (map (\<lambda>k. map (\<lambda>j. if in_bounds bd k then Some ((k - fst bd) * dir * e_stride n + int j) else None)
                         [0..<nat (e_stride n)])
               (select_indices n bd i)))"

definition walk_select :: "walker \<Rightarrow> expr \<Rightarrow> string \<Rightarrow> int \<Rightarrow> (evaluation \<times> int) result" where
  "walk_select w e use b =
     (let n = enode_of e in
      case eargs e of
        [base, ix] \<Rightarrow>
          ebind (w ix ''index'' b) (\<lambda>(index, b1).
          case ev_value index of
            None \<Rightarrow> Inr (mk_ev None (ev_deps index) (ev_gaps index) (ev_branches index), b1)
          | Some iv \<Rightarrow>
            if \<not> known (Some iv) then
              Inr (mk_ev (Some (replicate (nat (e_width n)) CHR ''x'')) (ev_deps index)
                     (dedupe (ev_gaps index @ [''index_unknown''])) (ev_branches index), b1)
            else
              ebind (mk_value iv (e_signed (enode_of ix))) (\<lambda>v.
              ebind (vinteger v) (\<lambda>i.
              let ps = select_positions n base i in
              if int (length ps) \<noteq> e_width n then
                Inr (mk_ev None (ev_deps index) [''expression_width_unresolved''] (ev_branches index), b1)
              else
                ebind
                  (if e_op (enode_of base) = ''signal'' \<and> list_all (\<lambda>p. p \<noteq> None) ps then
                     ebind (mapM (\<lambda>p. py_index (e_bits (enode_of base)) (the p)) ps) (\<lambda>bs.
                     ebind (mk_expr ((enode_of base)\<lparr>e_width := e_width n, e_bits := bs, e_signed := e_signed n\<rparr>)
                              (eargs base)) (\<lambda>sel.
                     ebind (w sel use b1) (\<lambda>(data, b2). Inr (ev_value data, ev_ref data, data, b2))))
                   else
                     ebind (w base use b1) (\<lambda>(data, b2).
                     ebind (case ev_value data of
                              None \<Rightarrow> Inr None
                            | Some dv \<Rightarrow>
                                ebind (mapM (\<lambda>p. case p of None \<Rightarrow> Inr CHR ''x'' | Some k \<Rightarrow> py_index dv k) ps)
                                  (\<lambda>cs. Inr (Some cs))) (\<lambda>val.
                       Inr (val, None, data, b2))))
                  (\<lambda>(val, ref, data, b2).
                     Inr (\<lparr>ev_value = val, ev_deps = ev_deps index @ ev_deps data,
                           ev_gaps = dedupe (ev_gaps index @ ev_gaps data @
                             (if list_ex (\<lambda>p. p = None) ps then [''index_out_of_range''] else [])),
                           ev_branches = ev_branches index @ ev_branches data, ev_ref = ref\<rparr>, b2)))))
      | _ \<Rightarrow> Inl (ValueError ''not enough values to unpack''))"

text \<open>\<open>inside\<close>: an item is a value or a range of two endpoints.\<close>

definition endpoints :: "expr \<Rightarrow> expr list" where
  "endpoints item = (if e_op (enode_of item) = ''range'' then eargs item else [item])"

definition inside_match :: "fvalue \<Rightarrow> bool \<Rightarrow> fvalue list \<Rightarrow> string result" where
  "inside_match target is_range inputs =
     (if is_range then
        ebind (py_index inputs 0) (\<lambda>lo.
        ebind (binary ''>='' target lo None) (\<lambda>ge.
        ebind (py_index inputs 1) (\<lambda>hi.
        ebind (binary ''<='' target hi None) (\<lambda>le.
        ebind (binary ''&&'' ge le None) (\<lambda>r. Inr (vbits r))))))
      else
        ebind (py_index inputs 0) (\<lambda>x. ebind (binary ''==?'' target x None) (\<lambda>r. Inr (vbits r))))"

definition all_some :: "'a option list \<Rightarrow> bool" where
  "all_some vs \<longleftrightarrow> list_all (\<lambda>v. v \<noteq> None) vs"

definition operand_values :: "expr list \<Rightarrow> evaluation list \<Rightarrow> fvalue list result" where
  "operand_values xs evs = mapM (\<lambda>(a, ev). mk_value (the (ev_value ev)) (e_signed (enode_of a))) (zip xs evs)"

definition inside_item ::
  "walker \<Rightarrow> string \<Rightarrow> expr \<Rightarrow> evaluation \<Rightarrow> expr \<Rightarrow> int \<Rightarrow> ((evaluation list \<times> string option) \<times> int) result"
where
  "inside_item w use subj sev item b =
     ebind (mapMS (\<lambda>a s. w a use s) (endpoints item) b) (\<lambda>(obs, b1).
       case ev_value sev of
         None \<Rightarrow> Inr ((obs, None), b1)
       | Some sv \<Rightarrow>
           if \<not> all_some (map ev_value obs) then Inr ((obs, None), b1)
           else
             ebind (mk_value sv (e_signed (enode_of subj))) (\<lambda>target.
             ebind (operand_values (endpoints item) obs) (\<lambda>inputs.
             ebind (inside_match target (e_op (enode_of item) = ''range'') inputs) (\<lambda>m.
               Inr ((obs, Some m), b1)))))"

definition inside_value :: "string option list \<Rightarrow> string option" where
  "inside_value ms =
     (if Some ''1'' \<in> set ms then Some ''1'' else if None \<in> set ms then None
      else if Some ''x'' \<in> set ms then Some ''x'' else Some ''0'')"

definition walk_inside :: "walker \<Rightarrow> expr \<Rightarrow> string \<Rightarrow> int \<Rightarrow> (evaluation \<times> int) result" where
  "walk_inside w e use b =
     ebind (py_index (eargs e) 0) (\<lambda>subj.
     ebind (w subj use b) (\<lambda>(sev, b1).
     ebind (mapMS (inside_item w use subj sev) (drop 1 (eargs e)) b1) (\<lambda>(rs, b2).
       let obs = sev # concat (map fst rs) in
       Inr (mk_ev (inside_value (map snd rs)) (concat (map ev_deps obs))
              (dedupe (concat (map ev_gaps obs))) (concat (map ev_branches obs)), b2))))"

section \<open>The remaining operators\<close>

text \<open>
  \<open>combine\<close>: value, reference and extra gaps of a node from the evaluations of its arguments,
  in the order of the \<open>elif\<close> chain. The last group needs every argument to have a value.
\<close>

type_synonym outcome = "string option \<times> (string \<times> int list) option \<times> string list"

definition reason_or_default :: "enode \<Rightarrow> string" where
  "reason_or_default n = (if no_value (e_reason n) then ''dynamic_evidence_unavailable'' else the (e_reason n))"

definition combine_and_or :: "string \<Rightarrow> evaluation list \<Rightarrow> outcome result" where
  "combine_and_or opr cs =
     (let ts = map ev_truth cs; is_and = (opr = ''and'') in
      if all_some (map ev_value cs) then
        ebind (mapM (\<lambda>c. mk_value (the (ev_value c)) False) cs) (\<lambda>vs.
        case vs of
          [x, y] \<Rightarrow> ebind (binary (if is_and then ''&&'' else ''||'') x y None) (\<lambda>r. Inr (Some (vbits r), None, []))
        | _ \<Rightarrow> Inl TypeError)
      else if (if is_and then ''false'' else ''true'') \<in> set ts
        then Inr (Some (if is_and then ''0'' else ''1''), None, [])
      else if list_all (\<lambda>t. t = (if is_and then ''true'' else ''false'')) ts
        then Inr (Some (if is_and then ''1'' else ''0''), None, [])
      else if ''unsupported'' \<notin> set ts then Inr (Some ''x'', None, [])
      else Inr (None, None, []))"

definition combine_equality :: "string \<Rightarrow> expr list \<Rightarrow> evaluation list \<Rightarrow> outcome result" where
  "combine_equality opr xs cs =
     ebind (py_index xs 0) (\<lambda>a. ebind (py_index xs 1) (\<lambda>b.
       if e_width (enode_of a) \<noteq> e_width (enode_of b) \<or> e_signed (enode_of a) \<noteq> e_signed (enode_of b)
       then Inr (None, None, [''operand_type_unresolved''])
       else if all_some (map ev_value cs) then
         ebind (operand_values xs cs) (\<lambda>vs.
         case vs of
           [x, y] \<Rightarrow> ebind (binary (if opr = ''eq'' then ''=='' else ''!='') x y None) (\<lambda>r.
                       Inr (Some (vbits r), None, []))
         | _ \<Rightarrow> Inl IndexError)
       else Inr (None, None, [])))"

definition joined_reference :: "evaluation list \<Rightarrow> (string \<times> int list) option" where
  "joined_reference cs = (case map ev_ref cs of
     Some (s, bs) # _ \<Rightarrow>
       if list_all (\<lambda>c. case ev_ref c of None \<Rightarrow> False | Some (t, _) \<Rightarrow> t = s) cs
       then Some (s, concat (map (\<lambda>c. snd (the (ev_ref c))) cs)) else None
   | _ \<Rightarrow> None)"

definition combine_cast :: "enode \<Rightarrow> expr \<Rightarrow> evaluation \<Rightarrow> string \<Rightarrow> outcome result" where
  "combine_cast n a c v =
     ebind (mk_value v (e_signed (enode_of a))) (\<lambda>x.
     ebind (vresize x (e_width n) (Some (e_signed n)) None (e_two_state n)) (\<lambda>r.
       Inr (Some (vbits r),
            (case ev_ref c of
               Some (s, bs) \<Rightarrow> if e_width n \<le> e_width (enode_of a) \<and> \<not> e_two_state n
                              then Some (s, last_n (nat (e_width n)) bs) else None
             | None \<Rightarrow> None), [])))"

definition combine_project :: "enode \<Rightarrow> evaluation \<Rightarrow> string \<Rightarrow> outcome result" where
  "combine_project n c v =
     ebind (mapM (py_index v) (e_bits n)) (\<lambda>cs.
       case ev_ref c of
         None \<Rightarrow> Inr (Some cs, None, [])
       | Some (s, bs) \<Rightarrow> ebind (mapM (py_index bs) (e_bits n)) (\<lambda>ps. Inr (Some cs, Some (s, ps), [])))"

definition combine_binary :: "enode \<Rightarrow> fvalue list \<Rightarrow> outcome result" where
  "combine_binary n vs = (case vs of
     [x, y] \<Rightarrow>
       ebind (binary (e_op n) x y (Some (e_width n))) (\<lambda>r.
         Inr (Some (vbits r), None,
              if (e_op n = ''/'' \<or> e_op n = ''%'') \<and> vknown y \<and> vinteger y = Inr 0
              then [''division_by_zero''] else []))
   | _ \<Rightarrow> Inl TypeError)"

definition combine_repeat :: "enode \<Rightarrow> fvalue list \<Rightarrow> outcome result" where
  "combine_repeat n vs =
     ebind (py_index vs 0) (\<lambda>x.
       case (if vknown x then vinteger x else Inr 0) of
         Inl er \<Rightarrow> Inl er
       | Inr k \<Rightarrow>
           if 0 < k \<and> k \<le> MAX_EXPR_WIDTH then
             ebind (py_index vs 1) (\<lambda>y.
               if k * vwidth y \<noteq> e_width n then Inr (None, None, [''expression_width_unresolved''])
               else Inr (Some (concat (replicate (nat k) (vbits y))), None, []))
           else Inr (None, None, [''expression_repeat_count_invalid'']))"

definition combine_stream :: "enode \<Rightarrow> fvalue list \<Rightarrow> outcome result" where
  "combine_stream n vs =
     ebind (py_index vs 1) (\<lambda>y.
       if vknown y then
         ebind (py_index vs 0) (\<lambda>x.
         ebind (vinteger y) (\<lambda>k.
         ebind (stream x (if e_op n = ''stream_left'' then ''<<'' else ''>>'') k) (\<lambda>r.
           Inr (Some (vbits r), None, []))))
       else Inr (None, None, [''expression_stream_size_invalid'']))"

definition unary_name :: "string \<Rightarrow> string" where
  "unary_name opr = (if starts_with ''reduce_'' opr then drop 7 opr
     else dropWhile (\<lambda>c. c = CHR ''u'') opr)"

definition combine_operands :: "enode \<Rightarrow> expr list \<Rightarrow> evaluation list \<Rightarrow> outcome result" where
  "combine_operands n xs cs =
     ebind (operand_values xs cs) (\<lambda>vs.
       let opr = e_op n in
       if opr \<in> set BINARY then combine_binary n vs
       else if opr \<in> {''u+'', ''u-'', ''~''} \<or> starts_with ''reduce_'' opr then
         ebind (py_index vs 0) (\<lambda>x. ebind (unary (unary_name opr) x) (\<lambda>r. Inr (Some (vbits r), None, [])))
       else if opr = ''function'' then
         ebind (builtin (case e_function n of None \<Rightarrow> [] | Some f \<Rightarrow> f) vs) (\<lambda>x.
         ebind (vresize x (e_width n) (Some (e_signed n)) None False) (\<lambda>r. Inr (Some (vbits r), None, [])))
       else if opr = ''repeat'' then combine_repeat n vs
       else if opr = ''stream_left'' \<or> opr = ''stream_right'' then combine_stream n vs
       else Inr (None, None, []))"

definition combine :: "enode \<Rightarrow> expr list \<Rightarrow> evaluation list \<Rightarrow> outcome result" where
  "combine n xs cs =
     (let opr = e_op n; full = all_some (map ev_value cs) in
      if opr = ''unsupported'' then Inr (None, None, [reason_or_default n])
      else if opr = ''not'' then
        ebind (py_index cs 0) (\<lambda>c. case ev_value c of
            None \<Rightarrow> Inr (None, None, [])
          | Some v \<Rightarrow> ebind (mk_value v False) (\<lambda>x. ebind (unary ''!'' x) (\<lambda>r. Inr (Some (vbits r), None, []))))
      else if opr = ''and'' \<or> opr = ''or'' then combine_and_or opr cs
      else if opr = ''eq'' \<or> opr = ''ne'' then combine_equality opr xs cs
      else if opr = ''concat'' \<and> full then
        Inr (Some (concat (map (\<lambda>c. the (ev_value c)) cs)), joined_reference cs, [])
      else if opr = ''cast'' \<and> cs \<noteq> [] \<and> ev_value (hd cs) \<noteq> None then
        ebind (py_index xs 0) (\<lambda>a. combine_cast n a (hd cs) (the (ev_value (hd cs))))
      else if opr = ''project'' \<and> cs \<noteq> [] \<and> ev_value (hd cs) \<noteq> None then
        combine_project n (hd cs) (the (ev_value (hd cs)))
      else if full then combine_operands n xs cs
      else Inr (None, None, []))"

definition child_role :: "string \<Rightarrow> string \<Rightarrow> nat \<Rightarrow> string" where
  "child_role opr use i =
     (if opr \<in> {''not'', ''and'', ''or'', ''eq'', ''ne''} then ''control''
      else if opr \<in> set LEFT_TYPED \<and> i = 1 then ''index'' else use)"

definition walk_operands :: "walker \<Rightarrow> expr \<Rightarrow> string \<Rightarrow> int \<Rightarrow> (evaluation \<times> int) result" where
  "walk_operands w e use b =
     (let n = enode_of e in
      ebind (mapMS (\<lambda>(i, a) s. w a (child_role (e_op n) use i) s) (enumerate 0 (eargs e)) b) (\<lambda>(cs, b1).
      ebind (combine n (eargs e) cs) (\<lambda>(v, ref, extra).
        let bad = (case v of None \<Rightarrow> False | Some s \<Rightarrow> int (length s) \<noteq> e_width n) in
        Inr (\<lparr>ev_value = (if bad then None else v),
              ev_deps = concat (map ev_deps cs),
              ev_gaps = dedupe (concat (map ev_gaps cs) @ extra @
                          (if bad then [''expression_width_unresolved''] else [])),
              ev_branches = concat (map ev_branches cs),
              ev_ref = ref\<rparr>, b1))))"

section \<open>walk and evaluate\<close>

definition walk_step :: "sampler \<Rightarrow> walker \<Rightarrow> targeter \<Rightarrow> walker" where
  "walk_step smp w tgt e use b =
     (let n = enode_of e; opr = e_op n in
      if opr = ''const'' then Inr (mk_ev (e_value n) [] [] [], b)
      else if opr = ''dimension'' then walk_dimension w e b
      else if opr = ''signal'' then ebind (walk_signal smp n use) (\<lambda>ev. Inr (ev, b))
      else if opr = ''array_select'' then walk_array_select w tgt e use b
      else if opr = ''array'' \<or> opr = ''array_ref''
        then Inr (mk_ev None [] [''array_requires_selection''] [], b)
      else if opr \<in> set LOGICAL then walk_logical w e b
      else if opr = ''mux'' then walk_mux w e use b
      else if opr \<in> {''select'', ''part_up'', ''part_down''} then walk_select w e use b
      else if opr = ''inside'' then walk_inside w e use b
      else walk_operands w e use b)"

fun walk :: "nat \<Rightarrow> sampler \<Rightarrow> walker"
  and array_target :: "nat \<Rightarrow> sampler \<Rightarrow> targeter"
where
  "walk 0 smp e use b = Inr (limit_ev, b - 1)"
| "walk (Suc r) smp e use b =
     (if b - 1 < 0 then Inr (limit_ev, b - 1)
      else walk_step smp (walk r smp) (array_target r smp) e use (b - 1))"
| "array_target 0 smp e use b = Inr ((None, limit_ev), b - 1)"
| "array_target (Suc r) smp e use b =
     (if b - 1 < 0 then Inr ((None, limit_ev), b - 1)
      else target_step (walk r smp) (array_target r smp) e use (b - 1))"

definition evaluate :: "expr \<Rightarrow> sampler \<Rightarrow> string \<Rightarrow> evaluation result" where
  "evaluate e smp role = ebind (walk (Suc MAX_EXPR_DEPTH) smp e role MAX_EXPR_NODES) (\<lambda>(ev, _). Inr ev)"

section \<open>expression_gaps\<close>

text \<open>
  The work list is the code's stack with its top first; the first argument is the number of
  nodes that may still be counted.
\<close>

fun gaps_loop :: "nat \<Rightarrow> (expr \<times> nat) list \<Rightarrow> string list \<Rightarrow> string list" where
  "gaps_loop k [] gaps = dedupe gaps"
| "gaps_loop 0 (p # ps) gaps = [''dynamic_expression_limit'']"
| "gaps_loop (Suc k) ((e, d) # ps) gaps =
     (if d > MAX_EXPR_DEPTH then [''dynamic_expression_limit'']
      else gaps_loop k (rev (map (\<lambda>a. (a, d + 1)) (eargs e)) @ ps)
             (if e_op (enode_of e) = ''unsupported'' then gaps @ [reason_or_default (enode_of e)] else gaps))"

definition expression_gaps :: "expr \<Rightarrow> string list" where
  "expression_gaps e = gaps_loop (nat MAX_EXPR_NODES) [(e, 0)] []"

end
