(* ===== verification/Dyn_Expr_Laws.thy ===== *)
theory Dyn_Expr_Laws
  imports Dyn_Expr
begin

text \<open>
  Laws of the expression codec: what \<open>Expr.from_dict\<close> accepts passed every check and lies
  within the limits, and it gives back every such expression from its \<open>asdict\<close>.
\<close>

section \<open>The fields of a node\<close>

lemma as_simps [simp]:
  "as_str (JStr s) = Inr s" "as_int (JInt i) = Inr i" "as_bool (JBool b) = Inr b"
  "as_list dec (JArr js) = mapM dec js" "as_opt dec JNull = Inr None"
  by (simp_all add: as_str_def as_int_def as_bool_def as_list_def as_opt_def)

lemma mapM_Inr [simp]: "mapM Inr xs = Inr xs"
  by (induction xs) auto

lemma mapM_as_int [simp]: "mapM as_int (map JInt xs) = Inr xs"
  by (induction xs) auto

lemma mapM_as_str [simp]: "mapM as_str (map JStr xs) = Inr xs"
  by (induction xs) auto

lemma as_list_JInts [simp]: "as_list as_int (JInts xs) = Inr xs"
  by (simp add: JInts_def)

lemma as_list_JStrs [simp]: "as_list as_str (JStrs xs) = Inr xs"
  by (simp add: JStrs_def)

lemma as_opt_JOptStr [simp]: "as_opt as_str (JOptStr x) = Inr x"
  by (cases x) (simp_all add: JOptStr_def as_opt_def)

lemma as_pair_enc [simp]: "as_pair (pair_to_json p) = Inr p"
  by (simp add: as_pair_def pair_to_json_def)

lemma pair_not_null [simp]: "pair_to_json p \<noteq> JNull"
  by (simp add: pair_to_json_def JInts_def)

lemma as_opt_pair [simp]: "as_opt as_pair (jopt pair_to_json x) = Inr x"
  by (cases x) (simp_all add: jopt_def as_opt_def)

lemma mapM_as_pair [simp]: "mapM as_pair (map pair_to_json xs) = Inr xs"
  by (induction xs) auto

lemma enode_fields [simp]: "enode_from_fields (expr_fields n js) = Inr n"
  by (simp add: enode_from_fields_def expr_fields_def typed_field_def EXPR_FIELDS_def)

lemma args_field [simp]: "typed_field (as_list Inr) (Some []) (expr_fields n js) ''args'' = Inr js"
  by (simp add: typed_field_def expr_fields_def)

section \<open>Limits\<close>

lemma foldr_max_le: "foldr (\<lambda>x m. max (Suc (f x)) m) xs 0 \<le> Suc r \<longleftrightarrow> (\<forall>x \<in> set xs. f x \<le> (r::nat))"
  by (induction xs) auto

lemma foldr_max_le0: "foldr (\<lambda>x m. max (Suc (f x)) m) xs 0 \<le> (0::nat) \<longleftrightarrow> xs = []"
  by (induction xs) auto

lemma expr_depth_Suc: "expr_depth (Expr n xs) \<le> Suc r \<longleftrightarrow> (\<forall>x \<in> set xs. expr_depth x \<le> r)"
  by (simp only: expr_depth.simps foldr_max_le)

lemma expr_depth_0: "expr_depth (Expr n xs) = 0 \<longleftrightarrow> xs = []"
  using foldr_max_le0 [of expr_depth xs] by simp

lemma expr_nodes_pos [simp]: "0 < expr_nodes e"
  by (cases e) simp

lemma mk_expr_Inr: "mk_expr n xs = Inr e \<longleftrightarrow> e = Expr n xs \<and> first_failure (expr_checks n xs) = Inr ()"
  by (auto simp: mk_expr_def err_simps)

section \<open>Decoding\<close>

lemma mapMS_from_dict_sound:
  assumes "\<And>j b e b'. f j b = Inr (e, b') \<Longrightarrow> P e \<and> b' = b - int (expr_nodes e) \<and> 0 \<le> b'"
    and "mapMS f js b = Inr (xs, b')" and "0 \<le> b"
  shows "(\<forall>x \<in> set xs. P x) \<and> b' = b - int (sum_list (map expr_nodes xs)) \<and> 0 \<le> b'"
  using assms(2,3)
proof (induction js arbitrary: b xs)
  case Nil
  then show ?case by simp
next
  case (Cons j js)
  then obtain e b1 ys where f: "f j b = Inr (e, b1)" and m: "mapMS f js b1 = Inr (ys, b')"
    and xs: "xs = e # ys"
    by (auto simp: err_simps)
  show ?case
    using assms(1) [OF f] Cons.IH [OF m] xs by simp
qed

lemma from_dict_at_sound:
  "expr_from_dict_at (Suc r) raw b = Inr (e, b') \<Longrightarrow>
     expr_ok e \<and> expr_depth e \<le> r \<and> b' = b - int (expr_nodes e) \<and> 0 \<le> b'"
proof (induction r arbitrary: raw b e b')
  case 0
  then obtain kvs js xs n where b: "0 \<le> b - 1"
    and m: "mapMS (expr_from_dict_at 0) js (b - 1) = Inr (xs, b')" and e: "mk_expr n xs = Inr e"
    by (auto simp: err_simps split: json.splits if_splits)
  have "xs = [] \<and> b' = b - 1" using m by (cases js) auto
  then show ?case using e b by (auto simp: mk_expr_Inr)
next
  case (Suc r)
  from Suc.prems obtain kvs js xs n where b: "0 \<le> b - 1"
    and m: "mapMS (expr_from_dict_at (Suc r)) js (b - 1) = Inr (xs, b')" and e: "mk_expr n xs = Inr e"
    by (subst (asm) expr_from_dict_at.simps) (auto simp: err_simps split: json.splits if_splits)
  have "(\<forall>x \<in> set xs. expr_ok x \<and> expr_depth x \<le> r) \<and>
      b' = b - 1 - int (sum_list (map expr_nodes xs)) \<and> 0 \<le> b'"
    by (rule mapMS_from_dict_sound [OF _ m b]) (use Suc.IH in blast)
  then show ?case using e by (auto simp: mk_expr_Inr expr_depth_Suc simp del: expr_depth.simps)
qed

lemma mapMS_from_dict_complete:
  assumes "\<And>x b. x \<in> set xs \<Longrightarrow> int (expr_nodes x) \<le> b \<Longrightarrow> f (g x) b = Inr (x, b - int (expr_nodes x))"
    and "int (sum_list (map expr_nodes xs)) \<le> b"
  shows "mapMS f (map g xs) b = Inr (xs, b - int (sum_list (map expr_nodes xs)))"
  using assms
proof (induction xs arbitrary: b)
  case Nil
  then show ?case by simp
next
  case (Cons x xs)
  have "f (g x) b = Inr (x, b - int (expr_nodes x))" using Cons.prems by auto
  moreover have "mapMS f (map g xs) (b - int (expr_nodes x)) =
      Inr (xs, b - int (expr_nodes x) - int (sum_list (map expr_nodes xs)))"
    using Cons.prems by (intro Cons.IH) auto
  ultimately show ?case by simp
qed

lemma from_dict_at_complete:
  "expr_ok e \<Longrightarrow> expr_depth e \<le> r \<Longrightarrow> int (expr_nodes e) \<le> b \<Longrightarrow>
     expr_from_dict_at (Suc r) (expr_to_json e) b = Inr (e, b - int (expr_nodes e))"
proof (induction r arbitrary: e b)
  case 0
  then show ?case
    by (cases e) (auto simp: expr_depth_0 mk_expr_def simp del: expr_depth.simps)
next
  case (Suc r)
  obtain n xs where e: "e = Expr n xs" by (cases e)
  have "mapMS (expr_from_dict_at (Suc r)) (map expr_to_json xs) (b - 1) =
      Inr (xs, b - 1 - int (sum_list (map expr_nodes xs)))"
    using Suc.prems unfolding e expr_depth_Suc
    by (intro mapMS_from_dict_complete Suc.IH) auto
  then show ?case
    using Suc.prems unfolding e
    by (subst expr_from_dict_at.simps) (simp add: mk_expr_def)
qed

definition expr_limits :: "expr \<Rightarrow> bool" where
  "expr_limits e \<longleftrightarrow> int (expr_nodes e) \<le> MAX_EXPR_NODES \<and> expr_depth e \<le> MAX_EXPR_DEPTH"

lemma from_dict_sound: "expr_from_dict raw = Inr e \<Longrightarrow> expr_ok e \<and> expr_limits e"
  by (auto simp: expr_from_dict_def err_simps expr_limits_def simp del: expr_from_dict_at.simps
      dest!: from_dict_at_sound)

lemma from_dict_complete: "expr_ok e \<Longrightarrow> expr_limits e \<Longrightarrow> expr_from_dict (expr_to_json e) = Inr e"
  by (simp add: expr_from_dict_def expr_limits_def from_dict_at_complete del: expr_from_dict_at.simps)

text \<open>Every JSON document of an expression decodes to that expression or not at all.\<close>

lemma mapMS_from_dict_inv:
  assumes "\<And>x b y b'. x \<in> set xs \<Longrightarrow> f (g x) b = Inr (y, b') \<Longrightarrow> y = x"
    and "mapMS f (map g xs) b = Inr (ys, b')"
  shows "ys = xs"
  using assms
proof (induction xs arbitrary: b ys)
  case Nil
  then show ?case by simp
next
  case (Cons x xs)
  from Cons.prems(2) obtain y b1 zs where "f (g x) b = Inr (y, b1)" "mapMS f (map g xs) b1 = Inr (zs, b')"
    "ys = y # zs" by (auto simp: err_simps)
  then show ?case using Cons.IH [of b1 zs] Cons.prems(1) by (metis list.set_intros)
qed

lemma from_dict_at_inv:
  "expr_from_dict_at r (expr_to_json e) b = Inr (e', b') \<Longrightarrow> e' = e"
proof (induction r arbitrary: e b e' b')
  case 0
  then show ?case by simp
next
  case (Suc r)
  obtain n xs where e: "e = Expr n xs" by (cases e)
  from Suc.prems obtain ys where m: "mapMS (expr_from_dict_at r) (map expr_to_json xs) (b - 1) = Inr (ys, b')"
    and e': "e' = Expr n ys"
    unfolding e by (auto simp: err_simps mk_expr_Inr split: if_splits)
  show ?case using mapMS_from_dict_inv [OF _ m] Suc.IH e e' by blast
qed

end
