(* ===== verification/Dyn_Eval_Laws.thy ===== *)
theory Dyn_Eval_Laws
  imports Dyn_Eval Dyn_Expr_Laws Four_State_Laws
begin

text \<open>
  Soundness of the evaluator. The locale \<open>reading\<close> is what the evaluator needs to know of the
  relation between a passthrough reference (a signal with ordered bit positions) and a value;
  the induction over the evaluator is done once, inside it.
\<close>

section \<open>What the checks of a node give\<close>

definition node_ok :: "enode \<Rightarrow> expr list \<Rightarrow> bool" where
  "node_ok n xs \<longleftrightarrow> first_failure (expr_checks n xs) = Inr ()"

lemma node_ok_iff: "node_ok n xs \<longleftrightarrow>
   (1 \<le> e_width n \<and> e_width n \<le> max_width) \<and> e_op n \<in> set EXPR_OPS \<and>
   \<not> arity_fails (base_arity (e_op n)) xs \<and> \<not> signal_invalid n \<and> \<not> const_invalid n \<and> \<not> fill_invalid n \<and>
   (1 \<le> e_stride n \<and> e_stride n \<le> max_width) \<and> \<not> bounds_invalid n \<and>
   \<not> arity_fails (count_arity (e_op n)) xs \<and> \<not> project_invalid n xs \<and> \<not> function_invalid n xs \<and>
   \<not> dimension_invalid n xs \<and> \<not> (e_op n = ''inside'' \<and> length xs < 2) \<and> \<not> array_invalid n xs \<and>
   \<not> (e_op n = ''array_select'' \<and> e_bounds n = None) \<and> \<not> dims_invalid n \<and> \<not> array_ref_invalid n xs \<and>
   \<not> select_invalid n xs"
  unfolding node_ok_def first_failure_iff expr_checks_def MAX_EXPR_WIDTH_def max_width_def
  by (simp only: list.pred_inject prod.case not_not simp_thms)

lemma checks_width: "node_ok n xs \<Longrightarrow> 1 \<le> e_width n \<and> e_width n \<le> max_width"
  unfolding node_ok_iff by blast

lemma checks_arity:
  "node_ok n xs \<Longrightarrow> base_arity (e_op n) = Some k \<Longrightarrow> length xs = k"
  "node_ok n xs \<Longrightarrow> count_arity (e_op n) = Some k \<Longrightarrow> length xs = k"
  unfolding node_ok_iff arity_fails_def by (elim conjE; simp)+

lemma checks_signal:
  "node_ok n xs \<Longrightarrow> e_op n = ''signal'' \<Longrightarrow> \<not> no_value (e_signal n) \<and> int (length (e_bits n)) = e_width n"
  unfolding node_ok_iff signal_invalid_def by blast

lemma checks_const:
  assumes "node_ok n xs" "e_op n = ''const''"
  shows "\<exists>v. e_value n = Some v \<and> bits_ok v \<and> int (length v) = e_width n"
proof -
  have w: "1 \<le> e_width n" "e_width n \<le> max_width" using checks_width [OF assms(1)] by auto
  have "\<not> const_invalid n" using assms(1) unfolding node_ok_iff by blast
  then have "\<not> (no_value (e_value n) \<or> int (length (the (e_value n))) \<noteq> e_width n
         \<or> list_ex (\<lambda>c. c \<notin> set ''01xz'') (the (e_value n)))"
    using assms(2) unfolding const_invalid_def by blast
  then obtain v where v: "e_value n = Some v" "v \<noteq> []" "int (length v) = e_width n"
    and m: "\<not> list_ex (\<lambda>c. c \<notin> set ''01xz'') v"
    by (cases "e_value n") (auto simp: no_value_def)
  have "set v \<subseteq> Collect is_bit" using m unfolding list_ex_iff is_bit_def by blast
  then show ?thesis using v w by (simp add: bits_ok_def)
qed

lemma checks_project:
  "node_ok n xs \<Longrightarrow> e_op n = ''project'' \<Longrightarrow>
     int (length (e_bits n)) = e_width n \<and> (\<forall>i \<in> set (e_bits n). 0 \<le> i \<and> i < e_width (enode_of (hd xs)))"
  unfolding node_ok_iff project_invalid_def list_ex_iff by blast

lemma checks_function:
  "node_ok n xs \<Longrightarrow> e_op n = ''function'' \<Longrightarrow>
     e_function n \<in> Some ` set EXPR_FUNCTIONS \<and>
     (if e_function n = Some ''$countbits'' then 2 \<le> length xs else length xs = 1)"
  unfolding node_ok_iff function_invalid_def not_less [symmetric] by presburger

lemma checks_dimension:
  "node_ok n xs \<Longrightarrow> e_op n = ''dimension'' \<Longrightarrow>
     length xs = 1 \<and> e_width n = 32 \<and> e_function n \<in> Some ` set DIMENSION_FUNCTIONS"
  unfolding node_ok_iff dimension_invalid_def by blast

lemma checks_inside: "node_ok n xs \<Longrightarrow> e_op n = ''inside'' \<Longrightarrow> 2 \<le> length xs"
  unfolding node_ok_iff not_less [symmetric] by blast

lemma checks_array:
  "node_ok n xs \<Longrightarrow> e_op n = ''array'' \<Longrightarrow>
     length (e_bits n) = length xs \<and> (\<forall>a \<in> set xs. e_width (enode_of a) = e_width n)"
  unfolding node_ok_iff array_invalid_def list_ex_iff by blast

lemma checks_bounds:
  "node_ok n xs \<Longrightarrow> e_bounds n = Some b \<Longrightarrow> small_int (fst b) \<and> small_int (snd b)"
  unfolding node_ok_iff bounds_invalid_def by (elim conjE) simp

lemma checks_array_select: "node_ok n xs \<Longrightarrow> e_op n = ''array_select'' \<Longrightarrow> \<exists>b. e_bounds n = Some b"
  by (cases "e_bounds n") (simp_all add: node_ok_iff)

lemma checks_array_ref:
  "node_ok n xs \<Longrightarrow> e_op n = ''array_ref'' \<Longrightarrow>
     \<not> no_value (e_signal n) \<and> e_dims n \<noteq> [] \<and> xs = [] \<and> int (length (e_bits n)) = e_width n \<and>
     int (length (e_declared n)) = e_width n"
  unfolding node_ok_iff array_ref_invalid_def by blast

lemma checks_select:
  "node_ok n xs \<Longrightarrow> e_op n \<in> {''select'', ''part_up'', ''part_down''} \<Longrightarrow>
     1 \<le> e_stride n \<and> select_extent n (hd xs) * e_stride n = e_width (enode_of (hd xs)) \<and>
     e_width n mod e_stride n = 0 \<and> (e_op n = ''select'' \<longrightarrow> e_width n = e_stride n)"
  unfolding node_ok_iff select_invalid_def by blast

lemma node_ok_mk: "node_ok n xs \<Longrightarrow> mk_expr n xs = Inr (Expr n xs)"
  by (simp add: mk_expr_def node_ok_def)

section \<open>Typed expressions\<close>

text \<open>
  Beyond \<open>__post_init__\<close>: what the builders of expressions guarantee. An expression is
  \<open>indexable k\<close> when it can be selected \<open>k\<close> more times.
\<close>

abbreviation xwidth :: "expr \<Rightarrow> int" where
  "xwidth e \<equiv> e_width (enode_of e)"

abbreviation xop :: "expr \<Rightarrow> string" where
  "xop e \<equiv> e_op (enode_of e)"

fun indexable :: "nat \<Rightarrow> expr \<Rightarrow> bool" where
  "indexable k (Expr n xs) =
     (if e_op n = ''array'' then
        k = 0 \<or> (\<forall>x \<in> set xs. indexable (k - 1) x \<and> (k = 1 \<or> xop x = ''array'' \<or> xop x = ''array_ref''))
      else if e_op n = ''array_ref'' then k \<le> length (e_dims n)
      else if e_op n = ''array_select'' then (case xs of [] \<Rightarrow> False | x # _ \<Rightarrow> indexable (Suc k) x)
      else k = 0)"

definition stream_size_ok :: "expr \<Rightarrow> bool" where
  "stream_size_ok s \<longleftrightarrow> xop s = ''const'' \<and> (case e_value (enode_of s) of None \<Rightarrow> False
     | Some v \<Rightarrow> 1 \<le> sint_bits (e_signed (enode_of s)) v \<and> sint_bits (e_signed (enode_of s)) v \<le> max_width)"

definition node_typed :: "enode \<Rightarrow> expr list \<Rightarrow> bool" where
  "node_typed n xs \<longleftrightarrow>
     (e_op n \<in> set LOGICAL \<or> e_op n = ''inside'' \<longrightarrow> e_width n = 1) \<and>
     (e_op n = ''array_select'' \<longrightarrow> xs \<noteq> [] \<and> xwidth (hd xs) = e_width n \<and> indexable 0 (Expr n xs)) \<and>
     (e_op n = ''array_ref'' \<longrightarrow> length (e_dims n) + length (e_indices n) \<le> 8) \<and>
     (e_op n = ''stream_left'' \<or> e_op n = ''stream_right'' \<longrightarrow> length xs = 2 \<and> stream_size_ok (xs ! 1))"

fun expr_typed :: "expr \<Rightarrow> bool" where
  "expr_typed (Expr n xs) \<longleftrightarrow> node_typed n xs \<and> (\<forall>x \<in> set xs. expr_typed x)"

definition expr_good :: "expr \<Rightarrow> bool" where
  "expr_good e \<longleftrightarrow> expr_ok e \<and> expr_typed e"

lemma expr_good_Expr: "expr_good (Expr n xs) \<longleftrightarrow>
   node_ok n xs \<and> node_typed n xs \<and> (\<forall>x \<in> set xs. expr_good x)"
  by (auto simp: expr_good_def node_ok_def)

end
