(* ===== verification/Dyn_Eval_Sound.thy ===== *)
theory Dyn_Eval_Sound
  imports Dyn_Eval_Laws Four_State_Claims
begin

text \<open>
  One induction over the evaluator: on typed expressions it returns, its value has the width of
  the expression, and a passthrough reference really is where the value was read.
\<close>

section \<open>Sound evaluations\<close>

type_synonym reading_rel = "string \<Rightarrow> int list \<Rightarrow> string \<Rightarrow> bool"

definition ev_sound :: "reading_rel \<Rightarrow> expr \<Rightarrow> evaluation \<Rightarrow> bool" where
  "ev_sound C e ev \<longleftrightarrow>
     (\<forall>v. ev_value ev = Some v \<longrightarrow> bits_ok v \<and> int (length v) = xwidth e \<and>
        (\<forall>s bs. ev_ref ev = Some (s, bs) \<longrightarrow> C s bs v)) \<and>
     (xop e = ''const'' \<longrightarrow> ev_value ev = None \<or> ev_value ev = e_value (enode_of e))"

text \<open>
  \<open>evaluate\<close> builds new nodes: the selection of a signal, the remaining dimensions of an array and
  its addressed element. A predicate on nodes is stable when it survives these three updates.
\<close>

type_synonym node_pred = "enode \<Rightarrow> bool"

definition stable :: "node_pred \<Rightarrow> bool" where
  "stable N \<longleftrightarrow> (\<forall>n. N n \<longrightarrow>
     (e_op n = ''signal'' \<longrightarrow> (\<forall>u bs sg. set bs \<subseteq> set (e_bits n) \<longrightarrow> N (n\<lparr>e_width := u, e_bits := bs, e_signed := sg\<rparr>))) \<and>
     (e_op n = ''array_ref'' \<longrightarrow> (\<forall>ds i. N (n\<lparr>e_dims := ds, e_indices := e_indices n @ [i]\<rparr>)) \<and>
        (\<forall>s i. e_signal n = Some s \<longrightarrow>
           N (n\<lparr>e_op := ''signal'', e_signal := Some (s @ index_path (e_indices n @ [i])), e_dims := [],
               e_indices := e_indices n @ [i]\<rparr>))))"

lemma stable_updates:
  assumes "stable N" "N n"
  shows "e_op n = ''signal'' \<Longrightarrow> set bs \<subseteq> set (e_bits n) \<Longrightarrow> N (n\<lparr>e_width := u, e_bits := bs, e_signed := sg\<rparr>)"
    and "e_op n = ''array_ref'' \<Longrightarrow> N (n\<lparr>e_dims := ds, e_indices := e_indices n @ [i]\<rparr>)"
    and "e_op n = ''array_ref'' \<Longrightarrow> e_signal n = Some s \<Longrightarrow>
           N (n\<lparr>e_op := ''signal'', e_signal := Some (s @ index_path (e_indices n @ [i])), e_dims := [],
               e_indices := e_indices n @ [i]\<rparr>)"
  using assms unfolding stable_def by blast+

fun all_nodes :: "node_pred \<Rightarrow> expr \<Rightarrow> bool" where
  "all_nodes N (Expr n xs) \<longleftrightarrow> N n \<and> (\<forall>x \<in> set xs. all_nodes N x)"

definition xgood :: "node_pred \<Rightarrow> expr \<Rightarrow> bool" where
  "xgood N e \<longleftrightarrow> expr_good e \<and> all_nodes N e"

lemma xgood_Expr: "xgood N (Expr n xs) \<longleftrightarrow>
   node_ok n xs \<and> node_typed n xs \<and> N n \<and> (\<forall>x \<in> set xs. xgood N x)"
  by (auto simp: xgood_def expr_good_Expr)

definition good_walker :: "reading_rel \<Rightarrow> node_pred \<Rightarrow> walker \<Rightarrow> bool" where
  "good_walker C N w \<longleftrightarrow>
     (\<forall>e use b. xgood N e \<longrightarrow> (\<exists>ev b'. w e use b = Inr (ev, b') \<and> ev_sound C e ev))"

definition good_targeter :: "node_pred \<Rightarrow> targeter \<Rightarrow> bool" where
  "good_targeter N tgt \<longleftrightarrow>
     (\<forall>e use b k. xgood N e \<and> indexable k e \<longrightarrow>
        (\<exists>t h b'. tgt e use b = Inr ((t, h), b') \<and> ev_ref h = None \<and>
           (\<forall>v. ev_value h = Some v \<longrightarrow> bits_ok v \<and> int (length v) = xwidth e) \<and>
           (\<forall>a. t = Some a \<longrightarrow> xgood N a \<and> xwidth a = xwidth e \<and> indexable k a \<and>
                 (0 < k \<longrightarrow> xop a = ''array'' \<or> xop a = ''array_ref''))))"

definition smp_ok :: "reading_rel \<Rightarrow> node_pred \<Rightarrow> sampler \<Rightarrow> bool" where
  "smp_ok C N smp \<longleftrightarrow>
     (\<forall>n. node_ok n [] \<and> N n \<and> e_op n = ''signal'' \<longrightarrow>
        (\<exists>gs. typed_field (as_list as_str) (Some []) (smp n) ''gaps'' = Inr gs) \<and>
        (\<forall>s v. e_signal n = Some s \<and> bit_value (fact_value (smp n)) (Some (e_width n)) = Some v \<longrightarrow>
           C s (e_bits n) (if e_two_state n then two_state_bits v else v)))"

lemma good_walkerE:
  assumes "good_walker C N w" "xgood N e"
  obtains ev b' where "w e use b = Inr (ev, b')" "ev_sound C e ev"
  using assms unfolding good_walker_def by blast

lemma ev_sound_noref:
  "ev_ref ev = None \<Longrightarrow> xop e \<noteq> ''const'' \<Longrightarrow>
   ev_sound C e ev \<longleftrightarrow> (\<forall>v. ev_value ev = Some v \<longrightarrow> bits_ok v \<and> int (length v) = xwidth e)"
  by (simp add: ev_sound_def)

lemma ev_sound_ref:
  "xop e \<noteq> ''const'' \<Longrightarrow>
   ev_sound C e ev \<longleftrightarrow> (\<forall>v. ev_value ev = Some v \<longrightarrow> bits_ok v \<and> int (length v) = xwidth e \<and>
        (\<forall>s bs. ev_ref ev = Some (s, bs) \<longrightarrow> C s bs v))"
  by (simp add: ev_sound_def)

lemma ev_soundD:
  "ev_sound C e ev \<Longrightarrow> ev_value ev = Some v \<Longrightarrow> bits_ok v"
  "ev_sound C e ev \<Longrightarrow> ev_value ev = Some v \<Longrightarrow> int (length v) = xwidth e"
  "ev_sound C e ev \<Longrightarrow> ev_value ev = Some v \<Longrightarrow> ev_ref ev = Some (s, bs) \<Longrightarrow> C s bs v"
  by (simp_all add: ev_sound_def)

lemma mk_ev_simps [simp]:
  "ev_value (mk_ev v ds gs bs) = v" "ev_ref (mk_ev v ds gs bs) = None"
  by (simp_all add: mk_ev_def)

lemma limit_ev_simps [simp]: "ev_value limit_ev = None" "ev_ref limit_ev = None"
  by (simp_all add: limit_ev_def)

lemma add_simps [simp]:
  "ev_value (add_gap h g) = ev_value h" "ev_ref (add_gap h g) = ev_ref h"
  "ev_value (add_history h i) = ev_value h" "ev_ref (add_history h i) = ev_ref h"
  by (simp_all add: add_gap_def add_history_def)

lemma limit_sound [simp]: "ev_sound C e limit_ev"
  by (simp add: ev_sound_def)

lemma mapMS_total:
  assumes "\<And>x s. x \<in> set xs \<Longrightarrow> \<exists>y s'. f x s = Inr (y, s') \<and> P x y"
  shows "\<exists>ys s'. mapMS f xs s = Inr (ys, s') \<and> list_all2 P xs ys"
  using assms
proof (induction xs arbitrary: s)
  case Nil
  then show ?case by simp
next
  case (Cons x xs)
  obtain y s1 where f: "f x s = Inr (y, s1)" and y: "P x y" using Cons.prems [of x s] by auto
  obtain ys s2 where m: "mapMS f xs s1 = Inr (ys, s2)" "list_all2 P xs ys"
    using Cons.IH [of s1] Cons.prems by auto
  show ?case using f m y by auto
qed

lemma mapM_total:
  "(\<And>x. x \<in> set xs \<Longrightarrow> \<exists>y. f x = Inr y) \<Longrightarrow> \<exists>ys. mapM f xs = Inr ys"
proof (induction xs)
  case Nil
  then show ?case by simp
next
  case (Cons x xs)
  obtain y where "f x = Inr y" using Cons.prems by auto
  moreover obtain ys where "mapM f xs = Inr ys" using Cons.IH Cons.prems by auto
  ultimately show ?case by auto
qed

section \<open>Bits\<close>

lemma bits_ok_replicate [simp]:
  "is_bit c \<Longrightarrow> 0 < k \<Longrightarrow> int k \<le> max_width \<Longrightarrow> bits_ok (replicate k c)"
  by (auto simp: bits_ok_def)

lemma bits_ok_Value: "bits_ok v \<Longrightarrow> value_ok \<lparr>vbits = v, vsigned = s\<rparr>"
  by simp

lemma known_vknown: "v \<noteq> [] \<Longrightarrow> known (Some v) \<longleftrightarrow> vknown \<lparr>vbits = v, vsigned = s\<rparr>"
  by (simp add: known_def vknown_iff)

lemma is_four_state_bit: "is_four_state c \<longleftrightarrow> is_bit c"
  by (auto simp: is_four_state_def is_bit_def)

lemma four_state_bits_ok: "four_state v \<Longrightarrow> v \<noteq> [] \<Longrightarrow> int (length v) \<le> max_width \<Longrightarrow> bits_ok v"
  by (auto simp: four_state_def bits_ok_def list_all_iff is_four_state_bit)

lemma bit_value_bits:
  assumes "bit_value j (Some w) = Some v" "w \<le> max_width"
  shows "bits_ok v" "int (length v) = w"
  using bit_value_shape [OF assms(1)] assms(2) by (auto intro: four_state_bits_ok)

lemma length_two_state [simp]: "length (two_state_bits v) = length v"
  by (simp add: two_state_bits_def)

lemma value_ok_bits: "value_ok r \<Longrightarrow> bits_ok (vbits r)"
  by (simp add: value_ok_def)

lemma typed_bits: "value_ok r \<and> vwidth r = w \<longleftrightarrow> bits_ok (vbits r) \<and> int (length (vbits r)) = w"
  by (simp add: value_ok_def vwidth_def)

lemma bits_ok_nths:
  assumes "bits_ok v" "is \<noteq> []" "int (length is) \<le> max_width" "\<forall>i \<in> set is. i < length v"
  shows "bits_ok (map (nth v) is)"
  using assms nth_mem by (fastforce simp: bits_ok_def)

lemma fill_char_bit [simp]: "is_bit (fill_char n)"
  by (simp add: fill_char_def)

section \<open>dimension, logical operators\<close>

lemma dimension_value_total:
  assumes "f \<in> Some ` set DIMENSION_FUNCTIONS" shows "\<exists>r. dimension_value f d = Inr r"
  using assms by (auto simp: DIMENSION_FUNCTIONS_def dimension_value_def Let_def)

lemma xgood_args: "xgood N (Expr n xs) \<Longrightarrow> a \<in> set xs \<Longrightarrow> xgood N a"
  by (simp add: xgood_Expr)

lemma xgood_ok: "xgood N (Expr n xs) \<Longrightarrow> node_ok n xs"
  by (simp add: xgood_Expr)

lemma walk_dimension_sound:
  assumes w: "good_walker C N w" and g: "xgood N (Expr n xs)" and o: "e_op n = ''dimension''"
  shows "\<exists>ev b'. walk_dimension w (Expr n xs) b = Inr (ev, b') \<and> ev_sound C (Expr n xs) ev"
proof -
  have k: "length xs = 1" "e_width n = 32" "e_function n \<in> Some ` set DIMENSION_FUNCTIONS"
    using checks_dimension [OF xgood_ok [OF g] o] by auto
  then obtain a where xs: "xs = [a]" by (cases xs) auto
  obtain ev b1 where e: "w a ''index'' b = Inr (ev, b1)" "ev_sound C a ev"
    using good_walkerE [OF w xgood_args [OF g]] xs by (metis list.set_intros(1))
  note step = walk_dimension_def xs e(1) o k(2) ev_sound_noref max_width_def Let_def
  show ?thesis
  proof (cases "ev_value ev")
    case None
    then show ?thesis by (simp add: step)
  next
    case (Some iv)
    have iv: "bits_ok iv" using ev_soundD(1) [OF e(2) Some] .
    define v where "v = \<lparr>vbits = iv, vsigned = e_signed (enode_of a)\<rparr>"
    have mk: "mk_value iv (e_signed (enode_of a)) = Inr v" using iv by (simp add: v_def)
    show ?thesis
    proof (cases "vknown v")
      case False
      then show ?thesis by (simp add: step Some mk)
    next
      case True
      then obtain dim where dim: "vinteger v = Inr dim" using vinteger_known by blast
      show ?thesis
      proof (cases "1 \<le> dim \<and> dim \<le> int (length (e_dims n))")
        case False
        then show ?thesis by (simp add: step Some mk True dim del: de_Morgan_conj)
      next
        case rng: True
        obtain r where r: "dimension_value (e_function n) (e_dims n ! nat (dim - 1)) = Inr r"
          using dimension_value_total [OF k(3)] by blast
        obtain x where x: "number r 32 True = Inr x" "bits_ok (vbits x)" "int (length (vbits x)) = 32"
          using number_typed [of 32 r True] by (auto simp: max_width_def value_ok_def vwidth_def)
        have "py_index (e_dims n) (dim - 1) = Inr (e_dims n ! nat (dim - 1))"
          using rng by (simp add: py_index_def)
        then show ?thesis
          using x(2,3) by (simp add: step Some mk True dim rng r x(1))
      qed
    qed
  qed
qed

lemma binary_None_typed:
  assumes "bits_ok x" "bits_ok y" "opr \<in> set COMPARISONS \<or> opr \<in> set LOGICAL"
  shows "\<exists>r. binary opr \<lparr>vbits = x, vsigned = s\<rparr> \<lparr>vbits = y, vsigned = t\<rparr> None = Inr r \<and>
     bits_ok (vbits r) \<and> int (length (vbits r)) = 1"
proof -
  have "opr \<in> set BINARY" using assms(3) by (auto simp: BINARY_def)
  then show ?thesis
    using binary_typed [OF bits_ok_Value [OF assms(1)] bits_ok_Value [OF assms(2)], of None opr s t] assms(3)
      typed_bits by (auto simp: width_ok_def op_out_def)
qed

lemma one_bit [simp]: "bits_ok ''0''" "bits_ok ''1''" "bits_ok ''x''"
  by (simp_all)

lemma or_x_ok: "ev_sound C a ev \<Longrightarrow> bits_ok (or_x (ev_value ev))"
  by (auto simp: or_x_def dest: ev_soundD(1) split: option.splits)

lemma count_arity_BINARY: "opr \<in> set BINARY \<Longrightarrow> count_arity opr = Some 2"
  by (simp add: count_arity_def)

lemma length2: "length xs = 2 \<Longrightarrow> \<exists>a b. xs = [a, b]"
  by (auto simp: length_Suc_conv eval_nat_numeral)

lemma walk_logical_sound:
  assumes w: "good_walker C N w" and g: "xgood N (Expr n xs)" and o: "e_op n \<in> set LOGICAL"
  shows "\<exists>ev b'. walk_logical w (Expr n xs) b = Inr (ev, b') \<and> ev_sound C (Expr n xs) ev"
proof -
  have nc: "e_op n \<noteq> ''const''" using o by (auto simp: LOGICAL_def)
  have "length xs = 2"
    using checks_arity(2) [OF xgood_ok [OF g]] o count_arity_BINARY by (simp add: BINARY_def)
  then obtain a0 a1 where xs: "xs = [a0, a1]" using length2 by blast
  have w1: "e_width n = 1" using g o by (simp add: xgood_Expr node_typed_def)
  obtain lhs b1 where l: "w a0 ''control'' b = Inr (lhs, b1)" "ev_sound C a0 lhs"
    using good_walkerE [OF w xgood_args [OF g]] xs by (metis list.set_intros(1))
  obtain rhs b2 where r: "w a1 ''control'' b1 = Inr (rhs, b2)" "ev_sound C a1 rhs"
    using good_walkerE [OF w xgood_args [OF g]] xs by (metis list.set_intros)
  note vs = or_x_ok [OF l(2)] or_x_ok [OF r(2)]
  obtain z where z: "binary (e_op n) \<lparr>vbits = or_x (ev_value lhs), vsigned = False\<rparr>
      \<lparr>vbits = or_x (ev_value rhs), vsigned = False\<rparr> None = Inr z"
      "bits_ok (vbits z)" "int (length (vbits z)) = 1"
    using binary_None_typed [OF vs] o by blast
  note step = walk_logical_def xs l(1) r(1) w1 nc ev_sound_noref Let_def vs
  show ?thesis
  proof (cases "decisive (e_op n) (ev_truth lhs)")
    case True
    then show ?thesis by (simp add: step)
  next
    case False
    then show ?thesis using z(2,3) by (simp add: step z(1))
  qed
qed

section \<open>Signals and selections\<close>

lemma no_value_iff: "\<not> no_value x \<longleftrightarrow> (\<exists>s. x = Some s \<and> s \<noteq> [])"
  by (cases x) (auto simp: no_value_def)

lemma walk_signal_sound:
  assumes s: "smp_ok C N smp" and g: "node_ok n xs" and nn: "N n" and o: "e_op n = ''signal''"
  shows "\<exists>ev. walk_signal smp n use = Inr ev \<and> ev_sound C (Expr n xs) ev"
proof -
  have "xs = []" using checks_arity(1) [OF g, of 0] o by (simp add: base_arity_def)
  then have g': "node_ok n []" using g by simp
  obtain sg where sg: "e_signal n = Some sg" using checks_signal [OF g o] by (auto simp: no_value_iff)
  have w: "1 \<le> e_width n" "e_width n \<le> max_width" using checks_width [OF g] by auto
  obtain gs where gs: "typed_field (as_list as_str) (Some []) (smp n) ''gaps'' = Inr gs"
    using s g' o nn unfolding smp_ok_def by blast
  have C: "C sg (e_bits n) (if e_two_state n then two_state_bits v else v) \<and> bits_ok v \<and> int (length v) = e_width n"
    if "bit_value (fact_value (smp n)) (Some (e_width n)) = Some v" for v
    using that s g' o nn sg bit_value_bits [OF that w(2)] unfolding smp_ok_def by blast
  show ?thesis
    using C bits_ok_two_state by (auto simp: walk_signal_def gs Let_def o sg ev_sound_ref split: if_splits)
qed

lemma select_bounds_extent:
  assumes "node_ok n [base, ix]" "e_op n \<in> {''select'', ''part_up'', ''part_down''}" "1 \<le> xwidth base"
  shows "extent (select_bounds n base) * e_stride n = xwidth base"
proof (cases "e_bounds n")
  case None
  have s: "1 \<le> e_stride n" "(xwidth base div e_stride n) * e_stride n = xwidth base"
    using checks_select [OF assms(1,2)] None by (simp_all add: select_extent_def)
  have "0 < xwidth base div e_stride n"
    using s assms(3) by (smt (verit) mult_nonpos_nonneg)
  then show ?thesis using s None by (simp add: select_bounds_def extent_def)
next
  case (Some bd)
  then show ?thesis using checks_select [OF assms(1,2)] by (simp add: select_bounds_def select_extent_def)
qed

lemma select_positions_range:
  assumes "node_ok n [base, ix]" "e_op n \<in> {''select'', ''part_up'', ''part_down''}" "1 \<le> xwidth base"
    and "Some p \<in> set (select_positions n base i)"
  shows "0 \<le> p \<and> p < xwidth base"
proof -
  define bd where "bd = select_bounds n base"
  define dir where "dir = (if snd bd \<le> fst bd then - 1 else 1 :: int)"
  have st: "1 \<le> e_stride n" using checks_select [OF assms(1,2)] by simp
  obtain k j where k: "in_bounds bd k" and j: "j < nat (e_stride n)"
    and p: "p = (k - fst bd) * dir * e_stride n + int j"
    using assms(4) by (auto simp: select_positions_def Let_def bd_def dir_def split: if_splits)
  have q: "0 \<le> (k - fst bd) * dir" "(k - fst bd) * dir + 1 \<le> extent bd"
    using k by (auto simp: in_bounds_def dir_def extent_def)
  have "((k - fst bd) * dir + 1) * e_stride n \<le> extent bd * e_stride n"
    using q(2) st by (intro mult_right_mono) auto
  then have "(k - fst bd) * dir * e_stride n + e_stride n \<le> xwidth base"
    using select_bounds_extent [OF assms(1-3)] by (simp add: bd_def algebra_simps)
  moreover have "0 \<le> (k - fst bd) * dir * e_stride n" using q(1) st by simp
  ultimately show ?thesis using p j by linarith
qed

lemma node_ok_signal_update:
  assumes "node_ok m ys" "e_op m = ''signal''" "1 \<le> u" "u \<le> max_width" "int (length bs) = u"
  shows "node_ok (m\<lparr>e_width := u, e_bits := bs, e_signed := sg\<rparr>) ys"
  using assms unfolding node_ok_iff
  by (simp add: signal_invalid_def const_invalid_def fill_invalid_def bounds_invalid_def project_invalid_def
      function_invalid_def dimension_invalid_def array_invalid_def dims_invalid_def array_ref_invalid_def
      select_invalid_def)

lemma good_signal_update:
  assumes st: "stable N" and g: "xgood N (Expr m ys)" and o: "e_op m = ''signal''" and "1 \<le> u" "u \<le> max_width" "int (length bs) = u"
    and sb: "set bs \<subseteq> set (e_bits m)"
  shows "xgood N (Expr (m\<lparr>e_width := u, e_bits := bs, e_signed := sg\<rparr>) ys)"
    and "mk_expr (m\<lparr>e_width := u, e_bits := bs, e_signed := sg\<rparr>) ys =
         Inr (Expr (m\<lparr>e_width := u, e_bits := bs, e_signed := sg\<rparr>) ys)"
proof -
  have n: "node_ok (m\<lparr>e_width := u, e_bits := bs, e_signed := sg\<rparr>) ys"
    using node_ok_signal_update [OF xgood_ok [OF g] o assms(4-6)] .
  have "node_typed (m\<lparr>e_width := u, e_bits := bs, e_signed := sg\<rparr>) ys"
    using o by (simp add: node_typed_def LOGICAL_def)
  then show "xgood N (Expr (m\<lparr>e_width := u, e_bits := bs, e_signed := sg\<rparr>) ys)"
    using n g stable_updates(1) [OF st _ o sb] by (simp add: xgood_Expr)
  show "mk_expr (m\<lparr>e_width := u, e_bits := bs, e_signed := sg\<rparr>) ys =
         Inr (Expr (m\<lparr>e_width := u, e_bits := bs, e_signed := sg\<rparr>) ys)"
    using node_ok_mk [OF n] .
qed

lemma bits_ok_nth: "bits_ok v \<Longrightarrow> i < length v \<Longrightarrow> is_bit (v ! i)"
  using nth_mem by (fastforce simp: bits_ok_def)

lemma mapM_positions:
  assumes "\<And>p. Some p \<in> set ps \<Longrightarrow> 0 \<le> p \<and> p < int (length v)"
  shows "mapM (\<lambda>p. case p of None \<Rightarrow> Inr CHR ''x'' | Some k \<Rightarrow> py_index v k) ps =
     Inr (map (\<lambda>p. case p of None \<Rightarrow> CHR ''x'' | Some k \<Rightarrow> v ! nat k) ps)"
  using assms by (intro mapM_Inr_map) (auto simp: py_index_ok split: option.split)

lemma mapM_the_positions:
  assumes "\<And>p. Some p \<in> set ps \<Longrightarrow> 0 \<le> p \<and> p < int (length v)" "list_all (\<lambda>p. p \<noteq> None) ps"
  shows "mapM (\<lambda>p. py_index v (the p)) ps = Inr (map (\<lambda>p. v ! nat (the p)) ps)"
  using assms by (intro mapM_Inr_map) (auto simp: py_index_ok list_all_iff)

lemma bits_ok_positions:
  assumes "bits_ok v" "\<And>p. Some p \<in> set ps \<Longrightarrow> 0 \<le> p \<and> p < int (length v)"
    and "1 \<le> int (length ps)" "int (length ps) \<le> max_width"
  shows "bits_ok (map (\<lambda>p. case p of None \<Rightarrow> CHR ''x'' | Some k \<Rightarrow> v ! nat k) ps)"
proof -
  have "is_bit (v ! nat k)" if "Some k \<in> set ps" for k
    using assms(2) [OF that] bits_ok_nth [OF assms(1), of "nat k"] by auto
  then show ?thesis using assms(3,4) by (auto simp: bits_ok_def split: option.split)
qed

lemma walk_select_sound:
  assumes st: "stable N" and w: "good_walker C N w" and g: "xgood N (Expr n xs)"
    and o: "e_op n \<in> {''select'', ''part_up'', ''part_down''}"
  shows "\<exists>ev b'. walk_select w (Expr n xs) use b = Inr (ev, b') \<and> ev_sound C (Expr n xs) ev"
proof -
  have nc: "e_op n \<noteq> ''const''" using o by auto
  have "count_arity (e_op n) = Some 2" using o by (auto simp: count_arity_def)
  then obtain base ix where xs: "xs = [base, ix]"
    using checks_arity(2) [OF xgood_ok [OF g]] length2 by blast
  have ok: "node_ok n [base, ix]" using xgood_ok [OF g] xs by simp
  have wd: "1 \<le> e_width n" "e_width n \<le> max_width" using checks_width [OF ok] by auto
  have gb: "xgood N base" and gi: "xgood N ix" using g xs by (simp_all add: xgood_Expr)
  let ?m = "enode_of base" and ?ys = "eargs base"
  have base: "Expr ?m ?ys = base" by simp
  have bn: "node_ok ?m ?ys" using xgood_ok [of N ?m ?ys] gb by simp
  have bw: "1 \<le> xwidth base" "xwidth base \<le> max_width"
    using checks_width [OF bn] by auto
  obtain index b1 where i: "w ix ''index'' b = Inr (index, b1)" "ev_sound C ix index"
    using good_walkerE [OF w gi] .
  note step = walk_select_def xs i(1) ev_sound_noref nc Let_def
  show ?thesis
  proof (cases "ev_value index")
    case None
    then show ?thesis by (simp add: step)
  next
    case (Some iv)
    have iv: "bits_ok iv" using ev_soundD(1) [OF i(2) Some] .
    show ?thesis
    proof (cases "known (Some iv)")
      case False
      then show ?thesis using wd by (simp add: step Some)
    next
      case kn: True
      define v where "v = \<lparr>vbits = iv, vsigned = e_signed (enode_of ix)\<rparr>"
      have mk: "mk_value iv (e_signed (enode_of ix)) = Inr v" using iv by (simp add: v_def)
      have "vknown v" using kn iv known_vknown [of iv] by (auto simp: v_def bits_ok_def)
      then obtain at where at: "vinteger v = Inr at" using vinteger_known by blast
      define ps where "ps = select_positions n base at"
      have rng: "0 \<le> p \<and> p < xwidth base" if "Some p \<in> set ps" for p
        using select_positions_range [OF ok o bw(1)] that by (simp add: ps_def)
      note step = step Some kn mk at ps_def [symmetric]
      show ?thesis
      proof (cases "int (length ps) = e_width n")
        case False
        then show ?thesis by (simp add: step)
      next
        case len: True
        show ?thesis
        proof (cases "xop base = ''signal'' \<and> list_all (\<lambda>p. p \<noteq> None) ps")
          case True
          have bl: "int (length (e_bits ?m)) = xwidth base"
            using checks_signal [OF bn] True by blast
          define bs where "bs = map (\<lambda>p. e_bits ?m ! nat (the p)) ps"
          have bs: "mapM (\<lambda>p. py_index (e_bits ?m) (the p)) ps = Inr bs"
            using mapM_the_positions [of ps "e_bits ?m"] rng bl True by (simp add: bs_def)
          let ?sel = "Expr (?m\<lparr>e_width := e_width n, e_bits := bs, e_signed := e_signed n\<rparr>) ?ys"
          have lb: "int (length bs) = e_width n" using len by (simp add: bs_def)
          have sb: "set bs \<subseteq> set (e_bits ?m)" using rng bl True by (force simp: bs_def list_all_iff)
          have sel: "xgood N ?sel" "mk_expr (?m\<lparr>e_width := e_width n, e_bits := bs, e_signed := e_signed n\<rparr>) ?ys = Inr ?sel"
            using good_signal_update [OF st _ _ wd lb sb] gb True by auto
          obtain data b2 where d: "w ?sel use b1 = Inr (data, b2)" "ev_sound C ?sel data"
            using good_walkerE [OF w sel(1)] .
          have "ev_sound C (Expr n xs) data" using d(2) nc by (simp add: ev_sound_def)
          then show ?thesis
            using True nc by (simp add: step len bs sel(2) d(1) ev_sound_ref)
        next
          case False
          obtain data b2 where d: "w base use b1 = Inr (data, b2)" "ev_sound C base data"
            using good_walkerE [OF w gb] .
          show ?thesis
          proof (cases "ev_value data")
            case None
            then show ?thesis using False by (simp add: step len d(1) del: de_Morgan_conj)
          next
            case (Some dv)
            have dv: "bits_ok dv" "int (length dv) = xwidth base" using ev_soundD [OF d(2) Some] by auto
            have "mapM (\<lambda>p. case p of None \<Rightarrow> Inr CHR ''x'' | Some k \<Rightarrow> py_index dv k) ps =
               Inr (map (\<lambda>p. case p of None \<Rightarrow> CHR ''x'' | Some k \<Rightarrow> dv ! nat k) ps)"
              using mapM_positions [of ps dv] rng dv(2) by simp
            moreover have "bits_ok (map (\<lambda>p. case p of None \<Rightarrow> CHR ''x'' | Some k \<Rightarrow> dv ! nat k) ps)"
              using bits_ok_positions [OF dv(1), of ps] rng dv(2) len wd by simp
            ultimately show ?thesis using False by (simp add: step len d(1) Some del: de_Morgan_conj)
          qed
        qed
      qed
    qed
  qed
qed

section \<open>Fixed arrays\<close>

lemmas invalid_defs = signal_invalid_def const_invalid_def fill_invalid_def bounds_invalid_def
  project_invalid_def function_invalid_def dimension_invalid_def array_invalid_def dims_invalid_def
  array_ref_invalid_def select_invalid_def

lemma node_ok_array_next:
  assumes "node_ok m []" "e_op m = ''array_ref''" "e_dims m = d # ds" "ds \<noteq> []" "small_int i"
    and "length (e_dims m) + length (e_indices m) \<le> 8"
  shows "node_ok (m\<lparr>e_dims := ds, e_indices := e_indices m @ [i]\<rparr>) []"
  using assms unfolding node_ok_iff by (simp add: invalid_defs)

lemma node_ok_array_last:
  assumes "node_ok m []" "e_op m = ''array_ref''" "e_dims m = [d]" "small_int i" "e_signal m = Some s"
    and "length (e_dims m) + length (e_indices m) \<le> 8"
  shows "node_ok (m\<lparr>e_op := ''signal'', e_signal := Some (s @ p), e_dims := [],
           e_indices := e_indices m @ [i]\<rparr>) []"
  using assms unfolding node_ok_iff
  by (simp add: invalid_defs EXPR_OPS_def base_arity_def count_arity_def arity_fails_def no_value_def
      BINARY_def COMPARISONS_def LOGICAL_def LEFT_TYPED_def)

definition target_ok :: "node_pred \<Rightarrow> nat \<Rightarrow> int \<Rightarrow> expr \<Rightarrow> bool" where
  "target_ok N k u a \<longleftrightarrow> xgood N a \<and> xwidth a = u \<and> indexable k a \<and>
     (0 < k \<longrightarrow> xop a = ''array'' \<or> xop a = ''array_ref'')"

lemma array_element_sound:
  assumes st: "stable N" and c: "target_ok N (Suc k) u c" and i: "small_int i"
  shows "\<exists>t h'. array_element c bd i h = Inr (t, h') \<and> ev_ref h' = ev_ref h \<and> ev_value h' = ev_value h \<and>
     (\<forall>a. t = Some a \<longrightarrow> target_ok N k u a)"
proof -
  obtain m xs where cm: "c = Expr m xs" by (cases c)
  have g: "xgood N (Expr m xs)" and u: "e_width m = u" and ind: "indexable (Suc k) (Expr m xs)"
    and o: "e_op m = ''array'' \<or> e_op m = ''array_ref''"
    using c unfolding target_ok_def cm by (simp_all del: indexable.simps)
  note ok = xgood_ok [OF g]
  have nn: "N m" using g by (simp add: xgood_Expr)
  show ?thesis
  proof (cases "e_op m = ''array_ref''")
    case True
    have xs: "xs = []" using checks_array_ref [OF ok True] by simp
    have ok0: "node_ok m []" using ok xs by simp
    obtain s where s: "e_signal m = Some s"
      using checks_array_ref [OF ok True] by (auto simp: no_value_iff)
    have l8: "length (e_dims m) + length (e_indices m) \<le> 8"
      using g True by (simp add: xgood_Expr node_typed_def)
    obtain d ds where d: "e_dims m = d # ds"
      using checks_array_ref [OF ok True] by (cases "e_dims m") auto
    have kd: "k \<le> length ds" using ind True d by simp
    show ?thesis
    proof (cases "bd = d \<and> ds \<noteq> []")
      case dd: True
      then have ok': "node_ok (m\<lparr>e_dims := ds, e_indices := e_indices m @ [i]\<rparr>) []"
        using node_ok_array_next [OF ok0 True d _ i l8] by blast
      have "target_ok N k u (Expr (m\<lparr>e_dims := ds, e_indices := e_indices m @ [i]\<rparr>) [])"
        using ok' True l8 d u kd stable_updates(2) [OF st nn True]
        by (simp add: target_ok_def xgood_Expr node_typed_def LOGICAL_def)
      then show ?thesis
        using dd d True xs node_ok_mk [OF ok'] by (simp add: array_element_def cm Let_def)
    next
      case nd: False
      show ?thesis
      proof (cases "bd = d")
        case False
        then show ?thesis using d True by (simp add: array_element_def cm Let_def)
      next
        case be: True
        then have ds: "ds = []" "k = 0" using nd kd by auto
        let ?m = "m\<lparr>e_op := ''signal'', e_signal := Some (s @ index_path (e_indices m @ [i])), e_dims := [],
           e_indices := e_indices m @ [i]\<rparr>"
        have ok': "node_ok ?m []"
          using node_ok_array_last [OF ok0 True _ i s l8] d ds by simp
        have "target_ok N k u (Expr ?m [])"
          using ok' u ds stable_updates(3) [OF st nn True s] by (simp add: target_ok_def xgood_Expr node_typed_def LOGICAL_def)
        then show ?thesis
          using be ds d True xs s node_ok_mk [OF ok'] by (simp add: array_element_def cm Let_def some_or_def)
      qed
    qed
  next
    case False
    then have oa: "e_op m = ''array''" using o by simp
    have len: "length (e_bits m) = length xs" and wd: "\<forall>a \<in> set xs. xwidth a = u"
      using checks_array [OF ok oa] u by auto
    show ?thesis
    proof (cases "i \<in> set (e_bits m)")
      case False
      then show ?thesis using oa by (simp add: array_element_def cm Let_def)
    next
      case True
      define j where "j = length (takeWhile (\<lambda>x. x \<noteq> i) (e_bits m))"
      have j: "j < length xs"
        unfolding j_def len [symmetric] using True
        by (metis (mono_tags) takeWhile_eq_all_conv length_takeWhile_le le_neq_implies_less
            takeWhile_eq_take take_all order_refl)
      have a: "xs ! j \<in> set xs" using j by simp
      have "indexable k (xs ! j) \<and> (Suc k = 1 \<or> xop (xs ! j) = ''array'' \<or> xop (xs ! j) = ''array_ref'')"
        using ind oa a by simp
      then have "target_ok N k u (xs ! j)"
        using a wd xgood_args [OF g a] by (auto simp: target_ok_def)
      then show ?thesis
        using True oa py_index_nat [OF j] by (simp add: array_element_def cm Let_def j_def [symmetric])
    qed
  qed
qed

lemma good_targeter_iff: "good_targeter N tgt \<longleftrightarrow>
   (\<forall>e use b k. xgood N e \<and> indexable k e \<longrightarrow>
      (\<exists>t h b'. tgt e use b = Inr ((t, h), b') \<and> ev_ref h = None \<and>
         (\<forall>v. ev_value h = Some v \<longrightarrow> bits_ok v \<and> int (length v) = xwidth e) \<and>
         (\<forall>a. t = Some a \<longrightarrow> target_ok N k (xwidth e) a)))"
  unfolding good_targeter_def target_ok_def ..

lemma target_step_sound:
  assumes st: "stable N" and w: "good_walker C N w" and t: "good_targeter N tgt" and g: "xgood N e" and ind: "indexable k e"
  shows "\<exists>t h b'. target_step w tgt e use b = Inr ((t, h), b') \<and> ev_ref h = None \<and>
         (\<forall>v. ev_value h = Some v \<longrightarrow> bits_ok v \<and> int (length v) = xwidth e) \<and>
         (\<forall>a. t = Some a \<longrightarrow> target_ok N k (xwidth e) a)"
proof -
  obtain n xs where e: "e = Expr n xs" by (cases e)
  have g': "xgood N (Expr n xs)" using g e by simp
  note ok = xgood_ok [OF g']
  consider (arr) "e_op n = ''array'' \<or> e_op n = ''array_ref''" | (sel) "e_op n = ''array_select''"
    | (other) "e_op n \<noteq> ''array'' \<and> e_op n \<noteq> ''array_ref'' \<and> e_op n \<noteq> ''array_select''" by blast
  then show ?thesis
  proof cases
    case arr
    then show ?thesis using g ind e by (auto simp: target_step_def target_ok_def Let_def)
  next
    case other
    then show ?thesis using e by (simp add: target_step_def Let_def)
  next
    case sel
    have "length xs = 2"
      using checks_arity(2) [OF ok] sel by (simp add: count_arity_def BINARY_def COMPARISONS_def LOGICAL_def LEFT_TYPED_def)
    then obtain base ix where xs: "xs = [base, ix]" using length2 by blast
    have wb: "xwidth base = e_width n" using g' sel xs by (simp add: xgood_Expr node_typed_def)
    have gb: "xgood N base" "xgood N ix" using g' xs by (simp_all add: xgood_Expr)
    have ib: "indexable (Suc k) base" using ind sel e xs by simp
    have wd: "1 \<le> e_width n" "e_width n \<le> max_width" using checks_width [OF ok] by auto
    obtain bd where bd: "e_bounds n = Some bd" using checks_array_select [OF ok sel] by blast
    obtain c h0 b1 where tb: "tgt base use b = Inr ((c, h0), b1)" "ev_ref h0 = None"
      "\<forall>v. ev_value h0 = Some v \<longrightarrow> bits_ok v \<and> int (length v) = e_width n"
      "\<forall>a. c = Some a \<longrightarrow> target_ok N (Suc k) (e_width n) a"
      using t gb(1) ib wb unfolding good_targeter_iff by metis
    obtain index b2 where i: "w ix ''index'' b1 = Inr (index, b2)" "ev_sound C ix index"
      using good_walkerE [OF w gb(2)] .
    note step = target_step_def e xs sel tb(1) i(1) Let_def bd
    show ?thesis
    proof (cases "c = None \<or> ev_value index = None")
      case True
      then show ?thesis using tb(2,3) by (auto simp: step split: option.split)
    next
      case False
      then obtain ce iv where c: "c = Some ce" and iv: "ev_value index = Some iv" by auto
      have bo: "bits_ok iv" using ev_soundD(1) [OF i(2) iv] .
      define v where "v = \<lparr>vbits = iv, vsigned = e_signed (enode_of ix)\<rparr>"
      have mk: "mk_value iv (e_signed (enode_of ix)) = Inr v" using bo by (simp add: v_def)
      show ?thesis
      proof (cases "known (Some iv)")
        case False
        then show ?thesis using tb(2) wd by (simp add: step c iv)
      next
        case kn: True
        have "vknown v" using kn bo known_vknown [of iv] by (auto simp: v_def bits_ok_def)
        then obtain at where at: "vinteger v = Inr at" using vinteger_known by blast
        show ?thesis
        proof (cases "in_bounds bd at")
          case False
          then show ?thesis using tb(2) wd by (simp add: step c iv kn mk at some_or_def)
        next
          case True
          have "small_int at"
            using checks_bounds [OF ok bd] True by (auto simp: small_int_def in_bounds_def)
          then obtain t h' where "array_element ce bd at (add_history h0 index) = Inr (t, h')"
            "ev_ref h' = None" "ev_value h' = ev_value h0" "\<forall>a. t = Some a \<longrightarrow> target_ok N k (e_width n) a"
            using array_element_sound [OF st, of k "e_width n" ce at bd "add_history h0 index"] tb(2,4) c by auto
          then show ?thesis using True tb(3) by (simp add: step c iv kn mk at some_or_def)
        qed
      qed
    qed
  qed
qed

lemma walk_array_select_sound:
  assumes w: "good_walker C N w" and t: "good_targeter N tgt" and g: "xgood N (Expr n xs)"
    and o: "e_op n = ''array_select''"
  shows "\<exists>ev b'. walk_array_select w tgt (Expr n xs) use b = Inr (ev, b') \<and> ev_sound C (Expr n xs) ev"
proof -
  have "indexable 0 (Expr n xs)" using g o by (simp add: xgood_Expr node_typed_def)
  then obtain t h b1 where tb: "tgt (Expr n xs) use b = Inr ((t, h), b1)" "ev_ref h = None"
      "\<forall>v. ev_value h = Some v \<longrightarrow> bits_ok v \<and> int (length v) = e_width n"
      "\<forall>a. t = Some a \<longrightarrow> target_ok N 0 (e_width n) a"
    using t g unfolding good_targeter_iff by (metis expr.sel(1))
  note step = walk_array_select_def tb(1) o
  show ?thesis
  proof (cases t)
    case None
    then show ?thesis using tb(2,3) by (simp add: step ev_sound_noref o)
  next
    case (Some a)
    show ?thesis
    proof (cases "xop a = ''array'' \<or> xop a = ''array_ref''")
      case True
      then show ?thesis by (auto simp: step Some ev_sound_noref o)
    next
      case False
      have a: "xgood N a" "xwidth a = e_width n" using tb(4) Some by (auto simp: target_ok_def)
      obtain data b2 where d: "w a use b1 = Inr (data, b2)" "ev_sound C a data"
        using good_walkerE [OF w a(1)] .
      show ?thesis
        using False d(2) a(2) by (simp add: step Some d(1) ev_sound_def o)
    qed
  qed
qed

section \<open>mux and inside\<close>

lemma conditional_typed:
  assumes "bits_ok x" "bits_ok y" "1 \<le> u" "u \<le> max_width"
  shows "\<exists>r. conditional c \<lparr>vbits = x, vsigned = s\<rparr> \<lparr>vbits = y, vsigned = t\<rparr> (Some u) = Inr r \<and>
     bits_ok (vbits r) \<and> int (length (vbits r)) = u"
proof -
  have k: "bits_ok (resize_bits x (nat u) e)" "bits_ok (resize_bits y (nat u) e)" for e
    using bits_ok_resize assms by auto
  have "is_bit (merge_bit a b)" if "is_bit a" "is_bit b" for a b
    using that by (simp add: merge_bit_def)
  then have "bits_ok (map2 merge_bit (resize_bits x (nat u) e) (resize_bits y (nat u) e))" for e
  proof -
    have "is_bit c" if cin: "c \<in> set (map2 merge_bit (resize_bits x (nat u) e) (resize_bits y (nat u) e))" for c
    proof -
      obtain a b where ab: "(a, b) \<in> set (zip (resize_bits x (nat u) e) (resize_bits y (nat u) e))" "c = merge_bit a b"
        using cin by auto
      have "is_bit a" "is_bit b"
        using set_zip_leftD [OF ab(1)] set_zip_rightD [OF ab(1)] k [of e] by (auto simp: bits_ok_def)
      then show ?thesis using ab(2) \<open>\<And>b a. is_bit a \<Longrightarrow> is_bit b \<Longrightarrow> is_bit (merge_bit a b)\<close> by simp
    qed
    then show ?thesis using k [of e] assms(3,4)
      by (auto simp: bits_ok_def simp flip: length_greater_0_conv simp del: set_map set_zip)
  qed
  then show ?thesis
    using conditional_eq [of "\<lparr>vbits = x, vsigned = s\<rparr>" "\<lparr>vbits = y, vsigned = t\<rparr>" "Some u" c] assms k
    by (simp add: width_ok_def width_or_def)
qed

lemma walk_mux_sound:
  assumes w: "good_walker C N w" and g: "xgood N (Expr n xs)" and o: "e_op n = ''mux''"
  shows "\<exists>ev b'. walk_mux w (Expr n xs) use b = Inr (ev, b') \<and> ev_sound C (Expr n xs) ev"
proof -
  note ok = xgood_ok [OF g]
  have "length xs = 3" using checks_arity(1) [OF ok] o by (simp add: base_arity_def)
  then obtain a0 a1 a2 where xs: "xs = [a0, a1, a2]" by (auto simp: length_Suc_conv eval_nat_numeral)
  have ga: "xgood N a0" "xgood N a1" "xgood N a2" using g xs by (simp_all add: xgood_Expr)
  have wd: "1 \<le> e_width n" "e_width n \<le> max_width" using checks_width [OF ok] by auto
  obtain cond b1 where c: "w a0 ''control'' b = Inr (cond, b1)" "ev_sound C a0 cond"
    using good_walkerE [OF w ga(1)] .
  note step = walk_mux_def xs c(1) Let_def
  let ?bad = "list_ex (\<lambda>a. xwidth a \<noteq> e_width n) [a1, a2]"
  consider (t) "ev_truth cond = ''true''" | (f) "ev_truth cond = ''false''"
    | (u) "ev_truth cond \<noteq> ''true''" "ev_truth cond \<noteq> ''false''" by blast
  then show ?thesis
  proof cases
    case t
    obtain d b2 where d: "w a1 use b1 = Inr (d, b2)" "ev_sound C a1 d" using good_walkerE [OF w ga(2)] .
    show ?thesis using d(2) t by (simp add: step d(1) ev_sound_def o)
  next
    case f
    obtain d b2 where d: "w a2 use b1 = Inr (d, b2)" "ev_sound C a2 d" using good_walkerE [OF w ga(3)] .
    have "py_index [a0, a1, a2] 2 = Inr a2" by (simp add: py_index_def)
    then show ?thesis using d(2) f by (simp add: step d(1) ev_sound_def o)
  next
    case u
    obtain d1 b2 where d1: "w a1 use b1 = Inr (d1, b2)" "ev_sound C a1 d1" using good_walkerE [OF w ga(2)] .
    obtain d2 b3 where d2: "w a2 use b2 = Inr (d2, b3)" "ev_sound C a2 d2" using good_walkerE [OF w ga(3)] .
    have i2: "py_index [a0, a1, a2] 2 = Inr a2" by (simp add: py_index_def)
    have "\<exists>r. mux_merge (Expr n xs) cond [d1, d2] = Inr r \<and>
        (\<forall>v. r = Some v \<longrightarrow> bits_ok v \<and> int (length v) = e_width n)"
    proof (cases "ev_value cond = None \<or> ev_value d1 = None \<or> ev_value d2 = None")
      case True
      then show ?thesis by (auto simp: mux_merge_def split: option.split)
    next
      case False
      then obtain cv v1 v2 where v: "ev_value cond = Some cv" "ev_value d1 = Some v1" "ev_value d2 = Some v2"
        by auto
      have b: "bits_ok cv" "bits_ok v1" "bits_ok v2"
        using ev_soundD(1) c(2) d1(2) d2(2) v by blast+
      show ?thesis
        using conditional_typed [OF b(2,3) wd, of "\<lparr>vbits = cv, vsigned = False\<rparr>" "e_signed (enode_of a1)"
            "e_signed (enode_of a2)"] b i2
        by (auto simp: mux_merge_def v xs)
    qed
    then obtain r where r: "mux_merge (Expr n [a0, a1, a2]) cond [d1, d2] = Inr r"
      "\<forall>v. r = Some v \<longrightarrow> bits_ok v \<and> int (length v) = e_width n" using xs by auto
    show ?thesis using r(2) by (simp add: step u d1(1) d2(1) i2 r(1) ev_sound_noref o)
  qed
qed

lemma operand_values_total:
  assumes "list_all2 (ev_sound C) xs cs" "all_some (map ev_value cs)"
  shows "operand_values xs cs =
    Inr (map (\<lambda>(a, c). \<lparr>vbits = the (ev_value c), vsigned = e_signed (enode_of a)\<rparr>) (zip xs cs)) \<and>
    list_all2 (\<lambda>a c. bits_ok (the (ev_value c)) \<and> int (length (the (ev_value c))) = xwidth a) xs cs"
  unfolding operand_values_def
proof
  have p: "bits_ok (the (ev_value c)) \<and> int (length (the (ev_value c))) = xwidth a" if ac: "(a, c) \<in> set (zip xs cs)" for a c
  proof -
    have "ev_sound C a c" using assms(1) ac by (auto simp: list_all2_iff)
    moreover obtain v where "ev_value c = Some v"
      using assms(2) set_zip_rightD [OF ac] by (auto simp: all_some_def list_all_iff)
    ultimately show ?thesis by (auto dest: ev_soundD)
  qed
  show "mapM (\<lambda>(a, ev). mk_value (the (ev_value ev)) (e_signed (enode_of a))) (zip xs cs) =
    Inr (map (\<lambda>(a, c). \<lparr>vbits = the (ev_value c), vsigned = e_signed (enode_of a)\<rparr>) (zip xs cs))"
    using p by (intro mapM_Inr_map) auto
  show "list_all2 (\<lambda>a c. bits_ok (the (ev_value c)) \<and> int (length (the (ev_value c))) = xwidth a) xs cs"
    using p assms(1) by (auto simp: list_all2_iff)
qed

lemma inside_item_total:
  assumes w: "good_walker C N w" and g: "xgood N item" and s: "ev_sound C subj sev"
  shows "\<exists>r b'. inside_item w use subj sev item b = Inr (r, b')"
proof -
  obtain m ys where it: "item = Expr m ys" by (cases item)
  have ge: "xgood N a" if "a \<in> set (endpoints item)" for a
    using that g by (auto simp: endpoints_def it xgood_Expr split: if_splits)
  obtain obs b1 where obs: "mapMS (\<lambda>a s. w a use s) (endpoints item) b = Inr (obs, b1)"
    "list_all2 (ev_sound C) (endpoints item) obs"
    using mapMS_total [of "endpoints item" "\<lambda>a s. w a use s" "ev_sound C" b] good_walkerE [OF w ge] by metis
  show ?thesis
  proof (cases "ev_value sev = None \<or> \<not> all_some (map ev_value obs)")
    case True
    then show ?thesis by (auto simp: inside_item_def obs(1) split: option.split)
  next
    case False
    then obtain sv where sv: "ev_value sev = Some sv" and al: "all_some (map ev_value obs)" by auto
    have bs: "bits_ok sv" using ev_soundD(1) [OF s sv] .
    note ov = operand_values_total [OF obs(2) al]
    have "\<exists>z. inside_match \<lparr>vbits = sv, vsigned = sg\<rparr> (xop item = ''range'')
        (map (\<lambda>(a, c). \<lparr>vbits = the (ev_value c), vsigned = e_signed (enode_of a)\<rparr>) (zip (endpoints item) obs)) = Inr z" for sg
    proof (cases "xop item = ''range''")
      case True
      have "length ys = 2"
        using checks_arity(2) [of m ys 2] g it True
        by (simp add: xgood_Expr count_arity_def BINARY_def COMPARISONS_def LOGICAL_def LEFT_TYPED_def)
      then obtain p q where ys: "ys = [p, q]" using length2 by blast
      then have ep: "endpoints item = [p, q]" using True it by (simp add: endpoints_def)
      then obtain c d where cd: "obs = [c, d]" using obs(2) by (auto simp: list_all2_Cons1)
      have b: "bits_ok (the (ev_value c))" "bits_ok (the (ev_value d))" using ov ep cd by auto
      obtain ge where ge: "binary ''>='' \<lparr>vbits = sv, vsigned = sg\<rparr>
          \<lparr>vbits = the (ev_value c), vsigned = e_signed (enode_of p)\<rparr> None = Inr ge" "bits_ok (vbits ge)"
        using binary_None_typed [OF bs b(1), of "''>=''" sg "e_signed (enode_of p)"] by (auto simp: COMPARISONS_def)
      obtain le where le: "binary ''<='' \<lparr>vbits = sv, vsigned = sg\<rparr>
          \<lparr>vbits = the (ev_value d), vsigned = e_signed (enode_of q)\<rparr> None = Inr le" "bits_ok (vbits le)"
        using binary_None_typed [OF bs b(2), of "''<=''" sg "e_signed (enode_of q)"] by (auto simp: COMPARISONS_def)
      have "\<exists>z. binary ''&&'' ge le None = Inr z"
        using binary_None_typed [OF ge(2) le(2), of "''&&''" "vsigned ge" "vsigned le"]
        by (cases ge, cases le) (auto simp: LOGICAL_def)
      then show ?thesis using True ep cd ge(1) le(1) by (auto simp: inside_match_def)
    next
      case False
      then have ep: "endpoints item = [item]" by (simp add: endpoints_def)
      then obtain c where c: "obs = [c]" using obs(2) by (auto simp: list_all2_Cons1)
      have b: "bits_ok (the (ev_value c))" using ov ep c by auto
      show ?thesis
        using False ep c binary_None_typed [OF bs b, of "''==?''" sg "e_signed (enode_of item)"]
        by (auto simp: inside_match_def COMPARISONS_def)
    qed
    then obtain z where "inside_match \<lparr>vbits = sv, vsigned = e_signed (enode_of subj)\<rparr> (xop item = ''range'')
        (map (\<lambda>(a, c). \<lparr>vbits = the (ev_value c), vsigned = e_signed (enode_of a)\<rparr>) (zip (endpoints item) obs)) = Inr z"
      by blast
    then show ?thesis using ov bs by (simp add: inside_item_def obs(1) sv al)
  qed
qed

lemma inside_value_ok: "inside_value ms = Some v \<Longrightarrow> bits_ok v \<and> length v = 1"
  by (auto simp: inside_value_def split: if_splits)

lemma walk_inside_sound:
  assumes w: "good_walker C N w" and g: "xgood N (Expr n xs)" and o: "e_op n = ''inside''"
  shows "\<exists>ev b'. walk_inside w (Expr n xs) use b = Inr (ev, b') \<and> ev_sound C (Expr n xs) ev"
proof -
  note ok = xgood_ok [OF g]
  obtain a ys where xs: "xs = a # ys" using checks_inside [OF ok o] by (cases xs) auto
  have ga: "xgood N a" "\<And>y. y \<in> set ys \<Longrightarrow> xgood N y" using g xs by (simp_all add: xgood_Expr)
  have w1: "e_width n = 1" using g o by (simp add: xgood_Expr node_typed_def)
  obtain sev b1 where s: "w a use b = Inr (sev, b1)" "ev_sound C a sev" using good_walkerE [OF w ga(1)] .
  obtain rs b2 where rs: "mapMS (inside_item w use a sev) ys b1 = Inr (rs, b2)"
    using mapMS_total [of ys "inside_item w use a sev" "\<lambda>_ _. True" b1] inside_item_total [OF w ga(2) s(2)] by blast
  show ?thesis
    using inside_value_ok by (fastforce simp: walk_inside_def xs s(1) rs Let_def ev_sound_noref o w1)
qed

end
