(* ===== verification/Dyn_Eval_Claims.thy ===== *)
theory Dyn_Eval_Claims
  imports Dyn_Eval_Sound
begin

text \<open>
  The operators that evaluate all their arguments, the locale of passthrough readings with its
  induction over \<open>walk\<close> and \<open>array_target\<close>, its two interpretations, and the properties of
  \<open>Expr.from_dict\<close>, \<open>evaluate\<close> and \<open>expression_gaps\<close>.
\<close>

section \<open>Operators on values\<close>

lemma length_stream_groups: "0 < sz \<Longrightarrow> length (stream_groups sz b) = length b"
proof (induction sz b rule: stream_groups.induct)
  case (1 sz b)
  show ?case
  proof (cases "b = []")
    case True
    then show ?thesis by (simp add: stream_groups.simps)
  next
    case False
    then have "stream_groups sz b = last_n sz b @ stream_groups sz (take (length b - sz) b)"
      using 1(2) by (subst stream_groups.simps) simp
    then show ?thesis using 1 False by auto
  qed
qed

lemma stream_typed:
  assumes "value_ok v" "1 \<le> k" "k \<le> max_width" "d = ''<<'' \<or> d = ''>>''"
  shows "\<exists>r. stream v d k = Inr r \<and> bits_ok (vbits r)"
proof -
  have "bits_ok (stream_groups (nat k) (vbits v))"
    using assms length_stream_groups [of "nat k" "vbits v"] set_stream_groups [of "nat k" "vbits v"]
    by (auto simp: value_ok_def bits_ok_def simp flip: length_greater_0_conv)
  then show ?thesis using assms by (auto simp: stream_def value_ok_def)
qed

lemma number_ok: "1 \<le> u \<Longrightarrow> u \<le> max_width \<Longrightarrow> \<exists>r. number k u s = Inr r \<and> value_ok r"
  using number_typed by blast

lemma unknown_ok: "1 \<le> u \<Longrightarrow> u \<le> max_width \<Longrightarrow> \<exists>r. unknown u s = Inr r \<and> value_ok r"
  using unknown_typed by blast

lemma builtin_typed:
  assumes "f \<in> set EXPR_FUNCTIONS" "if f = ''$countbits'' then 2 \<le> length vs else length vs = 1"
    and "\<forall>v \<in> set vs. value_ok v"
  shows "\<exists>r. builtin f vs = Inr r \<and> value_ok r"
proof -
  obtain v rest where vs: "vs = v # rest" using assms(2) by (cases vs) (auto split: if_splits)
  have v: "bits_ok (vbits v)" using assms(3) vs by (simp add: value_ok_def)
  have m: "(1::int) \<le> 32" "32 \<le> max_width" "(1::int) \<le> 1" "1 \<le> max_width" by (simp_all add: max_width_def)
  note n32 = number_ok [OF m(1,2)] and n1 = number_ok [OF m(3,4)] and u32 = unknown_ok [OF m(1,2)]
  show ?thesis
  proof (cases "f = ''$countbits''")
    case True
    then have "rest \<noteq> []" using assms(2) vs by auto
    then show ?thesis using True n32 by (simp add: builtin_def vs Let_def)
  next
    case False
    then have "rest = []" using assms(2) vs by simp
    moreover have "f \<in> {''$signed'', ''$unsigned'', ''$isunknown'', ''$onehot'', ''$onehot0'', ''$countones'', ''$clog2''}"
      using assms(1) False by (auto simp: EXPR_FUNCTIONS_def)
    ultimately show ?thesis
      using v n32 n1 u32 by (elim insertE emptyE) (simp_all add: builtin_def vs Let_def)
  qed
qed

lemma op_names:
  "\<forall>opr \<in> set EXPR_OPS. opr \<notin> set BINARY \<and> (opr \<in> {''u+'', ''u-'', ''~''} \<or> starts_with ''reduce_'' opr) \<longrightarrow>
     count_arity opr = Some 1 \<and> unary_name opr \<in> {''+'', ''-'', ''!'', ''~'', ''&'', ''~&'', ''|'', ''~|'', ''^'', ''~^'', ''^~''}"
  by code_simp

section \<open>Outcomes\<close>

definition outcome_ok :: "reading_rel \<Rightarrow> int \<Rightarrow> outcome \<Rightarrow> bool" where
  "outcome_ok C u r \<longleftrightarrow> (\<forall>x. fst r = Some x \<and> int (length x) = u \<longrightarrow>
     bits_ok x \<and> (\<forall>s bs. fst (snd r) = Some (s, bs) \<longrightarrow> C s bs x))"

lemma outcome_simps [simp]:
  "outcome_ok C u (None, ref, gs)"
  "outcome_ok C u (Some x, None, gs) \<longleftrightarrow> (int (length x) = u \<longrightarrow> bits_ok x)"
  by (simp_all add: outcome_ok_def)

definition args_ok :: "reading_rel \<Rightarrow> expr list \<Rightarrow> evaluation list \<Rightarrow> bool" where
  "args_ok C xs cs \<longleftrightarrow> list_all2 (ev_sound C) xs cs"

lemma args_ok_elem: "args_ok C xs cs \<Longrightarrow> c \<in> set cs \<Longrightarrow> \<exists>x. ev_sound C x c"
  unfolding args_ok_def by (metis in_set_conv_nth list_all2_nthD2)

lemma args_ok_values:
  assumes "args_ok C xs cs" "all_some (map ev_value cs)"
  shows "\<exists>vs. operand_values xs cs = Inr vs \<and> length vs = length xs \<and> (\<forall>v \<in> set vs. value_ok v) \<and>
     vs = map (\<lambda>(a, c). \<lparr>vbits = the (ev_value c), vsigned = e_signed (enode_of a)\<rparr>) (zip xs cs)"
  using operand_values_total [OF assms [unfolded args_ok_def]] assms(1)
  by (auto simp: list_all2_iff args_ok_def)

lemma binary_Some_typed:
  assumes "value_ok x" "value_ok y" "opr \<in> set BINARY" "u = None \<or> (\<exists>n. u = Some n \<and> 1 \<le> n \<and> n \<le> max_width)"
  shows "\<exists>r. binary opr x y u = Inr r \<and> bits_ok (vbits r)"
  using binary_typed [of x y u opr] assms by (auto simp: width_ok_def value_ok_def)

lemma combine_operands_total:
  assumes ok: "node_ok n xs" and ty: "node_typed n xs" and a: "args_ok C xs cs" and f: "all_some (map ev_value cs)"
  shows "\<exists>r. combine_operands n xs cs = Inr r \<and> outcome_ok C (e_width n) r"
proof -
  obtain vs where vs: "operand_values xs cs = Inr vs" "length vs = length xs" "\<forall>v \<in> set vs. value_ok v"
    "vs = map (\<lambda>(a, c). \<lparr>vbits = the (ev_value c), vsigned = e_signed (enode_of a)\<rparr>) (zip xs cs)"
    using args_ok_values [OF a f] by blast
  have wd: "1 \<le> e_width n" "e_width n \<le> max_width" using checks_width [OF ok] by auto
  have op: "e_op n \<in> set EXPR_OPS" using ok by (simp add: node_ok_iff)
  note step = combine_operands_def vs(1) Let_def
  consider (bin) "e_op n \<in> set BINARY"
    | (un) "e_op n \<notin> set BINARY" "e_op n \<in> {''u+'', ''u-'', ''~''} \<or> starts_with ''reduce_'' (e_op n)"
    | (fn) "e_op n = ''function''" | (rp) "e_op n = ''repeat''"
    | (st) "e_op n = ''stream_left'' \<or> e_op n = ''stream_right''"
    | (no) "e_op n \<notin> set BINARY" "\<not> (e_op n \<in> {''u+'', ''u-'', ''~''} \<or> starts_with ''reduce_'' (e_op n))"
        "e_op n \<noteq> ''function''" "e_op n \<noteq> ''repeat''" "e_op n \<noteq> ''stream_left''" "e_op n \<noteq> ''stream_right''"
    by blast
  then show ?thesis
  proof cases
    case bin
    have "length vs = 2" using checks_arity(2) [OF ok count_arity_BINARY [OF bin]] vs(2) by simp
    then obtain x y where xy: "vs = [x, y]" using length2 by blast
    obtain r where "binary (e_op n) x y (Some (e_width n)) = Inr r" "bits_ok (vbits r)"
      using binary_Some_typed [OF _ _ bin, of x y "Some (e_width n)"] vs(3) xy wd by auto
    then show ?thesis using bin by (simp add: step combine_binary_def xy)
  next
    case un
    have u: "count_arity (e_op n) = Some 1"
      "unary_name (e_op n) \<in> {''+'', ''-'', ''!'', ''~'', ''&'', ''~&'', ''|'', ''~|'', ''^'', ''~^'', ''^~''}"
      using op_names op un by blast+
    have "length vs = 1" using checks_arity(2) [OF ok u(1)] vs(2) by simp
    then obtain x where x: "vs = [x]" by (cases vs) auto
    obtain r where "unary (unary_name (e_op n)) x = Inr r" "bits_ok (vbits r)"
      using unary_typed [OF _ u(2), of x] vs(3) x by (auto simp: value_ok_def simp del: insert_iff)
    then show ?thesis using un by (simp add: step x)
  next
    case fn
    obtain f where f: "e_function n = Some f" "f \<in> set EXPR_FUNCTIONS"
      "if f = ''$countbits'' then 2 \<le> length xs else length xs = 1"
      using checks_function [OF ok fn] by (auto split: if_splits)
    have f3: "if f = ''$countbits'' then 2 \<le> length vs else length vs = 1" using f(3) vs(2) by simp
    obtain r where r: "builtin f vs = Inr r" "value_ok r"
      using builtin_typed [OF f(2) f3 vs(3)] by blast
    obtain z where z: "vresize r (e_width n) (Some (e_signed n)) None False = Inr z" "value_ok z"
      using vresize_typed [OF r(2) wd] by blast
    have "''function'' \<notin> set BINARY" "\<not> starts_with ''reduce_'' ''function''" by code_simp+
    then show ?thesis using fn f(1) r(1) z by (simp add: step value_ok_def)
  next
    case rp
    have "length vs = 2"
      using checks_arity(2) [OF ok, of 2] rp vs(2)
      by (simp add: count_arity_def BINARY_def COMPARISONS_def LOGICAL_def LEFT_TYPED_def)
    then obtain x y where xy: "vs = [x, y]" using length2 by blast
    have y: "bits_ok (vbits y)" using vs(3) xy by (simp add: value_ok_def)
    have b: "bits_ok (concat (replicate (nat k) (vbits y)))"
      if "int (length (concat (replicate (nat k) (vbits y)))) = e_width n" for k
    proof -
      have "concat (replicate (nat k) (vbits y)) \<noteq> []" using that wd by (metis length_0_conv not_one_le_zero of_nat_0)
      then show ?thesis using that y wd by (auto simp: bits_ok_def)
    qed
    obtain k where k: "(if vknown x then vinteger x else Inr 0) = (Inr k :: int result)"
      using vinteger_known by (cases "vknown x") auto
    have "''repeat'' \<notin> set BINARY" "\<not> starts_with ''reduce_'' ''repeat''" by code_simp+
    then show ?thesis using rp b [of k] by (simp add: step combine_repeat_def xy k)
  next
    case st
    have st2: "length xs = 2" "stream_size_ok (xs ! 1)" using ty st by (auto simp: node_typed_def)
    then obtain p q where xs: "xs = [p, q]" using length2 by blast
    obtain c d where cd: "cs = [c, d]" using a xs by (auto simp: args_ok_def list_all2_Cons1)
    obtain v where v: "e_value (enode_of q) = Some v" "xop q = ''const''"
      "1 \<le> sint_bits (e_signed (enode_of q)) v" "sint_bits (e_signed (enode_of q)) v \<le> max_width"
      using st2(2) xs by (auto simp: stream_size_ok_def split: option.splits)
    have "ev_sound C q d" using a xs cd by (simp add: args_ok_def)
    then have d: "ev_value d = Some v"
      using v f cd by (auto simp: ev_sound_def all_some_def)
    define x where "x = \<lparr>vbits = the (ev_value c), vsigned = e_signed (enode_of p)\<rparr>"
    define y where "y = \<lparr>vbits = v, vsigned = e_signed (enode_of q)\<rparr>"
    have xy: "vs = [x, y]" using vs(4) xs cd d by (simp add: x_def y_def)
    have "\<exists>r. combine_stream n vs = Inr r \<and> outcome_ok C (e_width n) r"
    proof (cases "vknown y")
      case False
      then show ?thesis by (simp add: combine_stream_def xy)
    next
      case True
      define k where "k = sint_bits (e_signed (enode_of q)) v"
      have k: "vinteger y = Inr k" using vinteger_eq [OF True] by (simp add: y_def k_def)
      have x: "value_ok x" using vs(3) xy by simp
      have dr: "(if e_op n = ''stream_left'' then ''<<'' else ''>>'') = ''<<'' \<or>
        (if e_op n = ''stream_left'' then ''<<'' else ''>>'') = ''>>''" by simp
      obtain r where "stream x (if e_op n = ''stream_left'' then ''<<'' else ''>>'') k = Inr r" "bits_ok (vbits r)"
        using stream_typed [OF x v(3,4) dr] unfolding k_def by blast
      then show ?thesis using True k by (simp add: combine_stream_def xy)
    qed
    moreover have "''stream_left'' \<notin> set BINARY" "''stream_right'' \<notin> set BINARY"
      "\<not> starts_with ''reduce_'' ''stream_left''" "\<not> starts_with ''reduce_'' ''stream_right''" by code_simp+
    ultimately show ?thesis using st by (auto simp: step)
  next
    case no
    then show ?thesis by (simp add: step)
  qed
qed

section \<open>Passthrough readings\<close>

locale reading =
  fixes C :: reading_rel and N :: node_pred
  assumes N_stable: "stable N"
    and C_length: "C s bs v \<Longrightarrow> length bs = length v"
    and C_append: "C s bs v \<Longrightarrow> C s bs' v' \<Longrightarrow> C s (bs @ bs') (v @ v')"
    and C_pick: "C s bs v \<Longrightarrow> \<forall>i \<in> set ps. i < length v \<Longrightarrow> C s (map ((!) bs) ps) (map ((!) v) ps)"
begin

lemma C_nil: "C s bs v \<Longrightarrow> C s [] []"
  using C_pick [of s bs v "[]"] by simp

lemma C_last:
  assumes "C s bs v" shows "C s (last_n k bs) (last_n k v)"
proof -
  have l: "length bs = length v" using C_length [OF assms] .
  have "C s (map ((!) bs) [length v - k..<length v]) (map ((!) v) [length v - k..<length v])"
    using C_pick [OF assms] by simp
  moreover have "map ((!) bs) [length v - k..<length v] = last_n k bs"
    "map ((!) v) [length v - k..<length v] = last_n k v"
    by (auto simp: last_n_def l intro!: nth_equalityI)
  ultimately show ?thesis by simp
qed

lemma C_concat:
  "list_all2 (\<lambda>b v. C s b v) bss vs \<Longrightarrow> C s b0 v0 \<Longrightarrow> C s (concat bss) (concat vs)"
  by (induction bss vs rule: list_all2_induct) (auto intro: C_append C_nil)

lemma joined_reference_reads:
  assumes a: "args_ok C xs cs" and f: "all_some (map ev_value cs)" and j: "joined_reference cs = Some (s, bs)"
  shows "C s bs (concat (map (\<lambda>c. the (ev_value c)) cs))"
proof -
  obtain c0 r0 where c0: "cs = c0 # r0" using j by (cases cs) (auto simp: joined_reference_def)
  have all: "\<forall>c \<in> set cs. \<exists>b. ev_ref c = Some (s, b)"
    and bs: "bs = concat (map (\<lambda>c. snd (the (ev_ref c))) cs)"
    using j c0 by (auto simp: joined_reference_def list_all_iff split: option.splits if_splits prod.splits)
  have one: "C s (snd (the (ev_ref c))) (the (ev_value c))" if c: "c \<in> set cs" for c
  proof -
    obtain x where "ev_sound C x c" using args_ok_elem [OF a c] by blast
    moreover obtain v where "ev_value c = Some v" using f c by (auto simp: all_some_def list_all_iff)
    moreover obtain b where "ev_ref c = Some (s, b)" using all c by blast
    ultimately show ?thesis using ev_soundD(3) by fastforce
  qed
  have "list_all2 (\<lambda>b v. C s b v) (map (\<lambda>c. snd (the (ev_ref c))) cs) (map (\<lambda>c. the (ev_value c)) cs)"
    using one by (simp add: list_all2_map1 list_all2_map2 list_all2_same)
  moreover have "C s (snd (the (ev_ref c0))) (the (ev_value c0))" using one c0 by simp
  ultimately show ?thesis unfolding bs by (rule C_concat)
qed

lemma concat_bits:
  assumes a: "args_ok C xs cs" and f: "all_some (map ev_value cs)"
  shows "set (concat (map (\<lambda>c. the (ev_value c)) cs)) \<subseteq> Collect is_bit"
proof -
  have "set (the (ev_value c)) \<subseteq> Collect is_bit" if c: "c \<in> set cs" for c
  proof -
    obtain x where "ev_sound C x c" using args_ok_elem [OF a c] by blast
    moreover obtain v where "ev_value c = Some v" using f c by (auto simp: all_some_def list_all_iff)
    ultimately show ?thesis using ev_soundD(1) by (fastforce simp: bits_ok_def)
  qed
  then show ?thesis by auto
qed

lemma combine_cast_total:
  assumes ok: "node_ok n [a]" and c: "ev_sound C a c" and v: "ev_value c = Some v"
  shows "\<exists>r. combine_cast n a c v = Inr r \<and> outcome_ok C (e_width n) r"
proof -
  have wd: "1 \<le> e_width n" "e_width n \<le> max_width" using checks_width [OF ok] by auto
  have b: "bits_ok v" "int (length v) = xwidth a" using ev_soundD [OF c v] by auto
  let ?r = "resize_bits v (nat (e_width n)) (e_signed (enode_of a))"
  let ?t = "(if e_two_state n then two_state_bits else id) ?r"
  have r: "vresize \<lparr>vbits = v, vsigned = e_signed (enode_of a)\<rparr> (e_width n) (Some (e_signed n)) None (e_two_state n)
     = Inr \<lparr>vbits = ?t, vsigned = e_signed n\<rparr>"
    using vresize_eq [of "\<lparr>vbits = v, vsigned = e_signed (enode_of a)\<rparr>"] b wd by simp
  have "bits_ok ?t" using bits_ok_resize [OF b(1) wd] bits_ok_two_state by simp
  moreover have "C s (last_n (nat (e_width n)) bs) ?t"
    if "ev_ref c = Some (s, bs)" "e_width n \<le> xwidth a" "\<not> e_two_state n" for s bs
  proof -
    have "C s bs v" using ev_soundD(3) [OF c v] that by blast
    moreover have "?t = last_n (nat (e_width n)) v"
      using that b wd by (simp add: resize_bits_def)
    ultimately show ?thesis using C_last by simp
  qed
  ultimately show ?thesis
    using r b(1) by (auto simp: combine_cast_def outcome_ok_def split: option.splits if_splits)
qed

lemma combine_project_total:
  assumes ok: "node_ok n [a]" and o: "e_op n = ''project''" and c: "ev_sound C a c" and v: "ev_value c = Some v"
  shows "\<exists>r. combine_project n c v = Inr r \<and> outcome_ok C (e_width n) r"
proof -
  have wd: "1 \<le> e_width n" "e_width n \<le> max_width" using checks_width [OF ok] by auto
  have b: "bits_ok v" "int (length v) = xwidth a" using ev_soundD [OF c v] by auto
  have p: "int (length (e_bits n)) = e_width n" "\<forall>i \<in> set (e_bits n). 0 \<le> i \<and> i < int (length v)"
    using checks_project [OF ok o] b(2) by auto
  define ps where "ps = map nat (e_bits n)"
  have ps: "\<forall>i \<in> set ps. i < length v" using p(2) by (auto simp: ps_def nat_less_iff)
  have m: "mapM (py_index u) (e_bits n) = Inr (map ((!) u) ps)" if "length u = length v" for u :: "'x list"
    unfolding ps_def map_map using p(2) that by (intro mapM_Inr_map) (auto simp: py_index_def)
  have bo: "bits_ok (map ((!) v) ps)"
    using ps p(1) wd bits_ok_nth [OF b(1)] by (auto simp: bits_ok_def ps_def)
  show ?thesis
  proof (cases "ev_ref c")
    case None
    then show ?thesis using m [of v] bo by (simp add: combine_project_def)
  next
    case (Some sb)
    obtain s bs where sb: "sb = (s, bs)" by (cases sb)
    have cs: "C s bs v" using ev_soundD(3) [OF c v] Some sb by blast
    show ?thesis
      using m [of v] m [of bs] C_length [OF cs] C_pick [OF cs ps] bo Some sb
      by (simp add: combine_project_def outcome_ok_def)
  qed
qed

lemma combine_total:
  assumes g: "xgood N (Expr n xs)" and a: "args_ok C xs cs"
  shows "\<exists>r. combine n xs cs = Inr r \<and> outcome_ok C (e_width n) r"
proof -
  note ok = xgood_ok [OF g]
  have ty: "node_typed n xs" using g by (simp add: xgood_Expr)
  have wd: "1 \<le> e_width n" "e_width n \<le> max_width" using checks_width [OF ok] by auto
  have len: "length cs = length xs" using a by (auto simp: args_ok_def list_all2_lengthD)
  let ?full = "all_some (map ev_value cs)"
  consider (un) "e_op n = ''unsupported''" | (nt) "e_op n = ''not''" | (ao) "e_op n = ''and'' \<or> e_op n = ''or''"
    | (eq) "e_op n = ''eq'' \<or> e_op n = ''ne''" | (cc) "e_op n = ''concat''" | (ca) "e_op n = ''cast''"
    | (pr) "e_op n = ''project''"
    | (op) "e_op n \<noteq> ''unsupported''" "e_op n \<noteq> ''not''" "e_op n \<noteq> ''and''" "e_op n \<noteq> ''or''"
        "e_op n \<noteq> ''eq''" "e_op n \<noteq> ''ne''" "e_op n \<noteq> ''concat''" "e_op n \<noteq> ''cast''" "e_op n \<noteq> ''project''"
    by blast
  then show ?thesis
  proof cases
    case un
    then show ?thesis by (simp add: combine_def)
  next
    case nt
    have "length cs = 1" using checks_arity(1) [OF ok] nt len by (simp add: base_arity_def)
    then obtain c where c: "cs = [c]" by (cases cs) auto
    obtain x where x: "ev_sound C x c" using args_ok_elem [OF a] c by auto
    show ?thesis
    proof (cases "ev_value c")
      case None
      then show ?thesis using nt c by (simp add: combine_def)
    next
      case (Some v)
      have v: "bits_ok v" using ev_soundD(1) [OF x Some] .
      obtain r where "unary ''!'' \<lparr>vbits = v, vsigned = False\<rparr> = Inr r" "bits_ok (vbits r)"
        using unary_typed [OF bits_ok_Value [OF v], of "''!''" False] by (auto simp: value_ok_def)
      then show ?thesis using nt c Some v by (simp add: combine_def)
    qed
  next
    case ao
    have "length cs = 2" using checks_arity(1) [OF ok] ao len by (auto simp: base_arity_def)
    then obtain c d where cd: "cs = [c, d]" using length2 by blast
    obtain x y where xy: "ev_sound C x c" "ev_sound C y d" using args_ok_elem [OF a] cd by force
    have "\<exists>r. combine_and_or (e_op n) cs = Inr r \<and> outcome_ok C (e_width n) r"
    proof (cases ?full)
      case False
      then show ?thesis by (simp add: combine_and_or_def Let_def)
    next
      case True
      then obtain u v where uv: "ev_value c = Some u" "ev_value d = Some v"
        using cd by (auto simp: all_some_def)
      have b: "bits_ok u" "bits_ok v" using ev_soundD(1) xy uv by blast+
      have l: "(if e_op n = ''and'' then ''&&'' else ''||'') \<in> set COMPARISONS \<or>
        (if e_op n = ''and'' then ''&&'' else ''||'') \<in> set LOGICAL" by (simp add: LOGICAL_def)
      obtain r where "binary (if e_op n = ''and'' then ''&&'' else ''||'') \<lparr>vbits = u, vsigned = False\<rparr>
          \<lparr>vbits = v, vsigned = False\<rparr> None = Inr r" "bits_ok (vbits r)"
        using binary_None_typed [OF b l] by blast
      then show ?thesis using True cd uv b by (simp add: combine_and_or_def Let_def)
    qed
    then show ?thesis using ao by (auto simp: combine_def)
  next
    case eq
    have "length xs = 2" using checks_arity(1) [OF ok] eq by (auto simp: base_arity_def)
    then obtain p q where pq: "xs = [p, q]" using length2 by blast
    then obtain c d where cd: "cs = [c, d]" using a by (auto simp: args_ok_def list_all2_Cons1)
    have "\<exists>r. combine_equality (e_op n) xs cs = Inr r \<and> outcome_ok C (e_width n) r"
    proof (cases "xwidth p \<noteq> xwidth q \<or> e_signed (enode_of p) \<noteq> e_signed (enode_of q) \<or> \<not> ?full")
      case True
      then show ?thesis by (auto simp: combine_equality_def pq)
    next
      case False
      then obtain u v where uv: "ev_value c = Some u" "ev_value d = Some v"
        using cd by (auto simp: all_some_def)
      have b: "bits_ok u" "bits_ok v" using a uv pq cd ev_soundD(1) by (auto simp: args_ok_def)
      have l: "(if e_op n = ''eq'' then ''=='' else ''!='') \<in> set COMPARISONS \<or>
        (if e_op n = ''eq'' then ''=='' else ''!='') \<in> set LOGICAL" by (simp add: COMPARISONS_def)
      obtain r where "binary (if e_op n = ''eq'' then ''=='' else ''!='') \<lparr>vbits = u, vsigned = e_signed (enode_of p)\<rparr>
          \<lparr>vbits = v, vsigned = e_signed (enode_of q)\<rparr> None = Inr r" "bits_ok (vbits r)"
        using binary_None_typed [OF b l] by blast
      then show ?thesis
        using False cd pq uv b by (simp add: combine_equality_def operand_values_def)
    qed
    then show ?thesis using eq by (auto simp: combine_def)
  next
    case cc
    show ?thesis
    proof (cases ?full)
      case False
      then show ?thesis using cc by (simp add: combine_def)
    next
      case True
      have "bits_ok (concat (map (\<lambda>c. the (ev_value c)) cs))"
        if "int (length (concat (map (\<lambda>c. the (ev_value c)) cs))) = e_width n"
        using concat_bits [OF a True] that wd unfolding bits_ok_def
        by (metis length_0_conv not_one_le_zero of_nat_0)
      then show ?thesis
        using True cc joined_reference_reads [OF a True] by (simp add: combine_def outcome_ok_def)
    qed
  next
    case ca
    have "length xs = 1" using checks_arity(1) [OF ok] ca by (simp add: base_arity_def)
    then obtain p where p: "xs = [p]" by (cases xs) auto
    then obtain c where c: "cs = [c]" "ev_sound C p c" using a by (auto simp: args_ok_def list_all2_Cons1)
    show ?thesis
    proof (cases "ev_value c")
      case None
      then show ?thesis using ca c by (simp add: combine_def all_some_def)
    next
      case (Some v)
      then show ?thesis using ca c p combine_cast_total [of n p c v] ok by (simp add: combine_def)
    qed
  next
    case pr
    have "length xs = 1"
      using checks_arity(2) [OF ok] pr
      by (simp add: count_arity_def BINARY_def COMPARISONS_def LOGICAL_def LEFT_TYPED_def)
    then obtain p where p: "xs = [p]" by (cases xs) auto
    then obtain c where c: "cs = [c]" "ev_sound C p c" using a by (auto simp: args_ok_def list_all2_Cons1)
    show ?thesis
    proof (cases "ev_value c")
      case None
      then show ?thesis using pr c by (simp add: combine_def all_some_def)
    next
      case (Some v)
      then show ?thesis using pr c p combine_project_total [of n p c v] ok by (simp add: combine_def)
    qed
  next
    case op
    show ?thesis
    proof (cases ?full)
      case False
      then show ?thesis using op by (simp add: combine_def)
    next
      case True
      then show ?thesis using op combine_operands_total [OF ok ty a True] by (simp add: combine_def)
    qed
  qed
qed

section \<open>The induction\<close>

lemma walk_operands_sound:
  assumes w: "good_walker C N w" and g: "xgood N (Expr n xs)" and o: "e_op n \<noteq> ''const''"
  shows "\<exists>ev b'. walk_operands w (Expr n xs) use b = Inr (ev, b') \<and> ev_sound C (Expr n xs) ev"
proof -
  have "\<exists>ev s'. (\<lambda>(i, a) s. w a (child_role (e_op n) use i) s) x s = Inr (ev, s') \<and> ev_sound C (snd x) ev"
    if x: "x \<in> set (enumerate 0 xs)" for x s
  proof -
    obtain i a where ia: "x = (i, a)" by (cases x)
    have "a \<in> set xs" using x ia by (auto simp: in_set_enumerate_eq)
    then obtain ev s' where "w a (child_role (e_op n) use i) s = Inr (ev, s')" "ev_sound C a ev"
      using good_walkerE [OF w xgood_args [OF g]] by metis
    then show ?thesis using ia by simp
  qed
  then obtain cs b1 where m: "mapMS (\<lambda>(i, a) s. w a (child_role (e_op n) use i) s) (enumerate 0 xs) b = Inr (cs, b1)"
    and l: "list_all2 (\<lambda>x. ev_sound C (snd x)) (enumerate 0 xs) cs"
    using mapMS_total [of "enumerate 0 xs" _ "\<lambda>x. ev_sound C (snd x)" b] by blast
  have "args_ok C (map snd (enumerate 0 xs)) cs"
    using l by (simp only: args_ok_def list_all2_map1)
  then have a: "args_ok C xs cs" by simp
  obtain v ref gs where r: "combine n xs cs = Inr (v, ref, gs)" "outcome_ok C (e_width n) (v, ref, gs)"
    using combine_total [OF g a] by (metis prod_cases3)
  show ?thesis
    using r(2) o by (auto simp: walk_operands_def m r(1) Let_def ev_sound_ref outcome_ok_def split: option.splits if_splits)
qed

lemma walk_step_sound:
  assumes s: "smp_ok C N smp" and w: "good_walker C N w" and t: "good_targeter N tgt" and g: "xgood N (Expr n xs)"
  shows "\<exists>ev b'. walk_step smp w tgt (Expr n xs) use b = Inr (ev, b') \<and> ev_sound C (Expr n xs) ev"
proof -
  note ok = xgood_ok [OF g]
  consider (c) "e_op n = ''const''" | (d) "e_op n = ''dimension''" | (s) "e_op n = ''signal''"
    | (as) "e_op n = ''array_select''" | (ar) "e_op n = ''array'' \<or> e_op n = ''array_ref''"
    | (lg) "e_op n \<in> set LOGICAL" | (mx) "e_op n = ''mux''"
    | (sl) "e_op n = ''select'' \<or> e_op n = ''part_up'' \<or> e_op n = ''part_down''" | (ins) "e_op n = ''inside''"
    | (op) "e_op n \<noteq> ''const''" "e_op n \<noteq> ''dimension''" "e_op n \<noteq> ''signal''" "e_op n \<noteq> ''array_select''"
        "e_op n \<noteq> ''array''" "e_op n \<noteq> ''array_ref''" "e_op n \<notin> set LOGICAL" "e_op n \<noteq> ''mux''"
        "e_op n \<noteq> ''select''" "e_op n \<noteq> ''part_up''" "e_op n \<noteq> ''part_down''" "e_op n \<noteq> ''inside''"
    by blast
  then show ?thesis
  proof cases
    case c
    then show ?thesis using checks_const [OF ok c] by (auto simp: walk_step_def ev_sound_def)
  next
    case d
    then show ?thesis using walk_dimension_sound [OF w g d] by (simp add: walk_step_def)
  next
    case s
    have "N n" using g by (simp add: xgood_Expr)
    then show ?thesis using walk_signal_sound [OF assms(1) ok _ s, of use] s by (auto simp: walk_step_def)
  next
    case as
    then show ?thesis using walk_array_select_sound [OF w t g as] by (simp add: walk_step_def)
  next
    case ar
    then show ?thesis by (auto simp: walk_step_def ev_sound_noref)
  next
    case lg
    then show ?thesis using walk_logical_sound [OF w g lg] by (auto simp: walk_step_def LOGICAL_def)
  next
    case mx
    then show ?thesis using walk_mux_sound [OF w g mx] by (simp add: walk_step_def LOGICAL_def)
  next
    case sl
    then show ?thesis using walk_select_sound [OF N_stable w g, of use b] by (auto simp: walk_step_def LOGICAL_def)
  next
    case ins
    then show ?thesis using walk_inside_sound [OF w g ins] by (simp add: walk_step_def LOGICAL_def)
  next
    case op
    then show ?thesis using walk_operands_sound [OF w g op(1), of use b] by (simp add: walk_step_def)
  qed
qed

lemma walk_good:
  assumes s: "smp_ok C N smp"
  shows "good_walker C N (walk r smp) \<and> good_targeter N (array_target r smp)"
proof (induction r)
  case 0
  show ?case by (simp add: good_walker_def good_targeter_iff)
next
  case (Suc r)
  have "\<exists>ev b'. walk (Suc r) smp e use b = Inr (ev, b') \<and> ev_sound C e ev" if "xgood N e" for e use b
    using walk_step_sound [OF s Suc.IH [THEN conjunct1] Suc.IH [THEN conjunct2], of "enode_of e" "eargs e" use "b - 1"] that
    by simp
  moreover have "\<exists>t h b'. array_target (Suc r) smp e use b = Inr ((t, h), b') \<and> ev_ref h = None \<and>
         (\<forall>v. ev_value h = Some v \<longrightarrow> bits_ok v \<and> int (length v) = xwidth e) \<and>
         (\<forall>a. t = Some a \<longrightarrow> target_ok N k (xwidth e) a)" if "xgood N e" "indexable k e" for e use b k
    using target_step_sound [OF N_stable Suc.IH [THEN conjunct1] Suc.IH [THEN conjunct2] that, of use "b - 1"] by simp
  ultimately show ?case unfolding good_walker_def good_targeter_iff by blast
qed

lemma evaluate_good:
  assumes "smp_ok C N smp" "xgood N e"
  shows "\<exists>ev. evaluate e smp role = Inr ev \<and> ev_sound C e ev"
proof -
  obtain ev b' where "walk (Suc MAX_EXPR_DEPTH) smp e role MAX_EXPR_NODES = Inr (ev, b')" "ev_sound C e ev"
    using good_walkerE [OF walk_good [OF assms(1), THEN conjunct1] assms(2)] .
  then show ?thesis by (simp add: evaluate_def del: walk.simps)
qed

end

section \<open>The two readings\<close>


definition aligned :: reading_rel where
  "aligned s bs v \<longleftrightarrow> length bs = length v"





interpretation aligned_reading: reading aligned "\<lambda>_. True"
  by unfold_locales (auto simp: aligned_def stable_def)


lemma all_nodes_True [simp]: "all_nodes (\<lambda>_. True) e"
  by (induction e) simp

definition gaps_typed :: "sampler \<Rightarrow> bool" where
  "gaps_typed smp \<longleftrightarrow> (\<forall>n. \<exists>gs. typed_field (as_list as_str) (Some []) (smp n) ''gaps'' = Inr gs)"


lemma aligned_sampler:
  assumes "gaps_typed smp" shows "smp_ok aligned (\<lambda>_. True) smp"
  unfolding smp_ok_def
proof (intro allI impI conjI)
  fix n assume n: "node_ok n [] \<and> True \<and> e_op n = ''signal''"
  show "\<exists>gs. typed_field (as_list as_str) (Some []) (smp n) ''gaps'' = Inr gs"
    using assms by (simp add: gaps_typed_def)
  fix s v assume v: "e_signal n = Some s \<and> bit_value (fact_value (smp n)) (Some (e_width n)) = Some v"
  have "int (length v) = e_width n" using bit_value_shape v by blast
  moreover have "int (length (e_bits n)) = e_width n" using checks_signal n by blast
  ultimately have "length (e_bits n) = length v" by linarith
  then show "aligned s (e_bits n) (if e_two_state n then two_state_bits v else v)"
    by (simp add: aligned_def)
qed



section \<open>The traversal of expression\_gaps\<close>

fun unsupported_reasons :: "expr \<Rightarrow> string list" where
  "unsupported_reasons (Expr n xs) =
     (if e_op n = ''unsupported'' then [reason_or_default n] else []) @ concat (map unsupported_reasons (rev xs))"

lemma expr_nodes_nonzero: "(expr_nodes e = 0) = False"
  using expr_nodes_pos [of e] by simp

lemma depth_step:
  "d + expr_depth (Expr n xs) \<le> MAX_EXPR_DEPTH \<longleftrightarrow>
     d \<le> MAX_EXPR_DEPTH \<and> (\<forall>x \<in> set xs. Suc d + expr_depth x \<le> MAX_EXPR_DEPTH)"
proof -
  have "foldr (\<lambda>x m. max (Suc (f x)) m) xs 0 \<le> m \<longleftrightarrow> (\<forall>x \<in> set xs. Suc (f x) \<le> m)" for m and f :: "expr \<Rightarrow> nat"
    by (induction xs) auto
  then have "d \<le> MAX_EXPR_DEPTH \<Longrightarrow> expr_depth (Expr n xs) \<le> MAX_EXPR_DEPTH - d \<longleftrightarrow>
      (\<forall>x \<in> set xs. Suc (expr_depth x) \<le> MAX_EXPR_DEPTH - d)" by simp
  then show ?thesis by (cases "d \<le> MAX_EXPR_DEPTH") (auto simp: le_diff_conv2 simp del: expr_depth.simps)
qed

lemma gaps_loop_eq:
  "gaps_loop k ps acc =
     (if sum_list (map (expr_nodes \<circ> fst) ps) \<le> k \<and> (\<forall>(e, d) \<in> set ps. d + expr_depth e \<le> MAX_EXPR_DEPTH)
      then dedupe (acc @ concat (map (unsupported_reasons \<circ> fst) ps))
      else [''dynamic_expression_limit''])"
proof (induction k ps acc rule: gaps_loop.induct)
  case (1 k gaps)
  then show ?case by simp
next
  case (2 p ps gaps)
  show ?case by (simp add: expr_nodes_nonzero)
next
  case (3 k e d ps gaps)
  obtain n xs where e: "e = Expr n xs" by (cases e)
  show ?case
  proof (cases "d > MAX_EXPR_DEPTH")
    case True
    then show ?thesis by simp
  next
    case False
    have u: "rev (map (\<lambda>a. (a, d + 1)) xs) @ ps = map (\<lambda>a. (a, Suc d)) (rev xs) @ ps" by (simp add: rev_map)
    have s: "sum_list (map expr_nodes (rev xs)) = sum_list (map expr_nodes xs)"
      unfolding rev_map [symmetric] by (rule sum_list_rev)
    have b: "(\<forall>(e', d') \<in> set (map (\<lambda>a. (a, Suc d)) (rev xs) @ ps). d' + expr_depth e' \<le> MAX_EXPR_DEPTH) \<longleftrightarrow>
      (\<forall>(e', d') \<in> set ((e, d) # ps). d' + expr_depth e' \<le> MAX_EXPR_DEPTH)"
      using depth_step [of d n xs] False by (simp add: e ball_Un del: expr_depth.simps)
    have c: "sum_list (map (expr_nodes \<circ> fst) (map (\<lambda>a. (a, Suc d)) (rev xs) @ ps)) \<le> k \<longleftrightarrow>
      sum_list (map (expr_nodes \<circ> fst) ((e, d) # ps)) \<le> Suc k"
      using s by (simp add: e comp_def)
    show ?thesis
      using 3 False unfolding gaps_loop.simps e expr.sel u
      by (simp only: b c [unfolded e] if_False not_less) (simp add: e comp_def b [unfolded e])
  qed
qed

section \<open>Properties\<close>

text \<open>C8. \<open>Expr.from_dict\<close> is the inverse of \<open>asdict\<close> exactly up to the documented limits: the JSON
  form of an expression whose nodes all passed \<open>__post_init__\<close> decodes to that very expression if
  it has at most 256 nodes and depth at most 32, and is rejected otherwise.\<close>

theorem expr_json_roundtrip:
  assumes "expr_ok e"
  shows "expr_from_dict (expr_to_json e) = Inr e' \<longleftrightarrow>
     e' = e \<and> int (expr_nodes e) \<le> MAX_EXPR_NODES \<and> expr_depth e \<le> MAX_EXPR_DEPTH"
proof
  assume r: "expr_from_dict (expr_to_json e) = Inr e'"
  then obtain b' where "expr_from_dict_at (Suc MAX_EXPR_DEPTH) (expr_to_json e) MAX_EXPR_NODES = Inr (e', b')"
    by (auto simp: expr_from_dict_def err_simps simp del: expr_from_dict_at.simps)
  then have "e' = e" by (rule from_dict_at_inv)
  then show "e' = e \<and> int (expr_nodes e) \<le> MAX_EXPR_NODES \<and> expr_depth e \<le> MAX_EXPR_DEPTH"
    using from_dict_sound [OF r] by (simp add: expr_limits_def)
next
  assume "e' = e \<and> int (expr_nodes e) \<le> MAX_EXPR_NODES \<and> expr_depth e \<le> MAX_EXPR_DEPTH"
  then show "expr_from_dict (expr_to_json e) = Inr e'"
    using from_dict_complete [OF assms] by (simp add: expr_limits_def)
qed

text \<open>A two-node expression for the witnesses: the negation of bit 1 of a declared signal.\<close>

definition sample_signal :: enode where
  "sample_signal = (enode0 ''signal'' 2)\<lparr>e_signal := Some ''top.a'', e_bits := [1, 0], e_declared := [1, 0]\<rparr>"

definition sample_expr :: expr where
  "sample_expr = Expr (enode0 ''~'' 2) [Expr sample_signal []]"

lemma sample_expr_ok: "expr_ok sample_expr"
  by code_simp

lemma sample_expr_good: "expr_good sample_expr"
  unfolding expr_good_def by code_simp

theorem expr_json_roundtrip_witness:
  "expr_from_dict (expr_to_json sample_expr) = Inr sample_expr"
proof -
  have "int (expr_nodes sample_expr) \<le> MAX_EXPR_NODES \<and> expr_depth sample_expr \<le> MAX_EXPR_DEPTH" by code_simp
  then show ?thesis using expr_json_roundtrip [OF sample_expr_ok, of sample_expr] by simp
qed

text \<open>C25. Whatever \<open>Expr.from_dict\<close> accepts is valid: every node of the result satisfies all the
  checks of \<open>__post_init__\<close>, and the tree is within the node and depth limits, however deep or
  large the raw document is.\<close>

theorem expr_from_dict_valid:
  assumes "expr_from_dict raw = Inr e"
  shows "expr_ok e \<and> int (expr_nodes e) \<le> MAX_EXPR_NODES \<and> expr_depth e \<le> MAX_EXPR_DEPTH"
  using from_dict_sound [OF assms] by (simp add: expr_limits_def)

theorem expr_from_dict_valid_witness:
  "expr_ok (Expr ((enode0 ''const'' 1)\<lparr>e_value := Some ''x''\<rparr>) [])"
proof -
  have "expr_from_dict (JObj [(''op'', JStr ''const''), (''width'', JInt 1), (''value'', JStr ''x'')])
     = Inr (Expr ((enode0 ''const'' 1)\<lparr>e_value := Some ''x''\<rparr>) [])" by code_simp
  then show ?thesis using expr_from_dict_valid by blast
qed

text \<open>C26. Evaluation is total and typed: on an expression that passed \<open>__post_init__\<close> and that is
  typed the way the builders type it, \<open>evaluate\<close> returns normally for every sampler, and a value
  it returns has exactly the width of the expression and only the bits 0, 1, x and z.\<close>

theorem evaluate_typed:
  assumes "expr_good e" "gaps_typed smp"
  shows "\<exists>ev. evaluate e smp role = Inr ev \<and>
     (\<forall>v. ev_value ev = Some v \<longrightarrow> int (length v) = e_width (enode_of e) \<and> set v \<subseteq> {CHR ''0'', CHR ''1'', CHR ''x'', CHR ''z''})"
proof -
  obtain ev where ev: "evaluate e smp role = Inr ev" "ev_sound aligned e ev"
    using aligned_reading.evaluate_good [OF aligned_sampler [OF assms(2)], of e] assms(1)
    by (auto simp: xgood_def)
  have "set v \<subseteq> {CHR ''0'', CHR ''1'', CHR ''x'', CHR ''z''}" if "bits_ok v" for v
    using that by (auto simp: bits_ok_def is_bit_def)
  then show ?thesis using ev ev_soundD by blast
qed

definition sample_facts :: sampler where
  "sample_facts n = [(''value'', JStr ''0b1x'')]"

lemma sample_facts_gaps: "gaps_typed sample_facts"
  by (simp add: gaps_typed_def sample_facts_def typed_field_def)

theorem evaluate_typed_witness:
  "map_option ev_value (case evaluate sample_expr sample_facts ''data'' of Inr ev \<Rightarrow> Some ev | _ \<Rightarrow> None)
     = Some (Some ''0x'') \<and>
   (\<exists>ev. evaluate sample_expr sample_facts ''data'' = Inr ev)"
proof -
  have "map_option ev_value (case evaluate sample_expr sample_facts ''data'' of Inr ev \<Rightarrow> Some ev | _ \<Rightarrow> None)
     = Some (Some ''0x'')" by code_simp
  then show ?thesis using evaluate_typed [OF sample_expr_good sample_facts_gaps, of "''data''"] by blast
qed










text \<open>\<open>expression_gaps\<close> reports exactly the reasons of the unsupported nodes, each once, for
  every expression within the limits, and only the limit for any other: the early exit of its
  work list depends on the size and depth of the expression, not on the order of the traversal.\<close>

theorem expression_gaps_exact:
  "expression_gaps e =
     (if int (expr_nodes e) \<le> MAX_EXPR_NODES \<and> expr_depth e \<le> MAX_EXPR_DEPTH
      then dedupe (unsupported_reasons e) else [''dynamic_expression_limit''])"
  by (simp add: expression_gaps_def gaps_loop_eq MAX_EXPR_NODES_def)

end
