(* ===== verification/Dyn_Step.thy ===== *)
theory Dyn_Step
  imports Dyn_Eval_Laws
begin

text \<open>
  The boundary around expressions: \<open>select_expression\<close> of src/src/dynamic_selection.py, which
  narrows an expression to some of its bits, and \<open>validate_step\<close> of
  src/src/dynamic_evidence.py, which checks a step received as JSON before it is used.
\<close>

section \<open>select\_expression\<close>

text \<open>
  \<open>groupby\<close> on \<open>id(p[0])\<close> groups neighbours that are the same object. The identity of an object
  is not visible in a value, so the identity of the i-th argument is a parameter \<open>ident\<close> of the
  model; it only needs to keep different arguments apart.
\<close>

fun group_pieces :: "(nat \<times> expr \<times> int) list \<Rightarrow> (nat \<times> expr \<times> int list) list" where
  "group_pieces [] = []"
| "group_pieces ((k, c, i) # ps) = (case group_pieces ps of
     (k', c', is') # gs \<Rightarrow> if k = k' then (k, c, i # is') # gs else (k, c, [i]) # (k', c', is') # gs
   | [] \<Rightarrow> [(k, c, [i])])"

definition bit_range :: "int \<Rightarrow> int \<Rightarrow> int list" where
  "bit_range lo hi = map (\<lambda>k. lo + int k) [0..<nat (hi - lo)]"

definition concat_pieces :: "(expr list \<Rightarrow> nat \<Rightarrow> nat) \<Rightarrow> expr list \<Rightarrow> (nat \<times> expr \<times> int) list" where
  "concat_pieces ident xs =
     concat (map (\<lambda>(j, c). map (\<lambda>i. (ident xs j, c, i)) (bit_range 0 (e_width (enode_of c)))) (enumerate 0 xs))"

definition zero_bit :: expr where
  "zero_bit = Expr ((enode0 ''const'' 1)\<lparr>e_value := Some ''0''\<rparr>) []"

definition cast_pieces :: "int \<Rightarrow> expr \<Rightarrow> (nat \<times> expr \<times> int) list" where
  "cast_pieces w c =
     (let cw = e_width (enode_of c) in
      if w \<le> cw then map (\<lambda>i. (0, c, i)) (bit_range (cw - w) cw)
      else let pad = (if e_signed (enode_of c) then (0, c, 0) else (1, zero_bit, 0))
           in replicate (nat (w - cw)) pad @ map (\<lambda>i. (0, c, i)) (bit_range 0 cw))"

definition limited :: "string \<Rightarrow> int list \<Rightarrow> expr result" where
  "limited why ps = mk_expr ((enode0 ''unsupported'' (int (length ps)))\<lparr>e_reason := Some why\<rparr>) []"

type_synonym selector = "expr \<Rightarrow> int list \<Rightarrow> int \<Rightarrow> (expr \<times> int) result"

definition select_pieces ::
  "selector \<Rightarrow> (nat \<times> expr \<times> int) list \<Rightarrow> int \<Rightarrow> int list \<Rightarrow> int \<Rightarrow> (expr \<times> int) result"
where
  "select_pieces sel pieces w ps b =
     (if int (length pieces) \<noteq> w
      then ebind (limited ''dynamic_bit_mapping_unavailable'' ps) (\<lambda>e. Inr (e, b))
      else
        ebind (mapM (py_index pieces) ps) (\<lambda>picked.
        ebind (mapMS (\<lambda>(k, c, is') s. sel c is' s) (group_pieces picked) b) (\<lambda>(gs, b').
        ebind (mk_expr (enode0 ''concat'' (int (length ps))) gs) (\<lambda>e. Inr (e, b')))))"

definition select_step :: "(expr list \<Rightarrow> nat \<Rightarrow> nat) \<Rightarrow> selector \<Rightarrow> selector" where
  "select_step ident sel e ps b =
     (let n = enode_of e; w = e_width n; k = int (length ps); opr = e_op n in
      if ps = [] \<or> list_ex (\<lambda>i. i < 0 \<or> i \<ge> w) ps then Inl (ValueError ''dynamic_bit_mapping_unavailable'')
      else if ps = bit_range 0 w then Inr (e, b)
      else if opr = ''signal'' then
        ebind (mapM (py_index (e_bits n)) ps) (\<lambda>bs.
        ebind (mk_expr (n\<lparr>e_width := k, e_bits := bs\<rparr>) (eargs e)) (\<lambda>r. Inr (r, b)))
      else if opr = ''const'' then
        ebind (mapM (py_index (case e_value n of None \<Rightarrow> [] | Some v \<Rightarrow> v)) ps) (\<lambda>cs.
        ebind (mk_expr (n\<lparr>e_width := k, e_value := Some cs\<rparr>) (eargs e)) (\<lambda>r. Inr (r, b)))
      else if opr = ''mux'' \<and> list_all (\<lambda>a. e_width (enode_of a) = w) (drop 1 (eargs e)) then
        ebind (py_index (eargs e) 0) (\<lambda>c.
        ebind (mapMS (\<lambda>a s. sel a ps s) (drop 1 (eargs e)) b) (\<lambda>(ys, b').
        ebind (mk_expr (n\<lparr>e_width := k\<rparr>) (c # ys)) (\<lambda>r. Inr (r, b'))))
      else if opr = ''concat'' \<and> \<not> e_two_state n then
        select_pieces sel (concat_pieces ident (eargs e)) w ps b
      else if opr = ''cast'' \<and> \<not> e_two_state n then
        ebind (py_index (eargs e) 0) (\<lambda>c. select_pieces sel (cast_pieces w c) w ps b)
      else ebind (mk_expr ((enode0 ''project'' k)\<lparr>e_bits := ps\<rparr>) [e]) (\<lambda>r. Inr (r, b)))"

primrec select_at :: "nat \<Rightarrow> (expr list \<Rightarrow> nat \<Rightarrow> nat) \<Rightarrow> selector" where
  "select_at 0 ident e ps b = ebind (limited ''dynamic_expression_limit'' ps) (\<lambda>r. Inr (r, b - 1))"
| "select_at (Suc r) ident e ps b =
     (if b - 1 < 0 then ebind (limited ''dynamic_expression_limit'' ps) (\<lambda>r. Inr (r, b - 1))
      else select_step ident (select_at r ident) e ps (b - 1))"

definition select_expression :: "(expr list \<Rightarrow> nat \<Rightarrow> nat) \<Rightarrow> expr \<Rightarrow> int list \<Rightarrow> expr result" where
  "select_expression ident e ps =
     ebind (select_at (Suc MAX_EXPR_DEPTH) ident e ps MAX_EXPR_NODES) (\<lambda>(r, _). Inr r)"

section \<open>validate\_step\<close>

definition DYNAMIC_VERSION :: string where
  "DYNAMIC_VERSION = ''2.0''"

text \<open>\<open>x in {...}\<close> for a set of strings (a list or dict is not hashable), and \<open>s in x\<close>.\<close>

definition py_in_strs :: "json \<Rightarrow> string list \<Rightarrow> bool result" where
  "py_in_strs x ss = (case x of JArr _ \<Rightarrow> Inl TypeError | JObj _ \<Rightarrow> Inl TypeError
     | _ \<Rightarrow> Inr (list_ex (\<lambda>s. x = JStr s) ss))"

fun infix_of :: "string \<Rightarrow> string \<Rightarrow> bool" where
  "infix_of s [] \<longleftrightarrow> s = []"
| "infix_of s (c # cs) \<longleftrightarrow> starts_with s (c # cs) \<or> infix_of s cs"

definition py_contains :: "string \<Rightarrow> json \<Rightarrow> bool result" where
  "py_contains s x = (case x of
     JArr xs \<Rightarrow> Inr (list_ex (\<lambda>j. j = JStr s) xs)
   | JObj kvs \<Rightarrow> Inr (list_ex (\<lambda>(k, _). k = s) kvs)
   | JStr t \<Rightarrow> Inr (infix_of s t)
   | _ \<Rightarrow> Inl TypeError)"

definition py_len :: "json \<Rightarrow> nat result" where
  "py_len x = (case x of JArr xs \<Rightarrow> Inr (length xs) | JObj kvs \<Rightarrow> Inr (length kvs)
     | JStr s \<Rightarrow> Inr (length s) | _ \<Rightarrow> Inl TypeError)"

definition as_number :: "json \<Rightarrow> json" where
  "as_number j = (case j of JBool b \<Rightarrow> JInt (of_bool b) | _ \<Rightarrow> j)"

definition check_branch :: "json \<Rightarrow> unit result" where
  "check_branch br =
     ebind (py_getitem br ''guard'') (\<lambda>g. ebind (expr_from_dict g) (\<lambda>_.
     ebind (py_getitem br ''value'') (\<lambda>v. ebind (expr_from_dict v) (\<lambda>_. Inr ()))))"

definition check_state :: "json \<Rightarrow> unit result" where
  "check_state raw =
     ebind (py_get raw ''state'' JNull) (\<lambda>s.
     if \<not> py_bool s then Inr ()
     else
       ebind (expr_from_dict s) (\<lambda>e.
       if e_op (enode_of e) \<noteq> ''signal'' then Inl (ValueError ''dynamic_step_state_invalid'')
       else ebind (py_get raw ''bits'' (JArr [])) (\<lambda>bs. ebind (py_iter bs) (\<lambda>js.
         require (map as_number js = map JInt (e_bits (enode_of e))) (ValueError ''dynamic_step_state_invalid'')))))"

definition check_clock :: "json \<Rightarrow> unit result" where
  "check_clock raw =
     ebind (py_get raw ''clock'' JNull) (\<lambda>c.
     if \<not> py_bool c then Inr ()
     else
       ebind (py_getitem c ''expression'') (\<lambda>x. ebind (expr_from_dict x) (\<lambda>_.
       ebind (py_getitem c ''edge'') (\<lambda>ed. ebind (py_in_strs ed [''posedge'', ''negedge'']) (\<lambda>ok.
         require ok (ValueError ''dynamic_step_clock_invalid''))))))"

definition list_of_at_most :: "nat \<Rightarrow> string \<Rightarrow> json \<Rightarrow> json list result" where
  "list_of_at_most k msg x = (case x of
     JArr xs \<Rightarrow> if length xs > k then Inl (ValueError msg) else Inr xs
   | _ \<Rightarrow> Inl (ValueError msg))"

definition check_control :: "json \<Rightarrow> unit result" where
  "check_control ctl =
     ebind (py_getitem ctl ''expression'') (\<lambda>x. ebind (expr_from_dict x) (\<lambda>e.
     ebind (py_get ctl ''active_value'' JNull) (\<lambda>active.
     if e_op (enode_of e) \<noteq> ''signal'' \<or> e_width (enode_of e) \<noteq> 1
     then Inl (ValueError ''dynamic_async_controls_invalid'')
     else
       ebind (py_get ctl ''kind'' JNull) (\<lambda>kind. ebind (py_in_strs kind [''reset'', ''set'']) (\<lambda>k_ok.
       if \<not> k_ok then Inl (ValueError ''dynamic_async_controls_invalid'')
       else
         ebind (py_in_strs active [''0'', ''1'']) (\<lambda>a_ok.
         if \<not> a_ok then Inl (ValueError ''dynamic_async_controls_invalid'')
         else
           ebind (py_get ctl ''assertion_edge'' JNull) (\<lambda>ed.
             require (ed = JStr (if active = JStr ''1'' then ''posedge'' else ''negedge''))
               (ValueError ''dynamic_async_controls_invalid'')))))))) "

definition clock_expr :: "json \<Rightarrow> expr option result" where
  "clock_expr raw =
     ebind (py_get raw ''clock'' JNull) (\<lambda>c.
     if \<not> py_bool c then Inr None
     else ebind (py_getitem c ''expression'') (\<lambda>x. ebind (expr_from_dict x) (\<lambda>e. Inr (Some e))))"

definition check_controls :: "json \<Rightarrow> unit result" where
  "check_controls raw =
     ebind (py_get raw ''async_controls'' (JArr [])) (\<lambda>x.
     ebind (list_of_at_most 2 ''dynamic_async_controls_invalid'' x) (\<lambda>ctls.
     if ctls = [] then Inr ()
     else
       ebind (clock_expr raw) (\<lambda>clk.
       ebind (py_get raw ''boundary'' JNull) (\<lambda>bd.
       if bd \<noteq> JStr ''sequential'' then Inl (ValueError ''dynamic_async_controls_invalid'')
       else
         ebind (py_get raw ''complete'' JNull) (\<lambda>cm.
         if cm \<noteq> JBool False then Inl (ValueError ''dynamic_async_controls_invalid'')
         else
           ebind (py_get raw ''gaps'' (JArr [])) (\<lambda>gs.
           ebind (py_contains ''async_control_value_unmodeled'' gs) (\<lambda>has.
           if \<not> has \<or> (case clk of None \<Rightarrow> True
                | Some e \<Rightarrow> e_op (enode_of e) \<noteq> ''signal'' \<or> e_width (enode_of e) \<noteq> 1)
           then Inl (ValueError ''dynamic_async_controls_invalid'')
           else ebind (mapM check_control ctls) (\<lambda>_. Inr ())))))))) "

definition validate_step :: "json \<Rightarrow> json result" where
  "validate_step raw =
     ebind (py_get raw ''version'' JNull) (\<lambda>ver.
     if ver \<noteq> JStr DYNAMIC_VERSION then Inl (ValueError ''dynamic_step_version_invalid'')
     else
       ebind (py_get raw ''backend'' JNull) (\<lambda>be.
       ebind (py_in_strs be [''verdi_npi'', ''source_graph'', ''static'']) (\<lambda>be_ok.
       ebind (require be_ok (ValueError ''dynamic_step_version_invalid'')) (\<lambda>_.
       ebind (py_get raw ''boundary'' JNull) (\<lambda>bd.
       ebind (py_in_strs bd [''combinational'', ''sequential'', ''input'', ''constant'', ''unsupported'']) (\<lambda>bd_ok.
       ebind (require bd_ok (ValueError ''dynamic_step_boundary_invalid'')) (\<lambda>_.
       ebind (py_get raw ''branches'' (JArr [])) (\<lambda>brs.
       ebind (py_len brs) (\<lambda>nb.
       ebind (require (nb \<le> 64) (ValueError ''dynamic_step_branch_limit'')) (\<lambda>_.
       ebind (py_iter brs) (\<lambda>bl.
       ebind (mapM check_branch bl) (\<lambda>_.
       ebind (check_state raw) (\<lambda>_.
       ebind (check_clock raw) (\<lambda>_.
       ebind (py_get raw ''data_inputs'' (JArr [])) (\<lambda>di.
       ebind (list_of_at_most 1 ''dynamic_data_inputs_invalid'' di) (\<lambda>ds.
       ebind (mapM expr_from_dict ds) (\<lambda>_.
       ebind (check_controls raw) (\<lambda>_. Inr raw))))))))))))))))))"

end
