(* ===== verification/Dyn_Step_Claims.thy ===== *)
theory Dyn_Step_Claims
  imports Dyn_Step Dyn_Eval_Claims
begin

text \<open>
  Properties of \<open>select_expression\<close> and \<open>validate_step\<close>.
\<close>

section \<open>Pieces\<close>

lemma set_bit_range: "set (bit_range lo hi) = {lo..<hi}"
proof
  show "set (bit_range lo hi) \<subseteq> {lo..<hi}" by (auto simp: bit_range_def)
  show "{lo..<hi} \<subseteq> set (bit_range lo hi)"
  proof
    fix i assume "i \<in> {lo..<hi}"
    then have e: "lo + int (nat (i - lo)) = i" and m: "nat (i - lo) \<in> set [0..<nat (hi - lo)]" by auto
    have "lo + int (nat (i - lo)) \<in> set (bit_range lo hi)"
      unfolding bit_range_def set_map using m by (rule imageI)
    then show "i \<in> set (bit_range lo hi)" by (simp only: e)
  qed
qed

definition piece_ok :: "nat \<times> expr \<times> int \<Rightarrow> bool" where
  "piece_ok p \<longleftrightarrow> (case p of (k, c, i) \<Rightarrow> expr_ok c \<and> 0 \<le> i \<and> i < e_width (enode_of c))"

text \<open>Pieces with the same key come from the same expression.\<close>

definition keys_ok :: "(nat \<times> expr \<times> int) list \<Rightarrow> bool" where
  "keys_ok ps \<longleftrightarrow> (\<forall>p \<in> set ps. \<forall>q \<in> set ps. fst p = fst q \<longrightarrow> fst (snd p) = fst (snd q))"

definition group_ok :: "nat \<Rightarrow> nat \<times> expr \<times> int list \<Rightarrow> bool" where
  "group_ok m g \<longleftrightarrow> (case g of (k, c, js) \<Rightarrow> expr_ok c \<and> js \<noteq> [] \<and> length js \<le> m \<and>
     (\<forall>i \<in> set js. 0 \<le> i \<and> i < e_width (enode_of c)))"

lemma group_pieces_keys: "g \<in> set (group_pieces ps) \<Longrightarrow> \<exists>p \<in> set ps. fst p = fst g \<and> fst (snd p) = fst (snd g)"
proof (induction ps arbitrary: g)
  case Nil
  then show ?case by simp
next
  case (Cons p ps)
  obtain k c i where p: "p = (k, c, i)" by (cases p)
  have keep: "\<exists>q \<in> set (p # ps). fst q = fst g \<and> fst (snd q) = fst (snd g)" if "g \<in> set (group_pieces ps)"
    using Cons.IH [OF that] by auto
  have new: "\<exists>q \<in> set (p # ps). fst q = fst g \<and> fst (snd q) = fst (snd g)" if "fst g = k" "fst (snd g) = c"
    using that by (simp add: p)
  show ?case
  proof (cases "group_pieces ps")
    case Nil
    then show ?thesis using Cons.prems new by (simp add: p)
  next
    case (Cons h hs)
    obtain k' c' js where h: "h = (k', c', js)" by (cases h)
    have "g = (k, c, i # js) \<or> g = (k, c, [i]) \<or> g \<in> set (group_pieces ps)"
      using Cons.prems Cons by (auto simp: p h split: if_splits)
    then show ?thesis using new keep by auto
  qed
qed

lemma group_pieces_ok:
  "\<forall>p \<in> set ps. piece_ok p \<Longrightarrow> keys_ok ps \<Longrightarrow> \<forall>g \<in> set (group_pieces ps). group_ok (length ps) g"
proof (induction ps)
  case Nil
  then show ?case by simp
next
  case (Cons p ps)
  obtain k c i where p: "p = (k, c, i)" by (cases p)
  have pk: "expr_ok c" "0 \<le> i" "i < e_width (enode_of c)" using Cons.prems(1) by (auto simp: p piece_ok_def)
  have pm: "\<forall>p \<in> set ps. piece_ok p" using Cons.prems(1) by simp
  have km: "keys_ok ps" using Cons.prems(2) unfolding keys_ok_def by (meson list.set_intros(2))
  note IH = Cons.IH [OF pm km] and prem2 = Cons.prems(2)
  have up: "group_ok (Suc m) g" if "group_ok m g" for m g using that by (cases g) (simp add: group_ok_def)
  then have IH': "\<forall>g \<in> set (group_pieces ps). group_ok (Suc (length ps)) g" using IH by blast
  show ?case
  proof (cases "group_pieces ps")
    case Nil
    then show ?thesis using pk by (simp add: p group_ok_def)
  next
    case (Cons g gs)
    obtain k' c' js where g: "g = (k', c', js)" by (cases g)
    have gi: "g \<in> set (group_pieces ps)" using Cons by simp
    have gs: "\<forall>x \<in> set gs. group_ok (Suc (length ps)) x" and gg: "group_ok (length ps) g"
      "group_ok (Suc (length ps)) g" using IH IH' Cons by simp_all
    show ?thesis
    proof (cases "k = k'")
      case True
      obtain q where q: "q \<in> set ps" "fst q = k'" "fst (snd q) = c'"
        using group_pieces_keys [OF gi] g by auto
      have "c = c'" using prem2 q True unfolding keys_ok_def p by (metis fst_conv list.set_intros snd_conv)
      then have "group_ok (Suc (length ps)) (k, c, i # js)"
        using gg(1) pk g by (simp add: group_ok_def)
      then show ?thesis using gs True Cons g by (simp add: p)
    next
      case False
      have "group_ok (Suc (length ps)) (k, c, [i])" using pk by (simp add: group_ok_def)
      then show ?thesis using gs gg(2) False Cons g by (simp add: p)
    qed
  qed
qed

section \<open>Nodes built by select\_expression\<close>

lemma expr_ok_Expr: "expr_ok (Expr n xs) \<longleftrightarrow> node_ok n xs \<and> (\<forall>x \<in> set xs. expr_ok x)"
  by (simp add: node_ok_def)

lemmas node_simps = invalid_defs EXPR_OPS_def base_arity_def count_arity_def arity_fails_def no_value_def
  enode0_def BINARY_def COMPARISONS_def LOGICAL_def LEFT_TYPED_def

lemma node_ok_unsupported:
  "1 \<le> k \<Longrightarrow> k \<le> max_width \<Longrightarrow> node_ok ((enode0 ''unsupported'' k)\<lparr>e_reason := Some r\<rparr>) []"
  unfolding node_ok_iff by (simp add: node_simps max_width_def)

lemma node_ok_concat: "1 \<le> k \<Longrightarrow> k \<le> max_width \<Longrightarrow> node_ok (enode0 ''concat'' k) xs"
  unfolding node_ok_iff by (simp add: node_simps max_width_def)

lemma node_ok_project:
  assumes "ps \<noteq> []" "int (length ps) \<le> max_width" "\<forall>i \<in> set ps. 0 \<le> i \<and> i < e_width (enode_of e)"
  shows "node_ok ((enode0 ''project'' (int (length ps)))\<lparr>e_bits := ps\<rparr>) [e]"
proof -
  have "\<not> list_ex (\<lambda>i. \<not> (0 \<le> i \<and> i < e_width (enode_of e))) ps" using assms(3) by (auto simp: list_ex_iff)
  moreover have "1 \<le> int (length ps)" using assms(1) by (cases ps) auto
  ultimately show ?thesis using assms(2)
    unfolding node_ok_iff
    by (simp add: node_simps max_width_def starts_with.simps del: de_Morgan_conj not_less not_le)
qed

lemma dedupe_const: "s \<noteq> [] \<Longrightarrow> \<forall>c \<in> set s. c = d \<Longrightarrow> dedupe s = [d]"
proof -
  have "dedupe_from [d] t = []" if "\<forall>c \<in> set t. c = d" for t
    using that by (induction t) auto
  then show "s \<noteq> [] \<Longrightarrow> \<forall>c \<in> set s. c = d \<Longrightarrow> dedupe s = [d]"
    by (cases s) (auto simp: dedupe_def)
qed

lemma dedupe_single: "length (dedupe s) = 1 \<Longrightarrow> \<exists>d. \<forall>c \<in> set s. c = d"
proof -
  assume "length (dedupe s) = 1"
  then obtain d where "dedupe s = [d]" by (cases "dedupe s") auto
  then have "set s = {d}" by (metis set_dedupe list.set(1) list.set(2))
  then show ?thesis by blast
qed

lemma node_ok_const_update:
  assumes ok: "node_ok n xs" and o: "e_op n = ''const''" and v: "e_value n = Some v"
    and cs: "cs \<noteq> []" "set cs \<subseteq> set v" "int (length cs) \<le> max_width"
  shows "node_ok (n\<lparr>e_width := int (length cs), e_value := Some cs\<rparr>) xs"
proof -
  obtain v' where v': "e_value n = Some v'" "bits_ok v'" using checks_const [OF ok o] by blast
  have b: "c \<in> set ''01xz''" if "c \<in> set cs" for c
    using that cs(2) v v' by (auto simp: bits_ok_def is_bit_def)
  have c: "\<not> list_ex (\<lambda>c. c \<notin> set ''01xz'') cs" using b unfolding list_ex_iff by blast
  have f: "length (dedupe cs) = 1" if "e_fill n"
  proof -
    have "length (dedupe v) = 1" using ok that o v by (simp add: node_ok_iff fill_invalid_def)
    then obtain d where "\<forall>c \<in> set v. c = d" using dedupe_single by blast
    then have "\<forall>c \<in> set cs. c = d" using cs(2) by blast
    then show ?thesis using dedupe_const [OF cs(1), of d] by simp
  qed
  have w: "1 \<le> int (length cs)" using cs(1) by (cases cs) auto
  have ci: "\<not> const_invalid (n\<lparr>e_width := int (length cs), e_value := Some cs\<rparr>)"
    using c cs(1) unfolding const_invalid_def no_value_def by simp
  have fi: "\<not> fill_invalid (n\<lparr>e_width := int (length cs), e_value := Some cs\<rparr>)"
    using f o by (simp add: fill_invalid_def)
  show ?thesis
    using ok o w cs(3) ci fi unfolding node_ok_iff
    by (simp add: signal_invalid_def bounds_invalid_def project_invalid_def function_invalid_def
        dimension_invalid_def array_invalid_def dims_invalid_def array_ref_invalid_def select_invalid_def)
qed

lemma node_ok_mux_update:
  assumes "node_ok n xs" "e_op n = ''mux''" "1 \<le> k" "k \<le> max_width" "length ys = length xs"
  shows "node_ok (n\<lparr>e_width := k\<rparr>) ys"
  using assms unfolding node_ok_iff by (simp add: invalid_defs arity_fails_def split: option.splits)

section \<open>select\_expression\<close>

definition selects :: "selector \<Rightarrow> bool" where
  "selects sel \<longleftrightarrow> (\<forall>e ps b. expr_ok e \<and> ps \<noteq> [] \<and> int (length ps) \<le> max_width \<and>
      (\<forall>i \<in> set ps. 0 \<le> i \<and> i < e_width (enode_of e)) \<longrightarrow>
      (\<exists>r b'. sel e ps b = Inr (r, b') \<and> expr_ok r \<and> e_width (enode_of r) = int (length ps)))"

definition separates :: "(expr list \<Rightarrow> nat \<Rightarrow> nat) \<Rightarrow> bool" where
  "separates ident \<longleftrightarrow> (\<forall>xs i j. i < length xs \<and> j < length xs \<and> ident xs i = ident xs j \<longrightarrow> xs ! i = xs ! j)"

lemma limited_ok:
  "ps \<noteq> [] \<Longrightarrow> int (length ps) \<le> max_width \<Longrightarrow>
     \<exists>r. limited why ps = Inr r \<and> expr_ok r \<and> e_width (enode_of r) = int (length ps)"
  using node_ok_unsupported [of "int (length ps)" why] node_ok_mk
  by (cases ps) (auto simp: limited_def expr_ok_Expr enode0_def simp del: expr_ok.simps)

lemma select_pieces_ok:
  assumes sel: "selects sel" and ok: "\<forall>p \<in> set pieces. piece_ok p" and k: "keys_ok pieces"
    and ps: "ps \<noteq> []" "int (length ps) \<le> max_width" "\<forall>i \<in> set ps. 0 \<le> i \<and> i < w"
  shows "\<exists>r b'. select_pieces sel pieces w ps b = Inr (r, b') \<and> expr_ok r \<and> e_width (enode_of r) = int (length ps)"
proof (cases "int (length pieces) = w")
  case False
  obtain r where "limited ''dynamic_bit_mapping_unavailable'' ps = Inr r" "expr_ok r"
    "e_width (enode_of r) = int (length ps)" using limited_ok [OF ps(1,2)] by blast
  then show ?thesis using False by (simp add: select_pieces_def)
next
  case True
  define picked where "picked = map (\<lambda>i. pieces ! nat i) ps"
  have m: "mapM (py_index pieces) ps = Inr picked"
    unfolding picked_def using ps(3) True by (intro mapM_Inr_map) (simp add: py_index_def)
  have sub: "set picked \<subseteq> set pieces" using ps(3) True by (auto simp: picked_def)
  have "\<forall>p \<in> set picked. piece_ok p" "keys_ok picked" "length picked = length ps"
    using sub ok k unfolding keys_ok_def by (blast, blast, simp add: picked_def)
  then have g: "\<forall>g \<in> set (group_pieces picked). group_ok (length ps) g"
    using group_pieces_ok [of picked] by simp
  have "\<exists>ys b'. mapMS (\<lambda>(k, c, is') s. sel c is' s) (group_pieces picked) b = Inr (ys, b') \<and>
      list_all2 (\<lambda>_. expr_ok) (group_pieces picked) ys"
  proof (rule mapMS_total)
    fix x s assume "x \<in> set (group_pieces picked)"
    then have "group_ok (length ps) x" using g by blast
    then show "\<exists>y s'. (\<lambda>(k, c, is') s. sel c is' s) x s = Inr (y, s') \<and> expr_ok y"
      using sel ps(2) unfolding selects_def group_ok_def by (cases x) fastforce
  qed
  then obtain ys b' where ys: "mapMS (\<lambda>(k, c, is') s. sel c is' s) (group_pieces picked) b = Inr (ys, b')"
    "list_all2 (\<lambda>_. expr_ok) (group_pieces picked) ys" by blast
  have all: "\<forall>y \<in> set ys. expr_ok y" using ys(2) by (metis in_set_conv_nth list_all2_conv_all_nth)
  have "1 \<le> int (length ps)" using ps(1) by (cases ps) auto
  then have n: "node_ok (enode0 ''concat'' (int (length ps))) ys" using ps(2) by (rule node_ok_concat)
  show ?thesis
    using True m ys(1) all n node_ok_mk [OF n]
    by (simp add: select_pieces_def expr_ok_Expr enode0_def del: expr_ok.simps)
qed

lemma concat_pieces_ok:
  assumes "\<forall>x \<in> set xs. expr_ok x" "separates ident"
  shows "\<forall>p \<in> set (concat_pieces ident xs). piece_ok p" "keys_ok (concat_pieces ident xs)"
proof -
  have p: "\<exists>j c i. p = (ident xs j, c, i) \<and> j < length xs \<and> c = xs ! j \<and> 0 \<le> i \<and> i < e_width (enode_of c)"
    if "p \<in> set (concat_pieces ident xs)" for p
    using that by (auto simp: concat_pieces_def in_set_enumerate_eq set_bit_range)
  show "\<forall>p \<in> set (concat_pieces ident xs). piece_ok p"
    using p assms(1) by (fastforce simp: piece_ok_def)
  show "keys_ok (concat_pieces ident xs)"
    using p assms(2) unfolding keys_ok_def separates_def by (metis fst_conv snd_conv)
qed

lemma cast_pieces_ok:
  assumes "expr_ok c" "1 \<le> e_width (enode_of c)" "0 \<le> w"
  shows "\<forall>p \<in> set (cast_pieces w c). piece_ok p" "keys_ok (cast_pieces w c)"
proof -
  have z: "expr_ok zero_bit" "e_width (enode_of zero_bit) = 1" by code_simp+
  have p: "(k = 0 \<and> d = c \<and> 0 \<le> i \<and> i < e_width (enode_of c)) \<or> (k = 1 \<and> d = zero_bit \<and> i = 0)"
    if "(k, d, i) \<in> set (cast_pieces w c)" for k d i
    using that assms(2,3) by (auto simp: cast_pieces_def Let_def set_bit_range split: if_splits)
  show "\<forall>p \<in> set (cast_pieces w c). piece_ok p"
    using p assms z by (fastforce simp: piece_ok_def)
  show "keys_ok (cast_pieces w c)"
    unfolding keys_ok_def
  proof (intro ballI impI)
    fix q r assume q: "q \<in> set (cast_pieces w c)" and r: "r \<in> set (cast_pieces w c)" and e: "fst q = fst r"
    obtain k d i k' d' i' where qr: "q = (k, d, i)" "r = (k', d', i')" by (cases q, cases r)
    show "fst (snd q) = fst (snd r)"
      using p [of k d i] p [of k' d' i'] q r e unfolding qr by auto
  qed
qed

lemma select_step_ok:
  assumes sel: "selects sel" and sp: "separates ident"
    and ok: "expr_ok (Expr n xs)" and ps: "ps \<noteq> []" "int (length ps) \<le> max_width"
    "\<forall>i \<in> set ps. 0 \<le> i \<and> i < e_width n"
  shows "\<exists>r b'. select_step ident sel (Expr n xs) ps b = Inr (r, b') \<and> expr_ok r \<and>
    e_width (enode_of r) = int (length ps)"
proof -
  have nok: "node_ok n xs" and xok: "\<forall>x \<in> set xs. expr_ok x" using ok by (simp_all add: expr_ok_Expr del: expr_ok.simps)
  have w: "1 \<le> e_width n" "e_width n \<le> max_width" using checks_width [OF nok] by auto
  have k: "1 \<le> int (length ps)" using ps(1) by (cases ps) auto
  have valid: "\<not> (ps = [] \<or> list_ex (\<lambda>i. i < 0 \<or> i \<ge> e_width n) ps)" using ps by (auto simp: list_ex_iff)
  note step = select_step_def Let_def expr.sel
  show ?thesis
  proof (cases "ps = bit_range 0 (e_width n)")
    case True
    then have "int (length ps) = e_width n" using w by (simp add: bit_range_def)
    then show ?thesis using True valid ok by (simp add: step del: expr_ok.simps)
  next
    case nf: False
    consider (s) "e_op n = ''signal''" | (c) "e_op n = ''const''"
      | (m) "e_op n = ''mux''" "list_all (\<lambda>a. e_width (enode_of a) = e_width n) (drop 1 xs)"
      | (cc) "e_op n = ''concat''" "\<not> e_two_state n" | (ca) "e_op n = ''cast''" "\<not> e_two_state n"
      | (p) "e_op n \<noteq> ''signal''" "e_op n \<noteq> ''const''"
          "\<not> (e_op n = ''mux'' \<and> list_all (\<lambda>a. e_width (enode_of a) = e_width n) (drop 1 xs))"
          "\<not> (e_op n = ''concat'' \<and> \<not> e_two_state n)" "\<not> (e_op n = ''cast'' \<and> \<not> e_two_state n)" by blast
    then show ?thesis
    proof cases
      case s
      have bl: "int (length (e_bits n)) = e_width n" using checks_signal [OF nok s] by simp
      define bs where "bs = map (\<lambda>i. e_bits n ! nat i) ps"
      have m: "mapM (py_index (e_bits n)) ps = Inr bs"
        unfolding bs_def using ps(3) bl by (intro mapM_Inr_map) (simp add: py_index_def)
      have "node_ok (n\<lparr>e_width := int (length ps), e_bits := bs, e_signed := e_signed n\<rparr>) xs"
        by (rule node_ok_signal_update [OF nok s k ps(2)]) (simp add: bs_def)
      then have u: "node_ok (n\<lparr>e_width := int (length ps), e_bits := bs\<rparr>) xs" by simp
      show ?thesis
        using s valid nf m u node_ok_mk [OF u] xok by (simp add: step expr_ok_Expr del: expr_ok.simps de_Morgan_disj)
    next
      case c
      obtain v where v: "e_value n = Some v" "int (length v) = e_width n" using checks_const [OF nok c] by blast
      define cs where "cs = map (\<lambda>i. v ! nat i) ps"
      have m: "mapM (py_index v) ps = Inr cs"
        unfolding cs_def using ps(3) v(2) by (intro mapM_Inr_map) (simp add: py_index_def)
      have cs: "cs \<noteq> []" "int (length cs) = int (length ps)" using ps(1) by (simp_all add: cs_def)
      have sub: "set cs \<subseteq> set v" using ps(3) v(2) by (auto simp: cs_def)
      have u: "node_ok (n\<lparr>e_width := int (length cs), e_value := Some cs\<rparr>) xs"
        using node_ok_const_update [OF nok c v(1) cs(1) sub] cs(2) ps(2) by simp
      show ?thesis
        using c valid nf m v(1) u node_ok_mk [OF u] xok cs(2)
        by (simp add: step expr_ok_Expr del: expr_ok.simps de_Morgan_disj)
    next
      case m
      have "length xs = 3" using checks_arity(1) [OF nok] m(1) by (simp add: base_arity_def)
      then obtain a0 a1 a2 where xs: "xs = [a0, a1, a2]" by (auto simp: length_Suc_conv eval_nat_numeral)
      have wa: "e_width (enode_of a1) = e_width n" "e_width (enode_of a2) = e_width n" using m(2) xs by auto
      obtain y1 b1 where y1: "sel a1 ps b = Inr (y1, b1)" "expr_ok y1"
        using sel xok ps wa unfolding selects_def xs by (metis list.set_intros)
      obtain y2 b2 where y2: "sel a2 ps b1 = Inr (y2, b2)" "expr_ok y2"
        using sel xok ps wa unfolding selects_def xs by (metis list.set_intros)
      have u: "node_ok (n\<lparr>e_width := int (length ps)\<rparr>) [a0, y1, y2]"
        using node_ok_mux_update [OF nok m(1) k ps(2)] xs by simp
      have "\<forall>x \<in> set [a0, y1, y2]. expr_ok x" using xok xs y1(2) y2(2) by simp
      then have "expr_ok (Expr (n\<lparr>e_width := int (length ps)\<rparr>) [a0, y1, y2])"
        using u by (simp only: expr_ok_Expr)
      moreover have "select_step ident sel (Expr n xs) ps b =
          Inr (Expr (n\<lparr>e_width := int (length ps)\<rparr>) [a0, y1, y2], b2)"
        using m valid nf y1(1) y2(1) node_ok_mk [OF u] by (simp add: step xs del: de_Morgan_disj)
      ultimately show ?thesis by simp
    next
      case cc
      then show ?thesis
        using select_pieces_ok [OF sel concat_pieces_ok [OF xok sp] ps] valid nf
        by (simp add: step del: de_Morgan_disj)
    next
      case ca
      have "length xs = 1" using checks_arity(1) [OF nok] ca by (simp add: base_arity_def)
      then obtain c where xs: "xs = [c]" by (cases xs) auto
      have cw: "1 \<le> e_width (enode_of c)"
        using xok xs checks_width [of "enode_of c" "eargs c"] expr_ok_Expr [of "enode_of c" "eargs c"] by auto
      have "\<forall>p \<in> set (cast_pieces (e_width n) c). piece_ok p" "keys_ok (cast_pieces (e_width n) c)"
        using cast_pieces_ok [of c "e_width n"] xok xs cw w by auto
      then show ?thesis
        using select_pieces_ok [OF sel _ _ ps] ca valid nf xs
        by (simp add: step del: de_Morgan_disj)
    next
      case p
      have u: "node_ok ((enode0 ''project'' (int (length ps)))\<lparr>e_bits := ps\<rparr>) [Expr n xs]"
        using node_ok_project [of ps "Expr n xs"] ps by simp
      have "\<forall>x \<in> set [Expr n xs]. expr_ok x" using ok by (simp del: expr_ok.simps)
      then have "expr_ok (Expr ((enode0 ''project'' (int (length ps)))\<lparr>e_bits := ps\<rparr>) [Expr n xs])"
        using expr_ok_Expr u by blast
      moreover have "select_step ident sel (Expr n xs) ps b =
          Inr (Expr ((enode0 ''project'' (int (length ps)))\<lparr>e_bits := ps\<rparr>) [Expr n xs], b)"
        using p valid nf node_ok_mk [OF u] unfolding step by (simp only: if_False if_True ebind.simps)
      ultimately show ?thesis by (simp add: enode0_def)
    qed
  qed
qed

lemma select_at_selects:
  assumes "separates ident" shows "selects (select_at r ident)"
proof (induction r)
  case 0
  show ?case unfolding selects_def
  proof (intro allI impI)
    fix e ps b
    assume a: "expr_ok e \<and> ps \<noteq> [] \<and> int (length ps) \<le> max_width \<and> (\<forall>i \<in> set ps. 0 \<le> i \<and> i < e_width (enode_of e))"
    obtain r where "limited ''dynamic_expression_limit'' ps = Inr r" "expr_ok r"
      "e_width (enode_of r) = int (length ps)" using limited_ok a by blast
    then show "\<exists>r b'. select_at 0 ident e ps b = Inr (r, b') \<and> expr_ok r \<and> e_width (enode_of r) = int (length ps)" by simp
  qed
next
  case (Suc r)
  show ?case unfolding selects_def
  proof (intro allI impI)
    fix e ps b
    assume a: "expr_ok e \<and> ps \<noteq> [] \<and> int (length ps) \<le> max_width \<and> (\<forall>i \<in> set ps. 0 \<le> i \<and> i < e_width (enode_of e))"
    obtain r' where l: "limited ''dynamic_expression_limit'' ps = Inr r'" "expr_ok r'"
      "e_width (enode_of r') = int (length ps)" using limited_ok a by blast
    obtain n xs where e: "e = Expr n xs" by (cases e)
    show "\<exists>r' b'. select_at (Suc r) ident e ps b = Inr (r', b') \<and> expr_ok r' \<and> e_width (enode_of r') = int (length ps)"
    proof (cases "b - 1 < 0")
      case True
      then show ?thesis using l by simp
    next
      case False
      then show ?thesis
        using select_step_ok [OF Suc assms, of n xs ps "b - 1"] a e by (simp del: expr_ok.simps)
    qed
  qed
qed

section \<open>Properties\<close>

text \<open>C27. Narrowing an expression always succeeds and is well formed: for a valid expression and a
  non-empty list of at most 4096 positions inside it, \<open>select_expression\<close> returns an expression
  every node of which passes \<open>__post_init__\<close> and whose width is the number of positions, whatever
  the identities of shared arguments are; any other list of positions is the ValueError.\<close>

theorem select_expression_valid:
  assumes "expr_ok e" "int (length ps) \<le> max_width" "separates ident"
  shows "(if ps \<noteq> [] \<and> (\<forall>i \<in> set ps. 0 \<le> i \<and> i < e_width (enode_of e))
     then \<exists>r. select_expression ident e ps = Inr r \<and> expr_ok r \<and> e_width (enode_of r) = int (length ps)
     else select_expression ident e ps = Inl (ValueError ''dynamic_bit_mapping_unavailable''))"
proof (cases "ps \<noteq> [] \<and> (\<forall>i \<in> set ps. 0 \<le> i \<and> i < e_width (enode_of e))")
  case True
  then obtain r b' where "select_at (Suc MAX_EXPR_DEPTH) ident e ps MAX_EXPR_NODES = Inr (r, b')" "expr_ok r"
    "e_width (enode_of r) = int (length ps)"
    using select_at_selects [OF assms(3), of "Suc MAX_EXPR_DEPTH"] assms(1,2) unfolding selects_def by blast
  then show ?thesis using True by (simp add: select_expression_def del: select_at.simps)
next
  case False
  then have "ps = [] \<or> list_ex (\<lambda>i. i < 0 \<or> i \<ge> e_width (enode_of e)) ps" by (force simp: list_ex_iff not_le not_less)
  then have "select_step ident sel e ps b = Inl (ValueError ''dynamic_bit_mapping_unavailable'')" for sel b
    by (simp add: select_step_def Let_def)
  then show ?thesis using False by (simp add: select_expression_def MAX_EXPR_NODES_def)
qed

theorem select_expression_valid_witness:
  "select_expression (\<lambda>xs i. i) (Expr (enode0 ''concat'' 3) [sample_expr, zero_bit]) [1, 2] =
     Inr (Expr (enode0 ''concat'' 2) [Expr ((enode0 ''project'' 1)\<lparr>e_bits := [1]\<rparr>) [sample_expr], zero_bit]) \<and>
   (\<exists>r. select_expression (\<lambda>xs i. i) (Expr (enode0 ''concat'' 3) [sample_expr, zero_bit]) [1, 2] = Inr r \<and> expr_ok r)"
proof -
  let ?e = "Expr (enode0 ''concat'' 3) [sample_expr, zero_bit]"
  have ok: "expr_ok ?e" by code_simp
  have l: "int (length [1, 2::int]) \<le> max_width" by (simp add: max_width_def)
  have s: "separates (\<lambda>xs i. i)" by (simp add: separates_def)
  have p: "[1, 2::int] \<noteq> [] \<and> (\<forall>i \<in> set [1, 2]. 0 \<le> i \<and> i < e_width (enode_of ?e))" by (simp add: enode0_def)
  have "\<exists>r. select_expression (\<lambda>xs i. i) ?e [1, 2] = Inr r \<and> expr_ok r"
    using select_expression_valid [OF ok l s] p by (auto simp del: expr_ok.simps)
  moreover have "select_expression (\<lambda>xs i. i) ?e [1, 2] =
     Inr (Expr (enode0 ''concat'' 2) [Expr ((enode0 ''project'' 1)\<lparr>e_bits := [1]\<rparr>) [sample_expr], zero_bit])"
    by code_simp
  ultimately show ?thesis by blast
qed

definition field_or :: "(string \<times> json) list \<Rightarrow> string \<Rightarrow> json \<Rightarrow> json" where
  "field_or kvs k d = (case map_of kvs k of None \<Rightarrow> d | Some v \<Rightarrow> v)"

definition decodes :: "json \<Rightarrow> string \<Rightarrow> bool" where
  "decodes j k \<longleftrightarrow> (\<exists>x e. py_getitem j k = Inr x \<and> expr_from_dict x = Inr e \<and> expr_ok e \<and> expr_limits e)"

lemma py_get_field: "py_get (JObj kvs) k d = Inr (field_or kvs k d)"
  by (simp add: py_get_def field_or_def)

lemma check_branch_decodes: "check_branch br = Inr u \<Longrightarrow> decodes br ''guard'' \<and> decodes br ''value''"
  using from_dict_sound by (auto simp: check_branch_def decodes_def err_simps)

lemma py_len_iter: "py_len x = Inr k \<Longrightarrow> py_iter x = Inr xs \<Longrightarrow> length xs = k"
  by (cases x) (auto simp: py_len_def py_iter_def)

text \<open>What a reader of an accepted step may rely on, field by field.\<close>

definition valid_expr :: "json \<Rightarrow> expr \<Rightarrow> bool" where
  "valid_expr j e \<longleftrightarrow> expr_from_dict j = Inr e \<and> expr_ok e \<and> expr_limits e"

definition state_wf :: "(string \<times> json) list \<Rightarrow> bool" where
  "state_wf kvs \<longleftrightarrow> (py_bool (field_or kvs ''state'' JNull) \<longrightarrow>
     (\<exists>e js. valid_expr (field_or kvs ''state'' JNull) e \<and> e_op (enode_of e) = ''signal'' \<and>
        py_iter (field_or kvs ''bits'' (JArr [])) = Inr js \<and> map as_number js = map JInt (e_bits (enode_of e))))"

definition clock_wf :: "json \<Rightarrow> expr \<Rightarrow> bool" where
  "clock_wf c e \<longleftrightarrow> (\<exists>ckvs x ed. c = JObj ckvs \<and> map_of ckvs ''expression'' = Some x \<and> valid_expr x e \<and>
     map_of ckvs ''edge'' = Some (JStr ed) \<and> ed \<in> {''posedge'', ''negedge''})"

definition control_wf :: "json \<Rightarrow> bool" where
  "control_wf c \<longleftrightarrow> (\<exists>ckvs x e kind a. c = JObj ckvs \<and>
     map_of ckvs ''expression'' = Some x \<and> valid_expr x e \<and> e_op (enode_of e) = ''signal'' \<and> e_width (enode_of e) = 1 \<and>
     map_of ckvs ''kind'' = Some (JStr kind) \<and> kind \<in> {''reset'', ''set''} \<and>
     map_of ckvs ''active_value'' = Some (JStr a) \<and>
     (a = ''1'' \<and> map_of ckvs ''assertion_edge'' = Some (JStr ''posedge'') \<or>
      a = ''0'' \<and> map_of ckvs ''assertion_edge'' = Some (JStr ''negedge'')))"

lemma valid_exprI: "expr_from_dict j = Inr e \<Longrightarrow> valid_expr j e"
  using from_dict_sound by (auto simp: valid_expr_def)

lemma py_getitem_Inr: "py_getitem x k = Inr v \<longleftrightarrow> (\<exists>kvs. x = JObj kvs \<and> map_of kvs k = Some v)"
  by (auto simp: py_getitem_def split: json.splits option.splits)

lemma field_or_null: "field_or kvs k JNull = j \<Longrightarrow> j \<noteq> JNull \<Longrightarrow> map_of kvs k = Some j"
  by (auto simp: field_or_def split: option.splits)

lemma py_in_strs_True: "py_in_strs j ss = Inr True \<longleftrightarrow> (\<exists>s \<in> set ss. j = JStr s)"
  by (auto simp: py_in_strs_def list_ex_iff split: json.splits)

lemma check_state_ok: "check_state (JObj kvs) = Inr u \<Longrightarrow> state_wf kvs"
  by (auto simp: check_state_def state_wf_def py_get_field err_simps intro!: valid_exprI split: if_splits)

lemma check_clock_ok:
  assumes "check_clock (JObj kvs) = Inr u" "py_bool (field_or kvs ''clock'' JNull)"
  shows "\<exists>e. clock_wf (field_or kvs ''clock'' JNull) e"
proof -
  let ?c = "field_or kvs ''clock'' JNull"
  obtain x e ed where x: "py_getitem ?c ''expression'' = Inr x" "expr_from_dict x = Inr e"
    and ed: "py_getitem ?c ''edge'' = Inr ed" "py_in_strs ed [''posedge'', ''negedge''] = Inr True"
    using assms by (auto simp: check_clock_def py_get_field err_simps)
  obtain ckvs where c: "?c = JObj ckvs" "map_of ckvs ''expression'' = Some x" "map_of ckvs ''edge'' = Some ed"
    using x(1) ed(1) by (auto simp: py_getitem_Inr)
  obtain s where s: "s \<in> {''posedge'', ''negedge''}" "ed = JStr s" using ed(2) by (auto simp: py_in_strs_True)
  show ?thesis unfolding clock_wf_def using c s valid_exprI [OF x(2)] by blast
qed

lemma clock_expr_wf:
  assumes "clock_expr (JObj kvs) = Inr (Some e)" "check_clock (JObj kvs) = Inr u"
  shows "clock_wf (field_or kvs ''clock'' JNull) e"
proof -
  let ?c = "field_or kvs ''clock'' JNull"
  have t: "py_bool ?c" and x: "\<exists>x. py_getitem ?c ''expression'' = Inr x \<and> expr_from_dict x = Inr e"
    using assms(1) by (auto simp: clock_expr_def py_get_field err_simps split: if_splits)
  obtain e' where "clock_wf ?c e'" using check_clock_ok [OF assms(2) t] by blast
  then show ?thesis using x by (auto simp: clock_wf_def py_getitem_Inr valid_expr_def)
qed

lemma check_control_wf:
  assumes "check_control ctl = Inr u" shows "control_wf ctl"
proof -
  obtain kvs x e where c: "ctl = JObj kvs" "map_of kvs ''expression'' = Some x" "expr_from_dict x = Inr e"
    and sig: "e_op (enode_of e) = ''signal''" "e_width (enode_of e) = 1"
    and kind: "py_in_strs (field_or kvs ''kind'' JNull) [''reset'', ''set''] = Inr True"
    and act: "py_in_strs (field_or kvs ''active_value'' JNull) [''0'', ''1''] = Inr True"
    and edge: "field_or kvs ''assertion_edge'' JNull =
       JStr (if field_or kvs ''active_value'' JNull = JStr ''1'' then ''posedge'' else ''negedge'')"
    using assms by (auto simp: check_control_def py_get_field py_getitem_Inr err_simps split: if_splits)
  obtain k where k: "map_of kvs ''kind'' = Some (JStr k)" "k \<in> {''reset'', ''set''}"
    using kind field_or_null [of kvs "''kind''"] by (auto simp: py_in_strs_True)
  obtain a where a: "map_of kvs ''active_value'' = Some (JStr a)" "field_or kvs ''active_value'' JNull = JStr a"
      "a = ''0'' \<or> a = ''1''"
    using act field_or_null [of kvs "''active_value''"] by (auto simp: py_in_strs_True)
  have "map_of kvs ''assertion_edge'' = Some (JStr (if a = ''1'' then ''posedge'' else ''negedge''))"
    using edge a(2) field_or_null [of kvs "''assertion_edge''"] by simp
  then show ?thesis using c sig k a valid_exprI [OF c(3)] unfolding control_wf_def by fastforce
qed

lemma check_controls_ok:
  assumes "check_controls (JObj kvs) = Inr u"
  shows "\<exists>ctls. field_or kvs ''async_controls'' (JArr []) = JArr ctls \<and> length ctls \<le> 2 \<and>
    (\<forall>c \<in> set ctls. control_wf c) \<and>
    (ctls \<noteq> [] \<longrightarrow> map_of kvs ''boundary'' = Some (JStr ''sequential'') \<and> map_of kvs ''complete'' = Some (JBool False) \<and>
      py_contains ''async_control_value_unmodeled'' (field_or kvs ''gaps'' (JArr [])) = Inr True \<and>
      (\<exists>clk. clock_expr (JObj kvs) = Inr (Some clk) \<and> e_op (enode_of clk) = ''signal'' \<and> e_width (enode_of clk) = 1))"
proof -
  obtain ctls where l: "list_of_at_most 2 ''dynamic_async_controls_invalid'' (field_or kvs ''async_controls'' (JArr [])) = Inr ctls"
    using assms by (auto simp: check_controls_def py_get_field err_simps)
  have f: "field_or kvs ''async_controls'' (JArr []) = JArr ctls" "length ctls \<le> 2"
    using l by (auto simp: list_of_at_most_def split: json.splits if_splits)
  show ?thesis
  proof (cases "ctls = []")
    case True
    then show ?thesis using f by simp
  next
    case False
    have m: "\<exists>us. mapM check_control ctls = Inr us"
      and g: "field_or kvs ''boundary'' JNull = JStr ''sequential''" "field_or kvs ''complete'' JNull = JBool False"
        "py_contains ''async_control_value_unmodeled'' (field_or kvs ''gaps'' (JArr [])) = Inr True"
        "\<exists>clk. clock_expr (JObj kvs) = Inr (Some clk) \<and> e_op (enode_of clk) = ''signal'' \<and> e_width (enode_of clk) = 1"
      using assms False by (auto simp: check_controls_def py_get_field l err_simps split: if_splits option.splits)
    have cw: "\<forall>c \<in> set ctls. control_wf c" using m mapM_elem check_control_wf by metis
    have "map_of kvs ''boundary'' = Some (JStr ''sequential'')" "map_of kvs ''complete'' = Some (JBool False)"
      using field_or_null [OF g(1)] field_or_null [OF g(2)] by simp_all
    then show ?thesis using f cw g(3,4) by (intro exI [of _ ctls] conjI impI) (rule f cw | assumption)+
  qed
qed

text \<open>C28. A step that passes \<open>validate_step\<close> is returned unchanged and can be relied on: it is a
  dict of the supported version, with a known backend and boundary and at most 64 branches, whose guards and values all decode to
  valid expressions within the limits; its state is a signal over exactly the bits of the step, its
  clock a valid expression with a known edge, and it has at most one data input, a valid expression.
  Every asynchronous control (at most two) is a one-bit signal, of kind reset or set, active at 0 or
  1 and asserted by the matching edge; a step with controls is sequential, declared incomplete with
  the gap for their unmodelled value, and clocked by a one-bit signal.\<close>

theorem validate_step_accepts:
  assumes "validate_step raw = Inr r"
  shows "r = raw \<and> (\<exists>kvs bl ds ctls. raw = JObj kvs \<and> map_of kvs ''version'' = Some (JStr DYNAMIC_VERSION) \<and>
     map_of kvs ''backend'' \<in> (\<lambda>s. Some (JStr s)) ` {''verdi_npi'', ''source_graph'', ''static''} \<and>
     map_of kvs ''boundary'' \<in> (\<lambda>s. Some (JStr s)) `
       {''combinational'', ''sequential'', ''input'', ''constant'', ''unsupported''} \<and>
     py_iter (field_or kvs ''branches'' (JArr [])) = Inr bl \<and> length bl \<le> 64 \<and>
     (\<forall>br \<in> set bl. decodes br ''guard'' \<and> decodes br ''value'') \<and>
     state_wf kvs \<and>
     (py_bool (field_or kvs ''clock'' JNull) \<longrightarrow> (\<exists>e. clock_wf (field_or kvs ''clock'' JNull) e)) \<and>
     field_or kvs ''data_inputs'' (JArr []) = JArr ds \<and> length ds \<le> 1 \<and> (\<forall>d \<in> set ds. \<exists>e. valid_expr d e) \<and>
     field_or kvs ''async_controls'' (JArr []) = JArr ctls \<and> length ctls \<le> 2 \<and>
     (\<forall>c \<in> set ctls. control_wf c) \<and>
     (ctls \<noteq> [] \<longrightarrow>
        map_of kvs ''boundary'' = Some (JStr ''sequential'') \<and> map_of kvs ''complete'' = Some (JBool False) \<and>
        py_contains ''async_control_value_unmodeled'' (field_or kvs ''gaps'' (JArr [])) = Inr True \<and>
        (\<exists>clk. clock_wf (field_or kvs ''clock'' JNull) clk \<and> e_op (enode_of clk) = ''signal'' \<and> e_width (enode_of clk) = 1)))"
proof -
  obtain kvs where raw: "raw = JObj kvs"
    using assms by (cases raw) (simp_all add: validate_step_def py_get_def)
  from assms obtain nb bl us ds es u u1 u2 where r: "r = raw" and ver: "field_or kvs ''version'' JNull = JStr DYNAMIC_VERSION"
    and be: "py_in_strs (field_or kvs ''backend'' JNull) [''verdi_npi'', ''source_graph'', ''static''] = Inr True"
    and bd: "py_in_strs (field_or kvs ''boundary'' JNull)
       [''combinational'', ''sequential'', ''input'', ''constant'', ''unsupported''] = Inr True"
    and nb: "py_len (field_or kvs ''branches'' (JArr [])) = Inr nb" "nb \<le> 64"
    and bl: "py_iter (field_or kvs ''branches'' (JArr [])) = Inr bl"
    and br: "mapM check_branch bl = Inr us" and st: "check_state (JObj kvs) = Inr u1" and ck: "check_clock (JObj kvs) = Inr u2"
    and di: "list_of_at_most 1 ''dynamic_data_inputs_invalid'' (field_or kvs ''data_inputs'' (JArr [])) = Inr ds"
    and es: "mapM expr_from_dict ds = Inr es" and ctl: "check_controls (JObj kvs) = Inr u"
    unfolding validate_step_def raw py_get_field
    by (auto simp only: ebind.simps err_simps split: if_splits)
  have v: "map_of kvs ''version'' = Some (JStr DYNAMIC_VERSION)"
    using field_or_null [OF ver] by simp
  have in_strs: "map_of kvs k \<in> (\<lambda>s. Some (JStr s)) ` set ss" if "py_in_strs (field_or kvs k JNull) ss = Inr True" for k ss
    using that field_or_null [of kvs k] by (auto simp: py_in_strs_True)
  have bb: "map_of kvs ''backend'' \<in> (\<lambda>s. Some (JStr s)) ` {''verdi_npi'', ''source_graph'', ''static''}"
    "map_of kvs ''boundary'' \<in> (\<lambda>s. Some (JStr s)) `
       {''combinational'', ''sequential'', ''input'', ''constant'', ''unsupported''}"
    using in_strs [OF be] in_strs [OF bd] by simp_all
  have l: "length bl \<le> 64" using py_len_iter [OF nb(1) bl] nb(2) by simp
  have b: "\<forall>b \<in> set bl. decodes b ''guard'' \<and> decodes b ''value''"
    using mapM_elem [OF br] check_branch_decodes by blast
  have d: "field_or kvs ''data_inputs'' (JArr []) = JArr ds" "length ds \<le> 1" "\<forall>d \<in> set ds. \<exists>e. valid_expr d e"
    using di mapM_elem [OF es] valid_exprI by (fastforce simp: list_of_at_most_def split: json.splits if_splits)+
  obtain ctls where c: "field_or kvs ''async_controls'' (JArr []) = JArr ctls" "length ctls \<le> 2"
    "\<forall>c \<in> set ctls. control_wf c"
    "ctls \<noteq> [] \<longrightarrow> map_of kvs ''boundary'' = Some (JStr ''sequential'') \<and> map_of kvs ''complete'' = Some (JBool False) \<and>
      py_contains ''async_control_value_unmodeled'' (field_or kvs ''gaps'' (JArr [])) = Inr True \<and>
      (\<exists>clk. clock_expr (JObj kvs) = Inr (Some clk) \<and> e_op (enode_of clk) = ''signal'' \<and> e_width (enode_of clk) = 1)"
    using check_controls_ok [OF ctl] by blast
  note k = clock_expr_wf [OF _ ck] and kk = check_clock_ok [OF ck] and s = check_state_ok [OF st]
  show ?thesis
    by (intro conjI exI [of _ kvs] exI [of _ bl] exI [of _ ds] exI [of _ ctls] r raw v bb bl l b s d c(1-3) impI kk)
      (use c(4) k in blast)+
qed

text \<open>A clocked step with an asynchronous reset, for the witness.\<close>

definition sample_bit :: "string \<Rightarrow> json" where
  "sample_bit s = expr_to_json (Expr ((enode0 ''signal'' 1)\<lparr>e_signal := Some s, e_bits := [0], e_declared := [0]\<rparr>) [])"

definition sample_control :: json where
  "sample_control = JObj [(''expression'', sample_bit ''top.rst_n''), (''kind'', JStr ''reset''),
     (''active_value'', JStr ''0''), (''assertion_edge'', JStr ''negedge'')]"

definition sample_step :: json where
  "sample_step = JObj [(''version'', JStr ''2.0''), (''backend'', JStr ''static''), (''boundary'', JStr ''sequential''),
      (''complete'', JBool False), (''gaps'', JArr [JStr ''async_control_value_unmodeled'']),
      (''branches'', JArr [JObj [(''guard'', expr_to_json zero_bit), (''value'', expr_to_json sample_expr)]]),
      (''clock'', JObj [(''expression'', sample_bit ''top.clk''), (''edge'', JStr ''posedge'')]),
      (''async_controls'', JArr [sample_control])]"

theorem validate_step_accepts_witness:
  "validate_step sample_step = Inr sample_step \<and> control_wf sample_control"
proof -
  have v: "validate_step sample_step = Inr sample_step" by code_simp
  have "control_wf sample_control"
    using validate_step_accepts [OF v] by (auto simp: sample_step_def field_or_def)
  then show ?thesis using v by blast
qed

end
