(* ===== verification/Ir_Types.thy ===== *)
theory Ir_Types
  imports Bit_Value
begin

text \<open>
  The enumerations and the leaf records of src/src/connectivity_ir.py with the checks of their
  \<open>__post_init__\<close>: locations, evidence, declared ranges, declarations and signal selections.
  \<open>mk_x\<close> is the constructor call of class X, \<open>x_ok\<close> says that a value passed it.
\<close>

section \<open>Enumerations\<close>

datatype definition_kind = DefModule | DefInterface
datatype symbol_kind = SymNet | SymVariable | SymPort | SymInterfaceField
datatype port_direction = DirInput | DirOutput | DirInout | DirInterface
datatype binding_style = StyleNamed | StylePositional | StyleInterface | StyleModport
datatype binding_source_kind = SrcSignal | SrcConstant | SrcUnresolved
datatype edge_kind =
  EdgePortBindInput | EdgePortBindOutput | EdgePortBindInout | EdgeInterfaceBind
| EdgeContinuousAssign | EdgeProceduralAssign | EdgeDataDependency | EdgeControlDependency
| EdgeConstantDriver
datatype dependency_role = RoleData | RoleControl
datatype boundary_kind = BoundaryCombinational | BoundarySequential
datatype resolution_kind = ResExact | ResConditional | ResUnresolved
datatype coverage_status = CovComplete | CovPartial | CovInconclusive

text \<open>An enumeration is given by its table of values; \<open>Kind(value)\<close> looks a value up in it.\<close>

definition DEFINITION_KINDS :: "(definition_kind \<times> string) list" where
  "DEFINITION_KINDS = [(DefModule, ''module''), (DefInterface, ''interface'')]"

definition SYMBOL_KINDS :: "(symbol_kind \<times> string) list" where
  "SYMBOL_KINDS = [(SymNet, ''net''), (SymVariable, ''variable''), (SymPort, ''port''),
     (SymInterfaceField, ''interface_field'')]"

definition PORT_DIRECTIONS :: "(port_direction \<times> string) list" where
  "PORT_DIRECTIONS = [(DirInput, ''input''), (DirOutput, ''output''), (DirInout, ''inout''),
     (DirInterface, ''interface'')]"

definition BINDING_STYLES :: "(binding_style \<times> string) list" where
  "BINDING_STYLES = [(StyleNamed, ''named''), (StylePositional, ''positional''),
     (StyleInterface, ''interface''), (StyleModport, ''modport'')]"

definition BINDING_SOURCE_KINDS :: "(binding_source_kind \<times> string) list" where
  "BINDING_SOURCE_KINDS = [(SrcSignal, ''signal''), (SrcConstant, ''constant''), (SrcUnresolved, ''unresolved'')]"

definition EDGE_KINDS :: "(edge_kind \<times> string) list" where
  "EDGE_KINDS = [(EdgePortBindInput, ''port_bind_input''), (EdgePortBindOutput, ''port_bind_output''),
     (EdgePortBindInout, ''port_bind_inout''), (EdgeInterfaceBind, ''interface_bind''),
     (EdgeContinuousAssign, ''continuous_assign''), (EdgeProceduralAssign, ''procedural_assign''),
     (EdgeDataDependency, ''data_dependency''), (EdgeControlDependency, ''control_dependency''),
     (EdgeConstantDriver, ''constant_driver'')]"

definition DEPENDENCY_ROLES :: "(dependency_role \<times> string) list" where
  "DEPENDENCY_ROLES = [(RoleData, ''data''), (RoleControl, ''control'')]"

definition BOUNDARY_KINDS :: "(boundary_kind \<times> string) list" where
  "BOUNDARY_KINDS = [(BoundaryCombinational, ''combinational''), (BoundarySequential, ''sequential'')]"

definition RESOLUTION_KINDS :: "(resolution_kind \<times> string) list" where
  "RESOLUTION_KINDS = [(ResExact, ''exact_source''), (ResConditional, ''conditional''), (ResUnresolved, ''unresolved'')]"

definition COVERAGE_STATUSES :: "(coverage_status \<times> string) list" where
  "COVERAGE_STATUSES = [(CovComplete, ''complete''), (CovPartial, ''partial''), (CovInconclusive, ''inconclusive'')]"

definition enum_to_json :: "('a \<times> string) list \<Rightarrow> 'a \<Rightarrow> json" where
  "enum_to_json tab x = JStr (the (map_of tab x))"

definition enum_of_json :: "string \<Rightarrow> ('a \<times> string) list \<Rightarrow> json \<Rightarrow> 'a result" where
  "enum_of_json cls tab v =
     (case (case v of JStr s \<Rightarrow> map_of (map (\<lambda>(a, t). (t, a)) tab) s | _ \<Rightarrow> None) of
        Some a \<Rightarrow> Inr a
      | None \<Rightarrow> Inl (ValueError (py_repr v @ '' is not a valid '' @ cls)))"

definition enum_field :: "string \<Rightarrow> ('a \<times> string) list \<Rightarrow> json \<Rightarrow> string \<Rightarrow> 'a result" where
  "enum_field cls tab p k = ebind (py_getitem p k) (enum_of_json cls tab)"

definition enum_field_or :: "string \<Rightarrow> ('a \<times> string) list \<Rightarrow> 'a \<Rightarrow> json \<Rightarrow> string \<Rightarrow> 'a result" where
  "enum_field_or cls tab d p k = ebind (py_get p k (enum_to_json tab d)) (enum_of_json cls tab)"

definition enum_complete :: "('a \<times> string) list \<Rightarrow> bool" where
  "enum_complete tab \<longleftrightarrow> (\<forall>x. x \<in> fst ` set tab) \<and> distinct (map fst tab) \<and> distinct (map snd tab)"

lemma enum_complete_tables [simp]:
  "enum_complete DEFINITION_KINDS" "enum_complete SYMBOL_KINDS" "enum_complete PORT_DIRECTIONS"
  "enum_complete BINDING_STYLES" "enum_complete BINDING_SOURCE_KINDS" "enum_complete EDGE_KINDS"
  "enum_complete DEPENDENCY_ROLES" "enum_complete BOUNDARY_KINDS" "enum_complete RESOLUTION_KINDS"
  "enum_complete COVERAGE_STATUSES"
proof -
  have "x \<in> fst ` set DEFINITION_KINDS" for x by (cases x) (simp_all add: DEFINITION_KINDS_def)
  then show "enum_complete DEFINITION_KINDS" by (simp add: enum_complete_def DEFINITION_KINDS_def)
  have "x \<in> fst ` set SYMBOL_KINDS" for x by (cases x) (simp_all add: SYMBOL_KINDS_def)
  then show "enum_complete SYMBOL_KINDS" by (simp add: enum_complete_def SYMBOL_KINDS_def)
  have "x \<in> fst ` set PORT_DIRECTIONS" for x by (cases x) (simp_all add: PORT_DIRECTIONS_def)
  then show "enum_complete PORT_DIRECTIONS" by (simp add: enum_complete_def PORT_DIRECTIONS_def)
  have "x \<in> fst ` set BINDING_STYLES" for x by (cases x) (simp_all add: BINDING_STYLES_def)
  then show "enum_complete BINDING_STYLES" by (simp add: enum_complete_def BINDING_STYLES_def)
  have "x \<in> fst ` set BINDING_SOURCE_KINDS" for x by (cases x) (simp_all add: BINDING_SOURCE_KINDS_def)
  then show "enum_complete BINDING_SOURCE_KINDS" by (simp add: enum_complete_def BINDING_SOURCE_KINDS_def)
  have "x \<in> fst ` set EDGE_KINDS" for x by (cases x) (simp_all add: EDGE_KINDS_def)
  then show "enum_complete EDGE_KINDS" by (simp add: enum_complete_def EDGE_KINDS_def)
  have "x \<in> fst ` set DEPENDENCY_ROLES" for x by (cases x) (simp_all add: DEPENDENCY_ROLES_def)
  then show "enum_complete DEPENDENCY_ROLES" by (simp add: enum_complete_def DEPENDENCY_ROLES_def)
  have "x \<in> fst ` set BOUNDARY_KINDS" for x by (cases x) (simp_all add: BOUNDARY_KINDS_def)
  then show "enum_complete BOUNDARY_KINDS" by (simp add: enum_complete_def BOUNDARY_KINDS_def)
  have "x \<in> fst ` set RESOLUTION_KINDS" for x by (cases x) (simp_all add: RESOLUTION_KINDS_def)
  then show "enum_complete RESOLUTION_KINDS" by (simp add: enum_complete_def RESOLUTION_KINDS_def)
  have "x \<in> fst ` set COVERAGE_STATUSES" for x by (cases x) (simp_all add: COVERAGE_STATUSES_def)
  then show "enum_complete COVERAGE_STATUSES" by (simp add: enum_complete_def COVERAGE_STATUSES_def)
qed

lemma enum_of_json_enc [simp, json_simps]:
  assumes "enum_complete tab"
  shows "enum_of_json cls tab (enum_to_json tab x) = Inr x"
proof -
  obtain s where s: "(x, s) \<in> set tab" using assms by (force simp: enum_complete_def)
  then have m: "map_of tab x = Some s" using assms by (simp add: enum_complete_def)
  have "map_of (map (\<lambda>(a, t). (t, a)) tab) s = Some x"
  proof (rule map_of_is_SomeI)
    show "distinct (map fst (map (\<lambda>(a, t). (t, a)) tab))"
      using assms by (simp add: enum_complete_def comp_def split_def)
    show "(s, x) \<in> set (map (\<lambda>(a, t). (t, a)) tab)" using s by force
  qed
  then show ?thesis using m by (simp add: enum_of_json_def enum_to_json_def)
qed

lemma enum_field_JObj [json_simps]:
  "map_of kvs k = Some (enum_to_json tab x) \<Longrightarrow> enum_complete tab \<Longrightarrow> enum_field cls tab (JObj kvs) k = Inr x"
  by (simp add: enum_field_def py_getitem_JObj)

lemma enum_field_or_JObj [json_simps]:
  "map_of kvs k = Some (enum_to_json tab x) \<Longrightarrow> enum_complete tab \<Longrightarrow> enum_field_or cls tab d (JObj kvs) k = Inr x"
  by (simp add: enum_field_or_def py_get_JObj)

lemma enum_not_null [simp]: "enum_to_json tab x \<noteq> JNull"
  by (simp add: enum_to_json_def)

section \<open>Locations and evidence\<close>

record source_location =
  loc_file :: string
  loc_line :: int
  loc_column :: int

definition location_checks :: "source_location \<Rightarrow> (bool \<times> string) list" where
  "location_checks l =
     [(loc_file l = [], ''source location file must not be empty''),
      (loc_line l < 1, ''source location line must be positive''),
      (loc_column l < 0, ''source location column must not be negative'')]"

definition mk_location :: "source_location \<Rightarrow> source_location result" where
  "mk_location l = checked (location_checks l) l"

definition location_ok :: "source_location \<Rightarrow> bool" where
  "location_ok l \<longleftrightarrow> passes (location_checks l)"

definition location_to_json :: "source_location \<Rightarrow> json" where
  "location_to_json l = JObj [(''file'', JStr (loc_file l)), (''line'', JInt (loc_line l)),
     (''column'', JInt (loc_column l))]"

definition location_from_json :: "json \<Rightarrow> source_location result" where
  "location_from_json p =
     ebind (str_field p ''file'') (\<lambda>f.
     ebind (int_field p ''line'') (\<lambda>n.
     ebind (ebind (py_get p ''column'' (JInt 0)) py_int) (\<lambda>c.
       mk_location \<lparr>loc_file = f, loc_line = n, loc_column = c\<rparr>)))"

interpretation location_codec: json_codec location_to_json location_from_json location_ok
proof
  fix x :: source_location and p
  show "location_ok x \<Longrightarrow> location_from_json (location_to_json x) = Inr x"
    by (cases x) (simp add: location_from_json_def location_to_json_def json_simps mk_location_def location_ok_def)
  show "location_from_json p = Inr x \<Longrightarrow> location_ok x"
    by (auto simp: location_from_json_def mk_location_def location_ok_def err_simps)
  show "location_to_json x \<noteq> JNull" by (simp add: location_to_json_def)
qed

record source_evidence =
  se_construct :: string
  se_location :: source_location
  se_resolution :: resolution_kind
  se_frontend :: string
  se_frontend_version :: "string option"
  se_detail :: "string option"

definition evidence_checks :: "source_evidence \<Rightarrow> (bool \<times> string) list" where
  "evidence_checks e =
     [(se_construct e = [], ''evidence construct must not be empty''),
      (se_frontend e = [], ''evidence frontend must not be empty'')]"

definition mk_evidence :: "source_evidence \<Rightarrow> source_evidence result" where
  "mk_evidence e = checked (evidence_checks e) e"

definition evidence_ok :: "source_evidence \<Rightarrow> bool" where
  "evidence_ok e \<longleftrightarrow> location_ok (se_location e) \<and> passes (evidence_checks e)"

definition evidence_to_json :: "source_evidence \<Rightarrow> json" where
  "evidence_to_json e = JObj [(''construct'', JStr (se_construct e)),
     (''location'', location_to_json (se_location e)),
     (''resolution'', enum_to_json RESOLUTION_KINDS (se_resolution e)),
     (''frontend'', JStr (se_frontend e)), (''frontend_version'', JOptStr (se_frontend_version e)),
     (''detail'', JOptStr (se_detail e))]"

definition evidence_from_json :: "json \<Rightarrow> source_evidence result" where
  "evidence_from_json p =
     ebind (str_field p ''construct'') (\<lambda>c.
     ebind (ebind (py_getitem p ''location'') location_from_json) (\<lambda>l.
     ebind (enum_field_or ''ResolutionKind'' RESOLUTION_KINDS ResExact p ''resolution'') (\<lambda>r.
     ebind (ebind (py_get p ''frontend'' (JStr ''unknown'')) (\<lambda>v. Inr (py_str v))) (\<lambda>f.
     ebind (opt_str_field p ''frontend_version'') (\<lambda>fv.
     ebind (opt_str_field p ''detail'') (\<lambda>d.
       mk_evidence \<lparr>se_construct = c, se_location = l, se_resolution = r, se_frontend = f,
         se_frontend_version = fv, se_detail = d\<rparr>))))))"

interpretation evidence_codec: json_codec evidence_to_json evidence_from_json evidence_ok
proof
  fix x :: source_evidence and p
  show "evidence_ok x \<Longrightarrow> evidence_from_json (evidence_to_json x) = Inr x"
    by (cases x) (simp add: evidence_from_json_def evidence_to_json_def json_simps mk_evidence_def evidence_ok_def
        location_codec.dec_enc)
  show "evidence_from_json p = Inr x \<Longrightarrow> evidence_ok x"
    by (auto simp: evidence_from_json_def mk_evidence_def evidence_ok_def err_simps dest: location_codec.dec_ok)
  show "evidence_to_json x \<noteq> JNull" by (simp add: evidence_to_json_def)
qed

section \<open>Declared ranges\<close>

record bit_range_decl =
  br_left :: int
  br_right :: int

definition br_scalar :: bit_range_decl where
  "br_scalar = \<lparr>br_left = 0, br_right = 0\<rparr>"

definition br_from_width :: "int \<Rightarrow> bit_range_decl result" where
  "br_from_width w = (if w < 1 then Inl (ValueError ''bit width must be positive'')
     else Inr \<lparr>br_left = w - 1, br_right = 0\<rparr>)"

definition br_width :: "bit_range_decl \<Rightarrow> int" where
  "br_width r = \<bar>br_left r - br_right r\<bar> + 1"

text \<open>\<open>range(start, stop, step)\<close> for a step of 1 or -1.\<close>

definition unit_range :: "int \<Rightarrow> int \<Rightarrow> int \<Rightarrow> int list" where
  "unit_range start stop step = map (\<lambda>k. start + int k * step) [0..<nat ((stop - start) * step)]"

definition br_indices :: "bit_range_decl \<Rightarrow> int list" where
  "br_indices r =
     (let step = (if br_left r > br_right r then - 1 else 1)
      in unit_range (br_left r) (br_right r + step) step)"

definition range_to_json :: "bit_range_decl \<Rightarrow> json" where
  "range_to_json r = JObj [(''left'', JInt (br_left r)), (''right'', JInt (br_right r))]"

definition range_from_json :: "json \<Rightarrow> bit_range_decl result" where
  "range_from_json p =
     ebind (int_field p ''left'') (\<lambda>l. ebind (int_field p ''right'') (\<lambda>r. Inr \<lparr>br_left = l, br_right = r\<rparr>))"

interpretation range_codec: json_codec range_to_json range_from_json "\<lambda>_. True"
proof
  fix x :: bit_range_decl and p
  show "range_from_json (range_to_json x) = Inr x"
    by (simp add: range_from_json_def range_to_json_def json_simps)
  show "range_to_json x \<noteq> JNull" by (simp add: range_to_json_def)
qed simp

section \<open>Declarations\<close>

record signal_decl =
  sd_name :: string
  sd_kind :: symbol_kind
  sd_range :: bit_range_decl
  sd_location :: source_location

definition signal_decl_checks :: "signal_decl \<Rightarrow> (bool \<times> string) list" where
  "signal_decl_checks d = [(sd_name d = [], ''signal name must not be empty'')]"

definition mk_signal_decl :: "signal_decl \<Rightarrow> signal_decl result" where
  "mk_signal_decl d = checked (signal_decl_checks d) d"

definition signal_decl_ok :: "signal_decl \<Rightarrow> bool" where
  "signal_decl_ok d \<longleftrightarrow> location_ok (sd_location d) \<and> passes (signal_decl_checks d)"

definition signal_decl_to_json :: "signal_decl \<Rightarrow> json" where
  "signal_decl_to_json d = JObj [(''name'', JStr (sd_name d)), (''kind'', enum_to_json SYMBOL_KINDS (sd_kind d)),
     (''packed_range'', range_to_json (sd_range d)), (''location'', location_to_json (sd_location d))]"

definition signal_decl_from_json :: "json \<Rightarrow> signal_decl result" where
  "signal_decl_from_json p =
     ebind (str_field p ''name'') (\<lambda>n.
     ebind (enum_field ''SymbolKind'' SYMBOL_KINDS p ''kind'') (\<lambda>k.
     ebind (ebind (py_getitem p ''packed_range'') range_from_json) (\<lambda>r.
     ebind (ebind (py_getitem p ''location'') location_from_json) (\<lambda>l.
       mk_signal_decl \<lparr>sd_name = n, sd_kind = k, sd_range = r, sd_location = l\<rparr>))))"

lemmas sub_codecs = location_codec.dec_enc evidence_codec.dec_enc range_codec.dec_enc

interpretation signal_decl_codec: json_codec signal_decl_to_json signal_decl_from_json signal_decl_ok
proof
  fix x :: signal_decl and p
  show "signal_decl_ok x \<Longrightarrow> signal_decl_from_json (signal_decl_to_json x) = Inr x"
    by (cases x) (simp add: signal_decl_from_json_def signal_decl_to_json_def json_simps mk_signal_decl_def
        signal_decl_ok_def sub_codecs)
  show "signal_decl_from_json p = Inr x \<Longrightarrow> signal_decl_ok x"
    by (auto simp: signal_decl_from_json_def mk_signal_decl_def signal_decl_ok_def err_simps dest: location_codec.dec_ok)
  show "signal_decl_to_json x \<noteq> JNull" by (simp add: signal_decl_to_json_def)
qed

record port_decl =
  pd_name :: string
  pd_direction :: port_direction
  pd_range :: bit_range_decl
  pd_ordinal :: int
  pd_location :: source_location
  pd_interface :: "string option"
  pd_modport :: "string option"

text \<open>Python's truth of an optional string: neither \<open>None\<close> nor empty.\<close>

definition given :: "string option \<Rightarrow> bool" where
  "given s \<longleftrightarrow> s \<noteq> None \<and> s \<noteq> Some []"

definition port_decl_checks :: "port_decl \<Rightarrow> (bool \<times> string) list" where
  "port_decl_checks d =
     [(pd_name d = [], ''port name must not be empty''),
      (pd_ordinal d < 0, ''port ordinal must not be negative''),
      (pd_direction d = DirInterface \<and> \<not> given (pd_interface d), ''interface ports require interface_definition''),
      (pd_direction d \<noteq> DirInterface \<and> (given (pd_interface d) \<or> given (pd_modport d)),
         ''plain ports cannot name an interface or modport'')]"

definition mk_port_decl :: "port_decl \<Rightarrow> port_decl result" where
  "mk_port_decl d = checked (port_decl_checks d) d"

definition port_decl_ok :: "port_decl \<Rightarrow> bool" where
  "port_decl_ok d \<longleftrightarrow> location_ok (pd_location d) \<and> passes (port_decl_checks d)"

definition port_decl_to_json :: "port_decl \<Rightarrow> json" where
  "port_decl_to_json d = JObj [(''name'', JStr (pd_name d)),
     (''direction'', enum_to_json PORT_DIRECTIONS (pd_direction d)),
     (''packed_range'', range_to_json (pd_range d)), (''ordinal'', JInt (pd_ordinal d)),
     (''location'', location_to_json (pd_location d)),
     (''interface_definition'', JOptStr (pd_interface d)), (''modport'', JOptStr (pd_modport d))]"

definition port_decl_from_json :: "json \<Rightarrow> port_decl result" where
  "port_decl_from_json p =
     ebind (str_field p ''name'') (\<lambda>n.
     ebind (enum_field ''PortDirection'' PORT_DIRECTIONS p ''direction'') (\<lambda>d.
     ebind (ebind (py_getitem p ''packed_range'') range_from_json) (\<lambda>r.
     ebind (int_field p ''ordinal'') (\<lambda>k.
     ebind (ebind (py_getitem p ''location'') location_from_json) (\<lambda>l.
     ebind (opt_str_field p ''interface_definition'') (\<lambda>i.
     ebind (opt_str_field p ''modport'') (\<lambda>m.
       mk_port_decl \<lparr>pd_name = n, pd_direction = d, pd_range = r, pd_ordinal = k, pd_location = l,
         pd_interface = i, pd_modport = m\<rparr>)))))))"

interpretation port_decl_codec: json_codec port_decl_to_json port_decl_from_json port_decl_ok
proof
  fix x :: port_decl and p
  show "port_decl_ok x \<Longrightarrow> port_decl_from_json (port_decl_to_json x) = Inr x"
    by (cases x) (simp add: port_decl_from_json_def port_decl_to_json_def json_simps mk_port_decl_def
        port_decl_ok_def sub_codecs)
  show "port_decl_from_json p = Inr x \<Longrightarrow> port_decl_ok x"
    by (auto simp: port_decl_from_json_def mk_port_decl_def port_decl_ok_def err_simps dest: location_codec.dec_ok)
  show "port_decl_to_json x \<noteq> JNull" by (simp add: port_decl_to_json_def)
qed

record packed_member =
  pm_name :: string
  pm_aggregate :: string
  pm_range :: bit_range_decl
  pm_bits :: "int list"
  pm_location :: source_location

text \<open>
  The suffix of a member name after its aggregate: a dot, or one or more \<open>[index]\<close> groups
  followed by a dot or the end (\<open>$\<close> also matches before a final newline).
\<close>

definition index_group :: "string \<Rightarrow> string option" where
  "index_group s = (case s of
     c # t \<Rightarrow> if c \<noteq> CHR ''['' then None
       else let u = (case t of d # v \<Rightarrow> if d = CHR ''-'' then v else t | [] \<Rightarrow> t);
                ds = takeWhile is_digit u; rest = dropWhile is_digit u
            in if ds \<noteq> [] \<and> rest \<noteq> [] \<and> hd rest = CHR '']'' then Some (tl rest) else None
   | [] \<Rightarrow> None)"

fun index_groups :: "nat \<Rightarrow> string \<Rightarrow> string" where
  "index_groups 0 s = s"
| "index_groups (Suc k) s = (case index_group s of None \<Rightarrow> s | Some rest \<Rightarrow> index_groups k rest)"

definition member_suffix_ok :: "string \<Rightarrow> bool" where
  "member_suffix_ok s \<longleftrightarrow> starts_with ''.'' s \<or>
     index_group s \<noteq> None \<and>
     (let rest = index_groups (length s) s
      in rest = [] \<or> starts_with ''.'' rest \<or> rest = [char_of (10 :: nat)])"

definition packed_member_checks :: "packed_member \<Rightarrow> (bool \<times> string) list" where
  "packed_member_checks m =
     (let suffix = (if starts_with (pm_aggregate m) (pm_name m)
                    then drop (length (pm_aggregate m)) (pm_name m) else [])
      in [(pm_name m = [] \<or> pm_aggregate m = [], ''packed member name and aggregate must not be empty''),
          (\<not> member_suffix_ok suffix, ''packed member name must be rooted at its aggregate''),
          (int (length (pm_bits m)) \<noteq> br_width (pm_range m), ''packed member and aggregate bit widths must match''),
          (\<not> distinct (pm_bits m), ''packed member aggregate bits must be unique'')])"

definition mk_packed_member :: "packed_member \<Rightarrow> packed_member result" where
  "mk_packed_member m = checked (packed_member_checks m) m"

definition packed_member_ok :: "packed_member \<Rightarrow> bool" where
  "packed_member_ok m \<longleftrightarrow> location_ok (pm_location m) \<and> passes (packed_member_checks m)"

definition packed_member_to_json :: "packed_member \<Rightarrow> json" where
  "packed_member_to_json m = JObj [(''name'', JStr (pm_name m)), (''aggregate'', JStr (pm_aggregate m)),
     (''packed_range'', range_to_json (pm_range m)), (''aggregate_bits'', JInts (pm_bits m)),
     (''location'', location_to_json (pm_location m))]"

definition packed_member_from_json :: "json \<Rightarrow> packed_member result" where
  "packed_member_from_json p =
     ebind (str_field p ''name'') (\<lambda>n.
     ebind (str_field p ''aggregate'') (\<lambda>a.
     ebind (ebind (py_getitem p ''packed_range'') range_from_json) (\<lambda>r.
     ebind (list_field py_int p ''aggregate_bits'') (\<lambda>bs.
     ebind (ebind (py_getitem p ''location'') location_from_json) (\<lambda>l.
       mk_packed_member \<lparr>pm_name = n, pm_aggregate = a, pm_range = r, pm_bits = bs, pm_location = l\<rparr>)))))"

lemma list_field_JInts [json_simps]:
  "map_of kvs k = Some (JInts xs) \<Longrightarrow> list_field py_int (JObj kvs) k = Inr xs"
  by (simp add: list_field_def py_getitem_JObj JInts_def)

lemma list_field_JStrs [json_simps]:
  "map_of kvs k = Some (JStrs xs) \<Longrightarrow> list_field (\<lambda>v. Inr (py_str v)) (JObj kvs) k = Inr xs"
  by (simp add: list_field_def py_getitem_JObj JStrs_def)

lemma list_field_or_JStrs [json_simps]:
  "map_of kvs k = Some (JStrs xs) \<Longrightarrow> list_field_or_empty (\<lambda>v. Inr (py_str v)) (JObj kvs) k = Inr xs"
  by (simp add: list_field_or_empty_def py_get_JObj JStrs_def)

interpretation packed_member_codec: json_codec packed_member_to_json packed_member_from_json packed_member_ok
proof
  fix x :: packed_member and p
  show "packed_member_ok x \<Longrightarrow> packed_member_from_json (packed_member_to_json x) = Inr x"
    by (cases x) (simp add: packed_member_from_json_def packed_member_to_json_def json_simps mk_packed_member_def
        packed_member_ok_def sub_codecs)
  show "packed_member_from_json p = Inr x \<Longrightarrow> packed_member_ok x"
    by (auto simp: packed_member_from_json_def mk_packed_member_def packed_member_ok_def err_simps
        dest: location_codec.dec_ok)
  show "packed_member_to_json x \<noteq> JNull" by (simp add: packed_member_to_json_def)
qed

record modport_member =
  mm_name :: string
  mm_direction :: port_direction

definition modport_member_checks :: "modport_member \<Rightarrow> (bool \<times> string) list" where
  "modport_member_checks m =
     [(mm_name m = [], ''modport member name must not be empty''),
      (mm_direction m = DirInterface, ''modport member direction must be input/output/inout'')]"

definition mk_modport_member :: "modport_member \<Rightarrow> modport_member result" where
  "mk_modport_member m = checked (modport_member_checks m) m"

definition modport_member_ok :: "modport_member \<Rightarrow> bool" where
  "modport_member_ok m \<longleftrightarrow> passes (modport_member_checks m)"

definition modport_member_to_json :: "modport_member \<Rightarrow> json" where
  "modport_member_to_json m = JObj [(''name'', JStr (mm_name m)),
     (''direction'', enum_to_json PORT_DIRECTIONS (mm_direction m))]"

definition modport_member_from_json :: "json \<Rightarrow> modport_member result" where
  "modport_member_from_json p =
     ebind (str_field p ''name'') (\<lambda>n.
     ebind (enum_field ''PortDirection'' PORT_DIRECTIONS p ''direction'') (\<lambda>d.
       mk_modport_member \<lparr>mm_name = n, mm_direction = d\<rparr>))"

interpretation modport_member_codec: json_codec modport_member_to_json modport_member_from_json modport_member_ok
proof
  fix x :: modport_member and p
  show "modport_member_ok x \<Longrightarrow> modport_member_from_json (modport_member_to_json x) = Inr x"
    by (cases x) (simp add: modport_member_from_json_def modport_member_to_json_def json_simps
        mk_modport_member_def modport_member_ok_def)
  show "modport_member_from_json p = Inr x \<Longrightarrow> modport_member_ok x"
    by (auto simp: modport_member_from_json_def mk_modport_member_def modport_member_ok_def err_simps)
  show "modport_member_to_json x \<noteq> JNull" by (simp add: modport_member_to_json_def)
qed

record modport_decl =
  md_name :: string
  md_members :: "modport_member list"
  md_location :: source_location

definition modport_decl_checks :: "modport_decl \<Rightarrow> (bool \<times> string) list" where
  "modport_decl_checks d =
     [(md_name d = [], ''modport name must not be empty''),
      (\<not> distinct (map mm_name (md_members d)), ''duplicate member in modport '' @ md_name d)]"

definition mk_modport_decl :: "modport_decl \<Rightarrow> modport_decl result" where
  "mk_modport_decl d = checked (modport_decl_checks d) d"

definition modport_decl_ok :: "modport_decl \<Rightarrow> bool" where
  "modport_decl_ok d \<longleftrightarrow> location_ok (md_location d) \<and> list_all modport_member_ok (md_members d) \<and>
     passes (modport_decl_checks d)"

definition modport_decl_to_json :: "modport_decl \<Rightarrow> json" where
  "modport_decl_to_json d = JObj [(''name'', JStr (md_name d)),
     (''members'', JArr (map modport_member_to_json (md_members d))),
     (''location'', location_to_json (md_location d))]"

definition modport_decl_from_json :: "json \<Rightarrow> modport_decl result" where
  "modport_decl_from_json p =
     ebind (str_field p ''name'') (\<lambda>n.
     ebind (list_field_or_empty modport_member_from_json p ''members'') (\<lambda>ms.
     ebind (ebind (py_getitem p ''location'') location_from_json) (\<lambda>l.
       mk_modport_decl \<lparr>md_name = n, md_members = ms, md_location = l\<rparr>)))"

interpretation modport_decl_codec: json_codec modport_decl_to_json modport_decl_from_json modport_decl_ok
proof
  fix x :: modport_decl and p
  show "modport_decl_ok x \<Longrightarrow> modport_decl_from_json (modport_decl_to_json x) = Inr x"
    by (cases x) (simp add: modport_decl_from_json_def modport_decl_to_json_def json_simps mk_modport_decl_def
        modport_decl_ok_def sub_codecs modport_member_codec.list_field_or_empty_enc)
  show "modport_decl_from_json p = Inr x \<Longrightarrow> modport_decl_ok x"
    by (auto simp: modport_decl_from_json_def mk_modport_decl_def modport_decl_ok_def err_simps
        dest: location_codec.dec_ok modport_member_codec.list_field_or_empty_ok)
  show "modport_decl_to_json x \<noteq> JNull" by (simp add: modport_decl_to_json_def)
qed

section \<open>Signal selections\<close>

record signal_selection =
  ss_symbol :: string
  ss_bits :: "int list"
  ss_path :: "string option"

definition selection_checks :: "signal_selection \<Rightarrow> (bool \<times> string) list" where
  "selection_checks s =
     [(ss_symbol s = [], ''selection symbol must not be empty''),
      (ss_bits s = [], ''selection must contain at least one bit''),
      (\<not> distinct (ss_bits s), ''selection bits must be unique''),
      (ss_path s = Some [], ''instance path must be None or non-empty'')]"

definition mk_selection :: "signal_selection \<Rightarrow> signal_selection result" where
  "mk_selection s = checked (selection_checks s) s"

definition selection_ok :: "signal_selection \<Rightarrow> bool" where
  "selection_ok s \<longleftrightarrow> passes (selection_checks s)"

definition selection_template :: "string \<Rightarrow> bit_range_decl \<Rightarrow> signal_selection result" where
  "selection_template symb r = mk_selection \<lparr>ss_symbol = symb, ss_bits = br_indices r, ss_path = None\<rparr>"

definition selection_bound :: "string \<Rightarrow> string \<Rightarrow> bit_range_decl \<Rightarrow> signal_selection result" where
  "selection_bound path symb r = mk_selection \<lparr>ss_symbol = symb, ss_bits = br_indices r, ss_path = Some path\<rparr>"

definition ss_width :: "signal_selection \<Rightarrow> nat" where
  "ss_width s = length (ss_bits s)"

definition selection_bind :: "signal_selection \<Rightarrow> string \<Rightarrow> signal_selection result" where
  "selection_bind s path = (case ss_path s of
     Some q \<Rightarrow> if q \<noteq> path then Inl (ValueError (''selection is already bound to '' @ q @ '', not '' @ path))
               else Inr s
   | None \<Rightarrow> mk_selection \<lparr>ss_symbol = ss_symbol s, ss_bits = ss_bits s, ss_path = Some path\<rparr>)"

definition selection_path :: "signal_selection \<Rightarrow> bool \<Rightarrow> string" where
  "selection_path s include_bits =
     (let base = (if given (ss_path s) then the (ss_path s) @ ''.'' else []) @ ss_symbol s; bs = ss_bits s in
      if \<not> include_bits then base
      else if length bs = 1 then base @ ''['' @ show_int (bs ! 0) @ '']''
      else let step = bs ! 1 - bs ! 0;
               contiguous = (\<bar>step\<bar> = 1 \<and> list_all (\<lambda>(l, r). r - l = step) (zip bs (tl bs)))
           in if contiguous then base @ ''['' @ show_int (hd bs) @ '':'' @ show_int (last bs) @ '']''
              else base @ ''['' @ join '','' (map show_int bs) @ '']'')"

definition selection_to_json :: "signal_selection \<Rightarrow> json" where
  "selection_to_json s = JObj [(''symbol'', JStr (ss_symbol s)), (''bits'', JInts (ss_bits s)),
     (''instance_path'', JOptStr (ss_path s))]"

definition selection_from_json :: "json \<Rightarrow> signal_selection result" where
  "selection_from_json p =
     ebind (str_field p ''symbol'') (\<lambda>n.
     ebind (list_field py_int p ''bits'') (\<lambda>bs.
     ebind (opt_str_field p ''instance_path'') (\<lambda>ip.
       mk_selection \<lparr>ss_symbol = n, ss_bits = bs, ss_path = ip\<rparr>)))"

interpretation selection_codec: json_codec selection_to_json selection_from_json selection_ok
proof
  fix x :: signal_selection and p
  show "selection_ok x \<Longrightarrow> selection_from_json (selection_to_json x) = Inr x"
    by (cases x) (simp add: selection_from_json_def selection_to_json_def json_simps mk_selection_def selection_ok_def)
  show "selection_from_json p = Inr x \<Longrightarrow> selection_ok x"
    by (auto simp: selection_from_json_def mk_selection_def selection_ok_def err_simps)
  show "selection_to_json x \<noteq> JNull" by (simp add: selection_to_json_def)
qed

end
