(* ===== verification/Ir_Facts.thy ===== *)
theory Ir_Facts
  imports Ir_Types Dyn_Expr_Laws
begin

text \<open>
  The facts of src/src/connectivity_ir.py built from the leaf records: bit mappings, dependencies
  and assignments of a definition template, the template itself, instances and port bindings.
\<close>

section \<open>Dynamic assignments as a codec\<close>

definition dyn_expr_ok :: "expr \<Rightarrow> bool" where
  "dyn_expr_ok e \<longleftrightarrow> expr_ok e \<and> expr_limits e"

interpretation expr_codec: json_codec expr_to_json expr_from_dict dyn_expr_ok
proof
  fix x :: expr and p
  show "dyn_expr_ok x \<Longrightarrow> expr_from_dict (expr_to_json x) = Inr x"
    by (simp add: dyn_expr_ok_def from_dict_complete)
  show "expr_from_dict p = Inr x \<Longrightarrow> dyn_expr_ok x"
    using from_dict_sound by (simp add: dyn_expr_ok_def)
  show "expr_to_json x \<noteq> JNull" by (cases x) simp
qed

definition dyn_assignment_ok :: "dyn_assignment \<Rightarrow> bool" where
  "dyn_assignment_ok a \<longleftrightarrow> dyn_expr_ok (da_guard a) \<and> dyn_expr_ok (da_value a) \<and>
     (case da_clock a of None \<Rightarrow> True | Some c \<Rightarrow> dyn_expr_ok c)"

lemma expr_json_true [simp]: "py_bool (expr_to_json e)"
  by (cases e) (simp add: expr_fields_def)

lemma clock_field:
  assumes "case c of None \<Rightarrow> True | Some e \<Rightarrow> dyn_expr_ok e"
  shows "(if py_bool (jopt expr_to_json c) then ebind (expr_from_dict (jopt expr_to_json c)) (\<lambda>e. Inr (Some e))
     else Inr None) = Inr c"
  using assms by (cases c) (simp_all add: jopt_def expr_codec.dec_enc)

interpretation dyn_assignment_codec:
  json_codec dyn_assignment_to_json dyn_assignment_from_json dyn_assignment_ok
proof
  fix x :: dyn_assignment and p
  show "dyn_assignment_ok x \<Longrightarrow> dyn_assignment_from_json (dyn_assignment_to_json x) = Inr x"
    by (cases x) (simp add: dyn_assignment_from_json_def dyn_assignment_to_json_def py_getitem_def
        dyn_assignment_ok_def expr_codec.dec_enc clock_field typed_field_def ASSIGNMENT_FIELDS_def)
  show "dyn_assignment_from_json p = Inr x \<Longrightarrow> dyn_assignment_ok x"
    by (auto simp: dyn_assignment_from_json_def dyn_assignment_ok_def err_simps dest: expr_codec.dec_ok
        split: json.splits option.splits if_splits)
  show "dyn_assignment_to_json x \<noteq> JNull" by (simp add: dyn_assignment_to_json_def)
qed

section \<open>Bit mappings\<close>

record bit_mapping =
  bm_source :: "signal_selection option"
  bm_target :: signal_selection
  bm_kind :: binding_source_kind
  bm_constant :: "string list"
  bm_reason :: "string option"

definition mk_bit_mapping :: "bit_mapping \<Rightarrow> bit_mapping result" where
  "mk_bit_mapping m =
     (case bm_kind m of
        SrcSignal \<Rightarrow>
          checked [(bm_source m = None, ''signal bit mapping requires a source selection''),
            (ss_width (the (bm_source m)) \<noteq> ss_width (bm_target m),
               ''bit mapping source and target widths must match''),
            (bm_constant m \<noteq> [] \<or> bm_reason m \<noteq> None, ''signal bit mapping cannot carry non-signal provenance'')] m
      | SrcConstant \<Rightarrow>
          (let normalized = map lower (bm_constant m) in
           checked [(bm_source m \<noteq> None, ''non-signal bit mapping cannot carry a source selection''),
             (length normalized \<noteq> ss_width (bm_target m), ''constant mapping width must match target width''),
             (list_ex (\<lambda>b. b \<notin> {''0'', ''1'', ''x'', ''z''}) normalized, ''constant mapping bits must be 0, 1, x, or z''),
             (bm_reason m \<noteq> None, ''constant mapping cannot carry an unresolved reason'')]
             (m\<lparr>bm_constant := normalized\<rparr>))
      | SrcUnresolved \<Rightarrow>
          checked [(bm_source m \<noteq> None, ''non-signal bit mapping cannot carry a source selection''),
            (bm_constant m \<noteq> [], ''unresolved mapping cannot carry constant bits''),
            (\<not> given (bm_reason m) \<or> strip (the (bm_reason m)) \<noteq> the (bm_reason m),
               ''unresolved mapping requires a non-empty trimmed reason'')] m)"

definition bit_mapping_ok :: "bit_mapping \<Rightarrow> bool" where
  "bit_mapping_ok m \<longleftrightarrow> (case bm_source m of None \<Rightarrow> True | Some s \<Rightarrow> selection_ok s) \<and>
     selection_ok (bm_target m) \<and> mk_bit_mapping m = Inr m"

definition bm_width :: "bit_mapping \<Rightarrow> nat" where
  "bm_width m = ss_width (bm_target m)"

definition bit_mapping_to_json :: "bit_mapping \<Rightarrow> json" where
  "bit_mapping_to_json m = JObj [(''source'', jopt selection_to_json (bm_source m)),
     (''target'', selection_to_json (bm_target m)),
     (''source_kind'', enum_to_json BINDING_SOURCE_KINDS (bm_kind m)),
     (''constant_bits'', JStrs (bm_constant m)), (''unresolved_reason'', JOptStr (bm_reason m))]"

definition bit_mapping_from_json :: "json \<Rightarrow> bit_mapping result" where
  "bit_mapping_from_json p =
     ebind (opt_field selection_from_json p ''source'') (\<lambda>s.
     ebind (ebind (py_getitem p ''target'') selection_from_json) (\<lambda>t.
     ebind (enum_field_or ''BindingSourceKind'' BINDING_SOURCE_KINDS SrcSignal p ''source_kind'') (\<lambda>k.
     ebind (list_field_or_empty (\<lambda>v. Inr (py_str v)) p ''constant_bits'') (\<lambda>cs.
     ebind (opt_str_field p ''unresolved_reason'') (\<lambda>r.
       mk_bit_mapping \<lparr>bm_source = s, bm_target = t, bm_kind = k, bm_constant = cs, bm_reason = r\<rparr>)))))"

lemma lower_idem: "lower (lower s) = lower s"
proof -
  have "lower_char (lower_char c) = lower_char c" for c
  proof (cases "65 \<le> (of_char c :: nat) \<and> of_char c \<le> (90 :: nat)")
    case True
    then have "(of_char (char_of ((of_char c :: nat) + 32) :: char) :: nat) = of_char c + 32" by simp
    then show ?thesis using True by (simp add: lower_char_def Let_def)
  next
    case False
    then show ?thesis by (auto simp: lower_char_def Let_def)
  qed
  then show ?thesis by (simp add: lower_def)
qed

lemma mk_bit_mapping_idem:
  assumes "mk_bit_mapping m = Inr m'"
  shows "mk_bit_mapping m' = Inr m' \<and> bm_source m' = bm_source m \<and> bm_target m' = bm_target m"
proof (cases "bm_kind m")
  case SrcConstant
  have n: "map (lower \<circ> lower) bs = map lower bs" for bs by (simp add: lower_idem comp_def)
  show ?thesis using assms SrcConstant
    by (auto simp: mk_bit_mapping_def Let_def checked_Inr n)
qed (use assms in \<open>auto simp: mk_bit_mapping_def checked_Inr\<close>)

interpretation bit_mapping_codec: json_codec bit_mapping_to_json bit_mapping_from_json bit_mapping_ok
proof
  fix x :: bit_mapping and p
  assume ok: "bit_mapping_ok x"
  have s: "opt_field selection_from_json (JObj kvs) ''source'' = Inr (bm_source x)"
    if k: "map_of kvs ''source'' = Some (jopt selection_to_json (bm_source x))" for kvs
  proof -
    have "selection_ok a" if "bm_source x = Some a" for a using ok that by (simp add: bit_mapping_ok_def)
    then show ?thesis using selection_codec.opt_field_enc [OF k] by blast
  qed
  show "bit_mapping_from_json (bit_mapping_to_json x) = Inr x"
    using ok s by (cases x) (simp add: bit_mapping_from_json_def bit_mapping_to_json_def json_simps
        selection_codec.dec_enc bit_mapping_ok_def)
next
  fix x :: bit_mapping and p
  assume d: "bit_mapping_from_json p = Inr x"
  then obtain s t k cs r where s: "opt_field selection_from_json p ''source'' = Inr s"
    and t: "selection_ok t"
    and m: "mk_bit_mapping \<lparr>bm_source = s, bm_target = t, bm_kind = k, bm_constant = cs, bm_reason = r\<rparr> = Inr x"
    by (auto simp: bit_mapping_from_json_def err_simps dest: selection_codec.dec_ok)
  have "selection_ok a" if "s = Some a" for a using s that selection_codec.opt_field_ok by blast
  then show "bit_mapping_ok x"
    using mk_bit_mapping_idem [OF m] t by (auto simp: bit_mapping_ok_def split: option.split)
qed (simp add: bit_mapping_to_json_def)

section \<open>Dependencies and assignments\<close>

record dependency_fact =
  df_source :: signal_selection
  df_target :: signal_selection
  df_role :: dependency_role
  df_exact :: bool
  df_guard :: "string option"

definition dependency_checks :: "dependency_fact \<Rightarrow> (bool \<times> string) list" where
  "dependency_checks d =
     [(ss_path (df_source d) \<noteq> None \<or> ss_path (df_target d) \<noteq> None,
         ''assignment dependencies must be template-local''),
      (df_role d = RoleData \<and> df_exact d \<and> ss_width (df_source d) \<noteq> ss_width (df_target d),
         ''exact data dependency widths must match'')]"

definition mk_dependency :: "dependency_fact \<Rightarrow> dependency_fact result" where
  "mk_dependency d = checked (dependency_checks d) d"

definition dependency_ok :: "dependency_fact \<Rightarrow> bool" where
  "dependency_ok d \<longleftrightarrow> selection_ok (df_source d) \<and> selection_ok (df_target d) \<and> passes (dependency_checks d)"

definition dependency_to_json :: "dependency_fact \<Rightarrow> json" where
  "dependency_to_json d = JObj [(''source'', selection_to_json (df_source d)),
     (''target'', selection_to_json (df_target d)), (''role'', enum_to_json DEPENDENCY_ROLES (df_role d)),
     (''exact_bit_mapping'', JBool (df_exact d)), (''guard'', JOptStr (df_guard d))]"

definition dependency_from_json :: "json \<Rightarrow> dependency_fact result" where
  "dependency_from_json p =
     ebind (ebind (py_getitem p ''source'') selection_from_json) (\<lambda>s.
     ebind (ebind (py_getitem p ''target'') selection_from_json) (\<lambda>t.
     ebind (enum_field_or ''DependencyRole'' DEPENDENCY_ROLES RoleData p ''role'') (\<lambda>r.
     ebind (ebind (py_get p ''exact_bit_mapping'' (JBool True)) (\<lambda>v. Inr (py_bool v))) (\<lambda>e.
     ebind (opt_str_field p ''guard'') (\<lambda>g.
       mk_dependency \<lparr>df_source = s, df_target = t, df_role = r, df_exact = e, df_guard = g\<rparr>)))))"

interpretation dependency_codec: json_codec dependency_to_json dependency_from_json dependency_ok
proof
  fix x :: dependency_fact and p
  show "dependency_ok x \<Longrightarrow> dependency_from_json (dependency_to_json x) = Inr x"
    by (cases x) (simp add: dependency_from_json_def dependency_to_json_def json_simps mk_dependency_def
        dependency_ok_def selection_codec.dec_enc)
  show "dependency_from_json p = Inr x \<Longrightarrow> dependency_ok x"
    by (auto simp: dependency_from_json_def mk_dependency_def dependency_ok_def err_simps
        dest: selection_codec.dec_ok)
  show "dependency_to_json x \<noteq> JNull" by (simp add: dependency_to_json_def)
qed

record assignment_fact =
  af_id :: string
  af_kind :: edge_kind
  af_target :: signal_selection
  af_dependencies :: "dependency_fact list"
  af_boundary :: boundary_kind
  af_evidence :: source_evidence
  af_procedure :: "string option"
  af_guard :: "string option"
  af_generate :: "string option"
  af_dynamic :: "dyn_assignment option"
  af_driver :: "string option"

definition assignment_checks :: "assignment_fact \<Rightarrow> (bool \<times> string) list" where
  "assignment_checks a =
     [(af_id a = [], ''assignment_id must not be empty''),
      (af_driver a = Some [], ''structural_driver_id must not be empty''),
      (af_kind a \<noteq> EdgeContinuousAssign \<and> af_kind a \<noteq> EdgeProceduralAssign,
         ''assignment kind must be continuous_assign or procedural_assign''),
      (ss_path (af_target a) \<noteq> None, ''assignment target must be template-local''),
      (af_kind a = EdgeContinuousAssign \<and> given (af_procedure a),
         ''continuous assignments cannot have a procedure kind''),
      (af_kind a = EdgeProceduralAssign \<and> \<not> given (af_procedure a),
         ''procedural assignments require a procedure kind'')] @
     concat (map (\<lambda>d.
       [(ss_symbol (df_target d) \<noteq> ss_symbol (af_target a), ''dependency target must match assignment target symbol''),
        (\<not> set (ss_bits (df_target d)) \<subseteq> set (ss_bits (af_target a)),
           ''dependency target bits must be within assignment target'')]) (af_dependencies a))"

definition mk_assignment :: "assignment_fact \<Rightarrow> assignment_fact result" where
  "mk_assignment a = checked (assignment_checks a) a"

definition assignment_ok :: "assignment_fact \<Rightarrow> bool" where
  "assignment_ok a \<longleftrightarrow> selection_ok (af_target a) \<and> list_all dependency_ok (af_dependencies a) \<and>
     evidence_ok (af_evidence a) \<and> (case af_dynamic a of None \<Rightarrow> True | Some d \<Rightarrow> dyn_assignment_ok d) \<and>
     passes (assignment_checks a)"

definition assignment_to_json :: "assignment_fact \<Rightarrow> json" where
  "assignment_to_json a = JObj [(''assignment_id'', JStr (af_id a)), (''kind'', enum_to_json EDGE_KINDS (af_kind a)),
     (''target'', selection_to_json (af_target a)),
     (''dependencies'', JArr (map dependency_to_json (af_dependencies a))),
     (''boundary'', enum_to_json BOUNDARY_KINDS (af_boundary a)),
     (''evidence'', evidence_to_json (af_evidence a)), (''procedure_kind'', JOptStr (af_procedure a)),
     (''guard'', JOptStr (af_guard a)), (''generate_scope'', JOptStr (af_generate a)),
     (''dynamic'', jopt dyn_assignment_to_json (af_dynamic a)),
     (''structural_driver_id'', JOptStr (af_driver a))]"

definition assignment_from_json :: "json \<Rightarrow> assignment_fact result" where
  "assignment_from_json p =
     ebind (str_field p ''assignment_id'') (\<lambda>i.
     ebind (ebind (py_get p ''structural_driver_id'' JNull) (as_opt as_str)) (\<lambda>dr.
     ebind (ebind (py_get p ''dynamic'' JNull) (\<lambda>v.
        if py_bool v then ebind (dyn_assignment_from_json v) (\<lambda>d. Inr (Some d)) else Inr None)) (\<lambda>dy.
     ebind (enum_field ''EdgeKind'' EDGE_KINDS p ''kind'') (\<lambda>k.
     ebind (ebind (py_getitem p ''target'') selection_from_json) (\<lambda>t.
     ebind (list_field_or_empty dependency_from_json p ''dependencies'') (\<lambda>ds.
     ebind (enum_field ''BoundaryKind'' BOUNDARY_KINDS p ''boundary'') (\<lambda>b.
     ebind (ebind (py_getitem p ''evidence'') evidence_from_json) (\<lambda>e.
     ebind (opt_str_field p ''procedure_kind'') (\<lambda>pk.
     ebind (opt_str_field p ''guard'') (\<lambda>g.
     ebind (opt_str_field p ''generate_scope'') (\<lambda>gs.
       mk_assignment \<lparr>af_id = i, af_kind = k, af_target = t, af_dependencies = ds, af_boundary = b,
         af_evidence = e, af_procedure = pk, af_guard = g, af_generate = gs, af_dynamic = dy,
         af_driver = dr\<rparr>)))))))))))"

lemma dyn_assignment_true [simp]: "py_bool (dyn_assignment_to_json d)"
  by (simp add: dyn_assignment_to_json_def)

lemma dynamic_field:
  assumes "case d of None \<Rightarrow> True | Some a \<Rightarrow> dyn_assignment_ok a"
  shows "(if py_bool (jopt dyn_assignment_to_json d)
     then ebind (dyn_assignment_from_json (jopt dyn_assignment_to_json d)) (\<lambda>e. Inr (Some e)) else Inr None) = Inr d"
  using assms by (cases d) (simp_all add: jopt_def dyn_assignment_codec.dec_enc)

interpretation assignment_codec: json_codec assignment_to_json assignment_from_json assignment_ok
proof
  fix x :: assignment_fact and p
  show "assignment_ok x \<Longrightarrow> assignment_from_json (assignment_to_json x) = Inr x"
    by (cases x) (simp add: assignment_from_json_def assignment_to_json_def json_simps mk_assignment_def
        assignment_ok_def selection_codec.dec_enc evidence_codec.dec_enc dynamic_field
        dependency_codec.list_field_or_empty_enc)
  show "assignment_from_json p = Inr x \<Longrightarrow> assignment_ok x"
    by (auto simp: assignment_from_json_def mk_assignment_def assignment_ok_def err_simps
        dest: selection_codec.dec_ok evidence_codec.dec_ok dependency_codec.list_field_or_empty_ok
          dyn_assignment_codec.dec_ok split: if_splits)
  show "assignment_to_json x \<noteq> JNull" by (simp add: assignment_to_json_def)
qed

end
