(* ===== verification/Ir_Model.thy ===== *)
theory Ir_Model
  imports Ir_Facts "HOL-Library.List_Lexorder" "HOL-Library.Char_ord" "HOL-Library.Product_Lexorder"
begin

text \<open>
  The connectivity IR of src/src/connectivity_ir.py: definition templates, instances, port
  bindings, coverage, the IR itself with its cross-reference checks, its canonical JSON form
  (\<open>to_dict\<close> sorts every collection by its key; strings are ordered by code points) and the
  concatenation helper \<open>selections_for_concat\<close>.
\<close>

section \<open>Definition templates\<close>

record definition_template =
  dt_id :: string
  dt_name :: string
  dt_kind :: definition_kind
  dt_location :: source_location
  dt_ports :: "port_decl list"
  dt_signals :: "signal_decl list"
  dt_members :: "packed_member list"
  dt_modports :: "modport_decl list"
  dt_assignments :: "assignment_fact list"

text \<open>\<open>direct_ranges\<close>, a dict in which a later name wins.\<close>

definition direct_ranges :: "definition_template \<Rightarrow> string \<rightharpoonup> bit_range_decl" where
  "direct_ranges d = map_of (rev (map (\<lambda>p. (pd_name p, pd_range p)) (dt_ports d) @
     map (\<lambda>s. (sd_name s, sd_range s)) (dt_signals d)))"

definition definition_checks :: "definition_template \<Rightarrow> (bool \<times> string) list" where
  "definition_checks d =
     (let ports = map pd_name (dt_ports d); signals = map sd_name (dt_signals d) in
     [(dt_id d = [] \<or> dt_name d = [], ''definition id and name must not be empty''),
      (\<not> distinct ports, ''duplicate port in definition '' @ dt_id d),
      (\<not> distinct signals, ''duplicate signal in definition '' @ dt_id d),
      (list_ex (\<lambda>p. p \<in> set signals) ports, ''port and internal signal names overlap in definition '' @ dt_id d),
      (\<not> distinct (map pm_name (dt_members d)), ''duplicate packed member in definition '' @ dt_id d)] @
     concat (map (\<lambda>m. case direct_ranges d (pm_aggregate m) of
         None \<Rightarrow> [(True, ''packed member '' @ pm_name m @ '' references unknown aggregate'')]
       | Some r \<Rightarrow> [(\<not> set (pm_bits m) \<subseteq> set (br_indices r),
                     ''packed member '' @ pm_name m @ '' exceeds its aggregate range'')]) (dt_members d)) @
     [(\<not> distinct (map pd_ordinal (dt_ports d)), ''duplicate port ordinal in definition '' @ dt_id d),
      (\<not> distinct (map md_name (dt_modports d)), ''duplicate modport in definition '' @ dt_id d),
      (\<not> distinct (map af_id (dt_assignments d)), ''duplicate assignment id in definition '' @ dt_id d)])"

definition mk_definition :: "definition_template \<Rightarrow> definition_template result" where
  "mk_definition d = checked (definition_checks d) d"

definition definition_ok :: "definition_template \<Rightarrow> bool" where
  "definition_ok d \<longleftrightarrow> location_ok (dt_location d) \<and> list_all port_decl_ok (dt_ports d) \<and>
     list_all signal_decl_ok (dt_signals d) \<and> list_all packed_member_ok (dt_members d) \<and>
     list_all modport_decl_ok (dt_modports d) \<and> list_all assignment_ok (dt_assignments d) \<and>
     passes (definition_checks d)"

definition direct_signal_range :: "definition_template \<Rightarrow> string \<Rightarrow> bit_range_decl option" where
  "direct_signal_range d symb =
     (case List.find (\<lambda>p. pd_name p = symb) (dt_ports d) of
        Some p \<Rightarrow> Some (pd_range p)
      | None \<Rightarrow> map_option sd_range (List.find (\<lambda>s. sd_name s = symb) (dt_signals d)))"

definition definition_port :: "definition_template \<Rightarrow> string \<Rightarrow> port_decl option" where
  "definition_port d n = List.find (\<lambda>p. pd_name p = n) (dt_ports d)"

definition definition_member :: "definition_template \<Rightarrow> string \<Rightarrow> packed_member option" where
  "definition_member d n = List.find (\<lambda>m. pm_name m = n) (dt_members d)"

definition definition_to_json :: "definition_template \<Rightarrow> json" where
  "definition_to_json d = JObj [(''definition_id'', JStr (dt_id d)), (''name'', JStr (dt_name d)),
     (''kind'', enum_to_json DEFINITION_KINDS (dt_kind d)), (''location'', location_to_json (dt_location d)),
     (''ports'', JArr (map port_decl_to_json (dt_ports d))),
     (''signals'', JArr (map signal_decl_to_json (dt_signals d))),
     (''packed_members'', JArr (map packed_member_to_json (dt_members d))),
     (''modports'', JArr (map modport_decl_to_json (dt_modports d))),
     (''assignments'', JArr (map assignment_to_json (dt_assignments d)))]"

definition definition_from_json :: "json \<Rightarrow> definition_template result" where
  "definition_from_json p =
     ebind (list_field_or_empty port_decl_from_json p ''ports'') (\<lambda>ps.
     ebind (list_field_or_empty signal_decl_from_json p ''signals'') (\<lambda>ss.
     ebind (list_field_or_empty modport_decl_from_json p ''modports'') (\<lambda>ms.
     ebind (list_field_or_empty packed_member_from_json p ''packed_members'') (\<lambda>pms.
     ebind (str_field p ''definition_id'') (\<lambda>i.
     ebind (str_field p ''name'') (\<lambda>n.
     ebind (enum_field ''DefinitionKind'' DEFINITION_KINDS p ''kind'') (\<lambda>k.
     ebind (ebind (py_getitem p ''location'') location_from_json) (\<lambda>l.
     ebind (list_field_or_empty assignment_from_json p ''assignments'') (\<lambda>as.
       mk_definition \<lparr>dt_id = i, dt_name = n, dt_kind = k, dt_location = l, dt_ports = ps, dt_signals = ss,
         dt_members = pms, dt_modports = ms, dt_assignments = as\<rparr>)))))))))"

lemmas ir_list_enc = port_decl_codec.list_field_or_empty_enc signal_decl_codec.list_field_or_empty_enc
  modport_decl_codec.list_field_or_empty_enc packed_member_codec.list_field_or_empty_enc
  assignment_codec.list_field_or_empty_enc bit_mapping_codec.list_field_or_empty_enc

lemmas ir_list_ok = port_decl_codec.list_field_or_empty_ok signal_decl_codec.list_field_or_empty_ok
  modport_decl_codec.list_field_or_empty_ok packed_member_codec.list_field_or_empty_ok
  assignment_codec.list_field_or_empty_ok bit_mapping_codec.list_field_or_empty_ok

interpretation definition_codec: json_codec definition_to_json definition_from_json definition_ok
proof
  fix x :: definition_template and p
  show "definition_ok x \<Longrightarrow> definition_from_json (definition_to_json x) = Inr x"
    by (cases x) (simp add: definition_from_json_def definition_to_json_def json_simps mk_definition_def
        definition_ok_def sub_codecs ir_list_enc)
  show "definition_from_json p = Inr x \<Longrightarrow> definition_ok x"
    by (auto simp: definition_from_json_def mk_definition_def definition_ok_def err_simps
        dest: location_codec.dec_ok ir_list_ok)
  show "definition_to_json x \<noteq> JNull" by (simp add: definition_to_json_def)
qed

section \<open>Instances and port bindings\<close>

definition pair_to_strs :: "string \<times> string \<Rightarrow> json" where
  "pair_to_strs kv = JStrs [fst kv, snd kv]"

definition pair_of_strs :: "json \<Rightarrow> (string \<times> string) result" where
  "pair_of_strs v = ebind (py_pair v) (\<lambda>(a, b). Inr (py_str a, py_str b))"

interpretation pair_codec: json_codec pair_to_strs pair_of_strs "\<lambda>_. True"
proof
  fix x :: "string \<times> string" and p
  show "pair_of_strs (pair_to_strs x) = Inr x"
    by (simp add: pair_of_strs_def pair_to_strs_def JStrs_def)
  show "pair_to_strs x \<noteq> JNull" by (simp add: pair_to_strs_def JStrs_def)
qed simp

record instance_decl =
  id_path :: string
  id_name :: string
  id_definition :: string
  id_parent :: "string option"
  id_location :: source_location
  id_generate :: "string option"
  id_parameters :: "(string \<times> string) list"

definition instance_checks :: "instance_decl \<Rightarrow> (bool \<times> string) list" where
  "instance_checks i =
     [(id_path i = [] \<or> id_name i = [] \<or> id_definition i = [],
         ''instance path, name, and definition id must not be empty''),
      (id_parent i = Some (id_path i), ''instance cannot be its own parent''),
      (\<not> distinct (map fst (id_parameters i)), ''duplicate instance parameter on '' @ id_path i)]"

definition mk_instance :: "instance_decl \<Rightarrow> instance_decl result" where
  "mk_instance i = checked (instance_checks i) i"

definition instance_ok :: "instance_decl \<Rightarrow> bool" where
  "instance_ok i \<longleftrightarrow> location_ok (id_location i) \<and> passes (instance_checks i)"

definition instance_to_json :: "instance_decl \<Rightarrow> json" where
  "instance_to_json i = JObj [(''path'', JStr (id_path i)), (''name'', JStr (id_name i)),
     (''definition_id'', JStr (id_definition i)), (''parent_path'', JOptStr (id_parent i)),
     (''location'', location_to_json (id_location i)), (''generate_scope'', JOptStr (id_generate i)),
     (''parameterization'', JArr (map pair_to_strs (id_parameters i)))]"

definition instance_from_json :: "json \<Rightarrow> instance_decl result" where
  "instance_from_json p =
     ebind (str_field p ''path'') (\<lambda>pa.
     ebind (str_field p ''name'') (\<lambda>n.
     ebind (str_field p ''definition_id'') (\<lambda>d.
     ebind (opt_str_field p ''parent_path'') (\<lambda>pp.
     ebind (ebind (py_getitem p ''location'') location_from_json) (\<lambda>l.
     ebind (opt_str_field p ''generate_scope'') (\<lambda>g.
     ebind (list_field_or_empty pair_of_strs p ''parameterization'') (\<lambda>ps.
       mk_instance \<lparr>id_path = pa, id_name = n, id_definition = d, id_parent = pp, id_location = l,
         id_generate = g, id_parameters = ps\<rparr>)))))))"

interpretation instance_codec: json_codec instance_to_json instance_from_json instance_ok
proof
  fix x :: instance_decl and p
  show "instance_ok x \<Longrightarrow> instance_from_json (instance_to_json x) = Inr x"
    by (cases x) (simp add: instance_from_json_def instance_to_json_def json_simps mk_instance_def
        instance_ok_def sub_codecs pair_codec.list_field_or_empty_enc list.pred_True)
  show "instance_from_json p = Inr x \<Longrightarrow> instance_ok x"
    by (auto simp: instance_from_json_def mk_instance_def instance_ok_def err_simps dest: location_codec.dec_ok)
  show "instance_to_json x \<noteq> JNull" by (simp add: instance_to_json_def)
qed

record port_binding =
  pb_id :: string
  pb_instance :: string
  pb_port :: string
  pb_direction :: port_direction
  pb_style :: binding_style
  pb_mappings :: "bit_mapping list"
  pb_evidence :: source_evidence
  pb_position :: "int option"
  pb_interface :: "string option"
  pb_modport :: "string option"

definition binding_checks :: "port_binding \<Rightarrow> (bool \<times> string) list" where
  "binding_checks b =
     [(pb_id b = [] \<or> pb_instance b = [] \<or> pb_port b = [],
         ''binding id, instance path, and port name must not be empty''),
      (pb_mappings b = [], ''port binding must contain at least one bit mapping''),
      (pb_style b = StylePositional \<and> pb_position b = None, ''positional binding requires port_position''),
      ((case pb_position b of None \<Rightarrow> False | Some k \<Rightarrow> k < 0), ''port_position must not be negative''),
      (if pb_style b = StyleInterface \<or> pb_style b = StyleModport
       then (\<not> given (pb_interface b), ''interface binding requires interface_definition'')
       else (given (pb_interface b) \<or> given (pb_modport b), ''plain binding cannot name an interface or modport''))] @
     concat (map (\<lambda>m.
       [(ss_path (bm_target m) = None, ''port binding mappings must be hierarchy-bound''),
        (bm_kind m = SrcSignal \<and> (case bm_source m of None \<Rightarrow> False | Some s \<Rightarrow> ss_path s = None),
           ''port binding mappings must be hierarchy-bound'')]) (pb_mappings b))"

definition mk_binding :: "port_binding \<Rightarrow> port_binding result" where
  "mk_binding b = checked (binding_checks b) b"

definition binding_ok :: "port_binding \<Rightarrow> bool" where
  "binding_ok b \<longleftrightarrow> list_all bit_mapping_ok (pb_mappings b) \<and> evidence_ok (pb_evidence b) \<and>
     passes (binding_checks b)"

definition binding_edge_kind :: "port_binding \<Rightarrow> edge_kind result" where
  "binding_edge_kind b =
     (if pb_style b = StyleInterface \<or> pb_style b = StyleModport then Inr EdgeInterfaceBind
      else (case pb_direction b of
        DirInput \<Rightarrow> Inr EdgePortBindInput
      | DirOutput \<Rightarrow> Inr EdgePortBindOutput
      | DirInout \<Rightarrow> Inr EdgePortBindInout
      | DirInterface \<Rightarrow> Inl (KeyError ''interface'')))"

definition binding_to_json :: "port_binding \<Rightarrow> json" where
  "binding_to_json b = JObj [(''binding_id'', JStr (pb_id b)), (''instance_path'', JStr (pb_instance b)),
     (''port_name'', JStr (pb_port b)), (''direction'', enum_to_json PORT_DIRECTIONS (pb_direction b)),
     (''style'', enum_to_json BINDING_STYLES (pb_style b)),
     (''mappings'', JArr (map bit_mapping_to_json (pb_mappings b))),
     (''evidence'', evidence_to_json (pb_evidence b)), (''port_position'', jopt JInt (pb_position b)),
     (''interface_definition'', JOptStr (pb_interface b)), (''modport'', JOptStr (pb_modport b))]"

definition binding_from_json :: "json \<Rightarrow> port_binding result" where
  "binding_from_json p =
     ebind (str_field p ''binding_id'') (\<lambda>i.
     ebind (str_field p ''instance_path'') (\<lambda>ip.
     ebind (str_field p ''port_name'') (\<lambda>n.
     ebind (enum_field ''PortDirection'' PORT_DIRECTIONS p ''direction'') (\<lambda>d.
     ebind (enum_field ''BindingStyle'' BINDING_STYLES p ''style'') (\<lambda>s.
     ebind (list_field_or_empty bit_mapping_from_json p ''mappings'') (\<lambda>ms.
     ebind (ebind (py_getitem p ''evidence'') evidence_from_json) (\<lambda>e.
     ebind (opt_field py_int p ''port_position'') (\<lambda>pp.
     ebind (opt_str_field p ''interface_definition'') (\<lambda>idf.
     ebind (opt_str_field p ''modport'') (\<lambda>m.
       mk_binding \<lparr>pb_id = i, pb_instance = ip, pb_port = n, pb_direction = d, pb_style = s, pb_mappings = ms,
         pb_evidence = e, pb_position = pp, pb_interface = idf, pb_modport = m\<rparr>))))))))))"

lemma opt_int_field [json_simps]:
  "map_of kvs k = Some (jopt JInt x) \<Longrightarrow> opt_field py_int (JObj kvs) k = Inr x"
  by (cases x) (simp_all add: opt_field_def py_get_JObj jopt_def)

interpretation binding_codec: json_codec binding_to_json binding_from_json binding_ok
proof
  fix x :: port_binding and p
  show "binding_ok x \<Longrightarrow> binding_from_json (binding_to_json x) = Inr x"
    by (cases x) (simp add: binding_from_json_def binding_to_json_def json_simps mk_binding_def binding_ok_def
        sub_codecs ir_list_enc)
  show "binding_from_json p = Inr x \<Longrightarrow> binding_ok x"
    by (auto simp: binding_from_json_def mk_binding_def binding_ok_def err_simps
        dest: evidence_codec.dec_ok ir_list_ok)
  show "binding_to_json x \<noteq> JNull" by (simp add: binding_to_json_def)
qed

section \<open>Coverage\<close>

record coverage_gap =
  cg_code :: string
  cg_message :: string
  cg_impact :: coverage_status
  cg_constructs :: "string list"
  cg_scopes :: "string list"
  cg_location :: "source_location option"

definition gap_checks :: "coverage_gap \<Rightarrow> (bool \<times> string) list" where
  "gap_checks g =
     [(cg_code g = [] \<or> cg_message g = [], ''coverage gap code and message must not be empty''),
      (cg_impact g = CovComplete, ''coverage gap impact cannot be complete'')]"

definition mk_gap :: "coverage_gap \<Rightarrow> coverage_gap result" where
  "mk_gap g = checked (gap_checks g) g"

definition gap_ok :: "coverage_gap \<Rightarrow> bool" where
  "gap_ok g \<longleftrightarrow> (case cg_location g of None \<Rightarrow> True | Some l \<Rightarrow> location_ok l) \<and> passes (gap_checks g)"

definition gap_affects :: "coverage_gap \<Rightarrow> string \<Rightarrow> bool" where
  "gap_affects g path =
     (if cg_scopes g = [] \<or> ''*'' \<in> set (cg_scopes g) then True
      else list_ex (\<lambda>scope. path = scope \<or> starts_with (scope @ ''.'') path \<or> starts_with (path @ ''.'') scope)
             (cg_scopes g))"

definition gap_to_json :: "coverage_gap \<Rightarrow> json" where
  "gap_to_json g = JObj [(''code'', JStr (cg_code g)), (''message'', JStr (cg_message g)),
     (''impact'', enum_to_json COVERAGE_STATUSES (cg_impact g)), (''constructs'', JStrs (cg_constructs g)),
     (''scopes'', JStrs (cg_scopes g)), (''location'', jopt location_to_json (cg_location g))]"

definition gap_from_json :: "json \<Rightarrow> coverage_gap result" where
  "gap_from_json p =
     ebind (str_field p ''code'') (\<lambda>c.
     ebind (str_field p ''message'') (\<lambda>m.
     ebind (enum_field ''CoverageStatus'' COVERAGE_STATUSES p ''impact'') (\<lambda>i.
     ebind (list_field_or_empty (\<lambda>v. Inr (py_str v)) p ''constructs'') (\<lambda>cs.
     ebind (list_field_or_empty (\<lambda>v. Inr (py_str v)) p ''scopes'') (\<lambda>ss.
     ebind (opt_field location_from_json p ''location'') (\<lambda>l.
       mk_gap \<lparr>cg_code = c, cg_message = m, cg_impact = i, cg_constructs = cs, cg_scopes = ss,
         cg_location = l\<rparr>))))))"

interpretation gap_codec: json_codec gap_to_json gap_from_json gap_ok
proof
  fix x :: coverage_gap and p
  assume ok: "gap_ok x"
  have l: "opt_field location_from_json (JObj kvs) ''location'' = Inr (cg_location x)"
    if k: "map_of kvs ''location'' = Some (jopt location_to_json (cg_location x))" for kvs
  proof -
    have "location_ok a" if "cg_location x = Some a" for a using ok that by (simp add: gap_ok_def)
    then show ?thesis using location_codec.opt_field_enc [OF k] by blast
  qed
  show "gap_from_json (gap_to_json x) = Inr x"
    using ok l by (cases x) (simp add: gap_from_json_def gap_to_json_def json_simps mk_gap_def gap_ok_def)
next
  fix x :: coverage_gap and p
  assume "gap_from_json p = Inr x"
  then obtain l where l: "opt_field location_from_json p ''location'' = Inr l" "cg_location x = l" "passes (gap_checks x)"
    by (auto simp: gap_from_json_def mk_gap_def err_simps)
  have "location_ok a" if "l = Some a" for a using l(1) that location_codec.opt_field_ok by blast
  then show "gap_ok x" using l by (auto simp: gap_ok_def split: option.split)
qed (simp add: gap_to_json_def)

record coverage_report =
  cr_status :: coverage_status
  cr_total :: int
  cr_projected :: int
  cr_gaps :: "coverage_gap list"
  cr_diagnostics :: int
  cr_blocking :: int

definition coverage_checks :: "coverage_report \<Rightarrow> (bool \<times> string) list" where
  "coverage_checks c =
     [(cr_total c < 0 \<or> cr_projected c < 0, ''coverage file counts must not be negative''),
      (cr_projected c > cr_total c, ''files_projected cannot exceed files_total''),
      (cr_diagnostics c < 0 \<or> cr_blocking c < 0, ''diagnostic counts must not be negative''),
      (cr_blocking c > cr_diagnostics c, ''blocking diagnostics cannot exceed total diagnostics''),
      (cr_status c = CovComplete \<and> cr_gaps c \<noteq> [], ''complete coverage cannot contain coverage gaps''),
      (cr_status c = CovComplete \<and> (cr_projected c \<noteq> cr_total c \<or> cr_blocking c \<noteq> 0),
         ''complete coverage requires all files and no blocking diagnostics'')]"

definition mk_coverage :: "coverage_report \<Rightarrow> coverage_report result" where
  "mk_coverage c = checked (coverage_checks c) c"

definition coverage_ok :: "coverage_report \<Rightarrow> bool" where
  "coverage_ok c \<longleftrightarrow> list_all gap_ok (cr_gaps c) \<and> passes (coverage_checks c)"

definition coverage_to_json :: "coverage_report \<Rightarrow> json" where
  "coverage_to_json c = JObj [(''status'', enum_to_json COVERAGE_STATUSES (cr_status c)),
     (''files_total'', JInt (cr_total c)), (''files_projected'', JInt (cr_projected c)),
     (''gaps'', JArr (map gap_to_json (cr_gaps c))), (''diagnostic_count'', JInt (cr_diagnostics c)),
     (''blocking_diagnostic_count'', JInt (cr_blocking c))]"

definition coverage_from_json :: "json \<Rightarrow> coverage_report result" where
  "coverage_from_json p =
     ebind (list_field_or_empty gap_from_json p ''gaps'') (\<lambda>gs.
     ebind (enum_field ''CoverageStatus'' COVERAGE_STATUSES p ''status'') (\<lambda>s.
     ebind (int_field p ''files_total'') (\<lambda>t.
     ebind (int_field p ''files_projected'') (\<lambda>f.
     ebind (ebind (py_get p ''diagnostic_count'' (JInt 0)) py_int) (\<lambda>d.
     ebind (ebind (py_get p ''blocking_diagnostic_count'' (JInt 0)) py_int) (\<lambda>b.
       mk_coverage \<lparr>cr_status = s, cr_total = t, cr_projected = f, cr_gaps = gs, cr_diagnostics = d,
         cr_blocking = b\<rparr>))))))"

interpretation coverage_codec: json_codec coverage_to_json coverage_from_json coverage_ok
proof
  fix x :: coverage_report and p
  show "coverage_ok x \<Longrightarrow> coverage_from_json (coverage_to_json x) = Inr x"
    by (cases x) (simp add: coverage_from_json_def coverage_to_json_def json_simps mk_coverage_def coverage_ok_def
        gap_codec.list_field_or_empty_enc)
  show "coverage_from_json p = Inr x \<Longrightarrow> coverage_ok x"
    by (auto simp: coverage_from_json_def mk_coverage_def coverage_ok_def err_simps
        dest: gap_codec.list_field_or_empty_ok)
  show "coverage_to_json x \<noteq> JNull" by (simp add: coverage_to_json_def)
qed

end
