(* ===== verification/Ir_Document.thy ===== *)
theory Ir_Document
  imports Ir_Model
begin

text \<open>
  \<open>ConnectivityIR\<close> of src/src/connectivity_ir.py: the cross-reference checks of its
  \<open>__post_init__\<close>, \<open>stats\<close>, \<open>to_dict\<close> (the plain \<open>asdict\<close> of the canonical, sorted document),
  \<open>from_dict\<close>, and \<open>selections_for_concat\<close>.
\<close>

definition CONNECTIVITY_IR_VERSION :: string where
  "CONNECTIVITY_IR_VERSION = ''1.5''"

record connectivity_ir =
  ir_frontend :: string
  ir_frontend_version :: string
  ir_definitions :: "definition_template list"
  ir_instances :: "instance_decl list"
  ir_bindings :: "port_binding list"
  ir_coverage :: coverage_report
  ir_tops :: "string list"
  ir_metadata :: "(string \<times> string) list"

section \<open>Cross-reference checks\<close>

definition instance_refs :: "string list \<Rightarrow> string list \<Rightarrow> instance_decl \<Rightarrow> (bool \<times> string) list" where
  "instance_refs defs paths i =
     [(id_definition i \<notin> set defs,
         ''instance '' @ id_path i @ '' references unknown definition '' @ id_definition i),
      ((case id_parent i of None \<Rightarrow> False | Some p \<Rightarrow> p \<notin> set paths),
         ''instance '' @ id_path i @ '' references unknown parent '' @
           (case id_parent i of None \<Rightarrow> ''None'' | Some p \<Rightarrow> p))]"

definition top_refs :: "instance_decl list \<Rightarrow> string \<Rightarrow> (bool \<times> string) list" where
  "top_refs insts t =
     [(t \<notin> set (map id_path insts), ''top instance '' @ t @ '' is not present in instances''),
      ((case List.find (\<lambda>i. id_path i = t) insts of None \<Rightarrow> False | Some i \<Rightarrow> id_parent i \<noteq> None),
         ''top instance '' @ t @ '' must not have a parent'')]"

definition mapping_selections :: "bit_mapping \<Rightarrow> signal_selection list" where
  "mapping_selections m = (case bm_source m of Some s \<Rightarrow> [s, bm_target m] | None \<Rightarrow> [bm_target m])"

definition binding_refs :: "string list \<Rightarrow> port_binding \<Rightarrow> (bool \<times> string) list" where
  "binding_refs paths b =
     (pb_instance b \<notin> set paths, ''binding '' @ pb_id b @ '' references unknown instance '' @ pb_instance b) #
     concat (map (\<lambda>m. map (\<lambda>s. (ss_path s \<notin> Some ` set paths,
         ''binding '' @ pb_id b @ '' references unknown endpoint '' @
           (case ss_path s of None \<Rightarrow> ''None'' | Some p \<Rightarrow> p))) (mapping_selections m)) (pb_mappings b))"

definition ir_checks :: "connectivity_ir \<Rightarrow> (bool \<times> string) list" where
  "ir_checks ir =
     (let defs = map dt_id (ir_definitions ir); paths = map id_path (ir_instances ir) in
      [(ir_frontend ir = [] \<or> ir_frontend_version ir = [], ''frontend name and version must not be empty''),
       (\<not> distinct defs, ''definition ids must be unique''),
       (\<not> distinct paths, ''instance paths must be unique''),
       (\<not> distinct (map pb_id (ir_bindings ir)), ''binding ids must be unique'')] @
      concat (map (instance_refs defs paths) (ir_instances ir)) @
      concat (map (top_refs (ir_instances ir)) (ir_tops ir)) @
      concat (map (binding_refs paths) (ir_bindings ir)) @
      [(\<not> distinct (map fst (ir_metadata ir)), ''metadata keys must be unique'')])"

definition mk_ir :: "connectivity_ir \<Rightarrow> connectivity_ir result" where
  "mk_ir ir = checked (ir_checks ir) ir"

definition ir_ok :: "connectivity_ir \<Rightarrow> bool" where
  "ir_ok ir \<longleftrightarrow> list_all definition_ok (ir_definitions ir) \<and> list_all instance_ok (ir_instances ir) \<and>
     list_all binding_ok (ir_bindings ir) \<and> coverage_ok (ir_coverage ir) \<and> passes (ir_checks ir)"

section \<open>Lookups and stats\<close>

text \<open>The dict comprehensions keep the last entry of a key.\<close>

definition definition_index :: "connectivity_ir \<Rightarrow> string \<rightharpoonup> definition_template" where
  "definition_index ir = map_of (rev (map (\<lambda>d. (dt_id d, d)) (ir_definitions ir)))"

definition instance_index :: "connectivity_ir \<Rightarrow> string \<rightharpoonup> instance_decl" where
  "instance_index ir = map_of (rev (map (\<lambda>i. (id_path i, i)) (ir_instances ir)))"

definition ir_stats :: "connectivity_ir \<Rightarrow> (string \<times> nat) list" where
  "ir_stats ir =
     (let ds = ir_definitions ir;
          signals = sum_list (map (\<lambda>d. length (dt_ports d) + length (dt_signals d)) ds);
          assigns = sum_list (map (\<lambda>d. length (dt_assignments d)) ds);
          deps = sum_list (map (\<lambda>d. sum_list (map (\<lambda>a. length (af_dependencies a)) (dt_assignments d))) ds);
          segments = sum_list (map (\<lambda>b. length (pb_mappings b)) (ir_bindings ir))
      in [(''definition_count'', length ds), (''instance_count'', length (ir_instances ir)),
          (''signal_decl_count'', signals),
          (''packed_member_count'', sum_list (map (\<lambda>d. length (dt_members d)) ds)),
          (''modport_count'', sum_list (map (\<lambda>d. length (dt_modports d)) ds)),
          (''binding_count'', length (ir_bindings ir)), (''binding_segment_count'', segments),
          (''assignment_count'', assigns), (''dependency_count'', deps),
          (''node_count'', length ds + length (ir_instances ir) + signals),
          (''edge_count'', segments + assigns + deps)])"

section \<open>to\_dict and from\_dict\<close>

definition canonical_definition :: "definition_template \<Rightarrow> definition_template" where
  "canonical_definition d = d\<lparr>
     dt_ports := sort_key (\<lambda>p. (pd_ordinal p, pd_name p)) (dt_ports d),
     dt_signals := sort_key sd_name (dt_signals d),
     dt_members := sort_key pm_name (dt_members d),
     dt_modports := sort_key md_name (dt_modports d),
     dt_assignments := sort_key af_id (dt_assignments d)\<rparr>"

definition gap_key :: "coverage_gap \<Rightarrow> string \<times> string \<times> int" where
  "gap_key g = (cg_code g, case cg_location g of None \<Rightarrow> ([], 0) | Some l \<Rightarrow> (loc_file l, loc_line l))"

definition canonical_coverage :: "coverage_report \<Rightarrow> coverage_report" where
  "canonical_coverage c = c\<lparr>cr_gaps := sort_key gap_key (cr_gaps c)\<rparr>"

definition canonical :: "connectivity_ir \<Rightarrow> connectivity_ir" where
  "canonical ir = ir\<lparr>
     ir_definitions := map canonical_definition (sort_key dt_id (ir_definitions ir)),
     ir_instances := sort_key id_path (ir_instances ir),
     ir_bindings := sort_key pb_id (ir_bindings ir),
     ir_coverage := canonical_coverage (ir_coverage ir),
     ir_tops := sort (ir_tops ir),
     ir_metadata := sort (ir_metadata ir)\<rparr>"

definition ir_asdict :: "connectivity_ir \<Rightarrow> json" where
  "ir_asdict ir = JObj [(''frontend_name'', JStr (ir_frontend ir)),
     (''frontend_version'', JStr (ir_frontend_version ir)),
     (''definitions'', JArr (map definition_to_json (ir_definitions ir))),
     (''instances'', JArr (map instance_to_json (ir_instances ir))),
     (''bindings'', JArr (map binding_to_json (ir_bindings ir))),
     (''coverage'', coverage_to_json (ir_coverage ir)), (''top_instances'', JStrs (ir_tops ir)),
     (''metadata'', JArr (map pair_to_strs (ir_metadata ir))),
     (''ir_version'', JStr CONNECTIVITY_IR_VERSION)]"

definition ir_to_dict :: "connectivity_ir \<Rightarrow> json" where
  "ir_to_dict ir = ir_asdict (canonical ir)"

definition ir_from_dict :: "json \<Rightarrow> connectivity_ir result" where
  "ir_from_dict p =
     ebind (py_get p ''ir_version'' JNull) (\<lambda>ver.
     if ver \<noteq> JStr CONNECTIVITY_IR_VERSION then
       Inl (ValueError (''unsupported connectivity IR version '' @ py_repr ver @ ''; expected '' @
         repr_str CONNECTIVITY_IR_VERSION))
     else
       ebind (list_field definition_from_json p ''definitions'') (\<lambda>ds.
       ebind (list_field instance_from_json p ''instances'') (\<lambda>is'.
       ebind (list_field binding_from_json p ''bindings'') (\<lambda>bs.
       ebind (ebind (py_getitem p ''coverage'') coverage_from_json) (\<lambda>c.
       ebind (str_field p ''frontend_name'') (\<lambda>fn.
       ebind (str_field p ''frontend_version'') (\<lambda>fv.
       ebind (list_field (\<lambda>v. Inr (py_str v)) p ''top_instances'') (\<lambda>ts.
       ebind (list_field_or_empty pair_of_strs p ''metadata'') (\<lambda>ms.
         mk_ir \<lparr>ir_frontend = fn, ir_frontend_version = fv, ir_definitions = ds, ir_instances = is',
           ir_bindings = bs, ir_coverage = c, ir_tops = ts, ir_metadata = ms\<rparr>)))))))))"

section \<open>selections\_for\_concat\<close>

fun concat_parts :: "signal_selection \<Rightarrow> nat \<Rightarrow> signal_selection list \<Rightarrow> dependency_fact list result" where
  "concat_parts target offset [] = Inr []"
| "concat_parts target offset (s # ss) =
     ebind (mk_selection \<lparr>ss_symbol = ss_symbol target,
              ss_bits = take (ss_width s) (drop offset (ss_bits target)), ss_path = None\<rparr>) (\<lambda>part.
     ebind (mk_dependency \<lparr>df_source = s, df_target = part, df_role = RoleData, df_exact = True,
              df_guard = None\<rparr>) (\<lambda>d.
     ebind (concat_parts target (offset + ss_width s) ss) (\<lambda>ds. Inr (d # ds))))"

definition selections_for_concat :: "signal_selection \<Rightarrow> signal_selection list \<Rightarrow> dependency_fact list result" where
  "selections_for_concat target sources =
     (if sum_list (map ss_width sources) \<noteq> ss_width target
      then Inl (ValueError ''concat source widths must equal target width'')
      else concat_parts target 0 sources)"

end
