(* ===== verification/Ir_Claims.thy ===== *)
theory Ir_Claims
  imports Ir_Document "HOL-Library.Multiset"
begin

text \<open>
  Properties of the connectivity IR: the cross-reference checks do not depend on the order of the
  collections, so the canonical document is valid and decodes to itself; the document does not
  depend on the order either; ranges, concatenations, paths and coverage gaps.
\<close>

section \<open>Checks and order\<close>

lemma find_unique:
  assumes "distinct (map f xs)"
  shows "List.find (\<lambda>x. f x = k) xs = Some x \<longleftrightarrow> x \<in> set xs \<and> f x = k"
proof -
  have "List.find (\<lambda>x. f x = k) xs = Some x" if "x \<in> set xs" "f x = k"
    using assms that by (induction xs) (auto simp: image_iff)
  then show ?thesis by (auto simp: find_Some_iff)
qed

lemma distinct_map_mset: "mset xs = mset ys \<Longrightarrow> distinct (map f xs) \<longleftrightarrow> distinct (map f ys)"
  by (intro mset_eq_imp_distinct_iff) (simp add: mset_map)

lemma distinct_map_sort_key [simp]: "distinct (map f (sort_key g xs)) \<longleftrightarrow> distinct (map f xs)"
  by (rule distinct_map_mset) simp

lemma list_all_sort_key [simp]: "list_all P (sort_key g xs) \<longleftrightarrow> list_all P xs"
  by (simp add: list_all_iff)

lemma list_ex_sort_key [simp]: "list_ex P (map f (sort_key g xs)) \<longleftrightarrow> list_ex P (map f xs)"
  by (simp add: list_ex_iff)

lemma passes_map_sort_key [simp]:
  "passes (concat (map f (sort_key g xs))) \<longleftrightarrow> passes (concat (map f xs))"
  by simp

lemma direct_ranges_perm:
  assumes "distinct (map pd_name (dt_ports d))" "distinct (map sd_name (dt_signals d))"
    and "\<not> list_ex (\<lambda>p. p \<in> set (map sd_name (dt_signals d))) (map pd_name (dt_ports d))"
    and "mset (dt_ports e) = mset (dt_ports d)" "mset (dt_signals e) = mset (dt_signals d)"
  shows "direct_ranges e = direct_ranges d"
proof -
  let ?l = "\<lambda>d. rev (map (\<lambda>p. (pd_name p, pd_range p)) (dt_ports d) @
     map (\<lambda>s. (sd_name s, sd_range s)) (dt_signals d))"
  have s: "set (dt_ports e) = set (dt_ports d)" "set (dt_signals e) = set (dt_signals d)"
    using assms(4,5) mset_eq_setD by blast+
  have d: "distinct (map fst (?l d))"
    using assms(1-3) by (auto simp: rev_map [symmetric] comp_def list_ex_iff simp del: rev_append)
  have e: "distinct (map fst (?l e))"
    using assms(1-3) s distinct_map_mset [OF assms(4), of pd_name] distinct_map_mset [OF assms(5), of sd_name]
    by (auto simp: rev_map [symmetric] comp_def list_ex_iff simp del: rev_append)
  have "set (?l e) = set (?l d)" using s by simp
  then show ?thesis
    using map_of_inject_set [OF e d] by (simp add: direct_ranges_def del: set_rev rev_append)
qed

lemma definition_checks_canonical:
  assumes "passes (definition_checks d)"
  shows "passes (definition_checks (canonical_definition d))"
proof -
  have k: "distinct (map pd_name (dt_ports d))" "distinct (map sd_name (dt_signals d))"
    "\<not> list_ex (\<lambda>p. p \<in> set (map sd_name (dt_signals d))) (map pd_name (dt_ports d))"
    using assms by (simp_all add: definition_checks_def Let_def)
  have "direct_ranges (canonical_definition d) = direct_ranges d"
    by (rule direct_ranges_perm [OF k]) (simp_all add: canonical_definition_def)
  then show ?thesis using assms
    by (simp add: definition_checks_def Let_def canonical_definition_def)
qed

lemma definition_ok_canonical: "definition_ok d \<Longrightarrow> definition_ok (canonical_definition d)"
  using definition_checks_canonical [of d] by (simp add: definition_ok_def) (simp add: canonical_definition_def)

lemma coverage_ok_canonical: "coverage_ok c \<Longrightarrow> coverage_ok (canonical_coverage c)"
proof -
  have "sort_key gap_key xs = [] \<longleftrightarrow> xs = []" for xs by (metis set_empty set_sort)
  then show "coverage_ok c \<Longrightarrow> coverage_ok (canonical_coverage c)"
    by (simp add: coverage_ok_def coverage_checks_def canonical_coverage_def)
qed

definition references_ok :: "connectivity_ir \<Rightarrow> bool" where
  "references_ok ir \<longleftrightarrow>
     ir_frontend ir \<noteq> [] \<and> ir_frontend_version ir \<noteq> [] \<and>
     distinct (map dt_id (ir_definitions ir)) \<and> distinct (map id_path (ir_instances ir)) \<and>
     distinct (map pb_id (ir_bindings ir)) \<and>
     (\<forall>i \<in> set (ir_instances ir). id_definition i \<in> dt_id ` set (ir_definitions ir) \<and>
        (\<forall>p. id_parent i = Some p \<longrightarrow> p \<in> id_path ` set (ir_instances ir))) \<and>
     (\<forall>t \<in> set (ir_tops ir). \<exists>i \<in> set (ir_instances ir). id_path i = t \<and> id_parent i = None) \<and>
     (\<forall>b \<in> set (ir_bindings ir). pb_instance b \<in> id_path ` set (ir_instances ir) \<and>
        (\<forall>m \<in> set (pb_mappings b). \<forall>s \<in> set (mapping_selections m).
           \<exists>p \<in> id_path ` set (ir_instances ir). ss_path s = Some p)) \<and>
     distinct (map fst (ir_metadata ir))"

lemma passes_map_single: "passes (map (\<lambda>x. (f x, g x)) xs) \<longleftrightarrow> (\<forall>x \<in> set xs. \<not> f x)"
  by (induction xs) auto

lemma top_refs_iff:
  assumes "distinct (map id_path insts)"
  shows "passes (top_refs insts t) \<longleftrightarrow> (\<exists>i \<in> set insts. id_path i = t \<and> id_parent i = None)"
proof (cases "List.find (\<lambda>i. id_path i = t) insts")
  case None
  then have n: "\<forall>i \<in> set insts. id_path i \<noteq> t" by (auto simp: find_None_iff)
  then have "t \<notin> set (map id_path insts)" by auto
  then show ?thesis using n by (simp add: top_refs_def)
next
  case (Some i)
  then have i: "i \<in> set insts" "id_path i = t" using find_unique [OF assms] by auto
  have "j = i" if "j \<in> set insts" "id_path j = t" for j
    using find_unique [OF assms, of t j] that Some by simp
  then have u: "(\<exists>j \<in> set insts. id_path j = t \<and> id_parent j = None) \<longleftrightarrow> id_parent i = None" using i by blast
  have "t \<in> set (map id_path insts)" using i by auto
  then show ?thesis using Some u by (simp add: top_refs_def)
qed

lemma ir_checks_iff: "passes (ir_checks ir) \<longleftrightarrow> references_ok ir"
proof (cases "distinct (map id_path (ir_instances ir))")
  case True
  have i: "passes (instance_refs (map dt_id (ir_definitions ir)) (map id_path (ir_instances ir)) i) \<longleftrightarrow>
      id_definition i \<in> dt_id ` set (ir_definitions ir) \<and>
      (\<forall>p. id_parent i = Some p \<longrightarrow> p \<in> id_path ` set (ir_instances ir))" for i
    by (cases "id_parent i") (auto simp: instance_refs_def)
  have b: "passes (binding_refs (map id_path (ir_instances ir)) b) \<longleftrightarrow>
      pb_instance b \<in> id_path ` set (ir_instances ir) \<and>
      (\<forall>m \<in> set (pb_mappings b). \<forall>s \<in> set (mapping_selections m).
           \<exists>p \<in> id_path ` set (ir_instances ir). ss_path s = Some p)" for b
    unfolding binding_refs_def passes_simps passes_concat
    by (auto simp: passes_map_single image_iff)
  show ?thesis
    using True unfolding ir_checks_def references_ok_def Let_def passes_simps passes_concat
    by (simp add: i b top_refs_iff [OF True] conj_ac)
next
  case False
  then show ?thesis by (simp add: ir_checks_def references_ok_def Let_def)
qed

lemma references_canonical:
  assumes "references_ok ir" shows "references_ok (canonical ir)"
proof -
  have c: "dt_id (canonical_definition d) = dt_id d" for d by (simp add: canonical_definition_def)
  then have m: "map dt_id (map canonical_definition ds) = map dt_id ds" for ds by simp
  have t: "distinct (map fst (sort xs)) = distinct (map fst xs)" for xs :: "(string \<times> string) list"
    by (rule distinct_map_mset) simp
  show ?thesis
    using assms unfolding references_ok_def canonical_def
    by (simp add: m t image_image c comp_def)
qed

lemma ir_ok_canonical: "ir_ok ir \<Longrightarrow> ir_ok (canonical ir)"
proof -
  assume "ir_ok ir"
  then show "ir_ok (canonical ir)"
    using references_canonical [of ir] coverage_ok_canonical [of "ir_coverage ir"] definition_ok_canonical
    by (auto simp: ir_ok_def ir_checks_iff canonical_def list_all_iff)
qed

interpretation ir_codec: json_codec ir_asdict ir_from_dict ir_ok
proof
  fix x :: connectivity_ir and p
  show "ir_ok x \<Longrightarrow> ir_from_dict (ir_asdict x) = Inr x"
    by (cases x) (simp add: ir_from_dict_def ir_asdict_def json_simps mk_ir_def ir_ok_def
        definition_codec.list_field_enc instance_codec.list_field_enc binding_codec.list_field_enc
        coverage_codec.dec_enc pair_codec.list_field_or_empty_enc list.pred_True)
  show "ir_from_dict p = Inr x \<Longrightarrow> ir_ok x"
    by (auto simp: ir_from_dict_def mk_ir_def ir_ok_def err_simps dest: definition_codec.list_field_ok
        instance_codec.list_field_ok binding_codec.list_field_ok coverage_codec.dec_ok split: if_splits)
  show "ir_asdict x \<noteq> JNull" by (simp add: ir_asdict_def)
qed

section \<open>Declared ranges\<close>

lemma unit_range_up: "unit_range a b 1 = map (\<lambda>k. a + int k) [0..<nat (b - a)]"
  by (simp add: unit_range_def)

lemma unit_range_down: "unit_range a b (- 1) = map (\<lambda>k. a - int k) [0..<nat (a - b)]"
  by (simp add: unit_range_def)

lemma br_indices_eq:
  "br_indices r = map (\<lambda>k. if br_left r > br_right r then br_left r - int k else br_left r + int k)
     [0..<nat (br_width r)]"
proof (cases "br_left r > br_right r")
  case True
  then have "nat (br_left r - (br_right r - 1)) = nat (br_width r)" by (simp add: br_width_def)
  then show ?thesis using True by (simp add: br_indices_def unit_range_down Let_def)
next
  case False
  then have "nat (br_right r + 1 - br_left r) = nat (br_width r)" by (simp add: br_width_def)
  then show ?thesis using False by (simp add: br_indices_def unit_range_up Let_def)
qed

lemma br_width_pos: "1 \<le> br_width r"
  by (simp add: br_width_def)

section \<open>Concatenation\<close>

lemma concat_parts_ok:
  assumes "selection_ok target" "ss_symbol target \<noteq> []"
  shows "offset + sum_list (map ss_width ss) \<le> ss_width target \<Longrightarrow>
     \<forall>s \<in> set ss. selection_ok s \<and> ss_path s = None \<Longrightarrow>
     \<exists>ds. concat_parts target offset ss = Inr ds \<and> map df_source ds = ss \<and>
       concat (map (\<lambda>d. ss_bits (df_target d)) ds) = take (sum_list (map ss_width ss)) (drop offset (ss_bits target)) \<and>
       (\<forall>d \<in> set ds. dependency_ok d \<and> ss_symbol (df_target d) = ss_symbol target)"
proof (induction ss arbitrary: offset)
  case Nil
  then show ?case by simp
next
  case (Cons s ss)
  let ?bits = "take (ss_width s) (drop offset (ss_bits target))"
  let ?part = "\<lparr>ss_symbol = ss_symbol target, ss_bits = ?bits, ss_path = None\<rparr>"
  have s: "selection_ok s" "ss_path s = None" using Cons.prems by auto
  have len: "length ?bits = ss_width s" using Cons.prems(1) by (simp add: ss_width_def)
  have "ss_width s \<noteq> 0" using s(1) by (simp add: selection_ok_def selection_checks_def ss_width_def)
  then have "?bits \<noteq> []" using len by (metis list.size(3))
  moreover have "distinct ?bits" using assms(1) by (simp add: selection_ok_def selection_checks_def)
  ultimately have part: "selection_ok ?part"
    using assms(2) by (auto simp: selection_ok_def selection_checks_def simp del: take_eq_Nil)
  let ?dep = "\<lparr>df_source = s, df_target = ?part, df_role = RoleData, df_exact = True, df_guard = None\<rparr>"
  have dep: "dependency_ok ?dep"
    using part s len by (simp add: dependency_ok_def dependency_checks_def ss_width_def)
  obtain ds where ds: "concat_parts target (offset + ss_width s) ss = Inr ds" "map df_source ds = ss"
    "concat (map (\<lambda>d. ss_bits (df_target d)) ds) =
       take (sum_list (map ss_width ss)) (drop (offset + ss_width s) (ss_bits target))"
    "\<forall>d \<in> set ds. dependency_ok d \<and> ss_symbol (df_target d) = ss_symbol target"
    using Cons.IH [of "offset + ss_width s"] Cons.prems by auto
  have "concat_parts target offset (s # ss) = Inr (?dep # ds)"
    using ds(1) part dep by (simp add: mk_selection_def mk_dependency_def selection_ok_def dependency_ok_def)
  moreover have "take (ss_width s + sum_list (map ss_width ss)) (drop offset (ss_bits target)) =
      ?bits @ take (sum_list (map ss_width ss)) (drop (offset + ss_width s) (ss_bits target))"
    by (simp add: take_add add.commute)
  ultimately show ?case using ds(2-4) dep by simp
qed

section \<open>Hierarchical scopes\<close>

text \<open>The dotted components of a path.\<close>

fun components_from :: "string \<Rightarrow> string \<Rightarrow> string list" where
  "components_from acc [] = [rev acc]"
| "components_from acc (c # cs) =
     (if c = CHR ''.'' then rev acc # components_from [] cs else components_from (c # acc) cs)"

definition components :: "string \<Rightarrow> string list" where
  "components s = components_from [] s"

fun join_dots :: "string list \<Rightarrow> string" where
  "join_dots [] = []"
| "join_dots [s] = s"
| "join_dots (s # t # ts) = s @ ''.'' @ join_dots (t # ts)"

lemma components_from_ne [simp]: "components_from acc s \<noteq> []"
  by (induction acc s rule: components_from.induct) auto

lemma components_from_append_dot:
  "components_from acc (s @ CHR ''.'' # t) = components_from acc s @ components_from [] t"
  by (induction acc s rule: components_from.induct) auto

lemma components_dot: "components (s @ ''.'' @ t) = components s @ components t"
  using components_from_append_dot [of "[]" s t] by (simp add: components_def)

lemma join_dots_components_from: "join_dots (components_from acc s) = rev acc @ s"
proof (induction acc s rule: components_from.induct)
  case (1 acc)
  then show ?case by simp
next
  case (2 acc c cs)
  show ?case
  proof (cases "c = CHR ''.''")
    case True
    obtain x xs where "components_from [] cs = x # xs" by (cases "components_from [] cs") auto
    then show ?thesis using 2 True by simp
  next
    case False
    then show ?thesis using 2 by simp
  qed
qed

lemma join_dots_components: "join_dots (components s) = s"
  by (simp add: components_def join_dots_components_from)

lemma join_dots_append: "xs \<noteq> [] \<Longrightarrow> ys \<noteq> [] \<Longrightarrow> join_dots (xs @ ys) = join_dots xs @ ''.'' @ join_dots ys"
proof (induction xs rule: join_dots.induct)
  case (2 s)
  then show ?case by (cases ys) auto
qed auto

lemma components_ne [simp]: "components s \<noteq> []"
  by (simp add: components_def)

lemma starts_with_components:
  "s = p \<or> starts_with (p @ ''.'') s \<longleftrightarrow> (\<exists>rest. components s = components p @ rest)"
proof
  assume "s = p \<or> starts_with (p @ ''.'') s"
  then consider "s = p" | t where "s = p @ ''.'' @ t"
    unfolding starts_with_iff append_assoc by blast
  then show "\<exists>rest. components s = components p @ rest"
  proof cases
    case 1
    then show ?thesis by simp
  next
    case 2
    then show ?thesis using components_dot [of p t] by blast
  qed
next
  assume "\<exists>rest. components s = components p @ rest"
  then obtain rest where r: "components s = components p @ rest" by blast
  show "s = p \<or> starts_with (p @ ''.'') s"
  proof (cases "rest = []")
    case True
    then have "join_dots (components s) = join_dots (components p)" using r by (simp only: append_Nil2)
    then have "s = p" by (simp only: join_dots_components)
    then show ?thesis ..
  next
    case False
    have "join_dots (components s) = join_dots (components p) @ ''.'' @ join_dots rest"
      unfolding r by (rule join_dots_append [OF components_ne False])
    then have "s = p @ ''.'' @ join_dots rest" by (simp only: join_dots_components)
    then have "starts_with (p @ ''.'') s" unfolding starts_with_iff append_assoc by blast
    then show ?thesis ..
  qed
qed

section \<open>Canonical order\<close>

lemma sort_key_perm:
  assumes "mset xs = mset ys" "distinct (map f xs)"
  shows "sort_key f xs = sort_key f ys"
proof -
  have "inj_on f (set xs)" using assms(2) by (simp add: distinct_map)
  then show ?thesis
    using sort_key_inj_key_eq [of xs "sort_key f ys" f] assms(1) by simp
qed

lemma sort_key_idem: "sort_key f (sort_key f xs) = sort_key f xs"
  by (rule sort_key_id_if_sorted) simp

lemma canonical_definition_idem: "canonical_definition (canonical_definition d) = canonical_definition d"
  by (simp add: canonical_definition_def sort_key_idem)

lemma dt_id_canonical [simp]: "dt_id (canonical_definition d) = dt_id d"
  by (simp add: canonical_definition_def)

lemma sort_key_map_id:
  "sort_key dt_id (map canonical_definition (sort_key dt_id ds)) = map canonical_definition (sort_key dt_id ds)"
  by (rule sort_key_id_if_sorted) (simp add: comp_def)

lemma canonical_idem: "canonical (canonical ir) = canonical ir"
  by (simp add: canonical_def sort_key_idem sort_key_map_id canonical_definition_idem comp_def
      canonical_coverage_def)

text \<open>Two documents that differ only in the order of their collections.\<close>

definition same_definition :: "definition_template \<Rightarrow> definition_template \<Rightarrow> bool" where
  "same_definition d e \<longleftrightarrow> dt_id d = dt_id e \<and> dt_name d = dt_name e \<and> dt_kind d = dt_kind e \<and>
     dt_location d = dt_location e \<and> mset (dt_ports d) = mset (dt_ports e) \<and>
     mset (dt_signals d) = mset (dt_signals e) \<and> mset (dt_members d) = mset (dt_members e) \<and>
     mset (dt_modports d) = mset (dt_modports e) \<and> mset (dt_assignments d) = mset (dt_assignments e)"

definition same_coverage :: "coverage_report \<Rightarrow> coverage_report \<Rightarrow> bool" where
  "same_coverage c e \<longleftrightarrow> cr_status c = cr_status e \<and> cr_total c = cr_total e \<and> cr_projected c = cr_projected e \<and>
     cr_diagnostics c = cr_diagnostics e \<and> cr_blocking c = cr_blocking e \<and> mset (cr_gaps c) = mset (cr_gaps e)"

definition same_document :: "connectivity_ir \<Rightarrow> connectivity_ir \<Rightarrow> bool" where
  "same_document a b \<longleftrightarrow> ir_frontend a = ir_frontend b \<and> ir_frontend_version a = ir_frontend_version b \<and>
     (\<exists>ds. mset ds = mset (ir_definitions b) \<and> list_all2 same_definition (ir_definitions a) ds) \<and>
     mset (ir_instances a) = mset (ir_instances b) \<and> mset (ir_bindings a) = mset (ir_bindings b) \<and>
     same_coverage (ir_coverage a) (ir_coverage b) \<and> mset (ir_tops a) = mset (ir_tops b) \<and>
     mset (ir_metadata a) = mset (ir_metadata b)"

lemma canonical_definition_same:
  assumes "definition_ok d" "same_definition d e"
  shows "canonical_definition d = canonical_definition e"
proof -
  have p: "passes (definition_checks d)" using assms(1) by (simp add: definition_ok_def)
  have "distinct (map (\<lambda>p. (pd_ordinal p, pd_name p)) (dt_ports d))" if "distinct (map pd_name (dt_ports d))"
    using that by (simp add: distinct_map inj_on_def)
  then show ?thesis
    using p assms(2) sort_key_perm [of "dt_ports d" "dt_ports e" "\<lambda>p. (pd_ordinal p, pd_name p)"]
      sort_key_perm [of "dt_signals d" "dt_signals e" sd_name]
      sort_key_perm [of "dt_members d" "dt_members e" pm_name]
      sort_key_perm [of "dt_modports d" "dt_modports e" md_name]
      sort_key_perm [of "dt_assignments d" "dt_assignments e" af_id]
    by (simp add: same_definition_def canonical_definition_def definition_checks_def Let_def)
qed

lemma insort_key_map:
  "(\<And>y. g (h y) = f y) \<Longrightarrow> map h (insort_key f x xs) = insort_key g (h x) (map h xs)"
  by (induction xs) auto

lemma sort_key_map:
  assumes "\<And>y. g (h y) = f y"
  shows "map h (sort_key f xs) = sort_key g (map h xs)"
  by (induction xs) (simp_all add: insort_key_map [where g = g and f = f, OF assms])

lemma canonical_definitions_same:
  assumes "list_all definition_ok as" "distinct (map dt_id as)" "mset ds = mset bs" "list_all2 same_definition as ds"
  shows "map canonical_definition (sort_key dt_id as) = map canonical_definition (sort_key dt_id bs)"
proof -
  have m: "map canonical_definition as = map canonical_definition ds"
    using assms(4,1) by (induction rule: list_all2_induct) (auto simp: canonical_definition_same)
  have "mset (map canonical_definition as) = mset (map canonical_definition bs)"
    unfolding m using assms(3) by simp
  moreover have "distinct (map dt_id (map canonical_definition as))" using assms(2) by (simp add: comp_def)
  ultimately have "sort_key dt_id (map canonical_definition as) = sort_key dt_id (map canonical_definition bs)"
    by (rule sort_key_perm)
  then show ?thesis by (simp add: sort_key_map [of dt_id])
qed

lemma canonical_same:
  assumes ok: "ir_ok a" and same: "same_document a b"
    and gaps: "distinct (map gap_key (cr_gaps (ir_coverage a)))"
  shows "canonical a = canonical b"
proof -
  have r: "references_ok a" using ok by (simp add: ir_ok_def ir_checks_iff)
  obtain ds where ds: "mset ds = mset (ir_definitions b)" "list_all2 same_definition (ir_definitions a) ds"
    using same by (auto simp: same_document_def)
  have d: "map canonical_definition (sort_key dt_id (ir_definitions a)) =
      map canonical_definition (sort_key dt_id (ir_definitions b))"
    using canonical_definitions_same [OF _ _ ds] ok r by (simp add: ir_ok_def references_ok_def)
  have i: "sort_key id_path (ir_instances a) = sort_key id_path (ir_instances b)"
    "sort_key pb_id (ir_bindings a) = sort_key pb_id (ir_bindings b)"
    using r same by (auto simp: references_ok_def same_document_def intro!: sort_key_perm)
  have t: "sort (ir_tops a) = sort (ir_tops b)" "sort (ir_metadata a) = sort (ir_metadata b)"
    using same by (auto simp: same_document_def intro!: properties_for_sort)
  have c: "canonical_coverage (ir_coverage a) = canonical_coverage (ir_coverage b)"
    using sort_key_perm [OF _ gaps, of "cr_gaps (ir_coverage b)"] same
    by (simp add: same_document_def same_coverage_def canonical_coverage_def)
  show ?thesis using d i t c same by (simp add: canonical_def same_document_def)
qed

section \<open>Properties\<close>

text \<open>C21. \<open>from_dict\<close> inverts \<open>to_dict\<close>: the document of a valid IR decodes to the same IR in
  canonical order, which is valid again and has the same document, so storing and reloading an IR
  any number of times neither loses anything nor changes its fingerprint.\<close>

theorem ir_roundtrip:
  assumes "ir_ok ir"
  shows "ir_from_dict (ir_to_dict ir) = Inr (canonical ir) \<and> ir_ok (canonical ir) \<and>
     ir_to_dict (canonical ir) = ir_to_dict ir"
  using ir_codec.dec_enc [OF ir_ok_canonical [OF assms]] ir_ok_canonical [OF assms]
  by (simp add: ir_to_dict_def canonical_idem)

text \<open>A small IR for the witnesses: a module with one port, one instance of it, one gap.\<close>

definition sample_location :: source_location where
  "sample_location = \<lparr>loc_file = ''a.sv'', loc_line = 3, loc_column = 1\<rparr>"

definition sample_port :: "string \<Rightarrow> int \<Rightarrow> port_decl" where
  "sample_port n k = \<lparr>pd_name = n, pd_direction = DirInput, pd_range = \<lparr>br_left = 1, br_right = 0\<rparr>,
     pd_ordinal = k, pd_location = sample_location, pd_interface = None, pd_modport = None\<rparr>"

definition sample_template :: "port_decl list \<Rightarrow> definition_template" where
  "sample_template ps = \<lparr>dt_id = ''m#1'', dt_name = ''m'', dt_kind = DefModule, dt_location = sample_location,
     dt_ports = ps, dt_signals = [], dt_members = [], dt_modports = [], dt_assignments = []\<rparr>"

definition sample_ir :: "port_decl list \<Rightarrow> connectivity_ir" where
  "sample_ir ps = \<lparr>ir_frontend = ''slang'', ir_frontend_version = ''7'', ir_definitions = [sample_template ps],
     ir_instances = [\<lparr>id_path = ''top'', id_name = ''top'', id_definition = ''m#1'', id_parent = None,
       id_location = sample_location, id_generate = None, id_parameters = [(''W'', ''2'')]\<rparr>],
     ir_bindings = [], ir_coverage = \<lparr>cr_status = CovPartial, cr_total = 2, cr_projected = 1,
       cr_gaps = [\<lparr>cg_code = ''c'', cg_message = ''m'', cg_impact = CovPartial, cg_constructs = [],
         cg_scopes = [''top''], cg_location = Some sample_location\<rparr>], cr_diagnostics = 0, cr_blocking = 0\<rparr>,
     ir_tops = [''top''], ir_metadata = [(''k'', ''v'')]\<rparr>"

definition ports_ba :: "port_decl list" where
  "ports_ba = [sample_port ''b'' 1, sample_port ''a'' 0]"

definition ports_ab :: "port_decl list" where
  "ports_ab = [sample_port ''a'' 0, sample_port ''b'' 1]"

lemmas sample_defs = sample_ir_def sample_template_def sample_port_def sample_location_def ports_ba_def
  ports_ab_def

lemma sample_ir_ok: "ir_ok (sample_ir ports_ba)"
  unfolding ir_ok_def ir_checks_iff
  by (simp add: sample_defs definition_ok_def definition_checks_def instance_ok_def instance_checks_def
      coverage_ok_def coverage_checks_def gap_ok_def gap_checks_def location_ok_def location_checks_def
      port_decl_ok_def port_decl_checks_def given_def references_ok_def Let_def)

theorem ir_roundtrip_witness:
  "ir_from_dict (ir_to_dict (sample_ir ports_ba)) = Inr (canonical (sample_ir ports_ba)) \<and>
   dt_ports (hd (ir_definitions (canonical (sample_ir ports_ba)))) = ports_ab"
proof -
  have "dt_ports (hd (ir_definitions (canonical (sample_ir ports_ba)))) = ports_ab"
    by (simp add: sample_defs canonical_def canonical_definition_def)
  then show ?thesis using ir_roundtrip [OF sample_ir_ok] by blast
qed

text \<open>C9. The document is deterministic: two valid IRs that differ only in the order of their
  definitions, instances, bindings, top instances and metadata, or of the ports, signals, members,
  modports and assignments inside a definition, or of coverage gaps with different keys, have the
  same \<open>to_dict\<close> and so the same fingerprint. Gaps with the same code, file and line keep
  their relative order, so the condition on gaps is needed.\<close>

theorem ir_order_independent:
  assumes "ir_ok a" "same_document a b" "distinct (map gap_key (cr_gaps (ir_coverage a)))"
  shows "ir_to_dict a = ir_to_dict b"
  using canonical_same [OF assms] by (simp add: ir_to_dict_def)

theorem ir_order_independent_witness:
  "sample_ir ports_ba \<noteq> sample_ir ports_ab \<and> ir_to_dict (sample_ir ports_ba) = ir_to_dict (sample_ir ports_ab)"
proof -
  have "same_definition (sample_template ports_ba) (sample_template ports_ab)"
    by (simp add: same_definition_def sample_template_def ports_ba_def ports_ab_def)
  then have s: "same_document (sample_ir ports_ba) (sample_ir ports_ab)"
    by (auto simp: same_document_def sample_ir_def same_coverage_def intro!: exI [of _ "[sample_template ports_ab]"])
  have g: "distinct (map gap_key (cr_gaps (ir_coverage (sample_ir ports_ba))))" by (simp add: sample_ir_def)
  have "sample_ir ports_ba \<noteq> sample_ir ports_ab" by (simp add: sample_defs)
  then show ?thesis using ir_order_independent [OF sample_ir_ok s g] by simp
qed

text \<open>C29. \<open>from_dict\<close> accepts only valid documents: every record of an accepted IR satisfies the
  checks of its class, and all references resolve: identifiers are unique, every instance names an
  existing definition and parent, every top instance exists and has no parent, and every binding
  and every bound selection names an existing instance.\<close>

theorem ir_from_dict_valid:
  assumes "ir_from_dict p = Inr ir"
  shows "ir_ok ir \<and> references_ok ir"
  using ir_codec.dec_ok [OF assms] by (simp add: ir_ok_def ir_checks_iff)

theorem ir_from_dict_valid_witness:
  "references_ok (canonical (sample_ir ports_ba))"
proof -
  have "ir_from_dict (ir_asdict (canonical (sample_ir ports_ba))) = Inr (canonical (sample_ir ports_ba))"
    by (rule ir_codec.dec_enc [OF ir_ok_canonical [OF sample_ir_ok]])
  then show ?thesis using ir_from_dict_valid by blast
qed

text \<open>A declared range lists its bits from left to right: as many as its width, starting at the
  left bound, ending at the right bound, in unit steps towards it, so without repetition and
  covering exactly the indices between the bounds.\<close>

theorem range_indices_ordered:
  "int (length (br_indices r)) = br_width r \<and> hd (br_indices r) = br_left r \<and> last (br_indices r) = br_right r \<and>
   distinct (br_indices r) \<and> set (br_indices r) = {min (br_left r) (br_right r)..max (br_left r) (br_right r)} \<and>
   (\<forall>k. Suc k < length (br_indices r) \<longrightarrow>
      br_indices r ! Suc k = br_indices r ! k + (if br_left r > br_right r then - 1 else 1))"
proof -
  let ?n = "nat (br_width r)" and ?down = "br_left r > br_right r"
  let ?f = "\<lambda>k. if ?down then br_left r - int k else br_left r + int k"
  have n: "0 < ?n" using br_width_pos [of r] by simp
  have eq: "br_indices r = map ?f [0..<?n]" by (rule br_indices_eq)
  have len: "length (br_indices r) = ?n" by (simp add: eq)
  have "hd (br_indices r) = ?f 0" using n by (simp add: eq hd_map)
  moreover have "last (br_indices r) = ?f (?n - 1)" using n by (simp add: eq last_map)
  moreover have "?f (?n - 1) = br_right r" using n by (auto simp: br_width_def)
  moreover have "distinct (br_indices r)" by (auto simp: eq distinct_map inj_on_def)
  moreover have "set (br_indices r) = {min (br_left r) (br_right r)..max (br_left r) (br_right r)}" (is "?A = ?B")
  proof
    show "?A \<subseteq> ?B" by (auto simp: eq br_width_def)
    show "?B \<subseteq> ?A"
    proof
      fix i assume i: "i \<in> ?B"
      have m: "nat \<bar>i - br_left r\<bar> \<in> set [0..<?n]" using i by (auto simp: br_width_def)
      have f: "?f (nat \<bar>i - br_left r\<bar>) = i" using i by auto
      have "?f (nat \<bar>i - br_left r\<bar>) \<in> ?f ` set [0..<?n]" using m by (rule imageI)
      then show "i \<in> ?A" unfolding eq set_map f .
    qed
  qed
  moreover have "br_indices r ! Suc k = br_indices r ! k + (if ?down then - 1 else 1)"
    if "Suc k < length (br_indices r)" for k using that by (auto simp: eq)
  ultimately show ?thesis using n len by simp
qed

theorem range_indices_ordered_witness:
  "br_indices \<lparr>br_left = 7, br_right = 5\<rparr> ! 2 = 5"
proof -
  let ?r = "\<lparr>br_left = 7, br_right = 5\<rparr>"
  have l: "length (br_indices ?r) = 3" by code_simp
  have step: "\<forall>k. Suc k < length (br_indices ?r) \<longrightarrow>
      br_indices ?r ! Suc k = br_indices ?r ! k + (if br_left ?r > br_right ?r then - 1 else 1)"
    and h: "hd (br_indices ?r) = 7"
    using range_indices_ordered [of ?r] by auto
  have "br_indices ?r ! 0 = 7" using h l by (cases "br_indices ?r") auto
  then show ?thesis using step [rule_format, of 0] step [rule_format, of 1] l by (simp add: numeral_2_eq_2)
qed

text \<open>C30. \<open>selections_for_concat\<close> splits a target exactly: when the operand widths add up to the
  width of the target, one exact data dependency per operand is returned, in operand order, each
  valid and on the target's symbol, and their target bits put one after the other are the bits of
  the target; otherwise the ValueError is raised and nothing is mapped.\<close>

theorem concat_partition:
  assumes "selection_ok target" "\<forall>s \<in> set sources. selection_ok s \<and> ss_path s = None"
  shows "if sum_list (map ss_width sources) = ss_width target
     then \<exists>ds. selections_for_concat target sources = Inr ds \<and> map df_source ds = sources \<and>
       concat (map (\<lambda>d. ss_bits (df_target d)) ds) = ss_bits target \<and>
       (\<forall>d \<in> set ds. dependency_ok d \<and> ss_symbol (df_target d) = ss_symbol target)
     else selections_for_concat target sources = Inl (ValueError ''concat source widths must equal target width'')"
proof (cases "sum_list (map ss_width sources) = ss_width target")
  case True
  have "ss_symbol target \<noteq> []" using assms(1) by (simp add: selection_ok_def selection_checks_def)
  then obtain ds where "concat_parts target 0 sources = Inr ds" "map df_source ds = sources"
    "concat (map (\<lambda>d. ss_bits (df_target d)) ds) = take (sum_list (map ss_width sources)) (drop 0 (ss_bits target))"
    "\<forall>d \<in> set ds. dependency_ok d \<and> ss_symbol (df_target d) = ss_symbol target"
    using concat_parts_ok [OF assms(1), of 0 sources] True assms(2) by auto
  then show ?thesis using True by (simp add: selections_for_concat_def ss_width_def)
next
  case False
  then show ?thesis by (simp add: selections_for_concat_def)
qed

theorem concat_partition_witness:
  "\<exists>ds. selections_for_concat \<lparr>ss_symbol = ''y'', ss_bits = [2, 1, 0], ss_path = None\<rparr>
       [\<lparr>ss_symbol = ''a'', ss_bits = [0], ss_path = None\<rparr>, \<lparr>ss_symbol = ''b'', ss_bits = [1, 0], ss_path = None\<rparr>] = Inr ds
     \<and> concat (map (\<lambda>d. ss_bits (df_target d)) ds) = [2, 1, 0]"
proof -
  let ?t = "\<lparr>ss_symbol = ''y'', ss_bits = [2, 1, 0], ss_path = None\<rparr>"
  let ?ss = "[\<lparr>ss_symbol = ''a'', ss_bits = [0], ss_path = None\<rparr>, \<lparr>ss_symbol = ''b'', ss_bits = [1, 0], ss_path = None\<rparr>]"
  have t: "selection_ok ?t" and s: "\<forall>s \<in> set ?ss. selection_ok s \<and> ss_path s = None"
    by (simp_all add: selection_ok_def selection_checks_def)
  have w: "sum_list (map ss_width ?ss) = ss_width ?t" by (simp add: ss_width_def)
  obtain ds where "selections_for_concat ?t ?ss = Inr ds" "concat (map (\<lambda>d. ss_bits (df_target d)) ds) = ss_bits ?t"
    using concat_partition [OF t s, unfolded if_P [OF w]] by blast
  then show ?thesis by (intro exI [of _ ds]) simp
qed

text \<open>C31. A coverage gap affects exactly the paths related to one of its scopes in the hierarchy: it
  affects everything when it has no scope or the scope \<open>*\<close>, and otherwise a path whose dotted
  components extend, equal or begin those of a scope; a mere textual prefix is not enough.\<close>

theorem gap_affects_ancestry:
  "gap_affects g path \<longleftrightarrow> cg_scopes g = [] \<or> ''*'' \<in> set (cg_scopes g) \<or>
     (\<exists>scope \<in> set (cg_scopes g). \<exists>rest.
        components path = components scope @ rest \<or> components scope = components path @ rest)"
proof -
  have "path = scope \<or> starts_with (scope @ ''.'') path \<or> starts_with (path @ ''.'') scope \<longleftrightarrow>
      (\<exists>rest. components path = components scope @ rest \<or> components scope = components path @ rest)" for scope
    using starts_with_components [of path scope] starts_with_components [of scope path] by metis
  then show ?thesis by (simp add: gap_affects_def list_ex_iff)
qed

end
