(* ===== verification/Wave_Value.thy ===== *)
theory Wave_Value
  imports Py_Json Bit_Value
begin

text \<open>
  A sampled waveform value and its readings. The samplers give for every signal either nothing or
  a dict with the keys \<open>hex\<close>, \<open>bin\<close> and \<open>dec\<close>, each of them possibly \<open>None\<close>; here that is an
  optional \<open>sval\<close>. The readings are those of src/src/verify_condition.py (\<open>_hs_truth\<close>,
  \<open>_hs_known\<close>, \<open>_hs_repr\<close>, \<open>_is_known\<close>) and \<open>_dec\<close> and \<open>_ok\<close> of src/src/txn_reconstruct.py.
\<close>

record sval =
  sv_hex :: "string option"
  sv_bin :: "string option"
  sv_dec :: "int option"

type_synonym signals = "string \<Rightarrow> sval option"

text \<open>\<open>sig.get(path)\<close>, where the path itself may be \<open>None\<close>.\<close>

definition sig_get :: "signals \<Rightarrow> string option \<Rightarrow> sval option" where
  "sig_get sig p = (case p of None \<Rightarrow> None | Some q \<Rightarrow> sig q)"

definition is_known :: "string \<Rightarrow> bool" where
  "is_known v = (if v = [] \<or> v = ''?'' then False else \<not> list_ex (\<lambda>c. c \<in> set ''xXzZuU?'') v)"

definition hs_known :: "sval option \<Rightarrow> bool" where
  "hs_known v = (case v of None \<Rightarrow> False
     | Some s \<Rightarrow> (case sv_bin s of Some b \<Rightarrow> is_known b
         | None \<Rightarrow> sv_dec s \<noteq> None \<or> sv_hex s \<noteq> None))"

definition hs_truth :: "sval option \<Rightarrow> bool \<Rightarrow> bool option" where
  "hs_truth v active_high =
     (if \<not> hs_known v then None
      else (case sv_dec (the v) of None \<Rightarrow> None
        | Some d \<Rightarrow> let asserted = d \<noteq> 0 in Some (if active_high then asserted else \<not> asserted)))"

definition hs_repr :: "sval option \<Rightarrow> string option" where
  "hs_repr v = (case v of None \<Rightarrow> None
     | Some s \<Rightarrow> (case sv_hex s of Some h \<Rightarrow> Some h
         | None \<Rightarrow> (case sv_bin s of Some b \<Rightarrow> Some (''0b'' @ b)
             | None \<Rightarrow> map_option show_int (sv_dec s))))"

definition ok_bit :: "sval option \<Rightarrow> bool \<Rightarrow> bool" where
  "ok_bit v active_high \<longleftrightarrow> hs_truth v active_high = Some True"

definition dec_of :: "sval option \<Rightarrow> int option" where
  "dec_of v = (case v of None \<Rightarrow> None
     | Some s \<Rightarrow> (case sv_bin s of
         Some b \<Rightarrow> if b \<noteq> [] \<and> list_all (\<lambda>c. c = CHR ''0'' \<or> c = CHR ''1'') b then Some (bits_int b) else None
       | None \<Rightarrow> sv_dec s))"

lemma hs_truth_known: "hs_truth v a = Some b \<Longrightarrow> hs_known v"
  by (auto simp: hs_truth_def split: if_splits)

lemma ok_bit_none [simp]: "\<not> ok_bit None a"
  by (simp add: ok_bit_def hs_truth_def hs_known_def)

end
