(* ===== verification/Txn_Walk.thy ===== *)
theory Txn_Walk
  imports Wave_Value "HOL-Library.AList"
begin

text \<open>
  The transaction correlator \<open>_walk\<close> of src/src/txn_reconstruct.py: one pass over the sampled
  rows that pairs accepted request beats with completion beats by id (or first in, first out
  when there is no id), attaches data beats without an id to the oldest request whose data is
  incomplete, and keeps the counters of the report.

  \<^item> The local variables of \<open>_walk\<close> are the fields of \<open>walk_state\<close>. A request record is one Python
    object reached from \<open>pending\<close>, \<open>order\<close> and \<open>data_targets\<close>; it is allocated in \<open>w_store\<close> under
    its \<open>seq\<close>, and the three containers hold that address, so that a data beat counted through
    \<open>data_targets\<close> is seen through the others.
  \<^item> \<open>budget.check()\<close> reads the clock. \<open>w_checks\<close> is the number of checks that still pass; the
    next one raises \<open>TransactionBudgetExceeded\<close> after setting \<open>stop_reason\<close>, which ends the walk
    with the state as it is (the model returns it with the flag \<open>False\<close>).
  \<^item> \<open>resolved\<close> has its mandatory roles as plain fields and the others as options. The optional
    lists \<open>boundaries\<close> and \<open>uncertain\<close> have one entry per row and travel with the row.
  \<^item> \<open>c_sizeof\<close> stands for \<open>int.__sizeof__\<close> of the interpreter.
\<close>

record txn_limits =
  lim_pending :: nat
  lim_early :: nat
  lim_state :: int
  lim_result :: int

record walk_cfg =
  c_req_valid :: string
  c_req_ready :: string
  c_cmp_valid :: string
  c_cmp_ready :: string
  c_ids :: "(string \<times> string) option"
  c_req_len :: "string option"
  c_cmp_last :: "string option"
  c_data :: "(string \<times> string) option"
  c_data_last :: "string option"
  c_reset :: "string option"
  c_active_high :: bool
  c_reset_active_low :: bool
  c_capture :: bool
  c_req_fields :: "string list"
  c_cmp_fields :: "string list"
  c_data_fields :: "string list"
  c_max :: nat
  c_limits :: txn_limits
  c_sizeof :: "int \<Rightarrow> int"

record txn_row =
  row_time :: int
  row_signals :: signals
  row_mark :: "(bool \<times> bool) option"

record beat =
  bt_time :: int
  bt_last :: bool
  bt_fields :: "(string \<times> string option) list"

record open_req =
  q_id :: "int option"
  q_seq :: nat
  q_idx :: nat
  q_time :: int
  q_outstanding :: nat
  q_len :: "int option"
  q_fields :: "(string \<times> string option) list"
  q_complete :: bool
  q_beats :: nat
  q_meta :: "beat list"
  q_bytes :: int

record txn =
  tx_id :: "int option"
  tx_request :: int
  tx_completion :: int
  tx_cycles :: int
  tx_ps :: int
  tx_beats :: nat
  tx_expected :: "int option"
  tx_mismatch :: bool
  tx_outstanding :: nat
  tx_complete :: bool
  tx_req_fields :: "(string \<times> string option) list"
  tx_cmp_fields :: "(string \<times> string option) list"
  tx_data :: "beat list"

record walk_state =
  w_pending :: "int \<Rightarrow> nat list option"
  w_order :: "nat list"
  w_targets :: "nat list"
  w_store :: "nat \<Rightarrow> open_req"
  w_early :: "(beat \<times> int) list"
  w_id_peak :: "(int \<times> nat) list"
  w_id_out :: "int \<Rightarrow> nat option"
  w_beat_ctr :: "int \<Rightarrow> nat option"
  w_latencies :: "(int \<times> nat) list"
  w_txns :: "txn list"
  w_unmatched :: "(int option \<times> int) list"
  w_req_count :: nat
  w_cmp_count :: nat
  w_matched :: nat
  w_unmatched_count :: nat
  w_reorder :: nat
  w_unknown_id :: nat
  w_unknown_control :: nat
  w_reset_clears :: nat
  w_history_clears :: nat
  w_mismatches :: nat
  w_max_out :: nat
  w_max_out_time :: "int option"
  w_peak_pending :: nat
  w_peak_early :: nat
  w_state_peak :: int
  w_result_bytes :: int
  w_seq :: nat
  w_analyzed :: nat
  w_last_time :: "int option"
  w_state_bytes :: int
  w_id_bytes :: int
  w_beat_id_bytes :: int
  w_display_stop :: "string option"
  w_checks :: nat
  w_stop :: "string option"

definition FIFO_KEY :: int where
  "FIFO_KEY = 0"

definition MAX_UNMATCHED_SHOWN :: nat where
  "MAX_UNMATCHED_SHOWN = 32"

definition blank_req :: open_req where
  "blank_req = \<lparr>q_id = None, q_seq = 0, q_idx = 0, q_time = 0, q_outstanding = 0, q_len = None, q_fields = [],
     q_complete = True, q_beats = 0, q_meta = [], q_bytes = 0\<rparr>"

definition init_walk :: "nat \<Rightarrow> string option \<Rightarrow> walk_state" where
  "init_walk checks stop = \<lparr>w_pending = (\<lambda>_. None), w_order = [], w_targets = [], w_store = (\<lambda>_. blank_req),
     w_early = [], w_id_peak = [], w_id_out = (\<lambda>_. None), w_beat_ctr = (\<lambda>_. None), w_latencies = [],
     w_txns = [], w_unmatched = [], w_req_count = 0, w_cmp_count = 0, w_matched = 0, w_unmatched_count = 0,
     w_reorder = 0, w_unknown_id = 0, w_unknown_control = 0, w_reset_clears = 0, w_history_clears = 0,
     w_mismatches = 0, w_max_out = 0, w_max_out_time = None, w_peak_pending = 0, w_peak_early = 0,
     w_state_peak = 0, w_result_bytes = 0, w_seq = 0, w_analyzed = 0, w_last_time = None, w_state_bytes = 0,
     w_id_bytes = 0, w_beat_id_bytes = 0, w_display_stop = None, w_checks = checks, w_stop = stop\<rparr>"

section \<open>Fields and sizes\<close>

definition field_values :: "signals \<Rightarrow> string list \<Rightarrow> (string \<times> string option) list" where
  "field_values sig names = map (\<lambda>f. (f, hs_repr (sig f))) (dedupe names)"

definition field_size :: "signals \<Rightarrow> string list \<Rightarrow> int" where
  "field_size sig names = sum_list (map (\<lambda>f. 256 + 4 * (int (length f) +
     (case hs_repr (sig f) of None \<Rightarrow> 0 | Some s \<Rightarrow> int (length s)))) names)"

definition has_id :: "walk_cfg \<Rightarrow> bool" where
  "has_id cfg \<longleftrightarrow> c_ids cfg \<noteq> None"

definition has_data :: "walk_cfg \<Rightarrow> bool" where
  "has_data cfg \<longleftrightarrow> c_data cfg \<noteq> None"

section \<open>What a row says\<close>

definition channel_ok :: "walk_cfg \<Rightarrow> signals \<Rightarrow> string \<Rightarrow> string \<Rightarrow> bool" where
  "channel_ok cfg sig valid ready \<longleftrightarrow>
     ok_bit (sig valid) (c_active_high cfg) \<and> ok_bit (sig ready) (c_active_high cfg)"

definition req_ok :: "walk_cfg \<Rightarrow> signals \<Rightarrow> bool" where
  "req_ok cfg sig = channel_ok cfg sig (c_req_valid cfg) (c_req_ready cfg)"

definition cmp_ok :: "walk_cfg \<Rightarrow> signals \<Rightarrow> bool" where
  "cmp_ok cfg sig = channel_ok cfg sig (c_cmp_valid cfg) (c_cmp_ready cfg)"

definition data_ok :: "walk_cfg \<Rightarrow> signals \<Rightarrow> bool" where
  "data_ok cfg sig = (case c_data cfg of None \<Rightarrow> False | Some (v, r) \<Rightarrow> channel_ok cfg sig v r)"

definition req_key :: "walk_cfg \<Rightarrow> signals \<Rightarrow> int option" where
  "req_key cfg sig = (case c_ids cfg of None \<Rightarrow> Some FIFO_KEY | Some (rid, cid) \<Rightarrow> dec_of (sig rid))"

definition cmp_key :: "walk_cfg \<Rightarrow> signals \<Rightarrow> int option" where
  "cmp_key cfg sig = (case c_ids cfg of None \<Rightarrow> Some FIFO_KEY | Some (rid, cid) \<Rightarrow> dec_of (sig cid))"

text \<open>The key of an accepted request with a known id (\<open>req_ok_known\<close>).\<close>

definition row_req :: "walk_cfg \<Rightarrow> signals \<Rightarrow> int option" where
  "row_req cfg sig = (if req_ok cfg sig then req_key cfg sig else None)"

definition row_cmp :: "walk_cfg \<Rightarrow> signals \<Rightarrow> int option" where
  "row_cmp cfg sig = (if cmp_ok cfg sig then cmp_key cfg sig else None)"

definition last_beat :: "walk_cfg \<Rightarrow> signals \<Rightarrow> bool" where
  "last_beat cfg sig = (case c_cmp_last cfg of None \<Rightarrow> True | Some p \<Rightarrow> ok_bit (sig p) (c_active_high cfg))"

text \<open>The boundary flag and whether it is uncertain.\<close>

definition row_boundary :: "walk_cfg \<Rightarrow> txn_row \<Rightarrow> bool \<times> bool" where
  "row_boundary cfg row = (case row_mark row of
     Some m \<Rightarrow> m
   | None \<Rightarrow> (case c_reset cfg of
       None \<Rightarrow> (False, False)
     | Some p \<Rightarrow> let rst = hs_truth (row_signals row p) (\<not> c_reset_active_low cfg)
                 in (rst \<noteq> Some False, rst = None)))"

definition channel_unknown :: "walk_cfg \<Rightarrow> signals \<Rightarrow> string \<times> string \<times> string option \<Rightarrow> bool" where
  "channel_unknown cfg sig = (\<lambda>(valid, ready, last).
     let v = hs_truth (sig valid) (c_active_high cfg); r = hs_truth (sig ready) (c_active_high cfg)
     in v = None \<or> v = Some True \<and> (r = None \<or>
          r = Some True \<and> (case last of None \<Rightarrow> False | Some l \<Rightarrow> l \<noteq> [] \<and> hs_truth (sig l) (c_active_high cfg) = None)))"

definition row_unknown :: "walk_cfg \<Rightarrow> signals \<Rightarrow> bool" where
  "row_unknown cfg sig = list_ex (channel_unknown cfg sig)
     ([(c_req_valid cfg, c_req_ready cfg, None), (c_cmp_valid cfg, c_cmp_ready cfg, c_cmp_last cfg)] @
      (case c_data cfg of None \<Rightarrow> [] | Some (v, r) \<Rightarrow> [(v, r, c_data_last cfg)]))"

section \<open>Data beats\<close>

text \<open>\<open>attach\<close>: the loop runs over the early beats; the flag says whether it ran to its end.\<close>

definition attach_beat :: "walk_cfg \<Rightarrow> beat \<times> int \<Rightarrow> walk_state \<Rightarrow> walk_state" where
  "attach_beat cfg = (\<lambda>(b, size) st.
     let s = hd (w_targets st);
         target = w_store st s;
         target' = (if c_capture cfg
           then target\<lparr>q_beats := q_beats target + 1, q_meta := q_meta target @ [b], q_bytes := q_bytes target + size\<rparr>
           else target\<lparr>q_beats := q_beats target + 1\<rparr>);
         st' = st\<lparr>w_state_bytes := (if c_capture cfg then w_state_bytes st else w_state_bytes st - size)\<rparr>
     in if bt_last b
        then st'\<lparr>w_store := (w_store st)(s := target'\<lparr>q_complete := True\<rparr>), w_targets := remove1 (q_seq target) (w_targets st)\<rparr>
        else st'\<lparr>w_store := (w_store st)(s := target')\<rparr>)"

fun attach_loop :: "walk_cfg \<Rightarrow> (beat \<times> int) list \<Rightarrow> walk_state \<Rightarrow> walk_state \<times> bool" where
  "attach_loop cfg [] st = (st\<lparr>w_early := []\<rparr>, True)"
| "attach_loop cfg (e # es) st =
     (if w_targets st = [] then (st\<lparr>w_early := e # es\<rparr>, True)
      else if w_checks st = 0 then (st\<lparr>w_early := e # es, w_stop := Some ''timeout''\<rparr>, False)
      else attach_loop cfg es (attach_beat cfg e (st\<lparr>w_checks := w_checks st - 1\<rparr>)))"

definition attach :: "walk_cfg \<Rightarrow> walk_state \<Rightarrow> walk_state \<times> bool" where
  "attach cfg st = attach_loop cfg (w_early st) st"

section \<open>One row\<close>

definition boundary_step :: "nat \<Rightarrow> int \<Rightarrow> bool \<Rightarrow> walk_state \<Rightarrow> walk_state" where
  "boundary_step idx t uncertain st =
     (let live = w_order st \<noteq> [] \<or> w_early st \<noteq> [] in
      st\<lparr>w_history_clears := w_history_clears st + (if live \<and> uncertain then 1 else 0),
         w_reset_clears := w_reset_clears st + (if live \<and> \<not> uncertain then 1 else 0),
         w_unknown_control := w_unknown_control st + (if uncertain then 1 else 0),
         w_pending := (\<lambda>_. None), w_order := [], w_early := [], w_targets := [],
         w_beat_ctr := (\<lambda>_. None), w_id_out := (\<lambda>_. None),
         w_state_bytes := 0, w_beat_id_bytes := 0, w_analyzed := idx + 1, w_last_time := Some t\<rparr>)"

definition req_size :: "walk_cfg \<Rightarrow> signals \<Rightarrow> int" where
  "req_size cfg sig = (case row_req cfg sig of None \<Rightarrow> 0
     | Some k \<Rightarrow> 1024 + c_sizeof cfg k + field_size sig (c_req_fields cfg))"

definition data_size :: "walk_cfg \<Rightarrow> signals \<Rightarrow> int" where
  "data_size cfg sig = (if data_ok cfg sig
     then 512 + (if c_capture cfg then field_size sig (c_data_fields cfg) else 0) else 0)"

definition new_id_bytes :: "walk_cfg \<Rightarrow> signals \<Rightarrow> walk_state \<Rightarrow> int" where
  "new_id_bytes cfg sig st = (case row_req cfg sig of None \<Rightarrow> 0
     | Some k \<Rightarrow> if k \<in> fst ` set (w_id_peak st) then 0 else 256 + 4 * c_sizeof cfg k)"

definition new_beat_bytes :: "walk_cfg \<Rightarrow> signals \<Rightarrow> walk_state \<Rightarrow> int" where
  "new_beat_bytes cfg sig st = (case row_cmp cfg sig of None \<Rightarrow> 0
     | Some k \<Rightarrow> if w_beat_ctr st k \<noteq> None then 0 else 256 + c_sizeof cfg k)"

definition reserve :: "walk_cfg \<Rightarrow> signals \<Rightarrow> walk_state \<Rightarrow> int" where
  "reserve cfg sig st = w_state_bytes st + req_size cfg sig + data_size cfg sig + w_id_bytes st +
     new_id_bytes cfg sig st + w_beat_id_bytes st + new_beat_bytes cfg sig st +
     256 * (int (length (w_latencies st)) + 3)"

definition preflight :: "walk_cfg \<Rightarrow> signals \<Rightarrow> walk_state \<Rightarrow> string option" where
  "preflight cfg sig st =
     (if row_req cfg sig \<noteq> None \<and> lim_pending (c_limits cfg) \<le> length (w_order st) then Some ''pending_budget''
      else if data_ok cfg sig \<and> w_targets st = [] \<and> row_req cfg sig = None \<and>
              lim_early (c_limits cfg) \<le> length (w_early st) then Some ''early_data_budget''
      else if lim_state (c_limits cfg) < reserve cfg sig st then Some ''state_byte_budget''
      else None)"

definition new_req :: "walk_cfg \<Rightarrow> nat \<Rightarrow> int \<Rightarrow> signals \<Rightarrow> int \<Rightarrow> walk_state \<Rightarrow> open_req" where
  "new_req cfg idx t sig k st = \<lparr>q_id = (if has_id cfg then Some k else None), q_seq = w_seq st, q_idx = idx,
     q_time = t, q_outstanding = length (w_order st) + 1, q_len = dec_of (sig_get sig (c_req_len cfg)),
     q_fields = field_values sig (c_req_fields cfg), q_complete = (\<not> has_data cfg), q_beats = 0, q_meta = [],
     q_bytes = req_size cfg sig\<rparr>"

definition count_of :: "nat option \<Rightarrow> nat" where
  "count_of c = (case c of None \<Rightarrow> 0 | Some n \<Rightarrow> n)"

definition open_request :: "walk_cfg \<Rightarrow> nat \<Rightarrow> int \<Rightarrow> signals \<Rightarrow> int \<Rightarrow> int \<Rightarrow> walk_state \<Rightarrow> walk_state" where
  "open_request cfg idx t sig k idb st =
     (let s = w_seq st;
          out = count_of (w_id_out st k) + 1;
          order = w_order st @ [s];
          n = length order
      in st\<lparr>w_req_count := w_req_count st + 1,
            w_id_bytes := w_id_bytes st + idb,
            w_id_out := (w_id_out st)(k \<mapsto> out),
            w_id_peak := AList.update k (max (count_of (map_of (w_id_peak st) k)) out) (w_id_peak st),
            w_store := (w_store st)(s := new_req cfg idx t sig k st),
            w_pending := (w_pending st)(k \<mapsto> (case w_pending st k of None \<Rightarrow> [] | Some q \<Rightarrow> q) @ [s]),
            w_order := order,
            w_targets := (if has_data cfg then w_targets st @ [s] else w_targets st),
            w_seq := s + 1,
            w_state_bytes := w_state_bytes st + req_size cfg sig,
            w_peak_pending := max (w_peak_pending st) n,
            w_max_out := (if n > w_max_out st then n else w_max_out st),
            w_max_out_time := (if n > w_max_out st then Some t else w_max_out_time st)\<rparr>)"

definition req_phase :: "walk_cfg \<Rightarrow> nat \<Rightarrow> int \<Rightarrow> signals \<Rightarrow> int \<Rightarrow> walk_state \<Rightarrow> walk_state \<times> bool" where
  "req_phase cfg idx t sig idb st =
     (if \<not> req_ok cfg sig then (st, True)
      else (case req_key cfg sig of
         None \<Rightarrow> (st\<lparr>w_unknown_id := w_unknown_id st + 1\<rparr>, True)
       | Some k \<Rightarrow> attach cfg (open_request cfg idx t sig k idb st)))"

definition data_beat :: "walk_cfg \<Rightarrow> int \<Rightarrow> signals \<Rightarrow> beat" where
  "data_beat cfg t sig = \<lparr>bt_time = t,
     bt_last = (case c_data_last cfg of None \<Rightarrow> True | Some p \<Rightarrow> ok_bit (sig p) (c_active_high cfg)),
     bt_fields = (if c_capture cfg then field_values sig (c_data_fields cfg) else [])\<rparr>"

definition data_phase :: "walk_cfg \<Rightarrow> int \<Rightarrow> signals \<Rightarrow> walk_state \<Rightarrow> walk_state \<times> bool" where
  "data_phase cfg t sig st =
     (if \<not> data_ok cfg sig then (st, True)
      else (let (st', ok) = attach cfg (st\<lparr>w_early := w_early st @ [(data_beat cfg t sig, data_size cfg sig)],
                                          w_state_bytes := w_state_bytes st + data_size cfg sig\<rparr>)
            in (if ok then st'\<lparr>w_peak_early := max (w_peak_early st') (length (w_early st'))\<rparr> else st', ok)))"

section \<open>Completions\<close>

definition unmatched_step :: "walk_cfg \<Rightarrow> int \<Rightarrow> int \<Rightarrow> walk_state \<Rightarrow> walk_state" where
  "unmatched_step cfg t k st = st\<lparr>w_unmatched_count := w_unmatched_count st + 1,
     w_unmatched := (if length (w_unmatched st) < MAX_UNMATCHED_SHOWN
       then w_unmatched st @ [(if has_id cfg then Some k else None, t)] else w_unmatched st)\<rparr>"

definition make_txn :: "walk_cfg \<Rightarrow> nat \<Rightarrow> int \<Rightarrow> signals \<Rightarrow> int \<Rightarrow> nat \<Rightarrow> open_req \<Rightarrow> txn" where
  "make_txn cfg idx t sig k nbeats req =
     (let beats = (if has_data cfg then q_beats req else nbeats);
          expected = map_option (\<lambda>l. l + 1) (q_len req)
      in \<lparr>tx_id = (if has_id cfg then Some k else None), tx_request = q_time req, tx_completion = t,
          tx_cycles = int idx - int (q_idx req), tx_ps = t - q_time req, tx_beats = beats, tx_expected = expected,
          tx_mismatch = (case expected of None \<Rightarrow> False | Some e \<Rightarrow> int beats \<noteq> e),
          tx_outstanding = q_outstanding req, tx_complete = q_complete req, tx_req_fields = q_fields req,
          tx_cmp_fields = field_values sig (c_cmp_fields cfg), tx_data = q_meta req\<rparr>)"

definition retain :: "walk_cfg \<Rightarrow> signals \<Rightarrow> open_req \<Rightarrow> txn \<Rightarrow> walk_state \<Rightarrow> walk_state" where
  "retain cfg sig req tx st =
     (if length (w_txns st) < c_max cfg \<and> w_display_stop st = None then
        (let cost = q_bytes req + 1024 + field_size sig (c_cmp_fields cfg) in
         if lim_result (c_limits cfg) < w_result_bytes st + cost
         then st\<lparr>w_display_stop := Some ''result_byte_budget''\<rparr>
         else st\<lparr>w_txns := w_txns st @ [tx], w_result_bytes := w_result_bytes st + cost\<rparr>)
      else st)"

definition match_step :: "walk_cfg \<Rightarrow> nat \<Rightarrow> int \<Rightarrow> signals \<Rightarrow> int \<Rightarrow> nat \<Rightarrow> nat list \<Rightarrow> walk_state \<Rightarrow> walk_state" where
  "match_step cfg idx t sig k nbeats queue st =
     (let s = hd queue;
          rest = tl queue;
          req = w_store st s;
          order = remove1 (q_seq req) (w_order st);
          out = count_of (w_id_out st k) - 1;
          tx = make_txn cfg idx t sig k nbeats req;
          st' = st\<lparr>w_pending := (w_pending st)(k := (if rest = [] then None else Some rest)),
             w_order := order,
             w_targets := remove1 (q_seq req) (w_targets st),
             w_state_bytes := w_state_bytes st - q_bytes req,
             w_id_out := (w_id_out st)(k := (if out = 0 then None else Some out)),
             w_reorder := w_reorder st + (if order \<noteq> [] \<and> hd order < q_seq req then 1 else 0),
             w_latencies := AList.update (tx_cycles tx) (count_of (map_of (w_latencies st) (tx_cycles tx)) + 1) (w_latencies st),
             w_matched := w_matched st + 1,
             w_mismatches := w_mismatches st + (if tx_mismatch tx then 1 else 0)\<rparr>
      in retain cfg sig req tx st')"

definition complete_step :: "walk_cfg \<Rightarrow> nat \<Rightarrow> int \<Rightarrow> signals \<Rightarrow> int \<Rightarrow> int \<Rightarrow> walk_state \<Rightarrow> walk_state" where
  "complete_step cfg idx t sig k beatb st =
     (let n = count_of (w_beat_ctr st k) + 1;
          st1 = st\<lparr>w_beat_id_bytes := w_beat_id_bytes st + beatb, w_beat_ctr := (w_beat_ctr st)(k \<mapsto> n)\<rparr>
      in if \<not> last_beat cfg sig then st1
         else (let st2 = st1\<lparr>w_cmp_count := w_cmp_count st1 + 1, w_beat_ctr := (w_beat_ctr st1)(k := None),
                   w_beat_id_bytes := w_beat_id_bytes st1 - (256 + c_sizeof cfg k)\<rparr>
               in (case w_pending st2 k of
                     None \<Rightarrow> unmatched_step cfg t k st2
                   | Some q \<Rightarrow> if q = [] then unmatched_step cfg t k st2
                               else match_step cfg idx t sig k n q st2)))"

definition cmp_phase :: "walk_cfg \<Rightarrow> nat \<Rightarrow> int \<Rightarrow> signals \<Rightarrow> int \<Rightarrow> walk_state \<Rightarrow> walk_state" where
  "cmp_phase cfg idx t sig beatb st =
     (if \<not> cmp_ok cfg sig then st
      else (case cmp_key cfg sig of
         None \<Rightarrow> st\<lparr>w_unknown_id := w_unknown_id st + 1\<rparr>
       | Some k \<Rightarrow> complete_step cfg idx t sig k beatb st))"

section \<open>The walk\<close>

text \<open>A row after its boundary test: preflight, then the three channels in the code's order.\<close>

definition admit_row :: "walk_cfg \<Rightarrow> nat \<Rightarrow> int \<Rightarrow> signals \<Rightarrow> walk_state \<Rightarrow> walk_state" where
  "admit_row cfg idx t sig st = st\<lparr>w_state_peak := max (w_state_peak st) (reserve cfg sig st),
     w_analyzed := idx + 1, w_last_time := Some t,
     w_unknown_control := w_unknown_control st + (if row_unknown cfg sig then 1 else 0)\<rparr>"

definition channels :: "walk_cfg \<Rightarrow> nat \<Rightarrow> int \<Rightarrow> signals \<Rightarrow> int \<Rightarrow> int \<Rightarrow> walk_state \<Rightarrow> walk_state \<times> bool" where
  "channels cfg idx t sig idb beatb st =
     (let (st1, ok1) = req_phase cfg idx t sig idb st in
      if \<not> ok1 then (st1, False)
      else (let (st2, ok2) = data_phase cfg t sig st1 in
            if \<not> ok2 then (st2, False)
            else (cmp_phase cfg idx t sig beatb st2, True)))"

definition row_step :: "walk_cfg \<Rightarrow> nat \<Rightarrow> txn_row \<Rightarrow> walk_state \<Rightarrow> walk_state \<times> bool" where
  "row_step cfg idx row st =
     (if w_checks st = 0 then (st\<lparr>w_stop := Some ''timeout''\<rparr>, False)
      else (let st0 = st\<lparr>w_checks := w_checks st - 1\<rparr>; t = row_time row; sig = row_signals row;
                (boundary, uncertain) = row_boundary cfg row
            in if boundary then (boundary_step idx t uncertain st0, True)
               else (case preflight cfg sig st0 of
                   Some reason \<Rightarrow> (st0\<lparr>w_stop := Some reason\<rparr>, False)
                 | None \<Rightarrow> channels cfg idx t sig (new_id_bytes cfg sig st0) (new_beat_bytes cfg sig st0)
                             (admit_row cfg idx t sig st0))))"

fun walk_rows :: "walk_cfg \<Rightarrow> nat \<Rightarrow> txn_row list \<Rightarrow> walk_state \<Rightarrow> walk_state" where
  "walk_rows cfg idx [] st = st"
| "walk_rows cfg idx (row # rows) st =
     (let (st', ok) = row_step cfg idx row st in if ok then walk_rows cfg (idx + 1) rows st' else st')"

definition txn_walk :: "walk_cfg \<Rightarrow> nat \<Rightarrow> string option \<Rightarrow> txn_row list \<Rightarrow> walk_state" where
  "txn_walk cfg checks stop rows = walk_rows cfg 0 rows (init_walk checks stop)"

section \<open>The summary\<close>

text \<open>\<open>max(d, key=d.get)\<close>: the first key with the greatest value.\<close>

fun first_max :: "(int \<times> nat) \<Rightarrow> (int \<times> nat) list \<Rightarrow> int" where
  "first_max best [] = fst best"
| "first_max best (p # ps) = first_max (if snd best < snd p then p else best) ps"

definition max_per_id :: "walk_cfg \<Rightarrow> walk_state \<Rightarrow> nat" where
  "max_per_id cfg st = (if has_id cfg \<and> w_id_peak st \<noteq> [] then Max (snd ` set (w_id_peak st)) else 0)"

definition max_id :: "walk_cfg \<Rightarrow> walk_state \<Rightarrow> int option" where
  "max_id cfg st = (case w_id_peak st of [] \<Rightarrow> None
     | p # ps \<Rightarrow> if has_id cfg then Some (first_max p ps) else None)"

definition unmatched_requests :: "walk_state \<Rightarrow> (int option \<times> int) list" where
  "unmatched_requests st =
     map (\<lambda>s. (q_id (w_store st s), q_time (w_store st s))) (take MAX_UNMATCHED_SHOWN (w_order st))"

end
