(* ===== verification/Txn_Laws.thy ===== *)
theory Txn_Laws
  imports Txn_Walk "HOL-Library.Multiset"
begin

text \<open>
  The invariant of the correlator. The containers of \<open>_walk\<close> are indexes of one another:
  \<open>order\<close> is the list of open requests in issue order, \<open>pending[k]\<close> is the sublist with key \<open>k\<close>,
  \<open>data_targets\<close> the sublist whose data is incomplete, \<open>per_id_out[k]\<close> the length of
  \<open>pending[k]\<close>, and \<open>state_bytes\<close> the bytes of the open requests and of the early beats.
\<close>

section \<open>Invariant\<close>

definition key_of :: "open_req \<Rightarrow> int" where
  "key_of r = (case q_id r of None \<Rightarrow> FIFO_KEY | Some k \<Rightarrow> k)"

definition queue :: "walk_state \<Rightarrow> int \<Rightarrow> nat list" where
  "queue st k = filter (\<lambda>s. key_of (w_store st s) = k) (w_order st)"

definition incomplete :: "walk_state \<Rightarrow> nat list" where
  "incomplete st = filter (\<lambda>s. \<not> q_complete (w_store st s)) (w_order st)"

definition if_nonempty :: "'a list \<Rightarrow> 'a list option" where
  "if_nonempty q = (if q = [] then None else Some q)"

definition order_ok :: "walk_state \<Rightarrow> bool" where
  "order_ok st \<longleftrightarrow> sorted_wrt (<) (w_order st) \<and> (\<forall>s \<in> set (w_order st). s < w_seq st \<and> q_seq (w_store st s) = s)"

definition indexes_ok :: "walk_state \<Rightarrow> bool" where
  "indexes_ok st \<longleftrightarrow> (\<forall>k. w_pending st k = if_nonempty (queue st k)) \<and> w_targets st = incomplete st \<and>
     (\<forall>k. w_id_out st k = map_option length (if_nonempty (queue st k)))"

definition bytes_ok :: "(beat \<times> int) list \<Rightarrow> walk_state \<Rightarrow> bool" where
  "bytes_ok es st \<longleftrightarrow> w_state_bytes st = (\<Sum>s \<leftarrow> w_order st. q_bytes (w_store st s)) + sum_list (map snd es)"

definition fresh_ok :: "walk_state \<Rightarrow> bool" where
  "fresh_ok st \<longleftrightarrow> (\<forall>s \<in> set (tl (incomplete st)). q_beats (w_store st s) = 0)"

definition inv_at :: "(beat \<times> int) list \<Rightarrow> walk_state \<Rightarrow> bool" where
  "inv_at es st \<longleftrightarrow> order_ok st \<and> indexes_ok st \<and> bytes_ok es st \<and> fresh_ok st"

definition settled :: "walk_state \<Rightarrow> bool" where
  "settled st \<longleftrightarrow> w_early st = [] \<or> w_targets st = []"

definition walk_inv :: "walk_state \<Rightarrow> bool" where
  "walk_inv st \<longleftrightarrow> inv_at (w_early st) st"

text \<open>What \<open>attach\<close> leaves alone.\<close>

definition frame :: "walk_state \<Rightarrow> walk_state" where
  "frame st = st\<lparr>w_store := (\<lambda>_. blank_req), w_targets := [], w_early := [], w_state_bytes := 0,
     w_checks := 0, w_stop := None\<rparr>"

definition static :: "open_req \<Rightarrow> open_req" where
  "static r = r\<lparr>q_complete := True, q_beats := 0, q_meta := [], q_bytes := 0\<rparr>"

lemma frame_fields:
  "w_pending (frame st) = w_pending st" "w_order (frame st) = w_order st" "w_id_peak (frame st) = w_id_peak st"
  "w_id_out (frame st) = w_id_out st" "w_beat_ctr (frame st) = w_beat_ctr st" "w_latencies (frame st) = w_latencies st"
  "w_txns (frame st) = w_txns st" "w_unmatched (frame st) = w_unmatched st" "w_req_count (frame st) = w_req_count st"
  "w_cmp_count (frame st) = w_cmp_count st" "w_matched (frame st) = w_matched st"
  "w_unmatched_count (frame st) = w_unmatched_count st" "w_reorder (frame st) = w_reorder st"
  "w_max_out (frame st) = w_max_out st" "w_peak_pending (frame st) = w_peak_pending st"
  "w_peak_early (frame st) = w_peak_early st" "w_state_peak (frame st) = w_state_peak st"
  "w_result_bytes (frame st) = w_result_bytes st" "w_seq (frame st) = w_seq st" "w_analyzed (frame st) = w_analyzed st"
  "w_id_bytes (frame st) = w_id_bytes st" "w_beat_id_bytes (frame st) = w_beat_id_bytes st"
  "w_mismatches (frame st) = w_mismatches st" "w_display_stop (frame st) = w_display_stop st"
  by (simp_all add: frame_def)

lemma static_fields:
  "key_of (static r) = key_of r" "q_seq (static r) = q_seq r" "q_idx (static r) = q_idx r" "q_time (static r) = q_time r"
  by (simp_all add: static_def key_of_def)

lemma static_eqD: "static r = static r' \<Longrightarrow> key_of r = key_of r' \<and> q_seq r = q_seq r' \<and> q_idx r = q_idx r'"
  by (metis static_fields)

lemma filter_cong_static:
  "(\<And>s. static (f s) = static (g s)) \<Longrightarrow> filter (\<lambda>s. key_of (f s) = k) xs = filter (\<lambda>s. key_of (g s) = k) xs"
  using static_eqD by (intro filter_cong refl) metis

section \<open>Attaching data beats\<close>

lemma attach_beat_frame: "frame (attach_beat cfg e st) = frame st"
  by (simp add: attach_beat_def frame_def Let_def split: prod.split)

lemma attach_beat_static: "static (w_store (attach_beat cfg e st) s) = static (w_store st s)"
  by (simp add: attach_beat_def static_def Let_def split: prod.split)

lemma attach_beat_store:
  "s \<noteq> hd (w_targets st) \<Longrightarrow> w_store (attach_beat cfg e st) s = w_store st s"
  by (simp add: attach_beat_def Let_def split: prod.split)

lemma attach_beat_complete:
  "q_complete (w_store (attach_beat cfg (b, n) st) (hd (w_targets st))) \<longleftrightarrow>
     bt_last b \<or> q_complete (w_store st (hd (w_targets st)))"
  by (simp add: attach_beat_def Let_def)

lemma attach_beat_targets:
  "w_targets (attach_beat cfg (b, n) st) =
     (if bt_last b then remove1 (q_seq (w_store st (hd (w_targets st)))) (w_targets st) else w_targets st)"
  by (simp add: attach_beat_def Let_def)

lemma attach_beat_bytes:
  "w_state_bytes (attach_beat cfg (b, n) st) = (if c_capture cfg then w_state_bytes st else w_state_bytes st - n)"
  "q_bytes (w_store (attach_beat cfg (b, n) st) (hd (w_targets st))) =
     q_bytes (w_store st (hd (w_targets st))) + (if c_capture cfg then n else 0)"
  by (simp_all add: attach_beat_def Let_def)

lemma attach_beat_early [simp]: "w_early (attach_beat cfg e st) = w_early st"
  "w_checks (attach_beat cfg e st) = w_checks st" "w_stop (attach_beat cfg e st) = w_stop st"
  by (simp_all add: attach_beat_def Let_def split: prod.split)

lemma sum_list_upd:
  fixes f g :: "'a \<Rightarrow> int"
  assumes "distinct xs" "x \<in> set xs" "\<And>y. y \<noteq> x \<Longrightarrow> f y = g y"
  shows "(\<Sum>s \<leftarrow> xs. f s) = (\<Sum>s \<leftarrow> xs. g s) + (f x - g x)"
  using assms(1,2)
proof (induction xs)
  case (Cons a xs)
  show ?case
  proof (cases "a = x")
    case True
    then have "(\<Sum>s \<leftarrow> xs. f s) = (\<Sum>s \<leftarrow> xs. g s)"
      using Cons.prems(1) assms(3) by (metis (no_types, lifting) distinct.simps(2) map_eq_conv)
    then show ?thesis using True by simp
  next
    case False
    then show ?thesis using Cons assms(3) by simp
  qed
qed simp

lemma order_distinct: "order_ok st \<Longrightarrow> distinct (w_order st)"
  by (auto simp: order_ok_def strict_sorted_iff)

lemma filter_hd_split:
  assumes "filter P xs = y # ys" "distinct xs" "\<And>x. x \<noteq> y \<Longrightarrow> Q x = P x" "\<not> Q y"
  shows "filter Q xs = ys"
proof -
  have "Q x = (x \<noteq> y \<and> P x)" for x using assms(3) [of x] assms(4) by (cases "x = y") simp_all
  then have "filter Q xs = filter (\<lambda>x. x \<noteq> y \<and> P x) xs" by presburger
  also have "\<dots> = filter (\<lambda>x. x \<noteq> y) (y # ys)" unfolding assms(1) [symmetric] filter_filter by (simp add: conj_commute)
  also have "\<dots> = ys"
  proof -
    have "distinct (y # ys)" using assms(1,2) by (metis distinct_filter)
    then show ?thesis by (auto simp: filter_id_conv)
  qed
  finally show ?thesis .
qed

lemma attach_beat_inv:
  assumes "inv_at ((b, n) # es) st" "w_targets st \<noteq> []"
  shows "inv_at es (attach_beat cfg (b, n) st)"
proof -
  let ?u = "attach_beat cfg (b, n) st" and ?s = "hd (w_targets st)"
  have o: "order_ok st" and ix: "indexes_ok st" and byt: "bytes_ok ((b, n) # es) st" and fr: "fresh_ok st"
    using assms(1) by (auto simp: inv_at_def)
  have ord: "w_order ?u = w_order st" "w_seq ?u = w_seq st" "w_pending ?u = w_pending st" "w_id_out ?u = w_id_out st"
    using attach_beat_frame [of cfg "(b, n)" st] frame_fields by metis+
  have st: "static (w_store ?u s) = static (w_store st s)" for s by (rule attach_beat_static)
  have inc: "w_targets st = incomplete st" using ix by (simp add: indexes_ok_def)
  obtain ts where ts: "incomplete st = ?s # ts" using assms(2) inc by (metis list.exhaust_sel)
  have d: "distinct (w_order st)" using o by (rule order_distinct)
  have s_in: "?s \<in> set (w_order st)" "\<not> q_complete (w_store st ?s)"
    using ts by (auto simp: incomplete_def dest: filter_eq_ConsD)
  have seq: "q_seq (w_store st ?s) = ?s" using o s_in by (simp add: order_ok_def)
  have o': "order_ok ?u" using o ord static_eqD [OF st] by (simp add: order_ok_def)
  have q: "queue ?u k = queue st k" for k
    unfolding queue_def ord(1) by (rule filter_cong_static) (rule st)
  have inc': "incomplete ?u = (if bt_last b then ts else ?s # ts)"
  proof (cases "bt_last b")
    case True
    have "filter (\<lambda>s. \<not> q_complete (w_store ?u s)) (w_order st) = ts"
      by (rule filter_hd_split [OF ts [unfolded incomplete_def] d])
        (use attach_beat_store [of _ st] attach_beat_complete [of cfg b n st] True in auto)
    then show ?thesis using True ord by (simp add: incomplete_def)
  next
    case False
    have "q_complete (w_store ?u s) = q_complete (w_store st s)" for s
      using attach_beat_store [of s st] attach_beat_complete [of cfg b n st] False by (cases "s = ?s") auto
    then show ?thesis using False ord ts by (simp add: incomplete_def)
  qed
  have "w_targets ?u = incomplete ?u"
    unfolding inc' attach_beat_targets seq using inc ts by (metis remove1.simps(2))
  then have ix': "indexes_ok ?u" using ix ord q by (simp add: indexes_ok_def)
  have "(\<Sum>s \<leftarrow> w_order st. q_bytes (w_store ?u s)) = (\<Sum>s \<leftarrow> w_order st. q_bytes (w_store st s)) +
      (q_bytes (w_store ?u ?s) - q_bytes (w_store st ?s))"
    by (rule sum_list_upd [OF d s_in(1)]) (simp add: attach_beat_store)
  then have by': "bytes_ok es ?u" using byt by (auto simp: bytes_ok_def ord attach_beat_bytes)
  have "?s \<notin> set ts" using d ts by (metis distinct.simps(2) distinct_filter incomplete_def)
  moreover have "set (tl (incomplete ?u)) \<subseteq> set ts" unfolding inc' by (cases ts) auto
  ultimately have fr': "fresh_ok ?u" using fr ts attach_beat_store [of _ st]
    by (auto simp: fresh_ok_def) (metis in_mono)
  show ?thesis using o' ix' by' fr' by (simp add: inv_at_def)
qed

lemma inv_at_irrelevant:
  "inv_at es (st\<lparr>w_checks := c\<rparr>) = inv_at es st" "inv_at es (st\<lparr>w_early := es'\<rparr>) = inv_at es st"
  "inv_at es (st\<lparr>w_stop := r\<rparr>) = inv_at es st"
  by (simp_all add: inv_at_def order_ok_def indexes_ok_def bytes_ok_def fresh_ok_def queue_def incomplete_def)

text \<open>The whole of \<open>attach\<close>: the invariant, the frame, and that it runs until there is nothing left
  to attach or nothing left to attach to.\<close>

lemma attach_loop_inv:
  assumes "inv_at es st" "attach_loop cfg es st = (u, ok)"
  shows "walk_inv u \<and> frame u = frame st \<and> (\<forall>s. static (w_store u s) = static (w_store st s)) \<and>
    (ok \<longrightarrow> settled u \<and> w_stop u = w_stop st) \<and> (\<not> ok \<longrightarrow> w_stop u = Some ''timeout'') \<and> length (w_early u) \<le> length es \<and>
    (ok \<longrightarrow> es \<noteq> [] \<longrightarrow> w_targets st \<noteq> [] \<longrightarrow> length (w_early u) < length es)"
  using assms
proof (induction cfg es st arbitrary: u ok rule: attach_loop.induct)
  case (1 cfg st)
  then show ?case by (auto simp: walk_inv_def settled_def frame_def inv_at_irrelevant)
next
  case (2 cfg e es st)
  consider "w_targets st = []" | "w_targets st \<noteq> []" "w_checks st = 0" | "w_targets st \<noteq> []" "w_checks st \<noteq> 0" by blast
  then show ?case
  proof cases
    case 1
    then show ?thesis using 2 by (auto simp: walk_inv_def settled_def frame_def inv_at_irrelevant)
  next
    case 2
    then show ?thesis using "2.prems" by (auto simp: walk_inv_def frame_def inv_at_irrelevant inv_at_irrelevant(2,3))
  next
    case 3
    let ?v = "attach_beat cfg e (st\<lparr>w_checks := w_checks st - 1\<rparr>)"
    have i: "inv_at es ?v"
      using attach_beat_inv [of "fst e" "snd e" es "st\<lparr>w_checks := w_checks st - 1\<rparr>" cfg] "2.prems"(1) 3
      by (simp add: inv_at_irrelevant)
    have run: "attach_loop cfg es ?v = (u, ok)" using "2.prems"(2) 3 by simp
    have f: "frame ?v = frame st" "static (w_store ?v s) = static (w_store st s)" "w_stop ?v = w_stop st" for s
      using attach_beat_frame [of cfg e] attach_beat_static [of cfg e] by (simp_all add: frame_def)
    show ?thesis using "2.IH" [OF 3 i run] f by auto
  qed
qed

lemma attach_inv:
  assumes "walk_inv st" "attach cfg st = (u, ok)"
  shows "walk_inv u \<and> frame u = frame st \<and> (\<forall>s. static (w_store u s) = static (w_store st s)) \<and>
    (ok \<longrightarrow> settled u \<and> w_stop u = w_stop st) \<and> (\<not> ok \<longrightarrow> w_stop u = Some ''timeout'') \<and>
    length (w_early u) \<le> length (w_early st) \<and>
    (ok \<longrightarrow> w_early st \<noteq> [] \<longrightarrow> w_targets st \<noteq> [] \<longrightarrow> length (w_early u) < length (w_early st))"
  using attach_loop_inv [of "w_early st" st cfg u ok] assms by (simp add: attach_def walk_inv_def)

section \<open>Requests and completions\<close>

lemma inv_at_cong:
  assumes "w_order u = w_order st" "w_seq u = w_seq st" "w_pending u = w_pending st" "w_id_out u = w_id_out st"
    "w_targets u = w_targets st" "w_store u = w_store st" "w_state_bytes u = w_state_bytes st"
  shows "inv_at es u = inv_at es st"
  using assms by (simp add: inv_at_def order_ok_def indexes_ok_def bytes_ok_def fresh_ok_def queue_def incomplete_def)

lemma key_of_new_req:
  "req_key cfg sig = Some k \<Longrightarrow> key_of (new_req cfg idx t sig k st) = k"
  by (cases "c_ids cfg") (auto simp: key_of_def new_req_def has_id_def req_key_def)

lemma in_tl_append: "x \<in> set (tl (xs @ [y])) \<Longrightarrow> x \<in> set (tl xs) \<or> x = y"
  by (cases xs) auto

lemma open_request_inv:
  assumes "inv_at es st" "req_key cfg sig = Some k"
  shows "inv_at es (open_request cfg idx t sig k idb st)"
proof -
  let ?u = "open_request cfg idx t sig k idb st" and ?s = "w_seq st"
  have o: "order_ok st" and ix: "indexes_ok st" and byt: "bytes_ok es st" and fr: "fresh_ok st"
    using assms(1) by (auto simp: inv_at_def)
  have new: "w_order ?u = w_order st @ [?s]" "w_seq ?u = ?s + 1" "w_store ?u = (w_store st)(?s := new_req cfg idx t sig k st)"
    "w_targets ?u = (if has_data cfg then w_targets st @ [?s] else w_targets st)"
    "w_pending ?u = (w_pending st)(k \<mapsto> (case w_pending st k of None \<Rightarrow> [] | Some q \<Rightarrow> q) @ [?s])"
    "w_id_out ?u = (w_id_out st)(k \<mapsto> count_of (w_id_out st k) + 1)"
    "w_state_bytes ?u = w_state_bytes st + req_size cfg sig"
    by (simp_all add: open_request_def Let_def)
  have old: "s \<in> set (w_order st) \<Longrightarrow> w_store ?u s = w_store st s" for s
    using o by (auto simp: new order_ok_def)
  have o': "order_ok ?u" using o by (auto simp: order_ok_def new sorted_wrt_append new_req_def)
  have q: "queue ?u j = queue st j @ (if j = k then [?s] else [])" for j
    using old key_of_new_req [OF assms(2)] by (auto simp: queue_def new(1,3) cong: filter_cong)
  have inc: "incomplete ?u = incomplete st @ (if has_data cfg then [?s] else [])"
    using old by (auto simp: incomplete_def new(1,3) new_req_def cong: filter_cong)
  have ix': "indexes_ok ?u"
    using ix unfolding indexes_ok_def new(4,5,6) inc q by (auto simp: if_nonempty_def count_of_def)
  have "(\<Sum>s \<leftarrow> w_order st. q_bytes (w_store ?u s)) = (\<Sum>s \<leftarrow> w_order st. q_bytes (w_store st s))"
    using old by (metis (no_types, lifting) map_cong)
  then have by': "bytes_ok es ?u" using byt unfolding bytes_ok_def new(1,7) by (simp add: new(3)) (simp add: new_req_def)
  have "q_beats (w_store ?u s) = 0" if "s \<in> set (tl (incomplete ?u))" for s
  proof -
    have "s \<in> set (tl (incomplete st)) \<or> s = ?s"
      using that unfolding inc by (auto dest: in_tl_append split: if_splits)
    then show ?thesis
    proof
      assume h: "s \<in> set (tl (incomplete st))"
      then have "s \<in> set (w_order st)" by (metis filter_is_subset incomplete_def in_mono list.set_sel(2) tl_Nil)
      then show ?thesis using old fr h by (simp add: fresh_ok_def)
    qed (simp add: new(3) new_req_def)
  qed
  then have "fresh_ok ?u" by (simp add: fresh_ok_def)
  then show ?thesis using o' ix' by' by (simp add: inv_at_def)
qed

lemma retain_keeps:
  "w_order (retain cfg sig r x st) = w_order st" "w_seq (retain cfg sig r x st) = w_seq st"
  "w_pending (retain cfg sig r x st) = w_pending st" "w_id_out (retain cfg sig r x st) = w_id_out st"
  "w_targets (retain cfg sig r x st) = w_targets st" "w_store (retain cfg sig r x st) = w_store st"
  "w_state_bytes (retain cfg sig r x st) = w_state_bytes st" "w_early (retain cfg sig r x st) = w_early st"
  "w_latencies (retain cfg sig r x st) = w_latencies st" "w_matched (retain cfg sig r x st) = w_matched st"
  "w_reorder (retain cfg sig r x st) = w_reorder st" "w_unmatched_count (retain cfg sig r x st) = w_unmatched_count st"
  "w_req_count (retain cfg sig r x st) = w_req_count st" "w_cmp_count (retain cfg sig r x st) = w_cmp_count st"
  "w_stop (retain cfg sig r x st) = w_stop st" "w_analyzed (retain cfg sig r x st) = w_analyzed st"
  "w_unmatched (retain cfg sig r x st) = w_unmatched st" "w_peak_pending (retain cfg sig r x st) = w_peak_pending st"
  "w_peak_early (retain cfg sig r x st) = w_peak_early st" "w_state_peak (retain cfg sig r x st) = w_state_peak st"
  "w_max_out (retain cfg sig r x st) = w_max_out st" "w_beat_ctr (retain cfg sig r x st) = w_beat_ctr st"
  "w_beat_id_bytes (retain cfg sig r x st) = w_beat_id_bytes st" "w_id_bytes (retain cfg sig r x st) = w_id_bytes st"
  "w_id_peak (retain cfg sig r x st) = w_id_peak st"
  by (simp_all add: retain_def Let_def)

lemma queue_first:
  assumes "order_ok st" "queue st k = s # rest"
  obtains us vs where "w_order st = us @ s # vs" "\<forall>x \<in> set us. key_of (w_store st x) \<noteq> k"
    "key_of (w_store st s) = k" "s \<notin> set us" "q_seq (w_store st s) = s" "remove1 s (w_order st) = us @ vs"
    "(us @ vs \<noteq> [] \<and> hd (us @ vs) < s) = (us \<noteq> [])"
proof -
  obtain us vs where sp: "w_order st = us @ s # vs" "\<forall>x \<in> set us. key_of (w_store st x) \<noteq> k" "key_of (w_store st s) = k"
    using filter_eq_ConsD [OF assms(2) [unfolded queue_def]] by blast
  have o: "sorted_wrt (<) (us @ s # vs)" and "q_seq (w_store st s) = s" using assms(1) sp(1) by (auto simp: order_ok_def)
  moreover have "s \<notin> set us" using sp by auto
  moreover from this have "remove1 s (w_order st) = us @ vs" by (simp add: sp(1) remove1_append)
  moreover have "(us @ vs \<noteq> [] \<and> hd (us @ vs) < s) = (us \<noteq> [])"
    using o by (cases us; cases vs) (auto simp: sorted_wrt_append)
  ultimately show ?thesis using sp that by blast
qed

lemma match_step_fields:
  fixes cfg idx t sig k n st
  assumes "q = s # rest" "q_seq (w_store st s) = s"
  defines "u \<equiv> match_step cfg idx t sig k n q st" and "lat \<equiv> int idx - int (q_idx (w_store st s))"
  shows "w_order u = remove1 s (w_order st)" "w_seq u = w_seq st" "w_store u = w_store st"
    "w_pending u = (w_pending st)(k := if_nonempty rest)" "w_targets u = remove1 s (w_targets st)"
    "w_id_out u = (w_id_out st)(k := (let o' = count_of (w_id_out st k) - 1 in if o' = 0 then None else Some o'))"
    "w_state_bytes u = w_state_bytes st - q_bytes (w_store st s)" "w_early u = w_early st"
    "w_latencies u = AList.update lat (count_of (map_of (w_latencies st) lat) + 1) (w_latencies st)"
    "w_matched u = w_matched st + 1" "w_unmatched_count u = w_unmatched_count st"
    "w_reorder u = w_reorder st + (if remove1 s (w_order st) \<noteq> [] \<and> hd (remove1 s (w_order st)) < s then 1 else 0)"
    "w_req_count u = w_req_count st" "w_cmp_count u = w_cmp_count st" "w_stop u = w_stop st" "w_analyzed u = w_analyzed st"
  using assms(1,2) by (simp_all add: u_def lat_def match_step_def Let_def retain_keeps if_nonempty_def make_txn_def)

lemma match_step_inv:
  assumes "inv_at es st" "w_pending st k = Some q" "q \<noteq> []"
  shows "inv_at es (match_step cfg idx t sig k n q st)"
proof -
  have o: "order_ok st" and ix: "indexes_ok st" and byt: "bytes_ok es st" and fr: "fresh_ok st"
    using assms(1) by (auto simp: inv_at_def)
  have qk: "queue st k = q" using ix assms(2,3) by (auto simp: indexes_ok_def if_nonempty_def split: if_splits)
  obtain s rest where q: "q = s # rest" using assms(3) by (cases q) auto
  have s: "s \<in> set (w_order st)" "key_of (w_store st s) = k"
    using qk q by (auto simp: queue_def dest: filter_eq_ConsD)
  have seq: "q_seq (w_store st s) = s" using o s by (simp add: order_ok_def)
  let ?u = "match_step cfg idx t sig k n q st"
  note u = match_step_fields [OF q seq, of cfg idx t sig k n]
  have d: "distinct (w_order st)" using o by (rule order_distinct)
  have o': "order_ok ?u" using o unfolding order_ok_def u(1,2,3)
    by (auto simp: strict_sorted_iff sorted_remove1 dest: in_set_remove1 notin_set_remove1)
  have qu: "queue ?u j = (if j = k then rest else queue st j)" for j
    unfolding queue_def u(1,3) filter_remove1
    using qk [unfolded queue_def] q s(2) by (auto simp: remove1_idem)
  have inc: "incomplete ?u = remove1 s (incomplete st)" by (simp add: incomplete_def u(1,3) filter_remove1)
  have len: "w_id_out st k = Some (Suc (length rest))" using ix qk q by (simp add: indexes_ok_def if_nonempty_def)
  have ix': "indexes_ok ?u"
    using ix unfolding indexes_ok_def u(4,5,6) inc qu by (auto simp: if_nonempty_def count_of_def len Let_def qk [unfolded q])
  have by': "bytes_ok es ?u"
    using byt sum_list_map_remove1 [OF s(1), of "\<lambda>s. q_bytes (w_store st s)"] by (simp add: bytes_ok_def u(1,3,7))
  have "set (tl (remove1 s xs)) \<subseteq> set (tl xs)" for xs :: "nat list"
  proof (cases xs)
    case (Cons y ys)
    have "set (tl ys) \<subseteq> set ys" by (cases ys) auto
    then show ?thesis using Cons set_remove1_subset [of s ys] by simp
  qed simp
  then have "fresh_ok ?u" using fr by (auto simp: fresh_ok_def inc u(3))
  then show ?thesis using o' ix' by' by (simp add: inv_at_def)
qed

section \<open>The specification\<close>

text \<open>
  What the correlator promises, without indexes: the open requests are a list of (key, row index)
  in issue order; a completion with key \<open>k\<close> takes the first open request with that key, its
  latency is the distance of the rows, and it is out of order when an older request stays open.
\<close>

record txn_spec =
  sp_open :: "(int \<times> nat) list"
  sp_cycles :: "int multiset"
  sp_requests :: nat
  sp_orphans :: nat
  sp_reorder :: nat

definition spec_init :: txn_spec where
  "spec_init = \<lparr>sp_open = [], sp_cycles = {#}, sp_requests = 0, sp_orphans = 0, sp_reorder = 0\<rparr>"

definition spec_request :: "nat \<Rightarrow> int option \<Rightarrow> txn_spec \<Rightarrow> txn_spec" where
  "spec_request idx k sp = (case k of None \<Rightarrow> sp
     | Some k \<Rightarrow> sp\<lparr>sp_open := sp_open sp @ [(k, idx)], sp_requests := sp_requests sp + 1\<rparr>)"

definition spec_complete :: "nat \<Rightarrow> int \<Rightarrow> txn_spec \<Rightarrow> txn_spec" where
  "spec_complete idx k sp = (case List.extract (\<lambda>p. fst p = k) (sp_open sp) of
       None \<Rightarrow> sp\<lparr>sp_orphans := sp_orphans sp + 1\<rparr>
     | Some (before, (_, i), after) \<Rightarrow> sp\<lparr>sp_open := before @ after,
         sp_cycles := add_mset (int idx - int i) (sp_cycles sp),
         sp_reorder := sp_reorder sp + (if before = [] then 0 else 1)\<rparr>)"

definition spec_row :: "walk_cfg \<Rightarrow> nat \<Rightarrow> txn_row \<Rightarrow> txn_spec \<Rightarrow> txn_spec" where
  "spec_row cfg idx row sp =
     (if fst (row_boundary cfg row) then sp\<lparr>sp_open := []\<rparr>
      else (let sp1 = spec_request idx (row_req cfg (row_signals row)) sp in
            case row_cmp cfg (row_signals row) of
              Some k \<Rightarrow> if last_beat cfg (row_signals row) then spec_complete idx k sp1 else sp1
            | None \<Rightarrow> sp1))"

fun spec_rows :: "walk_cfg \<Rightarrow> nat \<Rightarrow> txn_row list \<Rightarrow> txn_spec \<Rightarrow> txn_spec" where
  "spec_rows cfg idx [] sp = sp"
| "spec_rows cfg idx (row # rows) sp = spec_rows cfg (idx + 1) rows (spec_row cfg idx row sp)"

text \<open>A Counter as a multiset, and the abstraction of the walk's state.\<close>

definition counter_mset :: "(int \<times> nat) list \<Rightarrow> int multiset" where
  "counter_mset al = (\<Sum>(x, c) \<leftarrow> al. replicate_mset c x)"

definition abs_walk :: "walk_state \<Rightarrow> txn_spec" where
  "abs_walk st = \<lparr>sp_open = map (\<lambda>s. (key_of (w_store st s), q_idx (w_store st s))) (w_order st),
     sp_cycles = counter_mset (w_latencies st), sp_requests = w_req_count st,
     sp_orphans = w_unmatched_count st, sp_reorder = w_reorder st\<rparr>"

definition counts_ok :: "walk_state \<Rightarrow> bool" where
  "counts_ok st \<longleftrightarrow> distinct (map fst (w_latencies st)) \<and> (\<forall>p \<in> set (w_latencies st). 0 < snd p) \<and> w_matched st = size (counter_mset (w_latencies st)) \<and>
     w_cmp_count st = w_matched st + w_unmatched_count st"

lemma update_positive:
  "(\<forall>p \<in> set al. 0 < snd p) \<Longrightarrow> 0 < n \<Longrightarrow> (\<forall>p \<in> set (AList.update k n al). (0::nat) < snd p)"
  by (induction al) auto

lemma counter_update:
  assumes "distinct (map fst al)"
  shows "counter_mset (AList.update x (count_of (map_of al x) + 1) al) = add_mset x (counter_mset al)"
  using assms
proof (induction al)
  case (Cons p al)
  then show ?case
    by (cases p) (auto simp: counter_mset_def count_of_def split: option.splits dest: map_of_SomeD)
qed (simp add: counter_mset_def count_of_def)

end
