(* ===== verification/Txn_Refine.thy ===== *)
theory Txn_Refine
  imports Txn_Laws
begin

text \<open>
  The correlator implements its specification: every row that is processed to its end takes the
  abstraction of the state to \<open>spec_row\<close> of it and keeps the invariant; a preflight stop leaves
  the state as it was before the row.
\<close>

lemma extract_split:
  assumes "xs = us @ x # vs" "P x" "\<forall>y \<in> set us. \<not> P y"
  shows "List.extract P xs = Some (us, x, vs)"
  using assms by (simp add: extract_Some_iff)

lemma extract_map:
  "List.extract P (map f xs) = map_option (\<lambda>(us, x, vs). (map f us, f x, map f vs)) (List.extract (P \<circ> f) xs)"
  by (induction xs) (auto simp: extract_Nil_code extract_Cons_code split: option.splits)

lemma abs_frame:
  assumes "frame u = frame st" "\<forall>s. static (w_store u s) = static (w_store st s)"
  shows "abs_walk u = abs_walk st" "counts_ok u = counts_ok st"
proof -
  have f: "w_order u = w_order st" "w_latencies u = w_latencies st" "w_req_count u = w_req_count st"
    "w_unmatched_count u = w_unmatched_count st" "w_reorder u = w_reorder st" "w_matched u = w_matched st"
    "w_cmp_count u = w_cmp_count st"
    using assms(1) by (metis frame_fields)+
  have "map (\<lambda>s. (key_of (w_store u s), q_idx (w_store u s))) xs = map (\<lambda>s. (key_of (w_store st s), q_idx (w_store st s))) xs" for xs
    using assms(2) static_eqD by (intro map_cong refl) blast
  then show "abs_walk u = abs_walk st" "counts_ok u = counts_ok st"
    by (simp_all add: abs_walk_def counts_ok_def f)
qed

definition good :: "walk_state \<Rightarrow> bool" where
  "good st \<longleftrightarrow> walk_inv st \<and> counts_ok st \<and> settled st"

definition kept :: "walk_state \<Rightarrow> walk_state \<Rightarrow> bool" where
  "kept st u \<longleftrightarrow> w_stop u = w_stop st \<and> w_analyzed u = w_analyzed st"

lemma spec_request_None [simp]: "spec_request idx None sp = sp"
  by (simp add: spec_request_def)

lemma abs_open_request:
  assumes "order_ok st" "req_key cfg sig = Some k"
  shows "abs_walk (open_request cfg idx t sig k idb st) = spec_request idx (Some k) (abs_walk st)"
proof -
  have "w_seq st \<notin> set (w_order st)" using assms(1) by (auto simp: order_ok_def)
  then show ?thesis using key_of_new_req [OF assms(2)]
    by (auto simp: abs_walk_def spec_request_def open_request_def Let_def new_req_def)
qed

lemma req_phase_sim:
  assumes "good st" "req_phase cfg idx t sig idb st = (u, ok)"
  shows "walk_inv u \<and> counts_ok u \<and>
    (if ok then settled u \<and> kept st u \<and> abs_walk u = spec_request idx (row_req cfg sig) (abs_walk st)
     else w_stop u = Some ''timeout'')"
proof (cases "req_ok cfg sig")
  case False
  then show ?thesis using assms by (auto simp: req_phase_def row_req_def good_def kept_def)
next
  case True
  show ?thesis
  proof (cases "req_key cfg sig")
    case None
    then have "u = st\<lparr>w_unknown_id := w_unknown_id st + 1\<rparr>" "ok" using assms(2) True by (auto simp: req_phase_def)
    then show ?thesis using assms(1) True None
      by (auto simp: row_req_def good_def kept_def walk_inv_def settled_def counts_ok_def abs_walk_def
        inv_at_cong [of "st\<lparr>w_unknown_id := x\<rparr>" st for x])
  next
    case (Some k)
    let ?v = "open_request cfg idx t sig k idb st"
    have run: "attach cfg ?v = (u, ok)" using assms(2) True Some by (simp add: req_phase_def)
    have e: "w_early ?v = w_early st" "counts_ok ?v = counts_ok st" "w_stop ?v = w_stop st" "w_analyzed ?v = w_analyzed st"
      by (simp_all add: open_request_def Let_def counts_ok_def)
    have i: "walk_inv st" and o: "order_ok st" using assms(1) by (auto simp: good_def walk_inv_def inv_at_def)
    have "walk_inv ?v" using open_request_inv [OF i [unfolded walk_inv_def] Some] by (simp add: walk_inv_def e)
    note a = attach_inv [OF this run]
    have ana: "w_analyzed u = w_analyzed ?v" using a frame_fields by metis
    show ?thesis
      using a abs_frame [of u ?v] abs_open_request [OF o Some, of idx t idb] assms(1) True Some e ana
      by (auto simp: kept_def row_req_def good_def)
  qed
qed

lemma data_phase_sim:
  assumes "good st" "data_phase cfg t sig st = (u, ok)"
  shows "walk_inv u \<and> counts_ok u \<and>
    (if ok then settled u \<and> kept st u \<and> abs_walk u = abs_walk st else w_stop u = Some ''timeout'')"
proof (cases "data_ok cfg sig")
  case False
  then show ?thesis using assms by (auto simp: data_phase_def good_def kept_def)
next
  case True
  let ?e = "(data_beat cfg t sig, data_size cfg sig)"
  let ?v = "st\<lparr>w_early := w_early st @ [?e], w_state_bytes := w_state_bytes st + data_size cfg sig\<rparr>"
  obtain w where run: "attach cfg ?v = (w, ok)"
    and u: "u = (if ok then w\<lparr>w_peak_early := max (w_peak_early w) (length (w_early w))\<rparr> else w)"
    using assms(2) True by (auto simp: data_phase_def split: prod.splits)
  have "walk_inv ?v"
    using assms(1) by (simp add: good_def walk_inv_def inv_at_def order_ok_def indexes_ok_def bytes_ok_def fresh_ok_def
      queue_def incomplete_def)
  note a = attach_inv [OF this run]
  have ana: "w_analyzed w = w_analyzed st" using a frame_fields(20) [of w] frame_fields(20) [of ?v] by simp
  have s: "abs_walk ?v = abs_walk st" "counts_ok ?v = counts_ok st" by (simp_all add: abs_walk_def counts_ok_def)
  have "inv_at es u = inv_at es w" for es by (rule inv_at_cong) (simp_all add: u)
  then have "walk_inv u = walk_inv w" "counts_ok u = counts_ok w" "settled u = settled w" "abs_walk u = abs_walk w"
    "w_stop u = w_stop w" "w_analyzed u = w_analyzed w"
    by (simp_all add: u walk_inv_def counts_ok_def settled_def abs_walk_def)
  then show ?thesis using a abs_frame [of w ?v] assms(1) s ana by (auto simp: good_def kept_def)
qed

lemma complete_step_sim:
  assumes "good st"
  shows "good (complete_step cfg idx t sig k b st) \<and> kept st (complete_step cfg idx t sig k b st) \<and>
    abs_walk (complete_step cfg idx t sig k b st) =
      (if last_beat cfg sig then spec_complete idx k (abs_walk st) else abs_walk st)"
proof (cases "last_beat cfg sig")
  case False
  let ?u = "complete_step cfg idx t sig k b st"
  have "inv_at es ?u = inv_at es st" for es by (rule inv_at_cong) (simp_all add: False complete_step_def Let_def)
  then show ?thesis using assms False
    by (simp add: complete_step_def Let_def good_def walk_inv_def settled_def counts_ok_def abs_walk_def kept_def)
next
  case True
  define n where "n = count_of (w_beat_ctr st k) + 1"
  define st1 where "st1 = st\<lparr>w_beat_id_bytes := w_beat_id_bytes st + b, w_beat_ctr := (w_beat_ctr st)(k \<mapsto> n)\<rparr>"
  define v where "v = st1\<lparr>w_cmp_count := w_cmp_count st1 + 1, w_beat_ctr := (w_beat_ctr st1)(k := None),
     w_beat_id_bytes := w_beat_id_bytes st1 - (256 + c_sizeof cfg k)\<rparr>"
  have u: "complete_step cfg idx t sig k b st = (case w_pending v k of None \<Rightarrow> unmatched_step cfg t k v
      | Some q \<Rightarrow> if q = [] then unmatched_step cfg t k v else match_step cfg idx t sig k n q v)"
    by (simp only: complete_step_def Let_def True n_def v_def st1_def not_True_eq_False if_False)
  have "inv_at es v = inv_at es st" for es by (rule inv_at_cong) (simp_all add: v_def st1_def)
  then have i: "inv_at (w_early v) v" using assms by (simp add: good_def walk_inv_def v_def st1_def)
  have v: "w_targets v = w_targets st" "w_early v = w_early st" "abs_walk v = abs_walk st" "w_stop v = w_stop st"
    "w_analyzed v = w_analyzed st" "w_latencies v = w_latencies st" "w_matched v = w_matched st"
    "w_unmatched_count v = w_unmatched_count st" "w_cmp_count v = w_cmp_count st + 1"
    by (simp_all add: v_def st1_def abs_walk_def)
  have c: "counts_ok st" "settled st" using assms by (simp_all add: good_def)
  have o: "order_ok v" and pend: "w_pending v k = if_nonempty (queue v k)"
    using i by (simp_all add: inv_at_def indexes_ok_def)
  show ?thesis
  proof (cases "queue v k")
    case Nil
    let ?w = "unmatched_step cfg t k v"
    have "inv_at es ?w = inv_at es v" for es by (rule inv_at_cong) (simp_all add: unmatched_step_def)
    then have g: "good ?w" using i c v by (simp add: good_def walk_inv_def settled_def counts_ok_def unmatched_step_def)
    have "List.extract (\<lambda>p. fst p = k) (sp_open (abs_walk v)) = None"
      using Nil by (auto simp: extract_None_iff abs_walk_def queue_def filter_empty_conv)
    then have "abs_walk ?w = spec_complete idx k (abs_walk st)"
      using v(3) by (simp add: spec_complete_def) (simp add: abs_walk_def unmatched_step_def)
    then show ?thesis using g True v by (simp add: u pend Nil if_nonempty_def kept_def unmatched_step_def)
  next
    case (Cons s rest)
    obtain us vs where sp: "w_order v = us @ s # vs" "\<forall>x \<in> set us. key_of (w_store v x) \<noteq> k"
      "key_of (w_store v s) = k" "s \<notin> set us" "q_seq (w_store v s) = s" "remove1 s (w_order v) = us @ vs"
      "(us @ vs \<noteq> [] \<and> hd (us @ vs) < s) = (us \<noteq> [])"
      using queue_first [OF o Cons] by blast
    let ?w = "match_step cfg idx t sig k n (s # rest) v"
    note f = match_step_fields [OF refl sp(5), of cfg idx t sig k n rest]
    have "inv_at (w_early v) ?w" using match_step_inv [OF i, of k "s # rest"] pend Cons by (simp add: if_nonempty_def)
    then have "walk_inv ?w" by (simp add: walk_inv_def f(8))
    moreover have "settled ?w" using c(2) v by (auto simp: settled_def f)
    moreover have "counts_ok ?w"
      using c(1) counter_update update_positive [of "w_latencies st" "Suc n" for n]
      by (auto simp: counts_ok_def f v distinct_update)
    ultimately have g: "good ?w" by (simp add: good_def)
    define view where "view x = (key_of (w_store v x), q_idx (w_store v x))" for x
    have "List.extract (\<lambda>p. fst p = k) (sp_open (abs_walk v)) = Some (map view us, view s, map view vs)"
      by (rule extract_split) (use sp in \<open>auto simp: abs_walk_def view_def\<close>)
    then have "spec_complete idx k (abs_walk v) = (abs_walk v)\<lparr>sp_open := map view us @ map view vs,
        sp_cycles := add_mset (int idx - int (q_idx (w_store v s))) (sp_cycles (abs_walk v)),
        sp_reorder := sp_reorder (abs_walk v) + (if us = [] then 0 else 1)\<rparr>"
      by (simp add: spec_complete_def view_def)
    also have "\<dots> = abs_walk ?w"
      using c(1) counter_update sp(6,7) v
      by (simp add: abs_walk_def f view_def counts_ok_def)
    finally have "abs_walk ?w = spec_complete idx k (abs_walk st)" using v(3) by simp
    then show ?thesis using g True v by (simp add: u pend Cons if_nonempty_def kept_def f)
  qed
qed

lemma cmp_phase_sim:
  assumes "good st"
  shows "good (cmp_phase cfg idx t sig b st) \<and> kept st (cmp_phase cfg idx t sig b st) \<and>
    abs_walk (cmp_phase cfg idx t sig b st) =
      (case row_cmp cfg sig of None \<Rightarrow> abs_walk st
       | Some k \<Rightarrow> if last_beat cfg sig then spec_complete idx k (abs_walk st) else abs_walk st)"
proof -
  let ?v = "st\<lparr>w_unknown_id := w_unknown_id st + 1\<rparr>"
  have "inv_at es ?v = inv_at es st" for es by (rule inv_at_cong) simp_all
  then have "good ?v" using assms by (simp add: good_def walk_inv_def settled_def counts_ok_def)
  moreover have "abs_walk ?v = abs_walk st" "kept st ?v" by (simp_all add: abs_walk_def kept_def)
  ultimately show ?thesis using assms complete_step_sim [OF assms]
    by (auto simp: cmp_phase_def row_cmp_def kept_def split: option.splits)
qed

lemma channels_sim:
  assumes "good st" "channels cfg idx t sig idb beatb st = (u, ok)"
  shows "walk_inv u \<and> counts_ok u \<and>
    (if ok then settled u \<and> kept st u \<and> abs_walk u =
        (let sp1 = spec_request idx (row_req cfg sig) (abs_walk st) in
         case row_cmp cfg sig of Some k \<Rightarrow> if last_beat cfg sig then spec_complete idx k sp1 else sp1 | None \<Rightarrow> sp1)
     else w_stop u = Some ''timeout'')"
proof -
  obtain v ok1 where r: "req_phase cfg idx t sig idb st = (v, ok1)" by fastforce
  note rv = req_phase_sim [OF assms(1) r]
  show ?thesis
  proof (cases ok1)
    case False
    then show ?thesis using assms(2) r rv by (simp add: channels_def)
  next
    case True
    then have gv: "good v" using rv by (simp add: good_def)
    obtain w ok2 where d: "data_phase cfg t sig v = (w, ok2)" by fastforce
    note dw = data_phase_sim [OF gv d]
    show ?thesis
    proof (cases ok2)
      case False
      then show ?thesis using assms(2) r d dw True by (simp add: channels_def)
    next
      case True2: True
      then have gw: "good w" using dw by (simp add: good_def)
      show ?thesis using cmp_phase_sim [OF gw, of cfg idx t sig beatb] assms(2) r d dw rv True True2
        by (auto simp: channels_def good_def kept_def Let_def split: option.splits)
    qed
  qed
qed

definition stop_reasons :: "string list" where
  "stop_reasons = [''pending_budget'', ''early_data_budget'', ''state_byte_budget'']"

lemma preflight_reason: "preflight cfg sig st = Some r \<Longrightarrow> r \<in> set stop_reasons"
  by (auto simp: preflight_def stop_reasons_def split: if_splits)

text \<open>A row: processed to its end, stopped by preflight with nothing changed, or cut short.\<close>

lemma row_step_sim:
  assumes "good st" "row_step cfg idx row st = (u, ok)"
  shows "walk_inv u \<and> counts_ok u \<and>
    (if ok then settled u \<and> w_stop u = w_stop st \<and> w_analyzed u = idx + 1 \<and> abs_walk u = spec_row cfg idx row (abs_walk st)
     else w_stop u = Some ''timeout'' \<or>
       settled u \<and> w_stop u \<in> Some ` set stop_reasons \<and> w_analyzed u = w_analyzed st \<and> abs_walk u = abs_walk st)"
proof (cases "w_checks st = 0")
  case True
  have "inv_at es (st\<lparr>w_stop := Some ''timeout''\<rparr>) = inv_at es st" for es by (rule inv_at_cong) simp_all
  moreover have "u = st\<lparr>w_stop := Some ''timeout''\<rparr>" "\<not> ok" using assms(2) True by (simp_all add: row_step_def)
  ultimately show ?thesis using assms(1) by (simp add: good_def walk_inv_def counts_ok_def)
next
  case False
  let ?st = "st\<lparr>w_checks := w_checks st - 1\<rparr>" and ?t = "row_time row" and ?sig = "row_signals row"
  obtain bd un where b: "row_boundary cfg row = (bd, un)" by fastforce
  have "inv_at es (?st) = inv_at es st" for es by (rule inv_at_cong) simp_all
  then have g0: "good ?st" using assms(1) by (simp add: good_def walk_inv_def settled_def counts_ok_def)
  have a0: "abs_walk ?st = abs_walk st" by (simp add: abs_walk_def)
  show ?thesis
  proof (cases bd)
    case True
    then have u: "u = boundary_step idx ?t un ?st" "ok" using assms(2) False b by (auto simp: row_step_def)
    have "walk_inv u" by (simp add: u boundary_step_def Let_def walk_inv_def inv_at_def order_ok_def indexes_ok_def
        bytes_ok_def fresh_ok_def queue_def incomplete_def if_nonempty_def)
    moreover have "counts_ok u" using g0 by (simp add: u boundary_step_def Let_def good_def counts_ok_def)
    ultimately show ?thesis using u True b
      by (simp add: boundary_step_def Let_def settled_def spec_row_def abs_walk_def)
  next
    case nb: False
    show ?thesis
    proof (cases "preflight cfg ?sig ?st")
      case (Some r)
      then have u: "u = ?st\<lparr>w_stop := Some r\<rparr>" "\<not> ok" using assms(2) False b nb by (auto simp: row_step_def Let_def)
      have "inv_at es u = inv_at es ?st" for es by (rule inv_at_cong) (simp_all add: u)
      then show ?thesis using g0 u preflight_reason [OF Some]
        by (simp add: good_def walk_inv_def settled_def counts_ok_def abs_walk_def)
    next
      case None
      let ?v = "admit_row cfg idx ?t ?sig ?st"
      have run: "channels cfg idx ?t ?sig (new_id_bytes cfg ?sig ?st) (new_beat_bytes cfg ?sig ?st) ?v = (u, ok)"
        using assms(2) False b nb None by (simp add: row_step_def Let_def)
      have "inv_at es ?v = inv_at es ?st" for es by (rule inv_at_cong) (simp_all add: admit_row_def)
      then have gv: "good ?v" using g0
        by (simp add: good_def walk_inv_def settled_def counts_ok_def admit_row_def)
      have av: "abs_walk ?v = abs_walk st" "w_stop ?v = w_stop st" "w_analyzed ?v = idx + 1"
        by (simp_all add: admit_row_def abs_walk_def)
      show ?thesis using channels_sim [OF gv run] av b nb by (auto simp: kept_def spec_row_def Let_def)
    qed
  qed
qed

lemma walk_rows_sim:
  assumes "good st" "w_analyzed st = idx" "walk_rows cfg idx rows st = u"
  shows "walk_inv u \<and> counts_ok u \<and>
    (w_stop u \<noteq> Some ''timeout'' \<longrightarrow> settled u \<and> idx \<le> w_analyzed u \<and>
       abs_walk u = spec_rows cfg idx (take (w_analyzed u - idx) rows) (abs_walk st)) \<and>
    (w_stop u = w_stop st \<longrightarrow> w_stop st \<notin> Some ` set (''timeout'' # stop_reasons) \<longrightarrow> w_analyzed u = idx + length rows)"
  using assms
proof (induction rows arbitrary: idx st)
  case Nil
  then show ?case by (auto simp: good_def)
next
  case (Cons row rows)
  obtain v ok where r: "row_step cfg idx row st = (v, ok)" by fastforce
  note s = row_step_sim [OF Cons.prems(1) r]
  show ?case
  proof (cases ok)
    case True
    then have "good v" "w_analyzed v = idx + 1" "walk_rows cfg (idx + 1) rows v = u"
      using s Cons.prems(3) r by (simp_all add: good_def)
    from Cons.IH [OF this] s True show ?thesis
      by (auto simp: take_Cons' Suc_diff_le numeral_eq_Suc)
  next
    case False
    then have "u = v" using Cons.prems(3) r by simp
    then show ?thesis using s False Cons.prems(2) by auto
  qed
qed

lemma good_init: "good (init_walk checks stop)" "w_analyzed (init_walk checks stop) = 0"
  "abs_walk (init_walk checks stop) = spec_init" "w_stop (init_walk checks stop) = stop"
  by (simp_all add: good_def init_walk_def walk_inv_def inv_at_def order_ok_def indexes_ok_def bytes_ok_def
    fresh_ok_def queue_def incomplete_def if_nonempty_def counts_ok_def counter_mset_def settled_def abs_walk_def
    spec_init_def)

lemma txn_walk_sim:
  fixes cfg checks stop rows
  defines "u \<equiv> txn_walk cfg checks stop rows"
  shows "walk_inv u" "counts_ok u"
    "w_stop u \<noteq> Some ''timeout'' \<Longrightarrow> settled u \<and> abs_walk u = spec_rows cfg 0 (take (w_analyzed u) rows) spec_init"
    "w_stop u = None \<Longrightarrow> stop = None \<Longrightarrow> w_analyzed u = length rows"
  using walk_rows_sim [OF good_init(1,2), of cfg rows checks stop u] good_init(3,4) [of checks stop]
  by (auto simp: u_def txn_walk_def)

end
