(* ===== verification/Txn_Bounds.thy ===== *)
theory Txn_Bounds
  imports Txn_Refine
begin

text \<open>
  The resource bounds of the correlator: the containers stay within the limits of the budget and
  the bytes accounted for the open requests and early beats stay within \<open>state_bytes\<close>.
\<close>

definition beats_accounted :: "walk_cfg \<Rightarrow> walk_state \<Rightarrow> bool" where
  "beats_accounted cfg st \<longleftrightarrow> finite (dom (w_beat_ctr st)) \<and>
     w_beat_id_bytes st = (\<Sum>k \<in> dom (w_beat_ctr st). 256 + c_sizeof cfg k)"

definition sizes_ok :: "walk_state \<Rightarrow> bool" where
  "sizes_ok st \<longleftrightarrow> (\<forall>e \<in> set (w_early st). 0 \<le> snd e) \<and> (\<forall>s \<in> set (w_order st). 0 \<le> q_bytes (w_store st s)) \<and>
     0 \<le> w_id_bytes st"

definition containers_ok :: "walk_cfg \<Rightarrow> walk_state \<Rightarrow> bool" where
  "containers_ok cfg st \<longleftrightarrow> length (w_order st) \<le> lim_pending (c_limits cfg) \<and>
     w_peak_pending st \<le> lim_pending (c_limits cfg) \<and> w_max_out st \<le> lim_pending (c_limits cfg)"

definition display_ok :: "walk_cfg \<Rightarrow> walk_state \<Rightarrow> bool" where
  "display_ok cfg st \<longleftrightarrow> length (w_txns st) \<le> c_max cfg \<and> w_result_bytes st \<le> max 0 (lim_result (c_limits cfg)) \<and>
     length (w_unmatched st) \<le> MAX_UNMATCHED_SHOWN"

definition bounded :: "walk_cfg \<Rightarrow> walk_state \<Rightarrow> bool" where
  "bounded cfg st \<longleftrightarrow> beats_accounted cfg st \<and> sizes_ok st \<and> containers_ok cfg st \<and> display_ok cfg st"

definition sizeof_ok :: "walk_cfg \<Rightarrow> bool" where
  "sizeof_ok cfg \<longleftrightarrow> (\<forall>k. 0 \<le> c_sizeof cfg k)"

lemma field_size_nonneg: "0 \<le> field_size sig names"
  unfolding field_size_def by (rule sum_list_nonneg) (auto split: option.splits)

lemma size_nonneg: "sizeof_ok cfg \<Longrightarrow> 0 \<le> req_size cfg sig" "0 \<le> data_size cfg sig"
  "sizeof_ok cfg \<Longrightarrow> 0 \<le> new_id_bytes cfg sig st" "sizeof_ok cfg \<Longrightarrow> 0 \<le> new_beat_bytes cfg sig st"
  using field_size_nonneg [of sig "c_req_fields cfg"] field_size_nonneg [of sig "c_data_fields cfg"]
  by (auto simp: sizeof_ok_def req_size_def data_size_def new_id_bytes_def new_beat_bytes_def add_nonneg_nonneg split: option.splits)

lemma attach_loop_sizes:
  assumes "attach_loop cfg es st = (u, ok)" "\<forall>e \<in> set es. 0 \<le> snd e"
  shows "(\<forall>s. q_bytes (w_store st s) \<le> q_bytes (w_store u s)) \<and> w_state_bytes u \<le> w_state_bytes st \<and>
    set (w_early u) \<subseteq> set es \<and> frame u = frame st"
  using assms
proof (induction cfg es st arbitrary: u ok rule: attach_loop.induct)
  case (1 cfg st)
  then show ?case by (auto simp: frame_def)
next
  case (2 cfg e es st)
  consider "w_targets st = []" | "w_targets st \<noteq> []" "w_checks st = 0" | "w_targets st \<noteq> []" "w_checks st \<noteq> 0" by blast
  then show ?case
  proof cases
    case 3
    let ?st = "st\<lparr>w_checks := w_checks st - 1\<rparr>"
    have b: "w_state_bytes (attach_beat cfg e ?st) \<le> w_state_bytes st"
      using attach_beat_bytes(1) [of cfg "fst e" "snd e" ?st] 2(3) by auto
    have q: "q_bytes (w_store st s) \<le> q_bytes (w_store (attach_beat cfg e ?st) s)" for s
      using attach_beat_bytes(2) [of cfg "fst e" "snd e" ?st] attach_beat_store [of s ?st cfg e] 2(3)
      by (cases "s = hd (w_targets st)") auto
    have f: "frame (attach_beat cfg e ?st) = frame st" using attach_beat_frame [of cfg e ?st] by (simp add: frame_def)
    have "attach_loop cfg es (attach_beat cfg e ?st) = (u, ok)" using 2(2) 3 by simp
    from "2.IH" [OF 3 this] 2(3) have r: "\<forall>s. q_bytes (w_store (attach_beat cfg e ?st) s) \<le> q_bytes (w_store u s)"
      "w_state_bytes u \<le> w_state_bytes (attach_beat cfg e ?st)" "set (w_early u) \<subseteq> set es"
      "frame u = frame (attach_beat cfg e ?st)" by auto
    show ?thesis using r b f q by (auto intro: order_trans)
  qed (use 2 in \<open>auto simp: frame_def\<close>)
qed

text \<open>What \<open>attach\<close> preserves.\<close>

lemma attach_bounded:
  assumes "attach cfg st = (u, ok)" "bounded cfg st"
  shows "bounded cfg u \<and> w_state_bytes u \<le> w_state_bytes st \<and> w_beat_ctr u = w_beat_ctr st \<and> w_peak_early u = w_peak_early st"
proof -
  have s: "\<forall>e \<in> set (w_early st). 0 \<le> snd e" using assms(2) by (simp add: bounded_def sizes_ok_def)
  note a = attach_loop_sizes [OF assms(1) [unfolded attach_def] s]
  have f: "frame u = frame st" using a by simp
  have e: "w_order u = w_order st" "w_id_bytes u = w_id_bytes st" "w_peak_pending u = w_peak_pending st"
    "w_max_out u = w_max_out st" "w_beat_ctr u = w_beat_ctr st" "w_beat_id_bytes u = w_beat_id_bytes st"
    "w_txns u = w_txns st" "w_result_bytes u = w_result_bytes st" "w_unmatched u = w_unmatched st"
    "w_peak_early u = w_peak_early st"
    using f by (metis frame_fields)+
  have sz: "sizes_ok st" using assms(2) by (simp add: bounded_def)
  have "0 \<le> q_bytes (w_store u x)" if "x \<in> set (w_order st)" for x
    using a sz that order_trans [of 0 "q_bytes (w_store st x)" "q_bytes (w_store u x)"] by (simp add: sizes_ok_def)
  moreover have "\<forall>b \<in> set (w_early u). 0 \<le> snd b" using a s by blast
  ultimately have "sizes_ok u" using sz by (simp add: sizes_ok_def e)
  moreover have "w_state_bytes u \<le> w_state_bytes st" using a by blast
  ultimately show ?thesis using assms(2)
    by (simp add: bounded_def beats_accounted_def containers_ok_def display_ok_def e)
qed

lemma req_phase_bounded:
  assumes "req_phase cfg idx t sig idb st = (u, ok)" "bounded cfg st" "order_ok st" "0 \<le> idb" "sizeof_ok cfg"
    "row_req cfg sig \<noteq> None \<longrightarrow> length (w_order st) < lim_pending (c_limits cfg)"
  shows "bounded cfg u \<and> w_state_bytes u \<le> w_state_bytes st + req_size cfg sig \<and> w_beat_ctr u = w_beat_ctr st \<and>
    w_peak_early u = w_peak_early st"
proof (cases "row_req cfg sig")
  case None
  then have u: "u = (if req_ok cfg sig then st\<lparr>w_unknown_id := w_unknown_id st + 1\<rparr> else st)"
    using assms(1) by (cases "req_ok cfg sig") (simp_all add: req_phase_def row_req_def)
  have "bounded cfg (st\<lparr>w_unknown_id := n\<rparr>)" for n
    using assms(2) by (simp add: bounded_def beats_accounted_def sizes_ok_def containers_ok_def display_ok_def)
  then show ?thesis using assms(2) size_nonneg(1) [OF assms(5), of sig] by (simp add: u)
next
  case (Some k)
  let ?v = "open_request cfg idx t sig k idb st"
  have run: "attach cfg ?v = (u, ok)" using assms(1) Some by (auto simp: req_phase_def row_req_def split: if_splits)
  have new: "w_order ?v = w_order st @ [w_seq st]" "w_early ?v = w_early st" "w_id_bytes ?v = w_id_bytes st + idb"
    "w_store ?v = (w_store st)(w_seq st := new_req cfg idx t sig k st)" "w_beat_ctr ?v = w_beat_ctr st"
    "w_state_bytes ?v = w_state_bytes st + req_size cfg sig" "w_peak_early ?v = w_peak_early st"
    by (simp_all add: open_request_def Let_def)
  have "sizes_ok ?v"
    using assms(2,4) size_nonneg(1) [OF assms(5), of sig] unfolding sizes_ok_def new bounded_def by (auto simp: new_req_def)
  moreover have "containers_ok cfg ?v" using assms(2,6) Some
    by (simp add: bounded_def containers_ok_def open_request_def Let_def)
  moreover have "beats_accounted cfg ?v" "display_ok cfg ?v" using assms(2)
    by (simp_all add: bounded_def beats_accounted_def display_ok_def open_request_def Let_def)
  ultimately have "bounded cfg ?v" by (simp add: bounded_def)
  from attach_bounded [OF run this] show ?thesis by (simp add: new)
qed

lemma data_phase_bounded:
  assumes "data_phase cfg t sig st = (u, ok)" "bounded cfg st"
  shows "bounded cfg u \<and> w_state_bytes u \<le> w_state_bytes st + data_size cfg sig \<and> w_beat_ctr u = w_beat_ctr st"
proof (cases "data_ok cfg sig")
  case False
  then show ?thesis using assms size_nonneg(2) [of cfg sig] by (auto simp: data_phase_def)
next
  case True
  let ?v = "st\<lparr>w_early := w_early st @ [(data_beat cfg t sig, data_size cfg sig)], w_state_bytes := w_state_bytes st + data_size cfg sig\<rparr>"
  obtain w where run: "attach cfg ?v = (w, ok)"
    and u: "u = (if ok then w\<lparr>w_peak_early := max (w_peak_early w) (length (w_early w))\<rparr> else w)"
    using assms(1) True by (auto simp: data_phase_def split: prod.splits)
  have "bounded cfg ?v" using assms(2) size_nonneg(2) [of cfg sig]
    by (auto simp: bounded_def beats_accounted_def sizes_ok_def containers_ok_def display_ok_def)
  from attach_bounded [OF run this] show ?thesis
    by (auto simp: u bounded_def beats_accounted_def sizes_ok_def containers_ok_def display_ok_def)
qed

section \<open>Completions\<close>

lemma beats_add:
  assumes "beats_accounted cfg st" "b = (if w_beat_ctr st k \<noteq> None then 0 else 256 + c_sizeof cfg k)"
  shows "beats_accounted cfg (st\<lparr>w_beat_id_bytes := w_beat_id_bytes st + b, w_beat_ctr := (w_beat_ctr st)(k \<mapsto> n)\<rparr>)"
proof (cases "k \<in> dom (w_beat_ctr st)")
  case True
  then show ?thesis using assms by (simp add: beats_accounted_def insert_absorb domIff)
next
  case False
  then show ?thesis using assms by (simp add: beats_accounted_def domIff)
qed

lemma beats_pop:
  assumes "beats_accounted cfg st" "w_beat_ctr st k \<noteq> None"
    "w_beat_ctr u = (w_beat_ctr st)(k := None)" "w_beat_id_bytes u = w_beat_id_bytes st - (256 + c_sizeof cfg k)"
  shows "beats_accounted cfg u"
proof -
  have k: "k \<in> dom (w_beat_ctr st)" "finite (dom (w_beat_ctr st))" using assms(1,2) by (auto simp: beats_accounted_def)
  show ?thesis using assms k by (simp add: beats_accounted_def sum_diff1)
qed

lemma match_step_bounded:
  assumes "bounded cfg st" "inv_at es st" "w_pending st k = Some q" "q \<noteq> []"
  shows "bounded cfg (match_step cfg idx t sig k n q st) \<and>
    w_state_bytes (match_step cfg idx t sig k n q st) \<le> w_state_bytes st"
proof -
  let ?u = "match_step cfg idx t sig k n q st"
  have o: "order_ok st" and ix: "indexes_ok st" using assms(2) by (auto simp: inv_at_def)
  have qk: "queue st k = q" using ix assms(3,4) by (auto simp: indexes_ok_def if_nonempty_def split: if_splits)
  obtain s rest where q: "q = s # rest" using assms(4) by (cases q) auto
  have s: "s \<in> set (w_order st)" using qk q by (auto simp: queue_def dest: filter_eq_ConsD)
  have seq: "q_seq (w_store st s) = s" using o s by (simp add: order_ok_def)
  note u = match_step_fields [OF q seq, of cfg idx t sig k n]
  have sz: "sizes_ok st" using assms(1) by (simp add: bounded_def)
  have f: "w_beat_ctr ?u = w_beat_ctr st" "w_beat_id_bytes ?u = w_beat_id_bytes st" "w_id_bytes ?u = w_id_bytes st"
    "w_peak_pending ?u = w_peak_pending st" "w_max_out ?u = w_max_out st" "w_unmatched ?u = w_unmatched st"
    by (simp_all add: match_step_def Let_def retain_keeps)
  have "length (w_txns (retain cfg sig r x v)) \<le> c_max cfg \<and> w_result_bytes (retain cfg sig r x v) \<le> max 0 (lim_result (c_limits cfg))"
    if "length (w_txns v) \<le> c_max cfg" "w_result_bytes v \<le> max 0 (lim_result (c_limits cfg))" for r x v
    using that by (auto simp: retain_def Let_def)
  then have "length (w_txns ?u) \<le> c_max cfg \<and> w_result_bytes ?u \<le> max 0 (lim_result (c_limits cfg))"
    using assms(1) unfolding match_step_def Let_def by (simp add: bounded_def display_ok_def)
  then have "display_ok cfg ?u" using assms(1) by (simp add: bounded_def display_ok_def f)
  moreover have "sizes_ok ?u"
    using sz set_remove1_subset [of s "w_order st"] by (auto simp: sizes_ok_def u f)
  moreover have "beats_accounted cfg ?u" using assms(1) by (simp add: bounded_def beats_accounted_def f)
  moreover have "containers_ok cfg ?u"
    using assms(1) s by (auto simp: bounded_def containers_ok_def f u length_remove1)
  moreover have "0 \<le> q_bytes (w_store st s)" using sz s by (simp add: sizes_ok_def)
  ultimately show ?thesis by (simp add: bounded_def u)
qed

lemma complete_step_bounded:
  assumes "bounded cfg st" "inv_at es st" "b = (if w_beat_ctr st k \<noteq> None then 0 else 256 + c_sizeof cfg k)"
  shows "bounded cfg (complete_step cfg idx t sig k b st) \<and>
    w_state_bytes (complete_step cfg idx t sig k b st) \<le> w_state_bytes st"
proof -
  define n where "n = count_of (w_beat_ctr st k) + 1"
  define st1 where "st1 = st\<lparr>w_beat_id_bytes := w_beat_id_bytes st + b, w_beat_ctr := (w_beat_ctr st)(k \<mapsto> n)\<rparr>"
  define v where "v = st1\<lparr>w_cmp_count := w_cmp_count st1 + 1, w_beat_ctr := (w_beat_ctr st1)(k := None),
     w_beat_id_bytes := w_beat_id_bytes st1 - (256 + c_sizeof cfg k)\<rparr>"
  have b1: "beats_accounted cfg st1"
    unfolding st1_def using assms(1) by (intro beats_add assms(3)) (simp add: bounded_def)
  have r1: "bounded cfg st1" using assms(1) b1
    by (simp add: bounded_def) (simp add: st1_def sizes_ok_def containers_ok_def display_ok_def)
  have bv: "beats_accounted cfg v" by (rule beats_pop [OF b1, of k]) (simp_all add: v_def, simp add: st1_def)
  have rv: "bounded cfg v" using r1 bv
    by (simp add: bounded_def) (simp add: v_def sizes_ok_def containers_ok_def display_ok_def)
  have iv: "inv_at es v" using assms(2) inv_at_cong [of v st es] by (simp add: v_def st1_def)
  have sb: "w_state_bytes v = w_state_bytes st" "w_state_bytes st1 = w_state_bytes st" by (simp_all add: v_def st1_def)
  have um: "bounded cfg (unmatched_step cfg t k v) \<and> w_state_bytes (unmatched_step cfg t k v) = w_state_bytes v"
    using rv by (simp add: bounded_def unmatched_step_def beats_accounted_def sizes_ok_def containers_ok_def display_ok_def)
  have u: "complete_step cfg idx t sig k b st = (if \<not> last_beat cfg sig then st1 else
      case w_pending v k of None \<Rightarrow> unmatched_step cfg t k v
      | Some q \<Rightarrow> if q = [] then unmatched_step cfg t k v else match_step cfg idx t sig k n q v)"
    by (simp only: complete_step_def Let_def n_def v_def st1_def)
  show ?thesis using r1 um match_step_bounded [OF rv iv] sb by (auto simp: u split: option.splits)
qed

lemma cmp_phase_bounded:
  assumes "bounded cfg st" "inv_at es st" "b = new_beat_bytes cfg sig st'" "w_beat_ctr st' = w_beat_ctr st"
  shows "bounded cfg (cmp_phase cfg idx t sig b st) \<and> w_state_bytes (cmp_phase cfg idx t sig b st) \<le> w_state_bytes st"
proof (cases "row_cmp cfg sig")
  case None
  have "bounded cfg (st\<lparr>w_unknown_id := n\<rparr>)" for n
    using assms(1) by (simp add: bounded_def beats_accounted_def sizes_ok_def containers_ok_def display_ok_def)
  then show ?thesis using None assms(1) by (cases "cmp_ok cfg sig") (simp_all add: cmp_phase_def row_cmp_def)
next
  case (Some k)
  then have "b = (if w_beat_ctr st k \<noteq> None then 0 else 256 + c_sizeof cfg k)" using assms(3,4) by (simp add: new_beat_bytes_def)
  note c = complete_step_bounded [OF assms(1,2) this]
  show ?thesis using c Some by (cases "cmp_ok cfg sig") (simp_all add: cmp_phase_def row_cmp_def)
qed

section \<open>Early data beats\<close>

definition early_ok :: "walk_cfg \<Rightarrow> walk_state \<Rightarrow> bool" where
  "early_ok cfg st \<longleftrightarrow> length (w_early st) \<le> lim_early (c_limits cfg) \<and> w_peak_early st \<le> lim_early (c_limits cfg)"

definition early_near :: "walk_cfg \<Rightarrow> walk_state \<Rightarrow> bool" where
  "early_near cfg st \<longleftrightarrow> length (w_early st) \<le> lim_early (c_limits cfg) + 1 \<and> w_peak_early st \<le> lim_early (c_limits cfg)"

lemma req_phase_early:
  assumes "good st" "req_phase cfg idx t sig idb st = (u, ok)" "early_ok cfg st"
    "data_ok cfg sig \<and> w_targets st = [] \<and> row_req cfg sig = None \<longrightarrow> length (w_early st) < lim_early (c_limits cfg)"
  shows "early_ok cfg u \<and> (ok \<and> data_ok cfg sig \<longrightarrow> w_targets u \<noteq> [] \<or> length (w_early u) < lim_early (c_limits cfg))"
proof (cases "row_req cfg sig")
  case None
  then have u: "u = (if req_ok cfg sig then st\<lparr>w_unknown_id := w_unknown_id st + 1\<rparr> else st)"
    using assms(2) by (cases "req_ok cfg sig") (simp_all add: req_phase_def row_req_def)
  then show ?thesis using assms(3,4) None by (auto simp: early_ok_def)
next
  case (Some k)
  let ?v = "open_request cfg idx t sig k idb st"
  have key: "req_key cfg sig = Some k" "req_ok cfg sig" using Some by (auto simp: row_req_def split: if_splits)
  have run: "attach cfg ?v = (u, ok)" using assms(2) key by (simp add: req_phase_def)
  have new: "w_early ?v = w_early st" "w_targets ?v = (if has_data cfg then w_targets st @ [w_seq st] else w_targets st)"
    "w_peak_early ?v = w_peak_early st" by (simp_all add: open_request_def Let_def)
  have "inv_at (w_early ?v) ?v"
    using open_request_inv [of "w_early st" st cfg sig k] assms(1) key by (simp add: good_def walk_inv_def new)
  then have a: "frame u = frame ?v" "length (w_early u) \<le> length (w_early st)"
    "ok \<longrightarrow> w_early st \<noteq> [] \<longrightarrow> w_targets ?v \<noteq> [] \<longrightarrow> length (w_early u) < length (w_early st)"
    using attach_inv [OF _ run] by (simp_all add: walk_inv_def new)
  have p: "w_peak_early u = w_peak_early st" using a(1) frame_fields(16) new(3) by metis
  have "w_targets u \<noteq> [] \<or> length (w_early u) < lim_early (c_limits cfg)" if h: "ok" "data_ok cfg sig"
  proof -
    have hd: "has_data cfg" using h by (auto simp: data_ok_def has_data_def split: option.splits)
    show ?thesis
    proof (cases "w_early st")
      case Nil
      then have "u = ?v\<lparr>w_early := []\<rparr>" using run by (simp add: attach_def new)
      then show ?thesis by (simp add: new hd)
    next
      case (Cons e es)
      then have "length (w_early u) < length (w_early st)" using a(3) h hd by (simp add: new)
      then show ?thesis using assms(3) by (simp add: early_ok_def)
    qed
  qed
  then show ?thesis using a(2) assms(3) p by (auto simp: early_ok_def)
qed

lemma data_phase_early:
  assumes "good st" "data_phase cfg t sig st = (u, ok)" "early_ok cfg st"
    "data_ok cfg sig \<longrightarrow> w_targets st \<noteq> [] \<or> length (w_early st) < lim_early (c_limits cfg)"
  shows "if ok then early_ok cfg u else early_near cfg u"
proof (cases "data_ok cfg sig")
  case False
  then show ?thesis using assms(2,3) by (simp add: data_phase_def early_ok_def early_near_def)
next
  case True
  let ?v = "st\<lparr>w_early := w_early st @ [(data_beat cfg t sig, data_size cfg sig)], w_state_bytes := w_state_bytes st + data_size cfg sig\<rparr>"
  obtain w where run: "attach cfg ?v = (w, ok)"
    and u: "u = (if ok then w\<lparr>w_peak_early := max (w_peak_early w) (length (w_early w))\<rparr> else w)"
    using assms(2) True by (auto simp: data_phase_def split: prod.splits)
  have "walk_inv ?v"
    using assms(1) by (simp add: good_def walk_inv_def inv_at_def order_ok_def indexes_ok_def bytes_ok_def fresh_ok_def
      queue_def incomplete_def)
  from attach_inv [OF this run] have a: "frame w = frame ?v" "length (w_early w) \<le> length (w_early st) + 1"
    "ok \<longrightarrow> w_targets st \<noteq> [] \<longrightarrow> length (w_early w) \<le> length (w_early st)"
    by (simp_all add: less_Suc_eq_le)
  have p: "w_peak_early w = w_peak_early st" using a(1) frame_fields(16) [of w] frame_fields(16) [of ?v] by simp
  show ?thesis
  proof (cases ok)
    case ok: True
    have "length (w_early w) \<le> lim_early (c_limits cfg)" using a(2,3) ok assms(3,4) True by (auto simp: early_ok_def)
    then show ?thesis using ok p assms(3) by (simp add: u early_ok_def)
  next
    case False
    then show ?thesis using a(2) p assms(3) by (simp add: u early_ok_def early_near_def)
  qed
qed

lemma cmp_phase_early:
  "w_early (cmp_phase cfg idx t sig b st) = w_early st" "w_peak_early (cmp_phase cfg idx t sig b st) = w_peak_early st"
  by (simp_all add: cmp_phase_def complete_step_def unmatched_step_def match_step_def retain_keeps Let_def
    split: option.splits)

section \<open>Rows\<close>

definition bytes_within :: "walk_cfg \<Rightarrow> walk_state \<Rightarrow> bool" where
  "bytes_within cfg st \<longleftrightarrow> w_state_bytes st \<le> max 0 (lim_state (c_limits cfg))"

definition resources_ok :: "walk_cfg \<Rightarrow> walk_state \<Rightarrow> bool" where
  "resources_ok cfg st \<longleftrightarrow> bounded cfg st \<and> bytes_within cfg st \<and> early_ok cfg st"

definition resources_near :: "walk_cfg \<Rightarrow> walk_state \<Rightarrow> bool" where
  "resources_near cfg st \<longleftrightarrow> bounded cfg st \<and> bytes_within cfg st \<and> early_near cfg st"

lemma resources_ok_near: "resources_ok cfg st \<Longrightarrow> resources_near cfg st"
  by (simp add: resources_ok_def resources_near_def early_ok_def early_near_def)

lemma reserve_room:
  assumes "sizeof_ok cfg" "bounded cfg st" "reserve cfg sig st \<le> lim_state (c_limits cfg)"
  shows "w_state_bytes st + req_size cfg sig + data_size cfg sig \<le> max 0 (lim_state (c_limits cfg))"
proof -
  have "0 \<le> w_id_bytes st" using assms(2) by (simp add: bounded_def sizes_ok_def)
  moreover have "0 \<le> w_beat_id_bytes st"
    using assms(1,2) unfolding bounded_def beats_accounted_def sizeof_ok_def by (simp add: sum_nonneg)
  moreover have "0 \<le> 256 * (int (length (w_latencies st)) + 3)" by simp
  ultimately have "w_state_bytes st + req_size cfg sig + data_size cfg sig \<le> lim_state (c_limits cfg)"
    using assms(3) size_nonneg(3) [OF assms(1), of sig st] size_nonneg(4) [OF assms(1), of sig st]
    unfolding reserve_def by (simp only: add_increasing2 add_nonneg_nonneg)
  then show ?thesis by simp
qed

lemma channels_resources:
  assumes "good st" "resources_ok cfg st" "sizeof_ok cfg" "preflight cfg sig st = None"
    "channels cfg idx t sig (new_id_bytes cfg sig st) (new_beat_bytes cfg sig st) st = (u, ok)"
  shows "if ok then resources_ok cfg u else resources_near cfg u"
proof -
  let ?idb = "new_id_bytes cfg sig st" and ?bb = "new_beat_bytes cfg sig st"
  have o: "order_ok st" using assms(1) by (simp add: good_def walk_inv_def inv_at_def)
  have b: "bounded cfg st" "early_ok cfg st" using assms(2) by (simp_all add: resources_ok_def)
  have pf: "row_req cfg sig \<noteq> None \<longrightarrow> length (w_order st) < lim_pending (c_limits cfg)"
    "data_ok cfg sig \<and> w_targets st = [] \<and> row_req cfg sig = None \<longrightarrow> length (w_early st) < lim_early (c_limits cfg)"
    "reserve cfg sig st \<le> lim_state (c_limits cfg)"
    using assms(4) by (auto simp: preflight_def not_le not_less split: if_splits)
  note room = reserve_room [OF assms(3) b(1) pf(3)] and dn = size_nonneg(2) [of cfg sig]
  obtain v ok1 where r: "req_phase cfg idx t sig ?idb st = (v, ok1)" by fastforce
  note rb = req_phase_bounded [OF r b(1) o size_nonneg(3) [OF assms(3)] assms(3) pf(1)]
  note re = req_phase_early [OF assms(1) r b(2) pf(2)] and rs = req_phase_sim [OF assms(1) r]
  have sv: "w_state_bytes v + data_size cfg sig \<le> max 0 (lim_state (c_limits cfg))" using rb room by linarith
  show ?thesis
  proof (cases ok1)
    case False
    then have "u = v" "\<not> ok" using assms(5) r by (simp_all add: channels_def)
    then show ?thesis using rb re sv dn by (simp add: resources_near_def bytes_within_def early_ok_def early_near_def)
  next
    case True
    then have gv: "good v" using rs by (simp add: good_def)
    obtain w ok2 where d: "data_phase cfg t sig v = (w, ok2)" by fastforce
    note db = data_phase_bounded [OF d conjunct1 [OF rb]] and ds = data_phase_sim [OF gv d]
    have de: "if ok2 then early_ok cfg w else early_near cfg w"
      using data_phase_early [OF gv d] re True by simp
    have sw: "w_state_bytes w \<le> max 0 (lim_state (c_limits cfg))" using db sv by linarith
    show ?thesis
    proof (cases ok2)
      case False
      then have "u = w" "\<not> ok" using assms(5) r d True by (simp_all add: channels_def)
      then show ?thesis using db de sw False by (simp add: resources_near_def bytes_within_def)
    next
      case True2: True
      then have u: "u = cmp_phase cfg idx t sig ?bb w" "ok" using assms(5) r d True by (simp_all add: channels_def)
      have iw: "inv_at (w_early w) w" using ds by (simp add: walk_inv_def)
      have "w_beat_ctr st = w_beat_ctr w" using rb db by simp
      note cb = cmp_phase_bounded [OF conjunct1 [OF db] iw refl this, of idx t sig]
      have "w_state_bytes u \<le> max 0 (lim_state (c_limits cfg))" using cb sw unfolding u(1) by (metis order_trans)
      then have "bounded cfg u \<and> w_state_bytes u \<le> max 0 (lim_state (c_limits cfg))" using cb u(1) by simp
      then show ?thesis using de True2 u cmp_phase_early [of cfg idx t sig ?bb w]
        by (simp add: resources_ok_def bytes_within_def early_ok_def)
    qed
  qed
qed

lemma resources_cong:
  assumes "w_order u = w_order st" "w_early u = w_early st" "w_store u = w_store st" "w_id_bytes u = w_id_bytes st"
    "w_beat_ctr u = w_beat_ctr st" "w_beat_id_bytes u = w_beat_id_bytes st" "w_peak_pending u = w_peak_pending st"
    "w_max_out u = w_max_out st" "w_txns u = w_txns st" "w_result_bytes u = w_result_bytes st"
    "w_unmatched u = w_unmatched st" "w_state_bytes u = w_state_bytes st" "w_peak_early u = w_peak_early st"
  shows "resources_ok cfg u = resources_ok cfg st"
  using assms by (simp add: resources_ok_def bounded_def beats_accounted_def sizes_ok_def containers_ok_def
    display_ok_def bytes_within_def early_ok_def)

lemma preflight_cong:
  assumes "w_order u = w_order st" "w_early u = w_early st" "w_targets u = w_targets st" "w_id_bytes u = w_id_bytes st"
    "w_beat_ctr u = w_beat_ctr st" "w_beat_id_bytes u = w_beat_id_bytes st" "w_state_bytes u = w_state_bytes st"
    "w_id_peak u = w_id_peak st" "w_latencies u = w_latencies st"
  shows "preflight cfg sig u = preflight cfg sig st" "new_id_bytes cfg sig u = new_id_bytes cfg sig st"
    "new_beat_bytes cfg sig u = new_beat_bytes cfg sig st"
  unfolding preflight_def reserve_def new_id_bytes_def new_beat_bytes_def assms by (rule refl)+

lemma row_step_resources:
  assumes "good st" "resources_ok cfg st" "sizeof_ok cfg" "row_step cfg idx row st = (u, ok)"
  shows "if ok then resources_ok cfg u
    else resources_near cfg u \<and> (w_stop u \<noteq> Some ''timeout'' \<longrightarrow> early_ok cfg u)"
proof (cases "w_checks st = 0")
  case True
  then have "u = st\<lparr>w_stop := Some ''timeout''\<rparr>" "\<not> ok" using assms(4) by (simp_all add: row_step_def)
  then show ?thesis using resources_ok_near assms(2) resources_cong [of u st cfg] by simp
next
  case False
  let ?st = "st\<lparr>w_checks := w_checks st - 1\<rparr>" and ?t = "row_time row" and ?sig = "row_signals row"
  obtain bd un where b: "row_boundary cfg row = (bd, un)" by fastforce
  have r0: "resources_ok cfg ?st" using resources_cong [of ?st st cfg] assms(2) by simp
  show ?thesis
  proof (cases bd)
    case True
    then have u: "u = boundary_step idx ?t un ?st" "ok" using assms(4) False b by (auto simp: row_step_def)
    have "resources_ok cfg u" using assms(2) unfolding u(1)
      by (simp add: boundary_step_def Let_def resources_ok_def bounded_def beats_accounted_def sizes_ok_def
        containers_ok_def display_ok_def bytes_within_def early_ok_def)
    then show ?thesis using u by simp
  next
    case nb: False
    show ?thesis
    proof (cases "preflight cfg ?sig ?st")
      case (Some r)
      then have "u = ?st\<lparr>w_stop := Some r\<rparr>" "\<not> ok" using assms(4) False b nb by (auto simp: row_step_def Let_def)
      then show ?thesis using resources_ok_near r0 resources_cong [of u ?st cfg] by (simp add: resources_ok_def)
    next
      case None
      let ?v = "admit_row cfg idx ?t ?sig ?st"
      have e: "preflight cfg ?sig ?v = preflight cfg ?sig ?st" "new_id_bytes cfg ?sig ?v = new_id_bytes cfg ?sig ?st"
        "new_beat_bytes cfg ?sig ?v = new_beat_bytes cfg ?sig ?st"
        by (rule preflight_cong; simp add: admit_row_def)+
      have run: "channels cfg idx ?t ?sig (new_id_bytes cfg ?sig ?v) (new_beat_bytes cfg ?sig ?v) ?v = (u, ok)"
        using assms(4) False b nb None e by (simp add: row_step_def Let_def)
      have "inv_at es ?v = inv_at es st" for es by (rule inv_at_cong) (simp_all add: admit_row_def)
      then have gv: "good ?v" using assms(1) by (simp add: good_def walk_inv_def settled_def counts_ok_def admit_row_def)
      have rv: "resources_ok cfg ?v" using resources_cong [of ?v ?st cfg] r0 by (simp add: admit_row_def)
      show ?thesis using channels_resources [OF gv rv assms(3) _ run] channels_sim [OF gv run] None e by simp
    qed
  qed
qed

lemma walk_rows_resources:
  assumes "good st" "resources_ok cfg st" "sizeof_ok cfg"
  shows "resources_near cfg (walk_rows cfg idx rows st) \<and>
    (w_stop (walk_rows cfg idx rows st) \<noteq> Some ''timeout'' \<longrightarrow> early_ok cfg (walk_rows cfg idx rows st))"
  using assms(1,2)
proof (induction rows arbitrary: idx st)
  case Nil
  then show ?case using resources_ok_near by (simp add: resources_ok_def)
next
  case (Cons row rows)
  obtain v ok where r: "row_step cfg idx row st = (v, ok)" by fastforce
  note s = row_step_sim [OF Cons.prems(1) r] and c = row_step_resources [OF Cons.prems assms(3) r]
  show ?case
  proof (cases ok)
    case True
    then show ?thesis using Cons.IH [of v "idx + 1"] s c r by (simp add: good_def)
  next
    case False
    then show ?thesis using c r by simp
  qed
qed

end
