(* ===== verification/Txn_Report.thy ===== *)
theory Txn_Report
  imports Txn_Walk
begin

text \<open>
  What surrounds the walk in src/src/txn_reconstruct.py: the argument checks and the coverage of
  \<open>reconstruct_transactions\<close>, and the projection \<open>_finalize\<close> with the anchor of \<open>_attach_cursor\<close>.

  \<^item> A warning of \<open>_finalize\<close> is a constructor with the values its text is formatted from.
  \<^item> \<open>mean_cycles\<close> is a rounded float and is left out; \<open>median_cycles\<close> is integer arithmetic.
\<close>

section \<open>Arguments\<close>

definition txn_args_ok :: "int \<Rightarrow> int \<Rightarrow> int \<Rightarrow> unit result" where
  "txn_args_ok max_transactions start_ps end_ps =
     (if \<not> (1 \<le> max_transactions \<and> max_transactions \<le> 65536)
      then Inl (ValueError ''max_transactions must be between 1 and 65536'')
      else if start_ps < 0 \<or> (end_ps \<noteq> - 1 \<and> end_ps < start_ps) then Inl (ValueError ''invalid time window'')
      else Inr ())"

text \<open>The early returns: a data channel needs valid and ready, ids come in pairs.\<close>

definition txn_reason :: "string option \<Rightarrow> string option \<Rightarrow> string option \<Rightarrow> string option \<Rightarrow> string option" where
  "txn_reason data_valid data_ready req_id cmp_id =
     (if (data_valid \<noteq> None) \<noteq> (data_ready \<noteq> None) then Some ''data channel needs both data_valid and data_ready''
      else if (req_id \<noteq> None) \<noteq> (cmp_id \<noteq> None)
      then Some (''id correlation needs both req_id and cmp_id, or neither '' @
                 ''(neither = in-order FIFO pairing for an unindexed stream)'')
      else None)"

section \<open>Coverage\<close>

record sampling =
  sm_gaps :: "string list"
  sm_truncated :: bool
  sm_limited :: bool
  sm_unresolved :: bool

definition txn_gaps :: "sampling \<Rightarrow> walk_state \<Rightarrow> string list" where
  "txn_gaps sm st = dedupe (sm_gaps sm @
     (if sm_unresolved sm then [''signal_read_incomplete''] else []) @
     (if sm_truncated sm then [''transition_data_truncated''] else []) @
     (if sm_limited sm then [''sample_budget''] else []) @
     (if w_unknown_id st \<noteq> 0 \<or> w_unknown_control st \<noteq> 0 then [''unknown_control_or_id''] else []) @
     (case w_stop st of None \<Rightarrow> [] | Some r \<Rightarrow> [r]))"

definition txn_coverage :: "sampling \<Rightarrow> walk_state \<Rightarrow> string" where
  "txn_coverage sm st = (if txn_gaps sm st = [] then ''complete'' else ''partial'')"

section \<open>Latency\<close>

fun middle_scan :: "int \<Rightarrow> int \<Rightarrow> (int \<times> nat) list \<Rightarrow> int list" where
  "middle_scan n seen [] = []"
| "middle_scan n seen ((v, c) # rest) =
     map (\<lambda>_. v) (filter (\<lambda>target. seen \<le> target \<and> target < seen + int c) [(n - 1) div 2, n div 2]) @
     middle_scan n (seen + int c) rest"

record latency =
  lat_min :: int
  lat_median :: int
  lat_max :: int

definition latency_of :: "(int \<times> nat) list \<Rightarrow> latency option" where
  "latency_of lats = (if lats = [] then None
     else (let n = int (sum_list (map snd lats)) in
       Some \<lparr>lat_min = Min (fst ` set lats),
             lat_median = sum_list (middle_scan n 0 (sort_key fst lats)) div 2,
             lat_max = Max (fst ` set lats)\<rparr>))"

definition slow_count :: "int \<Rightarrow> (int \<times> nat) list \<Rightarrow> nat" where
  "slow_count timeout lats = sum_list (map snd (filter (\<lambda>(x, c). timeout < x) lats))"

section \<open>The report\<close>

datatype txn_warning =
    SlowTransactions nat int
  | ListTruncated nat nat
  | PendingRequests nat
  | OrphanCompletions nat
  | UnknownIds nat
  | OrphanDataBeats nat
  | BeatCountMismatches nat
  | PartialAnalysis

record txn_report =
  rp_latency :: "latency option"
  rp_timeout :: "int option"
  rp_slow :: nat
  rp_txns :: "txn list"
  rp_truncated :: bool
  rp_display_status :: string
  rp_display_stop :: "string option"
  rp_unmatched_requests :: "(int option \<times> int) list"
  rp_unmatched_completions :: "(int option \<times> int) list"
  rp_warnings :: "txn_warning list"

definition txn_finalize :: "sampling \<Rightarrow> nat \<Rightarrow> int option \<Rightarrow> walk_state \<Rightarrow> txn_report" where
  "txn_finalize sm max_transactions timeout st =
     (let lats = w_latencies st; txns = w_txns st; matched = w_matched st;
          slow = (case timeout of None \<Rightarrow> 0 | Some c \<Rightarrow> slow_count c lats);
          cut = (matched > max_transactions \<or> length txns < matched);
          stop = w_display_stop st;
          um_req = unmatched_requests st; um_cmp = w_unmatched st
      in \<lparr>rp_latency = latency_of lats, rp_timeout = timeout, rp_slow = slow,
          rp_txns = (if cut then take max_transactions txns else txns), rp_truncated = cut,
          rp_display_status = (if cut then ''partial'' else if stop \<noteq> None then ''partial'' else ''complete''),
          rp_display_stop = (if \<not> cut then stop else (case stop of Some r \<Rightarrow> Some r
             | None \<Rightarrow> if length txns < min max_transactions matched then Some ''retained_fact_prefix''
                       else Some ''max_transactions'')),
          rp_unmatched_requests = take MAX_UNMATCHED_SHOWN um_req,
          rp_unmatched_completions = take MAX_UNMATCHED_SHOWN um_cmp,
          rp_warnings =
            (case timeout of None \<Rightarrow> [] | Some c \<Rightarrow> if slow \<noteq> 0 then [SlowTransactions slow c] else []) @
            (if cut then [ListTruncated (min (length txns) max_transactions) matched] else []) @
            (if um_req \<noteq> [] then [PendingRequests (length (w_order st))] else []) @
            (if um_cmp \<noteq> [] then [OrphanCompletions (w_unmatched_count st)] else []) @
            (if w_unknown_id st \<noteq> 0 then [UnknownIds (w_unknown_id st)] else []) @
            (if w_early st \<noteq> [] then [OrphanDataBeats (length (w_early st))] else []) @
            (if w_mismatches st \<noteq> 0 then [BeatCountMismatches (w_mismatches st)] else []) @
            (if txn_coverage sm st = ''partial'' then [PartialAnalysis] else [])\<rparr>)"

text \<open>Where the cursor is placed: the first pending request, else the peak of outstanding requests.\<close>

definition txn_anchor :: "txn_report \<Rightarrow> walk_state \<Rightarrow> int option" where
  "txn_anchor rp st = (case rp_unmatched_requests rp of
     (_, t) # _ \<Rightarrow> Some t
   | [] \<Rightarrow> if w_max_out st > 0 then w_max_out_time st else None)"

end
