(* ===== verification/Txn_Unknown.thy ===== *)
theory Txn_Unknown
  imports Txn_Refine
begin

text \<open>
  When the rows of a walk can be read: a row is determined when every control value its processing
  depends on is a known bit and the ids of its accepted beats are known. The counters of unknown
  values and ids add up exactly the rows that are not.
\<close>

section \<open>Determined rows\<close>

definition known_bit :: "sval option \<Rightarrow> bool" where
  "known_bit v \<longleftrightarrow> hs_known v \<and> sv_dec (the v) \<noteq> None"

definition channel_known :: "walk_cfg \<Rightarrow> signals \<Rightarrow> string \<Rightarrow> string \<Rightarrow> string option \<Rightarrow> bool" where
  "channel_known cfg sig valid ready lst \<longleftrightarrow> known_bit (sig valid) \<and>
     (ok_bit (sig valid) (c_active_high cfg) \<longrightarrow> known_bit (sig ready) \<and>
       (ok_bit (sig ready) (c_active_high cfg) \<longrightarrow> (\<forall>l. lst = Some l \<and> l \<noteq> [] \<longrightarrow> known_bit (sig l))))"

definition controls_known :: "walk_cfg \<Rightarrow> signals \<Rightarrow> bool" where
  "controls_known cfg sig \<longleftrightarrow> channel_known cfg sig (c_req_valid cfg) (c_req_ready cfg) None \<and>
     channel_known cfg sig (c_cmp_valid cfg) (c_cmp_ready cfg) (c_cmp_last cfg) \<and>
     (\<forall>v r. c_data cfg = Some (v, r) \<longrightarrow> channel_known cfg sig v r (c_data_last cfg))"

definition ids_known :: "walk_cfg \<Rightarrow> signals \<Rightarrow> bool" where
  "ids_known cfg sig \<longleftrightarrow> (\<forall>rid cid. c_ids cfg = Some (rid, cid) \<longrightarrow>
     (req_ok cfg sig \<longrightarrow> dec_of (sig rid) \<noteq> None) \<and> (cmp_ok cfg sig \<longrightarrow> dec_of (sig cid) \<noteq> None))"

definition boundary_known :: "walk_cfg \<Rightarrow> txn_row \<Rightarrow> bool" where
  "boundary_known cfg row \<longleftrightarrow> (case row_mark row of
     Some (boundary, uncertain) \<Rightarrow> boundary \<longrightarrow> \<not> uncertain
   | None \<Rightarrow> \<forall>p. c_reset cfg = Some p \<longrightarrow> known_bit (row_signals row p))"

definition row_determined :: "walk_cfg \<Rightarrow> txn_row \<Rightarrow> bool" where
  "row_determined cfg row \<longleftrightarrow> boundary_known cfg row \<and>
     (fst (row_boundary cfg row) \<or> controls_known cfg (row_signals row) \<and> ids_known cfg (row_signals row))"

lemma hs_truth_None: "hs_truth v a = None \<longleftrightarrow> \<not> known_bit v"
  by (auto simp: hs_truth_def known_bit_def Let_def split: option.splits)

lemma channel_unknown_iff: "channel_unknown cfg sig (v, r, l) \<longleftrightarrow> \<not> channel_known cfg sig v r l"
  by (cases l) (auto simp: channel_unknown_def channel_known_def ok_bit_def Let_def hs_truth_None)

lemma row_unknown_iff: "row_unknown cfg sig \<longleftrightarrow> \<not> controls_known cfg sig"
  by (auto simp: row_unknown_def controls_known_def channel_unknown_iff split: option.splits prod.splits)

lemma boundary_known_iff: "boundary_known cfg row \<longleftrightarrow> \<not> (fst (row_boundary cfg row) \<and> snd (row_boundary cfg row))"
proof -
  have "known_bit v \<longleftrightarrow> hs_truth v (\<not> c_reset_active_low cfg) \<noteq> None" for v by (simp add: hs_truth_None)
  then show ?thesis by (auto simp: boundary_known_def row_boundary_def Let_def split: option.splits)
qed

section \<open>What a row adds to the counters\<close>

definition unsure_row :: "walk_cfg \<Rightarrow> txn_row \<Rightarrow> nat" where
  "unsure_row cfg row = (if fst (row_boundary cfg row) then of_bool (snd (row_boundary cfg row))
     else of_bool (row_unknown cfg (row_signals row)))"

definition unknown_ids :: "walk_cfg \<Rightarrow> txn_row \<Rightarrow> nat" where
  "unknown_ids cfg row = (if fst (row_boundary cfg row) then 0
     else of_bool (req_ok cfg (row_signals row) \<and> req_key cfg (row_signals row) = None) +
          of_bool (cmp_ok cfg (row_signals row) \<and> cmp_key cfg (row_signals row) = None))"

lemma row_determined_iff: "row_determined cfg row \<longleftrightarrow> unsure_row cfg row = 0 \<and> unknown_ids cfg row = 0"
proof -
  have "ids_known cfg sig \<longleftrightarrow> \<not> (req_ok cfg sig \<and> req_key cfg sig = None) \<and> \<not> (cmp_ok cfg sig \<and> cmp_key cfg sig = None)" for sig
    by (auto simp: ids_known_def req_key_def cmp_key_def split: option.splits prod.splits)
  then show ?thesis
    by (auto simp: row_determined_def unsure_row_def unknown_ids_def boundary_known_iff row_unknown_iff)
qed

abbreviation tally :: "walk_state \<Rightarrow> nat \<times> nat" where
  "tally st \<equiv> (w_unknown_control st, w_unknown_id st)"

lemma tally_attach_loop: "tally (fst (attach_loop cfg es st)) = tally st"
proof (induction es arbitrary: st)
  case (Cons e es)
  have "tally (attach_beat cfg e u) = tally u" for u
    by (simp add: attach_beat_def Let_def split: prod.split)
  then show ?case using Cons.IH [of "attach_beat cfg e (st\<lparr>w_checks := w_checks st - 1\<rparr>)"] by simp
qed simp

lemma tally_attach: "attach cfg st = (u, ok) \<Longrightarrow> tally u = tally st"
  using tally_attach_loop [of cfg "w_early st" st] by (simp add: attach_def)

lemma tally_req_phase:
  assumes "req_phase cfg idx t sig idb st = (u, ok)"
  shows "tally u = (w_unknown_control st, w_unknown_id st + of_bool (req_ok cfg sig \<and> req_key cfg sig = None))"
proof -
  have "tally (open_request cfg idx t sig k idb st) = tally st" for k
    by (simp add: open_request_def Let_def)
  then show ?thesis
    using assms tally_attach by (fastforce simp: req_phase_def split: if_splits option.splits)
qed

lemma tally_data_phase: "data_phase cfg t sig st = (u, ok) \<Longrightarrow> tally u = tally st"
  using tally_attach [of cfg "st\<lparr>w_early := w_early st @ [(data_beat cfg t sig, data_size cfg sig)],
      w_state_bytes := w_state_bytes st + data_size cfg sig\<rparr>"]
  by (auto simp: data_phase_def split: if_splits prod.splits)

lemma tally_complete_step: "tally (complete_step cfg idx t sig k b st) = tally st"
proof -
  have "tally (retain cfg sig req tx u) = tally u" for req tx u
    by (simp add: retain_def Let_def)
  then have "tally (match_step cfg idx t sig k n q u) = tally u" for n q u
    by (simp add: match_step_def Let_def)
  moreover have "tally (unmatched_step cfg t k u) = tally u" for u
    by (simp add: unmatched_step_def)
  ultimately show ?thesis by (simp add: complete_step_def Let_def split: option.split)
qed

lemma tally_cmp_phase:
  "tally (cmp_phase cfg idx t sig b st) =
     (w_unknown_control st, w_unknown_id st + of_bool (cmp_ok cfg sig \<and> cmp_key cfg sig = None))"
  using tally_complete_step by (simp add: cmp_phase_def split: option.split)

lemma tally_row_step:
  assumes "row_step cfg idx row st = (u, True)"
  shows "tally u = (w_unknown_control st + unsure_row cfg row, w_unknown_id st + unknown_ids cfg row)"
proof -
  let ?st = "st\<lparr>w_checks := w_checks st - 1\<rparr>" and ?sig = "row_signals row" and ?t = "row_time row"
  obtain bd un where b: "row_boundary cfg row = (bd, un)" by fastforce
  have c: "w_checks st \<noteq> 0" using assms by (intro notI) (simp add: row_step_def)
  show ?thesis
  proof (cases bd)
    case True
    then show ?thesis using assms b c
      by (auto simp: row_step_def boundary_step_def Let_def unsure_row_def unknown_ids_def)
  next
    case nb: False
    then have p: "preflight cfg ?sig ?st = None"
      using assms b c by (auto simp: row_step_def Let_def split: option.splits)
    let ?v = "admit_row cfg idx ?t ?sig ?st"
    have run: "channels cfg idx ?t ?sig (new_id_bytes cfg ?sig ?st) (new_beat_bytes cfg ?sig ?st) ?v = (u, True)"
      using assms b c nb p by (simp add: row_step_def Let_def)
    obtain x y where x: "req_phase cfg idx ?t ?sig (new_id_bytes cfg ?sig ?st) ?v = (x, True)"
      and y: "data_phase cfg ?t ?sig x = (y, True)" and u: "u = cmp_phase cfg idx ?t ?sig (new_beat_bytes cfg ?sig ?st) y"
      using run by (auto simp: channels_def split: prod.splits if_splits)
    have "tally ?v = (w_unknown_control st + of_bool (row_unknown cfg ?sig), w_unknown_id st)"
      by (simp add: admit_row_def)
    then show ?thesis
      using tally_req_phase [OF x] tally_data_phase [OF y] tally_cmp_phase [of cfg idx ?t ?sig _ y] nb b
      by (simp add: u unsure_row_def unknown_ids_def)
  qed
qed

lemma tally_walk_rows:
  assumes "good st" "w_stop (walk_rows cfg idx rows st) = None"
  shows "tally (walk_rows cfg idx rows st) =
     (w_unknown_control st + (\<Sum>row \<leftarrow> rows. unsure_row cfg row), w_unknown_id st + (\<Sum>row \<leftarrow> rows. unknown_ids cfg row))"
  using assms
proof (induction rows arbitrary: idx st)
  case (Cons row rows)
  obtain v ok where r: "row_step cfg idx row st = (v, ok)" by fastforce
  note s = row_step_sim [OF Cons.prems(1) r]
  have ok: "ok" using s Cons.prems(2) r by (cases ok) auto
  then have "good v" using s by (simp add: good_def)
  then show ?case
    using Cons.IH [of v "idx + 1"] Cons.prems(2) r ok tally_row_step [of cfg idx row st v] by simp
qed simp

text \<open>A walk that was not stopped met no unknown value or id exactly when all its rows are determined.\<close>

lemma walk_determined:
  fixes cfg checks rows
  defines "u \<equiv> txn_walk cfg checks None rows"
  assumes "w_stop u = None"
  shows "w_unknown_control u = 0 \<and> w_unknown_id u = 0 \<longleftrightarrow> (\<forall>row \<in> set rows. row_determined cfg row)"
proof -
  have "tally u = ((\<Sum>row \<leftarrow> rows. unsure_row cfg row), (\<Sum>row \<leftarrow> rows. unknown_ids cfg row))"
    using tally_walk_rows [OF good_init(1), of cfg 0 rows] assms
    by (simp add: txn_walk_def init_walk_def)
  then show ?thesis by (auto simp: row_determined_iff sum_list_eq_0_iff)
qed

end
