(* ===== verification/Txn_Claims.thy ===== *)
theory Txn_Claims
  imports Txn_Bounds Txn_Report Txn_Unknown
begin

text \<open>The properties of the transaction correlator and of its report.\<close>

section \<open>Latency statistics\<close>

definition expand :: "(int \<times> nat) list \<Rightarrow> int list" where
  "expand al = concat (map (\<lambda>(v, c). replicate c v) al)"

definition pick :: "int \<Rightarrow> int \<Rightarrow> (int \<times> nat) list \<Rightarrow> int" where
  "pick target seen al = (if seen \<le> target \<and> target < seen + int (length (expand al))
     then expand al ! nat (target - seen) else 0)"

lemma expand_simps [simp]: "expand [] = []" "expand ((v, c) # al) = replicate c v @ expand al"
  by (simp_all add: expand_def)

lemma pick_Cons: "pick target seen ((v, c) # al) =
    (if seen \<le> target \<and> target < seen + int c then v else pick target (seen + int c) al)"
proof -
  have "nat (target - seen) - c = nat (target - (seen + int c))" by linarith
  then show ?thesis by (auto simp: pick_def nth_append nat_less_iff)
qed

lemma middle_scan_pick: "sum_list (middle_scan n seen al) = pick ((n - 1) div 2) seen al + pick (n div 2) seen al"
proof (induction n seen al rule: middle_scan.induct)
  case (1 n seen)
  then show ?case by (simp add: pick_def)
next
  case (2 n seen v c rest)
  have "pick t (seen + int c) rest = 0" if "t < seen + int c" for t using that by (simp add: pick_def)
  then show ?case using 2 by (auto simp: pick_Cons)
qed

lemma mset_expand: "mset (expand al) = counter_mset al"
  by (induction al) (auto simp: counter_mset_def)

lemma set_expand: "(\<forall>p \<in> set al. 0 < snd p) \<Longrightarrow> set (expand al) = fst ` set al"
  by (induction al) (simp_all add: set_replicate_conv_if split_beta expand_def)

lemma sorted_expand: "sorted (map fst al) \<Longrightarrow> (\<forall>p \<in> set al. 0 < snd p) \<Longrightarrow> sorted (expand al)"
proof (induction al)
  case (Cons p al)
  then show ?case using set_expand [of al] by (cases p) (auto simp: sorted_append)
qed simp

lemma counter_perm: "mset al = mset bl \<Longrightarrow> counter_mset al = counter_mset bl"
proof -
  assume "mset al = mset bl"
  then have "mset (map (\<lambda>(x, c). replicate_mset c x) al) = mset (map (\<lambda>(x, c). replicate_mset c x) bl)" by simp
  then show ?thesis unfolding counter_mset_def by (metis sum_mset_sum_list)
qed

lemma expand_sort:
  assumes "\<forall>p \<in> set al. 0 < snd p"
  shows "expand (sort_key fst al) = sorted_list_of_multiset (counter_mset al)"
proof (rule sym, rule properties_for_sort [THEN trans [rotated]])
  show "sorted (expand (sort_key fst al))" using assms by (intro sorted_expand) auto
  show "mset (expand (sort_key fst al)) = mset (expand (sort_key fst al))" ..
  show "sorted_list_of_multiset (counter_mset al) = sort (expand (sort_key fst al))"
    using counter_perm [of "sort_key fst al" al] mset_expand [of "sort_key fst al"]
    by (metis mset_sort sorted_list_of_multiset_mset)
qed

lemma size_counter: "size (counter_mset al) = sum_list (map snd al)"
  by (induction al) (auto simp: counter_mset_def)

lemma sorted_ends: "sorted xs \<Longrightarrow> x \<in> set xs \<Longrightarrow> hd xs \<le> x \<and> x \<le> last xs"
  by (induction xs) auto

text \<open>The latency block of the report describes the multiset of the observed latencies: it is absent
  exactly when nothing completed, and otherwise holds its minimum, its maximum and the integer
  mean of its two middle elements, however the Counter happens to be ordered.\<close>

theorem latency_exact:
  fixes cfg checks stop rows
  defines "st \<equiv> txn_walk cfg checks stop rows"
  defines "s \<equiv> sorted_list_of_multiset (counter_mset (w_latencies st))"
  shows "latency_of (w_latencies st) = (if s = [] then None else
    Some \<lparr>lat_min = hd s, lat_median = (s ! ((length s - 1) div 2) + s ! (length s div 2)) div 2, lat_max = last s\<rparr>)"
proof -
  define al where "al = w_latencies st"
  have c: "counts_ok st" unfolding st_def by (rule txn_walk_sim(2))
  then have pos: "\<forall>p \<in> set al. 0 < snd p" by (simp add: counts_ok_def al_def)
  have s: "s = expand (sort_key fst al)" unfolding s_def al_def [symmetric] by (rule expand_sort [OF pos, symmetric])
  have posk: "\<forall>p \<in> set (sort_key fst al). 0 < snd p" using pos by simp
  have sets: "set s = fst ` set al" using set_expand [OF posk] by (simp add: s)
  have srt: "sorted s" unfolding s by (rule sorted_expand) (use posk in simp_all)
  have len: "int (length s) = int (sum_list (map snd al))"
    using size_counter [of al] by (metis mset_sorted_list_of_multiset s_def al_def size_mset)
  show ?thesis
  proof (cases "al = []")
    case True
    then show ?thesis using sets by (simp add: latency_of_def al_def [symmetric])
  next
    case False
    then have ne: "s \<noteq> []" using sets by auto
    have n: "0 < length s" using ne by simp
    have "sum_list (middle_scan (int (length s)) 0 (sort_key fst al)) = s ! ((length s - 1) div 2) + s ! (length s div 2)"
    proof -
      have "(int (length s) - 1) div 2 = int ((length s - 1) div 2)" "int (length s) div 2 = int (length s div 2)"
        using ne by (cases s; simp add: zdiv_int)+
      moreover have "pick (int k) 0 (sort_key fst al) = s ! k" if "k < length s" for k
        using that by (simp add: pick_def s)
      moreover have "(length s - 1) div 2 < length s" "length s div 2 < length s" using n by linarith+
      ultimately show ?thesis by (simp add: middle_scan_pick)
    qed
    moreover have "Min (fst ` set al) = hd s"
      unfolding sets [symmetric] using ne sorted_ends [OF srt] by (intro Min_eqI) auto
    moreover have "Max (fst ` set al) = last s"
      unfolding sets [symmetric] using ne sorted_ends [OF srt] by (intro Max_eqI) auto
    ultimately show ?thesis using False ne
      by (simp add: latency_of_def al_def [symmetric] len [symmetric] Let_def)
  qed
qed

section \<open>Consequences of the specification\<close>










text \<open>A configuration without ids and rows for the witnesses.\<close>

definition wire :: "bool \<Rightarrow> sval option" where
  "wire b = Some \<lparr>sv_hex = None, sv_bin = Some (if b then ''1'' else ''0''), sv_dec = Some (if b then 1 else 0)\<rparr>"

definition sample_row :: "int \<Rightarrow> bool \<Rightarrow> bool \<Rightarrow> txn_row" where
  "sample_row t r c = \<lparr>row_time = t, row_signals = (\<lambda>p. if p = ''r'' then wire r else if p = ''c'' then wire c else None),
     row_mark = None\<rparr>"

definition sample_rows :: "txn_row list" where
  "sample_rows = [sample_row 0 True False, sample_row 10 True False, sample_row 20 False True, sample_row 30 False False]"

definition sample_cfg :: walk_cfg where
  "sample_cfg = \<lparr>c_req_valid = ''r'', c_req_ready = ''r'', c_cmp_valid = ''c'', c_cmp_ready = ''c'', c_ids = None,
     c_req_len = None, c_cmp_last = None, c_data = None, c_data_last = None, c_reset = None, c_active_high = True,
     c_reset_active_low = True, c_capture = False, c_req_fields = [], c_cmp_fields = [], c_data_fields = [],
     c_max = 256, c_limits = \<lparr>lim_pending = 4, lim_early = 4, lim_state = 10000, lim_result = 10000\<rparr>,
     c_sizeof = (\<lambda>_. 28)\<rparr>"

lemma sample_run:
  "w_stop (txn_walk sample_cfg 100 None sample_rows) = None"
  "w_analyzed (txn_walk sample_cfg 100 None sample_rows) = 4"
  "w_matched (txn_walk sample_cfg 100 None sample_rows) = 1"
  "length sample_rows = 4"
  by code_simp+

section \<open>The properties of the walk\<close>

text \<open>C3. The correlator implements its specification: unless the deadline cut a row short, the open
  requests (in issue order, with their rows), the multiset of latencies, the number of requests, of
  orphan completions and of reorderings are those of the naive search over the issue list, run on
  exactly the analysed prefix of the rows; and without a stop reason the prefix is the whole input.\<close>

theorem walk_refines:
  fixes cfg checks stop rows
  defines "u \<equiv> txn_walk cfg checks stop rows"
  assumes "w_stop u \<noteq> Some ''timeout''"
  shows "abs_walk u = spec_rows cfg 0 (take (w_analyzed u) rows) spec_init \<and>
     (stop = None \<and> w_stop u = None \<longrightarrow> w_analyzed u = length rows)"
  using txn_walk_sim(3,4) [where cfg = cfg and checks = checks and stop = stop and rows = rows] assms
  by (auto simp: u_def)

theorem walk_refines_witness:
  "abs_walk (txn_walk sample_cfg 100 None sample_rows) = spec_rows sample_cfg 0 sample_rows spec_init"
  using walk_refines [of sample_cfg 100 None sample_rows] by (simp add: sample_run)

text \<open>C15. In every reachable state, a state cut short by the deadline included, the containers agree:
  the issue order is strictly increasing, \<open>pending\<close> holds per key exactly the open requests with that
  key in issue order, \<open>per_id_out\<close> their number, \<open>data_targets\<close> the open requests whose data is
  incomplete, of which only the oldest has received beats; \<open>state_bytes\<close> is the sum of the live
  records; and after a complete row no data beat waits while a request still needs one.\<close>

theorem walk_consistent:
  fixes cfg checks stop rows
  defines "u \<equiv> txn_walk cfg checks stop rows"
  shows "sorted_wrt (<) (w_order u) \<and>
    (\<forall>k. w_pending u k = if_nonempty (filter (\<lambda>s. key_of (w_store u s) = k) (w_order u))) \<and>
    (\<forall>k. w_id_out u k = map_option length (w_pending u k)) \<and>
    w_targets u = filter (\<lambda>s. \<not> q_complete (w_store u s)) (w_order u) \<and>
    (\<forall>s \<in> set (tl (w_targets u)). q_beats (w_store u s) = 0) \<and>
    w_state_bytes u = (\<Sum>s \<leftarrow> w_order u. q_bytes (w_store u s)) + sum_list (map snd (w_early u)) \<and>
    (w_stop u \<noteq> Some ''timeout'' \<longrightarrow> w_early u = [] \<or> w_targets u = [])"
proof -
  have "order_ok u" "indexes_ok u" "bytes_ok (w_early u) u" "fresh_ok u"
    using txn_walk_sim(1) [of cfg checks stop rows] by (simp_all add: u_def walk_inv_def inv_at_def)
  moreover have "w_stop u \<noteq> Some ''timeout'' \<longrightarrow> settled u" using txn_walk_sim(3) [of cfg checks stop rows] by (simp add: u_def)
  ultimately show ?thesis
    by (simp add: order_ok_def indexes_ok_def bytes_ok_def fresh_ok_def settled_def queue_def incomplete_def)
qed

theorem walk_consistent_witness:
  "w_early (txn_walk sample_cfg 100 None sample_rows) = [] \<or> w_targets (txn_walk sample_cfg 100 None sample_rows) = []"
proof -
  have "w_stop (txn_walk sample_cfg 100 None sample_rows) \<noteq> Some ''timeout''" by (simp add: sample_run)
  then show ?thesis using walk_consistent [of sample_cfg 100 None sample_rows] by blast
qed

text \<open>C16. The limits of the budget are respected by every run: at most \<open>pending\<close> open requests ever, at
  most \<open>early_data\<close> waiting data beats (one more only in a row the deadline cut short), at most
  \<open>state_bytes\<close> bytes of live records, at most \<open>max_transactions\<close> retained transactions within
  \<open>result_bytes\<close>, and at most 32 orphan completions listed.\<close>

theorem walk_bounded:
  fixes cfg checks stop rows
  defines "u \<equiv> txn_walk cfg checks stop rows"
  assumes "\<forall>k. 0 \<le> c_sizeof cfg k"
  shows "length (w_order u) \<le> lim_pending (c_limits cfg) \<and> w_max_out u \<le> lim_pending (c_limits cfg) \<and>
    length (w_early u) \<le> lim_early (c_limits cfg) + (if w_stop u = Some ''timeout'' then 1 else 0) \<and>
    w_peak_early u \<le> lim_early (c_limits cfg) \<and>
    w_state_bytes u \<le> max 0 (lim_state (c_limits cfg)) \<and>
    length (w_txns u) \<le> c_max cfg \<and> w_result_bytes u \<le> max 0 (lim_result (c_limits cfg)) \<and>
    length (w_unmatched u) \<le> 32"
proof -
  have "resources_ok cfg (init_walk checks stop)"
    by (simp add: init_walk_def resources_ok_def bounded_def beats_accounted_def sizes_ok_def containers_ok_def
      display_ok_def bytes_within_def early_ok_def)
  moreover have "sizeof_ok cfg" using assms(2) by (simp add: sizeof_ok_def)
  ultimately have "resources_near cfg u" "w_stop u \<noteq> Some ''timeout'' \<longrightarrow> early_ok cfg u"
    using walk_rows_resources [OF good_init(1)] by (simp_all add: u_def txn_walk_def)
  then show ?thesis
    by (simp add: resources_near_def bounded_def containers_ok_def display_ok_def bytes_within_def early_near_def
      early_ok_def MAX_UNMATCHED_SHOWN_def)
qed

theorem walk_bounded_witness:
  "w_max_out (txn_walk sample_cfg 100 None sample_rows) \<le> 4"
  using walk_bounded [of sample_cfg 100 None sample_rows] by (simp add: sample_cfg_def)





text \<open>C34. Complete coverage is claimed exactly when it is deserved: the sampling had no gap, the walk was
  not stopped, and every row is determined, that is every reset, valid, ready and last value its
  processing depends on is a known bit and the ids of its accepted beats are known. Then the walk
  saw every sampled row and its counts are the specification's on all of them.\<close>

theorem complete_report_exact:
  fixes cfg checks rows
  defines "u \<equiv> txn_walk cfg checks None rows"
  shows "(txn_coverage sm u = ''complete'' \<longleftrightarrow>
      w_stop u = None \<and> sm_gaps sm = [] \<and> \<not> sm_truncated sm \<and> \<not> sm_limited sm \<and> \<not> sm_unresolved sm \<and>
      (\<forall>row \<in> set rows. row_determined cfg row)) \<and>
    (txn_coverage sm u = ''complete'' \<longrightarrow>
      w_analyzed u = length rows \<and> abs_walk u = spec_rows cfg 0 rows spec_init)"
proof -
  have "txn_coverage sm u = ''complete'' \<longleftrightarrow> set (txn_gaps sm u) = {}" by (simp add: txn_coverage_def)
  also have "\<dots> \<longleftrightarrow> w_stop u = None \<and> sm_gaps sm = [] \<and> \<not> sm_truncated sm \<and> \<not> sm_limited sm \<and> \<not> sm_unresolved sm \<and>
      w_unknown_control u = 0 \<and> w_unknown_id u = 0"
    unfolding txn_gaps_def set_dedupe by (cases "w_stop u") auto
  finally have iff: "txn_coverage sm u = ''complete'' \<longleftrightarrow>
      w_stop u = None \<and> sm_gaps sm = [] \<and> \<not> sm_truncated sm \<and> \<not> sm_limited sm \<and> \<not> sm_unresolved sm \<and>
      w_unknown_control u = 0 \<and> w_unknown_id u = 0" .
  have d: "w_stop u = None \<Longrightarrow> w_unknown_control u = 0 \<and> w_unknown_id u = 0 \<longleftrightarrow> (\<forall>row \<in> set rows. row_determined cfg row)"
    unfolding u_def by (rule walk_determined)
  have w: "w_stop u = None \<Longrightarrow> w_analyzed u = length rows \<and> abs_walk u = spec_rows cfg 0 rows spec_init"
    using txn_walk_sim(3,4) [where cfg = cfg and checks = checks and stop = None and rows = rows] by (auto simp: u_def)
  show ?thesis
  proof (cases "w_stop u = None")
    case True
    show ?thesis unfolding iff d [OF True, symmetric] using w [OF True] by simp
  next
    case False
    then show ?thesis unfolding iff by (simp only: simp_thms)
  qed
qed

definition clean_sampling :: sampling where
  "clean_sampling = \<lparr>sm_gaps = [], sm_truncated = False, sm_limited = False, sm_unresolved = False\<rparr>"

text \<open>The sample rows are determined; a row without the request's valid signal is not.\<close>

definition blind_row :: txn_row where
  "blind_row = \<lparr>row_time = 40, row_signals = (\<lambda>p. if p = ''c'' then wire False else None), row_mark = None\<rparr>"

theorem complete_report_exact_witness:
  "list_all (row_determined sample_cfg) sample_rows \<and>
   txn_coverage clean_sampling (txn_walk sample_cfg 100 None (sample_rows @ [blind_row])) \<noteq> ''complete''"
proof -
  have "txn_coverage clean_sampling (txn_walk sample_cfg 100 None sample_rows) = ''complete''" by code_simp
  then have "\<forall>row \<in> set sample_rows. row_determined sample_cfg row" using complete_report_exact by blast
  then have "list_all (row_determined sample_cfg) sample_rows" by (simp only: list_all_iff)
  moreover have "\<not> row_determined sample_cfg blind_row"
    by (simp add: row_determined_def controls_known_def channel_known_def known_bit_def hs_known_def row_boundary_def
      blind_row_def sample_cfg_def)
  then have "\<not> (\<forall>row \<in> set (sample_rows @ [blind_row]). row_determined sample_cfg row)" by simp
  then have "txn_coverage clean_sampling (txn_walk sample_cfg 100 None (sample_rows @ [blind_row])) \<noteq> ''complete''"
    using complete_report_exact by blast
  ultimately show ?thesis ..
qed

end
