(* ===== verification/Window_Verify.thy ===== *)
theory Window_Verify
  imports Wave_Value "HOL-Library.List_Lexorder" "HOL-Library.Char_ord"
begin

text \<open>
  src/src/window_verify.py: temporal predicate templates over the sampled cycles of a window.
  The model covers the validation of the arguments, the terms and their three-valued
  conjunction, the evaluators of the modes and the verdict with its warnings. Name resolution
  and sampling happen outside: the samples are an argument, one (time, signals) per cycle.

  \<^item> An argument that comes from the client (terms, delta) is a \<open>json\<close>; numbers are integers.
  \<^item> A term that passed validation is read as a \<open>vterm\<close>.
  \<^item> \<open>_eval_term\<close> can raise on a recorded value that is not a legal bit string, so the
    evaluators run in the error monad.
\<close>

section \<open>Integer arguments\<close>

text \<open>\<open>int(s, 0)\<close>: a prefix chooses the base; a decimal number has no leading zeros.\<close>

definition digit_value :: "char \<Rightarrow> nat" where
  "digit_value c = (let n = (of_char c :: nat) in
     if 48 \<le> n \<and> n \<le> 57 then n - 48
     else if 97 \<le> n \<and> n \<le> 122 then n - 87
     else if 65 \<le> n \<and> n \<le> 90 then n - 55 else 99)"

fun base_digits_ok :: "nat \<Rightarrow> bool \<Rightarrow> string \<Rightarrow> bool" where
  "base_digits_ok b prev [] = prev"
| "base_digits_ok b prev (c # cs) =
     (if digit_value c < b then base_digits_ok b True cs
      else if c = CHR ''_'' then prev \<and> base_digits_ok b False cs else False)"

fun read_base :: "nat \<Rightarrow> nat \<Rightarrow> string \<Rightarrow> nat" where
  "read_base b acc [] = acc"
| "read_base b acc (c # cs) = (if c = CHR ''_'' then read_base b acc cs else read_base b (b * acc + digit_value c) cs)"

definition prefix_base :: "string \<Rightarrow> nat option" where
  "prefix_base u = (let p = lower (take 2 u) in
     if p = ''0x'' then Some 16 else if p = ''0o'' then Some 8 else if p = ''0b'' then Some 2 else None)"

definition int_base0 :: "string \<Rightarrow> int result" where
  "int_base0 s =
     (let t = strip s;
          neg = (t \<noteq> [] \<and> hd t = CHR ''-'');
          u = (if t \<noteq> [] \<and> hd t \<in> set ''+-'' then tl t else t);
          n = (case prefix_base u of
            Some b \<Rightarrow> let body = drop 2 u in
              if body \<noteq> [] \<and> base_digits_ok b True body then Some (read_base b 0 body) else None
          | None \<Rightarrow> if base_digits_ok 10 False u \<and> (hd u = CHR ''0'' \<longrightarrow> read_base 10 0 u = 0)
              then Some (read_base 10 0 u) else None)
      in case n of None \<Rightarrow> Inl (ValueError ''invalid literal for int() with base 0'')
         | Some k \<Rightarrow> Inr (if neg then - int k else int k))"

definition coerce_int :: "json \<Rightarrow> int result" where
  "coerce_int v = (case v of JBool b \<Rightarrow> Inr (of_bool b) | JInt n \<Rightarrow> Inr n | JStr s \<Rightarrow> int_base0 s | _ \<Rightarrow> Inl TypeError)"

section \<open>Validation\<close>

definition VW_MODES :: "string list" where
  "VW_MODES = [''always'', ''never'', ''eventually'', ''implication'', ''sequence'']"

definition TERM_OPS :: "string list" where
  "TERM_OPS = [''eq'', ''ne'', ''gt'', ''ge'', ''lt'', ''le'', ''is_x'', ''is_known'', ''truth'']"

definition VALUE_OPS :: "string list" where
  "VALUE_OPS = [''eq'', ''ne'', ''gt'', ''ge'', ''lt'', ''le'']"

definition repr_tuple :: "string list \<Rightarrow> string" where
  "repr_tuple xs = ''('' @ join '', '' (map repr_str xs) @ '')''"

definition json_in :: "json \<Rightarrow> string list \<Rightarrow> bool" where
  "json_in v xs = (case v of JStr s \<Rightarrow> s \<in> set xs | _ \<Rightarrow> False)"

fun first_some :: "'a option list \<Rightarrow> 'a option" where
  "first_some [] = None"
| "first_some (None # xs) = first_some xs"
| "first_some (Some x # xs) = Some x"

definition term_needs :: "string \<Rightarrow> string" where
  "term_needs label = ''each '' @ label @ '' term needs at least '' @ repr_str ''signal'' @ '' and '' @ repr_str ''op''"

definition validate_term :: "string \<Rightarrow> json \<Rightarrow> string option" where
  "validate_term label t = (case t of
     JObj kvs \<Rightarrow> (case map_of kvs ''signal'' of None \<Rightarrow> Some (term_needs label) | Some sg \<Rightarrow>
       (case map_of kvs ''op'' of None \<Rightarrow> Some (term_needs label) | Some p \<Rightarrow>
         if \<not> json_in p TERM_OPS
         then Some (''term op must be one of '' @ repr_tuple TERM_OPS @ '', got '' @ py_repr p)
         else if json_in p VALUE_OPS
         then (case map_of kvs ''value'' of
             None \<Rightarrow> Some (''term op '' @ py_repr p @ '' on '' @ py_repr sg @ '' requires a '' @ repr_str ''value'')
           | Some v \<Rightarrow> (case coerce_int v of
               Inl _ \<Rightarrow> Some (''term value '' @ py_repr v @ '' on '' @ py_repr sg @ '' is not an integer'')
             | Inr _ \<Rightarrow> None))
         else None))
   | _ \<Rightarrow> Some (term_needs label))"

definition validate_terms :: "json \<Rightarrow> string \<Rightarrow> string option" where
  "validate_terms terms label = (case terms of
     JArr ts \<Rightarrow> if 128 < length ts then Some (label @ '' term limit is 128'')
                else first_some (map (validate_term label) ts)
   | _ \<Rightarrow> Some (label @ '' must be a list of {signal, op, value} terms''))"

definition get_or :: "(string \<times> json) list \<Rightarrow> string \<Rightarrow> json \<Rightarrow> json" where
  "get_or kvs k d = (case map_of kvs k of None \<Rightarrow> d | Some v \<Rightarrow> v)"

definition validate_delta :: "json \<Rightarrow> string option" where
  "validate_delta delta = (case delta of
     JObj kvs \<Rightarrow>
       if (case get_or kvs ''signal'' JNull of JStr s \<Rightarrow> s = [] | _ \<Rightarrow> True)
       then Some (''delta needs a '' @ repr_str ''signal'' @ '' (string) to track the per-beat increment of'')
       else (case map_of kvs ''value'' of
           None \<Rightarrow> Some (''delta needs a '' @ repr_str ''value'' @ '' (the expected per-beat increment, e.g. 1 for byte)'')
         | Some v \<Rightarrow> (case coerce_int v of
             Inl _ \<Rightarrow> Some (''delta value '' @ py_repr v @ '' is not an integer'')
           | Inr _ \<Rightarrow>
             (let p = get_or kvs ''op'' (JStr ''eq''); m = get_or kvs ''modulo'' JNull; rw = get_or kvs ''restart_when'' JNull in
              if \<not> json_in p VALUE_OPS
              then Some (''delta op must be one of '' @ repr_tuple VALUE_OPS @ '', got '' @ py_repr p)
              else (case (if m = JNull then Inr 1 else coerce_int m) of
                  Inl _ \<Rightarrow> Some (''delta modulo '' @ py_repr m @ '' is not an integer'')
                | Inr k \<Rightarrow> if k \<le> 0 then Some ''delta modulo must be a positive integer (WRAP region size)''
                    else if rw \<noteq> JNull then validate_terms rw ''delta.restart_when'' else None))))
   | _ \<Rightarrow> Some (''sequence mode needs a '' @ repr_str ''delta'' @ '' object {signal, value, op?, modulo?, restart_when?}''))"

definition check_term_set :: "string \<times> json \<Rightarrow> string option" where
  "check_term_set = (\<lambda>(label, terms). if \<not> py_bool terms then Some (label @ '' must be a non-empty list of terms'')
     else validate_terms terms label)"

text \<open>The checks of \<open>verify_window\<close> before any sampling: the reason of the early return, if any.\<close>

definition vw_reason :: "string \<Rightarrow> json \<Rightarrow> json \<Rightarrow> json \<Rightarrow> json \<Rightarrow> int \<Rightarrow> bool \<Rightarrow> string option" where
  "vw_reason mode predicate antecedent consequent delta within overlap =
     (if mode \<notin> set VW_MODES then Some (''mode must be one of '' @ repr_tuple VW_MODES @ '', got '' @ repr_str mode)
      else if mode = ''implication'' then
        (if py_bool predicate then Some ''implication uses antecedent + consequent, not predicate''
         else if py_bool delta
         then Some (''implication does not use delta (only '' @ repr_str ''sequence'' @ '' does)'')
         else if within < 0 then Some ''within_cycles must be >= 0''
         else if \<not> overlap \<and> within < 1
         then Some (''overlap=false (non-overlapping: response window starts the NEXT cycle) requires within_cycles >= 1'')
         else first_some (map check_term_set [(''antecedent'', antecedent), (''consequent'', consequent)]))
      else if py_bool antecedent \<or> py_bool consequent
      then Some (''mode '' @ repr_str mode @ '' uses predicate, not antecedent/consequent'')
      else (case (if mode = ''sequence'' then validate_delta delta
                  else if py_bool delta
                  then Some (''mode '' @ repr_str mode @ '' does not use delta (only '' @ repr_str ''sequence'' @ '' does)'')
                  else None) of
              Some r \<Rightarrow> Some r
            | None \<Rightarrow> check_term_set (''predicate'', predicate)))"

section \<open>Terms\<close>

record vterm =
  vt_signal :: string
  vt_op :: string
  vt_value :: json

record vsample =
  vs_time :: int
  vs_signals :: signals

definition compare_op :: "int \<Rightarrow> string \<Rightarrow> int \<Rightarrow> bool" where
  "compare_op a p b = (if p = ''eq'' then a = b else if p = ''ne'' then a \<noteq> b else if p = ''gt'' then a > b
     else if p = ''ge'' then a \<ge> b else if p = ''lt'' then a < b else a \<le> b)"

definition eval_term :: "vterm \<Rightarrow> signals \<Rightarrow> bool option result" where
  "eval_term t sigs =
     (let v = sigs (vt_signal t);
          dec = (case v of None \<Rightarrow> None | Some s \<Rightarrow> sv_dec s);
          bits = (case v of None \<Rightarrow> None | Some s \<Rightarrow> sv_bin s)
      in if vt_op t = ''truth'' then
           (case bits of None \<Rightarrow> Inr None
            | Some b \<Rightarrow> ebind (mk_value b False) (\<lambda>w.
                Inr (if vtruth w = CHR ''1'' then Some True else if vtruth w = CHR ''0'' then Some False else None)))
         else if dec = None \<and> bits = None then Inr None
         else if vt_op t = ''is_x'' then Inr (Some (dec = None))
         else if vt_op t = ''is_known'' then Inr (Some (dec \<noteq> None))
         else (case dec of None \<Rightarrow> Inr None
            | Some d \<Rightarrow> ebind (coerce_int (vt_value t)) (\<lambda>k.
                if vt_op t \<in> set VALUE_OPS then Inr (Some (compare_op d (vt_op t) k))
                else Inl (ValueError (''unknown op '' @ repr_str (vt_op t))))))"

fun eval_terms :: "vterm list \<Rightarrow> signals \<Rightarrow> bool \<Rightarrow> bool option result" where
  "eval_terms [] sigs saw_none = Inr (if saw_none then None else Some True)"
| "eval_terms (t # ts) sigs saw_none = ebind (eval_term t sigs) (\<lambda>r.
     if r = Some False then Inr (Some False) else eval_terms ts sigs (saw_none \<or> r = None))"

definition eval_predicate :: "vterm list \<Rightarrow> signals \<Rightarrow> bool option result" where
  "eval_predicate terms sigs = eval_terms terms sigs False"

section \<open>Evidence and results\<close>

record vevidence =
  ve_time :: int
  ve_cycle :: nat
  ve_values :: "(string \<times> string option) list"

record vw_result =
  vw_holds :: bool
  vw_vacuous :: bool
  vw_cycles :: nat
  vw_unknown :: nat
  vw_antecedents :: nat
  vw_beats :: nat
  vw_violations :: nat
  vw_inconclusive :: nat
  vw_counterexample :: "vevidence option"
  vw_witness :: "vevidence option"
  vw_violating :: "string option"

definition vw_empty :: "nat \<Rightarrow> vw_result" where
  "vw_empty n = \<lparr>vw_holds = False, vw_vacuous = False, vw_cycles = n, vw_unknown = 0, vw_antecedents = 0, vw_beats = 0,
     vw_violations = 0, vw_inconclusive = 0, vw_counterexample = None, vw_witness = None, vw_violating = None\<rparr>"

definition vw_evidence :: "vsample \<Rightarrow> nat \<Rightarrow> vterm list \<Rightarrow> vevidence" where
  "vw_evidence s idx terms = \<lparr>ve_time = vs_time s, ve_cycle = idx,
     ve_values = map (\<lambda>p. (p, hs_repr (vs_signals s p))) (sorted_list_of_set (set (map vt_signal terms)))\<rparr>"

definition first_of :: "'a option \<Rightarrow> 'a \<Rightarrow> 'a option" where
  "first_of old new = (case old of None \<Rightarrow> Some new | Some x \<Rightarrow> Some x)"

section \<open>always, never, eventually\<close>

fun simple_loop :: "vterm list \<Rightarrow> nat \<Rightarrow> vsample list \<Rightarrow> vevidence option \<Rightarrow> vevidence option \<Rightarrow> nat \<Rightarrow>
    (vevidence option \<times> vevidence option \<times> nat) result" where
  "simple_loop terms idx [] first_true first_false unk = Inr (first_true, first_false, unk)"
| "simple_loop terms idx (s # ss) first_true first_false unk =
     ebind (eval_predicate terms (vs_signals s)) (\<lambda>r. case r of
       None \<Rightarrow> simple_loop terms (idx + 1) ss first_true first_false (unk + 1)
     | Some b \<Rightarrow> if b
         then simple_loop terms (idx + 1) ss (first_of first_true (vw_evidence s idx terms)) first_false unk
         else simple_loop terms (idx + 1) ss first_true (first_of first_false (vw_evidence s idx terms)) unk)"

definition eval_simple :: "vsample list \<Rightarrow> string \<Rightarrow> vterm list \<Rightarrow> vw_result result" where
  "eval_simple samples mode terms =
     ebind (simple_loop terms 0 samples None None 0) (\<lambda>(first_true, first_false, unk).
       let r = (vw_empty (length samples))\<lparr>vw_unknown := unk\<rparr> in
       Inr (if mode = ''always'' then r\<lparr>vw_holds := (first_false = None), vw_counterexample := first_false\<rparr>
            else if mode = ''never'' then r\<lparr>vw_holds := (first_true = None), vw_counterexample := first_true\<rparr>
            else r\<lparr>vw_holds := (first_true \<noteq> None), vw_witness := first_true\<rparr>))"

section \<open>implication\<close>

text \<open>The inner loop: where the response was found, whether an unknown response was seen, and the
  set of unknown cycles (kept as a list without repetitions).\<close>

fun respond :: "(nat \<Rightarrow> bool option result) \<Rightarrow> nat list \<Rightarrow> bool \<Rightarrow> nat list \<Rightarrow> (nat option \<times> bool \<times> nat list) result" where
  "respond C [] unk U = Inr (None, unk, U)"
| "respond C (j # js) unk U = ebind (C j) (\<lambda>r. case r of
     None \<Rightarrow> respond C js True (List.insert j U)
   | Some b \<Rightarrow> if b then Inr (Some j, unk, U) else respond C js unk U)"

record impl_state =
  is_unknown :: "nat list"
  is_ants :: nat
  is_violations :: nat
  is_inconclusive :: nat
  is_same :: nat
  is_first :: "nat option"

definition response_window :: "nat \<Rightarrow> nat \<Rightarrow> bool \<Rightarrow> nat \<Rightarrow> nat list" where
  "response_window n within overlap i = [(if overlap then i else i + 1) ..< Suc (min (i + within) (n - 1))]"

definition impl_cycle :: "nat \<Rightarrow> nat \<Rightarrow> bool \<Rightarrow> (nat \<Rightarrow> bool option result) \<Rightarrow> (nat \<Rightarrow> bool option result) \<Rightarrow>
    nat \<Rightarrow> impl_state \<Rightarrow> impl_state result" where
  "impl_cycle n within overlap A C i st =
     ebind (A i) (\<lambda>a. case a of
       None \<Rightarrow> Inr (st\<lparr>is_unknown := List.insert i (is_unknown st)\<rparr>)
     | Some b \<Rightarrow> if \<not> b then Inr st
       else ebind (respond C (response_window n within overlap i) False (is_unknown st)) (\<lambda>(found, unk, U).
           let st1 = st\<lparr>is_ants := is_ants st + 1, is_unknown := U\<rparr> in
           case found of
             Some j \<Rightarrow> Inr (if j = i then st1\<lparr>is_same := is_same st1 + 1\<rparr> else st1)
           | None \<Rightarrow> if i + within > n - 1 \<or> unk then Inr (st1\<lparr>is_inconclusive := is_inconclusive st1 + 1\<rparr>)
               else Inr (st1\<lparr>is_violations := is_violations st1 + 1, is_first := first_of (is_first st1) i\<rparr>)))"

fun impl_loop :: "nat \<Rightarrow> nat \<Rightarrow> bool \<Rightarrow> (nat \<Rightarrow> bool option result) \<Rightarrow> (nat \<Rightarrow> bool option result) \<Rightarrow>
    nat list \<Rightarrow> impl_state \<Rightarrow> impl_state result" where
  "impl_loop n within overlap A C [] st = Inr st"
| "impl_loop n within overlap A C (i # js) st =
     ebind (impl_cycle n within overlap A C i st) (\<lambda>st'. impl_loop n within overlap A C js st')"

definition impl_init :: impl_state where
  "impl_init = \<lparr>is_unknown = [], is_ants = 0, is_violations = 0, is_inconclusive = 0, is_same = 0, is_first = None\<rparr>"

definition predicate_at :: "vterm list \<Rightarrow> vsample list \<Rightarrow> nat \<Rightarrow> bool option result" where
  "predicate_at terms samples j = eval_predicate terms (vs_signals (samples ! j))"

definition eval_implication :: "vsample list \<Rightarrow> vterm list \<Rightarrow> vterm list \<Rightarrow> nat \<Rightarrow> bool \<Rightarrow> vw_result result" where
  "eval_implication samples antecedent consequent within overlap =
     (let n = length samples in
      ebind (impl_loop n within overlap (predicate_at antecedent samples) (predicate_at consequent samples) [0..<n] impl_init)
        (\<lambda>st. Inr ((vw_empty n)\<lparr>vw_unknown := length (is_unknown st), vw_antecedents := is_ants st,
           vw_violations := is_violations st, vw_inconclusive := is_inconclusive st,
           vw_counterexample := map_option (\<lambda>i. vw_evidence (samples ! i) i antecedent) (is_first st),
           vw_holds := (is_violations st = 0),
           vw_vacuous := (overlap \<and> within \<ge> 1 \<and> is_ants st > 0 \<and> is_same st = is_ants st)\<rparr>)))"

section \<open>sequence\<close>

record vdelta =
  dl_signal :: string
  dl_op :: string
  dl_value :: int
  dl_modulo :: "int option"
  dl_restart :: "vterm list"

text \<open>\<open>hex(n)\<close> of a Python integer.\<close>

fun show_hex :: "nat \<Rightarrow> string" where
  "show_hex n = (if n < 16 then [hex_char n] else show_hex (n div 16) @ [hex_char (n mod 16)])"

declare show_hex.simps [simp del]

definition py_hex :: "int \<Rightarrow> string" where
  "py_hex n = (if n < 0 then ''-0x'' @ show_hex (nat (- n)) else ''0x'' @ show_hex (nat n))"

definition expected_text :: "vdelta \<Rightarrow> string" where
  "expected_text d = dl_op d @ '' '' @ show_int (dl_value d) @
     (case dl_modulo d of None \<Rightarrow> [] | Some m \<Rightarrow> '' (mod '' @ show_int m @ '')'')"

definition seq_evidence :: "vsample \<Rightarrow> nat \<Rightarrow> vdelta \<Rightarrow> int \<Rightarrow> int \<Rightarrow> nat \<Rightarrow> int \<Rightarrow> vevidence" where
  "seq_evidence s idx d cur prev_val prev_idx actual = \<lparr>ve_time = vs_time s, ve_cycle = idx,
     ve_values = [(dl_signal d, Some (py_hex cur)), (dl_signal d @ ''@prev_beat'', Some (py_hex prev_val)),
       (''prev_beat_cycle'', Some (show_int (int prev_idx))), (''actual_increment'', Some (show_int actual)),
       (''expected_increment'', Some (expected_text d))]\<rparr>"

record seq_state =
  sq_prev :: "(int \<times> nat) option"
  sq_unknown :: nat
  sq_beats :: nat
  sq_violations :: nat
  sq_first :: "vevidence option"

definition seq_dec :: "signals \<Rightarrow> string \<Rightarrow> int option" where
  "seq_dec sigs p = (case sigs p of None \<Rightarrow> None | Some s \<Rightarrow> sv_dec s)"

text \<open>What a cycle is to the sequence: an unknown, no beat, a restart, or a beat with its value.\<close>

datatype seq_event = SeqUnknown | SeqIdle | SeqRestart int | SeqBeat int

definition seq_event_at :: "vterm list \<Rightarrow> vdelta \<Rightarrow> signals \<Rightarrow> seq_event result" where
  "seq_event_at gate d sigs =
     ebind (eval_predicate gate sigs) (\<lambda>g. case g of
       None \<Rightarrow> Inr SeqUnknown
     | Some b \<Rightarrow> if \<not> b then Inr SeqIdle else (case seq_dec sigs (dl_signal d) of
         None \<Rightarrow> Inr SeqUnknown
       | Some cur \<Rightarrow> ebind (if dl_restart d \<noteq> [] then eval_predicate (dl_restart d) sigs else Inr (Some False)) (\<lambda>rs.
           case rs of None \<Rightarrow> Inr SeqUnknown | Some r \<Rightarrow> Inr (if r then SeqRestart cur else SeqBeat cur))))"

definition increment :: "vdelta \<Rightarrow> int \<Rightarrow> int \<Rightarrow> int" where
  "increment d cur prev = (case dl_modulo d of None \<Rightarrow> cur - prev | Some m \<Rightarrow> (cur - prev) mod m)"

definition seq_cycle :: "vdelta \<Rightarrow> nat \<Rightarrow> vsample \<Rightarrow> seq_event \<Rightarrow> seq_state \<Rightarrow> seq_state" where
  "seq_cycle d i s e st = (case e of
     SeqUnknown \<Rightarrow> st\<lparr>sq_unknown := sq_unknown st + 1, sq_prev := None\<rparr>
   | SeqIdle \<Rightarrow> st
   | SeqRestart cur \<Rightarrow> st\<lparr>sq_prev := Some (cur, i)\<rparr>
   | SeqBeat cur \<Rightarrow> (case sq_prev st of
       None \<Rightarrow> st\<lparr>sq_prev := Some (cur, i)\<rparr>
     | Some (prev_val, prev_idx) \<Rightarrow>
         (let actual = increment d cur prev_val;
              st1 = st\<lparr>sq_beats := sq_beats st + 1, sq_prev := Some (cur, i)\<rparr>
          in if compare_op actual (dl_op d) (dl_value d) then st1
             else st1\<lparr>sq_violations := sq_violations st1 + 1,
                      sq_first := first_of (sq_first st1) (seq_evidence s i d cur prev_val prev_idx actual)\<rparr>)))"

fun seq_loop :: "vterm list \<Rightarrow> vdelta \<Rightarrow> nat \<Rightarrow> vsample list \<Rightarrow> seq_state \<Rightarrow> seq_state result" where
  "seq_loop gate d i [] st = Inr st"
| "seq_loop gate d i (s # ss) st =
     ebind (seq_event_at gate d (vs_signals s)) (\<lambda>e. seq_loop gate d (i + 1) ss (seq_cycle d i s e st))"

definition seq_init :: seq_state where
  "seq_init = \<lparr>sq_prev = None, sq_unknown = 0, sq_beats = 0, sq_violations = 0, sq_first = None\<rparr>"

definition eval_sequence :: "vsample list \<Rightarrow> vterm list \<Rightarrow> vdelta \<Rightarrow> vw_result result" where
  "eval_sequence samples gate d =
     ebind (seq_loop gate d 0 samples seq_init)
       (\<lambda>st. Inr ((vw_empty (length samples))\<lparr>vw_unknown := sq_unknown st, vw_beats := sq_beats st,
          vw_violations := sq_violations st, vw_counterexample := sq_first st, vw_holds := (sq_violations st = 0),
          vw_violating := (if sq_first st = None then None else Some (dl_signal d))\<rparr>))"

section \<open>Coverage and cursor\<close>

definition vw_coverage :: "bool \<Rightarrow> vw_result \<Rightarrow> string" where
  "vw_coverage truncated r =
     (if vw_unknown r \<noteq> 0 \<or> vw_inconclusive r \<noteq> 0 \<or> truncated then ''partial'' else ''complete'')"

datatype vw_warning = UnknownCycles nat | Inconclusive nat | VacuousPass nat | TruncatedTransitions

definition vw_warnings :: "bool \<Rightarrow> vw_result \<Rightarrow> vw_warning list" where
  "vw_warnings truncated r =
     (if vw_unknown r \<noteq> 0 then [UnknownCycles (vw_unknown r)] else []) @
     (if vw_inconclusive r \<noteq> 0 then [Inconclusive (vw_inconclusive r)] else []) @
     (if vw_vacuous r then [VacuousPass (vw_antecedents r)] else []) @
     (if truncated then [TruncatedTransitions] else [])"

definition vw_anchor :: "vw_result \<Rightarrow> (string \<times> int) option" where
  "vw_anchor r = (case vw_counterexample r of Some e \<Rightarrow> Some (''counterexample'', ve_time e)
     | None \<Rightarrow> (case vw_witness r of Some e \<Rightarrow> Some (''witness'', ve_time e) | None \<Rightarrow> None))"

section \<open>From the arguments to the evaluators\<close>

text \<open>The terms and the delta with their signals renamed to the resolved paths (\<open>sig_map\<close>).\<close>

definition read_term :: "(string \<Rightarrow> string) \<Rightarrow> json \<Rightarrow> vterm result" where
  "read_term sig_map t =
     ebind (py_getitem t ''signal'') (\<lambda>s. ebind (py_getitem t ''op'') (\<lambda>p. ebind (py_get t ''value'' JNull) (\<lambda>v.
       case (s, p) of (JStr s', JStr p') \<Rightarrow> Inr \<lparr>vt_signal = sig_map s', vt_op = p', vt_value = v\<rparr>
       | _ \<Rightarrow> Inl IllTyped)))"

definition read_terms :: "(string \<Rightarrow> string) \<Rightarrow> json \<Rightarrow> vterm list result" where
  "read_terms sig_map terms = ebind (py_iter terms) (mapM (read_term sig_map))"

definition resolve_delta :: "(string \<Rightarrow> string) \<Rightarrow> json \<Rightarrow> vdelta result" where
  "resolve_delta sig_map delta =
     ebind (py_getitem delta ''signal'') (\<lambda>s. ebind (py_get delta ''op'' (JStr ''eq'')) (\<lambda>p.
     ebind (ebind (py_getitem delta ''value'') coerce_int) (\<lambda>v.
     ebind (py_get delta ''modulo'' JNull) (\<lambda>m.
     ebind (if m = JNull then Inr None else ebind (coerce_int m) (\<lambda>k. Inr (Some k))) (\<lambda>m'.
     ebind (py_get delta ''restart_when'' JNull) (\<lambda>rw.
     ebind (if py_bool rw then read_terms sig_map rw else Inr []) (\<lambda>ts.
       case (s, p) of (JStr s', JStr p') \<Rightarrow>
         Inr \<lparr>dl_signal = sig_map s', dl_op = p', dl_value = v, dl_modulo = m', dl_restart = ts\<rparr>
       | _ \<Rightarrow> Inl IllTyped)))))))"

definition vw_evaluate :: "(string \<Rightarrow> string) \<Rightarrow> string \<Rightarrow> json \<Rightarrow> json \<Rightarrow> json \<Rightarrow> json \<Rightarrow> nat \<Rightarrow> bool \<Rightarrow>
    vsample list \<Rightarrow> vw_result result" where
  "vw_evaluate sig_map mode predicate antecedent consequent delta within overlap samples =
     (if mode = ''implication'' then
        ebind (read_terms sig_map antecedent) (\<lambda>a. ebind (read_terms sig_map consequent) (\<lambda>c.
          eval_implication samples a c within overlap))
      else if mode = ''sequence'' then
        ebind (read_terms sig_map predicate) (\<lambda>g. ebind (resolve_delta sig_map delta) (\<lambda>d. eval_sequence samples g d))
      else ebind (read_terms sig_map predicate) (\<lambda>ts. eval_simple samples mode ts))"

end
