(* ===== verification/Window_Claims.thy ===== *)
theory Window_Claims
  imports Window_Verify
begin

text \<open>
  The evaluators of \<open>verify_window\<close> against the meaning of their templates. A cycle's verdict is
  \<open>Some True\<close>, \<open>Some False\<close> or \<open>None\<close> (an x or z value decided nothing).
\<close>

section \<open>Lists of cycles\<close>

lemma find_upt_least:
  "find P [0..<n] = (if \<exists>i<n. P i then Some (LEAST i. i < n \<and> P i) else None)"
proof (cases "\<exists>i<n. P i")
  case True
  define l where "l = (LEAST i. i < n \<and> P i)"
  have l: "l < n" "P l" using LeastI_ex [OF True] by (simp_all add: l_def)
  have least: "\<not> P j" if "j < l" for j using that l(1) not_less_Least [of j "\<lambda>i. i < n \<and> P i"] by (simp add: l_def)
  have "[0..<n] ! j = j" if "j \<le> l" for j using that l(1) by simp
  then have "find P [0..<n] = Some l" unfolding find_Some_iff using l least by (intro exI [of _ l]) simp
  then show ?thesis using True by (simp add: l_def)
next
  case False
  then have "find P [0..<n] = None" by (auto simp: find_None_iff)
  then show ?thesis using False by (simp only: if_False)
qed

lemma length_filter_upt: "length (filter P [0..<n]) = card {i. i < n \<and> P i}"
  by (simp add: length_filter_conv_card cong: conj_cong)

section \<open>always, never, eventually\<close>

definition verdicts :: "vterm list \<Rightarrow> vsample list \<Rightarrow> (nat \<Rightarrow> bool option) \<Rightarrow> bool" where
  "verdicts terms samples p \<longleftrightarrow> (\<forall>i < length samples. predicate_at terms samples i = Inr (p i))"

definition keep_first :: "'a option \<Rightarrow> 'a option \<Rightarrow> 'a option" where
  "keep_first x y = (case x of None \<Rightarrow> y | Some z \<Rightarrow> Some z)"

lemma keep_first_simps [simp]: "keep_first None y = y" "keep_first (Some z) y = Some z" "keep_first x None = x"
  by (simp_all add: keep_first_def split: option.splits)

lemma first_of_keep: "first_of x z = keep_first x (Some z)"
  by (simp add: first_of_def keep_first_def)

lemma keep_first_assoc: "keep_first (keep_first x y) z = keep_first x (keep_first y z)"
  by (cases x) simp_all

definition cycles_of :: "nat \<Rightarrow> 'a list \<Rightarrow> nat list" where
  "cycles_of k xs = [k..<k + length xs]"

lemma simple_loop_exact:
  assumes "\<And>i. i < length ss \<Longrightarrow> predicate_at terms ss i = Inr (p (k + i))"
  shows "simple_loop terms k ss t f u = Inr
    (keep_first t (map_option (\<lambda>i. vw_evidence (ss ! (i - k)) i terms) (find (\<lambda>i. p i = Some True) (cycles_of k ss))),
     keep_first f (map_option (\<lambda>i. vw_evidence (ss ! (i - k)) i terms) (find (\<lambda>i. p i = Some False) (cycles_of k ss))),
     u + length (filter (\<lambda>i. p i = None) (cycles_of k ss)))"
  using assms
proof (induction ss arbitrary: k t f u)
  case Nil
  then show ?case by (simp add: cycles_of_def)
next
  case (Cons s ss)
  have head: "eval_predicate terms (vs_signals s) = Inr (p k)"
    using Cons.prems [of 0] by (simp add: predicate_at_def)
  have tail: "predicate_at terms ss i = Inr (p (Suc k + i))" if "i < length ss" for i
    using Cons.prems [of "Suc i"] that by (simp add: predicate_at_def)
  have cyc: "cycles_of k (s # ss) = k # cycles_of (Suc k) ss"
    by (simp add: cycles_of_def upt_conv_Cons del: upt_Suc)
  have ev: "map_option (\<lambda>i. vw_evidence ((s # ss) ! (i - k)) i terms) (find q (cycles_of (Suc k) ss)) =
      map_option (\<lambda>i. vw_evidence (ss ! (i - Suc k)) i terms) (find q (cycles_of (Suc k) ss))" for q
  proof (cases "find q (cycles_of (Suc k) ss)")
    case (Some j)
    then have "j \<in> set (cycles_of (Suc k) ss)" by (auto simp: find_Some_iff)
    then have "j - k = Suc (j - Suc k)" by (auto simp: cycles_of_def)
    then show ?thesis using Some by simp
  qed simp
  note IH = Cons.IH [of "Suc k", OF tail]
  show ?case
    by (cases "p k"; cases "p k = Some True")
      (simp_all add: head IH cyc ev first_of_keep keep_first_assoc split: bool.splits option.splits)
qed

definition first_cycle :: "vsample list \<Rightarrow> vterm list \<Rightarrow> (nat \<Rightarrow> bool) \<Rightarrow> vevidence option" where
  "first_cycle samples terms P = (if \<exists>i < length samples. P i
     then let l = LEAST i. i < length samples \<and> P i in Some (vw_evidence (samples ! l) l terms) else None)"

lemma first_cycle_find:
  "map_option (\<lambda>i. vw_evidence (samples ! i) i terms) (find P [0..<length samples]) = first_cycle samples terms P"
  by (simp add: find_upt_least first_cycle_def Let_def)

lemma first_cycle_None [simp]: "first_cycle samples terms P = None \<longleftrightarrow> (\<forall>i < length samples. \<not> P i)"
  by (auto simp: first_cycle_def Let_def)

lemma eval_simple_exact:
  assumes "verdicts terms samples p"
  shows "eval_simple samples mode terms = Inr (
    let r = (vw_empty (length samples))\<lparr>vw_unknown := card {i. i < length samples \<and> p i = None}\<rparr>;
        t = first_cycle samples terms (\<lambda>i. p i = Some True); f = first_cycle samples terms (\<lambda>i. p i = Some False)
    in if mode = ''always'' then r\<lparr>vw_holds := (f = None), vw_counterexample := f\<rparr>
       else if mode = ''never'' then r\<lparr>vw_holds := (t = None), vw_counterexample := t\<rparr>
       else r\<lparr>vw_holds := (t \<noteq> None), vw_witness := t\<rparr>)"
proof -
  have "simple_loop terms 0 samples None None 0 = Inr
    (first_cycle samples terms (\<lambda>i. p i = Some True), first_cycle samples terms (\<lambda>i. p i = Some False),
     card {i. i < length samples \<and> p i = None})"
    using simple_loop_exact [of samples terms p 0 None None 0] assms
    by (simp add: verdicts_def cycles_of_def first_cycle_find length_filter_upt)
  then show ?thesis by (simp add: eval_simple_def Let_def)
qed

section \<open>implication\<close>

definition answered :: "(nat \<Rightarrow> bool option) \<Rightarrow> nat list \<Rightarrow> nat option" where
  "answered c js = find (\<lambda>j. c j = Some True) js"

definition asked :: "(nat \<Rightarrow> bool option) \<Rightarrow> nat list \<Rightarrow> nat list" where
  "asked c js = filter (\<lambda>j. c j = None) (takeWhile (\<lambda>j. c j \<noteq> Some True) js)"

lemma respond_exact:
  assumes "\<And>j. j \<in> set js \<Longrightarrow> C j = Inr (c j)" "distinct U"
  shows "\<exists>U'. respond C js unk U = Inr (answered c js, unk \<or> asked c js \<noteq> [], U') \<and> distinct U' \<and>
    set U' = set U \<union> set (asked c js)"
  using assms
proof (induction js arbitrary: unk U)
  case Nil
  then show ?case by (simp add: answered_def asked_def)
next
  case (Cons j js)
  have c: "C j = Inr (c j)" using Cons.prems(1) by simp
  have C: "\<And>i. i \<in> set js \<Longrightarrow> C i = Inr (c i)" using Cons.prems(1) by simp
  consider "c j = None" | "c j = Some True" | "c j = Some False" by (cases "c j") auto
  then show ?case
  proof cases
    case 1
    obtain U' where "respond C js True (List.insert j U) = Inr (answered c js, True, U')" "distinct U'"
      "set U' = set (List.insert j U) \<union> set (asked c js)"
      using Cons.IH [OF C, of "List.insert j U" True] Cons.prems(2) by auto
    then show ?thesis using 1 c by (auto simp: answered_def asked_def)
  next
    case 2
    then show ?thesis using c Cons.prems(2) by (simp add: answered_def asked_def)
  next
    case 3
    then show ?thesis using c Cons.IH [OF C, of U unk] Cons.prems(2) by (simp add: answered_def asked_def)
  qed
qed

definition window_of :: "nat \<Rightarrow> nat \<Rightarrow> bool \<Rightarrow> nat \<Rightarrow> nat list" where
  "window_of n within overlap i = response_window n within overlap i"

definition unknown_by :: "nat \<Rightarrow> nat \<Rightarrow> bool \<Rightarrow> (nat \<Rightarrow> bool option) \<Rightarrow> (nat \<Rightarrow> bool option) \<Rightarrow> nat \<Rightarrow> nat set" where
  "unknown_by n within overlap a c i = (if a i = None then {i} else if a i = Some True
     then set (asked c (response_window n within overlap i)) else {})"

definition no_answer :: "nat \<Rightarrow> nat \<Rightarrow> bool \<Rightarrow> (nat \<Rightarrow> bool option) \<Rightarrow> (nat \<Rightarrow> bool option) \<Rightarrow> nat \<Rightarrow> bool" where
  "no_answer n within overlap a c i \<longleftrightarrow> a i = Some True \<and> answered c (response_window n within overlap i) = None"

definition decided_no :: "nat \<Rightarrow> nat \<Rightarrow> bool \<Rightarrow> (nat \<Rightarrow> bool option) \<Rightarrow> (nat \<Rightarrow> bool option) \<Rightarrow> nat \<Rightarrow> bool" where
  "decided_no n within overlap a c i \<longleftrightarrow> no_answer n within overlap a c i \<and> i + within \<le> n - 1 \<and>
     asked c (response_window n within overlap i) = []"

lemma impl_loop_exact:
  assumes "\<And>i. i \<in> set js \<Longrightarrow> A i = Inr (a i)"
    "\<forall>i \<in> set js. \<forall>j \<in> set (response_window n within overlap i). C j = Inr (c j)" "distinct (is_unknown st)"
  shows "\<exists>st'. impl_loop n within overlap A C js st = Inr st' \<and>
    is_ants st' = is_ants st + length (filter (\<lambda>i. a i = Some True) js) \<and>
    is_violations st' = is_violations st + length (filter (decided_no n within overlap a c) js) \<and>
    is_inconclusive st' = is_inconclusive st +
      length (filter (\<lambda>i. no_answer n within overlap a c i \<and> \<not> decided_no n within overlap a c i) js) \<and>
    is_same st' = is_same st +
      length (filter (\<lambda>i. a i = Some True \<and> answered c (response_window n within overlap i) = Some i) js) \<and>
    is_first st' = keep_first (is_first st) (find (decided_no n within overlap a c) js) \<and>
    distinct (is_unknown st') \<and> set (is_unknown st') = set (is_unknown st) \<union> (\<Union>i \<in> set js. unknown_by n within overlap a c i)"
  using assms
proof (induction js arbitrary: st)
  case (Cons i js)
  let ?w = "response_window n within overlap i"
  have A: "A i = Inr (a i)" using Cons.prems(1) by simp
  obtain U' where U: "respond C ?w False (is_unknown st) = Inr (answered c ?w, asked c ?w \<noteq> [], U')" "distinct U'"
    "set U' = set (is_unknown st) \<union> set (asked c ?w)"
    using respond_exact [of ?w C c "is_unknown st" False] Cons.prems(2,3) by auto
  obtain st1 where st1: "impl_cycle n within overlap A C i st = Inr st1" "distinct (is_unknown st1)"
    "is_ants st1 = is_ants st + (if a i = Some True then 1 else 0)"
    "is_violations st1 = is_violations st + (if decided_no n within overlap a c i then 1 else 0)"
    "is_inconclusive st1 = is_inconclusive st +
       (if no_answer n within overlap a c i \<and> \<not> decided_no n within overlap a c i then 1 else 0)"
    "is_same st1 = is_same st + (if a i = Some True \<and> answered c ?w = Some i then 1 else 0)"
    "is_first st1 = (if decided_no n within overlap a c i then keep_first (is_first st) (Some i) else is_first st)"
    "set (is_unknown st1) = set (is_unknown st) \<union> unknown_by n within overlap a c i"
  proof -
    consider "a i = None" | "a i = Some False" | "a i = Some True" by (cases "a i") auto
    then show ?thesis
    proof cases
      case 1
      then show ?thesis using A Cons.prems(3)
        by (intro that [of "st\<lparr>is_unknown := List.insert i (is_unknown st)\<rparr>"])
          (simp_all add: impl_cycle_def decided_no_def no_answer_def unknown_by_def)
    next
      case 2
      then show ?thesis using A Cons.prems(3)
        by (intro that [of st]) (simp_all add: impl_cycle_def decided_no_def no_answer_def unknown_by_def)
    next
      case 3
      note defs = impl_cycle_def decided_no_def no_answer_def unknown_by_def Let_def first_of_keep
      let ?st = "st\<lparr>is_ants := is_ants st + 1, is_unknown := U'\<rparr>"
      show ?thesis
      proof (cases "answered c ?w")
        case (Some j)
        then show ?thesis using A 3 U
          by (intro that [of "if j = i then ?st\<lparr>is_same := is_same ?st + 1\<rparr> else ?st"]) (simp_all add: defs)
      next
        case None
        show ?thesis
        proof (cases "i + within > n - 1 \<or> asked c ?w \<noteq> []")
          case True
          then show ?thesis using A 3 U None
            by (intro that [of "?st\<lparr>is_inconclusive := is_inconclusive ?st + 1\<rparr>"]) (auto simp: defs)
        next
          case False
          then show ?thesis using A 3 U None
            by (intro that [of "?st\<lparr>is_violations := is_violations ?st + 1, is_first := first_of (is_first ?st) i\<rparr>"])
              (simp_all add: defs)
        qed
      qed
    qed
  qed
  obtain st' where "impl_loop n within overlap A C js st1 = Inr st'" and
    r: "is_ants st' = is_ants st1 + length (filter (\<lambda>i. a i = Some True) js)"
    "is_violations st' = is_violations st1 + length (filter (decided_no n within overlap a c) js)"
    "is_inconclusive st' = is_inconclusive st1 +
      length (filter (\<lambda>i. no_answer n within overlap a c i \<and> \<not> decided_no n within overlap a c i) js)"
    "is_same st' = is_same st1 +
      length (filter (\<lambda>i. a i = Some True \<and> answered c (response_window n within overlap i) = Some i) js)"
    "is_first st' = keep_first (is_first st1) (find (decided_no n within overlap a c) js)"
    "distinct (is_unknown st')" "set (is_unknown st') = set (is_unknown st1) \<union> (\<Union>i \<in> set js. unknown_by n within overlap a c i)"
    using Cons.IH [of st1] Cons.prems(1,2) st1(2) by fastforce
  then have run: "impl_loop n within overlap A C (i # js) st = Inr st'" using st1(1) by simp
  show ?case unfolding run
    by (intro exI [of _ st'] conjI refl) (simp_all add: r st1 keep_first_assoc Un_assoc)
qed simp

definition in_window :: "nat \<Rightarrow> bool \<Rightarrow> nat \<Rightarrow> nat \<Rightarrow> bool" where
  "in_window within overlap i j \<longleftrightarrow> (if overlap then i \<le> j else i < j) \<and> j \<le> i + within"

definition responds :: "nat \<Rightarrow> nat \<Rightarrow> bool \<Rightarrow> (nat \<Rightarrow> bool option) \<Rightarrow> nat \<Rightarrow> bool" where
  "responds n within overlap c i \<longleftrightarrow> (\<exists>j<n. in_window within overlap i j \<and> c j = Some True)"

definition refuted :: "nat \<Rightarrow> nat \<Rightarrow> bool \<Rightarrow> (nat \<Rightarrow> bool option) \<Rightarrow> nat \<Rightarrow> bool" where
  "refuted n within overlap c i \<longleftrightarrow> i + within < n \<and> (\<forall>j. in_window within overlap i j \<longrightarrow> c j = Some False)"

lemma set_response_window:
  "i < n \<Longrightarrow> set (response_window n within overlap i) = {j. j < n \<and> in_window within overlap i j}"
  by (auto simp: response_window_def in_window_def)

lemma no_answer_iff:
  "i < n \<Longrightarrow> no_answer n within overlap a c i \<longleftrightarrow> a i = Some True \<and> \<not> responds n within overlap c i"
  by (auto simp: no_answer_def answered_def find_None_iff set_response_window responds_def)

lemma decided_no_iff:
  assumes "i < n"
  shows "decided_no n within overlap a c i \<longleftrightarrow> a i = Some True \<and> refuted n within overlap c i"
proof -
  let ?w = "response_window n within overlap i"
  have w: "set ?w = {j. j < n \<and> in_window within overlap i j}" by (rule set_response_window [OF assms])
  have all: "asked c ?w = filter (\<lambda>j. c j = None) ?w" if "\<not> responds n within overlap c i"
    using that w by (simp add: asked_def responds_def takeWhile_eq_all_conv [THEN iffD2])
  show ?thesis
  proof (cases "responds n within overlap c i")
    case True
    then show ?thesis using no_answer_iff [OF assms, of within overlap a c] w
      by (auto simp: decided_no_def refuted_def responds_def in_window_def)
  next
    case False
    have "i + within \<le> n - 1 \<longleftrightarrow> i + within < n" using assms by linarith
    moreover have "asked c ?w = [] \<longleftrightarrow> (\<forall>j \<in> set ?w. c j \<noteq> None)" using all [OF False] by (simp add: filter_empty_conv)
    moreover have "(\<forall>j \<in> set ?w. c j \<noteq> None) \<longleftrightarrow> (\<forall>j \<in> set ?w. c j = Some False)"
    proof (rule ball_cong [OF refl])
      fix j assume "j \<in> set ?w"
      then have "c j \<noteq> Some True" using False w by (auto simp: responds_def)
      then show "(c j \<noteq> None) = (c j = Some False)" by (cases "c j") auto
    qed
    moreover have "(\<forall>j \<in> set ?w. c j = Some False) \<longleftrightarrow> (\<forall>j. in_window within overlap i j \<longrightarrow> c j = Some False)"
      if "i + within < n" using that w by (auto simp: in_window_def)
    ultimately show ?thesis using no_answer_iff [OF assms, of within overlap a c] False
      by (auto simp: decided_no_def refuted_def)
  qed
qed

lemma same_cycle_iff:
  assumes "i < n"
  shows "answered c (response_window n within overlap i) = Some i \<longleftrightarrow> overlap \<and> c i = Some True"
proof (cases overlap)
  case True
  then have "response_window n within overlap i = i # [Suc i ..< Suc (min (i + within) (n - 1))]"
    using assms by (simp add: response_window_def upt_conv_Cons del: upt_Suc)
  then show ?thesis using True by (auto simp: answered_def find_Some_iff nth_Cons' split: if_splits)
next
  case False
  then have "i \<notin> set (response_window n within overlap i)" by (auto simp: response_window_def simp del: upt_Suc)
  then have "answered c (response_window n within overlap i) \<noteq> Some i"
    unfolding answered_def find_Some_iff by (metis nth_mem)
  then show ?thesis using False by simp
qed

lemma filter_upt_cong: "(\<And>i. i < n \<Longrightarrow> P i = Q i) \<Longrightarrow> filter P [0..<n] = filter Q [0..<n]"
  by (rule filter_cong) simp_all

lemma find_upt_cong: "(\<And>i. i < n \<Longrightarrow> P i = Q i) \<Longrightarrow> find P [0..<n] = find Q [0..<n]"
  by (rule find_cong) simp_all

lemma eval_implication_exact:
  fixes samples a c
  defines "n \<equiv> length samples"
  assumes "verdicts antecedent samples a" "verdicts consequent samples c"
  shows "\<exists>r. eval_implication samples antecedent consequent within overlap = Inr r \<and>
    vw_antecedents r = card {i. i < n \<and> a i = Some True} \<and>
    vw_violations r = card {i. i < n \<and> a i = Some True \<and> refuted n within overlap c i} \<and>
    vw_inconclusive r = card {i. i < n \<and> a i = Some True \<and> \<not> responds n within overlap c i \<and> \<not> refuted n within overlap c i} \<and>
    vw_counterexample r = first_cycle samples antecedent (\<lambda>i. a i = Some True \<and> refuted n within overlap c i) \<and>
    vw_holds r = (\<forall>i<n. a i = Some True \<longrightarrow> \<not> refuted n within overlap c i) \<and>
    vw_unknown r = card (\<Union>i<n. unknown_by n within overlap a c i) \<and>
    vw_vacuous r = (overlap \<and> 1 \<le> within \<and> (\<exists>i<n. a i = Some True) \<and> (\<forall>i<n. a i = Some True \<longrightarrow> c i = Some True))"
proof -
  let ?W = "response_window n within overlap"
  have wn: "j < n" if "i < n" "j \<in> set (?W i)" for i j using that set_response_window by auto
  have A: "\<And>i. i \<in> set [0..<n] \<Longrightarrow> predicate_at antecedent samples i = Inr (a i)"
    using assms(2) by (simp add: verdicts_def n_def)
  have C: "\<forall>i \<in> set [0..<n]. \<forall>j \<in> set (?W i). predicate_at consequent samples j = Inr (c j)"
    using assms(3) wn by (simp add: verdicts_def n_def)
  have D: "distinct (is_unknown impl_init)" by (simp add: impl_init_def)
  obtain st where run: "impl_loop n within overlap (predicate_at antecedent samples) (predicate_at consequent samples)
      [0..<n] impl_init = Inr st" and
    r: "is_ants st = length (filter (\<lambda>i. a i = Some True) [0..<n])"
    "is_violations st = length (filter (decided_no n within overlap a c) [0..<n])"
    "is_inconclusive st = length (filter (\<lambda>i. no_answer n within overlap a c i \<and> \<not> decided_no n within overlap a c i) [0..<n])"
    "is_same st = length (filter (\<lambda>i. a i = Some True \<and> answered c (?W i) = Some i) [0..<n])"
    "is_first st = find (decided_no n within overlap a c) [0..<n]"
    "distinct (is_unknown st)" "set (is_unknown st) = (\<Union>i \<in> set [0..<n]. unknown_by n within overlap a c i)"
    using impl_loop_exact [where js = "[0..<n]" and n = n and within = within and overlap = overlap and A = "predicate_at antecedent samples" and a = a and
        C = "predicate_at consequent samples" and c = c and st = impl_init, OF A C D]
    unfolding impl_init_def impl_state.simps keep_first_simps add_0 set_empty list.set(1) Un_empty_left by blast
  have dec: "filter (decided_no n within overlap a c) [0..<n] = filter (\<lambda>i. a i = Some True \<and> refuted n within overlap c i) [0..<n]"
    "find (decided_no n within overlap a c) [0..<n] = find (\<lambda>i. a i = Some True \<and> refuted n within overlap c i) [0..<n]"
    by (rule filter_upt_cong find_upt_cong; rule decided_no_iff; assumption)+
  have inc: "filter (\<lambda>i. no_answer n within overlap a c i \<and> \<not> decided_no n within overlap a c i) [0..<n] =
      filter (\<lambda>i. a i = Some True \<and> \<not> responds n within overlap c i \<and> \<not> refuted n within overlap c i) [0..<n]"
    by (rule filter_upt_cong) (auto simp: decided_no_iff no_answer_iff)
  have same: "filter (\<lambda>i. a i = Some True \<and> answered c (?W i) = Some i) [0..<n] =
      filter (\<lambda>i. a i = Some True \<and> overlap \<and> c i = Some True) [0..<n]"
    by (rule filter_upt_cong) (simp add: same_cycle_iff)
  have unk: "length (is_unknown st) = card (\<Union>i<n. unknown_by n within overlap a c i)"
    using r(6,7) by (metis distinct_card atLeast_upt)
  have viol: "is_violations st = 0 \<longleftrightarrow> (\<forall>i<n. a i = Some True \<longrightarrow> \<not> refuted n within overlap c i)"
    by (auto simp: r dec filter_empty_conv)
  have vac: "is_same st = is_ants st \<longleftrightarrow> (\<forall>i<n. a i = Some True \<longrightarrow> overlap \<and> c i = Some True)"
  proof -
    have sub: "{i. i < n \<and> a i = Some True \<and> overlap \<and> c i = Some True} \<subseteq> {i. i < n \<and> a i = Some True}" by auto
    have "is_same st = is_ants st \<longleftrightarrow>
        {i. i < n \<and> a i = Some True \<and> overlap \<and> c i = Some True} = {i. i < n \<and> a i = Some True}"
      unfolding r(1,4) same length_filter_upt using card_subset_eq [OF _ sub] by (intro iffI) simp_all
    then show ?thesis by blast
  qed
  have "0 < is_ants st \<longleftrightarrow> (\<exists>i<n. a i = Some True)" by (auto simp: r filter_empty_conv)
  then have vac': "(overlap \<and> 1 \<le> within \<and> 0 < is_ants st \<and> is_same st = is_ants st) =
      (overlap \<and> 1 \<le> within \<and> (\<exists>i<n. a i = Some True) \<and> (\<forall>i<n. a i = Some True \<longrightarrow> c i = Some True))"
    unfolding vac by blast
  show ?thesis
    unfolding eval_implication_def Let_def n_def [symmetric] run
    using viol vac' unk first_cycle_find [of samples antecedent]
    by (simp add: r(1,2,3) r(5) dec inc length_filter_upt n_def [symmetric])
qed

section \<open>sequence\<close>

text \<open>The value a cycle leaves as predecessor, and the predecessor of cycle \<open>k\<close>.\<close>

definition seeds :: "seq_event \<Rightarrow> int option" where
  "seeds e = (case e of SeqRestart v \<Rightarrow> Some v | SeqBeat v \<Rightarrow> Some v | _ \<Rightarrow> None)"

fun prev_at :: "(nat \<Rightarrow> seq_event) \<Rightarrow> nat \<Rightarrow> (int \<times> nat) option" where
  "prev_at e 0 = None"
| "prev_at e (Suc k) = (case e k of SeqUnknown \<Rightarrow> None | SeqIdle \<Rightarrow> prev_at e k
     | SeqRestart v \<Rightarrow> Some (v, k) | SeqBeat v \<Rightarrow> Some (v, k))"

lemma prev_at_iff:
  "prev_at e k = Some (v, p) \<longleftrightarrow> p < k \<and> seeds (e p) = Some v \<and> (\<forall>j. p < j \<and> j < k \<longrightarrow> e j = SeqIdle)"
proof (induction k)
  case (Suc k)
  show ?case
  proof (cases "e k")
    case SeqUnknown
    then show ?thesis by (auto simp: seeds_def less_Suc_eq)
  next
    case SeqIdle
    then show ?thesis using Suc by (auto simp: seeds_def less_Suc_eq)
  next
    case (SeqRestart w)
    then show ?thesis by (auto simp: seeds_def less_Suc_eq)
  next
    case (SeqBeat w)
    then show ?thesis by (auto simp: seeds_def less_Suc_eq)
  qed
qed simp

definition step_checked :: "(nat \<Rightarrow> seq_event) \<Rightarrow> nat \<Rightarrow> bool" where
  "step_checked e i \<longleftrightarrow> (\<exists>cur. e i = SeqBeat cur) \<and> prev_at e i \<noteq> None"

definition step_wrong :: "vdelta \<Rightarrow> (nat \<Rightarrow> seq_event) \<Rightarrow> nat \<Rightarrow> bool" where
  "step_wrong d e i \<longleftrightarrow> (\<exists>cur v p. e i = SeqBeat cur \<and> prev_at e i = Some (v, p) \<and>
     \<not> compare_op (increment d cur v) (dl_op d) (dl_value d))"

definition step_evidence :: "vdelta \<Rightarrow> (nat \<Rightarrow> vsample) \<Rightarrow> (nat \<Rightarrow> seq_event) \<Rightarrow> nat \<Rightarrow> vevidence" where
  "step_evidence d S e i = (let cur = the (seeds (e i)); (v, p) = the (prev_at e i)
     in seq_evidence (S i) i d cur v p (increment d cur v))"

lemma seq_cycle_exact:
  assumes "sq_prev st = prev_at e i"
  shows "sq_prev (seq_cycle d i (S i) (e i) st) = prev_at e (Suc i)"
    "sq_unknown (seq_cycle d i (S i) (e i) st) = sq_unknown st + (if e i = SeqUnknown then 1 else 0)"
    "sq_beats (seq_cycle d i (S i) (e i) st) = sq_beats st + (if step_checked e i then 1 else 0)"
    "sq_violations (seq_cycle d i (S i) (e i) st) = sq_violations st + (if step_wrong d e i then 1 else 0)"
    "sq_first (seq_cycle d i (S i) (e i) st) =
       (if step_wrong d e i then keep_first (sq_first st) (Some (step_evidence d S e i)) else sq_first st)"
  using assms
  by (cases "e i"; cases "prev_at e i";
      simp add: seq_cycle_def step_checked_def step_wrong_def Let_def first_of_keep step_evidence_def seeds_def split: prod.split)+

lemma seq_loop_exact:
  assumes "\<And>i. i < length ss \<Longrightarrow> ss ! i = S (k + i) \<and> seq_event_at gate d (vs_signals (ss ! i)) = Inr (e (k + i))"
    "sq_prev st = prev_at e k"
  shows "\<exists>st'. seq_loop gate d k ss st = Inr st' \<and>
    sq_unknown st' = sq_unknown st + length (filter (\<lambda>i. e i = SeqUnknown) (cycles_of k ss)) \<and>
    sq_beats st' = sq_beats st + length (filter (step_checked e) (cycles_of k ss)) \<and>
    sq_violations st' = sq_violations st + length (filter (step_wrong d e) (cycles_of k ss)) \<and>
    sq_first st' = keep_first (sq_first st) (map_option (step_evidence d S e) (find (step_wrong d e) (cycles_of k ss)))"
  using assms
proof (induction ss arbitrary: k st)
  case Nil
  then show ?case by (simp add: cycles_of_def)
next
  case (Cons s ss)
  have s: "s = S k" "seq_event_at gate d (vs_signals s) = Inr (e k)" using Cons.prems(1) [of 0] by auto
  have tail: "ss ! i = S (Suc k + i) \<and> seq_event_at gate d (vs_signals (ss ! i)) = Inr (e (Suc k + i))" if "i < length ss" for i
    using Cons.prems(1) [of "Suc i"] that by auto
  have cyc: "cycles_of k (s # ss) = k # cycles_of (Suc k) ss"
    by (simp add: cycles_of_def upt_conv_Cons del: upt_Suc)
  let ?st = "seq_cycle d k (S k) (e k) st"
  note c = seq_cycle_exact [OF Cons.prems(2), of d S]
  obtain st' where run: "seq_loop gate d (Suc k) ss ?st = Inr st'" and
    r: "sq_unknown st' = sq_unknown ?st + length (filter (\<lambda>i. e i = SeqUnknown) (cycles_of (Suc k) ss))"
    "sq_beats st' = sq_beats ?st + length (filter (step_checked e) (cycles_of (Suc k) ss))"
    "sq_violations st' = sq_violations ?st + length (filter (step_wrong d e) (cycles_of (Suc k) ss))"
    "sq_first st' = keep_first (sq_first ?st) (map_option (step_evidence d S e) (find (step_wrong d e) (cycles_of (Suc k) ss)))"
    using Cons.IH [of "Suc k" ?st, OF tail c(1)] by auto
  have "seq_loop gate d k (s # ss) st = Inr st'" using run s by simp
  then show ?case by (intro exI [of _ st'] conjI) (simp_all add: r c cyc keep_first_assoc)
qed

section \<open>Properties\<close>

text \<open>Samples for the witnesses: one wire, whose value is unknown where the argument says \<open>None\<close>.\<close>

definition level :: "bool option \<Rightarrow> sval" where
  "level b = (case b of None \<Rightarrow> \<lparr>sv_hex = None, sv_bin = Some ''x'', sv_dec = None\<rparr>
     | Some v \<Rightarrow> \<lparr>sv_hex = None, sv_bin = Some (if v then ''1'' else ''0''), sv_dec = Some (if v then 1 else 0)\<rparr>)"

definition trace_of :: "(bool option \<times> bool option) list \<Rightarrow> vsample list" where
  "trace_of bs = map (\<lambda>(i, a, b). \<lparr>vs_time = int i * 10,
     vs_signals = (\<lambda>p. if p = ''a'' then Some (level a) else if p = ''b'' then Some (level b) else None)\<rparr>)
     (zip [0..<length bs] bs)"

definition is_high :: "string \<Rightarrow> vterm list" where
  "is_high p = [\<lparr>vt_signal = p, vt_op = ''eq'', vt_value = JInt 1\<rparr>]"

definition sample_trace :: "vsample list" where
  "sample_trace = trace_of [(Some True, Some False), (Some False, Some True), (Some True, None), (Some False, Some False)]"

definition sample_a :: "nat \<Rightarrow> bool option" where
  "sample_a i = [Some True, Some False, Some True, Some False] ! i"

definition sample_b :: "nat \<Rightarrow> bool option" where
  "sample_b i = [Some False, Some True, None, Some False] ! i"

lemma all_less_4: "(\<forall>i<4::nat. P i) \<longleftrightarrow> P 0 \<and> P 1 \<and> P 2 \<and> P 3"
  by (auto simp: less_Suc_eq numeral_eq_Suc)

lemma sample_verdicts: "verdicts (is_high ''a'') sample_trace sample_a" "verdicts (is_high ''b'') sample_trace sample_b"
proof -
  have "length sample_trace = 4" by code_simp
  moreover have "predicate_at (is_high ''a'') sample_trace 0 = Inr (sample_a 0)" "predicate_at (is_high ''a'') sample_trace 1 = Inr (sample_a 1)"
    "predicate_at (is_high ''a'') sample_trace 2 = Inr (sample_a 2)" "predicate_at (is_high ''a'') sample_trace 3 = Inr (sample_a 3)"
    "predicate_at (is_high ''b'') sample_trace 0 = Inr (sample_b 0)" "predicate_at (is_high ''b'') sample_trace 1 = Inr (sample_b 1)"
    "predicate_at (is_high ''b'') sample_trace 2 = Inr (sample_b 2)" "predicate_at (is_high ''b'') sample_trace 3 = Inr (sample_b 3)"
    by code_simp+
  ultimately show "verdicts (is_high ''a'') sample_trace sample_a" "verdicts (is_high ''b'') sample_trace sample_b"
    unfolding verdicts_def by (simp_all only: all_less_4)
qed

text \<open>C35. The modes \<open>always\<close>, \<open>never\<close> and \<open>eventually\<close> decide their template on the known cycles:
  \<open>always\<close> fails exactly when some cycle is known false and reports the first of them, \<open>never\<close>
  likewise for known true, \<open>eventually\<close> holds exactly when some cycle is known true and reports the
  first of them; an unknown cycle counts for neither side and is counted once.\<close>

theorem simple_modes_exact:
  assumes "verdicts terms samples p"
  shows "\<exists>r. eval_simple samples mode terms = Inr r \<and>
    vw_unknown r = card {i. i < length samples \<and> p i = None} \<and>
    (mode = ''always'' \<longrightarrow> vw_holds r = (\<forall>i < length samples. p i \<noteq> Some False) \<and>
       vw_counterexample r = first_cycle samples terms (\<lambda>i. p i = Some False)) \<and>
    (mode = ''never'' \<longrightarrow> vw_holds r = (\<forall>i < length samples. p i \<noteq> Some True) \<and>
       vw_counterexample r = first_cycle samples terms (\<lambda>i. p i = Some True)) \<and>
    (mode = ''eventually'' \<longrightarrow> vw_holds r = (\<exists>i < length samples. p i = Some True) \<and>
       vw_witness r = first_cycle samples terms (\<lambda>i. p i = Some True))"
  unfolding eval_simple_exact [OF assms, of mode] by (simp add: Let_def)

theorem simple_modes_exact_witness:
  "\<exists>r. eval_simple sample_trace ''always'' (is_high ''b'') = Inr r \<and> \<not> vw_holds r"
proof -
  have "length sample_trace = 4" "sample_b 0 = Some False" by code_simp+
  then show ?thesis using simple_modes_exact [OF sample_verdicts(2), of "''always''"] by (auto intro!: exI [of _ 0])
qed

text \<open>C36. The mode \<open>implication\<close> decides its template: with \<open>a\<close> and \<open>c\<close> the verdicts of antecedent
  and consequent, a violation is an antecedent cycle whose whole response window lies in the trace
  with every response known false, an inconclusive one has neither a response nor such a
  refutation; the counts are exact, the counterexample is the first violation, and the verdict
  is vacuous exactly when every antecedent was answered in its own cycle although later ones were
  allowed.\<close>

theorem implication_exact:
  fixes samples a c
  defines "n \<equiv> length samples"
  assumes "verdicts antecedent samples a" "verdicts consequent samples c"
  shows "\<exists>r. eval_implication samples antecedent consequent within overlap = Inr r \<and>
    vw_antecedents r = card {i. i < n \<and> a i = Some True} \<and>
    vw_violations r = card {i. i < n \<and> a i = Some True \<and> refuted n within overlap c i} \<and>
    vw_inconclusive r = card {i. i < n \<and> a i = Some True \<and> \<not> responds n within overlap c i \<and> \<not> refuted n within overlap c i} \<and>
    vw_counterexample r = first_cycle samples antecedent (\<lambda>i. a i = Some True \<and> refuted n within overlap c i) \<and>
    vw_holds r = (\<forall>i<n. a i = Some True \<longrightarrow> \<not> refuted n within overlap c i) \<and>
    vw_vacuous r = (overlap \<and> 1 \<le> within \<and> (\<exists>i<n. a i = Some True) \<and> (\<forall>i<n. a i = Some True \<longrightarrow> c i = Some True))"
  using eval_implication_exact [OF assms(2,3), of within overlap] unfolding n_def by blast

theorem implication_exact_witness:
  "\<exists>r. eval_implication sample_trace (is_high ''a'') (is_high ''b'') 1 True = Inr r \<and> vw_holds r"
proof -
  have len: "length sample_trace = 4" by code_simp
  have s: "sample_a 0 = Some True" "sample_a 1 = Some False" "sample_a 2 = Some True" "sample_a 3 = Some False"
    "sample_b 1 = Some True" "sample_b 2 = None" by code_simp+
  have "\<not> refuted 4 1 True sample_b 0" "\<not> refuted 4 1 True sample_b 2"
    using s by (auto simp: refuted_def in_window_def intro: exI [of _ "1::nat"] exI [of _ "2::nat"])
  then have "\<forall>i<4. sample_a i = Some True \<longrightarrow> \<not> refuted 4 1 True sample_b i" unfolding all_less_4 using s by simp
  then show ?thesis using implication_exact [OF sample_verdicts, of 1 True] unfolding len by blast
qed

text \<open>C4. The verdict of \<open>implication\<close> is honest about unknown values: whatever booleans \<open>a'\<close> and \<open>c'\<close>
  the unknown cycles would turn out to be, a reported violation is a violation of the template,
  and a verdict \<open>holds\<close> with complete coverage means that every antecedent is answered in time.\<close>

theorem implication_faithful:
  assumes "verdicts antecedent samples a" "verdicts consequent samples c"
    "\<forall>i b. a i = Some b \<longrightarrow> a' i = b" "\<forall>i b. c i = Some b \<longrightarrow> c' i = b"
    "eval_implication samples antecedent consequent within overlap = Inr r"
  shows "(\<not> vw_holds r \<longrightarrow> (\<exists>i < length samples. a' i \<and> i + within < length samples \<and>
      (\<forall>j. in_window within overlap i j \<longrightarrow> \<not> c' j))) \<and>
    (vw_holds r \<and> vw_coverage False r = ''complete'' \<longrightarrow>
      (\<forall>i < length samples. a' i \<longrightarrow> (\<exists>j < length samples. in_window within overlap i j \<and> c' j)))"
proof -
  let ?n = "length samples"
  have r: "vw_inconclusive r = card {i. i < ?n \<and> a i = Some True \<and> \<not> responds ?n within overlap c i \<and> \<not> refuted ?n within overlap c i}"
    "vw_holds r = (\<forall>i<?n. a i = Some True \<longrightarrow> \<not> refuted ?n within overlap c i)"
    "vw_unknown r = card (\<Union>i<?n. unknown_by ?n within overlap a c i)"
    using eval_implication_exact [OF assms(1,2), of within overlap] assms(5) by auto
  have "\<exists>i < ?n. a' i \<and> i + within < ?n \<and> (\<forall>j. in_window within overlap i j \<longrightarrow> \<not> c' j)" if "\<not> vw_holds r"
    using that assms(3,4) unfolding r(2) refuted_def by (metis (full_types))
  moreover have "\<exists>j < ?n. in_window within overlap i j \<and> c' j"
    if h: "vw_holds r" "vw_coverage False r = ''complete''" "i < ?n" "a' i" for i
  proof -
    have z: "vw_inconclusive r = 0" "vw_unknown r = 0" using h(2) by (auto simp: vw_coverage_def split: if_splits)
    have fin: "finite (\<Union>i<?n. unknown_by ?n within overlap a c i)"
      by (auto simp: unknown_by_def)
    have "i \<notin> unknown_by ?n within overlap a c i" using z(2) fin h(3) unfolding r(3) by auto
    then have "a i = Some True" using assms(3) h(4) by (cases "a i") (auto simp: unknown_by_def)
    moreover have "\<not> refuted ?n within overlap c i" using h(1,3) calculation unfolding r(2) by blast
    ultimately have "responds ?n within overlap c i" using z(1) h(3) unfolding r(1) by auto
    then show ?thesis using assms(4) by (auto simp: responds_def)
  qed
  ultimately show ?thesis by blast
qed

theorem implication_faithful_witness:
  "\<exists>i < 4. sample_a i = Some True \<and> i + 0 < (4::nat)"
proof -
  define a' where "a' i = (sample_a i = Some True)" for i
  define c' where "c' i = (sample_b i = Some True)" for i
  obtain r where r: "eval_implication sample_trace (is_high ''a'') (is_high ''b'') 0 True = Inr r"
    "vw_holds r = (\<forall>i<length sample_trace. sample_a i = Some True \<longrightarrow> \<not> refuted (length sample_trace) 0 True sample_b i)"
    using implication_exact [OF sample_verdicts, of 0 True] by blast
  have len: "length sample_trace = 4" and s: "sample_a 0 = Some True" "sample_b 0 = Some False" by code_simp+
  have "refuted 4 0 True sample_b 0" using s by (auto simp: refuted_def in_window_def)
  then have "\<not> vw_holds r" unfolding r(2) len using s by (auto intro!: exI [of _ 0])
  moreover have "\<forall>i b. sample_a i = Some b \<longrightarrow> a' i = b" "\<forall>i b. sample_b i = Some b \<longrightarrow> c' i = b"
    by (simp_all add: a'_def c'_def)
  ultimately show ?thesis
    using implication_faithful [OF sample_verdicts _ _ r(1), of a' c'] unfolding len a'_def by blast
qed

text \<open>C37. The mode \<open>sequence\<close> checks exactly the increments between consecutive accepted beats: cycle \<open>i\<close>
  is checked against cycle \<open>p\<close> when \<open>i\<close> is a known accepted beat that does not restart the sequence, \<open>p\<close>
  is the nearest earlier accepted beat, and every cycle between them is known not to be a beat; so
  no increment is ever taken across an unknown value or a restart. The counts are exact and the
  counterexample is the first wrong increment.\<close>

theorem sequence_exact:
  fixes samples gate d e
  defines "n \<equiv> length samples"
  defines "link \<equiv> (\<lambda>p i v cur. p < i \<and> seeds (e p) = Some v \<and> e i = SeqBeat cur \<and> (\<forall>j. p < j \<and> j < i \<longrightarrow> e j = SeqIdle))"
  defines "wrong \<equiv> (\<lambda>i. \<exists>p v cur. link p i v cur \<and> \<not> compare_op (increment d cur v) (dl_op d) (dl_value d))"
  assumes "\<forall>i < length samples. seq_event_at gate d (vs_signals (samples ! i)) = Inr (e i)"
  shows "\<exists>r. eval_sequence samples gate d = Inr r \<and>
    vw_unknown r = card {i. i < n \<and> e i = SeqUnknown} \<and>
    vw_beats r = card {i. i < n \<and> (\<exists>p v cur. link p i v cur)} \<and>
    vw_violations r = card {i. i < n \<and> wrong i} \<and>
    vw_holds r = (\<forall>i<n. \<not> wrong i) \<and>
    (\<forall>ev. vw_counterexample r = Some ev \<longrightarrow> (\<exists>i p v cur. i < n \<and> (\<forall>j<i. \<not> wrong j) \<and> link p i v cur \<and>
       ev = seq_evidence (samples ! i) i d cur v p (increment d cur v)))"
proof -
  have ev: "\<And>i. i < length samples \<Longrightarrow> samples ! i = samples ! (0 + i) \<and> seq_event_at gate d (vs_signals (samples ! i)) = Inr (e (0 + i))"
    using assms(4) by simp
  have p0: "sq_prev seq_init = prev_at e 0" by (simp add: seq_init_def)
  obtain st where run: "seq_loop gate d 0 samples seq_init = Inr st" and
    r: "sq_unknown st = length (filter (\<lambda>i. e i = SeqUnknown) [0..<n])"
    "sq_beats st = length (filter (step_checked e) [0..<n])"
    "sq_violations st = length (filter (step_wrong d e) [0..<n])"
    "sq_first st = map_option (step_evidence d ((!) samples) e) (find (step_wrong d e) [0..<n])"
    using seq_loop_exact [of samples "(!) samples" 0 gate d e, OF ev p0] by (auto simp: cycles_of_def n_def seq_init_def)
  have chk: "step_checked e = (\<lambda>i. \<exists>p v cur. link p i v cur)"
  proof (rule ext)
    fix i
    have "prev_at e i \<noteq> None \<longleftrightarrow> (\<exists>v p. prev_at e i = Some (v, p))" by auto
    then show "step_checked e i = (\<exists>p v cur. link p i v cur)"
      unfolding step_checked_def link_def prev_at_iff by blast
  qed
  have wr: "step_wrong d e = wrong"
    unfolding step_wrong_def wrong_def link_def prev_at_iff by blast
  have first: "\<exists>i p v cur. i < n \<and> (\<forall>j<i. \<not> wrong j) \<and> link p i v cur \<and>
       x = seq_evidence (samples ! i) i d cur v p (increment d cur v)" if x: "sq_first st = Some x" for x
  proof -
    obtain i where i: "find wrong [0..<n] = Some i" "x = step_evidence d ((!) samples) e i"
      using x by (auto simp: r wr)
    have i': "i < n" "wrong i" "\<forall>j<i. \<not> wrong j" using i(1) by (auto simp: find_Some_iff)
    obtain p v cur where l: "link p i v cur" using i'(2) by (auto simp: wrong_def)
    then have "prev_at e i = Some (v, p)" "seeds (e i) = Some cur" unfolding link_def prev_at_iff by (auto simp: seeds_def)
    then have "x = seq_evidence (samples ! i) i d cur v p (increment d cur v)" by (simp add: i(2) step_evidence_def)
    then show ?thesis using i' l by blast
  qed
  have h: "(sq_violations st = 0) = (\<forall>i<n. \<not> wrong i)" by (auto simp: r wr filter_empty_conv)
  show ?thesis unfolding eval_sequence_def run
    using first h by (simp add: r(1,2,3) chk wr length_filter_upt n_def)
qed

definition stride_delta :: vdelta where
  "stride_delta = \<lparr>dl_signal = ''a'', dl_op = ''eq'', dl_value = 1, dl_modulo = None, dl_restart = []\<rparr>"

definition stride_events :: "nat \<Rightarrow> seq_event" where
  "stride_events i = [SeqBeat 0, SeqBeat 1, SeqUnknown, SeqBeat 0] ! i"

definition stride_trace :: "vsample list" where
  "stride_trace = trace_of [(Some False, Some True), (Some True, Some True), (None, Some True), (Some False, Some True)]"

theorem sequence_exact_witness:
  "\<exists>r. eval_sequence stride_trace (is_high ''b'') stride_delta = Inr r \<and> vw_unknown r = 1"
proof -
  have len: "length stride_trace = 4" by code_simp
  have "seq_event_at (is_high ''b'') stride_delta (vs_signals (stride_trace ! 0)) = Inr (stride_events 0)"
    "seq_event_at (is_high ''b'') stride_delta (vs_signals (stride_trace ! 1)) = Inr (stride_events 1)"
    "seq_event_at (is_high ''b'') stride_delta (vs_signals (stride_trace ! 2)) = Inr (stride_events 2)"
    "seq_event_at (is_high ''b'') stride_delta (vs_signals (stride_trace ! 3)) = Inr (stride_events 3)"
    by code_simp+
  then have e: "\<forall>i < length stride_trace. seq_event_at (is_high ''b'') stride_delta (vs_signals (stride_trace ! i)) = Inr (stride_events i)"
    unfolding len by (simp only: all_less_4)
  have "length (filter (\<lambda>i. stride_events i = SeqUnknown) [0..<4]) = 1" by code_simp
  then have "card {i. i < 4 \<and> stride_events i = SeqUnknown} = 1" by (simp only: length_filter_upt)
  then show ?thesis using sequence_exact [OF e] unfolding len by auto
qed

section \<open>Errors\<close>

definition legal_bits :: "signals \<Rightarrow> bool" where
  "legal_bits sigs \<longleftrightarrow> (\<forall>p s b. sigs p = Some s \<longrightarrow> sv_bin s = Some b \<longrightarrow> is_ok (mk_value b False))"

lemma first_some_None: "first_some xs = None \<Longrightarrow> x \<in> set xs \<Longrightarrow> x = None"
  by (induction xs rule: first_some.induct) auto

lemma ops_split: "set TERM_OPS = set VALUE_OPS \<union> {''is_x'', ''is_known'', ''truth''}"
  unfolding TERM_OPS_def VALUE_OPS_def list.set Un_insert_left Un_empty_left ..

lemma ops_apart: "''truth'' \<notin> set VALUE_OPS" "''is_x'' \<notin> set VALUE_OPS" "''is_known'' \<notin> set VALUE_OPS"
  by code_simp+

lemma eval_term_ok:
  assumes "vt_op t \<in> set TERM_OPS" "vt_op t \<in> set VALUE_OPS \<longrightarrow> is_ok (coerce_int (vt_value t))" "legal_bits sigs"
  shows "\<exists>r. eval_term t sigs = Inr r"
proof -
  have bits: "\<exists>w. mk_value b False = Inr w" if "sigs (vt_signal t) = Some s" "sv_bin s = Some b" for s b
    using that assms(3) by (auto simp: legal_bits_def is_ok_iff)
  consider "vt_op t = ''truth''" | "vt_op t = ''is_x''" | "vt_op t = ''is_known''" | "vt_op t \<in> set VALUE_OPS"
    using assms(1) ops_split by blast
  then show ?thesis
  proof cases
    case 1
    show ?thesis
    proof (cases "sigs (vt_signal t)")
      case None
      then show ?thesis using 1 by (simp add: eval_term_def)
    next
      case (Some s)
      show ?thesis
      proof (cases "sv_bin s")
        case None
        then show ?thesis using 1 Some by (simp add: eval_term_def)
      next
        case b: (Some b)
        then show ?thesis using bits [OF Some b] 1 Some by (auto simp: eval_term_def)
      qed
    qed
  next
    case 4
    then obtain k where "coerce_int (vt_value t) = Inr k" using assms(2) by (auto simp: is_ok_iff)
    moreover have "vt_op t \<noteq> ''truth''" "vt_op t \<noteq> ''is_x''" "vt_op t \<noteq> ''is_known''"
      using 4 ops_apart by metis+
    ultimately show ?thesis using 4 by (simp add: eval_term_def Let_def split: option.splits)
  qed (simp_all add: eval_term_def Let_def)
qed

lemma validated_term:
  assumes "validate_term label t = None" "read_term f t = Inr v"
  shows "vt_op v \<in> set TERM_OPS \<and> (vt_op v \<in> set VALUE_OPS \<longrightarrow> is_ok (coerce_int (vt_value v)))"
proof -
  obtain kvs where t: "t = JObj kvs" using assms(1) by (cases t) (simp_all add: validate_term_def)
  obtain s p where sp: "map_of kvs ''signal'' = Some s" "map_of kvs ''op'' = Some p"
    using assms(1) unfolding t validate_term_def by (auto split: option.splits)
  have ops: "json_in p TERM_OPS" using assms(1) sp unfolding t validate_term_def by (simp split: if_splits)
  have vals: "json_in p VALUE_OPS \<longrightarrow> (\<exists>w k. map_of kvs ''value'' = Some w \<and> coerce_int w = Inr k)"
    using assms(1) sp ops unfolding t validate_term_def by (simp split: if_splits option.splits sum.splits)
  obtain s' p' where v: "p = JStr p'" "v = \<lparr>vt_signal = f s', vt_op = p',
      vt_value = (case map_of kvs ''value'' of None \<Rightarrow> JNull | Some w \<Rightarrow> w)\<rparr>"
    using assms(2) sp unfolding t read_term_def by (auto simp: json_simps split: json.splits)
  show ?thesis using ops vals by (auto simp: v json_in_def)
qed

lemma eval_terms_ok:
  "(\<And>t. t \<in> set ts \<Longrightarrow> \<exists>r. eval_term t sigs = Inr r) \<Longrightarrow> \<exists>r. eval_terms ts sigs b = Inr r"
proof (induction ts arbitrary: b)
  case (Cons t ts)
  obtain r where r: "eval_term t sigs = Inr r" using Cons.prems by auto
  obtain r' where "eval_terms ts sigs (b \<or> r = None) = Inr r'" using Cons.IH [of "b \<or> r = None"] Cons.prems by auto
  then show ?case using r by simp
qed simp

text \<open>C38. Validation rules out the errors of evaluation: a list of terms that \<open>_validate_terms\<close>
  accepted evaluates to a verdict on every cycle whose recorded bit strings are legal values;
  neither an operator nor a comparison value can raise there.\<close>

theorem validated_terms_evaluate:
  assumes "validate_terms (JArr ts) label = None" "read_terms f (JArr ts) = Inr vts" "legal_bits sigs"
  shows "\<exists>r. eval_predicate vts sigs = Inr r"
proof -
  have v: "validate_term label t = None" if "t \<in> set ts" for t
    using assms(1) that first_some_None [of "map (validate_term label) ts" "validate_term label t"]
    by (simp add: validate_terms_def split: if_splits)
  have m: "mapM (read_term f) ts = Inr vts" using assms(2) by (simp add: read_terms_def)
  have "\<exists>r. eval_term t sigs = Inr r" if "t \<in> set vts" for t
  proof -
    have l: "list_all2 (\<lambda>x y. read_term f x = Inr y) ts vts" using m by (simp only: mapM_Inr_iff)
    obtain i where "i < length vts" "vts ! i = t" using \<open>t \<in> set vts\<close> by (auto simp: in_set_conv_nth)
    then have i: "i < length ts" "t = vts ! i" "read_term f (ts ! i) = Inr t"
      using list_all2_nthD2 [OF l] list_all2_lengthD [OF l] by auto
    then have "validate_term label (ts ! i) = None" using v nth_mem by blast
    from validated_term [OF this i(3)] show ?thesis using eval_term_ok assms(3) by blast
  qed
  then show ?thesis unfolding eval_predicate_def by (rule eval_terms_ok)
qed

theorem validated_terms_evaluate_witness:
  "\<exists>r. eval_predicate [\<lparr>vt_signal = ''a'', vt_op = ''ge'', vt_value = JStr ''0x10''\<rparr>] (\<lambda>_. None) = Inr r"
proof -
  let ?ts = "[JObj [(''signal'', JStr ''a''), (''op'', JStr ''ge''), (''value'', JStr ''0x10'')]]"
  have "validate_terms (JArr ?ts) ''predicate'' = None"
    "read_terms id (JArr ?ts) = Inr [\<lparr>vt_signal = ''a'', vt_op = ''ge'', vt_value = JStr ''0x10''\<rparr>]" by code_simp+
  moreover have "legal_bits (\<lambda>_. None)" by (simp add: legal_bits_def)
  ultimately show ?thesis by (rule validated_terms_evaluate)
qed

end
