(* ===== verification/Sv_Parse.thy ===== *)
theory Sv_Parse
  imports Dyn_Expr
begin

text \<open>
  The tokenizer and the parser of src/src/expression_parser.py.

  \<^item> The regular expression \<open>_TOKEN\<close> is an ordered alternative of deterministic patterns;
    \<open>next_lexeme\<close> tries them in the same order at the start of the remaining text.
  \<^item> \<open>Parser\<close> is a state (the remaining tokens, the number of nodes made) threaded through the
    methods; the remaining tokens end with \<open><end>\<close>. \<open>p_expr r\<close> is \<open>expression\<close> at depth
    \<open>MAX_EXPR_DEPTH + 1 - r\<close>.
  \<^item> The \<open>while\<close> loops run on fuel, the number of remaining tokens: every iteration takes one.
    Running out of it would be \<open>IllTyped\<close>, reading past the end \<open>IndexError\<close>; neither happens
    (\<open>parse_total\<close> in Sv_Claims).
  \<^item> An \<open>ExpressionError\<close> is its reason code; its message and position are for display.
\<close>

definition MAX_TEXT :: int where
  "MAX_TEXT = 16384"

section \<open>Tokens\<close>

definition QUOTE :: char where
  "QUOTE = char_of (39 :: nat)"

definition BACKSLASH :: char where
  "BACKSLASH = char_of (92 :: nat)"

definition NEWLINE :: char where
  "NEWLINE = char_of (10 :: nat)"

definition is_letter :: "char \<Rightarrow> bool" where
  "is_letter c \<longleftrightarrow> (let n = (of_char c :: nat) in 65 \<le> n \<and> n \<le> 90 \<or> 97 \<le> n \<and> n \<le> 122)"

definition id_start :: "char \<Rightarrow> bool" where
  "id_start c \<longleftrightarrow> is_letter c \<or> c = CHR ''_'' \<or> c = CHR ''$''"

definition id_char :: "char \<Rightarrow> bool" where
  "id_char c \<longleftrightarrow> id_start c \<or> is_digit c"

definition number_char :: "char \<Rightarrow> bool" where
  "number_char c \<longleftrightarrow> is_digit c \<or> c = CHR ''_''"

definition payload_char :: "char \<Rightarrow> bool" where
  "payload_char c \<longleftrightarrow> number_char c \<or> c \<in> set ''abcdefABCDEFxXzZ?''"

text \<open>The text up to and including the first \<open>*/\<close>.\<close>

fun until_close :: "string \<Rightarrow> string option" where
  "until_close [] = None"
| "until_close [c] = None"
| "until_close (c # d # cs) =
     (if c = CHR ''*'' \<and> d = CHR ''/'' then Some [c, d] else map_option (Cons c) (until_close (d # cs)))"

definition nonempty :: "string \<Rightarrow> string option" where
  "nonempty s = (if s = [] then None else Some s)"

definition lex_space :: "string \<Rightarrow> string option" where
  "lex_space s = nonempty (takeWhile is_space s)"

definition lex_comment :: "string \<Rightarrow> string option" where
  "lex_comment s =
     (if starts_with ''//'' s then Some (''//'' @ takeWhile (\<lambda>c. c \<noteq> NEWLINE) (drop 2 s))
      else if starts_with ''/*'' s then map_option ((@) ''/*'') (until_close (drop 2 s))
      else None)"

text \<open>The part of a based literal from the quote on.\<close>

definition lex_based_tail :: "string \<Rightarrow> string option" where
  "lex_based_tail s = (case s of [] \<Rightarrow> None | q # s1 \<Rightarrow> if q \<noteq> QUOTE then None
     else (let sg = (case s1 of [] \<Rightarrow> [] | c # _ \<Rightarrow> if c \<in> set ''sS'' then [c] else []);
               s2 = drop (length sg) s1
           in case s2 of [] \<Rightarrow> None | b # s3 \<Rightarrow> if b \<notin> set ''bBoOdDhH'' then None
              else map_option (\<lambda>p. q # sg @ b # p) (nonempty (takeWhile payload_char s3))))"

definition digit_run :: "string \<Rightarrow> string" where
  "digit_run s = (case s of [] \<Rightarrow> [] | c # _ \<Rightarrow> if is_digit c then takeWhile number_char s else [])"

definition lex_based :: "string \<Rightarrow> string option" where
  "lex_based s = (let d = digit_run s in map_option ((@) d) (lex_based_tail (drop (length d) s)))"

definition lex_fill :: "string \<Rightarrow> string option" where
  "lex_fill s = (case s of q # c # _ \<Rightarrow> if q = QUOTE \<and> c \<in> set ''01xXzZ'' then Some [q, c] else None | _ \<Rightarrow> None)"

definition lex_decimal :: "string \<Rightarrow> string option" where
  "lex_decimal s = nonempty (digit_run s)"

definition lex_escaped :: "string \<Rightarrow> string option" where
  "lex_escaped s = (case s of [] \<Rightarrow> None | c # cs \<Rightarrow> if c \<noteq> BACKSLASH then None
     else map_option (Cons c) (nonempty (takeWhile (\<lambda>d. \<not> is_space d) cs)))"

definition lex_name :: "string \<Rightarrow> string option" where
  "lex_name s = (case s of [] \<Rightarrow> None | c # _ \<Rightarrow> if id_start c then Some (takeWhile id_char s) else None)"

definition LONG_OPS :: "string list" where
  "LONG_OPS = [''==='', ''!=='', ''==?'', ''!=?'', ''<<<'', ''>>>'', ''<->'', ''++'', ''--'', ''**'', ''&&'', ''||'',
     ''<<'', ''>>'', ''<='', ''>='', ''=='', ''!='', ''~&'', ''~|'', ''~^'', ''^~'', ''+:'', ''-:'', ''::'', ''->'']"

definition SHORT_OPS :: "char list" where
  "SHORT_OPS = ''(){}[],.?:+*/%&|^~!<>-'' @ [QUOTE]"

definition lex_operator :: "string \<Rightarrow> string option" where
  "lex_operator s = (case find (\<lambda>p. starts_with p s) LONG_OPS of Some p \<Rightarrow> Some p
     | None \<Rightarrow> (case s of [] \<Rightarrow> None | c # _ \<Rightarrow> if c \<in> set SHORT_OPS then Some [c] else None))"

definition or_else :: "'a option \<Rightarrow> 'a option \<Rightarrow> 'a option" where
  "or_else x y = (case x of None \<Rightarrow> y | Some a \<Rightarrow> Some a)"

definition next_lexeme :: "string \<Rightarrow> string option" where
  "next_lexeme s = or_else (lex_space s) (or_else (lex_comment s) (or_else (lex_based s) (or_else (lex_fill s)
     (or_else (lex_decimal s) (or_else (lex_escaped s) (or_else (lex_name s) (lex_operator s)))))))"

definition skipped :: "string \<Rightarrow> bool" where
  "skipped t \<longleftrightarrow> list_all is_space t \<or> starts_with ''//'' t \<or> starts_with ''/*'' t"

definition MAX_TOKENS :: int where
  "MAX_TOKENS = 2048"

text \<open>The loop of \<open>Parser.__init__\<close>; the fuel is the length of the text, a lexeme is never empty.\<close>

fun lex_loop :: "nat \<Rightarrow> string \<Rightarrow> string list \<Rightarrow> string list result" where
  "lex_loop fuel [] toks = Inr (toks @ [''<end>''])"
| "lex_loop 0 (c # cs) toks = Inl IllTyped"
| "lex_loop (Suc fuel) (c # cs) toks = (case next_lexeme (c # cs) of
     None \<Rightarrow> Inl (ExpressionError ''expression_invalid_token'')
   | Some t \<Rightarrow> (let rest = drop (length t) (c # cs) in
       if skipped t then lex_loop fuel rest toks
       else if MAX_TOKENS < int (length toks + 1) then Inl (ExpressionError ''dynamic_expression_limit'')
       else lex_loop fuel rest (toks @ [t])))"

definition tokenize :: "string \<Rightarrow> string list result" where
  "tokenize text =
     (if strip text = [] \<or> MAX_TEXT < int (length text) then Inl (ExpressionError ''expression_text_limit'')
      else lex_loop (length text) text [])"

section \<open>Syntax trees and the state of the parser\<close>

datatype stree = Syn (sy_op: string) (sy_args: "stree list") (sy_text: string)

type_synonym ('s, 'a) run = "'s \<Rightarrow> ('a \<times> 's) result"
type_synonym pstate = "string list \<times> nat"
type_synonym 'a parser = "(pstate, 'a) run"

definition preturn :: "'a \<Rightarrow> ('s, 'a) run" where
  "preturn x = (\<lambda>s. Inr (x, s))"

definition pbind :: "('s, 'a) run \<Rightarrow> ('a \<Rightarrow> ('s, 'b) run) \<Rightarrow> ('s, 'b) run" where
  "pbind p f = (\<lambda>s. ebind (p s) (\<lambda>(x, s'). f x s'))"

definition pfail :: "py_error \<Rightarrow> ('s, 'a) run" where
  "pfail e = (\<lambda>s. Inl e)"

text \<open>A computation that leaves the state alone.\<close>

definition plift :: "'a result \<Rightarrow> ('s, 'a) run" where
  "plift r = (\<lambda>s. ebind r (\<lambda>x. Inr (x, s)))"

definition p_peek :: "string parser" where
  "p_peek = (\<lambda>(ts, n). case ts of [] \<Rightarrow> Inl IndexError | t # _ \<Rightarrow> Inr (t, (ts, n)))"

definition p_take :: "string option \<Rightarrow> string parser" where
  "p_take expected = (\<lambda>(ts, n). case ts of [] \<Rightarrow> Inl IndexError
     | t # rest \<Rightarrow> if expected \<noteq> None \<and> expected \<noteq> Some t then Inl (ExpressionError ''expression_syntax_invalid'')
         else if t = ''<end>'' then Inl (ExpressionError ''expression_unexpected_end'')
         else Inr (t, (rest, n)))"

definition p_node :: "string \<Rightarrow> stree list \<Rightarrow> string \<Rightarrow> stree parser" where
  "p_node opr args text = (\<lambda>(ts, n). if MAX_EXPR_NODES < int (n + 1) then Inl (ExpressionError ''dynamic_expression_limit'')
     else Inr (Syn opr args text, (ts, n + 1)))"

text \<open>The fuel of a loop that starts here.\<close>

definition p_fuel :: "nat parser" where
  "p_fuel = (\<lambda>(ts, n). Inr (Suc (length ts), (ts, n)))"

definition PREFIX_OPS :: "string list" where
  "PREFIX_OPS = [''+'', ''-'', ''!'', ''~'', ''&'', ''~&'', ''|'', ''~|'', ''^'', ''~^'', ''^~'']"

definition PREC :: "(string \<times> int) list" where
  "PREC = [(''<->'', 1), (''->'', 1), (''||'', 3), (''&&'', 4), (''|'', 5), (''^'', 6), (''~^'', 6), (''^~'', 6),
     (''&'', 7), (''=='', 8), (''!='', 8), (''==='', 8), (''!=='', 8), (''==?'', 8), (''!=?'', 8),
     (''<'', 9), (''<='', 9), (''>'', 9), (''>='', 9), (''inside'', 9),
     (''<<'', 10), (''>>'', 10), (''<<<'', 10), (''>>>'', 10), (''+'', 11), (''-'', 11),
     (''*'', 12), (''/'', 12), (''%'', 12), (''**'', 13)]"

definition prec_of :: "string \<Rightarrow> int" where
  "prec_of t = (case map_of PREC t of None \<Rightarrow> - 1 | Some p \<Rightarrow> p)"

definition is_name_token :: "string \<Rightarrow> bool" where
  "is_name_token t = (case t of [] \<Rightarrow> False | c # cs \<Rightarrow> c = BACKSLASH \<or> id_start c \<and> list_all id_char cs)"

definition is_literal_token :: "string \<Rightarrow> bool" where
  "is_literal_token t = (case t of [] \<Rightarrow> False | c # _ \<Rightarrow> is_digit c \<or> c = QUOTE)"

section \<open>The loops\<close>

text \<open>\<open>E m\<close> is \<open>self.expression(m, depth+1)\<close>.\<close>

fun p_commas :: "(int \<Rightarrow> stree parser) \<Rightarrow> nat \<Rightarrow> stree list \<Rightarrow> stree list parser" where
  "p_commas E 0 acc = pfail IllTyped"
| "p_commas E (Suc k) acc = pbind p_peek (\<lambda>t. if t = '','' then pbind (p_take (Some '','')) (\<lambda>_.
     pbind (E 0) (\<lambda>x. p_commas E k (acc @ [x]))) else preturn acc)"

definition p_list :: "(int \<Rightarrow> stree parser) \<Rightarrow> string \<Rightarrow> stree list parser" where
  "p_list E end_token = pbind p_peek (\<lambda>t. pbind (if t \<noteq> end_token
       then pbind (E 0) (\<lambda>x. pbind p_fuel (\<lambda>k. p_commas E k [x])) else preturn [])
     (\<lambda>xs. pbind (p_take (Some end_token)) (\<lambda>_.
        if xs = [] then pfail (ExpressionError ''expression_empty_arguments'') else preturn xs)))"

definition p_stream :: "(int \<Rightarrow> stree parser) \<Rightarrow> stree parser" where
  "p_stream E = pbind (p_take None) (\<lambda>direction. pbind p_peek (\<lambda>t.
     pbind (if t = ''{'' then p_node ''literal'' [] ''1'' else E 14) (\<lambda>width.
     pbind (p_take (Some ''{'')) (\<lambda>_. pbind (p_list E ''}'') (\<lambda>children. pbind (p_take (Some ''}'')) (\<lambda>_.
     pbind (p_node ''concat'' children []) (\<lambda>c. p_node ''stream'' [c, width] direction)))))))"

definition p_braces :: "(int \<Rightarrow> stree parser) \<Rightarrow> stree parser" where
  "p_braces E = pbind p_peek (\<lambda>t. if t = ''<<'' \<or> t = ''>>'' then p_stream E
     else pbind (E 0) (\<lambda>first. pbind p_peek (\<lambda>t2.
       if t2 = ''{'' then pbind (p_take (Some ''{'')) (\<lambda>_. pbind (p_list E ''}'') (\<lambda>children.
         pbind (p_take (Some ''}'')) (\<lambda>_. pbind (p_node ''concat'' children []) (\<lambda>c. p_node ''repeat'' [first, c] []))))
       else pbind p_fuel (\<lambda>k. pbind (p_commas E k [first]) (\<lambda>children. pbind (p_take (Some ''}'')) (\<lambda>_.
         p_node ''concat'' children []))))))"

definition p_primary :: "(int \<Rightarrow> stree parser) \<Rightarrow> stree parser" where
  "p_primary E = pbind (p_take None) (\<lambda>t.
     if t \<in> set PREFIX_OPS then pbind (E 14) (\<lambda>x. p_node ''unary'' [x] t)
     else if t = ''('' then pbind (E 0) (\<lambda>x. pbind (p_take (Some '')'')) (\<lambda>_. preturn x))
     else if t = ''{'' then p_braces E
     else if is_literal_token t then p_node ''literal'' [] t
     else if is_name_token t then p_node ''name'' [] t
     else pfail (ExpressionError ''expression_operand_expected''))"

definition p_index :: "(int \<Rightarrow> stree parser) \<Rightarrow> stree \<Rightarrow> stree parser" where
  "p_index E node = pbind (p_take (Some ''['')) (\<lambda>_. pbind (E 0) (\<lambda>start. pbind p_peek (\<lambda>t.
     pbind (if t = '':'' \<or> t = ''+:'' \<or> t = ''-:''
            then pbind (p_take None) (\<lambda>kind. pbind (E 0) (\<lambda>stop. p_node ''part'' [node, start, stop] kind))
            else p_node ''index'' [node, start] []) (\<lambda>n.
     pbind (p_take (Some '']'')) (\<lambda>_. preturn n)))))"

fun p_postfix :: "(int \<Rightarrow> stree parser) \<Rightarrow> nat \<Rightarrow> stree \<Rightarrow> stree parser" where
  "p_postfix E 0 node = pfail IllTyped"
| "p_postfix E (Suc k) node = pbind p_peek (\<lambda>t.
     if t = [QUOTE] \<and> (sy_op node = ''literal'' \<or> sy_op node = ''name'') then
       pbind (p_take (Some [QUOTE])) (\<lambda>_. pbind (p_take (Some ''('')) (\<lambda>_. pbind (E 0) (\<lambda>child.
       pbind (p_take (Some '')'')) (\<lambda>_. pbind (p_node ''cast'' [child] (sy_text node)) (p_postfix E k)))))
     else if t = ''('' \<and> sy_op node = ''name'' then
       pbind (p_take (Some ''('')) (\<lambda>_. pbind (p_list E '')'') (\<lambda>xs.
       pbind (p_node ''call'' xs (sy_text node)) (p_postfix E k)))
     else if t = ''.'' \<or> t = ''::'' then
       pbind (p_take None) (\<lambda>sep. pbind (p_take None) (\<lambda>name.
       if is_name_token name then pbind (p_node ''member'' [node] (sep @ name)) (p_postfix E k)
       else pfail (ExpressionError ''expression_member_expected'')))
     else if t = ''['' then pbind (p_index E node) (p_postfix E k)
     else preturn node)"

fun p_items :: "(int \<Rightarrow> stree parser) \<Rightarrow> nat \<Rightarrow> stree list \<Rightarrow> stree list parser" where
  "p_items E 0 acc = pfail IllTyped"
| "p_items E (Suc k) acc = pbind p_peek (\<lambda>t. if t = ''}'' then preturn acc
     else pbind (if t = ''['' then pbind (p_take (Some ''['')) (\<lambda>_. pbind (E 0) (\<lambda>lo. pbind (p_take (Some '':'')) (\<lambda>_.
              pbind (E 0) (\<lambda>hi. pbind (p_take (Some '']'')) (\<lambda>_. p_node ''range'' [lo, hi] [])))))
            else E 0) (\<lambda>item.
       pbind p_peek (\<lambda>t2. if t2 \<noteq> '','' then preturn (acc @ [item])
         else pbind (p_take (Some '','')) (\<lambda>_. p_items E k (acc @ [item])))))"

definition p_inside :: "(int \<Rightarrow> stree parser) \<Rightarrow> stree \<Rightarrow> stree parser" where
  "p_inside E node = pbind (p_take (Some ''{'')) (\<lambda>_. pbind p_fuel (\<lambda>k. pbind (p_items E k []) (\<lambda>items.
     pbind (p_take (Some ''}'')) (\<lambda>_. if items = [] then pfail (ExpressionError ''expression_empty_set'')
       else p_node ''inside'' (node # items) []))))"

fun p_infix :: "(int \<Rightarrow> stree parser) \<Rightarrow> nat \<Rightarrow> int \<Rightarrow> stree \<Rightarrow> stree parser" where
  "p_infix E 0 minimum node = pfail IllTyped"
| "p_infix E (Suc k) minimum node = pbind p_peek (\<lambda>t.
     if t = ''?'' \<and> minimum \<le> 2 then
       pbind (p_take (Some ''?'')) (\<lambda>_. pbind (E 0) (\<lambda>lhs. pbind (p_take (Some '':'')) (\<lambda>_. pbind (E 2) (\<lambda>rhs.
       pbind (p_node ''mux'' [node, lhs, rhs] []) (p_infix E k minimum)))))
     else if prec_of t < minimum then preturn node
     else pbind (p_take None) (\<lambda>opr.
       if opr = ''inside'' then pbind (p_inside E node) (p_infix E k minimum)
       else pbind (E (if opr = ''->'' \<or> opr = ''<->'' then prec_of t else prec_of t + 1)) (\<lambda>rhs.
         pbind (p_node ''binary'' [node, rhs] opr) (p_infix E k minimum))))"

primrec p_expr :: "nat \<Rightarrow> int \<Rightarrow> stree parser" where
  "p_expr 0 minimum = pfail (ExpressionError ''dynamic_expression_limit'')"
| "p_expr (Suc r) minimum = pbind (p_primary (p_expr r)) (\<lambda>n. pbind p_fuel (\<lambda>k.
     pbind (p_postfix (p_expr r) k n) (\<lambda>n'. pbind p_fuel (\<lambda>k'. p_infix (p_expr r) k' minimum n'))))"

definition parse_tokens :: "string list \<Rightarrow> stree result" where
  "parse_tokens ts = ebind (p_expr (Suc MAX_EXPR_DEPTH) 0 (ts, 0)) (\<lambda>(node, (rest, _)). case rest of
     [] \<Rightarrow> Inl IndexError
   | t # _ \<Rightarrow> if t \<noteq> ''<end>'' then Inl (ExpressionError ''expression_trailing_input'') else Inr node)"

definition parse :: "string \<Rightarrow> stree result" where
  "parse text = ebind (tokenize text) parse_tokens"

end
