(* ===== verification/Sv_Parse_Laws.thy ===== *)
theory Sv_Parse_Laws
  imports Sv_Parse
begin

text \<open>
  The parser is total and bounded. \<open>wp p Q ts n\<close> says that running \<open>p\<close> on the tokens \<open>ts\<close> with \<open>n\<close>
  nodes made either raises an \<open>ExpressionError\<close> or returns with \<open>Q\<close>, and keeps the number of nodes
  within the limit; its rules are collected in \<open>wp_rules\<close> and decompose the methods of \<open>Parser\<close>.
\<close>

named_theorems wp_rules \<open>decomposition of parser runs\<close>

definition wp :: "'a parser \<Rightarrow> ('a \<Rightarrow> string list \<Rightarrow> nat \<Rightarrow> bool) \<Rightarrow> string list \<Rightarrow> nat \<Rightarrow> bool" where
  "wp p Q ts n \<longleftrightarrow> (int n \<le> MAX_EXPR_NODES \<longrightarrow> (case p (ts, n) of Inl e \<Rightarrow> \<exists>r. e = ExpressionError r
     | Inr (x, (ts', n')) \<Rightarrow> int n' \<le> MAX_EXPR_NODES \<and> Q x ts' n'))"

definition ended :: "string list \<Rightarrow> bool" where
  "ended ts \<longleftrightarrow> ts \<noteq> [] \<and> last ts = ''<end>''"

lemma wp_bind [wp_rules]: "wp p (\<lambda>x. wp (f x) Q) ts n \<Longrightarrow> wp (pbind p f) Q ts n"
  by (auto simp: wp_def pbind_def split: sum.splits prod.splits)

lemma wp_return [wp_rules]: "Q x ts n \<Longrightarrow> wp (preturn x) Q ts n"
  by (simp add: wp_def preturn_def)

lemma wp_fail [wp_rules]: "wp (pfail (ExpressionError r)) Q ts n"
  by (simp add: wp_def pfail_def)

lemma wp_peek [wp_rules]: "ended ts \<Longrightarrow> Q (hd ts) ts n \<Longrightarrow> wp p_peek Q ts n"
  by (cases ts) (simp_all add: wp_def p_peek_def ended_def)

lemma wp_take [wp_rules]:
  assumes "ended ts" "\<And>rest. ts = hd ts # rest \<Longrightarrow> ended rest \<Longrightarrow> length rest < length ts \<Longrightarrow> Q (hd ts) rest n"
  shows "wp (p_take e) Q ts n"
proof (cases ts)
  case Nil
  then show ?thesis using assms(1) by (simp add: ended_def)
next
  case (Cons t rest)
  have "ended rest" if "t \<noteq> ''<end>''" using that assms(1) Cons by (cases rest) (simp_all add: ended_def)
  then have "t \<noteq> ''<end>'' \<Longrightarrow> Q t rest n" using assms(2) [of rest] Cons by simp
  then show ?thesis using Cons by (simp add: wp_def p_take_def)
qed

lemma wp_node [wp_rules]: "(int (n + 1) \<le> MAX_EXPR_NODES \<Longrightarrow> Q (Syn opr xs text) ts (n + 1)) \<Longrightarrow> wp (p_node opr xs text) Q ts n"
  by (simp add: wp_def p_node_def)

lemma wp_fuel [wp_rules]: "Q (Suc (length ts)) ts n \<Longrightarrow> wp p_fuel Q ts n"
  by (simp add: wp_def p_fuel_def)

lemma wp_if [wp_rules]: "(b \<Longrightarrow> wp p Q ts n) \<Longrightarrow> (\<not> b \<Longrightarrow> wp q Q ts n) \<Longrightarrow> wp (if b then p else q) Q ts n"
  by simp

lemma wp_mono: "wp p Q ts n \<Longrightarrow> (\<And>x ts' n'. Q x ts' n' \<Longrightarrow> R x ts' n') \<Longrightarrow> wp p R ts n"
  by (auto simp: wp_def split: sum.splits prod.splits)

section \<open>Sizes\<close>

fun ssize :: "stree \<Rightarrow> nat" where
  "ssize (Syn opr xs text) = Suc (sum_list (map ssize xs))"

definition sizes :: "stree list \<Rightarrow> nat" where
  "sizes xs = sum_list (map ssize xs)"

lemma sizes_simps [simp]: "sizes [] = 0" "sizes (x # xs) = ssize x + sizes xs" "sizes (xs @ ys) = sizes xs + sizes ys"
  "ssize (Syn opr xs text) = Suc (sizes xs)"
  by (simp_all add: sizes_def)

declare ssize.simps [simp del]

text \<open>What a method that parses an operand guarantees: it consumes, and it made the nodes it returns.\<close>

definition parses :: "(int \<Rightarrow> stree parser) \<Rightarrow> bool" where
  "parses E \<longleftrightarrow> (\<forall>m ts n. ended ts \<longrightarrow>
     wp (E m) (\<lambda>x ts' n'. ended ts' \<and> length ts' < length ts \<and> n + ssize x \<le> n') ts n)"

lemma wp_operand:
  assumes "parses E" "ended ts"
    "\<And>x ts' n'. ended ts' \<Longrightarrow> length ts' < length ts \<Longrightarrow> n + ssize x \<le> n' \<Longrightarrow> Q x ts' n'"
  shows "wp (E m) Q ts n"
  using assms unfolding parses_def by (blast intro: wp_mono)

section \<open>The loops\<close>

lemma wp_commas:
  assumes "parses E" "ended ts" "length ts < k"
    "\<And>xs ts' n'. ended ts' \<Longrightarrow> length ts' \<le> length ts \<Longrightarrow> n + sizes xs \<le> n' + sizes acc \<Longrightarrow> Q xs ts' n'"
  shows "wp (p_commas E k acc) Q ts n"
  using assms(2-4)
proof (induction k arbitrary: acc ts n)
  case (Suc k)
  show ?case unfolding p_commas.simps
  proof (intro wp_rules wp_operand [OF assms(1)])
    fix rest x ts' n'
    assume "length rest < length ts" "ended ts'" "length ts' < length rest" "n + ssize x \<le> n'"
    then show "wp (p_commas E k (acc @ [x])) Q ts' n'"
      using Suc.prems by (intro Suc.IH Suc.prems(3)) auto
  qed (use Suc.prems in auto)
qed simp

lemma wp_list:
  assumes "parses E" "ended ts"
    "\<And>xs ts' n'. ended ts' \<Longrightarrow> length ts' < length ts \<Longrightarrow> n + sizes xs \<le> n' \<Longrightarrow> Q xs ts' n'"
  shows "wp (p_list E t) Q ts n"
  unfolding p_list_def
  by (intro wp_rules wp_operand [OF assms(1)] wp_commas [OF assms(1)] assms; use assms(2) in simp)


section \<open>The methods\<close>

lemma wp_stream:
  assumes "parses E" "ended ts"
    "\<And>x ts' n'. ended ts' \<Longrightarrow> length ts' < length ts \<Longrightarrow> n + ssize x \<le> n' \<Longrightarrow> Q x ts' n'"
  shows "wp (p_stream E) Q ts n"
  unfolding p_stream_def
  by (intro wp_rules wp_operand [OF assms(1)] wp_list [OF assms(1)] assms(2,3)) auto

lemma wp_braces:
  assumes "parses E" "ended ts"
    "\<And>x ts' n'. ended ts' \<Longrightarrow> length ts' < length ts \<Longrightarrow> n + ssize x \<le> n' \<Longrightarrow> Q x ts' n'"
  shows "wp (p_braces E) Q ts n"
  unfolding p_braces_def
  by (intro wp_rules wp_stream [OF assms(1)] wp_operand [OF assms(1)] wp_list [OF assms(1)] wp_commas [OF assms(1)] assms(2,3)) auto

lemma wp_primary:
  assumes "parses E" "ended ts"
    "\<And>x ts' n'. ended ts' \<Longrightarrow> length ts' < length ts \<Longrightarrow> n + ssize x \<le> n' \<Longrightarrow> Q x ts' n'"
  shows "wp (p_primary E) Q ts n"
  unfolding p_primary_def
  by (intro wp_rules wp_braces [OF assms(1)] wp_operand [OF assms(1)] assms(2,3)) auto

lemma wp_index:
  assumes "parses E" "ended ts"
    "\<And>x ts' n'. ended ts' \<Longrightarrow> length ts' < length ts \<Longrightarrow> n + ssize x \<le> n' + ssize node \<Longrightarrow> Q x ts' n'"
  shows "wp (p_index E node) Q ts n"
  unfolding p_index_def
  by (intro wp_rules wp_operand [OF assms(1)] assms(2,3)) auto

lemma wp_postfix:
  assumes "parses E" "ended ts" "length ts < k"
    "\<And>x ts' n'. ended ts' \<Longrightarrow> length ts' \<le> length ts \<Longrightarrow> n + ssize x \<le> n' + ssize node \<Longrightarrow> Q x ts' n'"
  shows "wp (p_postfix E k node) Q ts n"
  using assms(2-4)
proof (induction k arbitrary: node ts n)
  case (Suc k)
  show ?case unfolding p_postfix.simps
    by (intro wp_rules wp_operand [OF assms(1)] wp_list [OF assms(1)] wp_index [OF assms(1)] Suc.IH Suc.prems) (use Suc.prems(2) in auto)
qed simp


lemma wp_items:
  assumes "parses E" "ended ts" "length ts < k"
    "\<And>xs ts' n'. ended ts' \<Longrightarrow> length ts' \<le> length ts \<Longrightarrow> n + sizes xs \<le> n' + sizes acc \<Longrightarrow> Q xs ts' n'"
  shows "wp (p_items E k acc) Q ts n"
  using assms(2-4)
proof (induction k arbitrary: acc ts n)
  case (Suc k)
  show ?case unfolding p_items.simps
    by (intro wp_rules wp_operand [OF assms(1)] Suc.IH Suc.prems) (use Suc.prems(2) in auto)
qed simp

lemma wp_inside:
  assumes "parses E" "ended ts"
    "\<And>x ts' n'. ended ts' \<Longrightarrow> length ts' < length ts \<Longrightarrow> n + ssize x \<le> n' + ssize node \<Longrightarrow> Q x ts' n'"
  shows "wp (p_inside E node) Q ts n"
  unfolding p_inside_def
  by (intro wp_rules wp_items [OF assms(1)] assms(2,3)) auto

lemma wp_infix:
  assumes "parses E" "ended ts" "length ts < k"
    "\<And>x ts' n'. ended ts' \<Longrightarrow> length ts' \<le> length ts \<Longrightarrow> n + ssize x \<le> n' + ssize node \<Longrightarrow> Q x ts' n'"
  shows "wp (p_infix E k m node) Q ts n"
  using assms(2-4)
proof (induction k arbitrary: node ts n)
  case (Suc k)
  show ?case unfolding p_infix.simps
    by (intro wp_rules wp_operand [OF assms(1)] wp_inside [OF assms(1)] Suc.IH Suc.prems) (use Suc.prems(2) in auto)
qed simp

lemma p_expr_parses: "parses (p_expr r)"
proof (induction r)
  case 0
  show ?case by (simp add: parses_def wp_fail)
next
  case (Suc r)
  show ?case unfolding parses_def p_expr.simps
    by (intro allI impI wp_rules wp_primary [OF Suc.IH] wp_postfix [OF Suc.IH] wp_infix [OF Suc.IH]) auto
qed

section \<open>The tokenizer\<close>

definition lexes :: "(string \<Rightarrow> string option) \<Rightarrow> bool" where
  "lexes f \<longleftrightarrow> (\<forall>s t. f s = Some t \<longrightarrow> t \<noteq> [] \<and> (\<exists>r. s = t @ r))"

lemma lexesI: "(\<And>s t. f s = Some t \<Longrightarrow> t \<noteq> [] \<and> (\<exists>r. s = t @ r)) \<Longrightarrow> lexes f"
  by (simp add: lexes_def)

lemma lexes_or_else: "lexes f \<Longrightarrow> lexes g \<Longrightarrow> lexes (\<lambda>s. or_else (f s) (g s))"
  by (auto simp: lexes_def or_else_def split: option.splits)

lemma nonempty_Some: "nonempty t = Some u \<longleftrightarrow> u = t \<and> t \<noteq> []"
  by (auto simp: nonempty_def)

lemma takeWhile_prefix: "\<exists>r. s = takeWhile P s @ r"
  by (metis takeWhile_dropWhile_id)

lemma until_close_prefix: "until_close s = Some t \<Longrightarrow> t \<noteq> [] \<and> (\<exists>r. s = t @ r)"
  by (induction s arbitrary: t rule: until_close.induct) (auto split: if_splits)

lemma lexes_takeWhile: "lexes (\<lambda>s. nonempty (takeWhile P s))"
  by (rule lexesI) (auto simp: nonempty_Some takeWhile_prefix)

lemma lexes_digit_run: "\<exists>r. s = digit_run s @ r"
  by (cases s) (auto simp: digit_run_def takeWhile_prefix)

lemma lexes_space: "lexes lex_space"
  using lexes_takeWhile [of is_space] by (simp add: lexes_def lex_space_def)

lemma lexes_comment: "lexes lex_comment"
proof (rule lexesI)
  fix s t assume h: "lex_comment s = Some t"
  show "t \<noteq> [] \<and> (\<exists>r. s = t @ r)"
  proof (cases "starts_with ''//'' s")
    case True
    then obtain r where r: "s = ''//'' @ r" by (auto simp: starts_with_iff)
    then show ?thesis using h True takeWhile_prefix [of r "\<lambda>c. c \<noteq> NEWLINE"] by (auto simp: lex_comment_def)
  next
    case False
    then have o: "starts_with ''/*'' s" using h by (auto simp: lex_comment_def split: if_splits)
    then obtain r where r: "s = ''/*'' @ r" by (auto simp: starts_with_iff)
    obtain u where "until_close r = Some u" "t = ''/*'' @ u"
      using h False o r by (auto simp: lex_comment_def)
    then show ?thesis using until_close_prefix r by fastforce
  qed
qed


lemma else_Some: "(if P then None else x) = Some u \<Longrightarrow> x = Some u"
  by (cases P) simp_all

lemma lexes_based: "lexes lex_based"
proof (rule lexesI)
  fix s t assume h: "lex_based s = Some t"
  obtain r where r: "s = digit_run s @ r" using lexes_digit_run by blast
  obtain u where u: "lex_based_tail r = Some u" "t = digit_run s @ u"
    using h r by (auto simp: lex_based_def Let_def) (metis append_eq_conv_conj)
  obtain v where "r = u @ v" "u \<noteq> []"
  proof -
    obtain q s1 where s1: "r = q # s1" "q = QUOTE" using u(1) by (cases r) (auto simp: lex_based_tail_def split: if_splits)
    define sg where "sg = (case s1 of [] \<Rightarrow> [] | c # _ \<Rightarrow> if c \<in> set ''sS'' then [c] else [])"
    have sg: "s1 = sg @ drop (length sg) s1" by (cases s1) (simp_all add: sg_def)
    have tail: "lex_based_tail r = (case drop (length sg) s1 of [] \<Rightarrow> None | b # s3 \<Rightarrow> if b \<notin> set ''bBoOdDhH'' then None
        else map_option (\<lambda>p. q # sg @ b # p) (nonempty (takeWhile payload_char s3)))"
      unfolding lex_based_tail_def Let_def sg_def by (simp only: s1 list.case not_True_eq_False if_False simp_thms)
    obtain b s3 where s3: "drop (length sg) s1 = b # s3"
      "map_option (\<lambda>p. q # sg @ b # p) (nonempty (takeWhile payload_char s3)) = Some u"
    proof (cases "drop (length sg) s1")
      case Nil
      then show ?thesis using u(1) tail by simp
    next
      case (Cons b s3)
      have "(if b \<notin> set ''bBoOdDhH'' then None
         else map_option (\<lambda>p. q # sg @ b # p) (nonempty (takeWhile payload_char s3))) = Some u"
        using tail [symmetric] u(1) unfolding Cons list.case by (rule trans)
      from that [OF Cons else_Some [OF this]] show ?thesis .
    qed
    then have "u = q # sg @ b # takeWhile payload_char s3" by (auto simp: nonempty_Some)
    moreover obtain w where "s3 = takeWhile payload_char s3 @ w" using takeWhile_prefix by blast
    ultimately show ?thesis using that s1 sg s3(1) by (metis append_Cons append_assoc list.discI)
  qed
  then show "t \<noteq> [] \<and> (\<exists>r. s = t @ r)" using r u(2) by auto
qed

lemma lexes_fill: "lexes lex_fill"
  by (rule lexesI) (auto simp: lex_fill_def split: list.splits if_splits)

lemma lexes_decimal: "lexes lex_decimal"
  by (rule lexesI) (auto simp: lex_decimal_def nonempty_Some lexes_digit_run)

lemma lexes_escaped: "lexes lex_escaped"
  by (rule lexesI) (auto simp: lex_escaped_def nonempty_Some takeWhile_prefix split: list.splits if_splits)

lemma lexes_name: "lexes lex_name"
proof (rule lexesI)
  fix s t assume h: "lex_name s = Some t"
  then obtain c cs where "s = c # cs" "id_start c" "t = takeWhile id_char s"
    by (cases s) (auto simp: lex_name_def split: if_splits)
  then show "t \<noteq> [] \<and> (\<exists>r. s = t @ r)" using takeWhile_prefix [of s id_char] by (simp add: id_char_def)
qed

lemma lexes_operator: "lexes lex_operator"
proof (rule lexesI)
  fix s t assume h: "lex_operator s = Some t"
  show "t \<noteq> [] \<and> (\<exists>r. s = t @ r)"
  proof (cases "find (\<lambda>p. starts_with p s) LONG_OPS")
    case None
    then show ?thesis using h by (cases s) (auto simp: lex_operator_def split: if_splits)
  next
    case (Some p)
    then have "p \<in> set LONG_OPS" "starts_with p s" by (auto simp: find_Some_iff)
    moreover have "[] \<notin> set LONG_OPS" by (simp add: LONG_OPS_def)
    ultimately show ?thesis using h Some by (auto simp: lex_operator_def starts_with_iff)
  qed
qed

lemma next_lexeme_prefix: "next_lexeme s = Some t \<Longrightarrow> t \<noteq> [] \<and> (\<exists>r. s = t @ r)"
proof -
  have "lexes next_lexeme"
    unfolding next_lexeme_def
    by (intro lexes_or_else lexes_space lexes_comment lexes_based lexes_fill lexes_decimal lexes_escaped
        lexes_name lexes_operator)
  then show "next_lexeme s = Some t \<Longrightarrow> t \<noteq> [] \<and> (\<exists>r. s = t @ r)" by (simp add: lexes_def)
qed

end
