(* ===== verification/Sv_Type.thy ===== *)
theory Sv_Type
  imports Sv_Parse Dyn_Eval
begin

text \<open>
  Types and constants of src/src/expression_parser.py: \<open>Type\<close> with its \<open>__post_init__\<close>, \<open>Typed\<close>,
  the literals, the propagation of an enclosing width (\<open>context\<close>), the constants a width or a count
  is read from, and the static name of a tree. An \<open>ExpressionError\<close> is its reason code.
\<close>

section \<open>Type and Typed\<close>

datatype sv_type = Ty (t_width: int) (t_signed: bool) (t_two: bool) (t_packed: "(int \<times> int) list")
  (t_unpacked: "(int \<times> int) list") (t_members: "(string \<times> int \<times> sv_type) list")

definition extents :: "(int \<times> int) list \<Rightarrow> int" where
  "extents ds = prod_list (map extent ds)"

definition t_dims :: "sv_type \<Rightarrow> (int \<times> int) list" where
  "t_dims t = t_unpacked t @ (if t_packed t \<noteq> [] then t_packed t
     else if t_width t > 1 then [(t_width t - 1, 0)] else [])"

definition member_width :: "sv_type \<Rightarrow> int" where
  "member_width t = (if t_packed t \<noteq> [] then extent (last (t_packed t)) else t_width t)"

definition mk_type :: "sv_type \<Rightarrow> sv_type result" where
  "mk_type t =
     (if \<not> (1 \<le> t_width t \<and> t_width t \<le> MAX_EXPR_WIDTH) then Inl (ExpressionError ''expression_width_limit'')
      else if length (t_dims t) > 8 \<or> list_ex (\<lambda>d. \<not> small_int (fst d) \<or> \<not> small_int (snd d)) (t_dims t)
        then Inl (ExpressionError ''expression_dimensions_invalid'')
      else if t_packed t \<noteq> [] \<and> extents (t_packed t) \<noteq> t_width t
        then Inl (ExpressionError ''expression_packed_shape_invalid'')
      else if list_ex (\<lambda>(name, offset, m). offset < 0 \<or> offset + t_width m > member_width t) (t_members t)
        then Inl (ExpressionError ''expression_member_shape_invalid'')
      else Inr t)"

fun type_ok :: "sv_type \<Rightarrow> bool" where
  "type_ok (Ty w sg two ps us ms) \<longleftrightarrow>
     is_ok (mk_type (Ty w sg two ps us ms)) \<and> (\<forall>m \<in> set ms. type_ok (snd (snd m)))"

definition with_signed :: "sv_type \<Rightarrow> bool \<Rightarrow> sv_type result" where
  "with_signed t sg = mk_type (Ty (t_width t) sg (t_two t) (t_packed t) (t_unpacked t) (t_members t))"

definition plain_type :: "int \<Rightarrow> bool \<Rightarrow> bool \<Rightarrow> sv_type" where
  "plain_type w sg two = Ty w sg two (if w > 1 then [(w - 1, 0)] else []) [] []"

definition plain :: "int \<Rightarrow> bool \<Rightarrow> sv_type result" where
  "plain w sg = mk_type (plain_type w sg False)"

record typed =
  ty_expr :: expr
  ty_type :: sv_type
  ty_fill :: bool

definition mk_typed :: "expr \<Rightarrow> sv_type \<Rightarrow> typed" where
  "mk_typed e t = \<lparr>ty_expr = e, ty_type = t, ty_fill = False\<rparr>"

definition unpacked :: "typed \<Rightarrow> bool" where
  "unpacked v \<longleftrightarrow> t_unpacked (ty_type v) \<noteq> []"

text \<open>\<open>Expr(op, width, args, signed=signed)\<close>.\<close>

definition op_expr :: "string \<Rightarrow> int \<Rightarrow> expr list \<Rightarrow> bool \<Rightarrow> expr result" where
  "op_expr opr w xs sg = mk_expr ((enode0 opr w)\<lparr>e_signed := sg\<rparr>) xs"

definition const_expr :: "string \<Rightarrow> int \<Rightarrow> bool \<Rightarrow> bool \<Rightarrow> expr result" where
  "const_expr v w sg fill = mk_expr ((enode0 ''const'' w)\<lparr>e_value := Some v, e_signed := sg, e_fill := fill\<rparr>) []"

text \<open>\<open>Typed(Expr(...), _plain(...))\<close>: the expression is built first.\<close>

definition typed_plain :: "expr result \<Rightarrow> int \<Rightarrow> bool \<Rightarrow> typed result" where
  "typed_plain e w sg = ebind e (\<lambda>x. ebind (plain w sg) (\<lambda>t. Inr (mk_typed x t)))"

section \<open>Literals\<close>

definition PAYLOAD :: string where
  "PAYLOAD = ''0123456789abcdefxz?''"

text \<open>The groups of \<open>([0-9]*)'(s?)([bodh])([0-9a-fxz?]+)\<close>.\<close>

definition split_based :: "string \<Rightarrow> (string \<times> bool \<times> char \<times> string) option" where
  "split_based raw =
     (let d = takeWhile is_digit raw in
      case drop (length d) raw of [] \<Rightarrow> None | q # r1 \<Rightarrow> if q \<noteq> QUOTE then None
      else (let sg = (r1 \<noteq> [] \<and> hd r1 = CHR ''s'') in
        case (if sg then tl r1 else r1) of [] \<Rightarrow> None
        | b # p \<Rightarrow> if b \<in> set ''bodh'' \<and> p \<noteq> [] \<and> list_all (\<lambda>c. c \<in> set PAYLOAD) p then Some (d, sg, b, p) else None))"

definition radix_of :: "char \<Rightarrow> int" where
  "radix_of b = (if b = CHR ''b'' then 2 else if b = CHR ''o'' then 8 else if b = CHR ''d'' then 10 else 16)"

definition digit_width :: "char \<Rightarrow> nat" where
  "digit_width b = (if b = CHR ''b'' then 1 else if b = CHR ''o'' then 3 else 4)"

definition hex_value :: "char \<Rightarrow> int" where
  "hex_value c = (if is_digit c then int (char_digit c) else int (of_char c) - 87)"

fun read_radix :: "int \<Rightarrow> int \<Rightarrow> string \<Rightarrow> int" where
  "read_radix r acc [] = acc"
| "read_radix r acc (c # cs) = read_radix r (r * acc + hex_value c) cs"

text \<open>\<open>int(s)\<close> of a run of decimal digits; Python refuses more than 4300 of them.\<close>

definition int_text :: "string \<Rightarrow> int result" where
  "int_text s = (if int (length s) > 4300 then Inl (ValueError ''Exceeds the limit (4300 digits) for integer string conversion'')
     else Inr (read_radix 10 0 s))"

text \<open>\<open>n.bit_length()\<close> and \<open>bin(n)[2:]\<close> of a number that is not negative.\<close>

function bin_length :: "int \<Rightarrow> nat" where
  "bin_length n = (if n \<le> 0 then 0 else Suc (bin_length (n div 2)))"
  by pat_completeness auto
termination by (relation "measure nat") auto

declare bin_length.simps [simp del]

definition bin_text :: "int \<Rightarrow> string" where
  "bin_text n = (if n = 0 then ''0'' else int_bits (bin_length n) n)"

definition unknown_digit :: "char \<Rightarrow> bool" where
  "unknown_digit c \<longleftrightarrow> c \<in> set ''xz?''"

definition payload_ok :: "char \<Rightarrow> string \<Rightarrow> bool" where
  "payload_ok b p \<longleftrightarrow> list_all (\<lambda>c. unknown_digit c \<or> hex_value c < radix_of b) p"

definition expand_digit :: "nat \<Rightarrow> char \<Rightarrow> string" where
  "expand_digit k c = (if unknown_digit c then replicate k (if c = CHR ''?'' then CHR ''z'' else c)
     else int_bits k (hex_value c))"

definition payload_bits :: "char \<Rightarrow> string \<Rightarrow> string result" where
  "payload_bits b p =
     (if b = CHR ''d'' then
        (if list_ex unknown_digit p then
           (if length p \<noteq> 1 then Inl (ExpressionError ''expression_literal_invalid'')
            else Inr (if p = ''?'' then ''z'' else p))
         else ebind (int_text p) (\<lambda>n. Inr (bin_text n)))
      else Inr (concat (map (expand_digit (digit_width b)) p)))"

definition fit_bits :: "int \<Rightarrow> string \<Rightarrow> string" where
  "fit_bits w bits = rjust (nat w) (if isxz (hd bits) then hd bits else CHR ''0'') (last_n (nat w) bits)"

definition based_literal :: "string \<Rightarrow> bool \<Rightarrow> char \<Rightarrow> string \<Rightarrow> typed result" where
  "based_literal d sg b p =
     (if \<not> payload_ok b p then Inl (ExpressionError ''expression_literal_invalid'')
      else ebind (payload_bits b p) (\<lambda>bits.
        ebind (if d \<noteq> [] then int_text d else Inr (max 32 (int (length bits)))) (\<lambda>w.
        if \<not> (1 \<le> w \<and> w \<le> MAX_EXPR_WIDTH) then Inl (ExpressionError ''expression_width_limit'')
        else typed_plain (const_expr (fit_bits w bits) w sg False) w sg)))"

definition decimal_literal :: "string \<Rightarrow> typed result" where
  "decimal_literal raw =
     (if raw = [] \<or> \<not> list_all is_digit raw \<or> int (length raw) > 1233 then Inl (ExpressionError ''expression_literal_invalid'')
      else ebind (int_text raw) (\<lambda>n.
        let w = max 32 (int (bin_length n)) in
        ebind (number n w True) (\<lambda>v. typed_plain (const_expr (vbits v) w True False) w True)))"

definition literal :: "string \<Rightarrow> typed result" where
  "literal text =
     (let raw = lower (filter (\<lambda>c. c \<noteq> CHR ''_'') text) in
      if length raw = 2 \<and> hd raw = QUOTE \<and> last raw \<in> set ''01xz'' then
        ebind (const_expr (tl raw) 1 False True) (\<lambda>e. ebind (plain 1 False) (\<lambda>t.
          Inr \<lparr>ty_expr = e, ty_type = t, ty_fill = True\<rparr>))
      else case split_based raw of
        Some (d, sg, b, p) \<Rightarrow> based_literal d sg b p
      | None \<Rightarrow> decimal_literal raw)"

section \<open>context\<close>

definition CONTEXT_OPS :: "string list" where
  "CONTEXT_OPS = [''+'', ''-'', ''*'', ''/'', ''%'', ''&'', ''|'', ''^'', ''~^'', ''^~'']"

text \<open>
  The node rebuilt by \<open>context\<close>; \<open>rs\<close> are the results of the recursive calls on its arguments,
  of which each branch takes the ones it makes.
\<close>

definition context_step :: "enode \<Rightarrow> expr list \<Rightarrow> int \<Rightarrow> bool \<Rightarrow> expr result list \<Rightarrow> expr result" where
  "context_step n xs w sg rs =
     (let node = n\<lparr>e_width := w, e_signed := sg\<rparr> in
      if e_fill n then
        (case e_value n of None \<Rightarrow> Inl TypeError | Some [] \<Rightarrow> Inl IndexError
         | Some (c # _) \<Rightarrow> const_expr (replicate (nat w) c) w sg True)
      else if e_op n \<in> set CONTEXT_OPS then ebind (mapM id rs) (mk_expr node)
      else if e_op n \<in> set LEFT_TYPED then
        ebind (ebind (py_index rs 0) id) (\<lambda>a. ebind (py_index xs 1) (\<lambda>b. mk_expr node [a, b]))
      else if e_op n \<in> {''u+'', ''u-'', ''~''} then
        ebind (ebind (py_index rs 0) id) (\<lambda>a. mk_expr node [a])
      else if e_op n = ''mux'' then
        ebind (mapM id (drop 1 rs)) (\<lambda>ys. ebind (py_index xs 0) (\<lambda>c. mk_expr node (c # ys)))
      else ebind (mk_expr (n\<lparr>e_signed := sg\<rparr>) xs) (\<lambda>child.
        if w = e_width n then Inr child else op_expr ''cast'' w [child] sg))"

text \<open>
  The expression of \<open>context(Typed(e, ...), width, signed)\<close>; the type of its result is
  \<open>_plain(width, signed)\<close> in every branch. \<open>Typed(a, _plain(a.width, a.signed))\<close> of an argument is
  built before the recursive call.
\<close>

fun context_expr :: "expr \<Rightarrow> int \<Rightarrow> bool \<Rightarrow> expr result" where
  "context_expr (Expr n xs) w sg =
     context_step n xs w sg (map (\<lambda>a. ebind (plain (e_width (enode_of a)) (e_signed (enode_of a))) (\<lambda>_.
       ebind (context_expr a w sg) (\<lambda>a'. ebind (plain w sg) (\<lambda>_. Inr a')))) xs)"

definition context_typed :: "typed \<Rightarrow> int \<Rightarrow> bool \<Rightarrow> typed result" where
  "context_typed v w sg =
     ebind (context_expr (ty_expr v) w sg) (\<lambda>e. ebind (plain w sg) (\<lambda>t.
       Inr \<lparr>ty_expr = e, ty_type = t, ty_fill = e_fill (enode_of (ty_expr v))\<rparr>))"

section \<open>constant\<close>

definition NOT_CONSTANT :: "string list" where
  "NOT_CONSTANT = [''signal'', ''unsupported'', ''array'', ''array_select'']"

text \<open>The loop over \<open>pending\<close>, the stack with its top first.\<close>

function const_scan :: "expr list \<Rightarrow> int \<Rightarrow> bool" where
  "const_scan [] count = True"
| "const_scan (e # rest) count =
     (if count + 1 > MAX_EXPR_NODES \<or> e_op (enode_of e) \<in> set NOT_CONSTANT then False
      else const_scan (rev (eargs e) @ rest) (count + 1))"
  by pat_completeness auto
termination
proof (relation "measure (\<lambda>(es, c). sum_list (map expr_nodes es))", goal_cases)
  case (2 e rest count)
  then show ?case by (cases e) (simp add: rev_map [symmetric])
qed simp

definition constant_of :: "typed \<Rightarrow> int result" where
  "constant_of v =
     (if \<not> const_scan [ty_expr v] 0 then Inl (ExpressionError ''expression_constant_required'')
      else ebind (evaluate (ty_expr v) (\<lambda>_. []) ''data'') (\<lambda>r.
        case ev_value r of
          None \<Rightarrow> Inl (ExpressionError ''expression_known_constant_required'')
        | Some bits \<Rightarrow>
            if list_ex isxz bits then Inl (ExpressionError ''expression_known_constant_required'')
            else ebind (mk_value bits (t_signed (ty_type v))) vinteger))"

section \<open>static_name\<close>

definition decimal_text :: "string \<Rightarrow> bool" where
  "decimal_text s \<longleftrightarrow> s \<noteq> [] \<and> list_all is_digit s"

fun static_name :: "stree \<Rightarrow> string option" where
  "static_name (Syn opr xs txt) =
     (if opr = ''name'' then Some txt
      else case xs of [] \<Rightarrow> None
      | a # rest \<Rightarrow>
          if opr = ''member'' then (case static_name a of None \<Rightarrow> None | Some base \<Rightarrow> Some (base @ txt))
          else case rest of [] \<Rightarrow> None
          | b # _ \<Rightarrow>
              if opr = ''index'' \<and> sy_op b = ''literal'' then
                (case static_name a of None \<Rightarrow> None
                 | Some base \<Rightarrow> if decimal_text (sy_text b) then Some (base @ ''['' @ sy_text b @ '']'') else None)
              else None)"

end
