(* ===== verification/Sv_Compile.thy ===== *)
theory Sv_Compile
  imports Sv_Type
begin

text \<open>
  The \<open>Compiler\<close> of src/src/expression_parser.py: \<open>lower\<close>, one definition per kind of tree, and
  \<open>compile\<close>. Its state is the number of trees lowered and the types used by name. \<open>lower_at r\<close> is
  \<open>lower\<close> at depth \<open>MAX_EXPR_DEPTH + 1 - r\<close>; the branches take the lowering \<open>L\<close> of the next depth.

  \<open>resolve\<close> and \<open>types\<close> are the caller's: \<open>resolve\<close> raises \<open>KeyError\<close> on a name it does not know.
  While the first argument of a type query is lowered, \<open>self.resolve\<close> is \<open>metadata\<close>, which also
  notes the type it used: a \<open>resolver\<close> returns the declaration with the names to note.
\<close>

record cstate =
  cs_count :: int
  cs_uses :: "string list"

type_synonym resolver = "string \<Rightarrow> (typed \<times> string list) result"
type_synonym types = "string \<Rightarrow> sv_type option"
type_synonym lowerer = "resolver \<Rightarrow> stree \<Rightarrow> (cstate, typed) run"

definition INTEGER_TYPES :: "(string \<times> int \<times> bool \<times> bool) list" where
  "INTEGER_TYPES = [(''byte'', 8, True, True), (''shortint'', 16, True, True), (''int'', 32, True, True),
     (''longint'', 64, True, True), (''integer'', 32, True, False), (''time'', 64, False, False),
     (''bit'', 1, False, True), (''logic'', 1, False, False), (''reg'', 1, False, False)]"

definition TYPE_QUERIES :: "string list" where
  "TYPE_QUERIES = [''$bits'', ''$dimensions'', ''$unpacked_dimensions'', ''$left'', ''$right'', ''$low'',
     ''$high'', ''$size'', ''$increment'']"

definition COUNT_QUERIES :: "string list" where
  "COUNT_QUERIES = [''$bits'', ''$dimensions'', ''$unpacked_dimensions'']"

definition VALUE_FUNCTIONS :: "string list" where
  "VALUE_FUNCTIONS = [''$signed'', ''$unsigned'', ''$clog2'', ''$isunknown'', ''$countones'', ''$countbits'',
     ''$onehot'', ''$onehot0'']"

definition raise_expr :: "string \<Rightarrow> ('s, 'a) run" where
  "raise_expr reason = pfail (ExpressionError reason)"

definition reject :: "bool \<Rightarrow> string \<Rightarrow> ('s, unit) run" where
  "reject b reason = (if b then raise_expr reason else preturn ())"

text \<open>\<open>a, b = xs\<close>.\<close>

definition two_of :: "'a list \<Rightarrow> ('a \<times> 'a) result" where
  "two_of xs = (case xs of [a, b] \<Rightarrow> Inr (a, b) | _ \<Rightarrow> Inl (ValueError ''unpack''))"

definition three_of :: "'a list \<Rightarrow> ('a \<times> 'a \<times> 'a) result" where
  "three_of xs = (case xs of [a, b, c] \<Rightarrow> Inr (a, b, c) | _ \<Rightarrow> Inl (ValueError ''unpack''))"

definition lower_all :: "lowerer \<Rightarrow> resolver \<Rightarrow> stree list \<Rightarrow> (cstate, typed list) run" where
  "lower_all L env xs = mapMS (L env) xs"

definition lower_arg :: "lowerer \<Rightarrow> resolver \<Rightarrow> stree list \<Rightarrow> int \<Rightarrow> (cstate, typed) run" where
  "lower_arg L env xs i = pbind (plift (py_index xs i)) (L env)"

section \<open>Operators\<close>

definition unary_op :: "string \<Rightarrow> string" where
  "unary_op t = (if t = ''+'' \<or> t = ''-'' then CHR ''u'' # t else if t = ''!'' then ''not''
     else if t = ''~'' then t else ''reduce_'' @ t)"

definition lower_unary :: "lowerer \<Rightarrow> resolver \<Rightarrow> stree list \<Rightarrow> string \<Rightarrow> (cstate, typed) run" where
  "lower_unary L env xs t =
     pbind (lower_arg L env xs 0) (\<lambda>v.
     pbind (reject (unpacked v) ''expression_array_requires_selection'') (\<lambda>_.
       let opr = unary_op t;
           bit = (opr = ''not'' \<or> starts_with ''reduce_'' opr) in
       plift (ebind (plain (if bit then 1 else t_width (ty_type v)) (if bit then False else t_signed (ty_type v))) (\<lambda>typ.
              ebind (op_expr opr (t_width typ) [ty_expr v] (t_signed typ)) (\<lambda>e. Inr (mk_typed e typ))))))"

definition common_context :: "typed \<Rightarrow> typed \<Rightarrow> (int \<times> bool \<times> typed \<times> typed) result" where
  "common_context a b =
     (let w = max (t_width (ty_type a)) (t_width (ty_type b)); sg = (t_signed (ty_type a) \<and> t_signed (ty_type b)) in
      ebind (context_typed a w sg) (\<lambda>a'. ebind (context_typed b w sg) (\<lambda>b'. Inr (w, sg, a', b'))))"

definition lower_binary :: "lowerer \<Rightarrow> resolver \<Rightarrow> stree list \<Rightarrow> string \<Rightarrow> (cstate, typed) run" where
  "lower_binary L env xs opr =
     pbind (lower_all L env xs) (\<lambda>vs. pbind (plift (two_of vs)) (\<lambda>(a, b).
     pbind (reject (unpacked a \<or> unpacked b) ''expression_array_requires_selection'') (\<lambda>_.
       plift (if opr \<in> set LOGICAL then typed_plain (op_expr opr 1 [ty_expr a, ty_expr b] False) 1 False
              else ebind (if opr \<in> set LEFT_TYPED then Inr (t_width (ty_type a), t_signed (ty_type a), a, b)
                          else common_context a b) (\<lambda>(w, sg, a', b').
                   ebind (if opr \<in> set COMPARISONS then plain 1 False else plain w sg) (\<lambda>typ.
                   ebind (op_expr opr (t_width typ) [ty_expr a', ty_expr b'] (t_signed typ)) (\<lambda>e.
                     Inr (mk_typed e typ))))))))"

definition lower_mux :: "lowerer \<Rightarrow> resolver \<Rightarrow> stree list \<Rightarrow> (cstate, typed) run" where
  "lower_mux L env xs =
     pbind (lower_all L env xs) (\<lambda>vs. pbind (plift (three_of vs)) (\<lambda>(c, a, b).
     pbind (reject (unpacked c \<or> unpacked a \<or> unpacked b) ''expression_array_requires_selection'') (\<lambda>_.
       plift (ebind (common_context a b) (\<lambda>(w, sg, a', b').
         typed_plain (op_expr ''mux'' w [ty_expr c, ty_expr a', ty_expr b'] sg) w sg)))))"

definition lower_concat :: "lowerer \<Rightarrow> resolver \<Rightarrow> stree list \<Rightarrow> (cstate, typed) run" where
  "lower_concat L env xs =
     pbind (lower_all L env xs) (\<lambda>vs.
     pbind (reject (list_ex unpacked vs) ''expression_concat_operand_invalid'') (\<lambda>_.
       plift (ebind (plain (sum_list (map (\<lambda>v. t_width (ty_type v)) vs)) False) (\<lambda>typ.
              ebind (op_expr ''concat'' (t_width typ) (map ty_expr vs) False) (\<lambda>e. Inr (mk_typed e typ))))))"

definition lower_repeat :: "lowerer \<Rightarrow> resolver \<Rightarrow> stree list \<Rightarrow> string \<Rightarrow> string \<Rightarrow> (cstate, typed) run" where
  "lower_repeat L env xs opr t =
     pbind (lower_all L env xs) (\<lambda>vs. pbind (plift (two_of vs)) (\<lambda>(first, second).
     pbind (plift (constant_of (if opr = ''repeat'' then first else second))) (\<lambda>count.
     pbind (reject (\<not> (1 \<le> count \<and> count \<le> MAX_EXPR_WIDTH)) ''expression_constant_size_invalid'') (\<lambda>_.
       let w = (if opr = ''repeat'' then count * t_width (ty_type second) else t_width (ty_type first));
           name = (if opr = ''repeat'' then ''repeat'' else if t = ''<<'' then ''stream_left'' else ''stream_right'') in
       plift (ebind (plain w False) (\<lambda>typ.
              ebind (op_expr name w [ty_expr first, ty_expr second] False) (\<lambda>e. Inr (mk_typed e typ))))))))"

section \<open>Casts\<close>

definition no_underscores :: "string \<Rightarrow> string" where
  "no_underscores s = filter (\<lambda>c. c \<noteq> CHR ''_'') s"

definition cast_type :: "types \<Rightarrow> string \<Rightarrow> sv_type \<Rightarrow> sv_type result" where
  "cast_type types target vt = (case map_of INTEGER_TYPES target of
     Some (w, sg, two) \<Rightarrow> mk_type (plain_type w sg two)
   | None \<Rightarrow>
       if target = ''signed'' \<or> target = ''unsigned'' then with_signed vt (target = ''signed'')
       else if decimal_text (no_underscores target) then
         ebind (int_text (no_underscores target)) (\<lambda>w. plain w (t_signed vt))
       else (case types target of Some t \<Rightarrow> Inr t | None \<Rightarrow> Inl (ExpressionError ''expression_type_unresolved'')))"

definition lower_cast :: "types \<Rightarrow> lowerer \<Rightarrow> resolver \<Rightarrow> stree list \<Rightarrow> string \<Rightarrow> (cstate, typed) run" where
  "lower_cast types L env xs target =
     pbind (lower_arg L env xs 0) (\<lambda>v. pbind (plift (cast_type types target (ty_type v))) (\<lambda>typ.
     pbind (reject (t_unpacked typ \<noteq> [] \<or> unpacked v) ''expression_array_cast_unsupported'') (\<lambda>_.
       plift (ebind (context_typed v (max (t_width (ty_type v)) (t_width typ)) (t_signed (ty_type v))) (\<lambda>inner.
              ebind (mk_expr ((enode0 ''cast'' (t_width typ))\<lparr>e_signed := t_signed typ, e_two_state := t_two typ\<rparr>)
                       [ty_expr inner]) (\<lambda>e. Inr (mk_typed e typ)))))))"

section \<open>Selections\<close>

definition base_bounds :: "sv_type \<Rightarrow> int \<times> int" where
  "base_bounds t = (case t_packed t of d # _ \<Rightarrow> d | [] \<Rightarrow> (t_width t - 1, 0))"

definition base_stride :: "sv_type \<Rightarrow> int" where
  "base_stride t = t_width t div extent (base_bounds t)"

text \<open>An element of an unpacked array.\<close>

definition array_item :: "typed \<Rightarrow> typed \<Rightarrow> typed result" where
  "array_item base index =
     (let t = ty_type base in
      ebind (mk_type (Ty (t_width t) (t_signed t) (t_two t) (t_packed t) (drop 1 (t_unpacked t)) (t_members t))) (\<lambda>typ.
      ebind (py_index (t_unpacked t) 0) (\<lambda>d.
      ebind (mk_expr ((enode0 ''array_select'' (t_width typ))\<lparr>e_bounds := Some d, e_signed := t_signed typ,
               e_two_state := t_two typ\<rparr>) [ty_expr base, ty_expr index]) (\<lambda>e. Inr (mk_typed e typ)))))"

definition bit_item :: "typed \<Rightarrow> typed \<Rightarrow> typed result" where
  "bit_item base index =
     (let t = ty_type base; stride = base_stride t in
      ebind (mk_type (Ty stride False (t_two t) (drop 1 (t_packed t)) []
               (if length (t_packed t) > 1 then t_members t else []))) (\<lambda>typ.
      ebind (mk_expr ((enode0 ''select'' stride)\<lparr>e_bounds := Some (base_bounds t), e_stride := stride\<rparr>)
               [ty_expr base, ty_expr index]) (\<lambda>e. Inr (mk_typed e typ))))"

text \<open>The start, the number of elements and the operator of a part select.\<close>

definition part_range :: "sv_type \<Rightarrow> typed \<Rightarrow> typed \<Rightarrow> string \<Rightarrow> (typed \<times> int \<times> string) result" where
  "part_range t index amount kind =
     (let bounds = base_bounds t in
      ebind (constant_of amount) (\<lambda>count.
        if kind = '':'' then
          ebind (constant_of index) (\<lambda>start.
          if (start < count) \<noteq> (fst bounds < snd bounds) \<and> start \<noteq> count
            then Inl (ExpressionError ''expression_part_direction_invalid'')
          else ebind (number (min start count) 64 True) (\<lambda>v.
               ebind (typed_plain (const_expr (vbits v) 64 True False) 64 True) (\<lambda>index'.
                 Inr (index', \<bar>start - count\<bar> + 1, ''part_up''))))
        else Inr (index, count, if kind = ''+:'' then ''part_up'' else ''part_down'')))"

definition part_item :: "typed \<Rightarrow> typed \<Rightarrow> typed \<Rightarrow> string \<Rightarrow> typed result" where
  "part_item base index amount kind =
     (let t = ty_type base; stride = base_stride t in
      ebind (part_range t index amount kind) (\<lambda>(index', count, opr).
        if \<not> (1 \<le> count \<and> count \<le> MAX_EXPR_WIDTH div stride)
          then Inl (ExpressionError ''expression_part_width_invalid'')
        else typed_plain (mk_expr ((enode0 opr (count * stride))\<lparr>e_bounds := Some (base_bounds t), e_stride := stride\<rparr>)
               [ty_expr base, ty_expr index']) (count * stride) False))"

definition lower_select :: "lowerer \<Rightarrow> resolver \<Rightarrow> stree list \<Rightarrow> string \<Rightarrow> string \<Rightarrow> (cstate, typed) run" where
  "lower_select L env xs opr kind =
     pbind (lower_arg L env xs 0) (\<lambda>base. pbind (lower_arg L env xs 1) (\<lambda>index.
     pbind (reject (unpacked index) ''expression_index_not_integral'') (\<lambda>_.
       if unpacked base then
         pbind (reject (opr \<noteq> ''index'') ''expression_unpacked_slice_unsupported'') (\<lambda>_. plift (array_item base index))
       else if opr = ''index'' then plift (bit_item base index)
       else pbind (lower_arg L env xs 2) (\<lambda>amount. plift (part_item base index amount kind)))))"

definition member_item :: "typed \<Rightarrow> string \<Rightarrow> typed result" where
  "member_item base name =
     (let t = ty_type base in
      case find (\<lambda>m. fst m = name) (t_members t) of
        None \<Rightarrow> Inl (ExpressionError ''expression_member_type_unresolved'')
      | Some (_, offset, typ) \<Rightarrow>
          if unpacked base \<or> length (t_packed t) > 1 then Inl (ExpressionError ''expression_member_type_unresolved'')
          else ebind (mk_expr ((enode0 ''project'' (t_width typ))\<lparr>e_signed := t_signed typ,
                   e_bits := [t_width t - offset - t_width typ .. t_width t - offset - 1]\<rparr>) [ty_expr base])
                 (\<lambda>e. Inr (mk_typed e typ)))"

definition lower_member :: "lowerer \<Rightarrow> resolver \<Rightarrow> stree list \<Rightarrow> string \<Rightarrow> (cstate, typed) run" where
  "lower_member L env xs t = pbind (lower_arg L env xs 0) (\<lambda>base. plift (member_item base (drop 1 t)))"

definition lower_set :: "lowerer \<Rightarrow> resolver \<Rightarrow> stree list \<Rightarrow> string \<Rightarrow> (cstate, typed) run" where
  "lower_set L env xs opr =
     pbind (lower_all L env xs) (\<lambda>vs.
       let w = (if opr = ''inside'' then 1 else foldr max (map (\<lambda>v. t_width (ty_type v)) vs) 0) in
       plift (typed_plain (op_expr opr w (map ty_expr vs) False) w False))"

section \<open>System functions\<close>

definition bad_arity :: "string \<Rightarrow> nat \<Rightarrow> bool" where
  "bad_arity name n = (if name = ''$countbits'' then n < 2
     else if name \<in> set TYPE_QUERIES \<and> name \<notin> set COUNT_QUERIES then n \<noteq> 1 \<and> n \<noteq> 2 else n \<noteq> 1)"

definition metadata :: "types \<Rightarrow> resolver \<Rightarrow> resolver" where
  "metadata types env name =
     (let declared = (\<lambda>t notes. ebind (const_expr (replicate (nat (t_width t)) CHR ''0'') (t_width t) False False) (\<lambda>e.
        Inr (mk_typed e t, notes))) in
      case types name of
        Some t \<Rightarrow> declared t [name]
      | None \<Rightarrow> (case map_of INTEGER_TYPES name of
          Some (w, sg, two) \<Rightarrow> ebind (mk_type (plain_type w sg two)) (\<lambda>t. declared t [])
        | None \<Rightarrow> env name))"

definition int_const :: "int \<Rightarrow> typed result" where
  "int_const n = ebind (number n 32 True) (\<lambda>v. typed_plain (const_expr (vbits v) 32 True False) 32 True)"

definition query_result :: "string \<Rightarrow> typed list \<Rightarrow> typed result" where
  "query_result name vs =
     ebind (py_index vs 0) (\<lambda>first.
       let t = ty_type first in
       if name = ''$bits'' \<and> length vs = 1 then int_const (t_width t * extents (t_unpacked t))
       else if (name = ''$dimensions'' \<or> name = ''$unpacked_dimensions'') \<and> length vs = 1 then
         int_const (int (length (if name = ''$dimensions'' then t_dims t else t_unpacked t)))
       else if name \<notin> set COUNT_QUERIES \<and> (length vs = 1 \<or> length vs = 2) then
         ebind (if length vs = 2 then py_index vs 1 else literal ''1'') (\<lambda>index.
           if unpacked index then Inl (ExpressionError ''expression_index_not_integral'')
           else typed_plain (mk_expr ((enode0 ''dimension'' 32)\<lparr>e_dims := t_dims t, e_function := Some name,
                  e_signed := True\<rparr>) [ty_expr index]) 32 True)
       else Inl (ExpressionError ''expression_function_arity_invalid''))"

definition lower_query :: "types \<Rightarrow> lowerer \<Rightarrow> resolver \<Rightarrow> stree list \<Rightarrow> string \<Rightarrow> (cstate, typed) run" where
  "lower_query types L env xs name =
     pbind (lower_arg L (metadata types env) xs 0) (\<lambda>first.
     pbind (lower_all L env (drop 1 xs)) (\<lambda>rest. plift (query_result name (first # rest))))"

definition function_type :: "string \<Rightarrow> sv_type \<Rightarrow> sv_type result" where
  "function_type name t =
     (if name = ''$signed'' \<or> name = ''$unsigned'' then with_signed t (name = ''$signed'')
      else if name = ''$onehot'' \<or> name = ''$onehot0'' \<or> name = ''$isunknown'' then plain 1 False
      else plain 32 True)"

definition lower_function :: "lowerer \<Rightarrow> resolver \<Rightarrow> stree list \<Rightarrow> string \<Rightarrow> (cstate, typed) run" where
  "lower_function L env xs name =
     pbind (lower_all L env xs) (\<lambda>vs.
     pbind (reject (list_ex unpacked vs) ''expression_array_requires_selection'') (\<lambda>_.
       plift (ebind (py_index vs 0) (\<lambda>first. ebind (function_type name (ty_type first)) (\<lambda>typ.
              ebind (mk_expr ((enode0 ''function'' (t_width typ))\<lparr>e_signed := t_signed typ, e_function := Some name\<rparr>)
                       (map ty_expr vs)) (\<lambda>e. Inr (mk_typed e typ)))))))"

definition lower_call :: "types \<Rightarrow> lowerer \<Rightarrow> resolver \<Rightarrow> stree list \<Rightarrow> string \<Rightarrow> (cstate, typed) run" where
  "lower_call types L env xs name =
     pbind (reject (name \<notin> set TYPE_QUERIES \<and> name \<notin> set VALUE_FUNCTIONS) ''expression_function_unsupported'') (\<lambda>_.
     pbind (reject (bad_arity name (length xs)) ''expression_function_arity_invalid'') (\<lambda>_.
       if name \<in> set TYPE_QUERIES then lower_query types L env xs name else lower_function L env xs name))"

section \<open>lower and compile\<close>

definition lower_node :: "types \<Rightarrow> lowerer \<Rightarrow> lowerer" where
  "lower_node types L env node =
     (let opr = sy_op node; xs = sy_args node; t = sy_text node in
      if opr = ''literal'' then plift (literal t)
      else if opr = ''unary'' then lower_unary L env xs t
      else if opr = ''binary'' then lower_binary L env xs t
      else if opr = ''mux'' then lower_mux L env xs
      else if opr = ''concat'' then lower_concat L env xs
      else if opr = ''repeat'' \<or> opr = ''stream'' then lower_repeat L env xs opr t
      else if opr = ''cast'' then lower_cast types L env xs t
      else if opr = ''index'' \<or> opr = ''part'' then lower_select L env xs opr t
      else if opr = ''member'' then lower_member L env xs t
      else if opr = ''inside'' \<or> opr = ''range'' then lower_set L env xs opr
      else if opr = ''call'' then lower_call types L env xs t
      else raise_expr ''expression_syntax_unsupported'')"

definition counted :: "int \<Rightarrow> (cstate, unit) run" where
  "counted limit = (\<lambda>st. let st' = st\<lparr>cs_count := cs_count st + 1\<rparr> in
     if cs_count st' > limit then Inl (ExpressionError ''dynamic_expression_limit'') else Inr ((), st'))"

text \<open>A declaration found under the static name of a tree, with the types it used noted.\<close>

definition noted :: "typed \<times> string list \<Rightarrow> (cstate, typed) run" where
  "noted d = (\<lambda>st. Inr (fst d, st\<lparr>cs_uses := fold List.insert (snd d) (cs_uses st)\<rparr>))"

definition lower_step :: "types \<Rightarrow> lowerer \<Rightarrow> lowerer" where
  "lower_step types L env node =
     pbind (counted MAX_EXPR_NODES) (\<lambda>_. case static_name node of
       None \<Rightarrow> lower_node types L env node
     | Some path \<Rightarrow> (case env path of
         Inr d \<Rightarrow> noted d
       | Inl (KeyError _) \<Rightarrow>
           if sy_op node = ''name'' then raise_expr ''expression_signal_unresolved'' else lower_node types L env node
       | Inl e \<Rightarrow> pfail e))"

primrec lower_at :: "types \<Rightarrow> nat \<Rightarrow> lowerer" where
  "lower_at types 0 = (\<lambda>env node. raise_expr ''dynamic_expression_limit'')"
| "lower_at types (Suc r) = lower_step types (lower_at types r)"

definition from_resolve :: "(string \<Rightarrow> typed result) \<Rightarrow> resolver" where
  "from_resolve resolve name = ebind (resolve name) (\<lambda>v. Inr (v, []))"

definition lower_tree :: "(string \<Rightarrow> typed result) \<Rightarrow> types \<Rightarrow> stree \<Rightarrow> (typed \<times> cstate) result" where
  "lower_tree resolve types node =
     lower_at types (Suc MAX_EXPR_DEPTH) (from_resolve resolve) node \<lparr>cs_count = 0, cs_uses = []\<rparr>"

definition checked_expr :: "expr \<Rightarrow> unit result" where
  "checked_expr e = (case expr_from_dict (expr_to_json e) of
     Inr _ \<Rightarrow> Inr ()
   | Inl (ValueError msg) \<Rightarrow>
       if msg = ''dynamic_expression_limit'' \<or> msg = ''dynamic_expression_width_limit''
       then Inl (ExpressionError msg) else Inl (ValueError msg)
   | Inl er \<Rightarrow> Inl er)"

definition compile_expr :: "(string \<Rightarrow> typed result) \<Rightarrow> types \<Rightarrow> string \<Rightarrow> (typed \<times> cstate) result" where
  "compile_expr resolve types text =
     ebind (parse text) (\<lambda>node. ebind (lower_tree resolve types node) (\<lambda>(v, st).
     ebind (checked_expr (ty_expr v)) (\<lambda>_.
       if unpacked v then Inl (ExpressionError ''expression_array_requires_selection'') else Inr (v, st))))"

end
