(* ===== verification/Sv_Compile_Laws.thy ===== *)
theory Sv_Compile_Laws
  imports Sv_Compile Dyn_Expr_Laws
begin

text \<open>
  Lowering keeps the types: \<open>typed_in True v\<close> says that every node of the expression of \<open>v\<close> passed
  its checks and that its width and signedness are the ones of the type. (\<open>typed_in False\<close> leaves the
  signedness out: \<open>metadata\<close> gives a declared type an unsigned constant.) \<open>gives p Q\<close> is partial
  correctness of a computation that threads the compiler's state; its rules (\<open>gives_rules\<close>)
  decompose the branches of \<open>lower\<close>.
\<close>

named_theorems gives_rules \<open>decomposition of lowering\<close>

definition gives :: "('s, 'a) run \<Rightarrow> ('a \<Rightarrow> bool) \<Rightarrow> bool" where
  "gives p Q \<longleftrightarrow> (\<forall>st x st'. p st = Inr (x, st') \<longrightarrow> Q x)"

lemma gives_bind [gives_rules]: "gives p (\<lambda>x. gives (f x) Q) \<Longrightarrow> gives (pbind p f) Q"
  by (auto simp: gives_def pbind_def err_simps) blast

lemma gives_return [gives_rules]: "Q x \<Longrightarrow> gives (preturn x) Q"
  by (simp add: gives_def preturn_def)

lemma gives_fail [gives_rules]: "gives (pfail e) Q" "gives (raise_expr r) Q"
  by (simp_all add: gives_def pfail_def raise_expr_def)

lemma gives_reject [gives_rules]: "(\<not> b \<Longrightarrow> Q ()) \<Longrightarrow> gives (reject b r) Q"
  by (simp add: reject_def gives_rules)

lemma gives_lift [gives_rules]: "(\<And>x. r = Inr x \<Longrightarrow> Q x) \<Longrightarrow> gives (plift r) Q"
  by (auto simp: gives_def plift_def err_simps)

lemma gives_if: "(b \<Longrightarrow> gives p Q) \<Longrightarrow> (\<not> b \<Longrightarrow> gives q Q) \<Longrightarrow> gives (if b then p else q) Q"
  by simp

lemma gives_mono: "gives p Q \<Longrightarrow> (\<And>x. Q x \<Longrightarrow> R x) \<Longrightarrow> gives p R"
  by (auto simp: gives_def)

lemma gives_all:
  assumes "\<And>x. x \<in> set xs \<Longrightarrow> gives (f x) P" shows "gives (mapMS f xs) (\<lambda>ys. list_all P ys)"
  using assms
proof (induction xs)
  case Nil
  then show ?case by (simp add: gives_def)
next
  case (Cons x xs)
  then have "gives (f x) P" "gives (mapMS f xs) (\<lambda>ys. list_all P ys)" by auto
  then show ?case by (auto simp: gives_def err_simps) blast+
qed

text \<open>The same for results without a state.\<close>

definition holds :: "'a result \<Rightarrow> ('a \<Rightarrow> bool) \<Rightarrow> bool" where
  "holds r Q \<longleftrightarrow> (\<forall>x. r = Inr x \<longrightarrow> Q x)"

lemma holds_bind [gives_rules]: "holds r (\<lambda>x. holds (f x) Q) \<Longrightarrow> holds (ebind r f) Q"
  by (auto simp: holds_def err_simps)

lemma holds_simps [simp]: "holds (Inl e) Q" "holds (Inr x) Q \<longleftrightarrow> Q x"
  by (simp_all add: holds_def)

lemma holds_if [gives_rules]: "(b \<Longrightarrow> holds r Q) \<Longrightarrow> (\<not> b \<Longrightarrow> holds s Q) \<Longrightarrow> holds (if b then r else s) Q"
  by simp

lemma holdsI: "(\<And>x. r = Inr x \<Longrightarrow> Q x) \<Longrightarrow> holds r Q"
  by (simp add: holds_def)

lemma holdsD: "holds r Q \<Longrightarrow> r = Inr x \<Longrightarrow> Q x"
  by (simp add: holds_def)

lemma holds_mono: "holds r Q \<Longrightarrow> (\<And>x. Q x \<Longrightarrow> R x) \<Longrightarrow> holds r R"
  by (auto simp: holds_def)

lemma holds_index: "(\<And>x. x \<in> set xs \<Longrightarrow> Q x) \<Longrightarrow> holds (py_index xs i) Q"
  by (auto simp: holds_def py_index_def split: if_splits)

lemma holds_all: "(\<And>x. x \<in> set xs \<Longrightarrow> holds (f x) P) \<Longrightarrow> holds (mapM f xs) (\<lambda>ys. \<forall>y \<in> set ys. P y)"
proof (induction xs)
  case (Cons x xs)
  have "holds (f x) P" "holds (mapM f xs) (\<lambda>ys. \<forall>y \<in> set ys. P y)" using Cons by auto
  then show ?case by (auto simp: holds_def ebind_Inr_iff)
qed simp

lemma gives_lift_holds: "holds r Q \<Longrightarrow> gives (plift r) Q"
  by (auto simp: gives_def plift_def err_simps holds_def)

section \<open>Types and expressions\<close>

definition typed_in :: "bool \<Rightarrow> typed \<Rightarrow> bool" where
  "typed_in s v \<longleftrightarrow> expr_ok (ty_expr v) \<and> type_ok (ty_type v) \<and>
     e_width (enode_of (ty_expr v)) = t_width (ty_type v) \<and>
     (s \<longrightarrow> e_signed (enode_of (ty_expr v)) = t_signed (ty_type v))"

lemma mk_type_Inr: "mk_type t = Inr u \<Longrightarrow> u = t \<and> 1 \<le> t_width t \<and> t_width t \<le> MAX_EXPR_WIDTH"
  by (auto simp: mk_type_def split: if_splits)

lemma type_ok_iff: "type_ok t \<longleftrightarrow> is_ok (mk_type t) \<and> (\<forall>m \<in> set (t_members t). type_ok (snd (snd m)))"
  by (cases t) simp

lemma plain_Inr: "plain w sg = Inr t \<Longrightarrow> t = plain_type w sg False \<and> type_ok t"
proof -
  assume h: "plain w sg = Inr t"
  then have "t = plain_type w sg False" unfolding plain_def using mk_type_Inr by blast
  moreover from this have "mk_type t = Inr t" using h by (simp only: plain_def)
  moreover have "t_members (plain_type w sg False) = []" by (simp add: plain_type_def)
  ultimately show ?thesis by (subst type_ok_iff) simp
qed

lemma plain_type_sel [simp]: "t_width (plain_type w sg two) = w" "t_signed (plain_type w sg two) = sg"
  "t_unpacked (plain_type w sg two) = []" "t_members (plain_type w sg two) = []" "t_two (plain_type w sg two) = two"
  by (simp_all add: plain_type_def)

lemma mk_expr_ok: "mk_expr n xs = Inr e \<Longrightarrow> \<forall>x \<in> set xs. expr_ok x \<Longrightarrow> expr_ok e \<and> enode_of e = n \<and> eargs e = xs"
  by (simp add: mk_expr_Inr)

lemma enode0_sel [simp]: "e_width (enode0 opr w) = w" "e_op (enode0 opr w) = opr" "e_signed (enode0 opr w) = False"
  by (simp_all add: enode0_def)

lemma op_expr_ok: "op_expr opr w xs sg = Inr e \<Longrightarrow> \<forall>x \<in> set xs. expr_ok x \<Longrightarrow>
    expr_ok e \<and> e_width (enode_of e) = w \<and> e_signed (enode_of e) = sg"
  by (auto simp: op_expr_def dest!: mk_expr_ok)

lemma const_expr_ok: "const_expr v w sg fl = Inr e \<Longrightarrow> expr_ok e \<and> e_width (enode_of e) = w \<and> e_signed (enode_of e) = sg"
  by (auto simp: const_expr_def dest!: mk_expr_ok)

lemma typed_plain_ok:
  assumes "typed_plain r w sg = Inr v" "\<And>e. r = Inr e \<Longrightarrow> expr_ok e \<and> e_width (enode_of e) = w \<and> e_signed (enode_of e) = sg"
  shows "typed_in s v"
  using assms by (auto simp: typed_plain_def err_simps typed_in_def mk_typed_def dest!: plain_Inr)

lemma typed_plain_const: "typed_plain (const_expr v w sg fl) w sg = Inr x \<Longrightarrow> typed_in s x"
  by (erule typed_plain_ok) (rule const_expr_ok)

lemma mk_typed_ok: "expr_ok e \<Longrightarrow> type_ok t \<Longrightarrow> e_width (enode_of e) = t_width t \<Longrightarrow> e_signed (enode_of e) = t_signed t \<Longrightarrow>
    typed_in s (mk_typed e t)"
  by (simp add: typed_in_def mk_typed_def)

section \<open>Literals\<close>

lemma decimal_literal_ok: "decimal_literal t = Inr v \<Longrightarrow> typed_in s v"
  by (auto simp: decimal_literal_def err_simps Let_def split: if_splits dest!: typed_plain_const)

lemma based_literal_ok: "based_literal d sg b p = Inr v \<Longrightarrow> typed_in s v"
  by (auto simp: based_literal_def err_simps split: if_splits dest!: typed_plain_const)

lemma literal_ok: "literal t = Inr v \<Longrightarrow> typed_in s v"
  by (auto simp: literal_def err_simps Let_def typed_in_def split: if_splits option.splits
      dest!: const_expr_ok plain_Inr based_literal_ok [unfolded typed_in_def] decimal_literal_ok [unfolded typed_in_def])

section \<open>context\<close>

lemma node_holds: "\<forall>x \<in> set ys. expr_ok x \<Longrightarrow>
    holds (mk_expr (n\<lparr>e_width := w, e_signed := sg\<rparr>) ys) (\<lambda>e. expr_ok e \<and> e_width (enode_of e) = w \<and> e_signed (enode_of e) = sg)"
  by (auto simp: holds_def dest: mk_expr_ok)

lemma context_step_ok:
  assumes "\<forall>x \<in> set xs. expr_ok x" "\<forall>r \<in> set rs. holds r expr_ok"
  shows "holds (context_step n xs w sg rs) (\<lambda>e. expr_ok e \<and> e_width (enode_of e) = w \<and> e_signed (enode_of e) = sg)"
    (is "holds _ ?Q")
proof -
  have all: "holds (mapM id rs') (\<lambda>ys. \<forall>y \<in> set ys. expr_ok y)" if "set rs' \<subseteq> set rs" for rs'
    by (rule holds_all) (use that assms(2) in auto)
  have first: "holds (py_index rs i) (\<lambda>r. holds (id r) R)" if "\<And>a. expr_ok a \<Longrightarrow> R a" for i R
    by (rule holds_index) (use assms(2) that in \<open>auto intro: holds_mono\<close>)
  have arg: "holds (py_index xs i) expr_ok" for i
    by (rule holds_index) (use assms(1) in auto)
  show ?thesis
    unfolding context_step_def Let_def
  proof (intro gives_rules)
    assume "e_fill n"
    show "holds (case e_value n of None \<Rightarrow> Inl TypeError | Some [] \<Rightarrow> Inl IndexError
         | Some (c # _) \<Rightarrow> const_expr (replicate (nat w) c) w sg True) ?Q"
      by (auto simp: const_expr_ok intro!: holdsI split: option.splits list.splits)
  next
    show "holds (mapM id rs) (\<lambda>x. holds (mk_expr (n\<lparr>e_width := w, e_signed := sg\<rparr>) x) ?Q)"
      by (rule holds_mono [OF all [OF subset_refl]], rule node_holds)
  next
    show "holds (py_index rs 0) (\<lambda>r. holds (id r)
       (\<lambda>a. holds (ebind (py_index xs 1) (\<lambda>b. mk_expr (n\<lparr>e_width := w, e_signed := sg\<rparr>) [a, b])) ?Q))"
      by (rule first, rule holds_bind, rule holds_mono [OF arg], rule node_holds) simp
  next
    show "holds (py_index rs 0) (\<lambda>r. holds (id r) (\<lambda>a. holds (mk_expr (n\<lparr>e_width := w, e_signed := sg\<rparr>) [a]) ?Q))"
      by (rule first, rule node_holds) simp
  next
    show "holds (mapM id (drop 1 rs))
       (\<lambda>ys. holds (ebind (py_index xs 0) (\<lambda>c. mk_expr (n\<lparr>e_width := w, e_signed := sg\<rparr>) (c # ys))) ?Q)"
      by (rule holds_mono [OF all [OF set_drop_subset]], rule holds_bind, rule holds_mono [OF arg], rule node_holds) simp
  next
    show "holds (mk_expr (n\<lparr>e_signed := sg\<rparr>) xs) (\<lambda>x. holds (if w = e_width n then Inr x else op_expr ''cast'' w [x] sg) ?Q)"
      by (intro holdsI gives_rules) (use assms(1) in \<open>auto dest!: mk_expr_ok op_expr_ok\<close>)
  qed
qed

lemma context_ok:
  "expr_ok e \<Longrightarrow> holds (context_expr e w sg) (\<lambda>e'. expr_ok e' \<and> e_width (enode_of e') = w \<and> e_signed (enode_of e') = sg)"
proof (induction e)
  case (Expr n xs)
  show ?case unfolding context_expr.simps
  proof (rule context_step_ok)
    show "\<forall>x \<in> set xs. expr_ok x" using Expr.prems by simp
    have "holds (ebind (plain (e_width (enode_of a)) (e_signed (enode_of a))) (\<lambda>_.
       ebind (context_expr a w sg) (\<lambda>a'. ebind (plain w sg) (\<lambda>_. Inr a')))) expr_ok" if "a \<in> set xs" for a
      using Expr.IH [OF that] Expr.prems that by (auto simp: holds_def err_simps)
    then show "\<forall>r \<in> set (map (\<lambda>a. ebind (plain (e_width (enode_of a)) (e_signed (enode_of a))) (\<lambda>_.
       ebind (context_expr a w sg) (\<lambda>a'. ebind (plain w sg) (\<lambda>_. Inr a')))) xs). holds r expr_ok" by simp
  qed
qed

lemma context_typed_ok:
  assumes "typed_in s v"
  shows "holds (context_typed v w sg) (\<lambda>u. typed_in s u \<and> ty_type u = plain_type w sg False)"
  using context_ok [of "ty_expr v" w sg] assms
  by (auto simp: context_typed_def typed_in_def holds_def err_simps dest!: plain_Inr)


section \<open>Operators\<close>

definition good_env :: "bool \<Rightarrow> resolver \<Rightarrow> bool" where
  "good_env s env \<longleftrightarrow> (\<forall>p d. env p = Inr d \<longrightarrow> typed_in s (fst d))"

definition good_types :: "types \<Rightarrow> bool" where
  "good_types types \<longleftrightarrow> (\<forall>p t. types p = Some t \<longrightarrow> type_ok t)"

definition good_lower :: "lowerer \<Rightarrow> bool" where
  "good_lower L \<longleftrightarrow> (\<forall>s env node. good_env s env \<longrightarrow> gives (L env node) (typed_in s))"

lemma lower_arg_gives:
  assumes "good_lower L" "good_env s env" "\<And>v. typed_in s v \<Longrightarrow> Q v"
  shows "gives (lower_arg L env xs i) Q"
  unfolding lower_arg_def
  by (intro gives_rules gives_mono [of _ "typed_in s" Q] assms) (use assms in \<open>auto simp: good_lower_def\<close>)

lemma lower_all_gives:
  assumes "good_lower L" "good_env s env" "\<And>vs. list_all (typed_in s) vs \<Longrightarrow> Q vs"
  shows "gives (lower_all L env xs) Q"
  unfolding lower_all_def
  by (rule gives_mono [OF gives_all]) (use assms in \<open>auto simp: good_lower_def\<close>)

lemma typed_parts: "typed_in s v \<Longrightarrow> expr_ok (ty_expr v)" "typed_in s v \<Longrightarrow> type_ok (ty_type v)"
  "typed_in s v \<Longrightarrow> e_width (enode_of (ty_expr v)) = t_width (ty_type v)"
  by (simp_all add: typed_in_def)

lemma op_typed:
  assumes "ebind (op_expr opr (t_width typ) xs (t_signed typ)) (\<lambda>e. Inr (mk_typed e typ)) = Inr v"
    "\<forall>x \<in> set xs. expr_ok x" "type_ok typ"
  shows "typed_in s v"
  using assms by (auto simp: err_simps intro!: mk_typed_ok dest!: op_expr_ok)

lemma node_typed:
  assumes "ebind (mk_expr n xs) (\<lambda>e. Inr (mk_typed e typ)) = Inr v"
    "\<forall>x \<in> set xs. expr_ok x" "type_ok typ" "e_width n = t_width typ" "e_signed n = t_signed typ"
  shows "typed_in s v"
  using assms by (auto simp: err_simps intro!: mk_typed_ok dest!: mk_expr_ok)

lemma lower_unary_gives:
  assumes "good_lower L" "good_env s env" shows "gives (lower_unary L env xs t) (typed_in s)"
  unfolding lower_unary_def Let_def
proof (intro gives_rules lower_arg_gives [OF assms(1,2)] lower_all_gives [OF assms(1,2)])
  fix v x
  assume v: "typed_in s v"
  let ?w = "if unary_op t = ''not'' \<or> starts_with ''reduce_'' (unary_op t) then 1 else t_width (ty_type v)"
  let ?s = "if unary_op t = ''not'' \<or> starts_with ''reduce_'' (unary_op t) then False else t_signed (ty_type v)"
  assume "ebind (plain ?w ?s) (\<lambda>typ. ebind (op_expr (unary_op t) (t_width typ) [ty_expr v] (t_signed typ))
     (\<lambda>e. Inr (mk_typed e typ))) = Inr x"
  then obtain u where "plain ?w ?s = Inr u"
    "ebind (op_expr (unary_op t) (t_width u) [ty_expr v] (t_signed u)) (\<lambda>e. Inr (mk_typed e u)) = Inr x"
    unfolding ebind_Inr_iff by blast
  then show "typed_in s x" using op_typed v plain_Inr by (simp add: typed_parts)
qed

lemma common_context_ok:
  assumes "common_context a b = Inr (w, sg, a', b')" "typed_in s a" "typed_in s b"
  shows "typed_in s a' \<and> typed_in s b'"
proof -
  have "holds (common_context a b) (\<lambda>(w, sg, a', b'). typed_in s a' \<and> typed_in s b')"
    unfolding common_context_def Let_def
    by (intro gives_rules holds_mono [OF context_typed_ok [OF assms(2)]] holds_mono [OF context_typed_ok [OF assms(3)]]) simp
  then show ?thesis using assms(1) by (simp add: holds_def)
qed

lemma ebindE: "ebind m f = Inr y \<Longrightarrow> (\<And>x. m = Inr x \<Longrightarrow> f x = Inr y \<Longrightarrow> thesis) \<Longrightarrow> thesis"
  by (cases m) auto

lemma list_two: "two_of xs = Inr (a, b) \<Longrightarrow> xs = [a, b]"
  by (auto simp: two_of_def split: list.splits)

lemma list_three: "three_of xs = Inr (a, b, c) \<Longrightarrow> xs = [a, b, c]"
  by (auto simp: three_of_def split: list.splits)

lemma op_plain_typed:
  assumes "typed_plain (op_expr opr w xs sg) w sg = Inr v" "\<forall>x \<in> set xs. expr_ok x"
  shows "typed_in s v"
  using assms by (auto intro: typed_plain_ok dest: op_expr_ok)

lemma gives_two: "(\<And>a b. vs = [a, b] \<Longrightarrow> gives (f a b) Q) \<Longrightarrow> gives (pbind (plift (two_of vs)) (\<lambda>(a, b). f a b)) Q"
  by (intro gives_bind gives_lift) (auto dest: list_two)

lemma gives_three:
  "(\<And>a b c. vs = [a, b, c] \<Longrightarrow> gives (f a b c) Q) \<Longrightarrow> gives (pbind (plift (three_of vs)) (\<lambda>(a, b, c). f a b c)) Q"
  by (intro gives_bind gives_lift) (auto dest: list_three)

lemma lower_mux_gives:
  assumes "good_lower L" "good_env s env" shows "gives (lower_mux L env xs) (typed_in s)"
  unfolding lower_mux_def
proof (rule gives_bind, rule lower_all_gives [OF assms], rule gives_three, intro gives_rules)
  fix vs c a b x
  assume "list_all (typed_in s) vs" "vs = [c, a, b]"
  then have ok: "typed_in s c" "typed_in s a" "typed_in s b" by auto
  assume "ebind (common_context a b) (\<lambda>(w, sg, a', b').
      typed_plain (op_expr ''mux'' w [ty_expr c, ty_expr a', ty_expr b'] sg) w sg) = Inr x"
  then obtain w sg a' b' where cc: "common_context a b = Inr (w, sg, a', b')"
    "typed_plain (op_expr ''mux'' w [ty_expr c, ty_expr a', ty_expr b'] sg) w sg = Inr x"
    by (auto simp: ebind_Inr_iff)
  show "typed_in s x"
    by (rule op_plain_typed [OF cc(2)]) (use ok common_context_ok [OF cc(1), where s = s] in \<open>auto simp: typed_parts\<close>)
qed

lemma lower_binary_gives:
  assumes "good_lower L" "good_env s env" shows "gives (lower_binary L env xs opr) (typed_in s)"
  unfolding lower_binary_def
proof (rule gives_bind, rule lower_all_gives [OF assms], rule gives_two, intro gives_rules)
  fix vs a b x
  assume "list_all (typed_in s) vs" "vs = [a, b]"
  then have ok: "typed_in s a" "typed_in s b" by auto
  let ?r = "if opr \<in> set LEFT_TYPED then Inr (t_width (ty_type a), t_signed (ty_type a), a, b) else common_context a b"
  have logical: "typed_in s x" if "typed_plain (op_expr opr 1 [ty_expr a, ty_expr b] False) 1 False = Inr x"
    by (rule op_plain_typed [OF that]) (use ok in \<open>auto simp: typed_parts\<close>)
  have other: "typed_in s x" if "?r = Inr (w, sg, a', b')" "(if opr \<in> set COMPARISONS then plain 1 False else plain w sg) = Inr u"
    "ebind (op_expr opr (t_width u) [ty_expr a', ty_expr b'] (t_signed u)) (\<lambda>e. Inr (mk_typed e u)) = Inr x" for w sg a' b' u
  proof (rule op_typed [OF that(3)])
    show "\<forall>e \<in> set [ty_expr a', ty_expr b']. expr_ok e"
      using that(1) ok common_context_ok [of a b w sg a' b' s] typed_parts(1) [of s a'] typed_parts(1) [of s b']
      by (auto simp: typed_parts split: if_splits)
    show "type_ok u" using that(2) plain_Inr by (simp split: if_splits)
  qed
  assume h: "(if opr \<in> set LOGICAL then typed_plain (op_expr opr 1 [ty_expr a, ty_expr b] False) 1 False
     else ebind ?r (\<lambda>(w, sg, a', b'). ebind (if opr \<in> set COMPARISONS then plain 1 False else plain w sg) (\<lambda>typ.
       ebind (op_expr opr (t_width typ) [ty_expr a', ty_expr b'] (t_signed typ)) (\<lambda>e. Inr (mk_typed e typ))))) = Inr x"
  show "typed_in s x"
  proof (cases "opr \<in> set LOGICAL")
    case True
    then show ?thesis using h logical by simp
  next
    case False
    then obtain q where q: "?r = Inr q" "(case q of (w, sg, a', b') \<Rightarrow>
       ebind (if opr \<in> set COMPARISONS then plain 1 False else plain w sg) (\<lambda>typ.
       ebind (op_expr opr (t_width typ) [ty_expr a', ty_expr b'] (t_signed typ)) (\<lambda>e. Inr (mk_typed e typ)))) = Inr x"
      using h unfolding if_not_P [OF False] ebind_Inr_iff by blast
    obtain w sg a' b' where p: "q = (w, sg, a', b')" by (cases q)
    show ?thesis by (rule ebindE [OF q(2) [unfolded p prod.case]]) (rule other [OF q(1) [unfolded p]])
  qed
qed

lemma typed_list: "list_all (typed_in s) vs \<Longrightarrow> \<forall>e \<in> set (map ty_expr vs). expr_ok e"
  by (auto simp: list_all_iff typed_parts)

lemma lower_concat_gives:
  assumes "good_lower L" "good_env s env" shows "gives (lower_concat L env xs) (typed_in s)"
  unfolding lower_concat_def
proof (intro gives_rules lower_arg_gives [OF assms(1,2)] lower_all_gives [OF assms(1,2)])
  fix vs x
  assume vs: "list_all (typed_in s) vs"
  assume "ebind (plain (\<Sum>v\<leftarrow>vs. t_width (ty_type v)) False) (\<lambda>typ.
     ebind (op_expr ''concat'' (t_width typ) (map ty_expr vs) False) (\<lambda>e. Inr (mk_typed e typ))) = Inr x"
  then obtain u e where "plain (\<Sum>v\<leftarrow>vs. t_width (ty_type v)) False = Inr u"
    "op_expr ''concat'' (t_width u) (map ty_expr vs) False = Inr e" "x = mk_typed e u"
    unfolding ebind_Inr_iff by blast
  then show "typed_in s x" using typed_list [OF vs] plain_Inr op_expr_ok by (metis mk_typed_ok plain_type_sel(2))
qed


lemma mk_type_ok: "mk_type t = Inr u \<Longrightarrow> \<forall>m \<in> set (t_members t). type_ok (snd (snd m)) \<Longrightarrow> u = t \<and> type_ok t"
  by (subst type_ok_iff) (auto dest: mk_type_Inr)

lemma members_ok: "type_ok t \<Longrightarrow> m \<in> set (t_members t) \<Longrightarrow> type_ok (snd (snd m))"
  by (cases t) auto

lemma with_signed_ok: "with_signed t sg = Inr u \<Longrightarrow> type_ok t \<Longrightarrow> type_ok u"
  unfolding with_signed_def by (drule mk_type_ok) (auto simp: members_ok)

lemma lower_repeat_gives:
  assumes "good_lower L" "good_env s env" shows "gives (lower_repeat L env xs opr t) (typed_in s)"
  unfolding lower_repeat_def Let_def
proof (rule gives_bind, rule lower_all_gives [OF assms], rule gives_two, intro gives_rules)
  fix vs a b k x and w :: int and name :: string
  assume "list_all (typed_in s) vs" "vs = [a, b]"
  then have ok: "\<forall>e \<in> set [ty_expr a, ty_expr b]. expr_ok e" by (auto simp: typed_parts)
  have step: "typed_in s x" if "ebind (plain w False) (\<lambda>typ. ebind (op_expr name w [ty_expr a, ty_expr b] False)
      (\<lambda>e. Inr (mk_typed e typ))) = Inr x" for w name
    using that ok by (elim ebindE) (auto dest!: plain_Inr op_expr_ok intro!: mk_typed_ok)
  assume "ebind (plain (if opr = ''repeat'' then k * t_width (ty_type b) else t_width (ty_type a)) False) (\<lambda>typ.
      ebind (op_expr (if opr = ''repeat'' then ''repeat'' else if t = ''<<'' then ''stream_left'' else ''stream_right'')
        (if opr = ''repeat'' then k * t_width (ty_type b) else t_width (ty_type a)) [ty_expr a, ty_expr b] False)
      (\<lambda>e. Inr (mk_typed e typ))) = Inr x"
  then show "typed_in s x" by (rule step)
qed

section \<open>Casts and selections\<close>

lemma plain_type_ok: "mk_type (plain_type w sg two) = Inr u \<Longrightarrow> type_ok u"
  by (drule mk_type_ok) auto

lemma cast_type_ok:
  assumes "cast_type types target vt = Inr u" "good_types types" "type_ok vt" shows "type_ok u"
proof (cases "map_of INTEGER_TYPES target")
  case None
  have "type_ok u" if "types target = Some u" using that assms(2) by (simp add: good_types_def)
  then show ?thesis
    using assms(1,3) None with_signed_ok plain_Inr
    by (auto simp: cast_type_def ebind_Inr_iff split: if_splits option.splits)
next
  case (Some q)
  then show ?thesis using assms(1) plain_type_ok by (cases q) (simp add: cast_type_def)
qed

lemma lower_cast_gives:
  assumes "good_lower L" "good_env s env" "good_types types" shows "gives (lower_cast types L env xs target) (typed_in s)"
  unfolding lower_cast_def
proof (intro gives_rules lower_arg_gives [OF assms(1,2)] lower_all_gives [OF assms(1,2)])
  fix v u x
  assume v: "typed_in s v" and u: "cast_type types target (ty_type v) = Inr u"
  have t: "type_ok u" using cast_type_ok [OF u assms(3)] v by (simp add: typed_parts)
  assume "ebind (context_typed v (max (t_width (ty_type v)) (t_width u)) (t_signed (ty_type v))) (\<lambda>inner.
     ebind (mk_expr ((enode0 ''cast'' (t_width u))\<lparr>e_signed := t_signed u, e_two_state := t_two u\<rparr>) [ty_expr inner])
     (\<lambda>e. Inr (mk_typed e u))) = Inr x"
  then show "typed_in s x"
  proof (rule ebindE)
    fix y
    assume y: "context_typed v (max (t_width (ty_type v)) (t_width u)) (t_signed (ty_type v)) = Inr y"
    have "typed_in s y" using holdsD [OF context_typed_ok [OF v] y] by simp
    moreover assume "ebind (mk_expr ((enode0 ''cast'' (t_width u))\<lparr>e_signed := t_signed u, e_two_state := t_two u\<rparr>)
      [ty_expr y]) (\<lambda>e. Inr (mk_typed e u)) = Inr x"
    ultimately show ?thesis using node_typed t by (simp add: typed_parts)
  qed
qed

lemma typed_member: "typed_in s v \<Longrightarrow> (n, off, u) \<in> set (t_members (ty_type v)) \<Longrightarrow> type_ok u"
  using members_ok [of "ty_type v" "(n, off, u)"] by (simp add: typed_parts)

lemma array_item_ok: "array_item base index = Inr x \<Longrightarrow> typed_in s base \<Longrightarrow> typed_in s index \<Longrightarrow> typed_in s x"
  unfolding array_item_def Let_def
  by (elim ebindE, drule mk_type_ok) (auto simp: typed_parts intro: typed_member intro!: mk_typed_ok dest!: mk_expr_ok)

lemma bit_item_ok: "bit_item base index = Inr x \<Longrightarrow> typed_in s base \<Longrightarrow> typed_in s index \<Longrightarrow> typed_in s x"
  unfolding bit_item_def Let_def
  by (elim ebindE, drule mk_type_ok) (auto simp: typed_parts intro: typed_member intro!: mk_typed_ok dest!: mk_expr_ok)

lemma part_range_ok: "part_range t index amount kind = Inr (i, k, opr) \<Longrightarrow> typed_in s index \<Longrightarrow> typed_in s i"
  by (auto simp: part_range_def Let_def ebind_Inr_iff split: if_splits dest: typed_plain_const)

lemma part_item_ok:
  assumes "part_item base index amount kind = Inr x" "typed_in s base" "typed_in s index" shows "typed_in s x"
proof -
  let ?t = "ty_type base" and ?s = "base_stride (ty_type base)"
  obtain i k opr where r: "part_range ?t index amount kind = Inr (i, k, opr)"
    and x: "typed_plain (mk_expr ((enode0 opr (k * ?s))\<lparr>e_bounds := Some (base_bounds ?t), e_stride := ?s\<rparr>)
      [ty_expr base, ty_expr i]) (k * ?s) False = Inr x"
    using assms(1) unfolding part_item_def Let_def by (auto simp: ebind_Inr_iff split: if_splits)
  show ?thesis
    by (rule typed_plain_ok [OF x]) (use part_range_ok [OF r assms(3)] assms(2) in \<open>auto simp: typed_parts dest!: mk_expr_ok\<close>)
qed

lemma lower_select_gives:
  assumes "good_lower L" "good_env s env" shows "gives (lower_select L env xs opr kind) (typed_in s)"
  unfolding lower_select_def
proof (intro gives_rules gives_if lower_arg_gives [OF assms(1,2)] lower_all_gives [OF assms(1,2)])
qed (auto intro: array_item_ok bit_item_ok part_item_ok)

lemma member_item_ok:
  assumes "member_item base name = Inr x" "typed_in s base" shows "typed_in s x"
proof -
  obtain n off u where f: "find (\<lambda>m. fst m = name) (t_members (ty_type base)) = Some (n, off, u)"
    and x: "ebind (mk_expr ((enode0 ''project'' (t_width u))\<lparr>e_signed := t_signed u,
       e_bits := [t_width (ty_type base) - off - t_width u .. t_width (ty_type base) - off - 1]\<rparr>) [ty_expr base])
       (\<lambda>e. Inr (mk_typed e u)) = Inr x"
    using assms(1) by (auto simp: member_item_def Let_def split: option.splits if_splits)
  have "(n, off, u) \<in> set (t_members (ty_type base))" using f by (auto simp: find_Some_iff)
  then have "type_ok u" using members_ok [of "ty_type base"] assms(2) by (fastforce simp: typed_parts)
  then show ?thesis using node_typed [OF x] assms(2) by (simp add: typed_parts)
qed

lemma lower_member_gives:
  assumes "good_lower L" "good_env s env" shows "gives (lower_member L env xs t) (typed_in s)"
  unfolding lower_member_def by (intro gives_rules lower_arg_gives [OF assms(1,2)] lower_all_gives [OF assms(1,2)]) (rule member_item_ok)

lemma lower_set_gives:
  assumes "good_lower L" "good_env s env" shows "gives (lower_set L env xs opr) (typed_in s)"
  unfolding lower_set_def Let_def
  by (intro gives_rules lower_arg_gives [OF assms(1,2)] lower_all_gives [OF assms(1,2)]) (erule op_plain_typed, erule typed_list)



section \<open>System functions\<close>

lemma typed_weaken: "typed_in s v \<Longrightarrow> typed_in False v"
  by (simp add: typed_in_def)

lemma good_env_weaken: "good_env s env \<Longrightarrow> good_env False env"
  unfolding good_env_def by (blast intro: typed_weaken)

lemma declared_ok:
  assumes "ebind (const_expr v (t_width t) False False) (\<lambda>e. Inr (mk_typed e t, notes)) = Inr d" "type_ok t"
  shows "typed_in False (fst d)"
  using assms by (auto elim!: ebindE dest!: const_expr_ok simp: typed_in_def mk_typed_def)

lemma metadata_good:
  assumes "good_env s env" "good_types types" shows "good_env False (metadata types env)"
  unfolding good_env_def
proof (intro allI impI)
  fix p d
  assume h: "metadata types env p = Inr d"
  show "typed_in False (fst d)"
  proof (cases "types p")
    case (Some t)
    then have "type_ok t" using assms(2) by (simp add: good_types_def)
    then show ?thesis using h Some declared_ok by (simp add: metadata_def)
  next
    case None
    show ?thesis
    proof (cases "map_of INTEGER_TYPES p")
      case None
      then have "env p = Inr d" using h \<open>types p = None\<close> by (simp add: metadata_def)
      then show ?thesis using good_env_weaken [OF assms(1)] unfolding good_env_def by blast
    next
      case (Some q)
      obtain w sg two where q: "q = (w, sg, two)" by (cases q)
      have "ebind (mk_type (plain_type w sg two)) (\<lambda>t. ebind (const_expr (replicate (nat (t_width t)) CHR ''0'') (t_width t) False False)
          (\<lambda>e. Inr (mk_typed e t, []))) = Inr d"
        using h \<open>types p = None\<close> Some q by (simp add: metadata_def)
      then show ?thesis by (rule ebindE) (rule declared_ok, assumption, erule plain_type_ok)
    qed
  qed
qed

lemma int_const_ok: "int_const n = Inr v \<Longrightarrow> typed_in s v"
  by (auto simp: int_const_def ebind_Inr_iff dest: typed_plain_const)

lemma dimension_ok:
  assumes "typed_plain (mk_expr ((enode0 ''dimension'' 32)\<lparr>e_dims := ds, e_function := f, e_signed := True\<rparr>) [ty_expr i]) 32 True = Inr v"
    "expr_ok (ty_expr i)"
  shows "typed_in s v"
  by (rule typed_plain_ok [OF assms(1)]) (use assms(2) in \<open>auto dest!: mk_expr_ok\<close>)

lemma query_result_ok:
  assumes "query_result name (first # vs) = Inr x" "\<forall>v \<in> set vs. typed_in s v" shows "typed_in s x"
proof -
  define idx where "idx = (if length (first # vs) = 2 then py_index (first # vs) 1 else literal ''1'')"
  have index: "expr_ok (ty_expr i)" if "idx = Inr i" for i
    using that assms(2) literal_ok [of "''1''" i s]
    by (cases vs) (auto simp: idx_def typed_parts py_index_def split: if_splits)
  have dim: "typed_in s x" if "typed_plain (mk_expr ((enode0 ''dimension'' 32)\<lparr>e_dims := ds, e_function := f, e_signed := True\<rparr>)
      [ty_expr i]) 32 True = Inr x" "idx = Inr i" for ds f i
    by (rule dimension_ok [OF that(1) index [OF that(2)]])
  show ?thesis
    using assms(1) unfolding query_result_def Let_def py_index_simps ebind.simps idx_def [symmetric]
    by (auto split: if_splits elim!: ebindE intro: int_const_ok dim)
qed

lemma lower_query_gives:
  assumes "good_lower L" "good_env s env" "good_types types" shows "gives (lower_query types L env xs name) (typed_in s)"
  unfolding lower_query_def
  by (intro gives_rules lower_arg_gives [OF assms(1) metadata_good [OF assms(2,3)]] lower_all_gives [OF assms(1,2)])
    (auto intro: query_result_ok simp: list_all_iff)

lemma function_type_ok: "function_type name t = Inr u \<Longrightarrow> type_ok t \<Longrightarrow> type_ok u"
  unfolding function_type_def by (metis with_signed_ok plain_Inr)

lemma lower_function_gives:
  assumes "good_lower L" "good_env s env" shows "gives (lower_function L env xs name) (typed_in s)"
  unfolding lower_function_def
proof (intro gives_rules lower_all_gives [OF assms])
  fix vs x
  assume vs: "list_all (typed_in s) vs"
  assume "ebind (py_index vs 0) (\<lambda>first. ebind (function_type name (ty_type first)) (\<lambda>typ.
     ebind (mk_expr ((enode0 ''function'' (t_width typ))\<lparr>e_signed := t_signed typ, e_function := Some name\<rparr>) (map ty_expr vs))
     (\<lambda>e. Inr (mk_typed e typ)))) = Inr x"
  then show "typed_in s x"
  proof (elim ebindE)
    fix first u e
    assume h: "py_index vs 0 = Inr first" "function_type name (ty_type first) = Inr u"
      "mk_expr ((enode0 ''function'' (t_width u))\<lparr>e_signed := t_signed u, e_function := Some name\<rparr>) (map ty_expr vs) = Inr e"
      "Inr (mk_typed e u) = (Inr x :: typed result)"
    have "typed_in s first" using h(1) vs by (auto simp: py_index_def list_all_iff split: if_splits)
    then have "type_ok u" using function_type_ok [OF h(2)] by (simp add: typed_parts)
    then show ?thesis using mk_expr_ok [OF h(3) typed_list [OF vs]] h(4) by (auto intro!: mk_typed_ok)
  qed
qed

lemma lower_call_gives:
  assumes "good_lower L" "good_env s env" "good_types types" shows "gives (lower_call types L env xs name) (typed_in s)"
  unfolding lower_call_def
  by (intro gives_rules gives_if lower_query_gives lower_function_gives assms)

section \<open>lower\<close>

lemma lower_node_gives:
  assumes "good_lower L" "good_env s env" "good_types types" shows "gives (lower_node types L env node) (typed_in s)"
  unfolding lower_node_def Let_def
  by (intro gives_if gives_fail lower_unary_gives lower_binary_gives lower_mux_gives lower_concat_gives lower_repeat_gives
      lower_cast_gives lower_select_gives lower_member_gives lower_set_gives lower_call_gives assms gives_lift literal_ok)

lemma lower_step_gives:
  assumes "good_lower L" "good_env s env" "good_types types" shows "gives (lower_step types L env node) (typed_in s)"
proof -
  have node: "gives (lower_node types L env node) (typed_in s)" by (rule lower_node_gives [OF assms])
  have found: "gives (noted d) (typed_in s)" if "env p = Inr d" for p d
  proof -
    have "typed_in s (fst d)" using that assms(2) unfolding good_env_def by blast
    then show ?thesis by (auto simp: gives_def noted_def)
  qed
  show ?thesis unfolding lower_step_def
  proof (intro gives_bind)
    show "gives (counted MAX_EXPR_NODES) (\<lambda>_. gives (case static_name node of
       None \<Rightarrow> lower_node types L env node
     | Some path \<Rightarrow> (case env path of
         Inr d \<Rightarrow> noted d
       | Inl (KeyError _) \<Rightarrow>
           if sy_op node = ''name'' then raise_expr ''expression_signal_unresolved'' else lower_node types L env node
       | Inl e \<Rightarrow> pfail e)) (typed_in s))"
      unfolding gives_def [of "counted _"]
      by (auto simp: node found gives_fail split: option.splits sum.splits py_error.splits)
  qed
qed

lemma lower_at_good: "good_types types \<Longrightarrow> good_lower (lower_at types r)"
proof (induction r)
  case 0
  show ?case by (simp add: good_lower_def gives_fail)
next
  case (Suc r)
  then show ?case by (simp add: good_lower_def lower_step_gives)
qed

end
