(* ===== verification/Sv_Claims.thy ===== *)
theory Sv_Claims
  imports Sv_Parse_Laws Sv_Compile_Laws Four_State_Laws
begin

text \<open>
  What src/src/expression_parser.py promises on every text: the tokenizer loses nothing, and the
  parser ends with a tree within the node budget or with an \<open>ExpressionError\<close>, a compiled text is
  a checked expression whose width and sign are those of its type, and a literal has the value it
  spells.
\<close>

section \<open>Tokenizing\<close>

text \<open>The lexemes of a text in order, each the first alternative that matches what is left.\<close>

inductive lexemes :: "string \<Rightarrow> string list \<Rightarrow> bool" where
  end_text: "lexemes [] []"
| more_text: "next_lexeme s = Some t \<Longrightarrow> s = t @ rest \<Longrightarrow> lexemes rest ls \<Longrightarrow> lexemes s (t # ls)"

lemma lexemes_concat: "lexemes s ls \<Longrightarrow> concat ls = s"
  by (induction rule: lexemes.induct) auto

lemma lexemes_nonempty: "lexemes s ls \<Longrightarrow> [] \<notin> set ls"
  by (induction rule: lexemes.induct) (auto dest: next_lexeme_prefix)

lemma lex_loop_spec:
  "length s \<le> fuel \<Longrightarrow> int (length toks) \<le> MAX_TOKENS \<Longrightarrow> (case lex_loop fuel s toks of
     Inl e \<Rightarrow> \<exists>r. e = ExpressionError r
   | Inr ts \<Rightarrow> \<exists>ls. lexemes s ls \<and> ts = toks @ filter (\<lambda>l. \<not> skipped l) ls @ [''<end>''] \<and> int (length ts) \<le> MAX_TOKENS + 1)"
proof (induction fuel s toks rule: lex_loop.induct)
  case (1 fuel toks)
  then show ?case by (auto intro: exI [of _ "[]"] lexemes.end_text)
next
  case (2 c cs toks)
  then show ?case by simp
next
  case (3 fuel c cs toks)
  show ?case
  proof (cases "next_lexeme (c # cs)")
    case None
    then show ?thesis by simp
  next
    case (Some t)
    then obtain rest where rest: "c # cs = t @ rest" "t \<noteq> []" using next_lexeme_prefix by blast
    then have len: "length rest \<le> fuel" using "3.prems"(1) by (cases t) auto
    have dropped: "drop (length t) (c # cs) = rest" using rest(1) by simp
    have step: "lexemes rest ls \<Longrightarrow> lexemes (c # cs) (t # ls)" for ls
      by (rule lexemes.more_text [OF Some rest(1)])
    show ?thesis
    proof (cases "skipped t")
      case True
      have "case lex_loop fuel rest toks of Inl e \<Rightarrow> \<exists>r. e = ExpressionError r
          | Inr ts \<Rightarrow> \<exists>ls. lexemes rest ls \<and> ts = toks @ filter (\<lambda>l. \<not> skipped l) ls @ [''<end>''] \<and> int (length ts) \<le> MAX_TOKENS + 1"
        using "3.IH"(1) [OF Some dropped [symmetric] True len "3.prems"(2)] .
      then show ?thesis using Some True step dropped by (fastforce split: sum.splits)
    next
      case False
      show ?thesis
      proof (cases "MAX_TOKENS < int (length toks + 1)")
        case True
        then show ?thesis using Some False by simp
      next
        case small: False
        have "case lex_loop fuel rest (toks @ [t]) of Inl e \<Rightarrow> \<exists>r. e = ExpressionError r
          | Inr ts \<Rightarrow> \<exists>ls. lexemes rest ls \<and> ts = (toks @ [t]) @ filter (\<lambda>l. \<not> skipped l) ls @ [''<end>''] \<and> int (length ts) \<le> MAX_TOKENS + 1"
          using "3.IH"(2) [OF Some dropped [symmetric] False small len] small by simp
        then show ?thesis using Some False small step dropped by (fastforce split: sum.splits)
      qed
    qed
  qed
qed

lemma tokenize_spec:
  "case tokenize s of Inl e \<Rightarrow> \<exists>r. e = ExpressionError r
   | Inr ts \<Rightarrow> \<exists>ls. lexemes s ls \<and> ts = filter (\<lambda>l. \<not> skipped l) ls @ [''<end>''] \<and> int (length ts) \<le> MAX_TOKENS + 1"
  using lex_loop_spec [of s "length s" "[]", unfolded append_Nil] by (simp add: tokenize_def MAX_TOKENS_def)

text \<open>C39. The tokenizer loses nothing: the tokens of an accepted text are, in order, the lexemes the
  text divides into, each one the first alternative of the pattern that matches there, without the
  white space and the comments, followed by the end mark; they are within the limit.\<close>

theorem tokenize_lossless:
  assumes "tokenize s = Inr ts"
  shows "\<exists>ls. lexemes s ls \<and> concat ls = s \<and> [] \<notin> set ls \<and> ts = filter (\<lambda>l. \<not> skipped l) ls @ [''<end>''] \<and>
    int (length ts) \<le> MAX_TOKENS + 1"
  using tokenize_spec [of s] assms lexemes_concat lexemes_nonempty by fastforce

lemma tokenize_lossless_witness:
  "\<exists>ls. lexemes ''a+ //b'' ls \<and> concat ls = ''a+ //b'' \<and> [] \<notin> set ls \<and>
     [''a'', ''+'', ''<end>''] = filter (\<lambda>l. \<not> skipped l) ls @ [''<end>''] \<and> int (length [''a'', ''+'', ''<end>'']) \<le> MAX_TOKENS + 1"
  by (rule tokenize_lossless) code_simp

section \<open>Parsing\<close>

text \<open>C23. Parsing always ends, and only in one of two ways: with an \<open>ExpressionError\<close>, or with a tree
  of at most \<open>MAX_EXPR_NODES\<close> nodes. It never reads past the end of the tokens, and the fuel of its
  loops is never used up.\<close>

theorem parse_total:
  "case parse s of Inl e \<Rightarrow> \<exists>r. e = ExpressionError r | Inr t \<Rightarrow> int (ssize t) \<le> MAX_EXPR_NODES"
proof (cases "tokenize s")
  case (Inl e)
  then show ?thesis using tokenize_spec [of s] by (simp add: parse_def)
next
  case (Inr ts)
  then have e: "ended ts" using tokenize_spec [of s] by (auto simp: ended_def)
  have "wp (p_expr (Suc MAX_EXPR_DEPTH) 0) (\<lambda>x ts' n'. ended ts' \<and> length ts' < length ts \<and> 0 + ssize x \<le> n') ts 0"
    using p_expr_parses e unfolding parses_def by blast
  then show ?thesis
    using Inr by (auto simp: parse_def parse_tokens_def wp_def ended_def MAX_EXPR_NODES_def
        split: sum.splits prod.splits list.splits)
qed


section \<open>Literals\<close>

lemma bin_length_bound: "0 \<le> n \<Longrightarrow> n < 2 ^ bin_length n"
proof (induction n rule: bin_length.induct)
  case (1 n)
  show ?case
  proof (cases "n = 0")
    case False
    then have "n div 2 < 2 ^ bin_length (n div 2)" using 1 by simp
    then have "n < 2 * 2 ^ bin_length (n div 2)" by linarith
    then show ?thesis using False 1 by (subst bin_length.simps) simp
  qed simp
qed

lemma bin_text_value: "0 \<le> n \<Longrightarrow> bits_int (bin_text n) = n"
  using bin_length_bound [of n] by (auto simp: bin_text_def bits_int_int_bits)

lemma read_radix_start: "read_radix r acc p = acc * r ^ length p + read_radix r 0 p"
proof (induction p arbitrary: acc)
  case (Cons c cs)
  show ?case using Cons.IH [of "r * acc + hex_value c"] Cons.IH [of "hex_value c"] by (simp add: algebra_simps)
qed simp

lemma hex_value_nonneg: "c \<in> set PAYLOAD \<Longrightarrow> \<not> unknown_digit c \<Longrightarrow> 0 \<le> hex_value c"
proof -
  have "\<forall>c \<in> set PAYLOAD. unknown_digit c \<or> 0 \<le> hex_value c" by code_simp
  then show "c \<in> set PAYLOAD \<Longrightarrow> \<not> unknown_digit c \<Longrightarrow> 0 \<le> hex_value c" by blast
qed

lemma payload_value:
  assumes "\<forall>c \<in> set p. \<not> unknown_digit c \<and> 0 \<le> hex_value c \<and> hex_value c < 2 ^ k"
  shows "bits_int (concat (map (expand_digit k) p)) = read_radix (2 ^ k) 0 p \<and> length (concat (map (expand_digit k) p)) = k * length p"
  using assms
proof (induction p)
  case (Cons c cs)
  then show ?case
    using read_radix_start [of "2 ^ k" "hex_value c" cs]
    by (simp add: bits_int_append expand_digit_def bits_int_int_bits power_mult)
qed simp

lemma bits_int_last_n: "bits_int (last_n n b) = bits_int b mod 2 ^ n"
proof -
  have "bits_int b = bits_int (take (length b - n) b) * 2 ^ length (last_n n b) + bits_int (last_n n b)"
    using bits_int_append [of "take (length b - n) b" "last_n n b"] by (simp add: last_n_def)
  moreover have "bits_int (last_n n b) < 2 ^ length (last_n n b)" by (rule bits_int_less)
  ultimately show ?thesis
    by (cases "n \<le> length b") (simp_all add: min_def, metis bits_int_less bits_int_nonneg last_n_all linear mod_pos_pos_trivial
        order_less_le_trans power_increasing_iff one_less_numeral_iff semiring_norm(76))
qed

lemma fit_bits_value:
  assumes "b \<noteq> []" "set b \<subseteq> {CHR ''0'', CHR ''1''}"
  shows "bits_int (fit_bits w b) = bits_int b mod 2 ^ nat w"
proof -
  have "\<not> isxz (hd b)" using assms by (cases b) (auto simp: isxz_def)
  then show ?thesis by (simp add: fit_bits_def rjust_def bits_int_append bits_int_last_n)
qed


lemma split_based_Some:
  assumes "split_based raw = Some (d, sg, b, p)"
  shows "3 \<le> length raw" "b \<in> set ''bodh''" "p \<noteq> []" "\<forall>c \<in> set p. c \<in> set PAYLOAD"
proof -
  let ?r = "drop (length (takeWhile is_digit raw)) raw"
  obtain q r1 where r: "?r = q # r1" "q = QUOTE"
    using assms by (cases ?r) (auto simp: split_based_def Let_def split: if_splits)
  let ?r2 = "if r1 \<noteq> [] \<and> hd r1 = CHR ''s'' then tl r1 else r1"
  have "split_based raw = (case ?r2 of [] \<Rightarrow> None | b # p \<Rightarrow> if b \<in> set ''bodh'' \<and> p \<noteq> [] \<and> list_all (\<lambda>c. c \<in> set PAYLOAD) p
      then Some (takeWhile is_digit raw, r1 \<noteq> [] \<and> hd r1 = CHR ''s'', b, p) else None)"
    using r by (simp add: split_based_def Let_def)
  then have *: "?r2 = b # p" "b \<in> set ''bodh''" "p \<noteq> []" "list_all (\<lambda>c. c \<in> set PAYLOAD) p"
    using assms by (cases ?r2; simp only: list.case option.distinct; simp only: split: if_splits; simp)+
  then show "b \<in> set ''bodh''" "p \<noteq> []" "\<forall>c \<in> set p. c \<in> set PAYLOAD" by (auto simp: list_all_iff)
  have "length ?r2 \<le> length r1" by simp
  moreover have "length ?r = Suc (length r1)" using r(1) by simp
  moreover have "length ?r \<le> length raw" by simp
  moreover have "2 \<le> length ?r2" using *(1,3) by (cases p) simp_all
  ultimately show "3 \<le> length raw" by linarith
qed

lemma payload_bits_value:
  assumes "payload_bits b p = Inr bits" "payload_ok b p" "b \<in> set ''bodh''" "p \<noteq> []"
    "\<forall>c \<in> set p. c \<in> set PAYLOAD" "\<forall>c \<in> set p. \<not> unknown_digit c"
  shows "bits_int bits = read_radix (radix_of b) 0 p \<and> bits \<noteq> [] \<and> set bits \<subseteq> {CHR ''0'', CHR ''1''}"
proof (cases "b = CHR ''d''")
  case True
  have nonneg: "0 \<le> acc \<Longrightarrow> \<forall>c \<in> set q. 0 \<le> hex_value c \<Longrightarrow> 0 \<le> read_radix 10 acc q" for acc q
    by (induction q arbitrary: acc) auto
  have "0 \<le> read_radix 10 0 p" using assms(5,6) hex_value_nonneg by (intro nonneg) auto
  moreover have "bits = bin_text (read_radix 10 0 p)"
    using assms(1,6) True by (auto simp: payload_bits_def int_text_def list_ex_iff split: if_splits)
  moreover have "bin_text n \<noteq> []" if "0 \<le> n" for n using that by (auto simp: bin_text_def bin_length.simps)
  moreover have "set (bin_text n) \<subseteq> {CHR ''0'', CHR ''1''}" for n using set_int_bits by (auto simp: bin_text_def)
  ultimately show ?thesis using True bin_text_value by (simp add: radix_of_def)
next
  case False
  have r: "radix_of b = 2 ^ digit_width b" "0 < digit_width b" using assms(3) False by (auto simp: radix_of_def digit_width_def)
  have ok: "\<forall>c \<in> set p. \<not> unknown_digit c \<and> 0 \<le> hex_value c \<and> hex_value c < 2 ^ digit_width b"
    using assms(2,5,6) hex_value_nonneg r by (auto simp: payload_ok_def list_all_iff)
  have bits: "bits = concat (map (expand_digit (digit_width b)) p)" using assms(1) False by (simp add: payload_bits_def)
  have "length bits = digit_width b * length p" using payload_value [OF ok] bits by simp
  then have "bits \<noteq> []" using assms(4) r(2) by auto
  moreover have "set bits \<subseteq> {CHR ''0'', CHR ''1''}"
    using ok set_int_bits unfolding bits by (fastforce simp: expand_digit_def)
  ultimately show ?thesis using payload_value [OF ok] bits r(1) by simp
qed

text \<open>C17. A based literal without unknown digits stands for the number its digits spell in its base,
  truncated to its width; the width is the one written (the digits' own, but at least 32, when none
  is) and the sign is the one written.\<close>

theorem based_literal_value:
  assumes "split_based (lower (filter (\<lambda>c. c \<noteq> CHR ''_'') s)) = Some (d, sg, b, p)" "\<forall>c \<in> set p. \<not> unknown_digit c"
    "literal s = Inr v"
  shows "\<exists>bits. e_value (enode_of (ty_expr v)) = Some bits \<and> int (length bits) = t_width (ty_type v) \<and>
    bits_int bits = read_radix (radix_of b) 0 p mod 2 ^ nat (t_width (ty_type v)) \<and>
    (d \<noteq> [] \<longrightarrow> t_width (ty_type v) = read_radix 10 0 d) \<and> (d = [] \<longrightarrow> 32 \<le> t_width (ty_type v)) \<and>
    t_signed (ty_type v) = sg \<and> \<not> ty_fill v"
proof -
  let ?raw = "lower (filter (\<lambda>c. c \<noteq> CHR ''_'') s)"
  note sp = split_based_Some [OF assms(1)]
  have "based_literal d sg b p = Inr v"
    using assms(1,3) sp(1) by (simp add: literal_def Let_def)
  then have "payload_ok b p" and bl: "ebind (payload_bits b p) (\<lambda>bits. ebind (if d \<noteq> [] then int_text d else Inr (max 32 (int (length bits)))) (\<lambda>w.
      if \<not> (1 \<le> w \<and> w \<le> MAX_EXPR_WIDTH) then Inl (ExpressionError ''expression_width_limit'')
      else typed_plain (const_expr (fit_bits w bits) w sg False) w sg)) = Inr v"
    by (auto simp: based_literal_def split: if_split_asm)
  obtain bits w where h: "payload_ok b p" "payload_bits b p = Inr bits"
    "(if d \<noteq> [] then int_text d else Inr (max 32 (int (length bits)))) = Inr w" "1 \<le> w"
    "typed_plain (const_expr (fit_bits w bits) w sg False) w sg = Inr v"
  proof (rule ebindE [OF bl], erule ebindE)
    fix bits w
    assume "payload_bits b p = Inr bits" "(if d \<noteq> [] then int_text d else Inr (max 32 (int (length bits)))) = Inr w"
      "(if \<not> (1 \<le> w \<and> w \<le> MAX_EXPR_WIDTH) then Inl (ExpressionError ''expression_width_limit'')
      else typed_plain (const_expr (fit_bits w bits) w sg False) w sg) = Inr v"
    then show ?thesis using that [of bits w] \<open>payload_ok b p\<close> by (cases "1 \<le> w \<and> w \<le> MAX_EXPR_WIDTH") simp_all
  qed
  note val = payload_bits_value [OF h(2,1) sp(2,3,4) assms(2)]
  obtain t where v: "v = mk_typed (Expr ((enode0 ''const'' w)\<lparr>e_value := Some (fit_bits w bits), e_signed := sg, e_fill := False\<rparr>) []) t"
    "plain w sg = Inr t"
    using h(5) by (auto simp: typed_plain_def const_expr_def ebind_Inr_iff mk_expr_Inr)
  have t: "t_width t = w" "t_signed t = sg" using plain_Inr [OF v(2)] by simp_all
  have "length (fit_bits w bits) = nat w" by (simp add: fit_bits_def)
  then show ?thesis
    using v t val h(3,4) fit_bits_value [of bits w]
    by (auto simp: mk_typed_def int_text_def split: if_splits)
qed

lemma based_literal_value_witness:
  "\<exists>v bits. literal (''4'' @ [QUOTE] @ ''shF3'') = Inr v \<and> e_value (enode_of (ty_expr v)) = Some bits \<and>
     bits_int bits = 3 \<and> t_width (ty_type v) = 4 \<and> t_signed (ty_type v)"
proof -
  have s: "split_based (lower (filter (\<lambda>c. c \<noteq> CHR ''_'') (''4'' @ [QUOTE] @ ''shF3''))) = Some (''4'', True, CHR ''h'', ''f3'')"
    by code_simp
  have u: "\<forall>c \<in> set ''f3''. \<not> unknown_digit c" by code_simp
  have "is_ok (literal (''4'' @ [QUOTE] @ ''shF3''))" by code_simp
  then obtain v where v: "literal (''4'' @ [QUOTE] @ ''shF3'') = Inr v" unfolding is_ok_iff by blast
  have r: "read_radix (radix_of CHR ''h'') 0 ''f3'' = 243" "read_radix 10 0 ''4'' = 4" by code_simp+
  show ?thesis using based_literal_value [OF s u v] v r by auto
qed

section \<open>Compiling\<close>

lemma checked_expr_limits: "checked_expr e = Inr () \<Longrightarrow> expr_ok e \<and> expr_limits e"
proof -
  assume "checked_expr e = Inr ()"
  then obtain e' where e': "expr_from_dict (expr_to_json e) = Inr e'"
    by (auto simp: checked_expr_def split: sum.splits py_error.splits if_splits)
  then have "e' = e" unfolding expr_from_dict_def ebind_Inr_iff using from_dict_at_inv by (auto simp del: expr_from_dict_at.simps)
  then show ?thesis using from_dict_sound [OF e'] by simp
qed

text \<open>C22. A compiled text is a well-formed expression within the limits of nodes and depth, over a
  packed type of its width and its sign, provided the declarations it was compiled against are.\<close>

theorem compile_typed:
  assumes "compile_expr resolve types s = Inr (v, st)"
    and "\<And>p u. resolve p = Inr u \<Longrightarrow> typed_in True u" and "\<And>p t. types p = Some t \<Longrightarrow> type_ok t"
  shows "expr_ok (ty_expr v) \<and> type_ok (ty_type v) \<and> t_unpacked (ty_type v) = [] \<and>
    e_width (enode_of (ty_expr v)) = t_width (ty_type v) \<and> e_signed (enode_of (ty_expr v)) = t_signed (ty_type v) \<and>
    int (expr_nodes (ty_expr v)) \<le> MAX_EXPR_NODES \<and> expr_depth (ty_expr v) \<le> MAX_EXPR_DEPTH"
proof -
  obtain node where node: "lower_tree resolve types node = Inr (v, st)" "checked_expr (ty_expr v) = Inr ()" "\<not> unpacked v"
    using assms(1) by (auto simp: compile_expr_def ebind_Inr_iff split: if_splits)
  have "good_env True (from_resolve resolve)"
    using assms(2) by (auto simp: good_env_def from_resolve_def ebind_Inr_iff)
  moreover have "good_lower (lower_at types (Suc MAX_EXPR_DEPTH))"
    using assms(3) by (intro lower_at_good) (auto simp: good_types_def)
  ultimately have "gives (lower_at types (Suc MAX_EXPR_DEPTH) (from_resolve resolve) node) (typed_in True)"
    unfolding good_lower_def by blast
  then have "typed_in True v" using node(1) unfolding gives_def lower_tree_def by blast
  then show ?thesis
    using checked_expr_limits [OF node(2)] node(3) by (simp add: typed_in_def unpacked_def expr_limits_def)
qed

definition demo_resolve :: "string \<Rightarrow> typed result" where
  "demo_resolve p = (if p = ''a'' then typed_plain
       (mk_expr ((enode0 ''signal'' 4)\<lparr>e_signal := Some ''a'', e_bits := [3, 2, 1, 0]\<rparr>) []) 4 False
     else Inl (KeyError p))"

definition demo_tree :: stree where
  "demo_tree = Syn ''binary'' [Syn ''part'' [Syn ''name'' [] ''a'', Syn ''literal'' [] ''2'', Syn ''literal'' [] ''1''] '':'',
     Syn ''literal'' [] ''3''] ''+''"

lemma demo_parse: "parse ''a[2:1] + 3'' = Inr demo_tree"
  by code_simp

lemma demo_lower: "is_ok (ebind (lower_tree demo_resolve (\<lambda>_. None) demo_tree) (\<lambda>(v, st).
     ebind (checked_expr (ty_expr v)) (\<lambda>_. if unpacked v then Inl TypeError else Inr ())))"
  by code_simp

lemma compile_typed_witness:
  "\<exists>v st. compile_expr demo_resolve (\<lambda>_. None) ''a[2:1] + 3'' = Inr (v, st) \<and> expr_ok (ty_expr v) \<and>
     e_width (enode_of (ty_expr v)) = t_width (ty_type v) \<and> int (expr_nodes (ty_expr v)) \<le> MAX_EXPR_NODES"
proof -
  obtain v st where v: "compile_expr demo_resolve (\<lambda>_. None) ''a[2:1] + 3'' = Inr (v, st)"
    using demo_lower by (auto simp: compile_expr_def demo_parse is_ok_iff ebind_Inr_iff split: if_splits)
  have d: "typed_in True u" if "demo_resolve p = Inr u" for p u
    using that by (auto simp: demo_resolve_def split: if_splits elim!: typed_plain_ok dest!: mk_expr_ok)
  show ?thesis using compile_typed [OF v d] v by auto
qed

text \<open>
  A decimal literal gets the width of its value and the type of a signed integer, so one whose value
  has 32 bits or more has no room for its sign: 4294967296 is the constant -4294967296.
\<close>

lemma decimal_literal_negative:
  "ebind (literal ''4294967296'') constant_of = Inr (- 4294967296)"
  by code_simp

end
