(* ===== verification/Vcd_Parse.thy ===== *)
theory Vcd_Parse
  imports Ir_Types Wave_Value Dyn_Eval
begin

text \<open>
  The VCD reader of src/src/vcd_parser.py, part one: the chunked token iterator, the \<open>$timescale\<close>
  section, and \<open>VCDParser._parse\<close> with its state. The text of the file is an argument; reading it
  and the check that the file did not change meanwhile are not modelled.

  A dict is the association list of its items in insertion order; \<open>dict_set\<close> is item assignment.
  \<open>next(tokens)\<close> on an exhausted iterator is \<open>StopIteration\<close>.
\<close>

section \<open>Tokens\<close>

text \<open>\<open>str.split()\<close>.\<close>

function words :: "string \<Rightarrow> string list" where
  "words s = (let r = dropWhile is_space s in
     if r = [] then [] else takeWhile (\<lambda>c. \<not> is_space c) r # words (dropWhile (\<lambda>c. \<not> is_space c) r))"
  by pat_completeness auto
termination
proof (relation "measure length", goal_cases)
  case (2 s r)
  have "\<not> is_space (hd r)" using 2 hd_dropWhile [of is_space s] by simp
  moreover obtain c cs where "r = c # cs" using 2(2) by (cases r) auto
  ultimately have "length (dropWhile (\<lambda>c. \<not> is_space c) r) < length r"
    by (simp add: length_dropWhile_le less_Suc_eq_le)
  moreover have "length r \<le> length s" using 2 by (simp add: length_dropWhile_le)
  ultimately show ?case by simp
qed simp

declare words.simps [simp del]

text \<open>
  \<open>_iter_tokens\<close> with the chunk size as an argument: a chunk that would end inside a token is
  extended to just after the next white space.
\<close>

definition chunk_length :: "nat \<Rightarrow> string \<Rightarrow> nat" where
  "chunk_length n0 s =
     (let stop = min n0 (length s) in
      if stop < length s \<and> \<not> is_space (s ! (stop - 1)) then
        (let ahead = length (takeWhile (\<lambda>c. \<not> is_space c) (drop stop s))
         in if stop + ahead < length s then stop + ahead + 1 else length s)
      else stop)"

function iter_tokens :: "nat \<Rightarrow> string \<Rightarrow> string list" where
  "iter_tokens n0 s =
     (if s = [] \<or> n0 = 0 then []
      else (let n = chunk_length n0 s in words (take n s) @ iter_tokens n0 (drop n s)))"
  by pat_completeness auto
termination
proof (relation "measure (\<lambda>(n0, s). length s)", goal_cases)
  case (2 n0 s n)
  then have "0 < n" by (auto simp: chunk_length_def Let_def)
  then show ?case using 2 by simp
qed simp

declare iter_tokens.simps [simp del]

definition TOKEN_CHUNK_CHARS :: nat where
  "TOKEN_CHUNK_CHARS = 1024 * 1024"

section \<open>Sections of the header\<close>

text \<open>
  The group of \<open>re.search(name + r'\s+(.*?)\s*\$end', text, DOTALL)\<close>: the text between the first
  occurrence of the name that white space and a later \<open>$end\<close> follow and that \<open>$end\<close>.
\<close>

fun until_end :: "string \<Rightarrow> string option" where
  "until_end [] = None"
| "until_end (c # cs) = (if starts_with ''$end'' (c # cs) then Some [] else map_option (Cons c) (until_end cs))"

definition section_at :: "string \<Rightarrow> string \<Rightarrow> string option" where
  "section_at name s =
     (if starts_with name s then
        (let r = drop (length name) s; body = dropWhile is_space r in
         if length body < length r then map_option strip (until_end body) else None)
      else None)"

fun find_section :: "string \<Rightarrow> string \<Rightarrow> string option" where
  "find_section name [] = None"
| "find_section name (c # cs) = (case section_at name (c # cs) of Some g \<Rightarrow> Some g | None \<Rightarrow> find_section name cs)"

text \<open>
  \<open>round(float(x) * mult)\<close> is exact on a run of at most 5 digits: the multipliers are powers
  \<open>10 ^ k\<close> with \<open>k\<close> at most 15, and \<open>99999 * 5 ^ 15\<close> is below \<open>2 ^ 53\<close>. A text without digits that
  does not spell an infinity or a NaN is the \<open>ValueError\<close> of \<open>float\<close>. Other numbers (longer ones, a
  fraction, an exponent, a sign) are outside the model; the legal ones are 1, 10 and 100.
\<close>

definition TIME_UNITS :: "(string \<times> int) list" where
  "TIME_UNITS = [(''fs'', 1), (''ps'', 1000), (''ns'', 1000000), (''us'', 10 ^ 9), (''ms'', 10 ^ 12), (''s'', 10 ^ 15)]"

definition ends_with :: "string \<Rightarrow> string \<Rightarrow> bool" where
  "ends_with p s \<longleftrightarrow> starts_with (rev p) (rev s)"

definition scaled_number :: "string \<Rightarrow> int \<Rightarrow> int option result" where
  "scaled_number x mult =
     (if x \<noteq> [] \<and> list_all is_digit x \<and> length x \<le> 5 then Inr (Some (int (read_digits 0 x) * mult))
      else if list_ex is_digit x \<or> lower x \<in> {''inf'', ''infinity'', ''nan''} \<or> starts_with ''+'' x \<or> starts_with ''-'' x
        then Inl IllTyped
      else Inr None)"

fun first_unit :: "(string \<times> int) list \<Rightarrow> string \<Rightarrow> int result" where
  "first_unit [] t = Inr 1000"
| "first_unit ((u, mult) # us) t =
     (if ends_with u t then
        ebind (scaled_number (take (length t - length u) t) mult) (\<lambda>r. case r of Some n \<Rightarrow> Inr n | None \<Rightarrow> first_unit us t)
      else first_unit us t)"

definition parse_timescale_fs :: "string \<Rightarrow> int result" where
  "parse_timescale_fs t = first_unit TIME_UNITS (filter (\<lambda>c. c \<noteq> CHR '' '') (strip t))"

section \<open>The state of the parser\<close>

record vsignal =
  vs_path :: string
  vs_width :: int
  vs_type :: string

type_synonym change = "int \<times> string"

record vcd =
  v_timescale_fs :: int
  v_timescale_raw :: "string option"
  v_signals :: "(string \<times> vsignal) list"
  v_paths :: "(string \<times> string) list"
  v_range_aliases :: "string list"
  v_trans :: "(string \<times> change list) list"
  v_ticks :: "(string \<times> int list) list"
  v_end_fs :: int
  v_end_ps :: int
  v_order_valid :: bool
  v_top :: "string list"
  v_scope_ends :: "(string \<times> nat list) list"
  v_declared :: "(string \<times> int \<times> int) list"
  v_decl_aliases :: "(string \<times> string) list"
  \<comment> \<open>the local variables of \<open>_parse\<close>\<close>
  v_stack :: "string list"
  v_stack_ends :: "nat list"
  v_now_ps :: int
  v_now_tick :: int
  v_ranged :: "(string \<times> string list) list"

definition vcd_init :: vcd where
  "vcd_init = \<lparr>v_timescale_fs = 1000, v_timescale_raw = None, v_signals = [], v_paths = [], v_range_aliases = [],
     v_trans = [], v_ticks = [], v_end_fs = 0, v_end_ps = 0, v_order_valid = True, v_top = [], v_scope_ends = [],
     v_declared = [], v_decl_aliases = [], v_stack = [], v_stack_ends = [], v_now_ps = 0, v_now_tick = 0,
     v_ranged = []\<rparr>"

definition setdefault :: "string \<Rightarrow> 'v \<Rightarrow> (string \<times> 'v) list \<Rightarrow> (string \<times> 'v) list" where
  "setdefault k v kvs = (case map_of kvs k of None \<Rightarrow> kvs @ [(k, v)] | Some _ \<Rightarrow> kvs)"

definition sub_ps :: "vcd \<Rightarrow> bool" where
  "sub_ps st \<longleftrightarrow> v_timescale_fs st mod 1000 \<noteq> 0"

definition next_token :: "string list \<Rightarrow> (string \<times> string list) result" where
  "next_token ts = (case ts of [] \<Rightarrow> Inl StopIteration | t # rest \<Rightarrow> Inr (t, rest))"

section \<open>Declarations\<close>

text \<open>The range \<open>[a]\<close> or \<open>[a:b]\<close> that a text is.\<close>

definition read_index :: "string \<Rightarrow> int option" where
  "read_index s =
     (let neg = starts_with ''-'' s; d = (if neg then drop 1 s else s) in
      if d \<noteq> [] \<and> list_all is_digit d then Some (if neg then - int (read_digits 0 d) else int (read_digits 0 d)) else None)"

definition read_range :: "string \<Rightarrow> (int \<times> int) option" where
  "read_range s =
     (if starts_with ''['' s \<and> ends_with '']'' s \<and> length s \<ge> 2 then
        (let inner = butlast (drop 1 s); a = takeWhile (\<lambda>c. c \<noteq> CHR '':'') inner; b = dropWhile (\<lambda>c. c \<noteq> CHR '':'') inner in
         case read_index a of None \<Rightarrow> None
         | Some l \<Rightarrow> if b = [] then Some (l, l) else map_option (\<lambda>r. (l, r)) (read_index (drop 1 b)))
      else None)"

text \<open>
  \<open>declaration_range\<close> of src/src/waveform_selection.py on a token (no white space): a range at the
  very end starts at the last bracket; an escaped identifier has none.
\<close>

definition last_bracket :: "string \<Rightarrow> string" where
  "last_bracket s = (if CHR ''['' \<in> set s then CHR ''['' # rev (takeWhile (\<lambda>c. c \<noteq> CHR ''['') (rev s)) else [])"

definition declaration_range :: "string \<Rightarrow> int \<Rightarrow> bit_range_decl result" where
  "declaration_range path w =
     (case (if char_of (92 :: nat) \<in> set path then None else read_range (last_bracket path)) of
        Some (l, r) \<Rightarrow> if \<bar>l - r\<bar> + 1 \<noteq> w then Inl (ValueError ''dump declaration range and width disagree'')
                       else Inr \<lparr>br_left = l, br_right = r\<rparr>
      | None \<Rightarrow> br_from_width w)"

definition dotted :: "string list \<Rightarrow> string" where
  "dotted parts = join ''.'' parts"

definition vcd_scope :: "vcd \<Rightarrow> string list \<Rightarrow> vcd \<times> string list" where
  "vcd_scope st ts =
     (let name = (case drop 1 ts of [] \<Rightarrow> ''unknown'' | n # _ \<Rightarrow> n);
          ends = v_stack_ends st;
          st' = st\<lparr>v_stack := v_stack st @ [name],
                   v_stack_ends := ends @ [(if ends \<noteq> [] then last ends + 1 else 0) + length name]\<rparr>
      in (if length (v_stack st') = 1 \<and> name \<notin> set (v_top st) then st'\<lparr>v_top := v_top st @ [name]\<rparr> else st', drop 3 ts))"

definition vcd_upscope :: "vcd \<Rightarrow> string list \<Rightarrow> vcd \<times> string list" where
  "vcd_upscope st ts =
     (if v_stack st \<noteq> [] then st\<lparr>v_stack := butlast (v_stack st), v_stack_ends := butlast (v_stack_ends st)\<rparr> else st, drop 1 ts)"

text \<open>The declaration of \<open>symbol\<close> as \<open>full\<close>, once its parts are read.\<close>

definition vcd_declare :: "vcd \<Rightarrow> string \<Rightarrow> int \<Rightarrow> string \<Rightarrow> string \<Rightarrow> string \<Rightarrow> vcd result" where
  "vcd_declare st var_type w symbol name selection =
     (let base = dotted (v_stack st @ [name]); full = base @ selection in
      if selection \<noteq> [] \<and> read_range selection = None then Inl (ValueError ''Unsupported VCD declaration selection'')
      else if map_of (v_paths st) full \<notin> {None, Some symbol} then Inl (ValueError ''Conflicting VCD declarations'')
      else ebind (declaration_range (if selection \<noteq> [] then CHR ''v'' # selection else full) w) (\<lambda>declared.
        Inr (st\<lparr>v_ranged := (if selection = [] then v_ranged st
                else dict_set base (List.insert full (case map_of (v_ranged st) base of None \<Rightarrow> [] | Some fs \<Rightarrow> fs)) (v_ranged st)),
              v_signals := dict_set symbol \<lparr>vs_path = full, vs_width = w, vs_type = var_type\<rparr> (v_signals st),
              v_paths := dict_set full symbol (v_paths st),
              v_declared := dict_set full (br_left declared, br_right declared) (v_declared st),
              v_scope_ends := dict_set full (v_stack_ends st) (v_scope_ends st),
              v_trans := setdefault symbol [] (v_trans st),
              v_ticks := (if sub_ps st then setdefault symbol [] (v_ticks st) else v_ticks st)\<rparr>)))"

definition vcd_var :: "vcd \<Rightarrow> string list \<Rightarrow> (vcd \<times> string list) result" where
  "vcd_var st ts =
     (let var_type = (case ts of [] \<Rightarrow> [] | t # _ \<Rightarrow> t) in
      ebind (next_token (drop 1 ts)) (\<lambda>(width_token, ts1).
      ebind (next_token ts1) (\<lambda>(symbol, ts2).
      ebind (next_token ts2) (\<lambda>(name, ts3).
        let parts = takeWhile (\<lambda>t. t \<noteq> ''$end'') ts3; ts4 = drop (length parts) ts3;
            w = (if width_token \<noteq> [] \<and> list_all is_digit width_token then int (read_digits 0 width_token) else 1)
        in if ts4 = [] then Inl (ValueError ''VCD declaration is missing $end'')
           else ebind (vcd_declare st var_type w symbol name (concat parts)) (\<lambda>st'. Inr (st', drop 1 ts4))))))"

section \<open>Times and values\<close>

text \<open>\<open>(ticks * scale + 999) // 1000\<close>: a time is rounded up to the next picosecond.\<close>

definition tick_ps :: "int \<Rightarrow> int \<Rightarrow> int" where
  "tick_ps scale t = (t * scale + 999) div 1000"

definition vcd_time :: "vcd \<Rightarrow> string \<Rightarrow> vcd" where
  "vcd_time st tok = (case int_of_string (drop 1 tok) of
     Inl _ \<Rightarrow> st
   | Inr t \<Rightarrow> (let ps = tick_ps (v_timescale_fs st) t in
       st\<lparr>v_order_valid := v_order_valid st \<and> \<not> t < v_now_tick st, v_now_tick := t, v_now_ps := ps,
          v_end_ps := max (v_end_ps st) ps, v_end_fs := max (v_end_fs st) (t * v_timescale_fs st)\<rparr>))"

definition vcd_record :: "vcd \<Rightarrow> string \<Rightarrow> string \<Rightarrow> vcd result" where
  "vcd_record st symbol v = (case map_of (v_trans st) symbol of
     None \<Rightarrow> Inr st
   | Some rows \<Rightarrow>
       (let st' = st\<lparr>v_trans := dict_set symbol (rows @ [(v_now_ps st, v)]) (v_trans st)\<rparr> in
        if \<not> sub_ps st then Inr st'
        else if \<not> (0 \<le> v_now_tick st \<and> v_now_tick st < 2 ^ 64) then Inl OverflowError
        else Inr (st'\<lparr>v_ticks := dict_set symbol
               ((case map_of (v_ticks st) symbol of None \<Rightarrow> [] | Some xs \<Rightarrow> xs) @ [v_now_tick st]) (v_ticks st)\<rparr>)))"

text \<open>One turn of the loop: the token and the ones that follow it.\<close>

definition vcd_token :: "vcd \<Rightarrow> string \<Rightarrow> string list \<Rightarrow> (vcd \<times> string list) result" where
  "vcd_token st t ts =
     (if t = ''$scope'' then Inr (vcd_scope st ts)
      else if t = ''$upscope'' then Inr (vcd_upscope st ts)
      else if t = ''$var'' then vcd_var st ts
      else if t \<noteq> [] \<and> hd t = CHR ''#'' then Inr (vcd_time st t, ts)
      else if t \<noteq> [] \<and> hd t \<in> set ''bB'' then
        (case ts of [] \<Rightarrow> Inr (st, []) | symbol # rest \<Rightarrow> ebind (vcd_record st symbol t) (\<lambda>st'. Inr (st', rest)))
      else if length t \<ge> 2 \<and> hd t \<in> set ''01xXzZ'' then ebind (vcd_record st (drop 1 t) [hd t]) (\<lambda>st'. Inr (st', ts))
      else Inr (st, ts))"

lemma vcd_token_shorter: "vcd_token st t ts = Inr (st', ts') \<Longrightarrow> length ts' \<le> length ts"
  by (auto simp: vcd_token_def vcd_scope_def vcd_upscope_def vcd_var_def next_token_def Let_def ebind_Inr_iff
      split: if_splits list.splits)

function vcd_loop :: "vcd \<Rightarrow> string list \<Rightarrow> vcd result" where
  "vcd_loop st [] = Inr st"
| "vcd_loop st (t # ts) = ebind (vcd_token st t ts) (\<lambda>p. vcd_loop (fst p) (snd p))"
  by pat_completeness auto
termination
  by (relation "measure (\<lambda>(st, ts). length ts)") (auto dest: vcd_token_shorter)

text \<open>
  A vector declared once under a base name is also found under that name alone; the name with the
  range is then hidden from a search.
\<close>

definition vcd_alias :: "string \<times> string list \<Rightarrow> vcd \<Rightarrow> vcd" where
  "vcd_alias r st = (case r of (base, fulls) \<Rightarrow>
     if length fulls = 1 \<and> map_of (v_paths st) base = None then
       (let full = hd fulls in
        if CHR '':'' \<in> set (drop (length base) full) then
          st\<lparr>v_paths := dict_set base (the (map_of (v_paths st) full)) (v_paths st),
             v_scope_ends := dict_set base (the (map_of (v_scope_ends st) full)) (v_scope_ends st),
             v_range_aliases := List.insert full (v_range_aliases st),
             v_decl_aliases := dict_set base full (v_decl_aliases st)\<rparr>
        else st)
     else st)"

definition vcd_parse_tokens :: "vcd \<Rightarrow> string list \<Rightarrow> vcd result" where
  "vcd_parse_tokens st ts = ebind (vcd_loop st ts) (\<lambda>st'. Inr (fold vcd_alias (v_ranged st') st'))"

definition vcd_header :: "string \<Rightarrow> vcd result" where
  "vcd_header content = (case find_section ''$timescale'' content of
     None \<Rightarrow> Inr vcd_init
   | Some raw \<Rightarrow> ebind (parse_timescale_fs raw) (\<lambda>fs.
       Inr (vcd_init\<lparr>v_timescale_raw := Some raw, v_timescale_fs := fs\<rparr>)))"

definition vcd_parse :: "string \<Rightarrow> vcd result" where
  "vcd_parse content =
     ebind (vcd_header content) (\<lambda>st. vcd_parse_tokens st (iter_tokens TOKEN_CHUNK_CHARS content))"

end
