(* ===== verification/Vcd_Query.thy ===== *)
theory Vcd_Query
  imports Vcd_Parse "HOL-Library.Char_ord" "HOL-Library.List_Lexorder" "HOL-Library.Product_Lexorder"
begin

text \<open>
  The VCD reader of src/src/vcd_parser.py, part two: the queries over a parsed file. \<open>time_ns\<close> (a
  float for display) is left out of the rows. A row of a change list is a time in picoseconds and
  the value token as it stands in the file.
\<close>

section \<open>Binary search\<close>

text \<open>\<open>bisect_left\<close> and \<open>bisect_right\<close> of the standard library between \<open>lo\<close> and \<open>hi\<close>.\<close>

function bisect_left_at :: "('a \<Rightarrow> int) \<Rightarrow> 'a list \<Rightarrow> int \<Rightarrow> nat \<Rightarrow> nat \<Rightarrow> nat" where
  "bisect_left_at key xs x lo hi =
     (if lo < hi then (let mid = (lo + hi) div 2 in
        if key (xs ! mid) < x then bisect_left_at key xs x (mid + 1) hi else bisect_left_at key xs x lo mid)
      else lo)"
  by pat_completeness auto
termination by (relation "measure (\<lambda>(key, xs, x, lo, hi). hi - lo)") (auto simp: less_mult_imp_div_less)

function bisect_right_at :: "('a \<Rightarrow> int) \<Rightarrow> 'a list \<Rightarrow> int \<Rightarrow> nat \<Rightarrow> nat \<Rightarrow> nat" where
  "bisect_right_at key xs x lo hi =
     (if lo < hi then (let mid = (lo + hi) div 2 in
        if x < key (xs ! mid) then bisect_right_at key xs x lo mid else bisect_right_at key xs x (mid + 1) hi)
      else lo)"
  by pat_completeness auto
termination by (relation "measure (\<lambda>(key, xs, x, lo, hi). hi - lo)") (auto simp: less_mult_imp_div_less)

declare bisect_left_at.simps [simp del] bisect_right_at.simps [simp del]

definition bisect_left :: "('a \<Rightarrow> int) \<Rightarrow> 'a list \<Rightarrow> int \<Rightarrow> nat" where
  "bisect_left key xs x = bisect_left_at key xs x 0 (length xs)"

definition bisect_right :: "('a \<Rightarrow> int) \<Rightarrow> 'a list \<Rightarrow> int \<Rightarrow> nat" where
  "bisect_right key xs x = bisect_right_at key xs x 0 (length xs)"

text \<open>\<open>xs[lo:hi]\<close> for indices within the list.\<close>

definition slice :: "nat \<Rightarrow> nat \<Rightarrow> 'a list \<Rightarrow> 'a list" where
  "slice lo hi xs = take (hi - lo) (drop lo xs)"

section \<open>Readings of a value\<close>

text \<open>\<open>int(s, 2)\<close>.\<close>

fun binary_ok :: "bool \<Rightarrow> string \<Rightarrow> bool" where
  "binary_ok prev_digit [] = prev_digit"
| "binary_ok prev_digit (c # cs) =
     (if c = CHR ''0'' \<or> c = CHR ''1'' then binary_ok True cs
      else if c = CHR ''_'' then prev_digit \<and> binary_ok False cs
      else False)"

definition int_base2 :: "string \<Rightarrow> int option" where
  "int_base2 s =
     (let t = strip s;
          neg = starts_with ''-'' t;
          u = (if neg \<or> starts_with ''+'' t then drop 1 t else t);
          prefixed = (starts_with ''0b'' u \<or> starts_with ''0B'' u);
          d = (if prefixed then drop 2 u else u)
      in if d \<noteq> [] \<and> binary_ok prefixed d
         then (let n = bits_int (filter (\<lambda>c. c \<noteq> CHR ''_'') d) in Some (if neg then - n else n))
         else None)"

text \<open>\<open>f"0x{val:0{w}x}"\<close>.\<close>

function show_hex :: "nat \<Rightarrow> string" where
  "show_hex n = (if n < 16 then [hex_char n] else show_hex (n div 16) @ [hex_char (n mod 16)])"
  by pat_completeness auto
termination by (relation "measure id") auto

declare show_hex.simps [simp del]

definition hex_text :: "int \<Rightarrow> nat \<Rightarrow> string" where
  "hex_text val w = ''0x'' @ (if val < 0 then CHR ''-'' # rjust (w - 1) CHR ''0'' (show_hex (nat (- val)))
     else rjust w CHR ''0'' (show_hex (nat val)))"

definition enrich_value :: "string option \<Rightarrow> sval option" where
  "enrich_value v = (case v of None \<Rightarrow> None | Some b \<Rightarrow>
     (let n = strip b in
      if n = [] \<or> list_ex (\<lambda>c. c \<in> set ''xXzZu?'') n then Some \<lparr>sv_hex = None, sv_bin = Some b, sv_dec = None\<rparr>
      else (let prefixed = hd n \<in> set ''bB'';
                m = (if prefixed then drop 1 n else n);
                bin = (if prefixed then m else b)
        in case int_base2 m of
             None \<Rightarrow> Some \<lparr>sv_hex = None, sv_bin = Some bin, sv_dec = None\<rparr>
           | Some val \<Rightarrow> Some \<lparr>sv_hex = Some (hex_text val (max 1 ((length m + 3) div 4))), sv_bin = Some bin,
                              sv_dec = Some val\<rparr>)))"

section \<open>Resolution of a path\<close>

definition vcd_resolve :: "vcd \<Rightarrow> string \<Rightarrow> string result" where
  "vcd_resolve st path = (case map_of (v_paths st) path of
     Some s \<Rightarrow> Inr s
   | None \<Rightarrow> (case find (\<lambda>p. ends_with (''.'' @ path) (fst p)) (v_paths st) of
       Some p \<Rightarrow> Inr (snd p)
     | None \<Rightarrow> Inl (KeyError path)))"

definition vcd_rows :: "vcd \<Rightarrow> string \<Rightarrow> change list" where
  "vcd_rows st symbol = (case map_of (v_trans st) symbol of None \<Rightarrow> [] | Some rows \<Rightarrow> rows)"

definition vcd_width :: "vcd \<Rightarrow> string \<Rightarrow> int result" where
  "vcd_width st path = ebind (vcd_resolve st path) (\<lambda>s. case map_of (v_signals st) s of
     None \<Rightarrow> Inl (KeyError s) | Some g \<Rightarrow> Inr (vs_width g))"

record declaration_fact =
  df_path :: string
  df_width :: int
  df_range :: "int \<times> int"
  df_storage :: string

definition vcd_declaration :: "vcd \<Rightarrow> string \<Rightarrow> declaration_fact result" where
  "vcd_declaration st path =
     (if map_of (v_paths st) path = None then Inl (KeyError path)
      else (let p = (case map_of (v_decl_aliases st) path of None \<Rightarrow> path | Some q \<Rightarrow> q) in
        case (map_of (v_paths st) p, map_of (v_declared st) p) of
          (Some s, Some r) \<Rightarrow> (case map_of (v_signals st) s of
              None \<Rightarrow> Inl (KeyError s)
            | Some g \<Rightarrow> Inr \<lparr>df_path = p, df_width = vs_width g, df_range = r, df_storage = s\<rparr>)
        | _ \<Rightarrow> Inl (KeyError p)))"

section \<open>Values and transitions\<close>

definition value_at :: "change list \<Rightarrow> int \<Rightarrow> string option" where
  "value_at rows t =
     (if rows = [] then None
      else (let k = bisect_right fst rows t in if k < 1 then None else Some (snd (rows ! (k - 1)))))"

definition value_at_time :: "vcd \<Rightarrow> string \<Rightarrow> int \<Rightarrow> sval option result" where
  "value_at_time st path t = ebind (vcd_resolve st path) (\<lambda>s. Inr (enrich_value (value_at (vcd_rows st s) t)))"

record window =
  wi_start :: int
  wi_end :: int
  wi_rows :: "(int \<times> sval option) list"
  wi_predecessor :: "(int \<times> sval option) option"

definition enrich_row :: "change \<Rightarrow> int \<times> sval option" where
  "enrich_row r = (fst r, enrich_value (Some (snd r)))"

definition window_of :: "change list \<Rightarrow> int \<Rightarrow> int \<Rightarrow> window" where
  "window_of rows start stop =
     (let lo = bisect_left fst rows start; hi = bisect_right fst rows stop in
      \<lparr>wi_start = start, wi_end = stop, wi_rows = map enrich_row (slice lo hi rows),
       wi_predecessor = (if lo > 0 then Some (enrich_row (rows ! (lo - 1))) else None)\<rparr>)"

definition transitions :: "vcd \<Rightarrow> string \<Rightarrow> int \<Rightarrow> int \<Rightarrow> window result" where
  "transitions st path start stop = ebind (vcd_resolve st path) (\<lambda>s.
     Inr (window_of (vcd_rows st s) start (if stop = - 1 then v_end_ps st else stop)))"

record around =
  ar_center :: "sval option"
  ar_window :: "(int \<times> sval option) list"
  ar_before :: "(int \<times> sval option) list"

text \<open>One signal of \<open>get_signals_around_time\<close>; a path that does not resolve is an error entry.\<close>

definition around_time :: "vcd \<Rightarrow> string \<Rightarrow> int \<Rightarrow> int \<Rightarrow> int \<Rightarrow> around result" where
  "around_time st path center span extra = ebind (vcd_resolve st path) (\<lambda>s.
     let rows = vcd_rows st s; start = max 0 (center - span);
         lo = bisect_left fst rows start; hi = bisect_right fst rows (center + span)
     in Inr \<lparr>ar_center = enrich_value (value_at rows center), ar_window = map enrich_row (slice lo hi rows),
             ar_before = map enrich_row (if extra > 0 then slice (nat (max 0 (int lo - extra))) lo rows else [])\<rparr>)"

definition signals_around_time :: "vcd \<Rightarrow> string list \<Rightarrow> int \<Rightarrow> int \<Rightarrow> int \<Rightarrow> (string \<times> around result) list" where
  "signals_around_time st paths center span extra =
     fold (\<lambda>p acc. dict_set p (around_time st p center span extra) acc) paths []"

text \<open>The duration of \<open>get_header\<close>.\<close>

definition vcd_duration :: "vcd \<Rightarrow> int" where
  "vcd_duration st = (if v_end_ps st = 0
     then fold (\<lambda>(s, rows) m. if rows = [] then m else max m (fst (last rows))) (v_trans st) 0 else v_end_ps st)"

section \<open>Search\<close>

fun contains :: "string \<Rightarrow> string \<Rightarrow> bool" where
  "contains p [] \<longleftrightarrow> p = []"
| "contains p (c # cs) \<longleftrightarrow> starts_with p (c # cs) \<or> contains p cs"

definition leaf_name :: "string \<Rightarrow> string" where
  "leaf_name p = rev (takeWhile (\<lambda>c. c \<noteq> CHR ''.'') (rev p))"

definition signal_rank :: "string \<Rightarrow> string \<Rightarrow> int" where
  "signal_rank path keyword =
     (let l = lower path in
      (if lower (leaf_name path) = keyword then 8 else if ends_with (CHR ''.'' # keyword) l then 6
       else if contains keyword l then 3 else 0) +
      (if list_ex (\<lambda>t. contains t l) [''dut'', ''core'', ''rtl'', ''design''] then 4 else 0) -
      (if list_ex (\<lambda>t. contains t l) [''assert'', ''checker'', ''scoreboard'', ''uvm'', ''monitor''] then 3 else 0))"

record hit =
  hi_path :: string
  hi_name :: string
  hi_width :: int
  hi_type :: "string option"
  hi_role :: "string option"

text \<open>\<open>tool_pseudo_signal_role\<close> of src/src/waveform_hints.py.\<close>

definition tool_role :: "string \<Rightarrow> string option" where
  "tool_role path = (if path = [] then None else map_of [('':jasper_formal_clock'', ''formal_clock''),
     ('':jasper_formal_reset'', ''formal_reset'')] (leaf_name path))"

definition search_hit :: "vcd \<Rightarrow> string \<times> string \<Rightarrow> hit result" where
  "search_hit st p = (case map_of (v_signals st) (snd p) of
     None \<Rightarrow> Inl (KeyError (snd p))
   | Some g \<Rightarrow> Inr \<lparr>hi_path = fst p, hi_name = leaf_name (fst p), hi_width = vs_width g,
       hi_type = (if vs_type g = [] then None else Some (vs_type g)), hi_role = tool_role (fst p)\<rparr>)"

definition search_matches :: "vcd \<Rightarrow> string \<Rightarrow> (string \<times> string) list" where
  "search_matches st keyword = (let kw = lower keyword in
     filter (\<lambda>p. contains kw (lower (fst p)) \<and> (fst p \<notin> set (v_range_aliases st) \<or> CHR ''['' \<in> set kw)) (v_paths st))"

record search =
  se_total :: nat
  se_truncated :: bool
  se_hits :: "hit list"

definition search_signals :: "vcd \<Rightarrow> string \<Rightarrow> nat \<Rightarrow> search result" where
  "search_signals st keyword limit = ebind (mapM (search_hit st) (search_matches st keyword)) (\<lambda>hits.
     let sorted = sort_key (\<lambda>h. (- signal_rank (hi_path h) (lower keyword), hi_path h)) hits in
     Inr \<lparr>se_total = length sorted, se_truncated = limit < length sorted, se_hits = take limit sorted\<rparr>)"


section \<open>Header\<close>

text \<open>\<open>normalize_vcd_producer\<close> of src/src/waveform_hints.py on the \<open>$version\<close> section.\<close>

definition normalize_vcd_producer :: "string option \<Rightarrow> string option" where
  "normalize_vcd_producer t = (case t of None \<Rightarrow> None
   | Some v \<Rightarrow> if v \<noteq> [] \<and> contains ''jaspergold'' (lower v) then Some ''jaspergold'' else None)"

definition producer_hint :: "string \<Rightarrow> string option" where
  "producer_hint content = normalize_vcd_producer (find_section ''$version'' content)"

record header_fact =
  hf_unit :: string
  hf_fs :: int
  hf_duration :: int
  hf_signals :: nat
  hf_producer :: "string option"
  hf_top :: "string list"
  hf_sample :: "string list"

text \<open>\<open>get_summary\<close>, which is \<open>get_header\<close> with the top scopes and twenty names.\<close>

definition vcd_summary :: "string \<Rightarrow> vcd \<Rightarrow> header_fact" where
  "vcd_summary content st = \<lparr>hf_unit = (case v_timescale_raw st of None \<Rightarrow> ''1ps(assumed)'' | Some r \<Rightarrow> if r = [] then ''1ps(assumed)'' else r),
     hf_fs = v_timescale_fs st, hf_duration = vcd_duration st, hf_signals = length (v_signals st),
     hf_producer = producer_hint content, hf_top = v_top st, hf_sample = map fst (take 20 (v_paths st))\<rparr>"

end
