(* ===== verification/Vcd_Laws.thy ===== *)
theory Vcd_Laws
  imports Vcd_Query
begin

text \<open>
  Laws of the VCD reader: the chunked tokens are those of the whole text, binary search finds the
  border of a sorted list, and parsing keeps the rows in the order of time.
\<close>

section \<open>Tokens\<close>

lemma words_space: "list_all is_space a \<Longrightarrow> words (a @ s) = words s"
  by (subst (1 2) words.simps) (simp add: list_all_iff)

lemma words_Nil [simp]: "words [] = []"
  by (simp add: words.simps)

lemma words_word:
  assumes "a \<noteq> []" "list_all (\<lambda>c. \<not> is_space c) a" "s = [] \<or> is_space (hd s)"
  shows "words (a @ s) = a # words s"
proof -
  have a: "\<forall>c \<in> set a. \<not> is_space c" using assms(2) by (simp add: list_all_iff)
  have "dropWhile is_space (a @ s) = a @ s" using assms(1) a by (cases a) auto
  moreover have "takeWhile (\<lambda>c. \<not> is_space c) (a @ s) = a" using a assms(3) by (cases s) (auto simp: takeWhile_append)
  moreover have "dropWhile (\<lambda>c. \<not> is_space c) (a @ s) = s" using a assms(3) by (cases s) (auto simp: dropWhile_append)
  ultimately show ?thesis using assms(1) by (subst words.simps) simp
qed

text \<open>A text splits at any border of a token.\<close>

lemma words_append:
  "b = [] \<or> a = [] \<or> is_space (last a) \<or> is_space (hd b) \<Longrightarrow> words (a @ b) = words a @ words b"
proof (induction a rule: length_induct)
  case (1 a)
  let ?r = "dropWhile is_space a"
  let ?sp = "takeWhile is_space a"
  have sp: "list_all is_space ?sp" by (auto simp: list_all_iff dest: set_takeWhileD)
  have a: "a = ?sp @ ?r" by simp
  show ?case
  proof (cases "?r = []")
    case True
    then have "list_all is_space a" by (simp add: list_all_iff)
    then show ?thesis using words_space [of a b] words_space [of a "[]"] by simp
  next
    case False
    let ?w = "takeWhile (\<lambda>c. \<not> is_space c) ?r" and ?t = "dropWhile (\<lambda>c. \<not> is_space c) ?r"
    have hd: "\<not> is_space (hd ?r)" using False hd_dropWhile by blast
    have w: "?w \<noteq> []" using False hd by (cases ?r) auto
    have nw: "list_all (\<lambda>c. \<not> is_space c) ?w" by (auto simp: list_all_iff dest: set_takeWhileD)
    have t: "?t = [] \<or> is_space (hd ?t)" using hd_dropWhile [of "\<lambda>c. \<not> is_space c" ?r] by blast
    have r: "?r = ?w @ ?t" by simp
    have "words a = ?w # words ?t"
      using words_space [OF sp, of ?r] words_word [OF w nw t] r by simp
    moreover have "words (a @ b) = ?w # words (?t @ b)"
    proof -
      have "?t @ b = [] \<or> is_space (hd (?t @ b))"
      proof (cases "?t = []")
        case True
        then have "\<not> is_space (last a)" using w nw a r by (metis last_appendR last_in_set list_all_iff append_Nil2 False)
        moreover have "a \<noteq> []" using False by auto
        ultimately have "b = [] \<or> is_space (hd b)" using 1(2) by blast
        then show ?thesis unfolding True by simp
      next
        case False
        then show ?thesis using t hd_append2 [OF False, of b] by metis
      qed
      then have "words (?r @ b) = ?w # words (?t @ b)"
        using words_word [OF w nw, of "?t @ b"] r by (metis append_assoc)
      then show ?thesis using words_space [OF sp, of "?r @ b"] by (metis a append_assoc)
    qed
    moreover have "words (?t @ b) = words ?t @ words b"
    proof (rule 1(1) [rule_format])
      have "length ?t < length ?r" using w r by (metis length_append length_greater_0_conv less_add_same_cancel2)
      also have "\<dots> \<le> length a" by (rule length_dropWhile_le)
      finally show "length ?t < length a" .
      show "b = [] \<or> ?t = [] \<or> is_space (last ?t) \<or> is_space (hd b)"
        using 1(2) False a r by (metis last_appendR append_is_Nil_conv)
    qed
    ultimately show ?thesis by simp
  qed
qed

lemma iter_tokens_words: "0 < n \<Longrightarrow> iter_tokens n s = words s"
proof (induction n s rule: iter_tokens.induct)
  case (1 n s)
  show ?case
  proof (cases "s = []")
    case True
    then show ?thesis by (simp add: iter_tokens.simps)
  next
    case False
    let ?n = "chunk_length n s"
    have "iter_tokens n s = words (take ?n s) @ iter_tokens n (drop ?n s)"
      using False 1(2) by (subst iter_tokens.simps) (simp add: Let_def)
    also have "\<dots> = words (take ?n s) @ words (drop ?n s)" using 1 False by simp
    also have "\<dots> = words (take ?n s @ drop ?n s)"
    proof (rule words_append [symmetric])
      show "drop ?n s = [] \<or> take ?n s = [] \<or> is_space (last (take ?n s)) \<or> is_space (hd (drop ?n s))"
      proof (cases "?n < length s")
        case True
        have "is_space (last (take ?n s))"
        proof (cases "n < length s \<and> \<not> is_space (s ! (n - 1))")
          case True
          let ?d = "drop n s" and ?k = "length (takeWhile (\<lambda>c. \<not> is_space c) (drop n s))"
          have n: "?n = n + ?k + 1" "n + ?k < length s"
            using True \<open>?n < length s\<close> by (auto simp: chunk_length_def Let_def min_def split: if_splits)
          then have "?k < length ?d" by simp
          then have "is_space (?d ! ?k)" using nth_length_takeWhile [of "\<lambda>c. \<not> is_space c" ?d] by simp
          then have "is_space (s ! (n + ?k))" using nth_drop [of n s ?k] n(2) by (metis add_leD1 less_imp_le)
          then show ?thesis unfolding n(1) using take_Suc_conv_app_nth [OF n(2)] by simp
        next
          case False
          then have "?n = n" "is_space (s ! (n - 1))" using \<open>?n < length s\<close> by (auto simp: chunk_length_def Let_def min_def split: if_splits)
          moreover have "last (take n s) = s ! (n - 1)" using 1(2) \<open>?n < length s\<close> \<open>?n = n\<close> by (subst last_conv_nth) auto
          ultimately show ?thesis by simp
        qed
        then show ?thesis by blast
      next
        case False
        then show ?thesis by simp
      qed
    qed
    finally show ?thesis by simp
  qed
qed

section \<open>Binary search\<close>

text \<open>Both searches look for the end of the initial part where a predicate on the index holds.\<close>

function search_end :: "(nat \<Rightarrow> bool) \<Rightarrow> nat \<Rightarrow> nat \<Rightarrow> nat" where
  "search_end P lo hi =
     (if lo < hi then (let mid = (lo + hi) div 2 in if P mid then search_end P (mid + 1) hi else search_end P lo mid)
      else lo)"
  by pat_completeness auto
termination by (relation "measure (\<lambda>(P, lo, hi). hi - lo)") (auto simp: less_mult_imp_div_less)

declare search_end.simps [simp del]

lemma bisect_left_search: "bisect_left_at key xs x lo hi = search_end (\<lambda>i. key (xs ! i) < x) lo hi"
proof (induction key xs x lo hi rule: bisect_left_at.induct)
  case (1 key xs x lo hi)
  then show ?case by (subst bisect_left_at.simps, subst search_end.simps) (simp add: Let_def)
qed

lemma bisect_right_search: "bisect_right_at key xs x lo hi = search_end (\<lambda>i. key (xs ! i) \<le> x) lo hi"
proof (induction key xs x lo hi rule: bisect_right_at.induct)
  case (1 key xs x lo hi)
  then show ?case by (subst bisect_right_at.simps, subst search_end.simps) (simp add: Let_def not_less)
qed

lemma search_end_range: "lo \<le> hi \<Longrightarrow> lo \<le> search_end P lo hi \<and> search_end P lo hi \<le> hi"
proof (induction P lo hi rule: search_end.induct)
  case (1 P lo hi)
  show ?case
  proof (cases "lo < hi")
    case True
    have mid: "lo \<le> (lo + hi) div 2" "(lo + hi) div 2 + 1 \<le> hi" using True by auto
    show ?thesis
    proof (cases "P ((lo + hi) div 2)")
      case p: True
      have "search_end P lo hi = search_end P ((lo + hi) div 2 + 1) hi" using True p by (subst search_end.simps) (simp add: Let_def)
      then show ?thesis using 1(1) [OF True refl p mid(2)] mid by linarith
    next
      case p: False
      have "search_end P lo hi = search_end P lo ((lo + hi) div 2)" using True p by (subst search_end.simps) (simp add: Let_def)
      then show ?thesis using 1(2) [OF True refl p mid(1)] mid by linarith
    qed
  next
    case False
    then show ?thesis using 1 by (subst (1 2) search_end.simps) simp
  qed
qed

lemma search_end_border:
  assumes "\<And>i j. i \<le> j \<Longrightarrow> j < n \<Longrightarrow> P j \<Longrightarrow> P i" "hi \<le> n" "lo \<le> hi"
    "\<forall>i < lo. P i" "\<forall>i < n. hi \<le> i \<longrightarrow> \<not> P i"
  shows "(\<forall>i < search_end P lo hi. P i) \<and> (\<forall>i < n. search_end P lo hi \<le> i \<longrightarrow> \<not> P i)"
  using assms
proof (induction P lo hi rule: search_end.induct)
  case (1 P lo hi)
  show ?case
  proof (cases "lo < hi")
    case True
    let ?mid = "(lo + hi) div 2"
    have mid: "?mid < hi" "?mid < n" "lo \<le> ?mid" using True "1.prems"(2) by auto
    show ?thesis
    proof (cases "P ?mid")
      case p: True
      have below: "\<forall>i < ?mid + 1. P i"
      proof (intro allI impI)
        fix i assume "i < ?mid + 1"
        then show "P i" using "1.prems"(1) [of i ?mid] mid(2) p by simp
      qed
      have "search_end P lo hi = search_end P (?mid + 1) hi" using True p by (subst search_end.simps) (simp add: Let_def)
      then show ?thesis using "1.IH"(1) [OF True refl p "1.prems"(1,2) _ below "1.prems"(5)] mid(1) by simp
    next
      case p: False
      have above: "\<forall>i < n. ?mid \<le> i \<longrightarrow> \<not> P i"
      proof (intro allI impI notI)
        fix i assume "i < n" "?mid \<le> i" "P i"
        then show False using "1.prems"(1) [of ?mid i] p by blast
      qed
      have "search_end P lo hi = search_end P lo ?mid" using True p by (subst search_end.simps) (simp add: Let_def)
      then show ?thesis using "1.IH"(2) [OF True refl p "1.prems"(1) _ mid(3) "1.prems"(4) above] mid(2) by simp
    qed
  next
    case False
    then have "lo = hi" using "1.prems"(3) by simp
    moreover from this have "search_end P lo hi = lo" by (subst search_end.simps) simp
    ultimately show ?thesis using "1.prems" by simp
  qed
qed

definition border :: "('a \<Rightarrow> bool) \<Rightarrow> 'a list \<Rightarrow> nat \<Rightarrow> bool" where
  "border P xs k \<longleftrightarrow> k \<le> length xs \<and> (\<forall>i < k. P (xs ! i)) \<and> (\<forall>i < length xs. k \<le> i \<longrightarrow> \<not> P (xs ! i))"

lemma border_search:
  assumes "\<And>i j. i \<le> j \<Longrightarrow> j < length xs \<Longrightarrow> P (xs ! j) \<Longrightarrow> P (xs ! i)"
  shows "border P xs (search_end (\<lambda>i. P (xs ! i)) 0 (length xs))"
  using search_end_border [of "length xs" "\<lambda>i. P (xs ! i)" "length xs" 0] search_end_range [of 0 "length xs" "\<lambda>i. P (xs ! i)"] assms
  by (simp add: border_def)

lemma bisect_left_border: "sorted (map key xs) \<Longrightarrow> border (\<lambda>y. key y < x) xs (bisect_left key xs x)"
  unfolding bisect_left_def bisect_left_search
proof (rule border_search)
  fix i j assume "sorted (map key xs)" "i \<le> j" "j < length xs" "key (xs ! j) < x"
  then show "key (xs ! i) < x" using sorted_nth_mono [of "map key xs" i j] by simp
qed

lemma bisect_right_border: "sorted (map key xs) \<Longrightarrow> border (\<lambda>y. key y \<le> x) xs (bisect_right key xs x)"
  unfolding bisect_right_def bisect_right_search
proof (rule border_search)
  fix i j assume "sorted (map key xs)" "i \<le> j" "j < length xs" "key (xs ! j) \<le> x"
  then show "key (xs ! i) \<le> x" using sorted_nth_mono [of "map key xs" i j] by simp
qed

lemma border_split: "border P xs k \<Longrightarrow> \<forall>y \<in> set (take k xs). P y" "border P xs k \<Longrightarrow> \<forall>y \<in> set (drop k xs). \<not> P y"
  by (auto simp: border_def in_set_conv_nth)

lemma border_filter:
  assumes "border P xs k" shows "take k xs = filter P xs" "drop k xs = filter (\<lambda>y. \<not> P y) xs"
proof -
  note 12 = border_split [OF assms]
  have "filter P (take k xs @ drop k xs) = take k xs" using 12 unfolding filter_append by (simp add: filter_id_conv filter_empty_conv)
  then show "take k xs = filter P xs" by simp
  have "filter (\<lambda>y. \<not> P y) (take k xs @ drop k xs) = drop k xs" using 12 unfolding filter_append by (simp add: filter_id_conv filter_empty_conv)
  then show "drop k xs = filter (\<lambda>y. \<not> P y) xs" by simp
qed

lemma border_drop:
  assumes "border P xs k" shows "border P (drop n xs) (k - n)"
  using assms by (auto simp: border_def less_diff_conv add.commute)

lemma slice_sorted:
  assumes "sorted (map key xs)"
  shows "slice (bisect_left key xs a) (bisect_right key xs b) xs = filter (\<lambda>y. a \<le> key y \<and> key y \<le> b) xs"
proof -
  let ?lo = "bisect_left key xs a" and ?hi = "bisect_right key xs b"
  have "slice ?lo ?hi xs = filter (\<lambda>y. key y \<le> b) (drop ?lo xs)"
    unfolding slice_def by (rule border_filter(1) [OF border_drop [OF bisect_right_border [OF assms]]])
  then show ?thesis
    by (simp add: border_filter(2) [OF bisect_left_border [OF assms]] not_less conj_commute)
qed


section \<open>The rows are in the order of time\<close>

lemma map_of_dict_set [simp]: "map_of (dict_set k v kvs) = (map_of kvs)(k \<mapsto> v)"
  by (induction kvs) (auto simp: fun_eq_iff)

lemma map_of_setdefault: "map_of (setdefault k v kvs) = (if map_of kvs k = None then (map_of kvs)(k \<mapsto> v) else map_of kvs)"
  by (auto simp: setdefault_def map_add_def fun_eq_iff split: option.splits)

text \<open>
  The rows of a symbol hold times that do not decrease (while no time token went back), none of them
  after the present one; with a scale below a picosecond the ticks of the rows are kept too, in the
  same order, and the times are theirs rounded up.
\<close>

definition sym_inv :: "int \<Rightarrow> int \<Rightarrow> int \<Rightarrow> bool \<Rightarrow> change list option \<Rightarrow> int list option \<Rightarrow> bool" where
  "sym_inv scale ps tick valid rows ticks \<longleftrightarrow> (case rows of None \<Rightarrow> ticks = None
     | Some rs \<Rightarrow> (valid \<longrightarrow> sorted (map fst rs) \<and> (\<forall>r \<in> set rs. fst r \<le> ps)) \<and>
         (if scale mod 1000 = 0 then ticks = None
          else (case ticks of None \<Rightarrow> False
            | Some ts \<Rightarrow> map fst rs = map (tick_ps scale) ts \<and> (valid \<longrightarrow> sorted ts \<and> (\<forall>t \<in> set ts. t \<le> tick)))))"

definition now_is :: "int \<Rightarrow> int \<Rightarrow> int \<Rightarrow> bool" where
  "now_is scale ps tick \<longleftrightarrow> ps = tick_ps scale tick"

definition vcd_inv :: "vcd \<Rightarrow> bool" where
  "vcd_inv st \<longleftrightarrow> 0 \<le> v_timescale_fs st \<and> now_is (v_timescale_fs st) (v_now_ps st) (v_now_tick st) \<and>
     (\<forall>s. sym_inv (v_timescale_fs st) (v_now_ps st) (v_now_tick st) (v_order_valid st) (map_of (v_trans st) s) (map_of (v_ticks st) s))"

lemma tick_ps_mono: "0 \<le> scale \<Longrightarrow> a \<le> b \<Longrightarrow> tick_ps scale a \<le> tick_ps scale b"
  by (simp add: tick_ps_def zdiv_mono1 mult_right_mono)

lemma sym_inv_later:
  assumes "sym_inv scale ps tick valid rows ticks" "ok \<Longrightarrow> ps \<le> ps' \<and> tick \<le> tick'"
  shows "sym_inv scale ps' tick' (valid \<and> ok) rows ticks"
proof (cases rows)
  case None
  then show ?thesis using assms(1) by (simp add: sym_inv_def)
next
  case (Some rs)
  have ps: "fst r \<le> ps'" if "valid" "ok" "r \<in> set rs" for r
    using assms that Some order_trans [of "fst r" ps ps'] by (auto simp: sym_inv_def)
  have tick: "t \<le> tick'" if "valid" "ok" "ticks = Some ts" "scale mod 1000 \<noteq> 0" "t \<in> set ts" for t ts
    using assms that Some order_trans [of t tick tick'] by (auto simp: sym_inv_def)
  show ?thesis using assms(1) Some ps tick by (cases ticks) (auto simp: sym_inv_def split: if_splits)
qed

lemma vcd_inv_scope: "vcd_scope st ts = (st', ts') \<Longrightarrow> vcd_inv st \<Longrightarrow> vcd_inv st'"
  by (auto simp: vcd_inv_def vcd_scope_def Let_def split: if_splits)

lemma vcd_inv_upscope: "vcd_upscope st ts = (st', ts') \<Longrightarrow> vcd_inv st \<Longrightarrow> vcd_inv st'"
  by (auto simp: vcd_inv_def vcd_upscope_def split: if_splits)

lemma sym_inv_new: "scale mod 1000 \<noteq> 0 \<Longrightarrow> sym_inv scale ps tick valid (Some []) (Some [])"
  "scale mod 1000 = 0 \<Longrightarrow> sym_inv scale ps tick valid (Some []) None"
  by (simp_all add: sym_inv_def)

lemma vcd_inv_declare: "vcd_inv st \<Longrightarrow> vcd_declare st ty w s name sel = Inr st' \<Longrightarrow> vcd_inv st'"
proof -
  assume inv: "vcd_inv st"
  assume d: "vcd_declare st ty w s name sel = Inr st'"
  have eq: "v_timescale_fs st' = v_timescale_fs st" "v_now_ps st' = v_now_ps st" "v_now_tick st' = v_now_tick st"
    "v_order_valid st' = v_order_valid st" "v_trans st' = setdefault s [] (v_trans st)"
    "v_ticks st' = (if sub_ps st then setdefault s [] (v_ticks st) else v_ticks st)"
    using d by (auto simp: vcd_declare_def Let_def ebind_Inr_iff split: if_splits)
  have sym: "sym_inv (v_timescale_fs st) (v_now_ps st) (v_now_tick st) (v_order_valid st) (map_of (v_trans st) u) (map_of (v_ticks st) u)" for u
    using inv by (simp add: vcd_inv_def)
  have "sym_inv (v_timescale_fs st) (v_now_ps st) (v_now_tick st) (v_order_valid st)
      (map_of (setdefault s [] (v_trans st)) u) (map_of (if sub_ps st then setdefault s [] (v_ticks st) else v_ticks st) u)" for u
  proof (cases "u = s \<and> map_of (v_trans st) s = None")
    case True
    then have "map_of (v_ticks st) s = None" using sym [of s] by (simp add: sym_inv_def)
    then show ?thesis using True sym_inv_new by (simp add: map_of_setdefault sub_ps_def)
  next
    case False
    have "map_of (v_trans st) s \<noteq> None \<Longrightarrow> sub_ps st \<Longrightarrow> map_of (v_ticks st) s \<noteq> None"
      using sym [of s] by (auto simp: sym_inv_def sub_ps_def split: option.splits)
    then show ?thesis using False sym [of u] by (auto simp: map_of_setdefault)
  qed
  then show "vcd_inv st'" using inv by (simp add: vcd_inv_def eq)
qed

lemma vcd_inv_time: "vcd_inv st \<Longrightarrow> vcd_inv (vcd_time st tok)"
proof -
  assume inv: "vcd_inv st"
  show ?thesis
  proof (cases "int_of_string (drop 1 tok)")
    case (Inl e)
    then show ?thesis using inv by (simp add: vcd_time_def)
  next
    case (Inr t)
    have "sym_inv (v_timescale_fs st) (tick_ps (v_timescale_fs st) t) t (v_order_valid st \<and> \<not> t < v_now_tick st)
       (map_of (v_trans st) u) (map_of (v_ticks st) u)" for u
    proof -
      have "v_now_ps st \<le> tick_ps (v_timescale_fs st) t" if "\<not> t < v_now_tick st"
        using that inv tick_ps_mono by (simp add: vcd_inv_def now_is_def)
      moreover have "sym_inv (v_timescale_fs st) (v_now_ps st) (v_now_tick st) (v_order_valid st) (map_of (v_trans st) u) (map_of (v_ticks st) u)"
        using inv by (simp add: vcd_inv_def)
      ultimately show ?thesis using sym_inv_later [where ok = "\<not> t < v_now_tick st"] by simp
    qed
    then show ?thesis using inv Inr by (simp add: vcd_time_def vcd_inv_def Let_def now_is_def)
  qed
qed

lemma vcd_inv_record:
  assumes inv: "vcd_inv st" and r: "vcd_record st s v = Inr st'" shows "vcd_inv st'"
proof (cases "map_of (v_trans st) s")
  case None
  then show ?thesis using inv r by (simp add: vcd_record_def)
next
  case (Some rows)
  let ?ticks = "if sub_ps st then dict_set s ((case map_of (v_ticks st) s of None \<Rightarrow> [] | Some xs \<Rightarrow> xs) @ [v_now_tick st]) (v_ticks st) else v_ticks st"
  have eq: "v_timescale_fs st' = v_timescale_fs st" "v_now_ps st' = v_now_ps st" "v_now_tick st' = v_now_tick st"
    "v_order_valid st' = v_order_valid st" "v_trans st' = dict_set s (rows @ [(v_now_ps st, v)]) (v_trans st)" "v_ticks st' = ?ticks"
    using r Some by (auto simp: vcd_record_def Let_def split: if_splits)
  have now: "v_now_ps st = tick_ps (v_timescale_fs st) (v_now_tick st)" using inv by (simp add: vcd_inv_def now_is_def)
  have sym: "sym_inv (v_timescale_fs st) (v_now_ps st) (v_now_tick st) (v_order_valid st) (map_of (v_trans st) u) (map_of (v_ticks st) u)" for u
    using inv by (simp add: vcd_inv_def)
  have "sym_inv (v_timescale_fs st) (v_now_ps st) (v_now_tick st) (v_order_valid st)
      (map_of (dict_set s (rows @ [(v_now_ps st, v)]) (v_trans st)) u) (map_of ?ticks u)" for u
  proof (cases "u = s")
    case True
    then show ?thesis using sym [of s] Some now
      by (auto simp: sym_inv_def sub_ps_def sorted_append split: option.splits)
  next
    case False
    then show ?thesis using sym [of u] by simp
  qed
  then show ?thesis using inv by (simp add: vcd_inv_def eq)
qed

lemma vcd_inv_token: "vcd_inv st \<Longrightarrow> vcd_token st t ts = Inr p \<Longrightarrow> vcd_inv (fst p)"
  by (cases p) (auto simp: vcd_token_def vcd_var_def Let_def ebind_Inr_iff split: if_splits list.splits prod.splits
      dest: vcd_inv_record vcd_inv_declare vcd_inv_scope vcd_inv_upscope intro: vcd_inv_time)

lemma vcd_inv_loop: "vcd_inv st \<Longrightarrow> vcd_loop st ts = Inr st' \<Longrightarrow> vcd_inv st'"
  by (induction st ts rule: vcd_loop.induct) (auto simp: ebind_Inr_iff dest: vcd_inv_token)

lemma vcd_inv_alias: "vcd_inv st \<Longrightarrow> vcd_inv (vcd_alias r st)"
  by (auto simp: vcd_alias_def vcd_inv_def Let_def split: prod.splits)

lemma vcd_inv_fold: "vcd_inv st \<Longrightarrow> vcd_inv (fold vcd_alias rs st)"
  by (induction rs arbitrary: st) (simp_all add: vcd_inv_alias)

lemma first_unit_nonneg: "first_unit us t = Inr n \<Longrightarrow> \<forall>u \<in> set us. 0 \<le> snd u \<Longrightarrow> 0 \<le> n"
  by (induction us t rule: first_unit.induct)
    (auto simp: scaled_number_def ebind_Inr_iff split: if_splits option.splits)

lemma vcd_inv_init: "0 \<le> fs \<Longrightarrow> vcd_inv (vcd_init\<lparr>v_timescale_raw := raw, v_timescale_fs := fs\<rparr>)"
  by (simp add: vcd_inv_def vcd_init_def sym_inv_def tick_ps_def now_is_def)

lemma vcd_inv_header: "vcd_header content = Inr st \<Longrightarrow> vcd_inv st"
proof -
  assume h: "vcd_header content = Inr st"
  show ?thesis
  proof (cases "find_section ''$timescale'' content")
    case None
    then have "st = vcd_init" using h by (simp add: vcd_header_def)
    then show ?thesis by (simp add: vcd_inv_def vcd_init_def sym_inv_def tick_ps_def now_is_def)
  next
    case (Some raw)
    then obtain fs where fs: "parse_timescale_fs raw = Inr fs" "st = vcd_init\<lparr>v_timescale_raw := Some raw, v_timescale_fs := fs\<rparr>"
      using h by (auto simp: vcd_header_def ebind_Inr_iff)
    have "0 \<le> fs" by (rule first_unit_nonneg [OF fs(1) [unfolded parse_timescale_fs_def]]) (simp add: TIME_UNITS_def)
    then show ?thesis using vcd_inv_init fs(2) by simp
  qed
qed

lemma vcd_parse_inv: "vcd_parse content = Inr st \<Longrightarrow> vcd_inv st"
proof -
  assume "vcd_parse content = Inr st"
  then obtain st0 st1 where "vcd_header content = Inr st0" "vcd_loop st0 (iter_tokens TOKEN_CHUNK_CHARS content) = Inr st1"
    "st = fold vcd_alias (v_ranged st1) st1"
    unfolding vcd_parse_def vcd_parse_tokens_def ebind_Inr_iff by blast
  then show "vcd_inv st" using vcd_inv_header vcd_inv_loop vcd_inv_fold by metis
qed

lemma vcd_rows_sorted: "vcd_inv st \<Longrightarrow> v_order_valid st \<Longrightarrow> sorted (map fst (vcd_rows st s))"
proof -
  assume "vcd_inv st" "v_order_valid st"
  then have "sym_inv (v_timescale_fs st) (v_now_ps st) (v_now_tick st) True (map_of (v_trans st) s) (map_of (v_ticks st) s)"
    by (simp add: vcd_inv_def)
  then show ?thesis by (auto simp: sym_inv_def vcd_rows_def split: option.splits)
qed

end
