(* ===== verification/Vcd_Claims.thy ===== *)
theory Vcd_Claims
  imports Vcd_Laws
begin

text \<open>
  What the VCD reader of src/src/vcd_parser.py promises: its tokens are those of the whole text
  whatever the chunks, its answers are the rows of the queried window, and a dump that was written
  out from a log of changes reads back the values of that log.
\<close>

text \<open>C40. The chunked token iterator yields exactly the words of the text, as \<open>str.split()\<close> does.\<close>

theorem iter_tokens_exact: "iter_tokens TOKEN_CHUNK_CHARS s = words s"
  by (rule iter_tokens_words) (simp add: TOKEN_CHUNK_CHARS_def)

section \<open>Queries\<close>

definition last_of :: "'a list \<Rightarrow> 'a option" where
  "last_of xs = (if xs = [] then None else Some (last xs))"

lemma last_of_take: "k \<le> length xs \<Longrightarrow> (if k < 1 then None else Some (f (xs ! (k - 1)))) = map_option f (last_of (take k xs))"
  by (cases k) (auto simp: last_of_def take_Suc_conv_app_nth)

lemma value_at_sorted:
  assumes "sorted (map fst rows)"
  shows "value_at rows t = map_option snd (last_of (filter (\<lambda>r. fst r \<le> t) rows))"
proof (cases "rows = []")
  case True
  then show ?thesis by (simp add: value_at_def last_of_def)
next
  case False
  note b = bisect_right_border [OF assms, of t]
  have "bisect_right fst rows t \<le> length rows" using b by (simp add: border_def)
  then show ?thesis
    using False last_of_take [of "bisect_right fst rows t" rows snd] border_filter(1) [OF b] by (simp add: value_at_def Let_def)
qed

lemma window_of_sorted:
  assumes "sorted (map fst rows)"
  shows "wi_rows (window_of rows a b) = map enrich_row (filter (\<lambda>r. a \<le> fst r \<and> fst r \<le> b) rows)"
    "wi_predecessor (window_of rows a b) = map_option enrich_row (last_of (filter (\<lambda>r. fst r < a) rows))"
proof -
  show "wi_rows (window_of rows a b) = map enrich_row (filter (\<lambda>r. a \<le> fst r \<and> fst r \<le> b) rows)"
    by (simp add: window_of_def Let_def slice_sorted [OF assms])
  note l = bisect_left_border [OF assms, of a]
  have "bisect_left fst rows a \<le> length rows" using l by (simp add: border_def)
  then show "wi_predecessor (window_of rows a b) = map_option enrich_row (last_of (filter (\<lambda>r. fst r < a) rows))"
    using last_of_take [of "bisect_left fst rows a" rows enrich_row] border_filter(1) [OF l]
    by (simp add: window_of_def Let_def not_less split: if_splits)
qed

text \<open>C18. On a dump whose time tokens never go back, the transitions of a window are exactly the
  recorded changes within it in their order, its predecessor is the last change before it, and the
  value at a time is the one of the last change not after it.\<close>

theorem vcd_queries_exact:
  assumes "vcd_parse content = Inr st" "v_order_valid st" "vcd_resolve st path = Inr s"
  shows "transitions st path a b = Inr \<lparr>wi_start = a, wi_end = (if b = - 1 then v_end_ps st else b),
      wi_rows = map enrich_row (filter (\<lambda>r. a \<le> fst r \<and> fst r \<le> (if b = - 1 then v_end_ps st else b)) (vcd_rows st s)),
      wi_predecessor = map_option enrich_row (last_of (filter (\<lambda>r. fst r < a) (vcd_rows st s)))\<rparr> \<and>
    value_at_time st path t = Inr (enrich_value (map_option snd (last_of (filter (\<lambda>r. fst r \<le> t) (vcd_rows st s)))))"
proof -
  have "sorted (map fst (vcd_rows st s))" using vcd_rows_sorted vcd_parse_inv assms by blast
  note w = window_of_sorted [OF this] and v = value_at_sorted [OF this]
  have "window_of (vcd_rows st s) a e = \<lparr>wi_start = a, wi_end = e,
      wi_rows = map enrich_row (filter (\<lambda>r. a \<le> fst r \<and> fst r \<le> e) (vcd_rows st s)),
      wi_predecessor = map_option enrich_row (last_of (filter (\<lambda>r. fst r < a) (vcd_rows st s)))\<rparr>" for e
    by (rule window.equality) (simp_all only: w window.simps, simp_all add: window_of_def Let_def)
  then show ?thesis using assms(3) v by (simp add: transitions_def value_at_time_def)
qed

definition demo_dump :: string where
  "demo_dump = ''$timescale 100fs $end $var wire 1 ! c $end #5 0! #20 x!''"

lemma demo_words: "words demo_dump = [''$timescale'', ''100fs'', ''$end'', ''$var'', ''wire'', ''1'', ''!'', ''c'', ''$end'',
    ''#5'', ''0!'', ''#20'', ''x!'']"
  by code_simp

lemma demo_tokens: "iter_tokens TOKEN_CHUNK_CHARS demo_dump = words demo_dump"
  by (rule iter_tokens_words) (simp add: TOKEN_CHUNK_CHARS_def)

lemma demo_header: "vcd_header demo_dump = Inr (vcd_init\<lparr>v_timescale_raw := Some ''100fs'', v_timescale_fs := 100\<rparr>)"
  by code_simp

lemma vcd_demo_parse: "ebind (vcd_parse_tokens (vcd_init\<lparr>v_timescale_raw := Some ''100fs'', v_timescale_fs := 100\<rparr>)
    [''$timescale'', ''100fs'', ''$end'', ''$var'', ''wire'', ''1'', ''!'', ''c'', ''$end'', ''#5'', ''0!'', ''#20'', ''x!''])
    (\<lambda>st. Inr (v_order_valid st, vcd_resolve st ''c'', vcd_rows st ''!'', v_end_ps st)) =
   Inr (True, Inr ''!'', [(1, ''0''), (2, ''x'')], 2)"
  by code_simp

lemma vcd_queries_exact_witness:
  "\<exists>st. vcd_parse demo_dump = Inr st \<and> value_at_time st ''c'' 1 = Inr (enrich_value (Some ''0'')) \<and>
     transitions st ''c'' 2 (- 1) = Inr \<lparr>wi_start = 2, wi_end = 2, wi_rows = [enrich_row (2, ''x'')],
       wi_predecessor = Some (enrich_row (1, ''0''))\<rparr>"
proof -
  obtain st where st: "vcd_parse demo_dump = Inr st" "v_order_valid st" "vcd_resolve st ''c'' = Inr ''!''"
    "vcd_rows st ''!'' = [(1, ''0''), (2, ''x'')]" "v_end_ps st = 2"
    using vcd_demo_parse by (auto simp: vcd_parse_def demo_tokens demo_words demo_header ebind_Inr_iff)
  show ?thesis using vcd_queries_exact [OF st(1-3), of 2 "- 1" 1] st by (auto simp: last_of_def)
qed

end
