(* ===== verification/Vcd_Readback.thy ===== *)
theory Vcd_Readback
  imports Vcd_Claims
begin

text \<open>
  Writing a dump and reading it back. A log is a list of time steps, each a tick and the changes made
  at it (a symbol and its value token); \<open>dump_text\<close> is the VCD text of declarations and a log.
\<close>

section \<open>Numbers\<close>

lemma is_digit_char: "d < 10 \<Longrightarrow> is_digit (digit_char d) \<and> char_digit (digit_char d) = d"
  by (simp add: is_digit_def digit_char_def char_digit_def)

lemma show_nat_digits: "show_nat n \<noteq> [] \<and> list_all is_digit (show_nat n)"
proof (induction n rule: show_nat.induct)
  case (1 n)
  then show ?case by (subst (1 2) show_nat.simps) (simp add: is_digit_char)
qed

lemma read_digits_append: "read_digits acc (a @ b) = read_digits (read_digits acc a) b"
  by (induction a arbitrary: acc) simp_all

lemma read_show_nat: "read_digits 0 (show_nat n) = n"
proof (induction n rule: show_nat.induct)
  case (1 n)
  then show ?case by (subst show_nat.simps) (simp add: is_digit_char read_digits_append)
qed

lemma digit_not_space: "is_digit c \<Longrightarrow> \<not> is_space c"
  by (simp add: is_digit_def is_space_def Let_def)

lemma digits_ok_digits: "list_all is_digit s \<Longrightarrow> digits_ok b s = (s \<noteq> [] \<or> b)"
  by (induction s arbitrary: b) auto

lemma int_of_show: "int_of_string (show_nat n) = Inr (int n)"
proof -
  note d = show_nat_digits [of n]
  have s: "strip (show_nat n) = show_nat n" using d by (intro strip_id) (auto simp: list_all_iff digit_not_space)
  have "is_digit (hd (show_nat n))" using d by (cases "show_nat n") simp_all
  then have "hd (show_nat n) \<noteq> CHR ''-''" "hd (show_nat n) \<notin> set ''+-''" by (auto simp: is_digit_def)
  moreover have "filter is_digit (show_nat n) = show_nat n" using d by (simp add: list_all_iff filter_id_conv)
  ultimately show ?thesis using d by (simp add: int_of_string_def s Let_def digits_ok_digits read_show_nat del: list.set)
qed

section \<open>The dump\<close>

type_synonym var_decl = "string \<times> nat \<times> string \<times> string"
type_synonym time_step = "nat \<times> (string \<times> string) list"

definition clean :: "string \<Rightarrow> bool" where
  "clean t \<longleftrightarrow> t \<noteq> [] \<and> list_all (\<lambda>c. \<not> is_space c) t"

definition print_var :: "var_decl \<Rightarrow> string list" where
  "print_var d = (case d of (ty, w, sy, name) \<Rightarrow> [''$var'', ty, show_nat w, sy, name, ''$end''])"

definition print_scope :: "string \<times> var_decl list \<Rightarrow> string list" where
  "print_scope d = [''$scope'', ''module'', fst d, ''$end''] @ concat (map print_var (snd d)) @ [''$upscope'', ''$end'']"

definition print_change :: "string \<times> string \<Rightarrow> string list" where
  "print_change c = (case c of (sy, v) \<Rightarrow> if hd v \<in> set ''bB'' then [v, sy] else [v @ sy])"

definition print_step :: "time_step \<Rightarrow> string list" where
  "print_step p = (CHR ''#'' # show_nat (fst p)) # concat (map print_change (snd p))"

definition dump_tokens :: "(string \<times> var_decl list) list \<Rightarrow> time_step list \<Rightarrow> string list" where
  "dump_tokens decls log = concat (map print_scope decls) @ [''$enddefinitions'', ''$end''] @ concat (map print_step log)"

definition dump_text :: "string \<Rightarrow> (string \<times> var_decl list) list \<Rightarrow> time_step list \<Rightarrow> string" where
  "dump_text un decls log =
     ''$timescale '' @ un @ '' $end '' @ concat (map (\<lambda>t. t @ '' '') (dump_tokens decls log))"

definition log_rows :: "int \<Rightarrow> string \<Rightarrow> time_step list \<Rightarrow> change list" where
  "log_rows scale sy log = concat (map (\<lambda>(t, cs). map (\<lambda>(s, v). (tick_ps scale (int t), v)) (filter (\<lambda>(s, v). s = sy) cs)) log)"

definition change_ok :: "string \<times> string \<Rightarrow> bool" where
  "change_ok c \<longleftrightarrow> (case c of (sy, v) \<Rightarrow> clean sy \<and> clean v \<and> (hd v \<in> set ''bB'' \<or> length v = 1 \<and> hd v \<in> set ''01xXzZ''))"

definition name_ok :: "string \<Rightarrow> bool" where
  "name_ok t \<longleftrightarrow> clean t \<and> CHR ''['' \<notin> set t"

definition var_ok :: "var_decl \<Rightarrow> bool" where
  "var_ok d \<longleftrightarrow> (case d of (ty, w, sy, name) \<Rightarrow> clean ty \<and> 0 < w \<and> clean sy \<and> name_ok name)"

definition full_names :: "(string \<times> var_decl list) list \<Rightarrow> string list" where
  "full_names decls = concat (map (\<lambda>(scope, vars). map (\<lambda>(ty, w, sy, name). scope @ ''.'' @ name) vars) decls)"

definition dump_ok :: "string \<Rightarrow> (string \<times> var_decl list) list \<Rightarrow> time_step list \<Rightarrow> bool" where
  "dump_ok un decls log \<longleftrightarrow>
     clean un \<and> is_digit (hd un) \<and> CHR ''$'' \<notin> set un \<and>
     list_all (\<lambda>(scope, vars). name_ok scope \<and> list_all var_ok vars) decls \<and> distinct (full_names decls) \<and>
     list_all (\<lambda>(t, cs). int t < 2 ^ 64 \<and> list_all change_ok cs) log \<and> sorted (map fst log)"

section \<open>The text\<close>

lemma words_tokens: "list_all clean ts \<Longrightarrow> words (concat (map (\<lambda>t. t @ '' '') ts)) = ts"
proof (induction ts)
  case (Cons t ts)
  have sp: "is_space CHR '' ''" by code_simp
  have "words (t @ ('' '' @ concat (map (\<lambda>t. t @ '' '') ts))) = t # words ('' '' @ concat (map (\<lambda>t. t @ '' '') ts))"
    using Cons.prems sp by (intro words_word) (auto simp: clean_def)
  moreover have "words ('' '' @ concat (map (\<lambda>t. t @ '' '') ts)) = words (concat (map (\<lambda>t. t @ '' '') ts))"
    using sp by (intro words_space) simp
  ultimately show ?case using Cons by simp
qed simp

lemma until_end_text: "CHR ''$'' \<notin> set u \<Longrightarrow> until_end (u @ ''$end'' @ r) = Some u"
  by (induction u) auto

lemma strip_blank: "clean t \<Longrightarrow> strip (t @ '' '') = t"
proof -
  assume c: "clean t"
  have sp: "is_space CHR '' ''" by code_simp
  have "dropWhile is_space (t @ '' '') = t @ '' ''" using c by (cases t) (auto simp: clean_def)
  moreover have "dropWhile is_space (rev t) = rev t" using c by (cases "rev t") (auto simp: clean_def list_all_iff)
  ultimately show ?thesis using sp by (simp add: strip_def)
qed

lemma dump_section:
  assumes "clean un" "CHR ''$'' \<notin> set un" shows "find_section ''$timescale'' (dump_text un decls log) = Some un"
proof -
  let ?r = "un @ '' $end '' @ concat (map (\<lambda>t. t @ '' '') (dump_tokens decls log))"
  have sp: "is_space CHR '' ''" by code_simp
  have body: "dropWhile is_space (CHR '' '' # ?r) = ?r" using assms(1) sp by (cases un) (auto simp: clean_def)
  have "until_end ?r = Some (un @ '' '')"
    using until_end_text [of "un @ '' ''"] assms(2) by simp
  then have "section_at ''$timescale'' (''$timescale'' @ CHR '' '' # ?r) = Some un"
    using strip_blank [OF assms(1)] body by (simp add: section_at_def Let_def)
  moreover have t: "dump_text un decls log = CHR ''$'' # (''timescale'' @ CHR '' '' # ?r)" by (simp add: dump_text_def)
  ultimately show ?thesis unfolding t find_section.simps by simp
qed

lemma clean_simps: "clean ''$scope''" "clean ''module''" "clean ''$end''" "clean ''$upscope''" "clean ''$var''"
  "clean ''$enddefinitions''" "clean ''$timescale''" "clean (CHR ''#'' # show_nat n)" "clean (show_nat n)"
proof -
  show "clean ''$scope''" "clean ''module''" "clean ''$end''" "clean ''$upscope''" "clean ''$var''"
    "clean ''$enddefinitions''" "clean ''$timescale''" by code_simp+
  have "\<not> is_space CHR ''#''" by code_simp
  then show "clean (CHR ''#'' # show_nat n)" "clean (show_nat n)"
    using show_nat_digits [of n] by (auto simp: clean_def list_all_iff digit_not_space)
qed

lemma clean_dump_tokens:
  assumes "dump_ok un decls log" shows "list_all clean (dump_tokens decls log)"
proof -
  have var: "list_all clean (print_var d)" if "var_ok d" for d
    using that clean_simps by (auto simp: print_var_def var_ok_def name_ok_def split: prod.splits)
  have change: "list_all clean (print_change c)" if "change_ok c" for c
    using that by (auto simp: print_change_def change_ok_def clean_def split: prod.splits)
  have scope: "list_all clean (print_scope (n, vars))" if "name_ok n" "list_all var_ok vars" for n vars
  proof -
    have "\<forall>d \<in> set vars. list_all clean (print_var d)" using that(2) var by (auto simp: list_all_iff)
    then have "list_all clean (concat (map print_var vars))" by (auto simp: list_all_iff)
    then show ?thesis using that(1) clean_simps by (simp add: print_scope_def name_ok_def)
  qed
  have step: "list_all clean (print_step (t, cs))" if "list_all change_ok cs" for t cs
  proof -
    have "\<forall>c \<in> set cs. list_all clean (print_change c)" using that change by (auto simp: list_all_iff)
    then have "list_all clean (concat (map print_change cs))" by (auto simp: list_all_iff)
    then show ?thesis using clean_simps by (simp add: print_step_def)
  qed
  have "\<forall>d \<in> set decls. list_all clean (print_scope d)"
    using assms scope unfolding dump_ok_def list_all_iff by fast
  moreover have "\<forall>p \<in> set log. list_all clean (print_step p)"
    using assms step unfolding dump_ok_def list_all_iff by fast
  ultimately have "list_all clean (concat (map print_scope decls))" "list_all clean (concat (map print_step log))"
    by (auto simp: list_all_iff)
  then show ?thesis using clean_simps by (simp add: dump_tokens_def)
qed

lemma dump_words:
  assumes "dump_ok un decls log"
  shows "words (dump_text un decls log) = [''$timescale'', un, ''$end''] @ dump_tokens decls log"
proof -
  have u: "clean un" using assms by (simp add: dump_ok_def)
  have "dump_text un decls log = concat (map (\<lambda>t. t @ '' '') ([''$timescale'', un, ''$end''] @ dump_tokens decls log))"
    by (simp add: dump_text_def)
  moreover have "list_all clean ([''$timescale'', un, ''$end''] @ dump_tokens decls log)"
    using clean_dump_tokens [OF assms] clean_simps u by simp
  ultimately show ?thesis using words_tokens by metis
qed


section \<open>Reading the declarations\<close>

text \<open>
  What the declarations leave behind: every declared name finds its symbol, every declared symbol
  has rows, all rows are empty, and nothing waits to be aliased.
\<close>

definition declared :: "vcd \<Rightarrow> int \<Rightarrow> string list \<Rightarrow> (string \<times> string) list \<Rightarrow> bool" where
  "declared st scale stack names \<longleftrightarrow> v_timescale_fs st = scale \<and> v_stack st = stack \<and> v_ranged st = [] \<and>
     v_order_valid st \<and> v_now_tick st = 0 \<and> vcd_inv st \<and> map_of (v_paths st) = map_of names \<and>
     (\<forall>s. map_of (v_trans st) s = (if s \<in> snd ` set names then Some [] else None))"

lemma last_bracket_none: "CHR ''['' \<notin> set s \<Longrightarrow> read_range (last_bracket s) = None"
  by (simp add: last_bracket_def read_range_def)

lemma range_of_name: "CHR ''['' \<notin> set s \<Longrightarrow> 0 < w \<Longrightarrow> declaration_range s (int w) = Inr \<lparr>br_left = int w - 1, br_right = 0\<rparr>"
  by (simp add: declaration_range_def last_bracket_none br_from_width_def)

lemma loop_var:
  assumes "declared st scale [scope] names" "var_ok (ty, w, sy, name)" "name_ok scope"
    "scope @ ''.'' @ name \<notin> fst ` set names"
  shows "\<exists>st'. vcd_loop st (print_var (ty, w, sy, name) @ ts) = vcd_loop st' ts \<and>
    declared st' scale [scope] ((scope @ ''.'' @ name, sy) # names)"
proof -
  let ?full = "scope @ ''.'' @ name"
  have full: "dotted ([scope] @ [name]) = ?full" by (simp add: dotted_def)
  have w: "show_nat w \<noteq> []" "list_all is_digit (show_nat w)" "int (read_digits 0 (show_nat w)) = int w"
    using show_nat_digits read_show_nat by simp_all
  have r: "declaration_range ?full (int w) = Inr \<lparr>br_left = int w - 1, br_right = 0\<rparr>"
    using assms(2,3) by (intro range_of_name) (auto simp: var_ok_def name_ok_def)
  have none: "map_of (v_paths st) ?full = None" using assms(1,4) by (simp add: declared_def map_of_eq_None_iff)
  have st: "v_stack st = [scope]" using assms(1) by (simp add: declared_def)
  obtain st' where d: "vcd_declare st ty (int w) sy name [] = Inr st'"
    using none r full st by (simp add: vcd_declare_def Let_def)
  have eq: "v_timescale_fs st' = v_timescale_fs st" "v_stack st' = v_stack st" "v_ranged st' = v_ranged st"
    "v_order_valid st' = v_order_valid st" "v_now_tick st' = v_now_tick st" "v_paths st' = dict_set ?full sy (v_paths st)"
    "v_trans st' = setdefault sy [] (v_trans st)"
    using d none r full st by (auto simp: vcd_declare_def Let_def)
  have "vcd_inv st'" using vcd_inv_declare [OF _ d] assms(1) by (simp add: declared_def)
  moreover have "map_of (v_paths st') = map_of ((?full, sy) # names)"
    using assms(1) by (simp add: eq declared_def fun_eq_iff)
  moreover have "map_of (v_trans st') s = (if s \<in> snd ` set ((?full, sy) # names) then Some [] else None)" for s
    using assms(1) by (auto simp: eq declared_def map_of_setdefault)
  ultimately have "declared st' scale [scope] ((?full, sy) # names)"
    using assms(1) unfolding declared_def eq by blast
  moreover have "vcd_var st ([ty, show_nat w, sy, name, ''$end''] @ ts) = Inr (st', ts)"
    using d w by (simp add: vcd_var_def next_token_def Let_def)
  then have "vcd_loop st (print_var (ty, w, sy, name) @ ts) = vcd_loop st' ts"
    by (simp add: print_var_def vcd_token_def)
  ultimately show ?thesis by blast
qed

lemma loop_vars:
  assumes "declared st scale [scope] names" "list_all var_ok vars" "name_ok scope"
    "distinct (map (\<lambda>(ty, w, sy, name). scope @ ''.'' @ name) vars)"
    "set (map (\<lambda>(ty, w, sy, name). scope @ ''.'' @ name) vars) \<inter> fst ` set names = {}"
  shows "\<exists>st'. vcd_loop st (concat (map print_var vars) @ ts) = vcd_loop st' ts \<and>
    declared st' scale [scope] (rev (map (\<lambda>(ty, w, sy, name). (scope @ ''.'' @ name, sy)) vars) @ names)"
  using assms
proof (induction vars arbitrary: st names)
  case Nil
  then show ?case by auto
next
  case (Cons d vars)
  obtain ty w sy name where d: "d = (ty, w, sy, name)" by (cases d)
  let ?full = "scope @ ''.'' @ name"
  obtain st1 where 1: "vcd_loop st (print_var d @ concat (map print_var vars) @ ts) = vcd_loop st1 (concat (map print_var vars) @ ts)"
    "declared st1 scale [scope] ((?full, sy) # names)"
    using loop_var [OF Cons.prems(1), of ty w sy name "concat (map print_var vars) @ ts"] Cons.prems d by auto
  obtain st2 where 2: "vcd_loop st1 (concat (map print_var vars) @ ts) = vcd_loop st2 ts"
    "declared st2 scale [scope] (rev (map (\<lambda>(ty, w, sy, name). (scope @ ''.'' @ name, sy)) vars) @ (?full, sy) # names)"
    using Cons.IH [OF 1(2)] Cons.prems d by auto
  show ?case using 1(1) 2 d by auto
qed

definition scope_names :: "string \<times> var_decl list \<Rightarrow> (string \<times> string) list" where
  "scope_names d = map (\<lambda>(ty, w, sy, name). (fst d @ ''.'' @ name, sy)) (snd d)"

lemma loop_scope:
  assumes "declared st scale [] names" "name_ok scope" "list_all var_ok vars"
    "distinct (map fst (scope_names (scope, vars)))" "set (map fst (scope_names (scope, vars))) \<inter> fst ` set names = {}"
  shows "\<exists>st'. vcd_loop st (print_scope (scope, vars) @ ts) = vcd_loop st' ts \<and>
    declared st' scale [] (rev (scope_names (scope, vars)) @ names)"
proof -
  let ?st = "fst (vcd_scope st ([''module'', scope, ''$end'']))"
  have enter: "vcd_scope st ([''module'', scope, ''$end''] @ r) = (?st, r)" for r
    by (simp add: vcd_scope_def Let_def)
  have d1: "declared ?st scale [scope] names"
    using assms(1) vcd_inv_scope [of st "[''module'', scope, ''$end'']"] enter [of "[]"]
    by (auto simp: declared_def vcd_scope_def Let_def)
  have names: "map fst (scope_names (scope, vars)) = map (\<lambda>(ty, w, sy, name). scope @ ''.'' @ name) vars"
    by (auto simp: scope_names_def)
  have sn: "map (\<lambda>(ty, w, sy, name). (scope @ ''.'' @ name, sy)) vars = scope_names (scope, vars)" by (simp add: scope_names_def)
  obtain st2 where 2: "vcd_loop ?st (concat (map print_var vars) @ [''$upscope'', ''$end''] @ ts) = vcd_loop st2 ([''$upscope'', ''$end''] @ ts)"
    "declared st2 scale [scope] (rev (scope_names (scope, vars)) @ names)"
    using loop_vars [OF d1 assms(3,2) assms(4,5) [unfolded names], of "[''$upscope'', ''$end''] @ ts"] unfolding sn by blast
  let ?st3 = "fst (vcd_upscope st2 [''$end''])"
  have leave: "vcd_upscope st2 ([''$end''] @ ts) = (?st3, ts)" by (simp add: vcd_upscope_def)
  have "declared ?st3 scale [] (rev (scope_names (scope, vars)) @ names)"
    using 2(2) vcd_inv_upscope [OF leave] by (auto simp: declared_def vcd_upscope_def)
  moreover have "vcd_loop st (print_scope (scope, vars) @ ts) = vcd_loop ?st3 ts"
    using enter [of "concat (map print_var vars) @ [''$upscope'', ''$end''] @ ts"] 2(1) leave
    by (simp add: print_scope_def vcd_token_def)
  ultimately show ?thesis by blast
qed


lemma loop_scopes:
  assumes "declared st scale [] names" "list_all (\<lambda>(scope, vars). name_ok scope \<and> list_all var_ok vars) decls"
    "distinct (map fst (concat (map scope_names decls)) @ map fst names)"
  shows "\<exists>st'. vcd_loop st (concat (map print_scope decls) @ ts) = vcd_loop st' ts \<and>
    declared st' scale [] (rev (concat (map scope_names decls)) @ names)"
  using assms
proof (induction decls arbitrary: st names)
  case Nil
  then show ?case by auto
next
  case (Cons d decls)
  obtain scope vars where d: "d = (scope, vars)" by (cases d)
  let ?rest = "map fst (concat (map scope_names decls))"
  have ok: "name_ok scope" "list_all var_ok vars" using Cons.prems(2) d by auto
  have dis: "distinct (map fst (scope_names d) @ (?rest @ map fst names))" using Cons.prems(3) by simp
  then have here: "distinct (map fst (scope_names (scope, vars)))" "set (map fst (scope_names (scope, vars))) \<inter> fst ` set names = {}"
    unfolding d distinct_append set_append set_map by blast+
  obtain st1 where 1: "vcd_loop st (print_scope d @ concat (map print_scope decls) @ ts) = vcd_loop st1 (concat (map print_scope decls) @ ts)"
    "declared st1 scale [] (rev (scope_names d) @ names)"
    using loop_scope [OF Cons.prems(1) ok here, of "concat (map print_scope decls) @ ts"] d by auto
  have rest: "distinct (?rest @ map fst (rev (scope_names d) @ names))"
    using dis unfolding distinct_append set_append map_append set_map set_rev rev_map [symmetric] distinct_rev by blast
  obtain st2 where 2: "vcd_loop st1 (concat (map print_scope decls) @ ts) = vcd_loop st2 ts"
    "declared st2 scale [] (rev (concat (map scope_names decls)) @ rev (scope_names d) @ names)"
    using Cons.IH [OF 1(2) _ rest] Cons.prems(2) by auto
  then show ?case using 1(1) by (intro exI [of _ st2]) simp
qed

section \<open>Reading the log\<close>

lemma record_step:
  assumes "vcd_inv st" "v_order_valid st" "0 \<le> v_now_tick st" "v_now_tick st < 2 ^ 64"
  shows "\<exists>st'. vcd_record st sy v = Inr st' \<and> vcd_inv st' \<and> v_timescale_fs st' = v_timescale_fs st \<and> v_now_tick st' = v_now_tick st \<and>
    v_order_valid st' \<and> v_paths st' = v_paths st \<and> v_ranged st' = v_ranged st \<and> dom (map_of (v_trans st')) = dom (map_of (v_trans st)) \<and>
    (\<forall>s \<in> dom (map_of (v_trans st)). vcd_rows st' s = vcd_rows st s @ (if s = sy then [(v_now_ps st, v)] else [])) \<and> v_now_ps st' = v_now_ps st"
proof -
  have "\<exists>st'. vcd_record st sy v = Inr st'"
    using assms(3,4) by (cases "map_of (v_trans st) sy"; cases "sub_ps st") (simp_all add: vcd_record_def Let_def)
  then obtain st' where r: "vcd_record st sy v = Inr st'" by blast
  moreover have "vcd_inv st'" by (rule vcd_inv_record [OF assms(1) r])
  ultimately show ?thesis using assms(2)
    by (auto simp: vcd_record_def vcd_rows_def Let_def dom_def split: option.splits if_splits)
qed

text \<open>Between two time tokens: the clock and the order stay, the rows grow.\<close>

definition logged :: "vcd \<Rightarrow> vcd \<Rightarrow> (string \<Rightarrow> change list) \<Rightarrow> bool" where
  "logged st st' new \<longleftrightarrow> vcd_inv st' \<and> v_timescale_fs st' = v_timescale_fs st \<and> v_order_valid st' \<and> v_paths st' = v_paths st \<and>
     v_ranged st' = v_ranged st \<and> dom (map_of (v_trans st')) = dom (map_of (v_trans st)) \<and>
     (\<forall>s \<in> dom (map_of (v_trans st)). vcd_rows st' s = vcd_rows st s @ new s)"

lemma logged_trans: "logged st st1 f \<Longrightarrow> logged st1 st2 g \<Longrightarrow> logged st st2 (\<lambda>s. f s @ g s)"
  by (auto simp: logged_def)

definition step_rows :: "int \<Rightarrow> string \<Rightarrow> (string \<times> string) list \<Rightarrow> change list" where
  "step_rows ps s cs = map (\<lambda>(s', v). (ps, v)) (filter (\<lambda>(s', v). s' = s) cs)"

lemma change_token:
  assumes "change_ok (sy, v)" shows "vcd_loop st (print_change (sy, v) @ ts) = ebind (vcd_record st sy v) (\<lambda>st'. vcd_loop st' ts)"
proof (cases "hd v \<in> set ''bB''")
  case True
  obtain c cs where v: "v = c # cs" "c = CHR ''b'' \<or> c = CHR ''B''" using True assms by (cases v) (auto simp: change_ok_def clean_def)
  have first: "c \<noteq> CHR ''$''" "c \<noteq> CHR ''#''" "c \<in> set ''bB''" using v(2) by auto
  have t: "print_change (sy, v) = [v, sy]" using True by (simp add: print_change_def)
  have "vcd_token st v (sy # ts) = ebind (vcd_record st sy v) (\<lambda>st'. Inr (st', ts))"
    using first v(1) by (simp add: vcd_token_def del: list.set)
  then show ?thesis by (simp add: t ebind_assoc)
next
  case False
  then obtain c where v: "v = [c]" "c \<in> set ''01xXzZ''" using assms by (cases v) (auto simp: change_ok_def)
  obtain a as where s: "sy = a # as" using assms by (cases sy) (auto simp: change_ok_def clean_def)
  have first: "c \<noteq> CHR ''$''" "c \<noteq> CHR ''#''" "c \<notin> set ''bB''" using v(2) by auto
  have t: "print_change (sy, v) = [c # sy]" using False v(1) by (simp add: print_change_def)
  have "vcd_token st (c # sy) ts = ebind (vcd_record st sy v) (\<lambda>st'. Inr (st', ts))"
    using first v s by (simp add: vcd_token_def del: list.set)
  then show ?thesis by (simp add: t ebind_assoc)
qed

lemma loop_changes:
  assumes "vcd_inv st" "v_order_valid st" "0 \<le> v_now_tick st" "v_now_tick st < 2 ^ 64" "list_all change_ok cs"
  shows "\<exists>st'. vcd_loop st (concat (map print_change cs) @ ts) = vcd_loop st' ts \<and> v_now_tick st' = v_now_tick st \<and>
    logged st st' (\<lambda>s. step_rows (v_now_ps st) s cs)"
  using assms
proof (induction cs arbitrary: st)
  case Nil
  then show ?case by (auto simp: logged_def step_rows_def)
next
  case (Cons c cs)
  obtain sy v where c: "c = (sy, v)" by (cases c)
  obtain st1 where 1: "vcd_record st sy v = Inr st1" "vcd_inv st1" "v_timescale_fs st1 = v_timescale_fs st"
    "v_now_tick st1 = v_now_tick st" "v_order_valid st1" "v_paths st1 = v_paths st" "v_ranged st1 = v_ranged st"
    "dom (map_of (v_trans st1)) = dom (map_of (v_trans st))" "v_now_ps st1 = v_now_ps st"
    "\<forall>s \<in> dom (map_of (v_trans st)). vcd_rows st1 s = vcd_rows st s @ (if s = sy then [(v_now_ps st, v)] else [])"
    using record_step [OF Cons.prems(1-4), of sy v] by blast
  then have l1: "logged st st1 (\<lambda>s. if s = sy then [(v_now_ps st, v)] else [])" by (simp add: logged_def)
  obtain st2 where 2: "vcd_loop st1 (concat (map print_change cs) @ ts) = vcd_loop st2 ts" "v_now_tick st2 = v_now_tick st1"
    "logged st1 st2 (\<lambda>s. step_rows (v_now_ps st1) s cs)"
    using Cons.IH [OF 1(2,5)] 1(4) Cons.prems by auto
  have "logged st st2 (\<lambda>s. (if s = sy then [(v_now_ps st, v)] else []) @ step_rows (v_now_ps st) s cs)"
    using logged_trans [OF l1 2(3)] 1(9) by simp
  moreover have "(if s = sy then [(v_now_ps st, v)] else []) @ step_rows (v_now_ps st) s cs = step_rows (v_now_ps st) s (c # cs)" for s
    by (auto simp: step_rows_def c)
  ultimately have "logged st st2 (\<lambda>s. step_rows (v_now_ps st) s (c # cs))" by simp
  moreover have "vcd_loop st (concat (map print_change (c # cs)) @ ts) = vcd_loop st2 ts"
    using change_token [of sy v st "concat (map print_change cs) @ ts"] Cons.prems(5) c 1(1) 2(1) by simp
  ultimately show ?case using 1(4) 2(2) by auto
qed

lemma time_token: "vcd_loop st ((CHR ''#'' # show_nat t) # ts) = vcd_loop (vcd_time st (CHR ''#'' # show_nat t)) ts"
  by (simp add: vcd_token_def)

lemma loop_log:
  assumes "vcd_inv st" "v_order_valid st" "list_all (\<lambda>(t, cs). int t < 2 ^ 64 \<and> list_all change_ok cs) log"
    "sorted (map fst log)" "\<forall>p \<in> set log. v_now_tick st \<le> int (fst p)"
  shows "\<exists>st'. vcd_loop st (concat (map print_step log)) = Inr st' \<and> logged st st' (\<lambda>s. log_rows (v_timescale_fs st) s log)"
  using assms
proof (induction log arbitrary: st)
  case Nil
  then show ?case by (auto simp: logged_def log_rows_def)
next
  case (Cons p log)
  obtain t cs where p: "p = (t, cs)" by (cases p)
  let ?st = "vcd_time st (CHR ''#'' # show_nat t)"
  have st: "v_timescale_fs ?st = v_timescale_fs st" "v_now_tick ?st = int t" "v_order_valid ?st" "v_paths ?st = v_paths st"
    "v_ranged ?st = v_ranged st" "v_trans ?st = v_trans st" "v_now_ps ?st = tick_ps (v_timescale_fs st) (int t)"
    using Cons.prems(2,5) p by (simp_all add: vcd_time_def int_of_show Let_def)
  have inv: "vcd_inv ?st" using vcd_inv_time Cons.prems(1) by blast
  obtain st1 where 1: "vcd_loop ?st (concat (map print_change cs) @ concat (map print_step log)) = vcd_loop st1 (concat (map print_step log))"
    "v_now_tick st1 = int t" "logged ?st st1 (\<lambda>s. step_rows (v_now_ps ?st) s cs)"
    using loop_changes [OF inv st(3), of cs "concat (map print_step log)"] Cons.prems(3) p st(2) by auto
  have l1: "logged st st1 (\<lambda>s. step_rows (tick_ps (v_timescale_fs st) (int t)) s cs)"
    using 1(3) st by (simp add: logged_def vcd_rows_def)
  obtain st2 where 2: "vcd_loop st1 (concat (map print_step log)) = Inr st2" "logged st1 st2 (\<lambda>s. log_rows (v_timescale_fs st1) s log)"
    using Cons.IH [of st1] Cons.prems(3,4) l1 1(2) p by (auto simp: logged_def)
  have "v_timescale_fs st1 = v_timescale_fs st" using l1 by (simp add: logged_def)
  then have "logged st st2 (\<lambda>s. step_rows (tick_ps (v_timescale_fs st) (int t)) s cs @ log_rows (v_timescale_fs st) s log)"
    using logged_trans [OF l1 2(2)] by simp
  moreover have "vcd_loop st (concat (map print_step (p # log))) = Inr st2"
    using time_token [of st t "concat (map print_change cs) @ concat (map print_step log)"] 1(1) 2(1) p by (simp add: print_step_def)
  ultimately show ?case using p by (auto simp: log_rows_def step_rows_def)
qed


section \<open>The round trip\<close>

lemma map_fst_scope_names: "map fst (concat (map scope_names decls)) = full_names decls"
  by (induction decls) (auto simp: full_names_def scope_names_def)

lemma scope_name_in:
  "(scope, vars) \<in> set decls \<Longrightarrow> (ty, w, sy, name) \<in> set vars \<Longrightarrow>
    (scope @ ''.'' @ name, sy) \<in> set (concat (map scope_names decls))"
  by (force simp: scope_names_def)

lemma timescale_tokens:
  assumes "v_trans st = []" "clean un" "is_digit (hd un)"
  shows "vcd_loop st (''$timescale'' # un # ''$end'' # ts) = vcd_loop st ts"
proof -
  obtain c cs where un: "un = c # cs" using assms(2) by (cases un) (auto simp: clean_def)
  have c: "c \<noteq> CHR ''$''" "c \<noteq> CHR ''#''" "c \<notin> set ''bB''" using assms(3) un by (auto simp: is_digit_def)
  have skip: "vcd_token st ''$timescale'' ts' = Inr (st, ts')" "vcd_token st ''$end'' ts' = Inr (st, ts')" for ts'
    by (simp_all add: vcd_token_def)
  have "vcd_token st un ts' = Inr (st, ts')" for ts'
    using c un assms(1) by (simp add: vcd_token_def vcd_record_def del: list.set)
  then show ?thesis by (simp add: skip)
qed

lemma readback_loop:
  assumes ok: "dump_ok un decls log" and ts: "parse_timescale_fs un = Inr scale"
  shows "\<exists>st. vcd_parse (dump_text un decls log) = Inr st \<and> vcd_inv st \<and> v_order_valid st \<and>
    map_of (v_paths st) = map_of (rev (concat (map scope_names decls))) \<and>
    (\<forall>s \<in> snd ` set (concat (map scope_names decls)). vcd_rows st s = log_rows scale s log)"
proof -
  let ?init = "vcd_init\<lparr>v_timescale_raw := Some un, v_timescale_fs := scale\<rparr>"
  let ?names = "rev (concat (map scope_names decls))"
  note o = ok [unfolded dump_ok_def]
  have head: "vcd_header (dump_text un decls log) = Inr ?init"
    using dump_section o ts by (simp add: vcd_header_def)
  have start: "declared ?init scale [] []"
    using vcd_inv_header [OF head] by (simp add: declared_def vcd_init_def)
  have "distinct (map fst (concat (map scope_names decls)) @ map fst [])" using o by (simp add: map_fst_scope_names)
  then obtain st1 where 1: "vcd_loop ?init (concat (map print_scope decls) @ [''$enddefinitions'', ''$end''] @ concat (map print_step log)) =
      vcd_loop st1 ([''$enddefinitions'', ''$end''] @ concat (map print_step log))"
    "declared st1 scale [] (?names @ [])"
    using loop_scopes [OF start, of decls] o by blast
  have skip: "vcd_loop st1 ([''$enddefinitions'', ''$end''] @ ts') = vcd_loop st1 ts'" for ts' by (simp add: vcd_token_def)
  have d: "vcd_inv st1" "v_order_valid st1" "v_now_tick st1 = 0" "v_timescale_fs st1 = scale" "v_ranged st1 = []"
    "map_of (v_paths st1) = map_of ?names" "\<And>s. map_of (v_trans st1) s = (if s \<in> snd ` set ?names then Some [] else None)"
    using 1(2) by (simp_all add: declared_def)
  obtain st where 2: "vcd_loop st1 (concat (map print_step log)) = Inr st" "logged st1 st (\<lambda>s. log_rows (v_timescale_fs st1) s log)"
    using loop_log [OF d(1,2), of log] o d(3) by auto
  have "v_trans ?init = []" by (simp add: vcd_init_def)
  then have "vcd_loop ?init (words (dump_text un decls log)) = Inr st"
    using timescale_tokens [of ?init un] o 1(1) 2(1) skip by (simp add: dump_words [OF ok] dump_tokens_def)
  moreover have "iter_tokens TOKEN_CHUNK_CHARS (dump_text un decls log) = words (dump_text un decls log)"
    by (rule iter_tokens_words) (simp add: TOKEN_CHUNK_CHARS_def)
  moreover have "v_ranged st = []" using 2(2) d(5) by (simp add: logged_def)
  ultimately have "vcd_parse (dump_text un decls log) = Inr st" by (simp add: vcd_parse_def head vcd_parse_tokens_def)
  moreover have "vcd_rows st s = log_rows scale s log" if "s \<in> snd ` set (concat (map scope_names decls))" for s
  proof -
    have s: "map_of (v_trans st1) s = Some []" using that d(7) [of s] by simp
    then have "s \<in> dom (map_of (v_trans st1))" by blast
    then have "vcd_rows st s = vcd_rows st1 s @ log_rows scale s log" using 2(2) unfolding logged_def d(4) by blast
    then show ?thesis using s by (simp add: vcd_rows_def)
  qed
  ultimately show ?thesis using 2(2) d(6) by (auto simp: logged_def)
qed

text \<open>C7. A dump written from declarations and a log of changes in time order is accepted, and the
  value the reader gives for a declared name at a time is the value of the last change logged for its
  symbol at a tick that is, in picoseconds rounded up, not after that time.\<close>

theorem vcd_readback:
  assumes "dump_ok un decls log" "parse_timescale_fs un = Inr scale"
    "(scope, vars) \<in> set decls" "(ty, w, sy, name) \<in> set vars"
  shows "\<exists>st. vcd_parse (dump_text un decls log) = Inr st \<and>
    value_at_time st (scope @ ''.'' @ name) t =
      Inr (enrich_value (map_option snd (last_of (filter (\<lambda>r. fst r \<le> t) (log_rows scale sy log)))))"
proof -
  obtain st where st: "vcd_parse (dump_text un decls log) = Inr st" "vcd_inv st" "v_order_valid st"
    "map_of (v_paths st) = map_of (rev (concat (map scope_names decls)))"
    "\<forall>s \<in> snd ` set (concat (map scope_names decls)). vcd_rows st s = log_rows scale s log"
    using readback_loop [OF assms(1,2)] by blast
  note name = scope_name_in [OF assms(3,4)]
  have "distinct (map fst (rev (concat (map scope_names decls))))"
    using assms(1) by (simp only: rev_map [symmetric] distinct_rev map_fst_scope_names dump_ok_def)
  then have "map_of (v_paths st) (scope @ ''.'' @ name) = Some sy"
    unfolding st(4) using name by (simp add: map_of_eq_Some_iff)
  then have "vcd_resolve st (scope @ ''.'' @ name) = Inr sy" by (simp add: vcd_resolve_def)
  moreover have "vcd_rows st sy = log_rows scale sy log" using st(5) name by force
  moreover have "sorted (map fst (vcd_rows st sy))" using vcd_rows_sorted st(2,3) by blast
  ultimately show ?thesis using st(1) value_at_sorted by (simp add: value_at_time_def)
qed

lemma vcd_readback_witness:
  "\<exists>st. vcd_parse (dump_text ''100ps'' [(''top'', [(''wire'', 1, ''!'', ''clk''), (''reg'', 4, ''q'', ''cnt'')])]
      [(0, [(''!'', ''0''), (''q'', ''b0'')]), (5, [(''!'', ''1''), (''q'', ''b101'')])]) = Inr st \<and>
    value_at_time st ''top.cnt'' 700 = Inr (enrich_value (Some ''b101''))"
proof -
  let ?decls = "[(''top'', [(''wire'', 1, ''!'', ''clk''), (''reg'', 4, ''q'', ''cnt'')])]"
  let ?log = "[(0, [(''!'', ''0''), (''q'', ''b0'')]), (5, [(''!'', ''1''), (''q'', ''b101'')])]"
  have ok: "dump_ok ''100ps'' ?decls ?log" by code_simp
  have scale: "parse_timescale_fs ''100ps'' = Inr 100000" by code_simp
  have rows: "last_of (filter (\<lambda>r. fst r \<le> 700) (log_rows 100000 ''q'' ?log)) = Some (500, ''b101'')" by code_simp
  show ?thesis using vcd_readback [OF ok scale, of "''top''" _ "''reg''" 4 "''q''" "''cnt''" 700] rows by auto
qed

end
