(* ===== verification/Event_Pages.thy ===== *)
theory Event_Pages
  imports Vcd_Query
begin

text \<open>
  src/src/event_pages.py: events, pages, the reader over a parsed VCD file, and \<open>GroupCursor\<close>, which
  folds the events of one time into one value whatever the pages are. All times used for ordering
  are in femtoseconds.

  The check that the file did not change between two pages is not modelled. A reader is a state with
  a function that reads the next page; the cursor takes any (\<open>'s\<close> is the state of the reader). A raise
  inside the cursor leaves it as it was mutated so far, so the error is returned with that cursor. The
  loops run on fuel, and running out of it is \<open>CursorFuel\<close>; \<open>Event_Pages_Laws\<close> shows how much is enough.
\<close>

section \<open>Events and pages\<close>

record event =
  ev_fs :: int
  ev_ps :: int
  ev_val :: "string option"
  ev_kind :: string

definition transition :: "int \<Rightarrow> int \<Rightarrow> string \<Rightarrow> event" where
  "transition fs ps v = \<lparr>ev_fs = fs, ev_ps = ps, ev_val = Some v, ev_kind = ''transition''\<rparr>"

record recording_gap =
  rg_start :: int
  rg_end :: int
  rg_reason :: string
  rg_start_inclusive :: bool
  rg_end_inclusive :: bool

record page =
  pg_events :: "event list"
  pg_predecessor :: "event option"
  pg_next :: "int option"
  pg_complete :: bool
  pg_truncated :: bool
  pg_bytes :: int
  pg_initial :: "event option"
  pg_gaps :: "recording_gap list"

definition page_records :: "page \<Rightarrow> event list" where
  "page_records p = (case pg_initial p of None \<Rightarrow> [] | Some e \<Rightarrow> [e]) @
     (case pg_predecessor p of None \<Rightarrow> [] | Some e \<Rightarrow> [e]) @ pg_events p"

definition page_limits_ok :: "int \<Rightarrow> int \<Rightarrow> unit result" where
  "page_limits_ok n b = require (1 \<le> n \<and> n \<le> 4096 \<and> 128 \<le> b \<and> b \<le> 1048576)
     (ValueError ''event page limits require 1..4096 events and 128..1048576 bytes'')"

section \<open>The VCD reader\<close>

record reader =
  rd_rows :: "change list"
  rd_ticks :: "int list option"
  rd_scale :: int
  rd_index :: nat
  rd_stop :: nat
  rd_first :: bool
  rd_max_events :: int
  rd_max_bytes :: int

definition rd_key_tick :: "int \<Rightarrow> int \<Rightarrow> int" where
  "rd_key_tick scale t = t * scale"

definition rd_key_row :: "change \<Rightarrow> int" where
  "rd_key_row r = fst r * 1000"

text \<open>\<open>VcdEventReader.__init__\<close>.\<close>

definition open_reader :: "vcd \<Rightarrow> string \<Rightarrow> int \<Rightarrow> int \<Rightarrow> int \<Rightarrow> int \<Rightarrow> reader result" where
  "open_reader st path start stop n b =
     ebind (page_limits_ok n b) (\<lambda>_.
     ebind (require (v_order_valid st) (ValueError ''transition_order_invalid'')) (\<lambda>_.
     ebind (vcd_resolve st path) (\<lambda>s.
     ebind (vcd_width st path) (\<lambda>_.
       let rows = vcd_rows st s; ticks = map_of (v_ticks st) s; scale = v_timescale_fs st;
           end_fs = (if stop < 0 then v_end_fs st else stop * 1000)
       in Inr (case ticks of
          Some ts \<Rightarrow> \<lparr>rd_rows = rows, rd_ticks = ticks, rd_scale = scale,
            rd_index = bisect_left (rd_key_tick scale) ts (start * 1000), rd_stop = bisect_right (rd_key_tick scale) ts end_fs,
            rd_first = True, rd_max_events = n, rd_max_bytes = b\<rparr>
        | None \<Rightarrow> \<lparr>rd_rows = rows, rd_ticks = ticks, rd_scale = scale,
            rd_index = bisect_left rd_key_row rows (start * 1000), rd_stop = bisect_right rd_key_row rows end_fs,
            rd_first = True, rd_max_events = n, rd_max_bytes = b\<rparr>)))))"

definition rd_event :: "reader \<Rightarrow> nat \<Rightarrow> event" where
  "rd_event r i = (let ps = fst (rd_rows r ! i); v = snd (rd_rows r ! i) in
     transition (case rd_ticks r of Some ts \<Rightarrow> (ts ! i) * rd_scale r | None \<Rightarrow> ps * 1000) ps v)"

definition event_size :: "event \<Rightarrow> int" where
  "event_size e = 32 + int (length (case ev_val e of None \<Rightarrow> [] | Some v \<Rightarrow> v))"

text \<open>The loop of \<open>read_page\<close>: the events it takes from \<open>i\<close> on, the next index and the bytes used.\<close>

function fill_page :: "reader \<Rightarrow> int \<Rightarrow> nat \<Rightarrow> event list \<Rightarrow> int \<Rightarrow> event list \<times> nat \<times> int" where
  "fill_page r room i rows nbytes =
     (if i < rd_stop r \<and> int (length rows) < room then
        (let e = rd_event r i; size_ev = event_size e in
         if size_ev > rd_max_bytes r - nbytes then (rows, i, nbytes)
         else fill_page r room (i + 1) (rows @ [e]) (nbytes + size_ev))
      else (rows, i, nbytes))"
  by pat_completeness auto
termination by (relation "measure (\<lambda>(r, room, i, rows, nbytes). rd_stop r - i)") auto

declare fill_page.simps [simp del]

definition read_page :: "reader \<Rightarrow> page \<times> reader" where
  "read_page r =
     (let previous = (if rd_first r \<and> rd_index r \<noteq> 0 then Some (rd_event r (rd_index r - 1)) else None);
          nbytes = (case previous of None \<Rightarrow> 0 | Some e \<Rightarrow> event_size e)
      in if previous \<noteq> None \<and> nbytes \<ge> rd_max_bytes r
         then (\<lparr>pg_events = [], pg_predecessor = None, pg_next = map_option ev_fs previous, pg_complete = False,
                pg_truncated = True, pg_bytes = 0, pg_initial = None, pg_gaps = []\<rparr>, r)
         else (case fill_page r (rd_max_events r - (if previous = None then 0 else 1)) (rd_index r) [] nbytes of
           (rows, i, used) \<Rightarrow>
             (let complete = (i \<ge> rd_stop r) in
              (\<lparr>pg_events = rows, pg_predecessor = previous,
                pg_next = (if complete then None else Some (ev_fs (rd_event r i))), pg_complete = complete,
                pg_truncated = (\<not> complete \<and> rows = [] \<and> previous = None), pg_bytes = used, pg_initial = None, pg_gaps = []\<rparr>,
               r\<lparr>rd_index := i, rd_first := False\<rparr>))))"

section \<open>The cursor\<close>

text \<open>
  \<open>cu_events\<close> are the events of the page from \<open>index\<close> on; \<open>cu_pages\<close>, \<open>cu_records\<close> and \<open>cu_bytes\<close> count
  what was read (\<open>pages\<close>, \<open>events\<close> and \<open>nbytes\<close> of the class).
\<close>

record 's cursor =
  cu_reader :: 's
  cu_page :: page
  cu_events :: "event list"
  cu_predecessor :: "event option"
  cu_initial :: "event option"
  cu_pending :: "event option"
  cu_gaps :: "recording_gap list"
  cu_last :: "int option"
  cu_compared :: nat
  cu_pages :: nat
  cu_records :: nat
  cu_bytes :: int

datatype cursor_error = IncompleteGroup string | ReplayedPredecessor | CursorFuel

type_synonym ('s, 'a) paging = "(cursor_error \<times> 's cursor) + 'a"

definition open_cursor :: "('s \<Rightarrow> page \<times> 's) \<Rightarrow> int \<Rightarrow> 's \<Rightarrow> 's cursor" where
  "open_cursor rd start_fs s = (case rd s of (p, s') \<Rightarrow>
     \<lparr>cu_reader = s', cu_page = p, cu_events = pg_events p, cu_predecessor = pg_predecessor p,
      cu_initial = pg_initial p,
      cu_pending = (case pg_initial p of Some e \<Rightarrow> if ev_fs e \<ge> start_fs then Some e else None | None \<Rightarrow> None),
      cu_gaps = pg_gaps p, cu_last = None, cu_compared = 0,
      cu_pages = 1, cu_records = length (page_records p), cu_bytes = pg_bytes p\<rparr>)"

definition next_page :: "('s \<Rightarrow> page \<times> 's) \<Rightarrow> 's cursor \<Rightarrow> ('s, 's cursor) paging" where
  "next_page rd c = (case rd (cu_reader c) of (p, s') \<Rightarrow>
     let c' = c\<lparr>cu_reader := s', cu_pages := cu_pages c + 1, cu_records := cu_records c + length (page_records p),
                cu_bytes := cu_bytes c + pg_bytes p\<rparr>
     in if pg_predecessor p \<noteq> None \<or> pg_initial p \<noteq> None then Inl (ReplayedPredecessor, c')
        else Inr (c'\<lparr>cu_gaps := cu_gaps c @ pg_gaps p, cu_page := p, cu_events := pg_events p\<rparr>))"

definition cursor_anchor :: "int \<Rightarrow> 's cursor \<Rightarrow> event option" where
  "cursor_anchor start_fs c = (case cu_predecessor c of Some e \<Rightarrow> Some e
     | None \<Rightarrow> (case cu_initial c of Some e \<Rightarrow> if ev_fs e \<ge> start_fs then None else Some e | None \<Rightarrow> None))"

definition cursor_peek :: "'s cursor \<Rightarrow> int option" where
  "cursor_peek c =
     (let upcoming = (case cu_events c of e # _ \<Rightarrow> Some (ev_fs e) | [] \<Rightarrow> pg_next (cu_page c)) in
      case cu_pending c of None \<Rightarrow> upcoming
      | Some e \<Rightarrow> (case upcoming of None \<Rightarrow> Some (ev_fs e) | Some u \<Rightarrow> Some (min u (ev_fs e))))"

record group =
  gr_value :: "string option"
  gr_changed :: bool
  gr_kinds :: "string list"

definition group0 :: group where
  "group0 = \<lparr>gr_value = None, gr_changed = False, gr_kinds = []\<rparr>"

definition values_differ :: "int option \<Rightarrow> string \<Rightarrow> string option \<Rightarrow> bool" where
  "values_differ w v nv = (case w of
     Some k \<Rightarrow> if k \<noteq> 0 then bit_value (JStr v) w \<noteq> bit_value (case nv of None \<Rightarrow> JNull | Some x \<Rightarrow> JStr x) w
               else Some v \<noteq> nv
   | None \<Rightarrow> Some v \<noteq> nv)"

definition fold_event :: "int option \<Rightarrow> group \<Rightarrow> event \<Rightarrow> group" where
  "fold_event w g e = \<lparr>gr_value = ev_val e,
     gr_changed = (gr_changed g \<or> (case gr_value g of None \<Rightarrow> False | Some v \<Rightarrow> values_differ w v (ev_val e))),
     gr_kinds = List.insert (ev_kind e) (gr_kinds g)\<rparr>"

text \<open>One turn of the loop of \<open>take_group\<close> on an event that is at hand.\<close>

definition accept_event :: "int option \<Rightarrow> 's cursor \<Rightarrow> group \<Rightarrow> event \<Rightarrow> ('s, 's cursor \<times> group) paging" where
  "accept_event w c g e =
     (if (case cu_last c of Some l \<Rightarrow> ev_fs e < l | None \<Rightarrow> False) then Inl (IncompleteGroup ''transition_order_invalid'', c)
      else Inr (c\<lparr>cu_last := Some (ev_fs e), cu_compared := cu_compared c + 1\<rparr>, fold_event w g e))"

text \<open>The next page, when the one at hand is used up and \<open>at\<close> is still to come.\<close>

definition refill :: "('s \<Rightarrow> page \<times> 's) \<Rightarrow> int \<Rightarrow> 's cursor \<Rightarrow> ('s, 's cursor) paging" where
  "refill rd at c =
     (if pg_truncated (cu_page c) \<or> pg_complete (cu_page c) then Inl (IncompleteGroup ''transition_data_truncated'', c)
      else ebind (next_page rd c) (\<lambda>c'.
        if cu_events c' = [] \<and> pg_next (cu_page c') = Some at then Inl (IncompleteGroup ''transition_data_truncated'', c')
        else Inr c'))"

definition pending_at :: "int \<Rightarrow> 's cursor \<Rightarrow> event option" where
  "pending_at at c = (case cu_pending c of Some e \<Rightarrow> if ev_fs e = at then Some e else None | None \<Rightarrow> None)"

fun take_group :: "('s \<Rightarrow> page \<times> 's) \<Rightarrow> int option \<Rightarrow> nat \<Rightarrow> int \<Rightarrow> 's cursor \<Rightarrow> group \<Rightarrow> ('s, 's cursor \<times> group) paging" where
  "take_group rd w 0 at c g = Inl (CursorFuel, c)"
| "take_group rd w (Suc k) at c g =
     (if cursor_peek c = Some at then
        (case pending_at at c of
           Some e \<Rightarrow> ebind (accept_event w (c\<lparr>cu_pending := None\<rparr>) g e) (\<lambda>(c', g'). take_group rd w k at c' g')
         | None \<Rightarrow> (case cu_events c of
             [] \<Rightarrow> ebind (refill rd at c) (\<lambda>c'. take_group rd w k at c' g)
           | e # rest \<Rightarrow> ebind (accept_event w (c\<lparr>cu_events := rest\<rparr>) g e) (\<lambda>(c', g'). take_group rd w k at c' g')))
      else (case cursor_peek c of
         Some t \<Rightarrow> if t < at then Inl (IncompleteGroup ''transition_order_invalid'', c) else Inr (c, g)
       | None \<Rightarrow> Inr (c, g)))"

text \<open>The loop of the callers: the groups of a cursor one after the other, with their times.\<close>

fun drain :: "('s \<Rightarrow> page \<times> 's) \<Rightarrow> int option \<Rightarrow> nat \<Rightarrow> nat \<Rightarrow> 's cursor \<Rightarrow> ('s, (int \<times> group) list) paging" where
  "drain rd w k 0 c = Inl (CursorFuel, c)"
| "drain rd w k (Suc m) c = (case cursor_peek c of
     None \<Rightarrow> Inr []
   | Some t \<Rightarrow> ebind (take_group rd w k t c group0) (\<lambda>(c', g). ebind (drain rd w k m c') (\<lambda>gs. Inr ((t, g) # gs))))"

end
