(* ===== verification/Event_Pages_Laws.thy ===== *)
theory Event_Pages_Laws
  imports Event_Pages Vcd_Laws
begin

text \<open>
  Groups do not depend on the pages. \<open>page_reader\<close> is what a cursor relies on: the pages of a reader
  cut the events that are still to come, in their order, and say truly what follows. Over such a
  reader \<open>take_group\<close> and the loop of its callers give the groups of the whole event list. The VCD
  reader is an instance, when every event fits into an empty page.
\<close>

section \<open>What a cursor should give\<close>

definition run_of :: "int \<Rightarrow> event list \<Rightarrow> event list" where
  "run_of t es = takeWhile (\<lambda>e. ev_fs e = t) es"

definition after_run :: "int \<Rightarrow> event list \<Rightarrow> event list" where
  "after_run t es = dropWhile (\<lambda>e. ev_fs e = t) es"

definition fold_run :: "int option \<Rightarrow> event list \<Rightarrow> group \<Rightarrow> group" where
  "fold_run w es g = fold (\<lambda>e g. fold_event w g e) es g"

lemma after_run_shorter: "length (after_run t es) \<le> length es"
  by (simp add: after_run_def length_dropWhile_le)

lemma run_simps [simp]: "run_of t [] = []" "after_run t [] = []"
  "run_of t (e # es) = (if ev_fs e = t then e # run_of t es else [])"
  "after_run t (e # es) = (if ev_fs e = t then after_run t es else e # es)"
  by (simp_all add: run_of_def after_run_def)

lemma fold_run_simps [simp]: "fold_run w [] g = g" "fold_run w (e # es) g = fold_run w es (fold_event w g e)"
  by (simp_all add: fold_run_def)

lemma fold_run_value: "es \<noteq> [] \<Longrightarrow> gr_value (fold_run w es g) = ev_val (last es)"
  by (induction es arbitrary: g) (auto simp: fold_event_def)

function groups_of :: "int option \<Rightarrow> event list \<Rightarrow> (int \<times> group) list" where
  "groups_of w [] = []"
| "groups_of w (e # es) =
     (ev_fs e, fold_run w (run_of (ev_fs e) (e # es)) group0) # groups_of w (after_run (ev_fs e) es)"
  by pat_completeness auto
termination by (relation "measure (\<lambda>(w, es). length es)") (simp_all add: le_imp_less_Suc after_run_shorter)

definition first_time :: "event list \<Rightarrow> int option" where
  "first_time es = (case es of [] \<Rightarrow> None | e # _ \<Rightarrow> Some (ev_fs e))"

lemma first_time_simps [simp]: "first_time [] = None" "first_time (e # es) = Some (ev_fs e)"
  "first_time es = None \<longleftrightarrow> es = []"
  by (simp_all add: first_time_def split: list.splits)

lemma first_time_append: "first_time (xs @ ys) = (if xs = [] then first_time ys else first_time xs)"
  by (simp add: first_time_def split: list.splits)

section \<open>Readers\<close>

locale page_reader =
  fixes rd :: "'s \<Rightarrow> page \<times> 's"
    and ahead :: "'s \<Rightarrow> event list"
    and fresh :: "'s \<Rightarrow> bool"
    and running :: "'s \<Rightarrow> bool"
  assumes cut: "fresh s \<or> running s \<Longrightarrow> rd s = (p, s') \<Longrightarrow>
      running s' \<and> ahead s = pg_events p @ ahead s' \<and> pg_next p = first_time (ahead s') \<and>
      pg_complete p = (ahead s' = []) \<and> \<not> pg_truncated p \<and> pg_initial p = None \<and> pg_gaps p = []"
    and later: "running s \<Longrightarrow> rd s = (p, s') \<Longrightarrow> pg_predecessor p = None \<and> (ahead s \<noteq> [] \<longrightarrow> pg_events p \<noteq> [])"
begin

definition stream :: "'s cursor \<Rightarrow> event list" where
  "stream c = cu_events c @ ahead (cu_reader c)"

definition reading :: "'s cursor \<Rightarrow> bool" where
  "reading c \<longleftrightarrow> running (cu_reader c) \<and> cu_pending c = None \<and> cu_gaps c = [] \<and> \<not> pg_truncated (cu_page c) \<and>
     pg_complete (cu_page c) = (ahead (cu_reader c) = []) \<and> pg_next (cu_page c) = first_time (ahead (cu_reader c)) \<and>
     sorted (map ev_fs (stream c)) \<and> (\<forall>l. cu_last c = Some l \<longrightarrow> (\<forall>e \<in> set (stream c). l \<le> ev_fs e))"

definition turns :: "'s cursor \<Rightarrow> nat" where
  "turns c = 2 * length (stream c) + (if cu_events c = [] then 1 else 0)"

lemma reading_open:
  assumes "fresh s" "sorted (map ev_fs (ahead s))"
  shows "reading (open_cursor rd f s)" "stream (open_cursor rd f s) = ahead s"
proof -
  obtain p s' where r: "rd s = (p, s')" by (cases "rd s")
  note c = cut [OF disjI1 [OF assms(1)] r]
  show "stream (open_cursor rd f s) = ahead s" using c by (simp add: open_cursor_def r stream_def)
  then show "reading (open_cursor rd f s)"
    using c assms(2) by (simp add: open_cursor_def r reading_def)
qed

lemma peek_stream: "reading c \<Longrightarrow> cursor_peek c = first_time (stream c)"
  by (auto simp: reading_def cursor_peek_def stream_def Let_def first_time_append split: list.splits)

lemma refill_stream:
  assumes "reading c" "cu_events c = []" "ahead (cu_reader c) \<noteq> []"
  shows "\<exists>c'. refill rd t c = Inr c' \<and> reading c' \<and> stream c' = stream c \<and> cu_events c' \<noteq> []"
proof -
  obtain p s' where r: "rd (cu_reader c) = (p, s')" by (cases "rd (cu_reader c)")
  have run: "running (cu_reader c)" using assms(1) by (simp add: reading_def)
  note p = cut [OF disjI2 [OF run] r] later [OF run r]
  let ?c = "c\<lparr>cu_reader := s', cu_pages := cu_pages c + 1, cu_records := cu_records c + length (page_records p),
    cu_bytes := cu_bytes c + pg_bytes p, cu_gaps := cu_gaps c @ pg_gaps p, cu_page := p, cu_events := pg_events p\<rparr>"
  have n: "next_page rd c = Inr ?c" using p by (simp add: next_page_def r)
  have s: "stream ?c = stream c" using p assms(2) by (simp add: stream_def)
  have "pg_truncated (cu_page c) = False" "pg_complete (cu_page c) = False"
    using assms by (simp_all add: reading_def)
  then have "refill rd t c = Inr ?c" using p assms(3) n by (simp add: refill_def)
  moreover have "reading ?c"
  proof -
    have "cu_pending c = None" "cu_gaps c = []" "sorted (map ev_fs (stream c))" "\<forall>l. cu_last c = Some l \<longrightarrow> (\<forall>e \<in> set (stream c). l \<le> ev_fs e)"
      using assms(1) unfolding reading_def by blast+
    moreover have eq: "cu_reader ?c = s'" "cu_pending ?c = cu_pending c" "cu_gaps ?c = cu_gaps c @ pg_gaps p" "cu_page ?c = p" "cu_last ?c = cu_last c" by simp_all
    ultimately show ?thesis using p(1) unfolding reading_def s eq by simp
  qed
  ultimately show ?thesis using s p assms(3) by (intro exI [of _ ?c]) simp
qed

lemma accept_stream:
  assumes "reading c" "cu_events c = e # es"
  shows "\<exists>c'. accept_event w (c\<lparr>cu_events := es\<rparr>) g e = Inr (c', fold_event w g e) \<and> reading c' \<and>
    stream c = e # stream c'"
proof -
  have s: "stream c = e # es @ ahead (cu_reader c)" using assms(2) by (simp add: stream_def)
  have "\<not> (case cu_last c of Some l \<Rightarrow> ev_fs e < l | None \<Rightarrow> False)"
    using assms(1) s by (auto simp: reading_def split: option.splits)
  moreover have "reading (c\<lparr>cu_events := es, cu_last := Some (ev_fs e), cu_compared := cu_compared c + 1\<rparr>)"
    using assms(1) s by (auto simp: reading_def stream_def)
  ultimately show ?thesis using s by (simp add: accept_event_def stream_def)
qed

theorem take_group_exact:
  assumes "reading c" "\<forall>e \<in> set (stream c). t \<le> ev_fs e" "turns c < k"
  shows "\<exists>c'. take_group rd w k t c g = Inr (c', fold_run w (run_of t (stream c)) g) \<and> reading c' \<and>
    stream c' = after_run t (stream c)"
  using assms
proof (induction k arbitrary: c g)
  case 0
  then show ?case by simp
next
  case (Suc k)
  note peek = peek_stream [OF Suc.prems(1)]
  have pend: "pending_at t c = None" using Suc.prems(1) by (simp add: pending_at_def reading_def)
  show ?case
  proof (cases "first_time (stream c) = Some t")
    case False
    have nolater: "\<not> u < t" if "first_time (stream c) = Some u" for u
      using that Suc.prems(2) by (cases "stream c") auto
    have "run_of t (stream c) = [] \<and> after_run t (stream c) = stream c" using False by (cases "stream c") auto
    moreover have "take_group rd w (Suc k) t c g = Inr (c, g)"
      using False nolater by (simp add: peek split: option.splits)
    ultimately show ?thesis using Suc.prems(1) by simp
  next
    case True
    show ?thesis
    proof (cases "cu_events c")
      case Nil
      have "ahead (cu_reader c) \<noteq> []" using True Nil by (auto simp: stream_def)
      then obtain c1 where 1: "refill rd t c = Inr c1" "reading c1" "stream c1 = stream c" "cu_events c1 \<noteq> []"
        using refill_stream [OF Suc.prems(1) Nil] by blast
      have "turns c1 < k" using Suc.prems(3) 1 Nil by (simp add: turns_def)
      then have "\<exists>c'. take_group rd w k t c1 g = Inr (c', fold_run w (run_of t (stream c1)) g) \<and> reading c' \<and>
          stream c' = after_run t (stream c1)"
        using Suc.IH [OF 1(2)] Suc.prems(2) 1(3) by simp
      then show ?thesis using True Nil pend 1 by (simp add: peek)
    next
      case (Cons e es)
      obtain c1 where 1: "accept_event w (c\<lparr>cu_events := es\<rparr>) g e = Inr (c1, fold_event w g e)" "reading c1" "stream c = e # stream c1"
        using accept_stream [OF Suc.prems(1) Cons] by blast
      have "turns c1 < k" using Suc.prems(3) 1(3) by (auto simp: turns_def split: if_splits)
      then have "\<exists>c'. take_group rd w k t c1 (fold_event w g e) =
          Inr (c', fold_run w (run_of t (stream c1)) (fold_event w g e)) \<and> reading c' \<and> stream c' = after_run t (stream c1)"
        using Suc.IH [OF 1(2)] Suc.prems(2) 1(3) by simp
      moreover have "ev_fs e = t" using True 1(3) by simp
      ultimately show ?thesis using True Cons pend 1 by (simp add: peek)
    qed
  qed
qed

theorem drain_exact:
  assumes "reading c" "turns c + 2 \<le> k" "length (stream c) < m"
  shows "drain rd w k m c = Inr (groups_of w (stream c))"
  using assms
proof (induction m arbitrary: c)
  case 0
  then show ?case by simp
next
  case (Suc m)
  note peek = peek_stream [OF Suc.prems(1)]
  show ?case
  proof (cases "stream c")
    case Nil
    then show ?thesis by (simp add: peek)
  next
    case (Cons e es)
    have sorted: "sorted (map ev_fs (e # es))" using Suc.prems(1) Cons by (simp add: reading_def)
    then have "\<forall>x \<in> set (stream c). ev_fs e \<le> ev_fs x" unfolding Cons by auto
    then obtain c1 where 1: "take_group rd w k (ev_fs e) c group0 = Inr (c1, fold_run w (run_of (ev_fs e) (stream c)) group0)"
      "reading c1" "stream c1 = after_run (ev_fs e) (stream c)"
      using take_group_exact [OF Suc.prems(1), of "ev_fs e" k w group0] Suc.prems(2) by auto
    have len: "length (stream c1) \<le> length es" using 1(3) Cons after_run_shorter by simp
    then have "turns c1 \<le> turns c" using Cons by (auto simp: turns_def)
    then have "drain rd w k m c1 = Inr (groups_of w (stream c1))"
      using Suc.IH [OF 1(2)] Suc.prems(2,3) len Cons by simp
    then show ?thesis using 1 Cons by (simp add: peek)
  qed
qed

end


section \<open>The pages of a VCD file\<close>

lemma fill_page_events:
  "fill_page r room i rows nbytes = (rows', j, used) \<Longrightarrow> i \<le> j \<and> (i \<le> rd_stop r \<longrightarrow> j \<le> rd_stop r) \<and> rows' = rows @ map (rd_event r) [i..<j]"
proof (induction r room i rows nbytes arbitrary: rows' j used rule: fill_page.induct)
  case (1 r room i rows nbytes)
  show ?case
  proof (cases "i < rd_stop r \<and> int (length rows) < room \<and> \<not> event_size (rd_event r i) > rd_max_bytes r - nbytes")
    case True
    then have "fill_page r room (i + 1) (rows @ [rd_event r i]) (nbytes + event_size (rd_event r i)) = (rows', j, used)"
      using 1(2) by (simp add: fill_page.simps [of r room i] Let_def)
    then have ih: "i + 1 \<le> j" "i + 1 \<le> rd_stop r \<longrightarrow> j \<le> rd_stop r" "rows' = (rows @ [rd_event r i]) @ map (rd_event r) [i + 1..<j]"
      using 1(1) True by blast+
    then have "[i..<j] = i # [i + 1..<j]" by (simp add: upt_conv_Cons)
    then show ?thesis using ih True by auto
  next
    case False
    then show ?thesis using 1(2) by (auto simp: fill_page.simps [of r room i] Let_def split: if_splits)
  qed
qed

lemma fill_page_progress:
  assumes "fill_page r room i rows nbytes = (rows', j, used)" "i < rd_stop r" "int (length rows) < room"
    "event_size (rd_event r i) \<le> rd_max_bytes r - nbytes"
  shows "i < j"
proof -
  have "fill_page r room (i + 1) (rows @ [rd_event r i]) (nbytes + event_size (rd_event r i)) = (rows', j, used)"
    using assms by (simp add: fill_page.simps [of r room i] Let_def)
  then show ?thesis using fill_page_events by fastforce
qed

definition fits :: "reader \<Rightarrow> bool" where
  "fits r \<longleftrightarrow> 1 \<le> rd_max_events r \<and> rd_index r \<le> length (rd_rows r) \<and> rd_stop r \<le> length (rd_rows r) \<and>
     (\<forall>i < length (rd_rows r). event_size (rd_event r i) < rd_max_bytes r)"

definition rd_ahead :: "reader \<Rightarrow> event list" where
  "rd_ahead r = map (rd_event r) [rd_index r..<rd_stop r]"

lemma rd_event_update [simp]: "rd_event (r\<lparr>rd_index := i, rd_first := b\<rparr>) = rd_event r"
  by (cases "rd_ticks r") (simp_all add: rd_event_def fun_eq_iff)

lemma rd_ahead_first: "first_time (map (rd_event r) [i..<j]) = (if i < j then Some (ev_fs (rd_event r i)) else None)"
  by (simp add: upt_conv_Cons)

lemma read_page_cut:
  assumes "fits r" "read_page r = (p, r')"
  shows "(fits r' \<and> \<not> rd_first r') \<and> rd_ahead r = pg_events p @ rd_ahead r' \<and> pg_next p = first_time (rd_ahead r') \<and>
      pg_complete p = (rd_ahead r' = []) \<and> \<not> pg_truncated p \<and> pg_initial p = None \<and> pg_gaps p = []"
    "\<not> rd_first r \<Longrightarrow> pg_predecessor p = None \<and> (rd_ahead r \<noteq> [] \<longrightarrow> pg_events p \<noteq> [])"
proof -
  define previous where "previous = (if rd_first r \<and> rd_index r \<noteq> 0 then Some (rd_event r (rd_index r - 1)) else None)"
  define nbytes where "nbytes = (case previous of None \<Rightarrow> 0 | Some e \<Rightarrow> event_size e)"
  define room where "room = rd_max_events r - (if previous = None then 0 else 1)"
  obtain rows i used where f: "fill_page r room (rd_index r) [] nbytes = (rows, i, used)" by (cases "fill_page r room (rd_index r) [] nbytes")
  note e = fill_page_events [OF f]
  have small: "\<not> (previous \<noteq> None \<and> nbytes \<ge> rd_max_bytes r)"
    using assms(1) by (auto simp: fits_def previous_def nbytes_def not_le)
  define complete where "complete \<longleftrightarrow> i \<ge> rd_stop r"
  have pg: "p = \<lparr>pg_events = rows, pg_predecessor = previous,
      pg_next = (if complete then None else Some (ev_fs (rd_event r i))), pg_complete = complete,
      pg_truncated = (\<not> complete \<and> rows = [] \<and> previous = None), pg_bytes = used, pg_initial = None, pg_gaps = []\<rparr>"
    "r' = r\<lparr>rd_index := i, rd_first := False\<rparr>"
    using assms(2) small f unfolding read_page_def Let_def previous_def [symmetric] nbytes_def [symmetric] room_def [symmetric]
      complete_def by auto
  have rows: "rows = map (rd_event r) [rd_index r..<i]" using e by simp
  have i: "rd_index r \<le> i" "rd_index r \<le> rd_stop r \<longrightarrow> i \<le> rd_stop r" using e by auto
  have go: "rd_index r < i" if "previous = None" "rd_index r < rd_stop r"
    using fill_page_progress [OF f that(2)] assms(1) that by (auto simp: fits_def nbytes_def room_def less_imp_le)
  have "rd_ahead r = rows @ rd_ahead r'"
  proof (cases "rd_index r \<le> rd_stop r")
    case True
    then have "[rd_index r..<rd_stop r] = [rd_index r..<i] @ [i..<rd_stop r]"
      using i upt_add_eq_append [of "rd_index r" i "rd_stop r - i"] by simp
    then show ?thesis by (simp add: rd_ahead_def rows pg)
  next
    case False
    then have "i = rd_index r" using f by (simp add: fill_page.simps)
    then show ?thesis using False by (simp add: rd_ahead_def rows pg)
  qed
  moreover have "rd_ahead r' = map (rd_event r) [i..<rd_stop r]" by (simp add: rd_ahead_def pg)
  moreover have "fits r'"
  proof -
    have "i \<le> length (rd_rows r)"
    proof (cases "rd_index r \<le> rd_stop r")
      case True
      then show ?thesis using i assms(1) by (simp add: fits_def)
    next
      case False
      then have "i = rd_index r" using f by (simp add: fill_page.simps)
      then show ?thesis using assms(1) by (simp add: fits_def)
    qed
    then show ?thesis using assms(1) by (simp add: fits_def pg)
  qed
  moreover have "\<not> pg_truncated p"
  proof
    assume "pg_truncated p"
    then have t: "i < rd_stop r" "rows = []" "previous = None" by (simp_all add: pg complete_def)
    then have "rd_index r < i" using go i(1) by simp
    then show False using rows t(2) by simp
  qed
  ultimately show "(fits r' \<and> \<not> rd_first r') \<and> rd_ahead r = pg_events p @ rd_ahead r' \<and> pg_next p = first_time (rd_ahead r') \<and>
      pg_complete p = (rd_ahead r' = []) \<and> \<not> pg_truncated p \<and> pg_initial p = None \<and> pg_gaps p = []"
    by (simp add: rd_ahead_first) (simp add: pg complete_def not_le)
  show "pg_predecessor p = None \<and> (rd_ahead r \<noteq> [] \<longrightarrow> pg_events p \<noteq> [])" if "\<not> rd_first r"
    using that go rows by (auto simp: pg previous_def rd_ahead_def)
qed

interpretation vcd: page_reader read_page rd_ahead fits "\<lambda>r. fits r \<and> \<not> rd_first r"
  by unfold_locales (use read_page_cut in blast)+

end
