(* ===== verification/Event_Pages_Claims.thy ===== *)
theory Event_Pages_Claims
  imports Event_Pages_Laws Vcd_Claims
begin

text \<open>
  Reading a window of a dump page by page gives the groups of its recorded events, whatever the
  limits of a page are.
\<close>

section \<open>The groups\<close>

lemma groups_times: "sorted (map ev_fs es) \<Longrightarrow> map fst (groups_of w es) = remdups_adj (map ev_fs es)"
proof (induction w es rule: groups_of.induct)
  case (2 w e es)
  have rest: "sorted (map ev_fs (after_run (ev_fs e) es))"
    using 2(2) unfolding after_run_def by (induction es) auto
  have "remdups_adj (map ev_fs (e # es)) = ev_fs e # remdups_adj (map ev_fs (after_run (ev_fs e) es))" for e
  proof (induction es)
    case (Cons a es)
    then show ?case by (cases "ev_fs a = ev_fs e") (auto simp: remdups_adj_Cons split: list.splits)
  qed simp
  then show ?case using 2(1) [OF rest] by simp
qed simp

lemma run_filter:
  assumes "sorted (map ev_fs es)" "\<forall>e \<in> set es. t \<le> ev_fs e"
  shows "run_of t es = filter (\<lambda>e. ev_fs e = t) es" "after_run t es = filter (\<lambda>e. t < ev_fs e) es"
proof -
  have "run_of t es = filter (\<lambda>e. ev_fs e = t) es \<and> after_run t es = filter (\<lambda>e. t < ev_fs e) es"
    using assms
  proof (induction es)
    case (Cons a es)
    show ?case
    proof (cases "ev_fs a = t")
      case False
      then have "\<forall>x \<in> set (a # es). t < ev_fs x" using Cons.prems by fastforce
      then have "filter (\<lambda>e. ev_fs e = t) es = []" "filter (\<lambda>e. t < ev_fs e) (a # es) = a # es"
        unfolding filter_empty_conv filter_id_conv by auto
      then show ?thesis using False by simp
    qed (use Cons in simp)
  qed simp
  then show "run_of t es = filter (\<lambda>e. ev_fs e = t) es" "after_run t es = filter (\<lambda>e. t < ev_fs e) es" by blast+
qed

lemma groups_folds:
  "sorted (map ev_fs es) \<Longrightarrow> (t, g) \<in> set (groups_of w es) \<Longrightarrow> g = fold_run w (filter (\<lambda>e. ev_fs e = t) es) group0 \<and> t \<in> ev_fs ` set es"
proof (induction w es rule: groups_of.induct)
  case (2 w e es)
  have all: "\<forall>x \<in> set (e # es). ev_fs e \<le> ev_fs x" and later: "\<forall>x \<in> set es. ev_fs e \<le> ev_fs x" using 2(2) by auto
  have rest: "after_run (ev_fs e) es = filter (\<lambda>x. ev_fs e < ev_fs x) es"
    using run_filter(2) [OF _ later] 2(2) by simp
  then have sorted: "sorted (map ev_fs (after_run (ev_fs e) es))" using 2(2) by (simp add: sorted_filter)
  consider "(t, g) = (ev_fs e, fold_run w (run_of (ev_fs e) (e # es)) group0)" | "(t, g) \<in> set (groups_of w (after_run (ev_fs e) es))"
    using 2(3) by auto
  then show ?case
  proof cases
    case 1
    then show ?thesis using run_filter(1) [OF 2(2) all] by simp
  next
    case 2
    note ih = "2.IH" [OF sorted this]
    then have t: "ev_fs e < t" using rest by auto
    have "filter (\<lambda>x. ev_fs x = t) (after_run (ev_fs e) es) = filter (\<lambda>x. ev_fs x = t) (e # es)"
      using t by (auto simp: rest intro: filter_cong)
    then show ?thesis using ih rest by auto
  qed
qed simp

section \<open>The events of a symbol\<close>

definition recorded :: "vcd \<Rightarrow> string \<Rightarrow> event list" where
  "recorded st s = (case map_of (v_ticks st) s of
     Some ts \<Rightarrow> map2 (\<lambda>t row. transition (t * v_timescale_fs st) (fst row) (snd row)) ts (vcd_rows st s)
   | None \<Rightarrow> map (\<lambda>row. transition (fst row * 1000) (fst row) (snd row)) (vcd_rows st s))"

lemma transition_sel [simp]: "ev_fs (transition fs ps v) = fs" "ev_ps (transition fs ps v) = ps" "ev_val (transition fs ps v) = Some v"
  by (simp_all add: transition_def)

lemma ticks_rows:
  assumes "vcd_inv st" "v_order_valid st" "map_of (v_ticks st) s = Some ts"
  shows "sorted ts" "length ts = length (vcd_rows st s)" "map ev_fs (recorded st s) = map (\<lambda>t. t * v_timescale_fs st) ts"
proof -
  have "sym_inv (v_timescale_fs st) (v_now_ps st) (v_now_tick st) True (map_of (v_trans st) s) (Some ts)"
    using assms by (auto simp: vcd_inv_def dest!: spec [of _ s])
  then show ts: "sorted ts" "length ts = length (vcd_rows st s)"
    by (auto simp: sym_inv_def vcd_rows_def split: option.splits if_splits dest: arg_cong [of _ _ length])
  then show "map ev_fs (recorded st s) = map (\<lambda>t. t * v_timescale_fs st) ts"
    by (simp add: recorded_def assms(3) list_eq_iff_nth_eq)
qed

lemma recorded_sorted:
  assumes "vcd_inv st" "v_order_valid st" shows "sorted (map ev_fs (recorded st s))" "length (recorded st s) = length (vcd_rows st s)"
proof -
  note rows = vcd_rows_sorted [OF assms, of s]
  have inv: "0 \<le> v_timescale_fs st" using assms by (simp add: vcd_inv_def)
  have "sorted (map ev_fs (recorded st s)) \<and> length (recorded st s) = length (vcd_rows st s)"
  proof (cases "map_of (v_ticks st) s")
    case None
    have "map ev_fs (recorded st s) = map (\<lambda>t. t * 1000) (map fst (vcd_rows st s))" by (simp add: recorded_def None o_def)
    moreover have "sorted (map (\<lambda>t. t * 1000) (map fst (vcd_rows st s)))"
      using rows by (simp add: sorted_iff_nth_mono)
    ultimately show ?thesis by (simp only: recorded_def None option.case length_map)
  next
    case (Some ts)
    note ts = ticks_rows [OF assms Some]
    moreover have "sorted (map (\<lambda>t. t * v_timescale_fs st) ts)"
      using ts(1) inv by (simp add: sorted_iff_nth_mono mult_right_mono)
    ultimately show ?thesis using ts(2,3) by (simp add: recorded_def Some)
  qed
  then show "sorted (map ev_fs (recorded st s))" "length (recorded st s) = length (vcd_rows st s)" by blast+
qed

lemma border_image: "border (\<lambda>y. Q (f y)) xs k \<Longrightarrow> map f xs = map g ys \<Longrightarrow> border (\<lambda>y. Q (g y)) ys k"
  by (auto simp: border_def list_eq_iff_nth_eq)

lemma slice_upt: "hi \<le> n \<Longrightarrow> slice lo hi (map f [0..<n]) = map f [lo..<hi]"
  by (cases "lo \<le> hi") (simp_all add: slice_def take_map drop_map)

lemma slice_borders:
  assumes "sorted (map key ys)" "border (\<lambda>y. key y < a) ys lo" "border (\<lambda>y. key y \<le> b) ys hi"
  shows "slice lo hi ys = filter (\<lambda>y. a \<le> key y \<and> key y \<le> b) ys"
proof -
  have "slice lo hi ys = filter (\<lambda>y. key y \<le> b) (drop lo ys)"
    unfolding slice_def by (rule border_filter(1) [OF border_drop [OF assms(3)]])
  then show ?thesis by (simp add: border_filter(2) [OF assms(2)] not_less conj_commute)
qed


section \<open>Opening a reader\<close>

definition window_end :: "vcd \<Rightarrow> int \<Rightarrow> int" where
  "window_end st stop = (if stop < 0 then v_end_fs st else stop * 1000)"

lemma reader_key:
  assumes "vcd_inv st" "v_order_valid st"
  shows "map_of (v_ticks st) s = Some ts \<Longrightarrow> map (rd_key_tick (v_timescale_fs st)) ts = map ev_fs (recorded st s)"
    "map_of (v_ticks st) s = None \<Longrightarrow> map rd_key_row (vcd_rows st s) = map ev_fs (recorded st s)"
proof -
  assume "map_of (v_ticks st) s = Some ts"
  then show "map (rd_key_tick (v_timescale_fs st)) ts = map ev_fs (recorded st s)"
    using ticks_rows(3) [OF assms] by (simp add: rd_key_tick_def)
next
  assume "map_of (v_ticks st) s = None"
  then show "map rd_key_row (vcd_rows st s) = map ev_fs (recorded st s)"
    by (simp add: recorded_def rd_key_row_def)
qed

lemma opened_reader:
  assumes inv: "vcd_inv st" and s: "vcd_resolve st path = Inr s" and r: "open_reader st path start stop n b = Inr r"
  shows "map (rd_event r) [0..<length (rd_rows r)] = recorded st s" "length (rd_rows r) = length (recorded st s)"
    "border (\<lambda>e. ev_fs e < start * 1000) (recorded st s) (rd_index r)"
    "border (\<lambda>e. ev_fs e \<le> window_end st stop) (recorded st s) (rd_stop r)"
    "rd_max_bytes r = b" "1 \<le> rd_max_events r" "rd_first r" "v_order_valid st"
proof -
  let ?rows = "vcd_rows st s" and ?scale = "v_timescale_fs st"
  have valid: "v_order_valid st" and n: "1 \<le> n"
    using r by (auto simp: open_reader_def page_limits_ok_def ebind_Inr_iff require_Inr_iff)
  show "v_order_valid st" by (rule valid)
  note sorted = recorded_sorted [OF inv valid, of s]
  have fields: "rd_rows r = ?rows" "rd_ticks r = map_of (v_ticks st) s" "rd_scale r = ?scale" "rd_max_bytes r = b" "rd_max_events r = n" "rd_first r"
    "rd_index r = (case map_of (v_ticks st) s of Some ts \<Rightarrow> bisect_left (rd_key_tick ?scale) ts (start * 1000)
        | None \<Rightarrow> bisect_left rd_key_row ?rows (start * 1000))"
    "rd_stop r = (case map_of (v_ticks st) s of Some ts \<Rightarrow> bisect_right (rd_key_tick ?scale) ts (window_end st stop)
        | None \<Rightarrow> bisect_right rd_key_row ?rows (window_end st stop))"
    using r s by (auto simp: open_reader_def page_limits_ok_def ebind_Inr_iff Let_def window_end_def split: option.splits)
  show "rd_max_bytes r = b" "1 \<le> rd_max_events r" "rd_first r" using fields n by simp_all
  show "length (rd_rows r) = length (recorded st s)" using fields sorted by simp
  show "map (rd_event r) [0..<length (rd_rows r)] = recorded st s"
  proof (rule nth_equalityI)
    fix i assume i: "i < length (map (rd_event r) [0..<length (rd_rows r)])"
    then have l: "i < length (recorded st s)" "i < length ?rows" using fields(1) sorted(2) by simp_all
    then show "map (rd_event r) [0..<length (rd_rows r)] ! i = recorded st s ! i"
      using fields by (cases "map_of (v_ticks st) s") (auto simp: rd_event_def Let_def recorded_def split: option.splits)
  qed (simp add: fields sorted)
  have "border (\<lambda>e. ev_fs e < start * 1000) (recorded st s) (rd_index r) \<and> border (\<lambda>e. ev_fs e \<le> window_end st stop) (recorded st s) (rd_stop r)"
  proof (cases "map_of (v_ticks st) s")
    case None
    note key = reader_key(2) [OF inv valid None]
    then have k: "sorted (map rd_key_row ?rows)" using sorted(1) by simp
    show ?thesis
      using border_image [where Q = "\<lambda>x. x < start * 1000", OF bisect_left_border [OF k] key]
        border_image [where Q = "\<lambda>x. x \<le> window_end st stop", OF bisect_right_border [OF k] key] by (simp add: fields None)
  next
    case (Some ts)
    note key = reader_key(1) [OF inv valid Some]
    then have k: "sorted (map (rd_key_tick ?scale) ts)" using sorted(1) by simp
    show ?thesis
      using border_image [where Q = "\<lambda>x. x < start * 1000", OF bisect_left_border [OF k] key]
        border_image [where Q = "\<lambda>x. x \<le> window_end st stop", OF bisect_right_border [OF k] key] by (simp add: fields Some)
  qed
  then show "border (\<lambda>e. ev_fs e < start * 1000) (recorded st s) (rd_index r)"
    "border (\<lambda>e. ev_fs e \<le> window_end st stop) (recorded st s) (rd_stop r)" by blast+
qed

definition in_window :: "vcd \<Rightarrow> string \<Rightarrow> int \<Rightarrow> int \<Rightarrow> event list" where
  "in_window st s start stop = filter (\<lambda>e. start * 1000 \<le> ev_fs e \<and> ev_fs e \<le> window_end st stop) (recorded st s)"

lemma opened_ahead:
  assumes "vcd_inv st" "vcd_resolve st path = Inr s" "open_reader st path start stop n b = Inr r" "\<forall>e \<in> set (recorded st s). event_size e < b"
  shows "fits r" "rd_ahead r = in_window st s start stop" "sorted (map ev_fs (rd_ahead r))" "length (rd_ahead r) \<le> length (recorded st s)"
proof -
  note r = opened_reader [OF assms(1-3)] and sorted = recorded_sorted(1) [OF assms(1) opened_reader(8) [OF assms(1-3)], of s]
  have "rd_ahead r = slice (rd_index r) (rd_stop r) (map (rd_event r) [0..<length (rd_rows r)])"
    using r(2,4) by (simp add: rd_ahead_def slice_upt border_def)
  then show ahead: "rd_ahead r = in_window st s start stop"
    using slice_borders [OF sorted r(3,4)] by (simp add: r(1) in_window_def)
  then show "sorted (map ev_fs (rd_ahead r))" "length (rd_ahead r) \<le> length (recorded st s)"
    using sorted by (simp_all add: in_window_def sorted_filter)
  have "event_size (rd_event r i) < b" if "i < length (rd_rows r)" for i
  proof -
    have "rd_event r i \<in> set (map (rd_event r) [0..<length (rd_rows r)])" using that by simp
    then show ?thesis using assms(4) unfolding r(1) by blast
  qed
  then show "fits r" using r by (simp add: fits_def border_def)
qed

lemma opened_anchor:
  assumes "vcd_inv st" "vcd_resolve st path = Inr s" "open_reader st path start stop n b = Inr r" "\<forall>e \<in> set (recorded st s). event_size e < b"
  shows "cursor_anchor f (open_cursor read_page f r) = last_of (filter (\<lambda>e. ev_fs e < start * 1000) (recorded st s))"
proof -
  note r = opened_reader [OF assms(1-3)]
  have fit: "fits r" using opened_ahead [OF assms] by blast
  have take: "take (rd_index r) (recorded st s) = filter (\<lambda>e. ev_fs e < start * 1000) (recorded st s)"
    by (rule border_filter(1) [OF r(3)])
  have le: "rd_index r \<le> length (rd_rows r)" using r(2,3) by (simp add: border_def)
  have small: "event_size (rd_event r (rd_index r - 1)) < rd_max_bytes r" if "rd_index r \<noteq> 0"
    using fit that le by (simp add: fits_def)
  have p: "pg_predecessor (fst (read_page r)) = (if rd_index r \<noteq> 0 then Some (rd_event r (rd_index r - 1)) else None)"
    using r(7) small by (cases "rd_index r = 0") (simp_all add: read_page_def Let_def not_le split: prod.splits)
  have i: "pg_initial (fst (read_page r)) = None"
    using read_page_cut(1) [OF fit, of "fst (read_page r)" "snd (read_page r)"] by simp
  have "cursor_anchor f (open_cursor read_page f r) = pg_predecessor (fst (read_page r))"
    using i by (cases "read_page r") (simp add: cursor_anchor_def open_cursor_def split: option.splits)
  also have "\<dots> = last_of (take (rd_index r) (recorded st s))"
    using le by (cases "rd_index r") (auto simp: p last_of_def r(1) [symmetric] take_map last_map)
  finally show ?thesis by (simp only: take)
qed

text \<open>C10. Reading a window of a dump page by page gives, whatever the limits of a page are (as long as every event fits
  into one), one group for each time at which the window has recorded events, in the order of time; a
  group is the fold of all the events of its time and its value is the last one's; and the anchor is
  the last event before the window.\<close>

theorem paging_exact:
  assumes "vcd_parse content = Inr st" "vcd_resolve st path = Inr s" "open_reader st path start stop n b = Inr r"
    "\<forall>e \<in> set (recorded st s). event_size e < b" "2 * length (recorded st s) + 3 \<le> k" "length (recorded st s) < m"
  shows "\<exists>gs. drain read_page w k m (open_cursor read_page f r) = Inr gs \<and>
    map fst gs = remdups_adj (map ev_fs (in_window st s start stop)) \<and>
    (\<forall>(t, g) \<in> set gs. g = fold_run w (filter (\<lambda>e. ev_fs e = t) (in_window st s start stop)) group0 \<and>
        gr_value g = ev_val (last (filter (\<lambda>e. ev_fs e = t) (in_window st s start stop)))) \<and>
    cursor_anchor f (open_cursor read_page f r) = last_of (filter (\<lambda>e. ev_fs e < start * 1000) (recorded st s))"
proof -
  let ?w = "in_window st s start stop" and ?c = "open_cursor read_page f r"
  have inv: "vcd_inv st" using vcd_parse_inv assms(1) by blast
  note a = opened_ahead [OF inv assms(2-4)]
  note c = vcd.reading_open [OF a(1,3), of f]
  have "drain read_page w k m ?c = Inr (groups_of w (vcd.stream ?c))"
    using assms(5,6) a(4) c by (intro vcd.drain_exact) (simp_all add: vcd.turns_def)
  then have d: "drain read_page w k m ?c = Inr (groups_of w ?w)" by (simp add: c(2) a(2))
  have sorted: "sorted (map ev_fs ?w)" using a(2,3) by simp
  have "g = fold_run w (filter (\<lambda>e. ev_fs e = t) ?w) group0 \<and> gr_value g = ev_val (last (filter (\<lambda>e. ev_fs e = t) ?w))"
    if "(t, g) \<in> set (groups_of w ?w)" for t g
  proof -
    note g = groups_folds [OF sorted that]
    then have "filter (\<lambda>e. ev_fs e = t) ?w \<noteq> []" by (auto simp: filter_empty_conv)
    then show ?thesis using g fold_run_value by simp
  qed
  then show ?thesis using d groups_times [OF sorted] opened_anchor [OF inv assms(2-4)] by (intro exI [of _ "groups_of w ?w"]) auto
qed

lemma paged_demo_parse: "ebind (vcd_parse_tokens (vcd_init\<lparr>v_timescale_raw := Some ''100fs'', v_timescale_fs := 100\<rparr>)
    [''$timescale'', ''100fs'', ''$end'', ''$var'', ''wire'', ''1'', ''!'', ''c'', ''$end'', ''#5'', ''0!'', ''#20'', ''x!''])
    (\<lambda>st. Inr (vcd_resolve st ''c'', recorded st ''!'', ebind (open_reader st ''c'' 0 (- 1) 1 128) (\<lambda>r. Inr (rd_index r)))) =
   Inr (Inr ''!'', [transition 500 1 ''0'', transition 2000 2 ''x''], Inr 0)"
  by code_simp

lemma paging_exact_witness:
  "\<exists>st r gs. vcd_parse demo_dump = Inr st \<and> open_reader st ''c'' 0 (- 1) 1 128 = Inr r \<and>
     drain read_page (Some 1) 7 3 (open_cursor read_page 0 r) = Inr gs \<and>
     map fst gs = remdups_adj (map ev_fs (in_window st ''!'' 0 (- 1)))"
proof -
  obtain st r where st: "vcd_parse demo_dump = Inr st" "vcd_resolve st ''c'' = Inr ''!''"
    "recorded st ''!'' = [transition 500 1 ''0'', transition 2000 2 ''x'']" "open_reader st ''c'' 0 (- 1) 1 128 = Inr r"
    using paged_demo_parse by (auto simp: vcd_parse_def demo_tokens demo_words demo_header ebind_Inr_iff)
  have small: "\<forall>e \<in> set (recorded st ''!''). event_size e < 128" by (simp add: st(3) event_size_def)
  show ?thesis using paging_exact [OF st(1,2,4) small, of 7 3 "Some 1" 0] st by auto
qed

end
