(* ===== verification/Compare_Pages.thy ===== *)
theory Compare_Pages
  imports Event_Pages Bit_Value
begin

text \<open>
  src/src/divergence_compare.py, \<open>_compare_pages\<close>: the first difference of two recorded signals, read
  through two event-page cursors. The times of the search are femtoseconds.

  A result is a record with the keys of the Python dict; a key that a result does not have is \<open>None\<close>
  or empty, and the keys that are the same in every result (\<open>cursor\<close>, \<open>next_actions\<close>) are left out. The
  page callback \<open>consume\<close> (it charges the budget of the request) is not modelled: the models describe
  calls without one.
\<close>

section \<open>Results\<close>

record gap_row =
  gp_reason :: string
  gp_side :: string
  gp_start_ps :: int
  gp_start_fs :: "int option"
  gp_end_ps :: "int option"

record excluded_row =
  xr_side :: string
  xr_start_ps :: int
  xr_end_ps :: int

record cmp_args =
  ca_wave_a :: string
  ca_signal_a :: string
  ca_wave_b :: string
  ca_signal_b :: string
  ca_start :: int
  ca_end :: int

record cmp_reading =
  cg_mode_a :: string
  cg_mode_b :: string
  cg_events :: "nat option"
  cg_pages :: "nat option"
  cg_calls :: "nat option"
  cg_bytes :: "int option"
  cg_basis :: "string option"

record cmp_result =
  cr_args :: cmp_args
  cr_diverged :: bool
  cr_end_ps :: int
  cr_time_ps :: "int option"
  cr_time_fs :: "int option"
  cr_value_a :: "string option"
  cr_value_b :: "string option"
  cr_compared :: nat
  cr_missing_a :: bool
  cr_missing_b :: bool
  cr_note :: "string option"
  cr_status :: string
  cr_coverage :: string
  cr_earliest :: bool
  cr_gaps :: "gap_row list"
  cr_width_a :: "int option"
  cr_width_b :: "int option"
  cr_excluded :: "excluded_row list"
  cr_reading :: cmp_reading

definition same_gap :: "string \<Rightarrow> string \<Rightarrow> gap_row \<Rightarrow> bool" where
  "same_gap r s g \<longleftrightarrow> gp_reason g = r \<and> gp_side g = s"

fun update_first :: "('a \<Rightarrow> bool) \<Rightarrow> ('a \<Rightarrow> 'a) \<Rightarrow> 'a list \<Rightarrow> 'a list" where
  "update_first p f [] = []"
| "update_first p f (x # xs) = (if p x then f x # xs else x # update_first p f xs)"

definition up_ps :: "int \<Rightarrow> int" where
  "up_ps fs = (fs + 999) div 1000"

definition page_gap :: "string \<Rightarrow> string \<Rightarrow> int \<Rightarrow> gap_row list \<Rightarrow> gap_row list" where
  "page_gap r s at gs =
     (if list_ex (same_gap r s) gs then update_first (same_gap r s) (\<lambda>g. g\<lparr>gp_end_ps := Some (up_ps at)\<rparr>) gs
      else gs @ [\<lparr>gp_reason = r, gp_side = s, gp_start_ps = up_ps at, gp_start_fs = Some at, gp_end_ps = None\<rparr>])"

definition stopped_row :: "int \<Rightarrow> int \<Rightarrow> gap_row" where
  "stopped_row at_ps end_ps = \<lparr>gp_reason = ''stopped_at_difference'', gp_side = ''both'',
     gp_start_ps = at_ps, gp_start_fs = None, gp_end_ps = Some end_ps\<rparr>"

section \<open>The window\<close>

text \<open>What the comparison reads off a reader: its state, \<open>start_fs\<close> (0 where it has none), \<open>end_fs\<close>, \<open>width\<close>, \<open>mode\<close> and \<open>native\<close>.\<close>

record 's page_source =
  ps_state :: 's
  ps_start :: int
  ps_end :: "int option"
  ps_width :: int
  ps_mode :: string
  ps_native :: bool

definition source_ends :: "'s page_source \<Rightarrow> 's page_source \<Rightarrow> int list" where
  "source_ends sa sb = (case ps_end sa of None \<Rightarrow> [] | Some e \<Rightarrow> [e]) @ (case ps_end sb of None \<Rightarrow> [] | Some e \<Rightarrow> [e])"

definition page_stop :: "cmp_args \<Rightarrow> int list \<Rightarrow> int" where
  "page_stop args ends =
     (let s = (if ends \<noteq> [] then min_list ends else ca_start args * 1000 - 1)
      in if ca_end args \<ge> 0 then min s (ca_end args * 1000) else s)"

definition requested_stop :: "cmp_args \<Rightarrow> int list \<Rightarrow> int" where
  "requested_stop args ends =
     (if ca_end args \<ge> 0 then ca_end args * 1000 else if ends = [] then page_stop args ends else fold max (tl ends) (hd ends))"

definition range_gap :: "cmp_args \<Rightarrow> int \<Rightarrow> string \<Rightarrow> 's page_source \<Rightarrow> gap_row list \<times> excluded_row list \<Rightarrow> gap_row list \<times> excluded_row list" where
  "range_gap args requested side src = (\<lambda>(gs, xs). (case ps_end src of
       None \<Rightarrow> (page_gap ''recorded_range_unavailable'' side (ca_start args * 1000) gs, xs)
     | Some e \<Rightarrow> if requested > e
         then (page_gap ''outside_recorded_range'' side e gs,
               xs @ [\<lparr>xr_side = side, xr_start_ps = up_ps e, xr_end_ps = up_ps requested\<rparr>])
         else (gs, xs)))"

definition page_result :: "cmp_args \<Rightarrow> 's page_source \<Rightarrow> 's page_source \<Rightarrow> cmp_result" where
  "page_result args sa sb =
     (let ends = source_ends sa sb; requested = requested_stop args ends;
          (gs, xs) = range_gap args requested ''b'' sb (range_gap args requested ''a'' sa ([], []))
      in \<lparr>cr_args = args, cr_diverged = False, cr_end_ps = up_ps (page_stop args ends), cr_time_ps = None, cr_time_fs = None,
          cr_value_a = None, cr_value_b = None, cr_compared = 0, cr_missing_a = False, cr_missing_b = False,
          cr_note = None, cr_status = ''inconclusive'', cr_coverage = ''none'', cr_earliest = False, cr_gaps = gs,
          cr_width_a = Some (ps_width sa), cr_width_b = Some (ps_width sb), cr_excluded = xs,
          cr_reading = \<lparr>cg_mode_a = ps_mode sa, cg_mode_b = ps_mode sb, cg_events = Some 0, cg_pages = Some 0,
            cg_calls = Some 0, cg_bytes = Some 0,
            cg_basis = Some (if ps_native sa \<and> ps_native sb then ''native_abi'' else ''record_estimate'')\<rparr>\<rparr>)"

section \<open>The search\<close>

record 's cmp_side =
  sd_name :: string
  sd_width :: int
  sd_cursor :: "'s cursor"
  sd_value :: "string option"

record cmp_hit =
  hi_at :: int
  hi_value_a :: "string option"
  hi_value_b :: "string option"
  hi_earliest :: bool

record 's sweep =
  sp_a :: "'s cmp_side"
  sp_b :: "'s cmp_side"
  sp_at :: int
  sp_examined :: bool
  sp_gaps :: "gap_row list"
  sp_hit :: "cmp_hit option"

definition value_json :: "string option \<Rightarrow> json" where
  "value_json v = (case v of None \<Rightarrow> JNull | Some x \<Rightarrow> JStr x)"

definition open_side :: "('s \<Rightarrow> page \<times> 's) \<Rightarrow> string \<Rightarrow> 's page_source \<Rightarrow> 's cmp_side" where
  "open_side rd name src =
     (let c = open_cursor rd (ps_start src) (ps_state src)
      in \<lparr>sd_name = name, sd_width = ps_width src, sd_cursor = c,
          sd_value = (case cursor_anchor (ps_start src) c of None \<Rightarrow> None
            | Some e \<Rightarrow> bit_value (value_json (ev_val e)) (Some (ps_width src)))\<rparr>)"

text \<open>One side in a turn at time \<open>at\<close>: the group at that time, if the side has one.\<close>

definition advance_side :: "('s \<Rightarrow> page \<times> 's) \<Rightarrow> nat \<Rightarrow> int \<Rightarrow> 's cmp_side \<Rightarrow> (cursor_error \<times> 's cmp_side) + 's cmp_side" where
  "advance_side rd k at sd =
     (let c = sd_cursor sd in
      case cursor_peek c of
        None \<Rightarrow> Inr sd
      | Some t \<Rightarrow>
          if t < at then Inl (IncompleteGroup
            (if pg_truncated (cu_page c) then ''transition_data_truncated'' else ''transition_order_invalid''), sd)
          else if t = at then
            (case take_group rd (Some (sd_width sd)) k at c group0 of
               Inl (e, c') \<Rightarrow> Inl (e, sd\<lparr>sd_cursor := c'\<rparr>)
             | Inr (c', g) \<Rightarrow> Inr (sd\<lparr>sd_cursor := c', sd_value := bit_value (value_json (gr_value g)) (Some (sd_width sd))\<rparr>))
          else Inr sd)"

definition recording_rows :: "int \<Rightarrow> 's cmp_side \<Rightarrow> gap_row list \<Rightarrow> gap_row list" where
  "recording_rows at sd gs = fold (\<lambda>g rows. page_gap (rg_reason g) (sd_name sd) (rg_start g) rows)
     (filter (\<lambda>g. rg_start g \<le> at) (cu_gaps (sd_cursor sd))) gs"

definition advance_both :: "('s \<Rightarrow> page \<times> 's) \<Rightarrow> nat \<Rightarrow> 's sweep \<Rightarrow> cursor_error option \<times> 's sweep" where
  "advance_both rd k s =
     (case advance_side rd k (sp_at s) (sp_a s) of
        Inl (e, sd) \<Rightarrow> (Some e, s\<lparr>sp_a := sd\<rparr>)
      | Inr sd \<Rightarrow>
          (let s1 = s\<lparr>sp_a := sd, sp_gaps := recording_rows (sp_at s) sd (sp_gaps s)\<rparr>
           in case advance_side rd k (sp_at s1) (sp_b s1) of
                Inl (e, sd') \<Rightarrow> (Some e, s1\<lparr>sp_b := sd'\<rparr>)
              | Inr sd' \<Rightarrow> (None, s1\<lparr>sp_b := sd', sp_gaps := recording_rows (sp_at s1) sd' (sp_gaps s1)\<rparr>)))"

definition value_row :: "int \<Rightarrow> 's cmp_side \<Rightarrow> gap_row list \<Rightarrow> gap_row list" where
  "value_row at sd gs =
     (if sd_value sd = None then page_gap ''value_unavailable'' (sd_name sd) at gs
      else if \<not> known (sd_value sd) then page_gap ''value_unknown'' (sd_name sd) at gs
      else gs)"

definition judge :: "'s sweep \<Rightarrow> 's sweep" where
  "judge s =
     (let gs = value_row (sp_at s) (sp_b s) (value_row (sp_at s) (sp_a s) (sp_gaps s));
          va = sd_value (sp_a s); vb = sd_value (sp_b s)
      in s\<lparr>sp_examined := True, sp_gaps := gs,
           sp_hit := (if known va \<and> known vb \<and> va \<noteq> vb
             then Some \<lparr>hi_at = sp_at s, hi_value_a = va, hi_value_b = vb,
               hi_earliest = (\<not> list_ex (\<lambda>g. case gp_start_fs g of None \<Rightarrow> False | Some t \<Rightarrow> t \<le> sp_at s) gs)\<rparr>
             else None)\<rparr>)"

definition upcoming :: "'s sweep \<Rightarrow> int option" where
  "upcoming s = (case (cursor_peek (sd_cursor (sp_a s)), cursor_peek (sd_cursor (sp_b s))) of
     (None, None) \<Rightarrow> None | (Some t, None) \<Rightarrow> Some t | (None, Some u) \<Rightarrow> Some u | (Some t, Some u) \<Rightarrow> Some (min t u))"

fun page_loop :: "('s \<Rightarrow> page \<times> 's) \<Rightarrow> nat \<Rightarrow> int \<Rightarrow> nat \<Rightarrow> 's sweep \<Rightarrow> cursor_error option \<times> 's sweep" where
  "page_loop rd k stop 0 s = (Some CursorFuel, s)"
| "page_loop rd k stop (Suc m) s =
     (if sp_at s > stop then (None, s)
      else (case advance_both rd k s of
          (Some e, s') \<Rightarrow> (Some e, s')
        | (None, s') \<Rightarrow>
            (let s2 = judge s' in
             if sp_hit s2 \<noteq> None then (None, s2)
             else (case upcoming s2 of None \<Rightarrow> (None, s2) | Some t \<Rightarrow> page_loop rd k stop m (s2\<lparr>sp_at := t\<rparr>)))))"

section \<open>The verdict\<close>

definition exact_note :: string where
  "exact_note = ''exact difference is at first_divergence_time_fs; the rounded ps cursor may observe a later value''"

definition equal_note :: string where
  "equal_note = ''known values agree across the complete comparison window''"

definition record_hit :: "'s sweep \<Rightarrow> cmp_result \<Rightarrow> cmp_result" where
  "record_hit s r = (case sp_hit s of None \<Rightarrow> r | Some h \<Rightarrow>
     r\<lparr>cr_diverged := True, cr_status := ''different'', cr_value_a := hi_value_a h, cr_value_b := hi_value_b h,
       cr_time_ps := Some (up_ps (hi_at h)), cr_time_fs := Some (hi_at h), cr_earliest := hi_earliest h,
       cr_note := (if hi_at h mod 1000 \<noteq> 0 then Some exact_note else cr_note r)\<rparr>)"

definition count_reading :: "'s page_source \<Rightarrow> 's page_source \<Rightarrow> 's sweep \<Rightarrow> cmp_reading \<Rightarrow> cmp_reading" where
  "count_reading sa sb s g =
     (let ca = sd_cursor (sp_a s); cb = sd_cursor (sp_b s)
      in g\<lparr>cg_events := Some (cu_records ca + cu_records cb), cg_pages := Some (cu_pages ca + cu_pages cb),
           cg_bytes := Some (cu_bytes ca + cu_bytes cb),
           cg_calls := Some ((if ps_native sa then cu_pages ca else 0) + (if ps_native sb then cu_pages cb else 0))\<rparr>)"

definition finish_pages :: "'s page_source \<Rightarrow> 's page_source \<Rightarrow> int \<Rightarrow> 's sweep \<Rightarrow> cmp_result \<Rightarrow> cmp_result" where
  "finish_pages sa sb stop s r0 =
     (let gs = sp_gaps s;
          r1 = (record_hit s r0)\<lparr>cr_gaps := gs, cr_reading := count_reading sa sb s (cr_reading r0),
             cr_compared := cu_compared (sd_cursor (sp_a s)) + cu_compared (sd_cursor (sp_b s))\<rparr>;
          r2 = (if \<not> cr_diverged r1 \<and> sp_examined s \<and> gs = []
                then r1\<lparr>cr_status := ''equal'', cr_note := Some equal_note\<rparr> else r1);
          r3 = r2\<lparr>cr_coverage := (if \<not> sp_examined s then ''none'' else if gs \<noteq> [] then ''partial'' else ''complete'')\<rparr>
      in if cr_diverged r3 \<and> sp_at s < stop
         then r3\<lparr>cr_coverage := ''partial'', cr_gaps := gs @ [stopped_row (up_ps (sp_at s)) (cr_end_ps r3)]\<rparr>
         else r3)"

definition compare_pages :: "('s \<Rightarrow> page \<times> 's) \<Rightarrow> nat \<Rightarrow> nat \<Rightarrow> cmp_args \<Rightarrow> 's page_source \<Rightarrow> 's page_source \<Rightarrow> cursor_error + cmp_result" where
  "compare_pages rd k m args sa sb =
     (let r0 = page_result args sa sb; stop = page_stop args (source_ends sa sb); start_fs = ca_start args * 1000
      in if stop < start_fs
         then Inr (r0\<lparr>cr_gaps := page_gap ''empty_window'' ''both'' start_fs (cr_gaps r0),
                      cr_note := Some ''empty effective comparison window''\<rparr>)
         else if ps_width sa \<noteq> ps_width sb
         then Inr (r0\<lparr>cr_gaps := page_gap ''width_mismatch'' ''both'' start_fs (cr_gaps r0)\<rparr>)
         else (case page_loop rd k stop m \<lparr>sp_a = open_side rd ''a'' sa, sp_b = open_side rd ''b'' sb, sp_at = start_fs,
                 sp_examined = False, sp_gaps = cr_gaps r0, sp_hit = None\<rparr> of
             (None, s) \<Rightarrow> Inr (finish_pages sa sb stop s r0)
           | (Some (IncompleteGroup reason), s) \<Rightarrow>
               Inr (finish_pages sa sb stop (s\<lparr>sp_gaps := page_gap reason ''both'' (sp_at s) (sp_gaps s)\<rparr>) r0)
           | (Some e, s) \<Rightarrow> Inl e))"

text \<open>The VCD reader as a source (it has no \<open>start_fs\<close>).\<close>

definition vcd_source :: "vcd \<Rightarrow> int \<Rightarrow> reader \<Rightarrow> reader page_source" where
  "vcd_source st w r = \<lparr>ps_state = r, ps_start = 0, ps_end = Some (v_end_fs st), ps_width = w,
     ps_mode = ''vcd_index_pages'', ps_native = False\<rparr>"

end
