(* ===== verification/Compare_Verdict.thy ===== *)
theory Compare_Verdict
  imports Compare_Pages
begin

text \<open>
  The verdict of a search for the first difference of two waveforms, whatever the engine. A waveform is a
  function from times to normalised values. An engine logs gaps by reason and side (\<open>gap_log\<close>: a row per
  reason and side, which keeps the time it begins at); \<open>scanned\<close> relates its hit and its gaps to the
  waveforms at every time of the window.
\<close>

definition differ :: "(int \<Rightarrow> string option) \<Rightarrow> (int \<Rightarrow> string option) \<Rightarrow> int \<Rightarrow> bool" where
  "differ va vb t \<longleftrightarrow> known (va t) \<and> known (vb t) \<and> va t \<noteq> vb t"

definition both_known :: "(int \<Rightarrow> string option) \<Rightarrow> (int \<Rightarrow> string option) \<Rightarrow> int \<Rightarrow> int \<Rightarrow> bool" where
  "both_known va vb lo hi \<longleftrightarrow> (\<forall>t. lo \<le> t \<and> t \<le> hi \<longrightarrow> known (va t) \<and> known (vb t))"

section \<open>Gap logs\<close>

locale gap_log =
  fixes note_gap :: "string \<Rightarrow> string \<Rightarrow> int \<Rightarrow> gap_row list \<Rightarrow> gap_row list"
    and begins :: "gap_row \<Rightarrow> int option"
  assumes fresh: "\<not> list_ex (same_gap r s) gs \<Longrightarrow> \<exists>g. note_gap r s t gs = gs @ [g] \<and> same_gap r s g \<and> begins g = Some t"
    and again: "list_ex (same_gap r s) gs \<Longrightarrow>
      map (\<lambda>g. (gp_reason g, begins g)) (note_gap r s t gs) = map (\<lambda>g. (gp_reason g, begins g)) gs"
begin

text \<open>Some row begins not after \<open>t\<close>; the rows of the value reasons begin not after \<open>t\<close>.\<close>

definition early :: "int \<Rightarrow> gap_row list \<Rightarrow> bool" where
  "early t gs \<longleftrightarrow> (\<exists>g \<in> set gs. \<exists>x. begins g = Some x \<and> x \<le> t)"

definition value_reason :: "string \<Rightarrow> bool" where
  "value_reason r \<longleftrightarrow> r = ''value_unavailable'' \<or> r = ''value_unknown''"

definition value_rows_by :: "int \<Rightarrow> gap_row list \<Rightarrow> bool" where
  "value_rows_by t gs \<longleftrightarrow> (\<forall>g \<in> set gs. value_reason (gp_reason g) \<longrightarrow> (\<exists>x. begins g = Some x \<and> x \<le> t))"

lemma early_later: "early t gs \<Longrightarrow> t \<le> u \<Longrightarrow> early u gs"
  by (auto simp: early_def intro: order_trans)

lemma early_nonempty: "early t gs \<Longrightarrow> gs \<noteq> []"
  by (auto simp: early_def)

lemma value_rows_later: "value_rows_by t gs \<Longrightarrow> t \<le> u \<Longrightarrow> value_rows_by u gs"
  by (fastforce simp: value_rows_by_def)

lemma same_rows:
  assumes "map (\<lambda>g. (gp_reason g, begins g)) gs' = map (\<lambda>g. (gp_reason g, begins g)) gs"
  shows "early t gs' = early t gs" "value_rows_by t gs' = value_rows_by t gs"
proof -
  have "(\<lambda>g. (gp_reason g, begins g)) ` set gs' = (\<lambda>g. (gp_reason g, begins g)) ` set gs"
    using arg_cong [OF assms, of set] by simp
  then have ex: "(\<exists>g \<in> set gs'. P (gp_reason g) (begins g)) = (\<exists>g \<in> set gs. P (gp_reason g) (begins g))" for P
    by (auto simp: image_iff set_eq_iff) metis+
  show "early t gs' = early t gs" unfolding early_def by (rule ex)
  show "value_rows_by t gs' = value_rows_by t gs"
    using ex [of "\<lambda>r b. value_reason r \<and> \<not> (\<exists>x. b = Some x \<and> x \<le> t)"] unfolding value_rows_by_def by blast
qed

lemma note_gap_rows:
  assumes "value_rows_by at gs"
  shows "early t gs \<Longrightarrow> early t (note_gap r s at gs)" "value_rows_by at (note_gap r s at gs)"
    "value_reason r \<Longrightarrow> early at (note_gap r s at gs)"
proof -
  show "early t gs \<Longrightarrow> early t (note_gap r s at gs)"
    by (cases "list_ex (same_gap r s) gs") (use same_rows(1) [OF again] fresh [of r s gs at] in \<open>auto simp: early_def\<close>)
  show "value_rows_by at (note_gap r s at gs)"
    by (cases "list_ex (same_gap r s) gs") (use assms same_rows(2) [OF again] fresh [of r s gs at] in \<open>auto simp: value_rows_by_def\<close>)
  show "early at (note_gap r s at gs)" if "value_reason r"
  proof (cases "list_ex (same_gap r s) gs")
    case True
    then obtain g where "g \<in> set gs" "same_gap r s g" by (auto simp: list_ex_iff)
    moreover from this have "value_reason (gp_reason g)" using that by (simp add: same_gap_def)
    ultimately have "early at gs" using assms unfolding value_rows_by_def early_def by blast
    then show ?thesis using same_rows(1) [OF again [OF True]] by simp
  next
    case False
    then show ?thesis using fresh [OF False, of at] by (auto simp: early_def)
  qed
qed

lemma value_rows_other: "\<not> value_reason r \<Longrightarrow> value_rows_by t gs \<Longrightarrow> value_rows_by t (note_gap r s at gs)"
  by (cases "list_ex (same_gap r s) gs")
    (use same_rows(2) [OF again] fresh [of r s gs at] in \<open>auto simp: value_rows_by_def same_gap_def\<close>)

lemma note_gap_nonempty: "note_gap r s t gs \<noteq> []"
proof (cases "list_ex (same_gap r s) gs")
  case True
  then have "gs \<noteq> []" by auto
  then show ?thesis using again [OF True, of t] by auto
qed (use fresh [of r s gs t] in auto)

definition note_value :: "int \<Rightarrow> string \<Rightarrow> string option \<Rightarrow> gap_row list \<Rightarrow> gap_row list" where
  "note_value at name v gs =
     (if v = None then note_gap ''value_unavailable'' name at gs
      else if \<not> known v then note_gap ''value_unknown'' name at gs else gs)"

lemma note_value_rows:
  assumes "value_rows_by at gs"
  shows "value_rows_by at (note_value at name v gs)" "early t gs \<Longrightarrow> early t (note_value at name v gs)"
    "if known v then note_value at name v gs = gs else early at (note_value at name v gs)"
  using assms note_gap_rows [OF assms] by (auto simp: note_value_def value_reason_def known_def)

lemma note_both:
  assumes "value_rows_by at gs" "gs' = note_value at nb vb (note_value at na va gs)"
  shows "value_rows_by at gs'" "\<forall>t. early t gs \<longrightarrow> early t gs'" "if known va \<and> known vb then gs' = gs else early at gs'"
proof -
  note a = note_value_rows [OF assms(1), where name = na and v = va]
  note b = note_value_rows [OF a(1), where name = nb and v = vb]
  show "value_rows_by at gs'" unfolding assms(2) by (rule b(1))
  show "\<forall>t. early t gs \<longrightarrow> early t gs'" unfolding assms(2) using a(2) b(2) by blast
  show "if known va \<and> known vb then gs' = gs else early at gs'" unfolding assms(2) using a(3) b(2,3) by (auto split: if_splits)
qed

section \<open>Scans\<close>

text \<open>
  The verdict of a search from \<open>lo\<close> on: no difference up to \<open>stop\<close>, or the first one; and the gaps
  tell whether the values before it were all known.
\<close>

definition scanned :: "(int \<Rightarrow> string option) \<Rightarrow> (int \<Rightarrow> string option) \<Rightarrow> int \<Rightarrow> int \<Rightarrow> gap_row list
    \<Rightarrow> cmp_hit option \<Rightarrow> gap_row list \<Rightarrow> bool" where
  "scanned va vb lo stop gs h gs2 \<longleftrightarrow>
     (case h of
        None \<Rightarrow> (\<forall>t. lo \<le> t \<and> t \<le> stop \<longrightarrow> \<not> differ va vb t) \<and>
          (if both_known va vb lo stop then gs2 = gs else early stop gs2)
      | Some h \<Rightarrow> (let d = hi_at h in lo \<le> d \<and> d \<le> stop \<and> differ va vb d \<and>
          hi_value_a h = va d \<and> hi_value_b h = vb d \<and> hi_earliest h = (\<not> early d gs2) \<and>
          (\<forall>t. lo \<le> t \<and> t < d \<longrightarrow> \<not> differ va vb t) \<and>
          (if both_known va vb lo d then gs2 = gs else early d gs2))) \<and>
     (\<forall>t. early t gs \<longrightarrow> early t gs2)"

lemma scanned_step:
  assumes "scanned va vb next stop gs' h gs2" "lo < next" "\<forall>t. lo \<le> t \<and> t < next \<longrightarrow> va t = va lo \<and> vb t = vb lo"
    "\<not> differ va vb lo" "next \<le> stop" "\<forall>t. early t gs \<longrightarrow> early t gs'"
    "if known (va lo) \<and> known (vb lo) then gs' = gs else early lo gs'"
  shows "scanned va vb lo stop gs h gs2"
proof -
  have no: "\<not> differ va vb t" if "lo \<le> t" "t < next" for t
    using assms(3,4) that unfolding differ_def by metis
  have low: "both_known va vb lo hi \<longleftrightarrow> known (va lo) \<and> known (vb lo) \<and> both_known va vb next hi" if "next \<le> hi" for hi
  proof -
    have "known (va t) \<and> known (vb t)" if "lo \<le> t" "t < next" "known (va lo)" "known (vb lo)" for t
      using assms(3) that by metis
    moreover have "lo \<le> hi" using that assms(2) by simp
    ultimately show ?thesis using assms(2) unfolding both_known_def by (metis linorder_not_le order_less_le_trans order_refl less_imp_le)
  qed
  have step: "if both_known va vb lo hi then gs2 = gs else early hi (gs2)"
    if "next \<le> hi" "if both_known va vb next hi then gs2 = gs' else early hi (gs2)" "\<forall>t. early t gs' \<longrightarrow> early t (gs2)" for hi
  proof (cases "known (va lo) \<and> known (vb lo)")
    case True
    then show ?thesis using that(2) assms(7) low [OF that(1)] by simp
  next
    case False
    then have "early lo gs'" using assms(7) by simp
    then have "early hi (gs2)" using that(1,3) assms(2) early_later by fastforce
    then show ?thesis using False low [OF that(1)] by auto
  qed
  show ?thesis
  proof (cases "h")
    case None
    then have h: "\<forall>t. next \<le> t \<and> t \<le> stop \<longrightarrow> \<not> differ va vb t" "\<forall>t. early t gs' \<longrightarrow> early t (gs2)"
      "if both_known va vb next stop then gs2 = gs' else early stop (gs2)" using assms(1) by (simp_all add: scanned_def)
    have "\<forall>t. lo \<le> t \<and> t \<le> stop \<longrightarrow> \<not> differ va vb t" using h(1) no by (meson linorder_not_le)
    then show ?thesis using None step [OF assms(5) h(3,2)] assms(6) h(2) unfolding scanned_def by simp
  next
    case (Some x)
    let ?d = "hi_at x"
    have h: "next \<le> ?d" "?d \<le> stop" "differ va vb ?d" "hi_value_a x = va ?d" "hi_value_b x = vb ?d"
      "hi_earliest x = (\<not> early ?d (gs2))" "\<forall>t. next \<le> t \<and> t < ?d \<longrightarrow> \<not> differ va vb t"
      "if both_known va vb next ?d then gs2 = gs' else early ?d (gs2)"
      "\<forall>t. early t gs' \<longrightarrow> early t (gs2)"
      using assms(1) Some by (simp_all add: scanned_def Let_def)
    have "\<forall>t. lo \<le> t \<and> t < ?d \<longrightarrow> \<not> differ va vb t" using h(7) no by (meson linorder_not_le)
    moreover have "lo \<le> ?d" using h(1) assms(2) by simp
    ultimately show ?thesis
      using Some step [OF h(1,8,9)] assms(6) h unfolding scanned_def by simp
  qed
qed

lemma scanned_here:
  assumes "h = None \<Longrightarrow> \<forall>t. lo \<le> t \<and> t \<le> stop \<longrightarrow> va t = va lo \<and> vb t = vb lo" "lo \<le> stop"
    "h = (if differ va vb lo then Some \<lparr>hi_at = lo, hi_value_a = va lo, hi_value_b = vb lo, hi_earliest = (\<not> early lo (gs2))\<rparr> else None)"
    "\<forall>t. early t gs \<longrightarrow> early t (gs2)"
    "if known (va lo) \<and> known (vb lo) then gs2 = gs else early lo (gs2)"
  shows "scanned va vb lo stop gs h gs2"
proof (cases "differ va vb lo")
  case True
  then have "known (va lo)" "known (vb lo)" by (simp_all add: differ_def)
  moreover from this have "both_known va vb lo lo" by (auto simp: both_known_def dest: order_antisym)
  ultimately show ?thesis using True assms(2-5) by (auto simp: scanned_def)
next
  case False
  then have none: "h = None" using assms(3) by simp
  note same = assms(1) [OF none]
  have "\<forall>t. lo \<le> t \<and> t \<le> stop \<longrightarrow> \<not> differ va vb t" using same False unfolding differ_def by metis
  moreover have "both_known va vb lo stop \<longleftrightarrow> known (va lo) \<and> known (vb lo)"
    using same assms(2) unfolding both_known_def by (metis order_refl)
  moreover have "early lo (gs2) \<Longrightarrow> early stop (gs2)" using assms(2) by (rule early_later [rotated])
  ultimately show ?thesis using assms(4,5) by (auto simp: scanned_def none split: if_splits)
qed

lemma scanned_cong:
  assumes "\<forall>t. lo \<le> t \<and> t \<le> stop \<longrightarrow> va t = va' t \<and> vb t = vb' t"
  shows "scanned va vb lo stop gs h gs2 \<longleftrightarrow> scanned va' vb' lo stop gs h gs2"
proof -
  have d: "differ va vb t = differ va' vb' t" if "lo \<le> t" "t \<le> stop" for t using assms that by (simp add: differ_def)
  have k: "both_known va vb lo hi = both_known va' vb' lo hi" if "hi \<le> stop" for hi
  proof -
    have "lo \<le> t \<and> t \<le> hi \<Longrightarrow> va t = va' t \<and> vb t = vb' t" for t using assms that by simp
    then show ?thesis unfolding both_known_def by metis
  qed
  show ?thesis
  proof (cases h)
    case None
    have "(\<forall>t. lo \<le> t \<and> t \<le> stop \<longrightarrow> \<not> differ va vb t) \<longleftrightarrow> (\<forall>t. lo \<le> t \<and> t \<le> stop \<longrightarrow> \<not> differ va' vb' t)" using d by blast
    then show ?thesis by (simp add: scanned_def None k)
  next
    case (Some x)
    have "(\<forall>t. lo \<le> t \<and> t < hi_at x \<longrightarrow> \<not> differ va vb t) \<longleftrightarrow> (\<forall>t. lo \<le> t \<and> t < hi_at x \<longrightarrow> \<not> differ va' vb' t)"
      if "hi_at x \<le> stop" using d that by (meson less_imp_le order_trans)
    then show ?thesis using assms d k by (auto simp: scanned_def Some Let_def)
  qed
qed

theorem scanned_verdict:
  assumes "scanned va vb lo stop gs h gs2"
  shows "h \<noteq> None \<longleftrightarrow> (\<exists>t. lo \<le> t \<and> t \<le> stop \<and> differ va vb t)"
    "h = Some x \<Longrightarrow> lo \<le> hi_at x \<and> hi_at x \<le> stop \<and> differ va vb (hi_at x) \<and>
       (\<forall>u. lo \<le> u \<and> u < hi_at x \<longrightarrow> \<not> differ va vb u) \<and> hi_value_a x = va (hi_at x) \<and> hi_value_b x = vb (hi_at x) \<and>
       (hi_earliest x \<longleftrightarrow> both_known va vb lo (hi_at x) \<and> \<not> early (hi_at x) gs)"
    "h = None \<and> gs2 = [] \<longleftrightarrow> gs = [] \<and> both_known va vb lo stop \<and> (\<forall>t. lo \<le> t \<and> t \<le> stop \<longrightarrow> va t = vb t)"
proof -
  show some: "h = Some x \<Longrightarrow> lo \<le> hi_at x \<and> hi_at x \<le> stop \<and> differ va vb (hi_at x) \<and>
       (\<forall>u. lo \<le> u \<and> u < hi_at x \<longrightarrow> \<not> differ va vb u) \<and> hi_value_a x = va (hi_at x) \<and> hi_value_b x = vb (hi_at x) \<and>
       (hi_earliest x \<longleftrightarrow> both_known va vb lo (hi_at x) \<and> \<not> early (hi_at x) gs)" for x
    using assms by (auto simp: scanned_def Let_def split: if_splits)
  have none: "(\<forall>t. lo \<le> t \<and> t \<le> stop \<longrightarrow> \<not> differ va vb t) \<and> (if both_known va vb lo stop then gs2 = gs else gs2 \<noteq> [])" if "h = None"
    using assms that early_nonempty [of stop gs2] by (auto simp: scanned_def split: if_splits)
  show "h \<noteq> None \<longleftrightarrow> (\<exists>t. lo \<le> t \<and> t \<le> stop \<and> differ va vb t)" using some none by (cases h) blast+
  have "va t = vb t" if "h = None" "both_known va vb lo stop" "lo \<le> t" "t \<le> stop" for t
    using none that by (auto simp: differ_def both_known_def)
  moreover have "va (hi_at x) \<noteq> vb (hi_at x)" if "h = Some x" for x using some [OF that] by (simp add: differ_def)
  ultimately show "h = None \<and> gs2 = [] \<longleftrightarrow> gs = [] \<and> both_known va vb lo stop \<and> (\<forall>t. lo \<le> t \<and> t \<le> stop \<longrightarrow> va t = vb t)"
    using none some by (cases h) (force split: if_splits)+
qed

end

lemma update_first_map: "(\<And>x. f (g x) = f x) \<Longrightarrow> map f (update_first p g xs) = map f xs"
  by (induction xs) auto

interpretation page_log: gap_log page_gap gp_start_fs
  by unfold_locales (auto simp: page_gap_def same_gap_def intro!: update_first_map)

end
