(* ===== verification/Compare_Laws.thy ===== *)
theory Compare_Laws
  imports Compare_Verdict Event_Pages_Laws
begin

text \<open>
  What the paged comparison finds, against the waveforms themselves: \<open>wave\<close> is the waveform of a list of
  events. Over a \<open>page_reader\<close> the search,
  which only visits the times of events, decides the question for every time of the window.
\<close>

section \<open>Waveforms\<close>

definition wave :: "int \<Rightarrow> string option \<Rightarrow> event list \<Rightarrow> int \<Rightarrow> string option" where
  "wave w v es t = (let past = filter (\<lambda>e. ev_fs e \<le> t) es
     in if past = [] then v else bit_value (value_json (ev_val (last past))) (Some w))"

lemma wave_before: "\<forall>e \<in> set es. t < ev_fs e \<Longrightarrow> wave w v es t = v"
proof -
  assume "\<forall>e \<in> set es. t < ev_fs e"
  then have "filter (\<lambda>e. ev_fs e \<le> t) es = []" by (auto simp: filter_empty_conv)
  then show ?thesis by (simp add: wave_def)
qed

lemma after_run_later:
  "sorted (map ev_fs es) \<Longrightarrow> \<forall>e \<in> set es. t \<le> ev_fs e \<Longrightarrow> \<forall>e \<in> set (after_run t es). t < ev_fs e"
proof (induction es)
  case (Cons a es)
  then show ?case by (cases "ev_fs a = t") fastforce+
qed simp

lemma run_of_past:
  assumes "sorted (map ev_fs es)" "\<forall>e \<in> set es. t \<le> ev_fs e"
  shows "filter (\<lambda>e. ev_fs e \<le> t) es = run_of t es"
proof -
  have "run_of t es @ after_run t es = es" by (simp add: run_of_def after_run_def)
  moreover have "\<forall>e \<in> set (run_of t es). ev_fs e = t" by (auto simp: run_of_def dest: set_takeWhileD)
  ultimately have "filter (\<lambda>e. ev_fs e \<le> t) es = run_of t es @ filter (\<lambda>e. ev_fs e \<le> t) (after_run t es)"
    by (metis (mono_tags, lifting) filter_True filter_append order_refl)
  then show ?thesis using after_run_later [OF assms] by (simp add: filter_empty_conv not_le)
qed

lemma wave_run:
  assumes "sorted (map ev_fs es)" "\<forall>e \<in> set es. t \<le> ev_fs e" "t \<le> u"
  shows "wave w v es u = wave w (wave w v es t) (after_run t es) u"
proof -
  have split: "run_of t es @ after_run t es = es" by (simp add: run_of_def after_run_def)
  have run: "\<forall>e \<in> set (run_of t es). ev_fs e = t" by (auto simp: run_of_def dest: set_takeWhileD)
  have all: "filter (\<lambda>e. ev_fs e \<le> u) es = run_of t es @ filter (\<lambda>e. ev_fs e \<le> u) (after_run t es)"
    using run assms(3) by (subst split [symmetric], subst filter_append) (simp add: filter_id_conv)
  show ?thesis unfolding wave_def all run_of_past [OF assms(1,2)] Let_def by simp
qed

section \<open>One turn\<close>

text \<open>What \<open>judge\<close> does at a time where the sides hold the values of the waveforms.\<close>

lemma judge_exact:
  assumes "sd_value (sp_a s) = va (sp_at s)" "sd_value (sp_b s) = vb (sp_at s)" "page_log.value_rows_by (sp_at s) (sp_gaps s)"
  shows "sp_a (judge s) = sp_a s" "sp_b (judge s) = sp_b s" "sp_at (judge s) = sp_at s" "sp_examined (judge s)"
    "page_log.value_rows_by (sp_at s) (sp_gaps (judge s))"
    "\<forall>t. page_log.early t (sp_gaps s) \<longrightarrow> page_log.early t (sp_gaps (judge s))"
    "if known (va (sp_at s)) \<and> known (vb (sp_at s)) then sp_gaps (judge s) = sp_gaps s else page_log.early (sp_at s) (sp_gaps (judge s))"
    "sp_hit (judge s) = (if differ va vb (sp_at s)
       then Some \<lparr>hi_at = sp_at s, hi_value_a = va (sp_at s), hi_value_b = vb (sp_at s),
         hi_earliest = (\<not> page_log.early (sp_at s) (sp_gaps (judge s)))\<rparr> else None)"
proof -
  let ?at = "sp_at s"
  have row: "value_row ?at sd gs = page_log.note_value ?at (sd_name sd) (sd_value sd) gs" for sd :: "'a cmp_side" and gs
    by (simp add: value_row_def page_log.note_value_def)
  have gaps: "sp_gaps (judge s) = page_log.note_value ?at (sd_name (sp_b s)) (vb ?at) (page_log.note_value ?at (sd_name (sp_a s)) (va ?at) (sp_gaps s))"
    using assms(1,2) by (simp add: judge_def Let_def row)
  show "sp_a (judge s) = sp_a s" "sp_b (judge s) = sp_b s" "sp_at (judge s) = ?at" "sp_examined (judge s)"
    by (simp_all add: judge_def Let_def)
  show "page_log.value_rows_by ?at (sp_gaps (judge s))"
    "\<forall>t. page_log.early t (sp_gaps s) \<longrightarrow> page_log.early t (sp_gaps (judge s))"
    "if known (va ?at) \<and> known (vb ?at) then sp_gaps (judge s) = sp_gaps s else page_log.early ?at (sp_gaps (judge s))"
    by (rule page_log.note_both [OF assms(3) gaps])+
  have "list_ex (\<lambda>g. case gp_start_fs g of None \<Rightarrow> False | Some t \<Rightarrow> t \<le> ?at) gs = page_log.early ?at gs" for gs
    by (auto simp: list_ex_iff page_log.early_def split: option.splits)
  then show "sp_hit (judge s) = (if differ va vb ?at
       then Some \<lparr>hi_at = ?at, hi_value_a = va ?at, hi_value_b = vb ?at, hi_earliest = (\<not> page_log.early ?at (sp_gaps (judge s)))\<rparr> else None)"
    using assms(1,2) by (simp add: judge_def Let_def differ_def)
qed

section \<open>The search over paged readers\<close>

context page_reader begin

definition tracks :: "(int \<Rightarrow> string option) \<Rightarrow> nat \<Rightarrow> int \<Rightarrow> 's cmp_side \<Rightarrow> bool" where
  "tracks v k at sd \<longleftrightarrow> reading (sd_cursor sd) \<and> turns (sd_cursor sd) < k \<and> (\<forall>e \<in> set (stream (sd_cursor sd)). at \<le> ev_fs e) \<and>
     (\<forall>u \<ge> at. v u = wave (sd_width sd) (sd_value sd) (stream (sd_cursor sd)) u)"

definition later_events :: "int \<Rightarrow> 's cmp_side \<Rightarrow> nat" where
  "later_events at sd = length (filter (\<lambda>e. at < ev_fs e) (stream (sd_cursor sd)))"

lemma reading_facts:
  "reading c \<Longrightarrow> sorted (map ev_fs (stream c))" "reading c \<Longrightarrow> cu_gaps c = []"
  by (simp_all add: reading_def)

lemma tracks_still:
  assumes "tracks v k at sd" "\<forall>e \<in> set (stream (sd_cursor sd)). at < ev_fs e"
  shows "sd_value sd = v at"
  using assms wave_before [OF assms(2)] by (simp add: tracks_def)

lemma advance_tracks:
  assumes "tracks v k at sd"
  shows "\<exists>sd'. advance_side rd k at sd = Inr sd' \<and> sd_value sd' = v at \<and> tracks v k at sd' \<and>
     (\<forall>e \<in> set (stream (sd_cursor sd')). at < ev_fs e) \<and> later_events at sd' = later_events at sd"
proof -
  let ?c = "sd_cursor sd"
  have r: "reading ?c" and k: "turns ?c < k" and low: "\<forall>e \<in> set (stream ?c). at \<le> ev_fs e"
    and v: "\<forall>u \<ge> at. v u = wave (sd_width sd) (sd_value sd) (stream ?c) u" using assms by (simp_all add: tracks_def)
  note peek = peek_stream [OF r]
  show ?thesis
  proof (cases "first_time (stream ?c) = Some at")
    case False
    have later: "\<forall>e \<in> set (stream ?c). at < ev_fs e"
      using False low reading_facts(1) [OF r] by (cases "stream ?c") (fastforce simp: order_le_less)+
    then have "advance_side rd k at sd = Inr sd"
      using False by (cases "stream ?c") (simp_all add: advance_side_def peek)
    then show ?thesis using tracks_still [OF assms later] assms later by blast
  next
    case True
    then have ne: "run_of at (stream ?c) \<noteq> []" by (cases "stream ?c") auto
    obtain c' where c': "take_group rd (Some (sd_width sd)) k at ?c group0 = Inr (c', fold_run (Some (sd_width sd)) (run_of at (stream ?c)) group0)"
      "reading c'" "stream c' = after_run at (stream ?c)" using take_group_exact [OF r low k] by blast
    let ?sd = "sd\<lparr>sd_cursor := c', sd_value := bit_value (value_json (ev_val (last (run_of at (stream ?c))))) (Some (sd_width sd))\<rparr>"
    have adv: "advance_side rd k at sd = Inr ?sd"
      using True c'(1) by (simp add: advance_side_def peek fold_run_value [OF ne])
    have split: "run_of at (stream ?c) @ after_run at (stream ?c) = stream ?c" by (simp add: run_of_def after_run_def)
    have after: "\<forall>e \<in> set (stream c'). at < ev_fs e"
      unfolding c'(3) using reading_facts(1) [OF r] low by (rule after_run_later)
    have at: "filter (\<lambda>e. ev_fs e \<le> at) (stream ?c) = run_of at (stream ?c)"
      using reading_facts(1) [OF r] low by (rule run_of_past)
    have now: "v at = sd_value ?sd" using v ne by (simp add: wave_def Let_def at)
    have "tracks v k at ?sd"
    proof -
      have "length (stream c') < length (stream ?c)" unfolding c'(3) using ne split by (metis length_append length_greater_0_conv less_add_same_cancel2)
      then have "turns c' < k" using k by (auto simp: turns_def split: if_splits)
      moreover have "v u = wave (sd_width sd) (v at) (stream c') u" if "at \<le> u" for u
        using wave_run [OF reading_facts(1) [OF r] low that, of "sd_width sd" "sd_value sd"] v that by (simp add: c'(3))
      ultimately show ?thesis using c'(2) after now by (auto simp: tracks_def less_imp_le)
    qed
    moreover have "later_events at ?sd = later_events at sd"
    proof -
      have "filter (\<lambda>e. at < ev_fs e) (stream ?c) = filter (\<lambda>e. at < ev_fs e) (run_of at (stream ?c) @ stream c')"
        unfolding c'(3) split ..
      moreover have "\<forall>e \<in> set (run_of at (stream ?c)). ev_fs e = at" by (auto simp: run_of_def dest: set_takeWhileD)
      ultimately show ?thesis by (simp add: later_events_def)
    qed
    ultimately show ?thesis using adv now after by (intro exI [of _ ?sd]) simp
  qed
qed

lemma recording_none: "reading (sd_cursor sd) \<Longrightarrow> recording_rows at sd gs = gs"
  by (simp add: recording_rows_def reading_facts(2))

lemma advance_both_tracks:
  assumes "tracks va k (sp_at s) (sp_a s)" "tracks vb k (sp_at s) (sp_b s)"
  shows "\<exists>s'. advance_both rd k s = (None, s') \<and> sp_at s' = sp_at s \<and> sp_gaps s' = sp_gaps s \<and>
     sd_value (sp_a s') = va (sp_at s) \<and> sd_value (sp_b s') = vb (sp_at s) \<and>
     tracks va k (sp_at s) (sp_a s') \<and> tracks vb k (sp_at s) (sp_b s') \<and>
     (\<forall>e \<in> set (stream (sd_cursor (sp_a s'))) \<union> set (stream (sd_cursor (sp_b s'))). sp_at s < ev_fs e) \<and>
     later_events (sp_at s) (sp_a s') = later_events (sp_at s) (sp_a s) \<and>
     later_events (sp_at s) (sp_b s') = later_events (sp_at s) (sp_b s)"
proof -
  obtain a where a: "advance_side rd k (sp_at s) (sp_a s) = Inr a" "sd_value a = va (sp_at s)" "tracks va k (sp_at s) a"
    "\<forall>e \<in> set (stream (sd_cursor a)). sp_at s < ev_fs e" "later_events (sp_at s) a = later_events (sp_at s) (sp_a s)"
    using advance_tracks [OF assms(1)] by blast
  obtain b where b: "advance_side rd k (sp_at s) (sp_b s) = Inr b" "sd_value b = vb (sp_at s)" "tracks vb k (sp_at s) b"
    "\<forall>e \<in> set (stream (sd_cursor b)). sp_at s < ev_fs e" "later_events (sp_at s) b = later_events (sp_at s) (sp_b s)"
    using advance_tracks [OF assms(2)] by blast
  have "reading (sd_cursor a)" "reading (sd_cursor b)" using a(3) b(3) by (simp_all add: tracks_def)
  then have "advance_both rd k s = (None, s\<lparr>sp_a := a, sp_b := b\<rparr>)"
    using a(1) b(1) by (simp add: advance_both_def Let_def recording_none)
  then show ?thesis using a b by (intro exI [of _ "s\<lparr>sp_a := a, sp_b := b\<rparr>"]) auto
qed

lemma tracks_constant:
  assumes "tracks v k at sd" "\<forall>e \<in> set (stream (sd_cursor sd)). u < ev_fs e" "at \<le> u" shows "v u = sd_value sd"
  using assms wave_before [OF assms(2)] by (simp add: tracks_def)

lemma tracks_later:
  assumes "tracks v k at sd" "\<forall>e \<in> set (stream (sd_cursor sd)). t \<le> ev_fs e" "at \<le> t" shows "tracks v k t sd"
  using assms by (simp add: tracks_def)

text \<open>The time of the next turn bounds the events of both sides, and one of them has an event there.\<close>

lemma upcoming_bounds:
  assumes "reading (sd_cursor (sp_a s))" "reading (sd_cursor (sp_b s))"
  shows "upcoming s = None \<Longrightarrow> stream (sd_cursor (sp_a s)) = [] \<and> stream (sd_cursor (sp_b s)) = []"
    "upcoming s = Some t \<Longrightarrow> (\<forall>e \<in> set (stream (sd_cursor (sp_a s))) \<union> set (stream (sd_cursor (sp_b s))). t \<le> ev_fs e) \<and>
       (\<exists>e \<in> set (stream (sd_cursor (sp_a s))) \<union> set (stream (sd_cursor (sp_b s))). ev_fs e = t)"
proof -
  let ?a = "stream (sd_cursor (sp_a s))" and ?b = "stream (sd_cursor (sp_b s))"
  note up = upcoming_def [of s, unfolded peek_stream [OF assms(1)] peek_stream [OF assms(2)]]
  have sorted: "sorted (map ev_fs ?a)" "sorted (map ev_fs ?b)" using assms reading_facts(1) by blast+
  show "upcoming s = None \<Longrightarrow> ?a = [] \<and> ?b = []"
    unfolding up by (cases ?a; cases ?b) simp_all
  show "(\<forall>e \<in> set ?a \<union> set ?b. t \<le> ev_fs e) \<and> (\<exists>e \<in> set ?a \<union> set ?b. ev_fs e = t)" if "upcoming s = Some t"
    using that sorted unfolding up by (cases ?a; cases ?b) (auto simp: min_def split: if_splits)
qed

lemma later_events_drop:
  assumes "\<forall>e \<in> set (stream (sd_cursor sd)). at < ev_fs e" "at \<le> t"
  shows "later_events t sd \<le> later_events at sd"
    "e \<in> set (stream (sd_cursor sd)) \<Longrightarrow> ev_fs e = t \<Longrightarrow> later_events t sd < later_events at sd"
proof -
  have all: "later_events at sd = length (stream (sd_cursor sd))" using assms(1) by (simp add: later_events_def)
  show "later_events t sd \<le> later_events at sd" unfolding all by (simp add: later_events_def)
  show "later_events t sd < later_events at sd" if "e \<in> set (stream (sd_cursor sd))" "ev_fs e = t"
    using that by (simp only: all, simp only: later_events_def, intro length_filter_less [of e]) simp_all
qed

theorem page_loop_scanned:
  assumes "tracks va k (sp_at s) (sp_a s)" "tracks vb k (sp_at s) (sp_b s)" "page_log.value_rows_by (sp_at s) (sp_gaps s)"
    "later_events (sp_at s) (sp_a s) + later_events (sp_at s) (sp_b s) < m" "sp_at s \<le> stop"
  shows "\<exists>s'. page_loop rd k stop m s = (None, s') \<and> page_log.scanned va vb (sp_at s) stop (sp_gaps s) (sp_hit s') (sp_gaps s') \<and> sp_examined s'"
  using assms
proof (induction m arbitrary: s)
  case 0
  then show ?case by simp
next
  case (Suc m)
  let ?lo = "sp_at s"
  obtain s1 where s1: "advance_both rd k s = (None, s1)" "sp_at s1 = ?lo" "sp_gaps s1 = sp_gaps s"
    "sd_value (sp_a s1) = va ?lo" "sd_value (sp_b s1) = vb ?lo" "tracks va k ?lo (sp_a s1)" "tracks vb k ?lo (sp_b s1)"
    "\<forall>e \<in> set (stream (sd_cursor (sp_a s1))) \<union> set (stream (sd_cursor (sp_b s1))). ?lo < ev_fs e"
    "later_events ?lo (sp_a s1) = later_events ?lo (sp_a s)" "later_events ?lo (sp_b s1) = later_events ?lo (sp_b s)"
    using advance_both_tracks [OF Suc.prems(1,2)] by blast
  define s2 where "s2 = judge s1"
  have "sd_value (sp_a s1) = va (sp_at s1)" "sd_value (sp_b s1) = vb (sp_at s1)" "page_log.value_rows_by (sp_at s1) (sp_gaps s1)"
    using s1(2-5) Suc.prems(3) by simp_all
  note j = judge_exact [where va = va and vb = vb, OF this, folded s2_def, unfolded s1(2,3)]
  have read: "reading (sd_cursor (sp_a s2))" "reading (sd_cursor (sp_b s2))" using s1(6,7) j(1,2) by (simp_all add: tracks_def)
  have const: "va u = va ?lo \<and> vb u = vb ?lo"
    if "?lo \<le> u" "\<forall>e \<in> set (stream (sd_cursor (sp_a s2))) \<union> set (stream (sd_cursor (sp_b s2))). u < ev_fs e" for u
    using tracks_constant [OF s1(6) _ that(1)] tracks_constant [OF s1(7) _ that(1)] that(2) s1(4,5) j(1,2) by simp
  have step: "page_loop rd k stop (Suc m) s = (if sp_hit s2 \<noteq> None then (None, s2)
      else (case upcoming s2 of None \<Rightarrow> (None, s2) | Some t \<Rightarrow> page_loop rd k stop m (s2\<lparr>sp_at := t\<rparr>)))"
    using s1(1) Suc.prems(5) unfolding s2_def by (simp add: Let_def)
  note here = page_log.scanned_here [OF _ Suc.prems(5) j(8) j(6) j(7)]
  consider (found) "sp_hit s2 \<noteq> None" | (last) "sp_hit s2 = None" "upcoming s2 = None"
    | (past) t where "sp_hit s2 = None" "upcoming s2 = Some t" "stop < t"
    | (more) t where "sp_hit s2 = None" "upcoming s2 = Some t" "t \<le> stop" by force
  then show ?case
  proof cases
    case found
    have "page_log.scanned va vb ?lo stop (sp_gaps s) (sp_hit s2) (sp_gaps s2)"
      by (rule here) (use found in simp)
    then show ?thesis using step found j(4) by simp
  next
    case last
    have e: "stream (sd_cursor (sp_a s2)) = [] \<and> stream (sd_cursor (sp_b s2)) = []" using upcoming_bounds(1) [OF read] last by blast
    have "\<forall>t. ?lo \<le> t \<and> t \<le> stop \<longrightarrow> va t = va ?lo \<and> vb t = vb ?lo" by (intro allI impI, rule const) (simp_all add: e)
    then have "page_log.scanned va vb ?lo stop (sp_gaps s) (sp_hit s2) (sp_gaps s2)" by (rule here)
    then show ?thesis using step last j(4) by simp
  next
    case past
    note up = upcoming_bounds(2) [OF read past(2)]
    have "\<forall>u. ?lo \<le> u \<and> u \<le> stop \<longrightarrow> va u = va ?lo \<and> vb u = vb ?lo"
      by (intro allI impI, rule const, simp, intro ballI, rule less_le_trans [of _ t]) (use up past(3) in auto)
    then have "page_log.scanned va vb ?lo stop (sp_gaps s) (sp_hit s2) (sp_gaps s2)" by (rule here)
    moreover have "m \<noteq> 0"
    proof
      assume "m = 0"
      then have "later_events ?lo (sp_a s2) = 0" "later_events ?lo (sp_b s2) = 0" using Suc.prems(4) s1(9,10) j(1,2) by simp_all
      then show False using up s1(8) j(1,2) by (auto simp: later_events_def filter_empty_conv)
    qed
    then have "page_loop rd k stop m (s2\<lparr>sp_at := t\<rparr>) = (None, s2\<lparr>sp_at := t\<rparr>)" using past(3) by (cases m) simp_all
    ultimately show ?thesis using step past j(4) by simp
  next
    case more
    note up = upcoming_bounds(2) [OF read more(2)]
    let ?n = "s2\<lparr>sp_at := t\<rparr>"
    have lt: "?lo < t" using up s1(8) j(1,2) by auto
    have sides: "sp_a ?n = sp_a s1" "sp_b ?n = sp_b s1" "sp_at ?n = t" "sp_gaps ?n = sp_gaps s2" using j(1,2) by simp_all
    have "tracks va k t (sp_a s1)" "tracks vb k t (sp_b s1)"
      using tracks_later [OF s1(6)] tracks_later [OF s1(7)] up lt j(1,2) by simp_all
    moreover have "page_log.value_rows_by t (sp_gaps s2)" using j(5) lt page_log.value_rows_later by fastforce
    moreover have "later_events t (sp_a s1) + later_events t (sp_b s1) < m"
    proof -
      have above: "\<forall>e \<in> set (stream (sd_cursor (sp_a s1))). ?lo < ev_fs e" "\<forall>e \<in> set (stream (sd_cursor (sp_b s1))). ?lo < ev_fs e"
        using s1(8) by simp_all
      note a = later_events_drop [OF above(1) less_imp_le [OF lt]] and b = later_events_drop [OF above(2) less_imp_le [OF lt]]
      have "later_events t (sp_a s1) + later_events t (sp_b s1) < later_events ?lo (sp_a s1) + later_events ?lo (sp_b s1)"
        using up a b j(1,2) by (auto intro: add_less_le_mono add_le_less_mono)
      then show ?thesis using Suc.prems(4) s1(9,10) by simp
    qed
    ultimately obtain s' where s': "page_loop rd k stop m ?n = (None, s')" "page_log.scanned va vb t stop (sp_gaps s2) (sp_hit s') (sp_gaps s')" "sp_examined s'"
      using Suc.IH [of ?n] more(3) unfolding sides by blast
    have "\<forall>u. ?lo \<le> u \<and> u < t \<longrightarrow> va u = va ?lo \<and> vb u = vb ?lo"
      by (intro allI impI, rule const, simp, intro ballI, rule less_le_trans [of _ t]) (use up in auto)
    moreover have "\<not> differ va vb ?lo" using j(8) more(1) by (auto split: if_splits)
    ultimately have "page_log.scanned va vb ?lo stop (sp_gaps s) (sp_hit s') (sp_gaps s')"
      using page_log.scanned_step [OF s'(2) lt _ _ more(3) j(6) j(7)] by blast
    then show ?thesis using step more s' by simp
  qed
qed

end

end
