(* ===== verification/Compare_Claims.thy ===== *)
theory Compare_Claims
  imports Compare_Laws Event_Pages_Claims
begin

text \<open>
  The first difference of two signals of two dumps: what \<open>_compare_pages\<close> answers, in terms of the
  recorded changes of the two signals.
\<close>

section \<open>From the search to the result\<close>

lemma finish_status:
  assumes "cr_status r0 = ''inconclusive''" "\<not> cr_diverged r0" "cr_time_fs r0 = None"
  shows "cr_status (finish_pages sa sb stop s r0) = (case sp_hit s of Some _ \<Rightarrow> ''different''
      | None \<Rightarrow> if sp_examined s \<and> sp_gaps s = [] then ''equal'' else ''inconclusive'')"
    "cr_diverged (finish_pages sa sb stop s r0) = (sp_hit s \<noteq> None)"
    "sp_hit s = None \<Longrightarrow> cr_time_fs (finish_pages sa sb stop s r0) = None"
    "sp_hit s = Some h \<Longrightarrow> cr_time_fs (finish_pages sa sb stop s r0) = Some (hi_at h) \<and>
       cr_value_a (finish_pages sa sb stop s r0) = hi_value_a h \<and> cr_value_b (finish_pages sa sb stop s r0) = hi_value_b h \<and>
       cr_earliest (finish_pages sa sb stop s r0) = hi_earliest h"
  using assms by (auto simp: finish_pages_def Let_def record_hit_def split: option.splits)

section \<open>Two signals of two dumps\<close>

text \<open>The value of a symbol at a time in fs: that of the last change recorded not after it.\<close>

definition vcd_wave :: "vcd \<Rightarrow> string \<Rightarrow> int \<Rightarrow> int \<Rightarrow> string option" where
  "vcd_wave st s w t = wave w None (recorded st s) t"

lemma filter_sorted_split:
  assumes "sorted (map ev_fs es)" "lo \<le> u"
  shows "filter (\<lambda>e. ev_fs e \<le> u) es = filter (\<lambda>e. ev_fs e < lo) es @ filter (\<lambda>e. lo \<le> ev_fs e \<and> ev_fs e \<le> u) es"
  using assms
proof (induction es)
  case (Cons a es)
  show ?case
  proof (cases "ev_fs a < lo")
    case True
    then show ?thesis using Cons by auto
  next
    case False
    then have "filter (\<lambda>e. ev_fs e < lo) (a # es) = []" using Cons.prems by (auto simp: filter_empty_conv)
    moreover have "lo \<le> ev_fs e" if "e \<in> set (a # es)" for e using False Cons.prems that by auto
    then have "filter (\<lambda>e. ev_fs e \<le> u) (a # es) = filter (\<lambda>e. lo \<le> ev_fs e \<and> ev_fs e \<le> u) (a # es)"
      by (intro filter_cong) auto
    ultimately show ?thesis by simp
  qed
qed simp

lemma wave_window:
  assumes "sorted (map ev_fs (recorded st s))" "start * 1000 \<le> u" "u \<le> window_end st stop"
    "v = (case last_of (filter (\<lambda>e. ev_fs e < start * 1000) (recorded st s)) of None \<Rightarrow> None
       | Some e \<Rightarrow> bit_value (value_json (ev_val e)) (Some w))"
  shows "wave w v (in_window st s start stop) u = vcd_wave st s w u"
proof -
  have "filter (\<lambda>e. ev_fs e \<le> u) (in_window st s start stop) = filter (\<lambda>e. start * 1000 \<le> ev_fs e \<and> ev_fs e \<le> u) (recorded st s)"
    using assms(3) by (auto simp: in_window_def filter_filter intro: filter_cong)
  then show ?thesis
    unfolding vcd_wave_def wave_def filter_sorted_split [OF assms(1,2)] using assms(4) by (simp add: Let_def last_of_def)
qed

lemma open_side_vcd:
  assumes "vcd_inv st" "vcd_resolve st path = Inr s" "open_reader st path start stop n b = Inr r"
    "\<forall>e \<in> set (recorded st s). event_size e < b" "2 * length (recorded st s) + 1 < k"
  shows "\<exists>v. vcd.tracks v k (start * 1000) (open_side read_page name (vcd_source st w r)) \<and>
      (\<forall>u. start * 1000 \<le> u \<and> u \<le> window_end st stop \<longrightarrow> v u = vcd_wave st s w u) \<and>
      vcd.later_events (start * 1000) (open_side read_page name (vcd_source st w r)) \<le> length (recorded st s)"
proof -
  let ?c = "open_cursor read_page 0 r" and ?anchor = "last_of (filter (\<lambda>e. ev_fs e < start * 1000) (recorded st s))"
  note a = opened_ahead [OF assms(1-4)] and r = opened_reader [OF assms(1-3)]
  note c = vcd.reading_open [OF a(1,3), of 0]
  have sorted: "sorted (map ev_fs (recorded st s))" using recorded_sorted(1) [OF assms(1) r(8)] .
  let ?v0 = "case ?anchor of None \<Rightarrow> None | Some e \<Rightarrow> bit_value (value_json (ev_val e)) (Some w)"
  have side: "open_side read_page name (vcd_source st w r) = \<lparr>sd_name = name, sd_width = w, sd_cursor = ?c, sd_value = ?v0\<rparr>"
    using opened_anchor [OF assms(1-4), of 0] by (simp add: open_side_def vcd_source_def Let_def split: option.split)
  have low: "\<forall>e \<in> set (vcd.stream ?c). start * 1000 \<le> ev_fs e" by (simp add: c(2) a(2) in_window_def)
  have len: "length (vcd.stream ?c) \<le> length (recorded st s)" using a(4) c(2) by simp
  then have "vcd.turns ?c < k" using assms(5) by (simp add: vcd.turns_def)
  then have "vcd.tracks (wave w ?v0 (in_window st s start stop)) k (start * 1000) (open_side read_page name (vcd_source st w r))"
    unfolding vcd.tracks_def side using c low a(2) by simp
  moreover have "vcd.later_events (start * 1000) (open_side read_page name (vcd_source st w r)) \<le> length (recorded st s)"
    unfolding vcd.later_events_def side using le_trans [OF length_filter_le len] by simp
  ultimately show ?thesis using wave_window [OF sorted _ _ refl] by blast
qed

text \<open>The gaps before the search: a range that ends before the requested one.\<close>

lemma page_result_fields [simp]:
  "\<not> cr_diverged (page_result args sa sb)" "cr_status (page_result args sa sb) = ''inconclusive''"
  "cr_time_fs (page_result args sa sb) = None" "\<not> cr_earliest (page_result args sa sb)"
  by (simp_all add: page_result_def Let_def split: prod.split)

lemma vcd_range_gaps:
  assumes "requested = requested_stop args [v_end_fs sta, v_end_fs stb]"
    "gs = cr_gaps (page_result args (vcd_source sta wa ra) (vcd_source stb wb rb))"
  shows "gs = [] \<longleftrightarrow> requested \<le> v_end_fs sta \<and> requested \<le> v_end_fs stb"
    "page_log.early t gs \<longleftrightarrow> (v_end_fs sta < requested \<and> v_end_fs sta \<le> t) \<or> (v_end_fs stb < requested \<and> v_end_fs stb \<le> t)"
    "page_log.value_rows_by t gs"
  using assms by (auto simp: page_result_def vcd_source_def source_ends_def range_gap_def page_gap_def Let_def
      page_log.early_def page_log.value_rows_by_def page_log.value_reason_def same_gap_def)

lemma page_stop_window:
  assumes "stop = page_stop args [v_end_fs sta, v_end_fs stb]" "ca_end args = end"
  shows "stop \<le> window_end sta end" "stop \<le> window_end stb end"
  using assms by (auto simp: page_stop_def window_end_def Let_def min_def)

theorem compare_pages_verdict:
  assumes inv: "vcd_inv sta" "vcd_inv stb"
    and sym: "vcd_resolve sta (ca_signal_a args) = Inr sa" "vcd_resolve stb (ca_signal_b args) = Inr sb"
    and rd: "open_reader sta (ca_signal_a args) (ca_start args) (ca_end args) n b = Inr ra"
      "open_reader stb (ca_signal_b args) (ca_start args) (ca_end args) n b = Inr rb"
    and small: "\<forall>e \<in> set (recorded sta sa). event_size e < b" "\<forall>e \<in> set (recorded stb sb). event_size e < b"
    and k: "2 * length (recorded sta sa) + 1 < k" "2 * length (recorded stb sb) + 1 < k"
    and m: "length (recorded sta sa) + length (recorded stb sb) < m"
    and stop: "stop = page_stop args [v_end_fs sta, v_end_fs stb]" "ca_start args * 1000 \<le> stop"
    and r0: "r0 = page_result args (vcd_source sta w ra) (vcd_source stb w rb)"
  shows "\<exists>s. compare_pages read_page k m args (vcd_source sta w ra) (vcd_source stb w rb) =
      Inr (finish_pages (vcd_source sta w ra) (vcd_source stb w rb) stop s r0) \<and> sp_examined s \<and>
    page_log.scanned (vcd_wave sta sa w) (vcd_wave stb sb w) (ca_start args * 1000) stop (cr_gaps r0) (sp_hit s) (sp_gaps s)"
proof -
  let ?A = "vcd_source sta w ra" and ?B = "vcd_source stb w rb" and ?lo = "ca_start args * 1000"
  let ?r0 = "page_result args ?A ?B"
  let ?s = "\<lparr>sp_a = open_side read_page ''a'' ?A, sp_b = open_side read_page ''b'' ?B, sp_at = ?lo,
    sp_examined = False, sp_gaps = cr_gaps ?r0, sp_hit = None\<rparr>"
  obtain va where a: "vcd.tracks va k ?lo (open_side read_page ''a'' ?A)"
    "\<forall>u. ?lo \<le> u \<and> u \<le> window_end sta (ca_end args) \<longrightarrow> va u = vcd_wave sta sa w u"
    "vcd.later_events ?lo (open_side read_page ''a'' ?A) \<le> length (recorded sta sa)"
    using open_side_vcd [OF inv(1) sym(1) rd(1) small(1) k(1)] by blast
  obtain vb where b: "vcd.tracks vb k ?lo (open_side read_page ''b'' ?B)"
    "\<forall>u. ?lo \<le> u \<and> u \<le> window_end stb (ca_end args) \<longrightarrow> vb u = vcd_wave stb sb w u"
    "vcd.later_events ?lo (open_side read_page ''b'' ?B) \<le> length (recorded stb sb)"
    using open_side_vcd [OF inv(2) sym(2) rd(2) small(2) k(2)] by blast
  have "\<exists>s'. page_loop read_page k stop m ?s = (None, s') \<and> page_log.scanned va vb (sp_at ?s) stop (sp_gaps ?s) (sp_hit s') (sp_gaps s') \<and> sp_examined s'"
    by (rule vcd.page_loop_scanned) (use a(1,3) b(1,3) m stop(2) vcd_range_gaps(3) [OF refl refl] in simp_all)
  then obtain s' where s': "page_loop read_page k stop m ?s = (None, s')" "page_log.scanned va vb ?lo stop (cr_gaps ?r0) (sp_hit s') (sp_gaps s')" "sp_examined s'"
    by auto
  have ends: "source_ends ?A ?B = [v_end_fs sta, v_end_fs stb]" "ps_width ?A = w" "ps_width ?B = w"
    by (simp_all add: source_ends_def vcd_source_def)
  have "compare_pages read_page k m args ?A ?B = Inr (finish_pages ?A ?B stop s' ?r0)"
    unfolding compare_pages_def Let_def ends stop(1) [symmetric] using s'(1) stop(2) by simp
  moreover have "page_log.scanned (vcd_wave sta sa w) (vcd_wave stb sb w) ?lo stop (cr_gaps ?r0) (sp_hit s') (sp_gaps s')"
  proof -
    have "\<forall>t. ?lo \<le> t \<and> t \<le> stop \<longrightarrow> va t = vcd_wave sta sa w t \<and> vb t = vcd_wave stb sb w t"
      using a(2) b(2) page_stop_window [OF stop(1) refl] by (meson order_trans)
    then show ?thesis using s'(2) page_log.scanned_cong by blast
  qed
  ultimately show ?thesis using s'(3) unfolding r0 by blast
qed

section \<open>The answer\<close>

text \<open>C6. Let two signals of two parsed dumps be compared over a window (in fs: from \<open>lo\<close> to \<open>stop\<close>, the end of
  the request or of the shorter dump). Whatever the page limits are, a difference is reported exactly if there is
  a time in the window, of an event or not, where both signals have known values that differ; the time reported is
  the first such time, with the values of the signals there; it is called proven to be the earliest exactly if up
  to then all values are known and the dumps are recorded; and the signals are called equal exactly if both dumps
  cover the request and at every time of the window both values are known and equal.\<close>

theorem comparison_exact:
  assumes dumps: "vcd_parse dump_a = Inr sta" "vcd_parse dump_b = Inr stb"
    and sym: "vcd_resolve sta (ca_signal_a args) = Inr sa" "vcd_resolve stb (ca_signal_b args) = Inr sb"
    and rd: "open_reader sta (ca_signal_a args) (ca_start args) (ca_end args) n b = Inr ra"
      "open_reader stb (ca_signal_b args) (ca_start args) (ca_end args) n b = Inr rb"
    and small: "\<forall>e \<in> set (recorded sta sa). event_size e < b" "\<forall>e \<in> set (recorded stb sb). event_size e < b"
    and k: "2 * length (recorded sta sa) + 1 < k" "2 * length (recorded stb sb) + 1 < k"
    and m: "length (recorded sta sa) + length (recorded stb sb) < m"
    and lo: "lo = ca_start args * 1000" and stop: "stop = page_stop args [v_end_fs sta, v_end_fs stb]"
    and req: "req = requested_stop args [v_end_fs sta, v_end_fs stb]"
    and va: "va = vcd_wave sta sa wa" and vb: "vb = vcd_wave stb sb wb"
  shows "\<exists>r. compare_pages read_page k m args (vcd_source sta wa ra) (vcd_source stb wb rb) = Inr r \<and>
    (cr_diverged r \<longleftrightarrow> wa = wb \<and> (\<exists>t. lo \<le> t \<and> t \<le> stop \<and> differ va vb t)) \<and>
    (\<forall>t. cr_time_fs r = Some t \<longrightarrow> lo \<le> t \<and> t \<le> stop \<and> differ va vb t \<and> (\<forall>u. lo \<le> u \<and> u < t \<longrightarrow> \<not> differ va vb u) \<and>
       cr_value_a r = va t \<and> cr_value_b r = vb t \<and>
       (cr_earliest r \<longleftrightarrow> both_known va vb lo t \<and> (req \<le> v_end_fs sta \<or> t < v_end_fs sta) \<and> (req \<le> v_end_fs stb \<or> t < v_end_fs stb))) \<and>
    (cr_diverged r \<longleftrightarrow> cr_time_fs r \<noteq> None) \<and>
    (cr_status r = ''equal'' \<longleftrightarrow> wa = wb \<and> lo \<le> stop \<and> req \<le> v_end_fs sta \<and> req \<le> v_end_fs stb \<and>
       both_known va vb lo stop \<and> (\<forall>t. lo \<le> t \<and> t \<le> stop \<longrightarrow> va t = vb t))"
proof (cases "wa = wb \<and> lo \<le> stop")
  case True
  have inv: "vcd_inv sta" "vcd_inv stb" using vcd_parse_inv dumps by blast+
  define r0 where "r0 = page_result args (vcd_source sta wa ra) (vcd_source stb wa rb)"
  obtain s where s: "compare_pages read_page k m args (vcd_source sta wa ra) (vcd_source stb wa rb) =
      Inr (finish_pages (vcd_source sta wa ra) (vcd_source stb wa rb) stop s r0)" "sp_examined s"
    "page_log.scanned va (vcd_wave stb sb wa) lo stop (cr_gaps r0) (sp_hit s) (sp_gaps s)"
    using compare_pages_verdict [OF inv sym rd small k m stop _ r0_def] True unfolding lo va by blast
  let ?r = "finish_pages (vcd_source sta wa ra) (vcd_source stb wa rb) stop s r0"
  have "cr_status r0 = ''inconclusive''" "\<not> cr_diverged r0" "cr_time_fs r0 = None" by (simp_all add: r0_def)
  note f = finish_status [OF this, where s = s] and v = page_log.scanned_verdict [OF s(3)]
  note gaps = vcd_range_gaps(1,2) [OF req arg_cong [OF r0_def, of cr_gaps]]
  have "cr_status ?r = ''equal'' \<longleftrightarrow> sp_hit s = None \<and> sp_gaps s = []" unfolding f(1) using s(2) by (simp split: option.split)
  moreover have "\<not> page_log.early t (cr_gaps r0) \<longleftrightarrow> (req \<le> v_end_fs sta \<or> t < v_end_fs sta) \<and> (req \<le> v_end_fs stb \<or> t < v_end_fs stb)" for t
    unfolding gaps(2) by linarith
  ultimately show ?thesis
    using s(1) True f(2-4) v unfolding vb gaps(1) by (cases "sp_hit s") auto
next
  case False
  have ends: "source_ends (vcd_source sta wa ra) (vcd_source stb wb rb) = [v_end_fs sta, v_end_fs stb]"
    "ps_width (vcd_source sta wa ra) = wa" "ps_width (vcd_source stb wb rb) = wb" by (simp_all add: source_ends_def vcd_source_def)
  have "\<exists>r. compare_pages read_page k m args (vcd_source sta wa ra) (vcd_source stb wb rb) = Inr r \<and>
     \<not> cr_diverged r \<and> cr_time_fs r = None \<and> cr_status r = ''inconclusive''"
    using False unfolding compare_pages_def Let_def ends stop [symmetric] lo [symmetric] by auto
  moreover have "\<not> (wa = wb \<and> (\<exists>t. lo \<le> t \<and> t \<le> stop \<and> differ va vb t))" using False by auto
  ultimately show ?thesis using False by auto
qed

definition dump_one :: string where
  "dump_one = ''$timescale 100fs $end $var wire 1 ! c $end #5 0! #20 1!''"

definition dump_zero :: string where
  "dump_zero = ''$timescale 100fs $end $var wire 1 ! c $end #5 0! #20 0!''"

definition demo_args :: cmp_args where
  "demo_args = \<lparr>ca_wave_a = ''a.vcd'', ca_signal_a = ''c'', ca_wave_b = ''b.vcd'', ca_signal_b = ''c'', ca_start = 1, ca_end = - 1\<rparr>"

lemma compared_words: "words dump_one = [''$timescale'', ''100fs'', ''$end'', ''$var'', ''wire'', ''1'', ''!'', ''c'', ''$end'', ''#5'', ''0!'', ''#20'', ''1!'']"
  "words dump_zero = [''$timescale'', ''100fs'', ''$end'', ''$var'', ''wire'', ''1'', ''!'', ''c'', ''$end'', ''#5'', ''0!'', ''#20'', ''0!'']"
  by code_simp+

lemma compared_tokens: "iter_tokens TOKEN_CHUNK_CHARS dump_one = words dump_one" "iter_tokens TOKEN_CHUNK_CHARS dump_zero = words dump_zero"
  by (rule iter_tokens_words, simp add: TOKEN_CHUNK_CHARS_def)+

lemma compared_header: "vcd_header dump_one = Inr (vcd_init\<lparr>v_timescale_raw := Some ''100fs'', v_timescale_fs := 100\<rparr>)"
  "vcd_header dump_zero = Inr (vcd_init\<lparr>v_timescale_raw := Some ''100fs'', v_timescale_fs := 100\<rparr>)"
  by code_simp+

lemma compared_parse: "ebind (vcd_parse_tokens (vcd_init\<lparr>v_timescale_raw := Some ''100fs'', v_timescale_fs := 100\<rparr>)
    [''$timescale'', ''100fs'', ''$end'', ''$var'', ''wire'', ''1'', ''!'', ''c'', ''$end'', ''#5'', ''0!'', ''#20'', ''1!''])
    (\<lambda>st. Inr (vcd_resolve st ''c'', recorded st ''!'', v_end_fs st, ebind (open_reader st ''c'' 1 (- 1) 1 128) (\<lambda>r. Inr (rd_index r)))) =
   Inr (Inr ''!'', [transition 500 1 ''0'', transition 2000 2 ''1''], 2000, Inr 1)"
  "ebind (vcd_parse_tokens (vcd_init\<lparr>v_timescale_raw := Some ''100fs'', v_timescale_fs := 100\<rparr>)
    [''$timescale'', ''100fs'', ''$end'', ''$var'', ''wire'', ''1'', ''!'', ''c'', ''$end'', ''#5'', ''0!'', ''#20'', ''0!''])
    (\<lambda>st. Inr (vcd_resolve st ''c'', recorded st ''!'', v_end_fs st, ebind (open_reader st ''c'' 1 (- 1) 1 128) (\<lambda>r. Inr (rd_index r)))) =
   Inr (Inr ''!'', [transition 500 1 ''0'', transition 2000 2 ''0''], 2000, Inr 1)"
  by code_simp+

lemma comparison_exact_witness:
  "\<exists>sta stb ra rb r. vcd_parse dump_one = Inr sta \<and> vcd_parse dump_zero = Inr stb \<and>
     compare_pages read_page 6 5 demo_args (vcd_source sta 1 ra) (vcd_source stb 1 rb) = Inr r \<and> cr_diverged r \<and> cr_time_fs r = Some 2000"
proof -
  obtain sta ra where a: "vcd_parse dump_one = Inr sta" "vcd_resolve sta ''c'' = Inr ''!''"
    "recorded sta ''!'' = [transition 500 1 ''0'', transition 2000 2 ''1'']" "v_end_fs sta = 2000" "open_reader sta ''c'' 1 (- 1) 1 128 = Inr ra"
    using compared_parse(1) by (auto simp: vcd_parse_def compared_tokens compared_words compared_header ebind_Inr_iff)
  obtain stb rb where b: "vcd_parse dump_zero = Inr stb" "vcd_resolve stb ''c'' = Inr ''!''"
    "recorded stb ''!'' = [transition 500 1 ''0'', transition 2000 2 ''0'']" "v_end_fs stb = 2000" "open_reader stb ''c'' 1 (- 1) 1 128 = Inr rb"
    using compared_parse(2) by (auto simp: vcd_parse_def compared_tokens compared_words compared_header ebind_Inr_iff)
  have small: "\<forall>e \<in> set (recorded sta ''!''). event_size e < 128" "\<forall>e \<in> set (recorded stb ''!''). event_size e < 128"
    by (simp_all add: a(3) b(3) event_size_def)
  have stop: "page_stop demo_args [v_end_fs sta, v_end_fs stb] = 2000" by (simp add: page_stop_def demo_args_def a(4) b(4))
  have bits: "bit_value (JStr ''0'') (Some 1) = Some ''0''" "bit_value (JStr ''1'') (Some 1) = Some ''1''" by code_simp+
  have wave: "vcd_wave sta ''!'' 1 t = (if t < 500 then None else if t < 2000 then Some ''0'' else Some ''1'')"
    "vcd_wave stb ''!'' 1 t = (if t < 500 then None else Some ''0'')" for t
    by (auto simp: vcd_wave_def wave_def a(3) b(3) value_json_def bits)
  have args: "vcd_resolve sta (ca_signal_a demo_args) = Inr ''!''" "vcd_resolve stb (ca_signal_b demo_args) = Inr ''!''"
    "open_reader sta (ca_signal_a demo_args) (ca_start demo_args) (ca_end demo_args) 1 128 = Inr ra"
    "open_reader stb (ca_signal_b demo_args) (ca_start demo_args) (ca_end demo_args) 1 128 = Inr rb"
    using a b by (simp_all add: demo_args_def)
  have fuel: "2 * length (recorded sta ''!'') + 1 < 6" "2 * length (recorded stb ''!'') + 1 < 6"
    "length (recorded sta ''!'') + length (recorded stb ''!'') < 5" and lo: "1000 = ca_start demo_args * 1000"
    by (simp_all add: a(3) b(3) demo_args_def)
  obtain r where r: "compare_pages read_page 6 5 demo_args (vcd_source sta 1 ra) (vcd_source stb 1 rb) = Inr r"
    "cr_diverged r \<longleftrightarrow> (\<exists>t. 1000 \<le> t \<and> t \<le> 2000 \<and> differ (vcd_wave sta ''!'' 1) (vcd_wave stb ''!'' 1) t)"
    "\<forall>t. cr_time_fs r = Some t \<longrightarrow> 1000 \<le> t \<and> t \<le> 2000 \<and> differ (vcd_wave sta ''!'' 1) (vcd_wave stb ''!'' 1) t"
    "cr_diverged r \<longleftrightarrow> cr_time_fs r \<noteq> None"
    using comparison_exact [where wa = 1 and wb = 1, OF a(1) b(1) args small fuel lo stop [symmetric] refl refl refl] by auto
  have at: "differ (vcd_wave sta ''!'' 1) (vcd_wave stb ''!'' 1) t \<longleftrightarrow> 2000 \<le> t" for t by (auto simp: differ_def wave known_def)
  have d: "cr_diverged r" unfolding r(2) at by (intro exI [of _ 2000]) simp
  then obtain t where t: "cr_time_fs r = Some t" using r(4) by auto
  then have "t = 2000" using r(3) at by fastforce
  then show ?thesis using a(1) b(1) r(1) d t by blast
qed

end
