(* ===== verification/Compare_Stream.thy ===== *)
theory Compare_Stream
  imports Compare_Pages
begin

text \<open>
  src/src/divergence_compare.py: \<open>SignalStream\<close>, \<open>read_stream\<close> and the comparison over materialised streams
  (\<open>_compare_legacy\<close>), and \<open>compare_signals\<close>, which chooses between it and the paged one;
  \<open>clock_edges\<close> of src/src/dynamic_observe.py and the comparison at aligned clock edges of
  src/src/divergence_clock.py. The times of these searches are picoseconds.

  A parser is code behind an interface: what its methods answer for the signal of a stream (or that they
  raise) are arguments. \<open>file_identity\<close> asks the file system; of how many files the identity changed during
  the call is an argument as well.
\<close>

section \<open>Streams\<close>

record stream_event =
  se_ps :: int
  se_fs :: "int option"
  se_value :: json

record raw_read =
  rw_transitions :: "stream_event list"
  rw_predecessor :: "stream_event option"
  rw_initial :: "stream_event option"
  rw_gaps :: "recording_gap list"
  rw_truncated :: bool
  rw_end_ps :: "int option"

text \<open>The keys of a header that are read; \<open>su_timescale_fs\<close> is \<open>int(summary["timescale_ps"] * 1000)\<close>.\<close>

record wave_summary =
  su_duration :: "int option"
  su_scale :: "int option"
  su_timescale_fs :: "int option"

record sig_stream =
  sg_transitions :: "stream_event list"
  sg_predecessor :: "stream_event option"
  sg_initial :: "stream_event option"
  sg_gaps :: "recording_gap list"
  sg_start_fs :: int
  sg_width :: "int option"
  sg_end :: int
  sg_scale :: "int option"
  sg_range_known :: bool
  sg_truncated :: bool
  sg_safe_before :: "int option"
  sg_missing :: bool
  sg_error :: "string option"

definition empty_stream :: "int \<Rightarrow> sig_stream" where
  "empty_stream start = \<lparr>sg_transitions = [], sg_predecessor = None, sg_initial = None, sg_gaps = [], sg_start_fs = start * 1000,
     sg_width = None, sg_end = - 1, sg_scale = None, sg_range_known = False, sg_truncated = False, sg_safe_before = None,
     sg_missing = False, sg_error = None\<rparr>"

definition read_error :: "py_error \<Rightarrow> sig_stream \<Rightarrow> sig_stream" where
  "read_error e s = (case e of KeyError _ \<Rightarrow> s\<lparr>sg_missing := True, sg_error := Some ''signal_not_found''\<rparr>
     | _ \<Rightarrow> s\<lparr>sg_error := Some ''read_failed''\<rparr>)"

definition take_raw :: "int \<Rightarrow> raw_read \<Rightarrow> sig_stream \<Rightarrow> sig_stream" where
  "take_raw start r s = s\<lparr>sg_transitions := rw_transitions r, sg_predecessor := rw_predecessor r, sg_initial := rw_initial r,
     sg_gaps := rw_gaps r, sg_truncated := rw_truncated r,
     sg_safe_before := (if rw_truncated r
        then Some (if rw_transitions r \<noteq> [] then se_ps (last (rw_transitions r)) else start) else None)\<rparr>"

definition take_header :: "wave_summary \<Rightarrow> sig_stream \<Rightarrow> sig_stream" where
  "take_header h s = (let d = (case su_duration h of None \<Rightarrow> - 1 | Some x \<Rightarrow> x)
     in s\<lparr>sg_end := d, sg_range_known := (d \<ge> 0),
          sg_scale := (case su_scale h of Some x \<Rightarrow> Some x | None \<Rightarrow> su_timescale_fs h)\<rparr>)"

definition take_end :: "raw_read \<Rightarrow> sig_stream \<Rightarrow> sig_stream" where
  "take_end r s = (if sg_end s < 0
     then (let d = (case rw_end_ps r of None \<Rightarrow> - 1 | Some x \<Rightarrow> x)
           in s\<lparr>sg_end := (if d < 0 then (case sg_transitions s of [] \<Rightarrow> 0
                | e # es \<Rightarrow> fold max (map se_ps es) (se_ps e)) else d)\<rparr>)
     else s)"

definition drop_bad_width :: "sig_stream \<Rightarrow> sig_stream" where
  "drop_bad_width s = (case sg_width s of Some w \<Rightarrow> if w < 1 then s\<lparr>sg_width := None\<rparr> else s | None \<Rightarrow> s)"

text \<open>
  The answers of the parser: the transitions of the window (by either method), the width (\<open>None\<close> where the
  parser has no such method) and the header (likewise).
\<close>

definition read_stream :: "int \<Rightarrow> raw_read result \<Rightarrow> int option result \<Rightarrow> wave_summary option result \<Rightarrow> sig_stream" where
  "read_stream start raw width header =
     (case raw of Inl e \<Rightarrow> read_error e (empty_stream start)
      | Inr r \<Rightarrow> (let s1 = take_raw start r (empty_stream start) in
          case width of Inl e \<Rightarrow> read_error e s1
          | Inr w \<Rightarrow> (let s2 = s1\<lparr>sg_width := w\<rparr> in
              case header of Inl e \<Rightarrow> read_error e s2
              | Inr h \<Rightarrow> drop_bad_width (take_end r (case h of None \<Rightarrow> s2 | Some sm \<Rightarrow> take_header sm s2)))))"

text \<open>\<open>_seed\<close>: the value at the start, asked from the parser if the stream does not tell. A failure is noted on the stream.\<close>

fun seed_value :: "int \<Rightarrow> json \<Rightarrow> stream_event list \<Rightarrow> json" where
  "seed_value start v [] = v"
| "seed_value start v (e # es) = (if se_ps e > start then v else seed_value start (se_value e) es)"

definition stream_seed :: "(int \<Rightarrow> json result) \<Rightarrow> int \<Rightarrow> sig_stream \<Rightarrow> string option \<times> sig_stream" where
  "stream_seed lookup start s =
     (if sg_error s \<noteq> None then (None, s)
      else (let v = seed_value start (case sg_predecessor s of None \<Rightarrow> JNull | Some e \<Rightarrow> se_value e) (sg_transitions s) in
        if v = JNull then (case lookup start of
            Inr v' \<Rightarrow> (bit_value v' (sg_width s), s)
          | Inl e \<Rightarrow> (None, read_error e s))
        else (bit_value v (sg_width s), s)))"

section \<open>The comparison of materialised streams\<close>

definition stream_gap :: "string \<Rightarrow> string \<Rightarrow> int \<Rightarrow> gap_row list \<Rightarrow> gap_row list" where
  "stream_gap r s at gs =
     (if list_ex (same_gap r s) gs
      then update_first (same_gap r s)
        (\<lambda>g. g\<lparr>gp_end_ps := Some (max (case gp_end_ps g of None \<Rightarrow> gp_start_ps g | Some e \<Rightarrow> e) at)\<rparr>) gs
      else gs @ [\<lparr>gp_reason = r, gp_side = s, gp_start_ps = at, gp_start_fs = None, gp_end_ps = None\<rparr>])"

definition available_ends :: "sig_stream \<Rightarrow> sig_stream \<Rightarrow> int list" where
  "available_ends a b = map sg_end (filter (\<lambda>s. sg_error s = None \<and> sg_end s \<ge> 0) [a, b])"

definition effective_end :: "int \<Rightarrow> int \<Rightarrow> int list \<Rightarrow> int" where
  "effective_end start stop ends =
     (let e = (if ends \<noteq> [] then min_list ends else start - 1) in if stop \<ge> 0 then min e stop else e)"

definition requested_end :: "int \<Rightarrow> int \<Rightarrow> int list \<Rightarrow> int" where
  "requested_end stop effective ends =
     (if stop \<ge> 0 then stop else (case ends of [] \<Rightarrow> effective | e # es \<Rightarrow> fold max es e))"

definition stream_rows :: "int \<Rightarrow> int \<Rightarrow> string \<Rightarrow> sig_stream \<Rightarrow> gap_row list \<times> excluded_row list \<Rightarrow> gap_row list \<times> excluded_row list" where
  "stream_rows start requested side s = (\<lambda>(gs, xs).
     let g1 = (case sg_error s of Some e \<Rightarrow> stream_gap e side start gs | None \<Rightarrow> gs);
         g2 = (if sg_width s = None \<and> sg_error s = None then stream_gap ''signal_width_unavailable'' side start g1 else g1);
         g3 = (if \<not> sg_range_known s \<and> sg_error s = None then stream_gap ''recorded_range_unavailable'' side start g2 else g2);
         g4 = (case sg_scale s of Some x \<Rightarrow> if x < 1000 then stream_gap ''time_precision_loss'' side start g3 else g3 | None \<Rightarrow> g3);
         g5 = (if sg_truncated s then stream_gap ''transition_data_truncated'' side
                 (case sg_safe_before s of None \<Rightarrow> start | Some t \<Rightarrow> t) g4 else g4)
     in if sg_end s \<ge> 0 \<and> requested > sg_end s
        then (stream_gap ''outside_recorded_range'' side (sg_end s) g5,
              xs @ [\<lparr>xr_side = side, xr_start_ps = sg_end s, xr_end_ps = requested\<rparr>])
        else (g5, xs))"

record scan_side =
  sn_name :: string
  sn_stream :: sig_stream
  sn_value :: "string option"
  sn_last :: "int option"
  sn_rest :: "stream_event list"

record scan =
  sc_a :: scan_side
  sc_b :: scan_side
  sc_at :: int
  sc_compared :: nat
  sc_examined :: bool
  sc_gaps :: "gap_row list"
  sc_hit :: "cmp_hit option"

text \<open>The inner loop: the events not after \<open>at\<close>; it stops at an event that is out of order.\<close>

fun consume_to :: "int \<Rightarrow> int option \<Rightarrow> string option \<Rightarrow> int option \<Rightarrow> stream_event list \<Rightarrow> nat
    \<Rightarrow> string option \<times> int option \<times> stream_event list \<times> nat \<times> bool" where
  "consume_to at w v l [] n = (v, l, [], n, False)"
| "consume_to at w v l (e # es) n =
     (if se_ps e > at then (v, l, e # es, n, False)
      else if (case l of None \<Rightarrow> False | Some p \<Rightarrow> se_ps e < p) then (v, l, e # es, n, True)
      else consume_to at w (bit_value (se_value e) w) (Some (se_ps e)) es (n + 1))"

definition scan_side_to :: "int \<Rightarrow> scan_side \<Rightarrow> scan_side \<times> nat \<times> bool" where
  "scan_side_to at sd = (case consume_to at (sg_width (sn_stream sd)) (sn_value sd) (sn_last sd) (sn_rest sd) 0 of
     (v, l, rest, n, bad) \<Rightarrow> (sd\<lparr>sn_value := v, sn_last := l, sn_rest := rest\<rparr>, n, bad))"

definition scan_row :: "int \<Rightarrow> scan_side \<Rightarrow> gap_row list \<Rightarrow> gap_row list" where
  "scan_row at sd gs = (case sg_error (sn_stream sd) of
       Some e \<Rightarrow> stream_gap e (sn_name sd) at gs
     | None \<Rightarrow> if sn_value sd = None then stream_gap ''value_unavailable'' (sn_name sd) at gs
         else if \<not> known (sn_value sd) then stream_gap ''value_unknown'' (sn_name sd) at gs
         else gs)"

definition scan_judge :: "scan \<Rightarrow> scan" where
  "scan_judge s =
     (let gs = scan_row (sc_at s) (sc_b s) (scan_row (sc_at s) (sc_a s) (sc_gaps s));
          va = sn_value (sc_a s); vb = sn_value (sc_b s)
      in s\<lparr>sc_examined := True, sc_gaps := gs,
           sc_hit := (if known va \<and> known vb \<and> va \<noteq> vb
             then Some \<lparr>hi_at = sc_at s, hi_value_a = va, hi_value_b = vb,
               hi_earliest = (\<not> list_ex (\<lambda>g. gp_start_ps g \<le> sc_at s) gs)\<rparr>
             else None)\<rparr>)"

definition unsafe_at :: "int \<Rightarrow> sig_stream \<Rightarrow> bool" where
  "unsafe_at t s = (case sg_safe_before s of None \<Rightarrow> False | Some x \<Rightarrow> t \<ge> x)"

definition scan_upcoming :: "scan \<Rightarrow> int option" where
  "scan_upcoming s = (case (sn_rest (sc_a s), sn_rest (sc_b s)) of
     ([], []) \<Rightarrow> None | (e # _, []) \<Rightarrow> Some (se_ps e) | ([], e # _) \<Rightarrow> Some (se_ps e)
   | (e # _, f # _) \<Rightarrow> Some (min (se_ps e) (se_ps f)))"

definition scan_turn :: "scan \<Rightarrow> scan \<times> bool" where
  "scan_turn s =
     (case scan_side_to (sc_at s) (sc_a s) of (a, na, bad_a) \<Rightarrow>
      (case scan_side_to (sc_at s) (sc_b s) of (b, nb, bad_b) \<Rightarrow>
        (s\<lparr>sc_a := a, sc_b := b, sc_compared := sc_compared s + na + nb\<rparr>, bad_a \<or> bad_b)))"

text \<open>Every turn after the first consumes an event, so that the number of events bounds the turns.\<close>

fun scan_loop :: "int \<Rightarrow> nat \<Rightarrow> scan \<Rightarrow> scan" where
  "scan_loop stop 0 s = s"
| "scan_loop stop (Suc m) s =
     (if sc_at s > stop \<or> unsafe_at (sc_at s) (sn_stream (sc_a s)) \<or> unsafe_at (sc_at s) (sn_stream (sc_b s)) then s
      else (case scan_turn s of (s1, bad) \<Rightarrow>
        if bad then s1\<lparr>sc_gaps := stream_gap ''transition_order_invalid'' ''both'' (sc_at s1) (sc_gaps s1)\<rparr>
        else (let s2 = scan_judge s1 in
          if sc_hit s2 \<noteq> None then s2
          else (case scan_upcoming s2 of None \<Rightarrow> s2 | Some t \<Rightarrow> scan_loop stop m (s2\<lparr>sc_at := t\<rparr>)))))"

definition stream_result :: "cmp_args \<Rightarrow> sig_stream \<Rightarrow> sig_stream \<Rightarrow> int \<Rightarrow> cmp_result" where
  "stream_result args a b effective =
     (let requested = requested_end (ca_end args) effective (available_ends a b);
          (gs, xs) = stream_rows (ca_start args) requested ''b'' b (stream_rows (ca_start args) requested ''a'' a ([], []))
      in \<lparr>cr_args = args, cr_diverged = False, cr_end_ps = effective, cr_time_ps = None, cr_time_fs = None,
          cr_value_a = None, cr_value_b = None, cr_compared = 0, cr_missing_a = sg_missing a, cr_missing_b = sg_missing b,
          cr_note = None, cr_status = ''inconclusive'', cr_coverage = ''none'', cr_earliest = False, cr_gaps = gs,
          cr_width_a = sg_width a, cr_width_b = sg_width b, cr_excluded = xs,
          cr_reading = \<lparr>cg_mode_a = ''legacy_materialized'', cg_mode_b = ''legacy_materialized'',
            cg_events = Some ((length (sg_transitions a) + (if sg_predecessor a = None then 0 else 1)) +
              (length (sg_transitions b) + (if sg_predecessor b = None then 0 else 1))),
            cg_pages = Some 0, cg_calls = None, cg_bytes = None, cg_basis = Some ''unavailable''\<rparr>\<rparr>)"

definition stream_hit :: "scan \<Rightarrow> cmp_result \<Rightarrow> cmp_result" where
  "stream_hit s r = (case sc_hit s of None \<Rightarrow> r | Some h \<Rightarrow>
     r\<lparr>cr_diverged := True, cr_status := ''different'', cr_value_a := hi_value_a h, cr_value_b := hi_value_b h,
       cr_time_ps := Some (hi_at h), cr_earliest := hi_earliest h\<rparr>)"

definition finish_streams :: "nat \<Rightarrow> int \<Rightarrow> scan \<Rightarrow> cmp_result \<Rightarrow> cmp_result" where
  "finish_streams changed start s r0 =
     (let r1 = (stream_hit s r0)\<lparr>cr_gaps := sc_gaps s, cr_compared := sc_compared s\<rparr>;
          r2 = (if changed > 0 then r1\<lparr>cr_gaps := (stream_gap ''waveform_changed'' ''both'' start ^^ changed) (cr_gaps r1), cr_diverged := False,
                  cr_time_ps := None, cr_value_a := None, cr_value_b := None, cr_earliest := False,
                  cr_status := ''inconclusive''\<rparr> else r1);
          r3 = r2\<lparr>cr_missing_a := sg_missing (sn_stream (sc_a s)), cr_missing_b := sg_missing (sn_stream (sc_b s))\<rparr>;
          r4 = (if \<not> cr_diverged r3 \<and> sc_examined s \<and> cr_gaps r3 = []
                then r3\<lparr>cr_status := ''equal'', cr_note := Some equal_note\<rparr> else r3);
          r5 = r4\<lparr>cr_coverage := (if \<not> sc_examined s then ''none'' else if cr_gaps r4 \<noteq> [] then ''partial'' else ''complete'')\<rparr>
      in case cr_time_ps r5 of
           Some t \<Rightarrow> if cr_diverged r5 \<and> t < cr_end_ps r5
             then r5\<lparr>cr_coverage := ''partial'', cr_gaps := cr_gaps r5 @ [stopped_row t (cr_end_ps r5)]\<rparr> else r5
         | None \<Rightarrow> r5)"

definition start_side :: "string \<Rightarrow> (int \<Rightarrow> json result) \<Rightarrow> int \<Rightarrow> sig_stream \<Rightarrow> scan_side" where
  "start_side name lookup start s = (case stream_seed lookup start s of (v, s') \<Rightarrow>
     \<lparr>sn_name = name, sn_stream = s', sn_value = v, sn_last = None, sn_rest = sg_transitions s'\<rparr>)"

definition window_ok :: "cmp_args \<Rightarrow> unit result" where
  "window_ok args = require (\<not> (ca_start args < 0 \<or> ca_end args < - 1 \<or> (ca_end args \<ge> 0 \<and> ca_end args < ca_start args)))
     (ValueError ''comparison window requires 0 <= start <= end, or end=-1'')"

definition compare_streams :: "nat \<Rightarrow> (int \<Rightarrow> json result) \<Rightarrow> (int \<Rightarrow> json result) \<Rightarrow> cmp_args \<Rightarrow> sig_stream \<Rightarrow> sig_stream \<Rightarrow> cmp_result result" where
  "compare_streams changed lookup_a lookup_b args a b =
     ebind (window_ok args) (\<lambda>_.
       let start = ca_start args; effective = effective_end start (ca_end args) (available_ends a b);
           r0 = stream_result args a b effective
       in if effective < start
          then Inr (r0\<lparr>cr_gaps := stream_gap ''empty_window'' ''both'' start (cr_gaps r0),
                       cr_note := Some ''empty effective comparison window''\<rparr>)
          else if sg_error a \<noteq> None \<or> sg_error b \<noteq> None then Inr r0
          else if sg_width a \<noteq> None \<and> sg_width b \<noteq> None \<and> sg_width a \<noteq> sg_width b
          then Inr (r0\<lparr>cr_gaps := stream_gap ''width_mismatch'' ''both'' start (cr_gaps r0)\<rparr>)
          else Inr (finish_streams changed start
            (scan_loop effective (length (sg_transitions a) + length (sg_transitions b) + 2)
               \<lparr>sc_a = start_side ''a'' lookup_a start a, sc_b = start_side ''b'' lookup_b start b, sc_at = start,
                sc_compared = 0, sc_examined = False, sc_gaps = cr_gaps r0, sc_hit = None\<rparr>) r0))"

section \<open>compare_signals\<close>

text \<open>
  What opening the two readers gave: paging is not available, an exception on a side (\<open>True\<close> for a
  KeyError), or two readers. \<open>legacy\<close> is the answer of \<open>_compare_legacy\<close> in the first case.
\<close>

datatype 's opened = PagingUnavailable | OpenFailed bool string | OpenReaders "'s page_source" "'s page_source"

definition failed_result :: "cmp_args \<Rightarrow> bool \<Rightarrow> string \<Rightarrow> cmp_result" where
  "failed_result args is_key side =
     \<lparr>cr_args = args, cr_diverged = False, cr_end_ps = ca_end args, cr_time_ps = None, cr_time_fs = None,
      cr_value_a = None, cr_value_b = None, cr_compared = 0, cr_missing_a = (is_key \<and> side = ''a''),
      cr_missing_b = (is_key \<and> side = ''b''), cr_note = None, cr_status = ''inconclusive'', cr_coverage = ''none'',
      cr_earliest = False,
      cr_gaps = [\<lparr>gp_reason = (if is_key then ''signal_not_found'' else ''read_failed''), gp_side = side,
        gp_start_ps = ca_start args, gp_start_fs = None, gp_end_ps = None\<rparr>],
      cr_width_a = None, cr_width_b = None, cr_excluded = [],
      cr_reading = \<lparr>cg_mode_a = ''event_pages_failed'', cg_mode_b = ''event_pages_failed'', cg_events = None,
        cg_pages = None, cg_calls = None, cg_bytes = None, cg_basis = None\<rparr>\<rparr>"

definition mark_changed :: "int \<Rightarrow> cmp_result \<Rightarrow> cmp_result" where
  "mark_changed start r = r\<lparr>cr_diverged := False, cr_status := ''inconclusive'', cr_coverage := ''partial'', cr_earliest := False,
     cr_time_ps := None, cr_time_fs := None, cr_value_a := None, cr_value_b := None,
     cr_gaps := cr_gaps r @ [\<lparr>gp_reason = ''waveform_changed'', gp_side = ''both'', gp_start_ps = start,
       gp_start_fs = None, gp_end_ps = None\<rparr>]\<rparr>"

definition compare_signals :: "('s \<Rightarrow> page \<times> 's) \<Rightarrow> nat \<Rightarrow> nat \<Rightarrow> bool \<Rightarrow> cmp_args \<Rightarrow> 's opened \<Rightarrow> cmp_result result \<Rightarrow> cmp_result result" where
  "compare_signals rd k m changed args readers legacy =
     ebind (window_ok args) (\<lambda>_.
     ebind (case readers of
         PagingUnavailable \<Rightarrow> legacy
       | OpenFailed is_key side \<Rightarrow> Inr (failed_result args is_key side)
       | OpenReaders sa sb \<Rightarrow> (case compare_pages rd k m args sa sb of
           Inr r \<Rightarrow> Inr r
         | Inl CursorFuel \<Rightarrow> Inl IllTyped
         | Inl _ \<Rightarrow> Inr (failed_result args False ''both'')))
       (\<lambda>r. Inr (if changed then mark_changed (ca_start args) r else r)))"

end
