(* ===== verification/Compare_Clock.thy ===== *)
theory Compare_Clock
  imports Compare_Stream
begin

text \<open>
  The edges of a recorded clock (\<open>clock_edges\<close> of src/src/dynamic_observe.py, with the anchor and the
  recording gaps of src/src/divergence_compare.py) and the comparison of two signals at the edges of two
  aligned clocks (src/src/divergence_clock.py).
\<close>

section \<open>Clock edges\<close>

definition stream_anchor :: "sig_stream \<Rightarrow> stream_event option" where
  "stream_anchor s =
     (let start = sg_start_fs s in
      if list_ex (\<lambda>g. rg_start g < start \<and> (rg_end g > start \<or> rg_end g = start \<and> rg_end_inclusive g)) (sg_gaps s) then None
      else (case sg_predecessor s of Some e \<Rightarrow> Some e
        | None \<Rightarrow> (case sg_initial s of None \<Rightarrow> None
            | Some e \<Rightarrow> if (case se_fs e of Some t \<Rightarrow> t | None \<Rightarrow> se_ps e * 1000) \<ge> start then None else Some e)))"

definition history_gaps :: "sig_stream \<Rightarrow> int \<Rightarrow> bool \<Rightarrow> string list" where
  "history_gaps s through before = dedupe (map rg_reason (filter
     (\<lambda>g. (rg_start g < through \<or> rg_start g = through \<and> \<not> before) \<and>
          (rg_end g > sg_start_fs s \<or> rg_end g = sg_start_fs s \<and> rg_end_inclusive g)) (sg_gaps s)))"

definition is_edge :: "string \<Rightarrow> string option \<Rightarrow> string option \<Rightarrow> bool" where
  "is_edge edge prev v \<longleftrightarrow> (prev, v) = (if edge = ''posedge'' then (Some ''0'', Some ''1'') else (Some ''1'', Some ''0''))"

text \<open>The loop over the events: the value and the time of the previous event, the edges and the gaps so far.\<close>

fun edge_scan :: "string \<Rightarrow> bool \<Rightarrow> int \<Rightarrow> int \<Rightarrow> bool \<Rightarrow> string option \<Rightarrow> int option \<Rightarrow> stream_event list
    \<Rightarrow> int list \<Rightarrow> string list \<Rightarrow> int list \<times> string list" where
  "edge_scan edge anchored start stop before prev last_t [] edges gaps = (edges, gaps)"
| "edge_scan edge anchored start stop before prev last_t (e # es) edges gaps =
     (let t = se_ps e in
      if t > stop \<or> before \<and> t = stop then (edges, gaps)
      else (let v = bit_value (se_value e) (Some 1);
                g1 = (if last_t = Some t then gaps @ [''sampling_order_unresolved''] else gaps);
                edges' = (if t \<ge> start \<and> known prev \<and> known v \<and> is_edge edge prev v then edges @ [t] else edges);
                g2 = (if t \<ge> start \<and> \<not> (known prev \<and> known v) \<and> prev \<noteq> v \<and> (last_t \<noteq> None \<or> anchored)
                      then g1 @ [''clock_alignment_unproven''] else g1)
            in edge_scan edge anchored start stop before v (Some t) es edges' g2))"

definition clock_edges :: "sig_stream \<Rightarrow> string \<Rightarrow> int \<Rightarrow> int \<Rightarrow> bool \<Rightarrow> int list \<times> string list" where
  "clock_edges s edge start stop before =
     (case sg_error s of Some e \<Rightarrow> ([], [e])
      | None \<Rightarrow>
        (let g0 = history_gaps s (stop * 1000) before;
             g1 = (if sg_truncated s then g0 @ [''transition_data_truncated''] else g0);
             g2 = (case sg_scale s of Some x \<Rightarrow> if x < 1000 then g1 @ [''sampling_order_unresolved''] else g1 | None \<Rightarrow> g1);
             g3 = (if sg_width s \<noteq> Some 1 then g2 @ [''clock_alignment_unproven''] else g2);
             anchor = stream_anchor s;
             prev = (case anchor of Some e \<Rightarrow> bit_value (se_value e) (Some 1) | None \<Rightarrow> None)
         in case edge_scan edge (anchor \<noteq> None) start stop before prev None (sg_transitions s) [] g3 of
              (edges, gaps) \<Rightarrow> (edges, dedupe gaps)))"

section \<open>The comparison at the edges\<close>

text \<open>A gap of this comparison is its reason and its side; the start of the row is that of the request.\<close>

record clock_result =
  kr_diverged :: bool
  kr_end :: int
  kr_time :: "int option"
  kr_value_a :: "string option"
  kr_value_b :: "string option"
  kr_status :: string
  kr_coverage :: string
  kr_earliest :: bool
  kr_gaps :: "(string \<times> string) list"
  kr_compared :: nat
  kr_samples :: nat
  kr_widths :: "(int option \<times> int option) option"

definition clock_gap :: "string \<Rightarrow> string \<Rightarrow> (string \<times> string) list \<Rightarrow> (string \<times> string) list" where
  "clock_gap r s gs = (if (r, s) \<in> set gs then gs else gs @ [(r, s)])"

record clock_side =
  ks_stream :: sig_stream
  ks_value :: "string option"
  ks_rest :: "stream_event list"

record clock_scan =
  kc_a :: clock_side
  kc_b :: clock_side
  kc_compared :: nat
  kc_samples :: nat
  kc_gaps :: "(string \<times> string) list"
  kc_hit :: "cmp_hit option"

fun consume_all :: "int \<Rightarrow> int option \<Rightarrow> string option \<Rightarrow> stream_event list \<Rightarrow> nat \<Rightarrow> string option \<times> stream_event list \<times> nat" where
  "consume_all at w v [] n = (v, [], n)"
| "consume_all at w v (e # es) n =
     (if se_ps e \<le> at then consume_all at w (bit_value (se_value e) w) es (n + 1) else (v, e # es, n))"

definition clock_side_to :: "int \<Rightarrow> clock_side \<Rightarrow> clock_side \<times> nat" where
  "clock_side_to at sd = (case consume_all at (sg_width (ks_stream sd)) (ks_value sd) (ks_rest sd) 0 of
     (v, rest, n) \<Rightarrow> (sd\<lparr>ks_value := v, ks_rest := rest\<rparr>, n))"

definition sample_blocked :: "int \<Rightarrow> sig_stream \<Rightarrow> bool" where
  "sample_blocked sample s \<longleftrightarrow> sg_error s \<noteq> None \<or> sg_end s < sample \<or> unsafe_at sample s"

definition sample_at :: "int \<Rightarrow> clock_scan \<Rightarrow> clock_scan" where
  "sample_at sample s =
     (case clock_side_to sample (kc_a s) of (a, na) \<Rightarrow>
      (case clock_side_to sample (kc_b s) of (b, nb) \<Rightarrow>
        (let va = ks_value a; vb = ks_value b; gs = kc_gaps s;
             s1 = s\<lparr>kc_a := a, kc_b := b, kc_compared := kc_compared s + na + nb, kc_samples := kc_samples s + 1\<rparr>
         in if \<not> (known va \<and> known vb) then s1\<lparr>kc_gaps := clock_gap ''value_unknown'' ''both'' gs\<rparr>
            else if va \<noteq> vb then s1\<lparr>kc_hit := Some \<lparr>hi_at = sample, hi_value_a = va, hi_value_b = vb, hi_earliest = (gs = [])\<rparr>\<rparr>
            else s1)))"

fun clock_loop :: "int \<Rightarrow> int \<Rightarrow> int list \<Rightarrow> clock_scan \<Rightarrow> clock_scan" where
  "clock_loop offset stop [] s = s"
| "clock_loop offset stop (e # es) s =
     (let sample = e + offset in
      if sample > stop then clock_loop offset stop es s
      else if sample_blocked sample (ks_stream (kc_a s)) \<or> sample_blocked sample (ks_stream (kc_b s)) then s
      else (let s' = sample_at sample s in if kc_hit s' \<noteq> None then s' else clock_loop offset stop es s'))"

definition clock_ends :: "sig_stream \<Rightarrow> sig_stream \<Rightarrow> int list" where
  "clock_ends a b = map sg_end (filter (\<lambda>s. sg_end s \<ge> 0) [a, b])"

definition data_gaps :: "int \<Rightarrow> string \<Rightarrow> sig_stream \<Rightarrow> (string \<times> string) list \<Rightarrow> (string \<times> string) list" where
  "data_gaps stop side s gs =
     (let g1 = (case sg_error s of Some e \<Rightarrow> clock_gap e side gs | None \<Rightarrow> gs);
          g2 = (case sg_scale s of None \<Rightarrow> clock_gap ''time_precision_loss'' side g1
             | Some x \<Rightarrow> if x < 1000 then clock_gap ''time_precision_loss'' side g1 else g1);
          g3 = (if sg_width s = None then clock_gap ''signal_width_unavailable'' side g2 else g2);
          g4 = (if sg_truncated s then clock_gap ''transition_data_truncated'' side g3 else g3)
      in if sg_end s < stop then clock_gap ''outside_recorded_range'' side g4 else g4)"

definition clock_start :: "(int \<Rightarrow> json result) \<Rightarrow> int \<Rightarrow> sig_stream \<Rightarrow> clock_side" where
  "clock_start lookup start s = (case stream_seed lookup start s of (v, s') \<Rightarrow>
     \<lparr>ks_stream = s', ks_value = v, ks_rest = sg_transitions s'\<rparr>)"

definition clock_result0 :: "int \<Rightarrow> (string \<times> string) list \<Rightarrow> clock_result" where
  "clock_result0 stop gs = \<lparr>kr_diverged = False, kr_end = stop, kr_time = None, kr_value_a = None, kr_value_b = None,
     kr_status = ''inconclusive'', kr_coverage = ''none'', kr_earliest = False, kr_gaps = gs, kr_compared = 0, kr_samples = 0,
     kr_widths = None\<rparr>"

definition finish_clock :: "int \<Rightarrow> int \<Rightarrow> clock_scan \<Rightarrow> clock_result \<Rightarrow> clock_result" where
  "finish_clock requested stop s r0 =
     (let r1 = (case kc_hit s of None \<Rightarrow> r0 | Some h \<Rightarrow> r0\<lparr>kr_diverged := True, kr_time := Some (hi_at h), kr_value_a := hi_value_a h,
             kr_value_b := hi_value_b h, kr_status := ''different'', kr_earliest := hi_earliest h\<rparr>);
          g1 = (if requested > stop then clock_gap ''outside_recorded_range'' ''both'' (kc_gaps s) else kc_gaps s);
          g2 = (if kc_samples s = 0 then clock_gap ''clock_alignment_unproven'' ''both'' g1 else g1);
          r2 = r1\<lparr>kr_gaps := g2, kr_compared := kc_compared s, kr_samples := kc_samples s\<rparr>;
          r3 = (if kc_samples s \<noteq> 0 \<and> \<not> kr_diverged r2 \<and> g1 = [] then r2\<lparr>kr_status := ''equal''\<rparr> else r2)
      in r3\<lparr>kr_coverage := (if kr_gaps r3 \<noteq> [] \<or> kr_diverged r3 then ''partial'' else ''complete'')\<rparr>)"

text \<open>
  \<open>clock_a\<close> and \<open>clock_b\<close> are the streams of the two clocks over the request, \<open>read_a\<close> and \<open>read_b\<close> read the
  signals from the start to a given end, \<open>offset\<close> is \<open>sample_offset_ps\<close> of the policy.
\<close>

definition compare_clock :: "string \<Rightarrow> int \<Rightarrow> int \<Rightarrow> int \<Rightarrow> sig_stream \<Rightarrow> sig_stream \<Rightarrow> (int \<Rightarrow> sig_stream) \<Rightarrow> (int \<Rightarrow> sig_stream)
    \<Rightarrow> (int \<Rightarrow> json result) \<Rightarrow> (int \<Rightarrow> json result) \<Rightarrow> clock_result" where
  "compare_clock edge offset start stop clock_a clock_b read_a read_b lookup_a lookup_b =
     (let ends = clock_ends clock_a clock_b; eff = effective_end start stop ends in
      case clock_edges clock_a edge start eff False of (ea, ga) \<Rightarrow>
      case clock_edges clock_b edge start eff False of (eb, gb) \<Rightarrow>
      let gs = fold (\<lambda>r. clock_gap r ''both'') (ga @ gb) [] in
      if ea = [] \<or> ea \<noteq> eb \<or> gs \<noteq> [] then clock_result0 eff (clock_gap ''clock_alignment_unproven'' ''both'' gs)
      else
        (let a = read_a eff; b = read_b eff; gd = data_gaps eff ''b'' b (data_gaps eff ''a'' a gs) in
         if sg_width a \<noteq> sg_width b then clock_result0 eff (clock_gap ''width_mismatch'' ''both'' gd)
         else
           (let s0 = \<lparr>kc_a = clock_start lookup_a start a, kc_b = clock_start lookup_b start b, kc_compared = 0,
                  kc_samples = 0, kc_gaps = gd, kc_hit = None\<rparr>
            in finish_clock (requested_end stop eff ends) eff (clock_loop offset eff ea s0)
                 ((clock_result0 eff gd)\<lparr>kr_widths := Some (sg_width a, sg_width b)\<rparr>))))"

end
