(* ===== verification/Compare_Stream_Laws.thy ===== *)
theory Compare_Stream_Laws
  imports Compare_Verdict Compare_Clock
begin

text \<open>
  The comparison of materialised streams against their waveforms in picoseconds, and the sampling of a
  stream at given times, which the clocked comparison uses. \<open>stream_value\<close> is the waveform of a list of
  events, given the value before them.
\<close>

section \<open>Waveforms of streams\<close>

definition past_events :: "int \<Rightarrow> stream_event list \<Rightarrow> stream_event list" where
  "past_events t es = takeWhile (\<lambda>e. se_ps e \<le> t) es"

definition coming :: "int \<Rightarrow> stream_event list \<Rightarrow> stream_event list" where
  "coming t es = dropWhile (\<lambda>e. se_ps e \<le> t) es"

definition stream_value :: "int option \<Rightarrow> string option \<Rightarrow> stream_event list \<Rightarrow> int \<Rightarrow> string option" where
  "stream_value w v es t = (if past_events t es = [] then v else bit_value (se_value (last (past_events t es))) w)"

lemma past_simps [simp]:
  "past_events t [] = []" "past_events t (e # es) = (if se_ps e \<le> t then e # past_events t es else [])"
  "coming t [] = []" "coming t (e # es) = (if se_ps e \<le> t then coming t es else e # es)"
  by (simp_all add: past_events_def coming_def)

lemma past_coming: "past_events t es @ coming t es = es"
  by (simp add: past_events_def coming_def)

lemma stream_value_simps [simp]:
  "stream_value w v [] t = v"
  "stream_value w v (e # es) t = (if se_ps e \<le> t then stream_value w (bit_value (se_value e) w) es t else v)"
  by (simp_all add: stream_value_def)

lemma coming_later: "sorted (map se_ps es) \<Longrightarrow> \<forall>e \<in> set (coming t es). t < se_ps e"
  by (induction es) (auto simp: not_le)

lemma coming_sorted: "sorted (map se_ps es) \<Longrightarrow> sorted (map se_ps (coming t es))"
  by (induction es) auto

lemma coming_length: "length (coming t es) \<le> length es"
  by (simp add: coming_def length_dropWhile_le)

lemma stream_value_coming: "t \<le> u \<Longrightarrow> stream_value w v es u = stream_value w (stream_value w v es t) (coming t es) u"
  by (induction es arbitrary: v) auto

lemma stream_value_before: "\<forall>e \<in> set es. t < se_ps e \<Longrightarrow> stream_value w v es t = v"
  by (cases es) auto

lemma coming_coming: "t \<le> u \<Longrightarrow> coming u (coming t es) = coming u es"
  by (induction es) auto

section \<open>One turn\<close>

definition follows :: "(int \<Rightarrow> string option) \<Rightarrow> int \<Rightarrow> scan_side \<Rightarrow> bool" where
  "follows v at sd \<longleftrightarrow> sorted (map se_ps (sn_rest sd)) \<and> (\<forall>l. sn_last sd = Some l \<longrightarrow> (\<forall>e \<in> set (sn_rest sd). l \<le> se_ps e)) \<and>
     sg_error (sn_stream sd) = None \<and> (\<forall>u \<ge> at. v u = stream_value (sg_width (sn_stream sd)) (sn_value sd) (sn_rest sd) u)"

lemma consume_to_exact:
  assumes "sorted (map se_ps es)" "\<forall>x. l = Some x \<longrightarrow> (\<forall>e \<in> set es. x \<le> se_ps e)"
  shows "\<exists>l' n'. consume_to at w v l es n = (stream_value w v es at, l', coming at es, n', False) \<and>
     (\<forall>x. l' = Some x \<longrightarrow> (\<forall>e \<in> set (coming at es). x \<le> se_ps e))"
  using assms
proof (induction es arbitrary: v l n)
  case (Cons e es)
  show ?case
  proof (cases "se_ps e \<le> at")
    case True
    have "\<exists>l' n'. consume_to at w (bit_value (se_value e) w) (Some (se_ps e)) es (n + 1) =
        (stream_value w (bit_value (se_value e) w) es at, l', coming at es, n', False) \<and>
        (\<forall>x. l' = Some x \<longrightarrow> (\<forall>e \<in> set (coming at es). x \<le> se_ps e))"
      using Cons.prems by (intro Cons.IH) auto
    moreover have "\<not> (case l of None \<Rightarrow> False | Some p \<Rightarrow> se_ps e < p)" using Cons.prems(2) by (auto split: option.split)
    ultimately show ?thesis using True by simp
  qed (use Cons.prems in simp)
qed simp

lemma scan_side_follows:
  assumes "follows v at sd"
  shows "\<exists>sd' n. scan_side_to at sd = (sd', n, False) \<and> sn_value sd' = v at \<and> follows v at sd' \<and> sn_rest sd' = coming at (sn_rest sd) \<and>
     sn_stream sd' = sn_stream sd"
proof -
  let ?w = "sg_width (sn_stream sd)"
  have s: "sorted (map se_ps (sn_rest sd))" and l: "\<forall>x. sn_last sd = Some x \<longrightarrow> (\<forall>e \<in> set (sn_rest sd). x \<le> se_ps e)"
    and v: "\<forall>u \<ge> at. v u = stream_value ?w (sn_value sd) (sn_rest sd) u" and e: "sg_error (sn_stream sd) = None"
    using assms by (simp_all add: follows_def)
  obtain l' n' where c: "consume_to at ?w (sn_value sd) (sn_last sd) (sn_rest sd) 0 =
      (stream_value ?w (sn_value sd) (sn_rest sd) at, l', coming at (sn_rest sd), n', False)"
    "\<forall>x. l' = Some x \<longrightarrow> (\<forall>e \<in> set (coming at (sn_rest sd)). x \<le> se_ps e)" using consume_to_exact [OF s l] by blast
  let ?sd = "sd\<lparr>sn_value := v at, sn_last := l', sn_rest := coming at (sn_rest sd)\<rparr>"
  have "scan_side_to at sd = (?sd, n', False)" using c(1) v by (simp add: scan_side_to_def)
  moreover have "follows v at ?sd"
  proof -
    have now: "v at = stream_value ?w (sn_value sd) (sn_rest sd) at" using v by simp
    have "\<forall>u \<ge> at. v u = stream_value ?w (v at) (coming at (sn_rest sd)) u"
      unfolding now using v by (metis stream_value_coming)
    moreover have sel: "sn_rest ?sd = coming at (sn_rest sd)" "sn_last ?sd = l'" "sn_stream ?sd = sn_stream sd" "sn_value ?sd = v at"
      by simp_all
    ultimately show ?thesis unfolding follows_def sel using c(2) e coming_sorted [OF s] by blast
  qed
  ultimately show ?thesis by (intro exI [of _ ?sd] exI [of _ n']) simp
qed

lemma scan_turn_follows:
  assumes "follows va (sc_at s) (sc_a s)" "follows vb (sc_at s) (sc_b s)"
  shows "\<exists>s'. scan_turn s = (s', False) \<and> sc_at s' = sc_at s \<and> sc_gaps s' = sc_gaps s \<and>
     sn_value (sc_a s') = va (sc_at s) \<and> sn_value (sc_b s') = vb (sc_at s) \<and>
     follows va (sc_at s) (sc_a s') \<and> follows vb (sc_at s) (sc_b s') \<and>
     sn_rest (sc_a s') = coming (sc_at s) (sn_rest (sc_a s)) \<and> sn_rest (sc_b s') = coming (sc_at s) (sn_rest (sc_b s)) \<and>
     sn_stream (sc_a s') = sn_stream (sc_a s) \<and> sn_stream (sc_b s') = sn_stream (sc_b s)"
proof -
  obtain a n where a: "scan_side_to (sc_at s) (sc_a s) = (a, n, False)" "sn_value a = va (sc_at s)" "follows va (sc_at s) a"
    "sn_rest a = coming (sc_at s) (sn_rest (sc_a s))" "sn_stream a = sn_stream (sc_a s)"
    using scan_side_follows [OF assms(1)] by blast
  obtain b k where b: "scan_side_to (sc_at s) (sc_b s) = (b, k, False)" "sn_value b = vb (sc_at s)" "follows vb (sc_at s) b"
    "sn_rest b = coming (sc_at s) (sn_rest (sc_b s))" "sn_stream b = sn_stream (sc_b s)"
    using scan_side_follows [OF assms(2)] by blast
  show ?thesis using a b
    by (intro exI [of _ "s\<lparr>sc_a := a, sc_b := b, sc_compared := sc_compared s + n + k\<rparr>"]) (simp add: scan_turn_def)
qed

lemma follows_facts:
  "follows v at sd \<Longrightarrow> sorted (map se_ps (sn_rest sd))" "follows v at sd \<Longrightarrow> sg_error (sn_stream sd) = None"
  by (simp_all add: follows_def)

lemma follows_still: "follows v at sd \<Longrightarrow> at \<le> t \<Longrightarrow> follows v t sd"
  by (simp add: follows_def)

lemma follows_constant:
  assumes "follows v at sd" "\<forall>e \<in> set (sn_rest sd). u < se_ps e" "at \<le> u" shows "v u = sn_value sd"
  using assms stream_value_before [OF assms(2)] by (simp add: follows_def)

interpretation stream_log: gap_log stream_gap "\<lambda>g. Some (gp_start_ps g)"
  by unfold_locales (auto simp: stream_gap_def same_gap_def intro!: update_first_map)

lemma scan_judge_exact:
  assumes "sn_value (sc_a s) = va (sc_at s)" "sn_value (sc_b s) = vb (sc_at s)" "stream_log.value_rows_by (sc_at s) (sc_gaps s)"
    "sg_error (sn_stream (sc_a s)) = None" "sg_error (sn_stream (sc_b s)) = None"
  shows "sc_a (scan_judge s) = sc_a s" "sc_b (scan_judge s) = sc_b s" "sc_at (scan_judge s) = sc_at s" "sc_examined (scan_judge s)"
    "stream_log.value_rows_by (sc_at s) (sc_gaps (scan_judge s))"
    "\<forall>t. stream_log.early t (sc_gaps s) \<longrightarrow> stream_log.early t (sc_gaps (scan_judge s))"
    "if known (va (sc_at s)) \<and> known (vb (sc_at s)) then sc_gaps (scan_judge s) = sc_gaps s
     else stream_log.early (sc_at s) (sc_gaps (scan_judge s))"
    "sc_hit (scan_judge s) = (if differ va vb (sc_at s)
       then Some \<lparr>hi_at = sc_at s, hi_value_a = va (sc_at s), hi_value_b = vb (sc_at s),
         hi_earliest = (\<not> stream_log.early (sc_at s) (sc_gaps (scan_judge s)))\<rparr> else None)"
proof -
  let ?at = "sc_at s"
  have row: "scan_row ?at sd gs = stream_log.note_value ?at (sn_name sd) (sn_value sd) gs" if "sg_error (sn_stream sd) = None" for sd gs
    by (simp add: scan_row_def stream_log.note_value_def that)
  have gaps: "sc_gaps (scan_judge s) = stream_log.note_value ?at (sn_name (sc_b s)) (vb ?at) (stream_log.note_value ?at (sn_name (sc_a s)) (va ?at) (sc_gaps s))"
    using assms(1,2) by (simp add: scan_judge_def Let_def row assms(4,5))
  show "sc_a (scan_judge s) = sc_a s" "sc_b (scan_judge s) = sc_b s" "sc_at (scan_judge s) = ?at" "sc_examined (scan_judge s)"
    by (simp_all add: scan_judge_def Let_def)
  show "stream_log.value_rows_by ?at (sc_gaps (scan_judge s))"
    "\<forall>t. stream_log.early t (sc_gaps s) \<longrightarrow> stream_log.early t (sc_gaps (scan_judge s))"
    "if known (va ?at) \<and> known (vb ?at) then sc_gaps (scan_judge s) = sc_gaps s else stream_log.early ?at (sc_gaps (scan_judge s))"
    by (rule stream_log.note_both [OF assms(3) gaps])+
  have "list_ex (\<lambda>g. gp_start_ps g \<le> ?at) gs = stream_log.early ?at gs" for gs
    by (auto simp: list_ex_iff stream_log.early_def)
  then show "sc_hit (scan_judge s) = (if differ va vb ?at
       then Some \<lparr>hi_at = ?at, hi_value_a = va ?at, hi_value_b = vb ?at, hi_earliest = (\<not> stream_log.early ?at (sc_gaps (scan_judge s)))\<rparr> else None)"
    using assms(1,2) by (simp add: scan_judge_def Let_def differ_def)
qed

section \<open>The search\<close>

text \<open>The search goes on up to its end and stops before the times a truncated stream does not cover.\<close>

definition safe_end :: "int \<Rightarrow> sig_stream \<Rightarrow> int" where
  "safe_end stop s = (case sg_safe_before s of None \<Rightarrow> stop | Some x \<Rightarrow> min stop (x - 1))"

definition scan_horizon :: "int \<Rightarrow> sig_stream \<Rightarrow> sig_stream \<Rightarrow> int" where
  "scan_horizon stop a b = min (safe_end stop a) (safe_end stop b)"

lemma scan_guard: "(t > stop \<or> unsafe_at t a \<or> unsafe_at t b) = (t > scan_horizon stop a b)"
  by (auto simp: unsafe_at_def scan_horizon_def safe_end_def split: option.splits)

lemma scan_upcoming_bounds:
  assumes "sorted (map se_ps (sn_rest (sc_a s)))" "sorted (map se_ps (sn_rest (sc_b s)))"
  shows "scan_upcoming s = None \<Longrightarrow> sn_rest (sc_a s) = [] \<and> sn_rest (sc_b s) = []"
    "scan_upcoming s = Some t \<Longrightarrow> (\<forall>e \<in> set (sn_rest (sc_a s)) \<union> set (sn_rest (sc_b s)). t \<le> se_ps e) \<and>
       (\<exists>e \<in> set (sn_rest (sc_a s)) \<union> set (sn_rest (sc_b s)). se_ps e = t)"
  using assms unfolding scan_upcoming_def
  by (cases "sn_rest (sc_a s)"; cases "sn_rest (sc_b s)"; auto simp: min_def split: if_splits)+

lemma coming_shorter: "e \<in> set es \<Longrightarrow> se_ps e = t \<Longrightarrow> sorted (map se_ps es) \<Longrightarrow> length (coming t es) < length es"
proof -
  assume a: "e \<in> set es" "se_ps e = t" "sorted (map se_ps es)"
  then have "e \<notin> set (coming t es)" using coming_later by fastforce
  then have "past_events t es \<noteq> []" using a(1) past_coming [of t es] by (metis append_Nil)
  then show ?thesis using past_coming [of t es] by (metis length_append length_greater_0_conv less_add_same_cancel2)
qed

theorem scan_loop_scanned:
  assumes "follows va (sc_at s) (sc_a s)" "follows vb (sc_at s) (sc_b s)" "stream_log.value_rows_by (sc_at s) (sc_gaps s)"
    "length (coming (sc_at s) (sn_rest (sc_a s))) + length (coming (sc_at s) (sn_rest (sc_b s))) < m"
    "sc_at s \<le> h" "h = scan_horizon stop (sn_stream (sc_a s)) (sn_stream (sc_b s))"
  shows "stream_log.scanned va vb (sc_at s) h (sc_gaps s) (sc_hit (scan_loop stop m s)) (sc_gaps (scan_loop stop m s)) \<and>
    sc_examined (scan_loop stop m s)"
  using assms
proof (induction m arbitrary: s)
  case 0
  then show ?case by simp
next
  case (Suc m)
  let ?lo = "sc_at s"
  obtain s1 where s1: "scan_turn s = (s1, False)" "sc_at s1 = ?lo" "sc_gaps s1 = sc_gaps s"
    "sn_value (sc_a s1) = va ?lo" "sn_value (sc_b s1) = vb ?lo" "follows va ?lo (sc_a s1)" "follows vb ?lo (sc_b s1)"
    "sn_rest (sc_a s1) = coming ?lo (sn_rest (sc_a s))" "sn_rest (sc_b s1) = coming ?lo (sn_rest (sc_b s))"
    "sn_stream (sc_a s1) = sn_stream (sc_a s)" "sn_stream (sc_b s1) = sn_stream (sc_b s)"
    using scan_turn_follows [OF Suc.prems(1,2)] by blast
  define s2 where "s2 = scan_judge s1"
  have "sn_value (sc_a s1) = va (sc_at s1)" "sn_value (sc_b s1) = vb (sc_at s1)" "stream_log.value_rows_by (sc_at s1) (sc_gaps s1)"
    "sg_error (sn_stream (sc_a s1)) = None" "sg_error (sn_stream (sc_b s1)) = None"
    using s1(2-5) Suc.prems(3) follows_facts(2) [OF s1(6)] follows_facts(2) [OF s1(7)] by simp_all
  note j = scan_judge_exact [where va = va and vb = vb, OF this, folded s2_def, unfolded s1(2,3)]
  note here = stream_log.scanned_here [OF _ Suc.prems(5) j(8) j(6) j(7)]
  have sorted: "sorted (map se_ps (sn_rest (sc_a s2)))" "sorted (map se_ps (sn_rest (sc_b s2)))"
    using follows_facts(1) [OF s1(6)] follows_facts(1) [OF s1(7)] j(1,2) by simp_all
  have past: "\<forall>e \<in> set (sn_rest (sc_a s2)) \<union> set (sn_rest (sc_b s2)). ?lo < se_ps e"
    using coming_later [OF follows_facts(1) [OF Suc.prems(1)]] coming_later [OF follows_facts(1) [OF Suc.prems(2)]] s1(8,9) j(1,2) by auto
  have const: "va u = va ?lo \<and> vb u = vb ?lo"
    if "?lo \<le> u" "\<forall>e \<in> set (sn_rest (sc_a s2)) \<union> set (sn_rest (sc_b s2)). u < se_ps e" for u
    using follows_constant [OF s1(6) _ that(1)] follows_constant [OF s1(7) _ that(1)] that(2) s1(4,5) j(1,2) by simp
  have step: "scan_loop stop (Suc m) s = (if sc_hit s2 \<noteq> None then s2
      else (case scan_upcoming s2 of None \<Rightarrow> s2 | Some t \<Rightarrow> scan_loop stop m (s2\<lparr>sc_at := t\<rparr>)))"
    using s1(1) Suc.prems(5,6) scan_guard [where t = ?lo and stop = stop and a = "sn_stream (sc_a s)" and b = "sn_stream (sc_b s)"] unfolding s2_def by (simp add: Let_def)
  consider (found) "sc_hit s2 \<noteq> None" | (last) "sc_hit s2 = None" "scan_upcoming s2 = None"
    | (past) t where "sc_hit s2 = None" "scan_upcoming s2 = Some t" "h < t"
    | (more) t where "sc_hit s2 = None" "scan_upcoming s2 = Some t" "t \<le> h" by force
  then show ?case
  proof cases
    case found
    have "stream_log.scanned va vb ?lo h (sc_gaps s) (sc_hit s2) (sc_gaps s2)" by (rule here) (use found in simp)
    then show ?thesis using step found j(4) by simp
  next
    case last
    have e: "sn_rest (sc_a s2) = [] \<and> sn_rest (sc_b s2) = []" using scan_upcoming_bounds(1) [OF sorted] last by blast
    have "\<forall>t. ?lo \<le> t \<and> t \<le> h \<longrightarrow> va t = va ?lo \<and> vb t = vb ?lo" by (intro allI impI, rule const) (simp_all add: e)
    then have "stream_log.scanned va vb ?lo h (sc_gaps s) (sc_hit s2) (sc_gaps s2)" by (rule here)
    then show ?thesis using step last j(4) by simp
  next
    case (past t)
    note up = scan_upcoming_bounds(2) [OF sorted past(2)]
    have "\<forall>u. ?lo \<le> u \<and> u \<le> h \<longrightarrow> va u = va ?lo \<and> vb u = vb ?lo"
      by (intro allI impI, rule const, simp, intro ballI, rule less_le_trans [of _ t]) (use up past(3) in auto)
    then have "stream_log.scanned va vb ?lo h (sc_gaps s) (sc_hit s2) (sc_gaps s2)" by (rule here)
    moreover have "scan_loop stop m (s2\<lparr>sc_at := t\<rparr>) = s2\<lparr>sc_at := t\<rparr>"
      using past(3) Suc.prems(6) scan_guard [where t = t and stop = stop and a = "sn_stream (sc_a s)" and b = "sn_stream (sc_b s)"] s1(10,11) j(1,2) by (cases m) auto
    ultimately show ?thesis using step past j(4) by simp
  next
    case (more t)
    note up = scan_upcoming_bounds(2) [OF sorted more(2)]
    let ?n = "s2\<lparr>sc_at := t\<rparr>"
    have lt: "?lo < t" using up past by auto
    have sides: "sc_a ?n = sc_a s1" "sc_b ?n = sc_b s1" "sc_at ?n = t" "sc_gaps ?n = sc_gaps s2" using j(1,2) by simp_all
    have "follows va t (sc_a s1)" "follows vb t (sc_b s1)" using follows_still s1(6,7) lt by simp_all
    moreover have "stream_log.value_rows_by t (sc_gaps s2)" using j(5) lt stream_log.value_rows_later by fastforce
    moreover have "length (coming t (sn_rest (sc_a s1))) + length (coming t (sn_rest (sc_b s1))) < m"
    proof -
      have "length (coming t (sn_rest (sc_a s2))) + length (coming t (sn_rest (sc_b s2))) < length (sn_rest (sc_a s2)) + length (sn_rest (sc_b s2))"
      proof -
        obtain e where e: "se_ps e = t" "e \<in> set (sn_rest (sc_a s2)) \<or> e \<in> set (sn_rest (sc_b s2))" using up by blast
        note le = coming_length [of t "sn_rest (sc_a s2)"] coming_length [of t "sn_rest (sc_b s2)"]
        show ?thesis using e(2) coming_shorter [OF _ e(1) sorted(1)] coming_shorter [OF _ e(1) sorted(2)] le by linarith
      qed
      then show ?thesis using Suc.prems(4) s1(8,9) j(1,2) by simp
    qed
    ultimately have s': "stream_log.scanned va vb t h (sc_gaps s2) (sc_hit (scan_loop stop m ?n)) (sc_gaps (scan_loop stop m ?n)) \<and>
        sc_examined (scan_loop stop m ?n)"
      using Suc.IH [of ?n] more(3) Suc.prems(6) s1(10,11) unfolding sides by simp
    have "\<forall>u. ?lo \<le> u \<and> u < t \<longrightarrow> va u = va ?lo \<and> vb u = vb ?lo"
      by (intro allI impI, rule const, simp, intro ballI, rule less_le_trans [of _ t]) (use up in auto)
    moreover have "\<not> differ va vb ?lo" using j(8) more(1) by (auto split: if_splits)
    ultimately have "stream_log.scanned va vb ?lo h (sc_gaps s) (sc_hit (scan_loop stop m ?n)) (sc_gaps (scan_loop stop m ?n))"
      using stream_log.scanned_step [OF conjunct1 [OF s'] lt _ _ more(3) j(6) j(7)] by blast
    moreover have "scan_loop stop (Suc m) s = scan_loop stop m ?n" unfolding step using more(1,2) by simp
    ultimately show ?thesis using s' by (simp only:)
  qed
qed

end
