(* ===== verification/Compare_Stream_Claims.thy ===== *)
theory Compare_Stream_Claims
  imports Compare_Stream_Laws
begin

text \<open>
  What the comparisons over materialised streams answer: \<open>_compare_legacy\<close>, the edges of a clock and the
  comparison at them.
\<close>

section \<open>The first difference of two streams\<close>

text \<open>The waveform of a stream: its events, and before them the value \<open>_seed\<close> finds.\<close>

definition stream_wave :: "(int \<Rightarrow> json result) \<Rightarrow> int \<Rightarrow> sig_stream \<Rightarrow> int \<Rightarrow> string option" where
  "stream_wave lookup start s t = stream_value (sg_width s) (fst (stream_seed lookup start s)) (sg_transitions s) t"

definition covers :: "int \<Rightarrow> sig_stream \<Rightarrow> bool" where
  "covers req s \<longleftrightarrow> sg_width s \<noteq> None \<and> sg_range_known s \<and> (\<forall>x. sg_scale s = Some x \<longrightarrow> 1000 \<le> x) \<and>
     \<not> sg_truncated s \<and> (sg_end s < 0 \<or> req \<le> sg_end s)"

lemma read_error_set: "sg_error (read_error e s) \<noteq> None"
  by (cases e) (simp_all add: read_error_def)

lemma stream_seed_ok: "sg_error (snd (stream_seed lookup start s)) = None \<Longrightarrow> snd (stream_seed lookup start s) = s \<and> sg_error s = None"
  by (auto simp: stream_seed_def Let_def read_error_set [simplified] dest: read_error_set [THEN notE] split: if_splits sum.splits)

lemma no_gap_if [simp]: "(if c then stream_gap r s t g else g) = [] \<longleftrightarrow> \<not> c \<and> g = []"
  by (simp add: stream_log.note_gap_nonempty)

lemma no_gap_scale [simp]:
  "(case x of Some y \<Rightarrow> if y < 1000 then stream_gap r s t g else g | None \<Rightarrow> g) = [] \<longleftrightarrow> g = [] \<and> (\<forall>y. x = Some y \<longrightarrow> 1000 \<le> (y::int))"
  by (auto simp: stream_log.note_gap_nonempty split: option.split)

lemma fst_if: "fst (if c then (x, y) else (u, v)) = (if c then x else u)"
  by simp

lemma stream_rows_empty:
  "sg_error s = None \<Longrightarrow> fst (stream_rows start req side s (gs, xs)) = [] \<longleftrightarrow> gs = [] \<and> covers req s"
  by (simp add: stream_rows_def Let_def fst_if covers_def del: fst_conv split del: if_split) (auto simp: not_less not_le)

lemma value_rows_if:
  "\<not> stream_log.value_reason r \<Longrightarrow> stream_log.value_rows_by t g \<Longrightarrow> stream_log.value_rows_by t (if c then stream_gap r s u g else g)"
  by (simp add: stream_log.value_rows_other)

lemma value_rows_scale:
  "\<not> stream_log.value_reason r \<Longrightarrow> stream_log.value_rows_by t g \<Longrightarrow>
   stream_log.value_rows_by t (case x of Some y \<Rightarrow> if y < (1000::int) then stream_gap r s u g else g | None \<Rightarrow> g)"
  by (simp add: stream_log.value_rows_other split: option.split)

lemma stream_rows_values:
  assumes "sg_error s = None" "stream_log.value_rows_by t gs"
  shows "stream_log.value_rows_by t (fst (stream_rows start req side s (gs, xs)))"
  unfolding stream_rows_def assms(1) Let_def prod.case option.case fst_if
  by (intro value_rows_if value_rows_scale assms(2)) (simp_all add: stream_log.value_reason_def)

lemma stream_result_gaps:
  assumes "sg_error a = None" "sg_error b = None"
  shows "cr_gaps (stream_result args a b eff) = [] \<longleftrightarrow>
      covers (requested_end (ca_end args) eff (available_ends a b)) a \<and> covers (requested_end (ca_end args) eff (available_ends a b)) b"
    "stream_log.value_rows_by t (cr_gaps (stream_result args a b eff))"
proof -
  let ?req = "requested_end (ca_end args) eff (available_ends a b)"
  obtain gs xs where r: "stream_rows (ca_start args) ?req ''a'' a ([], []) = (gs, xs)" by (cases "stream_rows (ca_start args) ?req ''a'' a ([], [])")
  have g: "cr_gaps (stream_result args a b eff) = fst (stream_rows (ca_start args) ?req ''b'' b (gs, xs))"
    by (simp add: stream_result_def Let_def r split: prod.split)
  show "cr_gaps (stream_result args a b eff) = [] \<longleftrightarrow> covers ?req a \<and> covers ?req b"
    unfolding g using stream_rows_empty [OF assms(2)] stream_rows_empty [OF assms(1), of "ca_start args" ?req "''a''" "[]" "[]"] r by auto
  have "stream_log.value_rows_by t gs"
    using stream_rows_values [OF assms(1), of t "[]" "ca_start args" ?req "''a''" "[]"] r by (simp add: stream_log.value_rows_by_def)
  then show "stream_log.value_rows_by t (cr_gaps (stream_result args a b eff))"
    unfolding g by (rule stream_rows_values [OF assms(2)])
qed

lemma finish_streams_status:
  assumes "cr_status r0 = ''inconclusive''" "\<not> cr_diverged r0" "cr_time_ps r0 = None"
  shows "cr_status (finish_streams 0 start s r0) = (case sc_hit s of Some _ \<Rightarrow> ''different''
      | None \<Rightarrow> if sc_examined s \<and> sc_gaps s = [] then ''equal'' else ''inconclusive'')"
    "cr_diverged (finish_streams 0 start s r0) = (sc_hit s \<noteq> None)"
    "sc_hit s = None \<Longrightarrow> cr_time_ps (finish_streams 0 start s r0) = None"
    "sc_hit s = Some h \<Longrightarrow> cr_time_ps (finish_streams 0 start s r0) = Some (hi_at h) \<and>
       cr_value_a (finish_streams 0 start s r0) = hi_value_a h \<and> cr_value_b (finish_streams 0 start s r0) = hi_value_b h \<and>
       cr_earliest (finish_streams 0 start s r0) = hi_earliest h"
  using assms by (auto simp: finish_streams_def Let_def stream_hit_def split: option.splits)

lemma stream_result_fields [simp]:
  "\<not> cr_diverged (stream_result args a b eff)" "cr_status (stream_result args a b eff) = ''inconclusive''"
  "cr_time_ps (stream_result args a b eff) = None"
  by (simp_all add: stream_result_def Let_def split: prod.split)

lemma start_side_follows:
  assumes "sg_error (snd (stream_seed lookup start s)) = None" "sorted (map se_ps (sg_transitions s))"
  shows "follows (stream_wave lookup start s) start (start_side name lookup start s)"
    "sn_stream (start_side name lookup start s) = s" "sn_rest (start_side name lookup start s) = sg_transitions s"
  using assms(2) stream_seed_ok [OF assms(1)] by (auto simp: start_side_def follows_def stream_wave_def split: prod.split)

text \<open>The search of \<open>compare_streams\<close>, when it takes place.\<close>

lemma compare_streams_scan:
  assumes win: "window_ok args = Inr ()" and start: "start = ca_start args"
    and seed: "sg_error (snd (stream_seed la start a)) = None" "sg_error (snd (stream_seed lb start b)) = None"
    and sorted: "sorted (map se_ps (sg_transitions a))" "sorted (map se_ps (sg_transitions b))"
    and eff: "eff = effective_end start (ca_end args) (available_ends a b)" "start \<le> eff" "r0 = stream_result args a b eff"
    and width: "sg_width a = None \<or> sg_width b = None \<or> sg_width a = sg_width b"
  shows "\<exists>s. compare_streams 0 la lb args a b = Inr (finish_streams 0 start s r0) \<and>
    (if scan_horizon eff a b < start then sc_hit s = None \<and> \<not> sc_examined s
     else sc_examined s \<and> stream_log.scanned (stream_wave la start a) (stream_wave lb start b) start (scan_horizon eff a b)
       (cr_gaps r0) (sc_hit s) (sc_gaps s))"
proof -
  let ?s = "\<lparr>sc_a = start_side ''a'' la start a, sc_b = start_side ''b'' lb start b, sc_at = start,
    sc_compared = 0, sc_examined = False, sc_gaps = cr_gaps r0, sc_hit = None\<rparr>"
  let ?m = "length (sg_transitions a) + length (sg_transitions b) + 2"
  note e = stream_seed_ok [OF seed(1)] stream_seed_ok [OF seed(2)]
  note fa = start_side_follows [OF seed(1) sorted(1), of "''a''"] and fb = start_side_follows [OF seed(2) sorted(2), of "''b''"]
  have "compare_streams 0 la lb args a b = Inr (finish_streams 0 start (scan_loop eff ?m ?s) r0)"
    using win eff(2) e width
    by (auto simp: compare_streams_def Let_def start [symmetric] eff(1) [symmetric] eff(3) [symmetric] simp del: scan_loop.simps)
  moreover have "sc_hit (scan_loop eff ?m ?s) = None \<and> \<not> sc_examined (scan_loop eff ?m ?s)" if "scan_horizon eff a b < start"
    using that scan_guard [where t = start and stop = eff and a = a and b = b] fa(2) fb(2) by auto
  moreover have "stream_log.scanned (stream_wave la start a) (stream_wave lb start b) (sc_at ?s) (scan_horizon eff a b)
       (sc_gaps ?s) (sc_hit (scan_loop eff ?m ?s)) (sc_gaps (scan_loop eff ?m ?s)) \<and> sc_examined (scan_loop eff ?m ?s)"
    if "\<not> scan_horizon eff a b < start"
  proof (rule scan_loop_scanned)
    show "stream_log.value_rows_by (sc_at ?s) (sc_gaps ?s)"
      using stream_result_gaps(2) [OF conjunct2 [OF e(1)] conjunct2 [OF e(2)]] eff(3) by simp
    show "length (coming (sc_at ?s) (sn_rest (sc_a ?s))) + length (coming (sc_at ?s) (sn_rest (sc_b ?s))) < ?m"
      using coming_length [of start "sg_transitions a"] coming_length [of start "sg_transitions b"] fa(3) fb(3) by simp
  qed (use that fa fb in simp_all)
  ultimately show ?thesis by (intro exI [of _ "scan_loop eff ?m ?s"]) simp
qed

text \<open>C13. Let two streams be in time order. Wherever truncation does not cut the search short, the
  comparison of materialised streams reports a difference exactly if at some time of the window, of an event or
  not, both signals have known values that differ, and then the first such time and the values there; it calls the
  difference proven earliest only if all values before are known; and it calls the signals equal exactly if both
  streams are complete for the request, have one width, and have known and equal values at every time of the
  window.\<close>

theorem streams_exact:
  assumes win: "window_ok args = Inr ()" and start: "start = ca_start args"
    and seed: "sg_error (snd (stream_seed la start a)) = None" "sg_error (snd (stream_seed lb start b)) = None"
    and sorted: "sorted (map se_ps (sg_transitions a))" "sorted (map se_ps (sg_transitions b))"
    and safe: "sg_safe_before a \<noteq> None \<longrightarrow> sg_truncated a" "sg_safe_before b \<noteq> None \<longrightarrow> sg_truncated b"
    and eff: "eff = effective_end start (ca_end args) (available_ends a b)" and h: "h = scan_horizon eff a b"
    and req: "req = requested_end (ca_end args) eff (available_ends a b)"
    and va: "va = stream_wave la start a" and vb: "vb = stream_wave lb start b"
  shows "\<exists>r. compare_streams 0 la lb args a b = Inr r \<and>
    (cr_diverged r \<longleftrightarrow> (sg_width a = None \<or> sg_width b = None \<or> sg_width a = sg_width b) \<and> start \<le> eff \<and>
       (\<exists>t. start \<le> t \<and> t \<le> h \<and> differ va vb t)) \<and>
    (\<forall>t. cr_time_ps r = Some t \<longrightarrow> start \<le> t \<and> t \<le> h \<and> differ va vb t \<and> (\<forall>u. start \<le> u \<and> u < t \<longrightarrow> \<not> differ va vb u) \<and>
       cr_value_a r = va t \<and> cr_value_b r = vb t \<and> (cr_earliest r \<longrightarrow> both_known va vb start t)) \<and>
    (cr_status r = ''equal'' \<longleftrightarrow> sg_width a = sg_width b \<and> start \<le> eff \<and> covers req a \<and> covers req b \<and>
       both_known va vb start eff \<and> (\<forall>t. start \<le> t \<and> t \<le> eff \<longrightarrow> va t = vb t))"
proof (cases "(sg_width a = None \<or> sg_width b = None \<or> sg_width a = sg_width b) \<and> start \<le> eff")
  case False
  note e = conjunct2 [OF stream_seed_ok [OF seed(1)]] conjunct2 [OF stream_seed_ok [OF seed(2)]]
  have "\<exists>r. compare_streams 0 la lb args a b = Inr r \<and> \<not> cr_diverged r \<and> cr_time_ps r = None \<and> cr_status r = ''inconclusive''"
    using False win e by (auto simp: compare_streams_def Let_def start [symmetric] eff [symmetric])
  then show ?thesis using False by auto
next
  case True
  note e = conjunct2 [OF stream_seed_ok [OF seed(1)]] conjunct2 [OF stream_seed_ok [OF seed(2)]]
  define r0 where "r0 = stream_result args a b eff"
  obtain s where s: "compare_streams 0 la lb args a b = Inr (finish_streams 0 start s r0)"
    "if h < start then sc_hit s = None \<and> \<not> sc_examined s
     else sc_examined s \<and> stream_log.scanned va vb start h (cr_gaps r0) (sc_hit s) (sc_gaps s)"
    using compare_streams_scan [OF win start seed sorted eff _ r0_def] True unfolding va vb h by blast
  have "cr_status r0 = ''inconclusive''" "\<not> cr_diverged r0" "cr_time_ps r0 = None" by (simp_all add: r0_def)
  note f = finish_streams_status [OF this, where s = s and start = start]
  have gaps: "cr_gaps r0 = [] \<longleftrightarrow> covers req a \<and> covers req b" unfolding r0_def req by (rule stream_result_gaps(1) [OF e])
  have full: "h = eff" if "covers req a" "covers req b"
    using that safe by (simp add: h scan_horizon_def safe_end_def covers_def)
  have widths: "sg_width a = sg_width b" if "covers req a" "covers req b" using that True by (auto simp: covers_def)
  show ?thesis
  proof (cases "h < start")
    case True
    then have "\<not> (covers req a \<and> covers req b)" using full \<open>_ \<and> start \<le> eff\<close> by auto
    then show ?thesis using s True f by auto
  next
    case False
    then have v: "sc_examined s" "stream_log.scanned va vb start h (cr_gaps r0) (sc_hit s) (sc_gaps s)" using s(2) by simp_all
    note v2 = stream_log.scanned_verdict [OF v(2)]
    have "cr_status (finish_streams 0 start s r0) = ''equal'' \<longleftrightarrow> sc_hit s = None \<and> sc_gaps s = []"
      unfolding f(1) using v(1) by (simp split: option.split)
    moreover have "\<dots> \<longleftrightarrow> covers req a \<and> covers req b \<and> both_known va vb start eff \<and> (\<forall>t. start \<le> t \<and> t \<le> eff \<longrightarrow> va t = vb t)"
      unfolding v2(3) gaps using full by blast
    ultimately show ?thesis
      using s(1) True f(2-4) v2(1,2) widths by (cases "sc_hit s") auto
  qed
qed

definition bit_event :: "int \<Rightarrow> string \<Rightarrow> stream_event" where
  "bit_event t v = \<lparr>se_ps = t, se_fs = None, se_value = JStr v\<rparr>"

definition demo_stream :: "stream_event list \<Rightarrow> sig_stream" where
  "demo_stream es = \<lparr>sg_transitions = es, sg_predecessor = None, sg_initial = None, sg_gaps = [], sg_start_fs = 0,
     sg_width = Some 1, sg_end = 20, sg_scale = Some 1000, sg_range_known = True, sg_truncated = False,
     sg_safe_before = None, sg_missing = False, sg_error = None\<rparr>"

definition stream_args :: cmp_args where
  "stream_args = \<lparr>ca_wave_a = ''a.fsdb'', ca_signal_a = ''c'', ca_wave_b = ''b.fsdb'', ca_signal_b = ''c'', ca_start = 0, ca_end = 20\<rparr>"

lemma streams_exact_witness:
  "\<exists>r. compare_streams 0 (\<lambda>t. Inl (KeyError [])) (\<lambda>t. Inl (KeyError [])) stream_args
      (demo_stream [bit_event 0 ''0'', bit_event 7 ''1'']) (demo_stream [bit_event 0 ''0'', bit_event 9 ''1'']) = Inr r \<and>
    cr_diverged r \<and> cr_status r \<noteq> ''equal''"
proof -
  let ?a = "demo_stream [bit_event 0 ''0'', bit_event 7 ''1'']" and ?b = "demo_stream [bit_event 0 ''0'', bit_event 9 ''1'']"
  let ?l = "\<lambda>t :: int. Inl (KeyError []) :: json result"
  have seed: "stream_seed ?l 0 ?a = (Some ''0'', ?a)" "stream_seed ?l 0 ?b = (Some ''0'', ?b)" by code_simp+
  have bits: "bit_value (JStr ''1'') (Some 1) = Some ''1''" "bit_value (JStr ''0'') (Some 1) = Some ''0''" by code_simp+
  have win: "window_ok stream_args = Inr ()" "0 = ca_start stream_args"
    "20 = effective_end 0 (ca_end stream_args) (available_ends ?a ?b)" "20 = scan_horizon 20 ?a ?b" by code_simp+
  have ok: "sg_error (snd (stream_seed ?l 0 ?a)) = None" "sg_error (snd (stream_seed ?l 0 ?b)) = None"
    "sorted (map se_ps (sg_transitions ?a))" "sorted (map se_ps (sg_transitions ?b))"
    "sg_safe_before ?a \<noteq> None \<longrightarrow> sg_truncated ?a" "sg_safe_before ?b \<noteq> None \<longrightarrow> sg_truncated ?b"
    unfolding seed by (simp_all add: demo_stream_def bit_event_def)
  have wave: "stream_wave ?l 0 ?a t = (if t < 7 then Some ''0'' else Some ''1'')" "stream_wave ?l 0 ?b t = (if t < 9 then Some ''0'' else Some ''1'')" for t
    unfolding stream_wave_def seed by (simp_all add: demo_stream_def bit_event_def bits)
  have d: "differ (stream_wave ?l 0 ?a) (stream_wave ?l 0 ?b) 7" by (simp add: differ_def wave known_def)
  have w: "sg_width ?a = sg_width ?b" by (simp add: demo_stream_def)
  obtain r where "compare_streams 0 ?l ?l stream_args ?a ?b = Inr r"
    "cr_diverged r \<longleftrightarrow> (\<exists>t. 0 \<le> t \<and> t \<le> 20 \<and> differ (stream_wave ?l 0 ?a) (stream_wave ?l 0 ?b) t)"
    "cr_status r = ''equal'' \<longrightarrow> (\<forall>t. 0 \<le> t \<and> t \<le> 20 \<longrightarrow> stream_wave ?l 0 ?a t = stream_wave ?l 0 ?b t)"
    using streams_exact [OF win(1,2) ok win(3,4) refl refl refl] w by auto
  moreover have "\<exists>t. 0 \<le> t \<and> t \<le> 20 \<and> differ (stream_wave ?l 0 ?a) (stream_wave ?l 0 ?b) t" using d by (intro exI [of _ 7]) simp
  moreover have "\<not> (\<forall>t. 0 \<le> t \<and> t \<le> 20 \<longrightarrow> stream_wave ?l 0 ?a t = stream_wave ?l 0 ?b t)"
    using d by (auto simp: differ_def intro!: exI [of _ 7])
  ultimately show ?thesis by blast
qed

end
