(* ===== verification/Compare_Clock_Claims.thy ===== *)
theory Compare_Clock_Claims
  imports Compare_Stream_Claims
begin

text \<open>
  The edges \<open>clock_edges\<close> finds without a gap are the times at which the waveform of the clock steps, and
  the comparison at them samples the waveforms of the two signals there.
\<close>

section \<open>The edges of a clock\<close>

lemma edge_scan_gaps: "edge_scan edge an start stop before prev l es edges gaps = (E, G) \<Longrightarrow> \<exists>x. G = gaps @ x"
proof (induction es arbitrary: prev l edges gaps)
  case (Cons e es)
  then show ?case by (fastforce simp: Let_def split: if_splits)
qed simp

lemma is_edge_differ: "is_edge edge p v \<Longrightarrow> known p \<and> known v \<and> p \<noteq> v"
  by (auto simp: is_edge_def known_def split: if_splits)

definition steps :: "string \<Rightarrow> int \<Rightarrow> int \<Rightarrow> (int \<Rightarrow> string option) \<Rightarrow> int set" where
  "steps edge start stop v = {t. start \<le> t \<and> t \<le> stop \<and> is_edge edge (v (t - 1)) (v t)}"

lemma steps_flat:
  assumes "\<forall>t \<le> stop. v t = p" shows "steps edge start stop v = {}"
  using assms is_edge_differ [of edge p p] by (auto simp: steps_def)

lemma steps_event:
  assumes "\<forall>x \<in> set es. se_ps e < se_ps x" "se_ps e \<le> stop"
  shows "steps edge start stop (stream_value w p (e # es)) =
    (if start \<le> se_ps e \<and> is_edge edge p (bit_value (se_value e) w) then {se_ps e} else {}) \<union>
    steps edge start stop (stream_value w (bit_value (se_value e) w) es)"
proof -
  let ?v = "bit_value (se_value e) w" and ?t = "se_ps e"
  have early: "stream_value w ?v es t = ?v" if "t \<le> ?t" for t
    using assms(1) that by (intro stream_value_before) auto
  have here: "stream_value w p (e # es) ?t = ?v" "stream_value w p (e # es) (?t - 1) = p" using early [of ?t] by simp_all
  have "is_edge edge (stream_value w p (e # es) (t - 1)) (stream_value w p (e # es) t) \<longleftrightarrow>
      (t = ?t \<and> is_edge edge p ?v) \<or> is_edge edge (stream_value w ?v es (t - 1)) (stream_value w ?v es t)" for t
  proof -
    consider "t < ?t" | "t = ?t" | "?t < t" by linarith
    then show ?thesis
    proof cases
      case 1
      then show ?thesis using early [of t] early [of "t - 1"] is_edge_differ by auto
    next
      case 2
      have "\<not> is_edge edge (stream_value w ?v es (?t - 1)) (stream_value w ?v es ?t)"
        using early [of ?t] early [of "?t - 1"] is_edge_differ by auto
      then show ?thesis unfolding 2 here by simp
    qed simp
  qed
  then show ?thesis using assms(2) by (auto simp: steps_def)
qed

text \<open>Without a gap, no two events up to the end have the same time.\<close>

lemma edge_scan_apart:
  assumes "edge_scan edge an start stop False p (Some t) es edges [] = (E, [])" "sorted (map se_ps es)" "\<forall>e \<in> set es. t \<le> se_ps e"
    "x \<in> set es" "se_ps x \<le> stop"
  shows "t < se_ps x"
proof (cases es)
  case (Cons e es')
  have "se_ps e \<le> se_ps x" using assms(2,4) Cons by auto
  then have "\<not> stop < se_ps e" using assms(5) by simp
  then have "se_ps e \<noteq> t"
    using assms(1) Cons edge_scan_gaps by (fastforce simp: Let_def split: if_splits)
  then show ?thesis using assms(3) Cons \<open>se_ps e \<le> se_ps x\<close> by auto
qed (use assms(4) in simp)

lemma edge_scan_exact:
  assumes "edge_scan edge an start stop False p l es edges [] = (E, [])" "sorted (map se_ps es)"
    "\<forall>x. l = Some x \<longrightarrow> (\<forall>e \<in> set es. x \<le> se_ps e)" "\<forall>x \<in> set edges. \<forall>e \<in> set es. x < se_ps e \<or> l = Some x \<and> x \<le> se_ps e"
    "sorted_wrt (<) edges"
  shows "set E = set edges \<union> steps edge start stop (stream_value (Some 1) p es) \<and> sorted_wrt (<) E"
  using assms
proof (induction es arbitrary: p l edges)
  case Nil
  then show ?case using steps_flat [of stop "\<lambda>t. p" p] by simp
next
  case (Cons e es)
  let ?v = "bit_value (se_value e) (Some 1)" and ?t = "se_ps e"
  show ?case
  proof (cases "?t > stop")
    case True
    have "\<forall>t \<le> stop. stream_value (Some 1) p (e # es) t = p" using True by simp
    then have "steps edge start stop (stream_value (Some 1) p (e # es)) = {}" by (rule steps_flat)
    moreover have "E = edges" using Cons.prems(1) True by simp
    ultimately show ?thesis using Cons.prems(5) by (simp del: stream_value_simps)
  next
    case False
    define edges' where "edges' = (if ?t \<ge> start \<and> known p \<and> known ?v \<and> is_edge edge p ?v then edges @ [?t] else edges)"
    define g1 where "g1 = (if l = Some ?t then [] @ [''sampling_order_unresolved''] else [])"
    define gaps where "gaps = (if ?t \<ge> start \<and> \<not> (known p \<and> known ?v) \<and> p \<noteq> ?v \<and> (l \<noteq> None \<or> an)
        then g1 @ [''clock_alignment_unproven''] else g1)"
    have "edge_scan edge an start stop False p l (e # es) edges [] = edge_scan edge an start stop False ?v (Some ?t) es edges' gaps"
      unfolding edge_scan.simps Let_def edges'_def gaps_def g1_def using False by (simp split del: if_split)
    then have step: "edge_scan edge an start stop False ?v (Some ?t) es edges' gaps = (E, [])" using Cons.prems(1) by simp
    then have none: "gaps = []" using edge_scan_gaps by blast
    then have fresh: "l \<noteq> Some ?t" by (auto simp: gaps_def g1_def split: if_splits)
    have old: "\<forall>x \<in> set edges. x < ?t" using Cons.prems(4) fresh by fastforce
    have later: "?t < se_ps x" if "x \<in> set es" "se_ps x \<le> stop" for x
      using edge_scan_apart [OF step [unfolded none] _ _ that] Cons.prems(2) by auto
    have tail: "\<forall>x \<in> set es. ?t < se_ps x"
    proof
      fix x assume "x \<in> set es"
      then show "?t < se_ps x" using later False by (cases "se_ps x \<le> stop") auto
    qed
    have "set E = set edges' \<union> steps edge start stop (stream_value (Some 1) ?v es) \<and> sorted_wrt (<) E"
    proof (rule Cons.IH [OF step [unfolded none]])
      show "sorted_wrt (<) edges'" using Cons.prems(5) old by (simp add: edges'_def sorted_wrt_append)
      show "\<forall>x \<in> set edges'. \<forall>e \<in> set es. x < se_ps e \<or> Some ?t = Some x \<and> x \<le> se_ps e"
        using old tail by (auto simp: edges'_def intro: less_trans)
    qed (use Cons.prems(2) in auto)
    moreover have "set edges' = set edges \<union> (if start \<le> ?t \<and> is_edge edge p ?v then {?t} else {})"
      using is_edge_differ by (auto simp: edges'_def)
    ultimately show ?thesis using steps_event [OF tail, of stop edge start "Some 1" p] False
      by (simp add: Un_assoc Un_commute del: stream_value_simps)
  qed
qed

definition clock_wave :: "sig_stream \<Rightarrow> int \<Rightarrow> string option" where
  "clock_wave s t = stream_value (Some 1)
     (case stream_anchor s of Some e \<Rightarrow> bit_value (se_value e) (Some 1) | None \<Rightarrow> None) (sg_transitions s) t"

lemma dedupe_empty: "dedupe xs = [] \<longleftrightarrow> xs = []"
  by (metis dedupe_Nil set_dedupe set_empty)

lemma clock_edges_steps:
  assumes "clock_edges s edge start stop False = (E, [])" "sorted (map se_ps (sg_transitions s))"
  shows "set E = steps edge start stop (clock_wave s)" "sorted_wrt (<) E"
proof -
  let ?p = "case stream_anchor s of Some e \<Rightarrow> bit_value (se_value e) (Some 1) | None \<Rightarrow> None"
  obtain g G where g: "edge_scan edge (stream_anchor s \<noteq> None) start stop False ?p None (sg_transitions s) [] g = (E, G)" "dedupe G = []"
    using assms(1) by (auto simp: clock_edges_def Let_def split: option.splits prod.splits)
  then have "G = []" by (simp add: dedupe_empty)
  moreover from this have "g = []" using edge_scan_gaps [OF g(1)] by simp
  ultimately have e: "edge_scan edge (stream_anchor s \<noteq> None) start stop False ?p None (sg_transitions s) [] [] = (E, [])" using g(1) by simp
  have "clock_wave s = stream_value (Some 1) ?p (sg_transitions s)" by (simp add: clock_wave_def fun_eq_iff)
  then show "set E = steps edge start stop (clock_wave s)" "sorted_wrt (<) E" using edge_scan_exact [OF e assms(2)] by simp_all
qed

section \<open>Sampling\<close>

lemma consume_all_exact: "consume_all at w v es n = (stream_value w v es at, coming at es, n + length (past_events at es))"
  by (induction es arbitrary: v n) auto

definition samples_from :: "int \<Rightarrow> (int \<Rightarrow> string option) \<Rightarrow> clock_side \<Rightarrow> bool" where
  "samples_from at v sd \<longleftrightarrow> (\<forall>t \<ge> at. v t = stream_value (sg_width (ks_stream sd)) (ks_value sd) (ks_rest sd) t)"

lemma clock_side_samples:
  assumes "samples_from at v sd" "at \<le> x" "clock_side_to x sd = (sd', n)"
  shows "ks_value sd' = v x" "ks_stream sd' = ks_stream sd" "samples_from x v sd'"
proof -
  let ?w = "sg_width (ks_stream sd)"
  have sd': "sd' = sd\<lparr>ks_value := stream_value ?w (ks_value sd) (ks_rest sd) x, ks_rest := coming x (ks_rest sd)\<rparr>"
    using assms(3) by (simp add: clock_side_to_def consume_all_exact)
  then show "ks_value sd' = v x" "ks_stream sd' = ks_stream sd" using assms(1,2) by (simp_all add: samples_from_def)
  show "samples_from x v sd'" unfolding samples_from_def
  proof (intro allI impI)
    fix t assume t: "x \<le> t"
    then have "v t = stream_value ?w (ks_value sd) (ks_rest sd) t" using assms(1,2) by (simp add: samples_from_def)
    also have "\<dots> = stream_value ?w (stream_value ?w (ks_value sd) (ks_rest sd) x) (coming x (ks_rest sd)) t" by (rule stream_value_coming [OF t])
    finally show "v t = stream_value (sg_width (ks_stream sd')) (ks_value sd') (ks_rest sd') t" by (simp add: sd')
  qed
qed

text \<open>The samples that are taken, and the verdict on them.\<close>

definition samples_of :: "int \<Rightarrow> int \<Rightarrow> int list \<Rightarrow> int list" where
  "samples_of offset stop es = filter (\<lambda>x. x \<le> stop) (map (\<lambda>e. e + offset) es)"

definition reached :: "sig_stream \<Rightarrow> sig_stream \<Rightarrow> int list \<Rightarrow> int list" where
  "reached a b xs = takeWhile (\<lambda>x. \<not> sample_blocked x a \<and> \<not> sample_blocked x b) xs"

definition sampled :: "(int \<Rightarrow> string option) \<Rightarrow> (int \<Rightarrow> string option) \<Rightarrow> int list \<Rightarrow> (string \<times> string) list \<Rightarrow> cmp_hit option
    \<Rightarrow> (string \<times> string) list \<Rightarrow> bool" where
  "sampled va vb xs gs h gs2 \<longleftrightarrow> (case h of
      None \<Rightarrow> (\<forall>x \<in> set xs. \<not> differ va vb x) \<and> (gs2 = [] \<longrightarrow> gs = [] \<and> (\<forall>x \<in> set xs. known (va x) \<and> known (vb x)))
    | Some h \<Rightarrow> hi_at h \<in> set xs \<and> differ va vb (hi_at h) \<and> hi_value_a h = va (hi_at h) \<and> hi_value_b h = vb (hi_at h) \<and>
        (\<forall>x \<in> set xs. x < hi_at h \<longrightarrow> \<not> differ va vb x) \<and>
        (hi_earliest h \<longrightarrow> gs = [] \<and> (\<forall>x \<in> set xs. x < hi_at h \<longrightarrow> known (va x) \<and> known (vb x))))"

lemma clock_gap_nonempty: "clock_gap r s gs \<noteq> []"
  by (auto simp: clock_gap_def)

lemma sample_at_exact:
  assumes "samples_from at va (kc_a s)" "samples_from at vb (kc_b s)" "at \<le> x" "kc_hit s = None"
  shows "samples_from x va (kc_a (sample_at x s))" "samples_from x vb (kc_b (sample_at x s))"
    "ks_stream (kc_a (sample_at x s)) = ks_stream (kc_a s)" "ks_stream (kc_b (sample_at x s)) = ks_stream (kc_b s)"
    "kc_samples (sample_at x s) \<noteq> 0"
    "kc_hit (sample_at x s) = (if differ va vb x then Some \<lparr>hi_at = x, hi_value_a = va x, hi_value_b = vb x, hi_earliest = (kc_gaps s = [])\<rparr> else None)"
    "kc_gaps (sample_at x s) = (if known (va x) \<and> known (vb x) then kc_gaps s else clock_gap ''value_unknown'' ''both'' (kc_gaps s))"
proof -
  obtain a n where a: "clock_side_to x (kc_a s) = (a, n)" by (cases "clock_side_to x (kc_a s)")
  obtain b k where b: "clock_side_to x (kc_b s) = (b, k)" by (cases "clock_side_to x (kc_b s)")
  note ca = clock_side_samples [OF assms(1,3) a] and cb = clock_side_samples [OF assms(2,3) b]
  show "samples_from x va (kc_a (sample_at x s))" "samples_from x vb (kc_b (sample_at x s))"
    "ks_stream (kc_a (sample_at x s)) = ks_stream (kc_a s)" "ks_stream (kc_b (sample_at x s)) = ks_stream (kc_b s)"
    "kc_samples (sample_at x s) \<noteq> 0"
    using ca(2,3) cb(2,3) by (simp_all add: sample_at_def a b Let_def)
  show "kc_hit (sample_at x s) = (if differ va vb x then Some \<lparr>hi_at = x, hi_value_a = va x, hi_value_b = vb x, hi_earliest = (kc_gaps s = [])\<rparr> else None)"
    "kc_gaps (sample_at x s) = (if known (va x) \<and> known (vb x) then kc_gaps s else clock_gap ''value_unknown'' ''both'' (kc_gaps s))"
    using ca(1) cb(1) assms(4) by (simp_all add: sample_at_def a b Let_def differ_def)
qed

lemma sampled_cons:
  assumes "sampled va vb xs gs' h gs2" "\<not> differ va vb x" "\<forall>y \<in> set xs. x < y"
    "gs' = (if known (va x) \<and> known (vb x) then gs else clock_gap r s gs)"
  shows "sampled va vb (x # xs) gs h gs2"
  using assms clock_gap_nonempty [of r s gs] by (cases h) (auto simp: sampled_def split: if_splits)

theorem clock_loop_sampled:
  assumes "sorted_wrt (<) es" "kc_hit s = None" "samples_from at va (kc_a s)" "samples_from at vb (kc_b s)" "\<forall>e \<in> set es. at \<le> e + offset"
    "xs = reached (ks_stream (kc_a s)) (ks_stream (kc_b s)) (samples_of offset stop es)"
  shows "sampled va vb xs (kc_gaps s) (kc_hit (clock_loop offset stop es s)) (kc_gaps (clock_loop offset stop es s)) \<and>
    (kc_samples (clock_loop offset stop es s) = 0 \<longleftrightarrow> kc_samples s = 0 \<and> xs = [])"
  using assms
proof (induction es arbitrary: s at xs)
  case Nil
  then show ?case by (simp add: samples_of_def reached_def sampled_def)
next
  case (Cons e es)
  let ?x = "e + offset" and ?blocked = "\<lambda>x. sample_blocked x (ks_stream (kc_a s)) \<or> sample_blocked x (ks_stream (kc_b s))"
  consider (beyond) "?x > stop" | (stuck) "?x \<le> stop" "?blocked ?x" | (taken) "?x \<le> stop" "\<not> ?blocked ?x" by linarith
  then show ?case
  proof cases
    case beyond
    then have "samples_of offset stop (e # es) = samples_of offset stop es" by (simp add: samples_of_def)
    then show ?thesis using Cons.IH [of s at xs] Cons.prems beyond by (simp add: Let_def)
  next
    case stuck
    then have "xs = []" using Cons.prems(6) by (auto simp: samples_of_def reached_def)
    then show ?thesis using stuck Cons.prems(2) by (simp add: Let_def sampled_def)
  next
    case taken
    let ?s = "sample_at ?x s"
    have low: "at \<le> ?x" using Cons.prems(5) by simp
    note x = sample_at_exact [OF Cons.prems(3,4) low Cons.prems(2)]
    define ys where "ys = reached (ks_stream (kc_a s)) (ks_stream (kc_b s)) (samples_of offset stop es)"
    have xs: "xs = ?x # ys" using taken Cons.prems(6) by (simp add: samples_of_def reached_def ys_def)
    have later: "\<forall>y \<in> set ys. ?x < y"
      using Cons.prems(1) by (auto simp: ys_def reached_def samples_of_def dest!: set_takeWhileD)
    show ?thesis
    proof (cases "differ va vb ?x")
      case True
      then have "clock_loop offset stop (e # es) s = ?s" using taken x(6) by (simp add: Let_def)
      moreover have "known (va ?x)" "known (vb ?x)" using True by (simp_all add: differ_def)
      ultimately show ?thesis using True x(5-7) xs later by (auto simp: sampled_def)
    next
      case False
      then have hit: "kc_hit ?s = None" using x(6) by simp
      have "\<forall>e \<in> set es. ?x \<le> e + offset" using Cons.prems(1) by auto
      moreover have "ys = reached (ks_stream (kc_a ?s)) (ks_stream (kc_b ?s)) (samples_of offset stop es)"
        unfolding ys_def using x(3,4) by simp
      ultimately have ih: "sampled va vb ys (kc_gaps ?s) (kc_hit (clock_loop offset stop es ?s)) (kc_gaps (clock_loop offset stop es ?s)) \<and>
          (kc_samples (clock_loop offset stop es ?s) = 0 \<longleftrightarrow> kc_samples ?s = 0 \<and> ys = [])"
        using Cons.prems(1) hit x(1,2) by (intro Cons.IH) auto
      have "clock_loop offset stop (e # es) s = clock_loop offset stop es ?s" using taken hit by (simp add: Let_def)
      then show ?thesis using sampled_cons [OF conjunct1 [OF ih] False later x(7)] ih x(5) xs by simp
    qed
  qed
qed

section \<open>The comparison\<close>

lemma clock_start_samples:
  "samples_from at (stream_wave lookup start s) (clock_start lookup start s)"
  "ks_stream (clock_start lookup start s) = snd (stream_seed lookup start s)"
proof -
  have "sg_transitions (snd (stream_seed lookup start s)) = sg_transitions s \<and> sg_width (snd (stream_seed lookup start s)) = sg_width s"
    by (auto simp: stream_seed_def Let_def read_error_def split: sum.split py_error.split)
  then show "samples_from at (stream_wave lookup start s) (clock_start lookup start s)"
    "ks_stream (clock_start lookup start s) = snd (stream_seed lookup start s)"
    by (auto simp: samples_from_def clock_start_def stream_wave_def split: prod.split)
qed

lemma no_clock_gap_if [simp]: "(if c then clock_gap r s g else g) = [] \<longleftrightarrow> \<not> c \<and> g = []"
  by (simp add: clock_gap_nonempty)

lemma data_gaps_none:
  assumes "data_gaps stop side s gs = []" "sg_safe_before s \<noteq> None \<longrightarrow> sg_truncated s"
  shows "gs = []" "stop \<le> sg_end s" "sg_safe_before s = None"
proof -
  define g1 where "g1 = (case sg_error s of Some e \<Rightarrow> clock_gap e side gs | None \<Rightarrow> gs)"
  define g2 where "g2 = (case sg_scale s of None \<Rightarrow> clock_gap ''time_precision_loss'' side g1
      | Some x \<Rightarrow> if x < 1000 then clock_gap ''time_precision_loss'' side g1 else g1)"
  have "g2 = [] \<and> \<not> sg_truncated s \<and> \<not> sg_end s < stop"
    using assms(1) unfolding data_gaps_def g1_def [symmetric] Let_def g2_def [symmetric] no_clock_gap_if by blast
  moreover have "g2 = [] \<Longrightarrow> g1 = []" by (simp add: g2_def clock_gap_nonempty split: option.splits if_splits)
  moreover have "g1 = [] \<Longrightarrow> gs = []" by (simp add: g1_def clock_gap_nonempty split: option.splits)
  ultimately show "gs = []" "stop \<le> sg_end s" "sg_safe_before s = None" using assms(2) by auto
qed

lemma gaps_none: "fold (\<lambda>r. clock_gap r s) rs gs = [] \<longleftrightarrow> rs = [] \<and> gs = []"
proof (induction rs arbitrary: gs)
  case (Cons r rs)
  then show ?case using clock_gap_nonempty [of r s gs] by simp
qed simp

lemma seed_blocked:
  assumes "sg_safe_before s = None" "stop \<le> sg_end s" "\<not> sample_blocked y (snd (stream_seed lookup start s))" "x \<le> stop"
  shows "\<not> sample_blocked x (snd (stream_seed lookup start s))"
proof -
  have "sg_error (snd (stream_seed lookup start s)) = None" using assms(3) by (simp add: sample_blocked_def)
  then have "snd (stream_seed lookup start s) = s" "sg_error s = None" using stream_seed_ok by blast+
  then show ?thesis using assms(1,2,4) by (simp add: sample_blocked_def unsafe_at_def)
qed

lemma finish_clock_facts:
  assumes "kr_status r0 = ''inconclusive''" "\<not> kr_diverged r0" "kr_time r0 = None"
  shows "kr_status (finish_clock req stop s r0) = ''equal'' \<longleftrightarrow> kc_hit s = None \<and> kc_samples s \<noteq> 0 \<and> req \<le> stop \<and> kc_gaps s = []"
    "kr_time (finish_clock req stop s r0) = map_option hi_at (kc_hit s)"
    "kr_diverged (finish_clock req stop s r0) = (kc_hit s \<noteq> None)"
    "kc_hit s = Some h \<Longrightarrow> kr_value_a (finish_clock req stop s r0) = hi_value_a h \<and> kr_value_b (finish_clock req stop s r0) = hi_value_b h \<and>
       kr_earliest (finish_clock req stop s r0) = hi_earliest h"
  using assms clock_gap_nonempty by (auto simp: finish_clock_def Let_def not_less split: option.split)

lemma samples_sorted: "sorted_wrt (<) es \<Longrightarrow> sorted_wrt (<) (samples_of offset stop es)"
  by (simp add: samples_of_def sorted_wrt_filter sorted_wrt_map)

lemma sorted_takeWhile_before:
  "sorted_wrt (<) xs \<Longrightarrow> (z::int) \<in> set (takeWhile P xs) \<Longrightarrow> y \<in> set xs \<Longrightarrow> y < z \<Longrightarrow> y \<in> set (takeWhile P xs)"
  by (induction xs) (auto split: if_splits)

text \<open>The two ways through \<open>compare_clock\<close> that reach a verdict.\<close>

lemma compare_clock_scan:
  assumes eff: "eff = effective_end start stop (clock_ends ca cb)"
    and r: "r = compare_clock edge offset start stop ca cb read_a read_b la lb" "kr_status r = ''equal'' \<or> kr_time r \<noteq> None"
    and sorted: "sorted (map se_ps (sg_transitions ca))" "sorted (map se_ps (sg_transitions cb))"
  shows "\<exists>E gd s r0. clock_edges ca edge start eff False = (E, []) \<and> clock_edges cb edge start eff False = (E, []) \<and>
    gd = data_gaps eff ''b'' (read_b eff) (data_gaps eff ''a'' (read_a eff) []) \<and>
    s = clock_loop offset eff E \<lparr>kc_a = clock_start la start (read_a eff), kc_b = clock_start lb start (read_b eff), kc_compared = 0,
       kc_samples = 0, kc_gaps = gd, kc_hit = None\<rparr> \<and>
    r = finish_clock (requested_end stop eff (clock_ends ca cb)) eff s r0 \<and>
    kr_status r0 = ''inconclusive'' \<and> \<not> kr_diverged r0 \<and> kr_time r0 = None"
proof -
  obtain ea ga where a: "clock_edges ca edge start eff False = (ea, ga)" by (cases "clock_edges ca edge start eff False")
  obtain eb gb where b: "clock_edges cb edge start eff False = (eb, gb)" by (cases "clock_edges cb edge start eff False")
  let ?gs = "fold (\<lambda>r. clock_gap r ''both'') (ga @ gb) []"
  have no: "kr_status (clock_result0 eff g) \<noteq> ''equal''" "kr_time (clock_result0 eff g) = None" "\<not> kr_diverged (clock_result0 eff g)"
    "kr_status (clock_result0 eff g) = ''inconclusive''" for g
    by (simp_all add: clock_result0_def)
  note u = r(1) [unfolded compare_clock_def Let_def eff [symmetric] a b prod.case]
  have ok: "\<not> (ea = [] \<or> ea \<noteq> eb \<or> ?gs \<noteq> [])"
  proof
    assume "ea = [] \<or> ea \<noteq> eb \<or> ?gs \<noteq> []"
    then have "r = clock_result0 eff (clock_gap ''clock_alignment_unproven'' ''both'' ?gs)" unfolding u by (rule if_P)
    then show False using r(2) no by simp
  qed
  note u2 = u [unfolded if_not_P [OF ok]]
  have w: "\<not> sg_width (read_a eff) \<noteq> sg_width (read_b eff)"
  proof
    assume "sg_width (read_a eff) \<noteq> sg_width (read_b eff)"
    then have "r = clock_result0 eff (clock_gap ''width_mismatch'' ''both'' (data_gaps eff ''b'' (read_b eff) (data_gaps eff ''a'' (read_a eff) ?gs)))"
      unfolding u2 by (rule if_P)
    then show False using r(2) no by simp
  qed
  have none: "ga = []" "gb = []" "?gs = []" "eb = ea" using ok gaps_none [where s = "''both''" and rs = "ga @ gb" and gs = "[]"] by auto
  show ?thesis
    using u2 [unfolded if_not_P [OF w]] a b no(2-4) unfolding none
    by (intro exI [of _ ea] exI conjI) (auto simp: clock_result0_def)
qed

text \<open>C14. Let the changes of two clocks be in time order. When the comparison at aligned clock edges calls two signals equal,
  both clocks step at the same times of the window, at least one sample falls into it, and at every sample both
  signals have known and equal values. When it reports a difference, it is at a sample where both values are
  known and differ, with these values, no earlier sample has a difference, and it is called proven earliest only
  if all earlier samples have known values.\<close>

theorem clock_comparison_sound:
  assumes r: "r = compare_clock edge offset start stop ca cb read_a read_b la lb"
    and sorted: "sorted (map se_ps (sg_transitions ca))" "sorted (map se_ps (sg_transitions cb))"
    and eff: "eff = effective_end start stop (clock_ends ca cb)"
    and safe: "sg_safe_before (read_a eff) \<noteq> None \<longrightarrow> sg_truncated (read_a eff)"
      "sg_safe_before (read_b eff) \<noteq> None \<longrightarrow> sg_truncated (read_b eff)"
    and E: "E = steps edge start eff (clock_wave ca)"
    and va: "va = stream_wave la start (read_a eff)" and vb: "vb = stream_wave lb start (read_b eff)"
  shows "(kr_status r = ''equal'' \<longrightarrow> E = steps edge start eff (clock_wave cb) \<and> (\<exists>t \<in> E. t + offset \<le> eff) \<and>
      (\<forall>t \<in> E. t + offset \<le> eff \<longrightarrow> known (va (t + offset)) \<and> va (t + offset) = vb (t + offset))) \<and>
    (\<forall>x. kr_time r = Some x \<longrightarrow> E = steps edge start eff (clock_wave cb) \<and> x - offset \<in> E \<and> x \<le> eff \<and> differ va vb x \<and>
      kr_value_a r = va x \<and> kr_value_b r = vb x \<and> (\<forall>t \<in> E. t + offset < x \<longrightarrow> \<not> differ va vb (t + offset)) \<and>
      (kr_earliest r \<longrightarrow> (\<forall>t \<in> E. t + offset < x \<longrightarrow> known (va (t + offset)) \<and> known (vb (t + offset)))))"
proof (cases "kr_status r = ''equal'' \<or> kr_time r \<noteq> None")
  case True
  obtain es gd s r0 where x: "clock_edges ca edge start eff False = (es, [])" "clock_edges cb edge start eff False = (es, [])"
    "gd = data_gaps eff ''b'' (read_b eff) (data_gaps eff ''a'' (read_a eff) [])"
    "s = clock_loop offset eff es \<lparr>kc_a = clock_start la start (read_a eff), kc_b = clock_start lb start (read_b eff), kc_compared = 0,
       kc_samples = 0, kc_gaps = gd, kc_hit = None\<rparr>"
    "r = finish_clock (requested_end stop eff (clock_ends ca cb)) eff s r0"
    "kr_status r0 = ''inconclusive''" "\<not> kr_diverged r0" "kr_time r0 = None"
    using compare_clock_scan [OF eff r True sorted] by blast
  have es: "set es = E" "sorted_wrt (<) es" "steps edge start eff (clock_wave cb) = E"
    using clock_edges_steps [OF x(1) sorted(1)] clock_edges_steps [OF x(2) sorted(2)] E by simp_all
  define a b where "a = snd (stream_seed la start (read_a eff))" and "b = snd (stream_seed lb start (read_b eff))"
  define xs where "xs = reached a b (samples_of offset eff es)"
  have low: "\<exists>at. \<forall>e \<in> set es. at \<le> e + offset"
  proof (cases es)
    case (Cons e l)
    then show ?thesis using es(2) by (intro exI [of _ "e + offset"]) (auto intro: less_imp_le)
  qed simp
  define s0 where "s0 = \<lparr>kc_a = clock_start la start (read_a eff), kc_b = clock_start lb start (read_b eff), kc_compared = 0,
       kc_samples = 0, kc_gaps = gd, kc_hit = None\<rparr>"
  have s0: "s = clock_loop offset eff es s0" "kc_hit s0 = None" "kc_gaps s0 = gd" "kc_samples s0 = 0"
    "\<And>at. samples_from at va (kc_a s0)" "\<And>at. samples_from at vb (kc_b s0)" "ks_stream (kc_a s0) = a" "ks_stream (kc_b s0) = b"
    by (simp_all add: x(4) s0_def va vb a_def b_def clock_start_samples)
  obtain at where at: "\<forall>e \<in> set es. at \<le> e + offset" using low by blast
  have "xs = reached (ks_stream (kc_a s0)) (ks_stream (kc_b s0)) (samples_of offset eff es)" by (simp add: xs_def s0)
  note clock_loop_sampled [OF es(2) s0(2,5,6) at this, folded s0(1), unfolded s0(3,4)]
  then have v: "sampled va vb xs gd (kc_hit s) (kc_gaps s)" and n: "kc_samples s = 0 \<longleftrightarrow> xs = []" by simp_all
  note f = finish_clock_facts [OF x(6-8), where req = "requested_end stop eff (clock_ends ca cb)" and stop = eff and s = s, folded x(5)]
  have members: "set (samples_of offset eff es) = {y. y - offset \<in> E \<and> y \<le> eff}" 
    by (auto simp: samples_of_def es(1) [symmetric] image_iff intro!: bexI [of _ "_ - offset"])
  have sub: "set xs \<subseteq> {y. y - offset \<in> E \<and> y \<le> eff}" unfolding members [symmetric] by (auto simp: xs_def reached_def dest: set_takeWhileD)
  have before: "y \<in> set xs" if "z \<in> set xs" "y < z" "y - offset \<in> E" for y z
    using that sub sorted_takeWhile_before [OF samples_sorted [OF es(2)]] members unfolding xs_def reached_def by fastforce
  have all: "xs = samples_of offset eff es" if gd: "gd = []" and ne: "xs \<noteq> []"
  proof -
    obtain y where y: "\<not> sample_blocked y a" "\<not> sample_blocked y b"
      using ne unfolding xs_def reached_def by (cases "samples_of offset eff es") (auto split: if_splits)
    note gb = data_gaps_none [OF _ safe(2), of eff "''b''" "data_gaps eff ''a'' (read_a eff) []", folded x(3), OF gd]
    note ga = data_gaps_none [OF gb(1) safe(1)]
    have "\<not> sample_blocked z a \<and> \<not> sample_blocked z b" if "z \<in> set (samples_of offset eff es)" for z
      using that members seed_blocked [OF ga(3,2) y(1) [unfolded a_def]] seed_blocked [OF gb(3,2) y(2) [unfolded b_def]]
      unfolding a_def b_def by blast
    then show ?thesis unfolding xs_def reached_def by (simp add: takeWhile_eq_all_conv)
  qed
  have "E = steps edge start eff (clock_wave cb) \<and> (\<exists>t \<in> E. t + offset \<le> eff) \<and>
      (\<forall>t \<in> E. t + offset \<le> eff \<longrightarrow> known (va (t + offset)) \<and> va (t + offset) = vb (t + offset))" if "kr_status r = ''equal''"
  proof -
    have q: "kc_hit s = None" "xs \<noteq> []" "kc_gaps s = []" using that f(1) n by auto
    then have k: "gd = []" "\<forall>x \<in> set xs. known (va x) \<and> known (vb x) \<and> \<not> differ va vb x" using v by (auto simp: sampled_def)
    have m: "set xs = {y. y - offset \<in> E \<and> y \<le> eff}" using all [OF k(1) q(2)] members by simp
    obtain y where "y \<in> set xs" using q(2) by (cases xs) auto
    then have "y - offset \<in> E \<and> y - offset + offset \<le> eff" using m by simp
    moreover have "known (va (t + offset)) \<and> va (t + offset) = vb (t + offset)" if "t \<in> E" "t + offset \<le> eff" for t
      using k(2) m that by (auto simp: differ_def)
    ultimately show ?thesis using es(3) by blast
  qed
  moreover have "E = steps edge start eff (clock_wave cb) \<and> y - offset \<in> E \<and> y \<le> eff \<and> differ va vb y \<and>
      kr_value_a r = va y \<and> kr_value_b r = vb y \<and> (\<forall>t \<in> E. t + offset < y \<longrightarrow> \<not> differ va vb (t + offset)) \<and>
      (kr_earliest r \<longrightarrow> (\<forall>t \<in> E. t + offset < y \<longrightarrow> known (va (t + offset)) \<and> known (vb (t + offset))))" if time: "kr_time r = Some y" for y
  proof -
    obtain h where h: "kc_hit s = Some h" "hi_at h = y" using time f(2) by auto
    then have w: "y \<in> set xs" "differ va vb y" "hi_value_a h = va y" "hi_value_b h = vb y"
      "\<forall>x \<in> set xs. x < y \<longrightarrow> \<not> differ va vb x" "hi_earliest h \<longrightarrow> (\<forall>x \<in> set xs. x < y \<longrightarrow> known (va x) \<and> known (vb x))"
      using v by (auto simp: sampled_def)
    have "t + offset \<in> set xs" if "t \<in> E" "t + offset < y" for t using before [OF w(1) that(2)] that(1) by simp
    then show ?thesis using w f(4) [OF h(1)] es(3) sub by auto
  qed
  ultimately show ?thesis by blast
qed auto

lemma clock_comparison_sound_witness:
  "\<exists>r. r = compare_clock ''posedge'' 1 0 20 (demo_stream [bit_event 0 ''0'', bit_event 5 ''1''])
      (demo_stream [bit_event 0 ''0'', bit_event 5 ''1'']) (\<lambda>_. demo_stream [bit_event 0 ''0'', bit_event 6 ''1''])
      (\<lambda>_. demo_stream [bit_event 0 ''0'', bit_event 7 ''1'']) (\<lambda>t. Inl (KeyError [])) (\<lambda>t. Inl (KeyError [])) \<and>
    kr_time r = Some 6 \<and> kr_value_a r = Some ''1'' \<and> kr_value_b r = Some ''0''"
proof -
  let ?c = "demo_stream [bit_event 0 ''0'', bit_event 5 ''1'']" and ?a = "demo_stream [bit_event 0 ''0'', bit_event 6 ''1'']"
    and ?b = "demo_stream [bit_event 0 ''0'', bit_event 7 ''1'']" and ?l = "\<lambda>t :: int. Inl (KeyError []) :: json result"
  define r where "r = compare_clock ''posedge'' 1 0 20 ?c ?c (\<lambda>_. ?a) (\<lambda>_. ?b) ?l ?l"
  have t: "kr_time r = Some 6" unfolding r_def by code_simp
  have s: "sorted (map se_ps (sg_transitions ?c))" "sg_safe_before ?a \<noteq> None \<longrightarrow> sg_truncated ?a" "sg_safe_before ?b \<noteq> None \<longrightarrow> sg_truncated ?b"
    by (simp_all add: demo_stream_def bit_event_def)
  have v: "kr_value_a r = stream_wave ?l 0 ?a 6 \<and> kr_value_b r = stream_wave ?l 0 ?b 6"
    using clock_comparison_sound [OF r_def s(1,1) refl s(2,3) refl refl refl] t by blast
  moreover have "stream_wave ?l 0 ?a 6 = Some ''1''" "stream_wave ?l 0 ?b 6 = Some ''0''" by code_simp+
  ultimately show ?thesis using t r_def by auto
qed

end
