(* ===== verification/Cq_Index.thy ===== *)
theory Cq_Index
  imports Ir_Document Vcd_Parse "HOL-Library.AList"
begin

text \<open>
  src/src/connectivity_query.py, part one: selections as endpoints, the indexes that
  \<open>ConnectivityQueryEngine.__init__\<close> builds from the connectivity IR, and the resolution of a public
  signal path against it.

  A \<open>SignalResolutionError\<close> is the \<open>ValueError\<close> of its code. An index (a \<open>defaultdict(list)\<close> whose
  lists are sorted at the end) is the list of its entries with their keys, in the order of building;
  \<open>lookup\<close> gives the sorted list of a key. Cancellation is not modelled.
\<close>

section \<open>Selections as endpoints\<close>

type_synonym endpoint = "string \<times> string"
type_synonym state_key = "endpoint \<times> int list"

definition endpoint_key :: "signal_selection \<Rightarrow> endpoint result" where
  "endpoint_key s = (case ss_path s of
     None \<Rightarrow> Inl (ValueError ''query endpoint must be hierarchy-bound'')
   | Some p \<Rightarrow> Inr (p, ss_symbol s))"

definition state_of :: "signal_selection \<Rightarrow> state_key result" where
  "state_of s = ebind (endpoint_key s) (\<lambda>k. Inr (k, ss_bits s))"

definition overlaps :: "int list \<Rightarrow> int list \<Rightarrow> bool" where
  "overlaps a b \<longleftrightarrow> list_ex (\<lambda>x. x \<in> set a) b"

definition same_endpoint :: "signal_selection \<Rightarrow> signal_selection \<Rightarrow> bool result" where
  "same_endpoint a b = ebind (endpoint_key a) (\<lambda>k. ebind (endpoint_key b) (\<lambda>l.
     Inr (k = l \<and> overlaps (ss_bits a) (ss_bits b))))"

definition selection_at :: "signal_selection \<Rightarrow> nat list \<Rightarrow> signal_selection result" where
  "selection_at s ps = mk_selection \<lparr>ss_symbol = ss_symbol s, ss_bits = map (\<lambda>i. ss_bits s ! i) ps, ss_path = ss_path s\<rparr>"

definition overlap_positions :: "int list \<Rightarrow> int list \<Rightarrow> nat list" where
  "overlap_positions bits overlap = filter (\<lambda>i. bits ! i \<in> set overlap) [0..<length bits]"

definition aligned_overlap :: "signal_selection \<Rightarrow> signal_selection \<Rightarrow> int list \<Rightarrow>
    (signal_selection \<times> signal_selection \<times> nat list) result" where
  "aligned_overlap s t overlap =
     (let ps = overlap_positions (ss_bits s) overlap in
      if ss_width s \<noteq> ss_width t then Inl (ValueError ''aligned selections must have equal widths'')
      else if ps = [] then Inl (ValueError ''aligned selections do not overlap requested bits'')
      else ebind (selection_at s ps) (\<lambda>a. ebind (selection_at t ps) (\<lambda>b. Inr (a, b, ps))))"

text \<open>A dict keeps the last value of a key.\<close>

definition bit_map :: "int list \<Rightarrow> int list \<Rightarrow> int \<rightharpoonup> int" where
  "bit_map xs ys = map_of (rev (zip xs ys))"

definition map_selection :: "signal_selection \<Rightarrow> signal_selection \<Rightarrow> signal_selection \<Rightarrow> signal_selection result" where
  "map_selection s mfrom mto =
     (let m = bit_map (ss_bits mfrom) (ss_bits mto); bs = filter (\<lambda>b. m b \<noteq> None) (ss_bits s) in
      if bs = [] then Inl (ValueError ''selected bits do not overlap mapping'')
      else mk_selection \<lparr>ss_symbol = ss_symbol mto, ss_bits = map (\<lambda>b. the (m b)) bs, ss_path = ss_path mto\<rparr>)"

section \<open>The entries of the indexes\<close>

record flow_segment =
  fl_source :: signal_selection
  fl_target :: signal_selection
  fl_binding :: port_binding

record terminal =
  tm_mapping :: bit_mapping
  tm_binding :: port_binding

record path_edge =
  pe_id :: string
  pe_kind :: edge_kind
  pe_source :: signal_selection
  pe_target :: signal_selection
  pe_evidence :: source_evidence
  pe_exact :: bool
  pe_style :: "binding_style option"
  pe_role :: "string option"
  pe_boundary :: "boundary_kind option"
  pe_procedure :: "string option"

record index =
  ix_incoming :: "(endpoint \<times> flow_segment) list"
  ix_outgoing :: "(endpoint \<times> flow_segment) list"
  ix_constant :: "(endpoint \<times> terminal) list"
  ix_unresolved :: "(endpoint \<times> terminal) list"
  ix_writes :: "(endpoint \<times> assignment_fact) list"
  ix_reads :: "(endpoint \<times> assignment_fact \<times> dependency_fact) list"
  ix_paths :: "(endpoint \<times> path_edge) list"
  ix_exclusions :: "(endpoint \<times> signal_selection \<times> coverage_gap) list"

definition index0 :: index where
  "index0 = \<lparr>ix_incoming = [], ix_outgoing = [], ix_constant = [], ix_unresolved = [], ix_writes = [],
     ix_reads = [], ix_paths = [], ix_exclusions = []\<rparr>"

definition oriented_segments :: "port_binding \<Rightarrow> bit_mapping \<Rightarrow> flow_segment list result" where
  "oriented_segments b m = (case bm_source m of
     None \<Rightarrow> Inl (ValueError ''signal binding mapping is missing its source'')
   | Some actual \<Rightarrow>
      (let formal = bm_target m;
           inward = \<lparr>fl_source = actual, fl_target = formal, fl_binding = b\<rparr>;
           outward = \<lparr>fl_source = formal, fl_target = actual, fl_binding = b\<rparr>
       in case pb_direction b of
            DirInput \<Rightarrow> Inr [inward]
          | DirOutput \<Rightarrow> Inr [outward]
          | DirInout \<Rightarrow> Inr [inward, outward]
          | DirInterface \<Rightarrow>
              if pb_style b \<in> {StyleInterface, StyleModport}
              then Inl (ValueError (''interface binding '' @ pb_id b @ '' must use member input/output/inout direction''))
              else Inl (ValueError ''unsupported binding direction'')))"

definition binding_edge :: "flow_segment \<Rightarrow> path_edge result" where
  "binding_edge f = ebind (binding_edge_kind (fl_binding f)) (\<lambda>k.
     Inr \<lparr>pe_id = pb_id (fl_binding f), pe_kind = k, pe_source = fl_source f, pe_target = fl_target f,
       pe_evidence = pb_evidence (fl_binding f), pe_exact = True, pe_style = Some (pb_style (fl_binding f)),
       pe_role = None, pe_boundary = None, pe_procedure = None\<rparr>)"

definition add_segment :: "flow_segment \<Rightarrow> index \<Rightarrow> index result" where
  "add_segment f ix =
     ebind (endpoint_key (fl_target f)) (\<lambda>t.
     ebind (endpoint_key (fl_source f)) (\<lambda>s.
     ebind (binding_edge f) (\<lambda>e.
       Inr (ix\<lparr>ix_incoming := ix_incoming ix @ [(t, f)], ix_outgoing := ix_outgoing ix @ [(s, f)],
               ix_paths := ix_paths ix @ [(s, e)]\<rparr>))))"

text \<open>A fold whose step may fail.\<close>

fun efold :: "('a \<Rightarrow> 'b \<Rightarrow> 'b result) \<Rightarrow> 'a list \<Rightarrow> 'b \<Rightarrow> 'b result" where
  "efold f [] s = Inr s"
| "efold f (x # xs) s = ebind (f x s) (efold f xs)"

definition inbound :: "port_binding \<Rightarrow> bool" where
  "inbound b \<longleftrightarrow> pb_direction b \<in> {DirInput, DirInout}"

definition index_mapping :: "port_binding \<Rightarrow> bit_mapping \<Rightarrow> index \<Rightarrow> index result" where
  "index_mapping b m ix = (case bm_kind m of
     SrcConstant \<Rightarrow>
       if inbound b then ebind (endpoint_key (bm_target m)) (\<lambda>t.
         Inr (ix\<lparr>ix_constant := ix_constant ix @ [(t, \<lparr>tm_mapping = m, tm_binding = b\<rparr>)]\<rparr>))
       else Inr ix
   | SrcUnresolved \<Rightarrow>
       if inbound b then ebind (endpoint_key (bm_target m)) (\<lambda>t.
         Inr (ix\<lparr>ix_unresolved := ix_unresolved ix @ [(t, \<lparr>tm_mapping = m, tm_binding = b\<rparr>)]\<rparr>))
       else Inr ix
   | SrcSignal \<Rightarrow> ebind (oriented_segments b m) (\<lambda>fs. efold add_segment fs ix))"

definition index_binding :: "port_binding \<Rightarrow> index \<Rightarrow> index result" where
  "index_binding b ix = efold (index_mapping b) (pb_mappings b) ix"

section \<open>Assignments\<close>

definition role_text :: "dependency_role \<Rightarrow> string" where
  "role_text r = the (map_of DEPENDENCY_ROLES r)"

definition kind_text :: "edge_kind \<Rightarrow> string" where
  "kind_text k = the (map_of EDGE_KINDS k)"

definition boundary_gap :: "string \<Rightarrow> string \<Rightarrow> signal_selection \<Rightarrow> signal_selection \<Rightarrow> source_evidence \<Rightarrow> coverage_gap" where
  "boundary_gap code message s t e = \<lparr>cg_code = code, cg_message = message, cg_impact = CovInconclusive, cg_constructs = [],
     cg_scopes = [selection_path s False, selection_path t False], cg_location = Some (se_location e)\<rparr>"

definition assignment_edge :: "assignment_fact \<Rightarrow> dependency_fact \<Rightarrow> signal_selection \<Rightarrow> signal_selection \<Rightarrow> path_edge" where
  "assignment_edge a d s t = \<lparr>pe_id = af_id a, pe_kind = af_kind a, pe_source = s, pe_target = t,
     pe_evidence = af_evidence a, pe_exact = df_exact d, pe_style = None, pe_role = Some (role_text (df_role d)),
     pe_boundary = Some (af_boundary a), pe_procedure = af_procedure a\<rparr>"

definition index_dependency :: "string \<Rightarrow> assignment_fact \<Rightarrow> dependency_fact \<Rightarrow> index \<Rightarrow> index result" where
  "index_dependency path a d ix =
     (let ix1 = ix\<lparr>ix_reads := ix_reads ix @ [((path, ss_symbol (df_source d)), a, d)]\<rparr> in
      ebind (selection_bind (df_source d) path) (\<lambda>s.
      ebind (selection_bind (df_target d) path) (\<lambda>t.
      ebind (endpoint_key s) (\<lambda>k.
        if af_boundary a = BoundarySequential then
          Inr (ix1\<lparr>ix_exclusions := ix_exclusions ix1 @ [(k, s, boundary_gap ''sequential_boundary''
            ''path traversal does not cross sequential state'' s t (af_evidence a))]\<rparr>)
        else if df_role d = RoleControl then
          Inr (ix1\<lparr>ix_exclusions := ix_exclusions ix1 @ [(k, s, boundary_gap ''control_dependency_excluded''
            ''path traversal excludes control-only dependencies'' s t (af_evidence a))]\<rparr>)
        else Inr (ix1\<lparr>ix_paths := ix_paths ix1 @ [(k, assignment_edge a d s t)]\<rparr>)))))"

definition index_assignment :: "string \<Rightarrow> assignment_fact \<Rightarrow> index \<Rightarrow> index result" where
  "index_assignment path a ix =
     efold (index_dependency path a) (af_dependencies a)
       (ix\<lparr>ix_writes := ix_writes ix @ [((path, ss_symbol (af_target a)), a)]\<rparr>)"

definition definition_of :: "connectivity_ir \<Rightarrow> string \<Rightarrow> definition_template result" where
  "definition_of ir n = (case definition_index ir n of None \<Rightarrow> Inl (KeyError n) | Some d \<Rightarrow> Inr d)"

definition index_instance :: "connectivity_ir \<Rightarrow> instance_decl \<Rightarrow> index \<Rightarrow> index result" where
  "index_instance ir i ix = ebind (definition_of ir (id_definition i)) (\<lambda>d.
     efold (index_assignment (id_path i)) (dt_assignments d) ix)"

definition build_index :: "connectivity_ir \<Rightarrow> index result" where
  "build_index ir = ebind (efold index_binding (ir_bindings ir) index0) (efold (index_instance ir) (ir_instances ir))"

section \<open>The order of a lookup\<close>

definition flow_key :: "flow_segment \<Rightarrow> string \<times> string \<times> string \<times> int list \<times> string \<times> string \<times> int list" where
  "flow_key f = (pb_id (fl_binding f), (case ss_path (fl_source f) of None \<Rightarrow> [] | Some p \<Rightarrow> p), ss_symbol (fl_source f),
     ss_bits (fl_source f), (case ss_path (fl_target f) of None \<Rightarrow> [] | Some p \<Rightarrow> p), ss_symbol (fl_target f), ss_bits (fl_target f))"

definition terminal_key :: "terminal \<Rightarrow> string \<times> string \<times> string \<times> int list \<times> string \<times> string list \<times> string" where
  "terminal_key t = (let m = tm_mapping t in
     (pb_id (tm_binding t), (case ss_path (bm_target m) of None \<Rightarrow> [] | Some p \<Rightarrow> p), ss_symbol (bm_target m),
      ss_bits (bm_target m), the (map_of BINDING_SOURCE_KINDS (bm_kind m)), bm_constant m,
      (case bm_reason m of None \<Rightarrow> [] | Some r \<Rightarrow> r)))"

definition read_key :: "assignment_fact \<times> dependency_fact \<Rightarrow> string \<times> string \<times> string \<times> int list \<times> string \<times> int list" where
  "read_key p = (case p of (a, d) \<Rightarrow> (af_id a, role_text (df_role d), ss_symbol (df_source d), ss_bits (df_source d),
     ss_symbol (df_target d), ss_bits (df_target d)))"

definition path_edge_key :: "path_edge \<Rightarrow> string \<times> string \<times> int list \<times> string \<times> string \<times> int list \<times> string \<times> int" where
  "path_edge_key e = ((case ss_path (pe_target e) of None \<Rightarrow> [] | Some p \<Rightarrow> p), ss_symbol (pe_target e), ss_bits (pe_target e),
     kind_text (pe_kind e), pe_id e, ss_bits (pe_source e), loc_file (se_location (pe_evidence e)),
     loc_line (se_location (pe_evidence e)))"

definition lookup :: "('a \<Rightarrow> 'b :: linorder) \<Rightarrow> (endpoint \<times> 'a) list \<Rightarrow> endpoint \<Rightarrow> 'a list" where
  "lookup key xs k = sort_key key (map snd (filter (\<lambda>p. fst p = k) xs))"

lemma set_lookup [simp]: "set (lookup key xs k) = {x. (k, x) \<in> set xs}"
  by (force simp: lookup_def)

section \<open>Resolution of a signal path\<close>

text \<open>
  The groups of \<open>_TRAILING_SELECT_RE\<close>: a base of at least one character (no line feed), then
  optionally a bit or a range in brackets at the very end.
\<close>

definition split_select :: "string \<Rightarrow> (string \<times> (int \<times> int) option) option" where
  "split_select s =
     (if s = [] \<or> char_of (10 :: nat) \<in> set s then None
      else (let tail = last_bracket s; base = take (length s - length tail) s in
        case (if base = [] \<or> tail = [] then None else read_range tail) of
          Some r \<Rightarrow> Some (base, Some r)
        | None \<Rightarrow> Some (s, None)))"

fun instance_prefix_at :: "nat \<Rightarrow> string \<Rightarrow> string list \<Rightarrow> string option" where
  "instance_prefix_at 0 s paths = None"
| "instance_prefix_at (Suc k) s paths =
     (if s ! Suc k = CHR ''.'' \<and> Suc k < length s - 1 \<and> take (Suc k) s \<in> set paths then Some (take (Suc k) s)
      else instance_prefix_at k s paths)"

definition longest_instance_prefix :: "string \<Rightarrow> string list \<Rightarrow> string option" where
  "longest_instance_prefix s paths = instance_prefix_at (length s - 1) s paths"

record resolved_symbol =
  rs_symbol :: string
  rs_declared :: "int list"
  rs_canonical :: "int list"

definition definition_by_name :: "connectivity_ir \<Rightarrow> string \<Rightarrow> definition_template result" where
  "definition_by_name ir n = (case definition_index ir n of
     Some d \<Rightarrow> Inr d
   | None \<Rightarrow> (case filter (\<lambda>d. dt_name d = n) (ir_definitions ir) of
       [d] \<Rightarrow> Inr d
     | _ \<Rightarrow> Inl (KeyError (''interface definition '' @ n @ '' is not uniquely available''))))"

definition instance_definition :: "connectivity_ir \<Rightarrow> string \<Rightarrow> definition_template result" where
  "instance_definition ir path = (case instance_index ir path of
     None \<Rightarrow> Inl (KeyError path) | Some i \<Rightarrow> definition_of ir (id_definition i))"

definition split_dot :: "string \<Rightarrow> (string \<times> string) option" where
  "split_dot s = (if CHR ''.'' \<in> set s then
     Some (takeWhile (\<lambda>c. c \<noteq> CHR ''.'') s, drop 1 (dropWhile (\<lambda>c. c \<noteq> CHR ''.'') s)) else None)"

definition resolve_symbol :: "connectivity_ir \<Rightarrow> string \<Rightarrow> string \<Rightarrow> resolved_symbol option result" where
  "resolve_symbol ir path symb = ebind (instance_definition ir path) (\<lambda>d.
     case direct_signal_range d symb of
       Some r \<Rightarrow> Inr (Some \<lparr>rs_symbol = symb, rs_declared = br_indices r, rs_canonical = br_indices r\<rparr>)
     | None \<Rightarrow> (case definition_member d symb of
         Some m \<Rightarrow> Inr (Some \<lparr>rs_symbol = pm_aggregate m, rs_declared = br_indices (pm_range m), rs_canonical = pm_bits m\<rparr>)
       | None \<Rightarrow> (case split_dot symb of
           None \<Rightarrow> Inr None
         | Some (port_name, member_name) \<Rightarrow> (case definition_port d port_name of
             None \<Rightarrow> Inr None
           | Some p \<Rightarrow> if \<not> given (pd_interface p) then Inr None
               else ebind (definition_by_name ir (the (pd_interface p))) (\<lambda>idef.
                 case direct_signal_range idef member_name of
                   None \<Rightarrow> Inr None
                 | Some r \<Rightarrow> Inr (Some \<lparr>rs_symbol = symb, rs_declared = br_indices r, rs_canonical = br_indices r\<rparr>))))))"

definition not_declared :: "connectivity_ir \<Rightarrow> string \<Rightarrow> string \<Rightarrow> string list \<Rightarrow> py_error result" where
  "not_declared ir path symb candidates = ebind (instance_definition ir path) (\<lambda>d.
     let root = takeWhile (\<lambda>c. c \<noteq> CHR ''.'') symb in
     Inr (ValueError (if CHR ''.'' \<in> set symb \<and> path @ ''.'' @ root \<in> set candidates \<and> direct_signal_range d root = None
       then ''instance_not_in_projected_scope'' else ''signal_not_declared'')))"

definition requested_bits :: "(int \<times> int) option \<Rightarrow> resolved_symbol \<Rightarrow> int list result" where
  "requested_bits select r = (case select of
     None \<Rightarrow> Inr (rs_declared r)
   | Some (left, right) \<Rightarrow>
      (let step = (if left > right then - 1 else 1); bits = unit_range left (right + step) step in
       if \<not> set bits \<subseteq> set (rs_declared r) then Inl (ValueError ''signal_selection_out_of_range'') else Inr bits))"

definition resolve_signal :: "connectivity_ir \<Rightarrow> string \<Rightarrow> string list \<Rightarrow> signal_selection result" where
  "resolve_signal ir signal_path candidates = (case split_select (strip signal_path) of
     None \<Rightarrow> Inl (ValueError ''signal_path_invalid'')
   | Some (base, select) \<Rightarrow>
      (case longest_instance_prefix base (map id_path (ir_instances ir)) of
         None \<Rightarrow> Inl (ValueError ''signal_instance_unresolved'')
       | Some path \<Rightarrow>
          (let symb = drop (length path + 1) base; full = drop (length path + 1) (strip signal_path) in
           ebind (instance_definition ir path) (\<lambda>d.
           case definition_member d full of
             Some m \<Rightarrow> mk_selection \<lparr>ss_symbol = pm_aggregate m, ss_bits = pm_bits m, ss_path = Some path\<rparr>
           | None \<Rightarrow> ebind (resolve_symbol ir path symb) (\<lambda>res. case res of
               None \<Rightarrow> ebind (not_declared ir path symb candidates) Inl
             | Some r \<Rightarrow> ebind (requested_bits select r) (\<lambda>bits.
                 mk_selection \<lparr>ss_symbol = rs_symbol r,
                   ss_bits = map (\<lambda>b. the (bit_map (rs_declared r) (rs_canonical r) b)) bits, ss_path = Some path\<rparr>))))))"

end
