(* ===== verification/Cq_Path.thy ===== *)
theory Cq_Path
  imports Cq_Index
begin

text \<open>
  src/src/connectivity_query.py, part two: coverage of a query and \<open>query_path\<close>, the breadth-first
  search for the shortest directed path between two signals. The set \<open>touched_paths\<close> is only asked
  for a member that a gap affects, so it is a list; a dict is the association list of its items.
\<close>

section \<open>Coverage of a query\<close>

type_synonym gap_id = "string \<times> string \<times> int \<times> string"

definition query_gap_key :: "coverage_gap \<Rightarrow> gap_id" where
  "query_gap_key g = (cg_code g, (case cg_location g of None \<Rightarrow> [] | Some l \<Rightarrow> loc_file l),
     (case cg_location g of None \<Rightarrow> 0 | Some l \<Rightarrow> loc_line l), join [char_of (31 :: nat)] (cg_scopes g))"

definition relevant_gaps :: "coverage_gap list \<Rightarrow> string list \<Rightarrow> coverage_gap list" where
  "relevant_gaps gaps touched = filter (\<lambda>g. list_ex (gap_affects g) touched) gaps"

text \<open>\<open>tuple(by_key[key] for key in sorted(by_key))\<close>.\<close>

definition by_sorted_key :: "('k :: linorder \<times> 'v) list \<Rightarrow> 'v list" where
  "by_sorted_key kvs = map snd (sort_key fst kvs)"

definition add_gap :: "coverage_gap \<Rightarrow> (gap_id \<times> coverage_gap) list \<Rightarrow> (gap_id \<times> coverage_gap) list" where
  "add_gap g kvs = AList.update (query_gap_key g) g kvs"

definition merge_path_gaps :: "coverage_report \<Rightarrow> string list \<Rightarrow> coverage_gap list \<Rightarrow> coverage_gap list" where
  "merge_path_gaps report touched gaps = by_sorted_key (fold add_gap (relevant_gaps (cr_gaps report) touched @ gaps) [])"

definition query_coverage :: "coverage_report \<Rightarrow> coverage_gap list \<Rightarrow> coverage_status" where
  "query_coverage report gaps =
     (if list_ex (\<lambda>g. cg_impact g = CovInconclusive) gaps then CovInconclusive
      else if gaps \<noteq> [] then CovPartial
      else if cr_status report = CovComplete then CovComplete
      else if cr_status report = CovPartial \<and> cr_projected report = cr_total report \<and> cr_gaps report \<noteq> [] \<and>
              list_all (\<lambda>g. cg_scopes g \<noteq> [] \<and> ''*'' \<notin> set (cg_scopes g)) (cr_gaps report) then CovComplete
      else if cr_status report = CovInconclusive then CovInconclusive
      else if cr_status report = CovPartial then CovPartial
      else CovComplete)"

section \<open>Results\<close>

datatype path_status =
  PathFound | PathNotConnected | PathFromUnresolved | PathToUnresolved | PathEndpointsUnresolved
| PathInconclusive | PathTruncated

text \<open>\<open>PathTraversalEdge\<close>: the edge with the source and target it was followed with.\<close>

type_synonym hop = path_edge

definition public_edge :: "path_edge \<Rightarrow> signal_selection \<Rightarrow> signal_selection \<Rightarrow> hop" where
  "public_edge e s t = e\<lparr>pe_source := s, pe_target := t\<rparr>"

record path_result =
  pr_from :: "signal_selection option"
  pr_to :: "signal_selection option"
  pr_status :: path_status
  pr_coverage :: coverage_status
  pr_path :: "hop list"
  pr_gaps :: "coverage_gap list"
  pr_alias :: bool
  pr_edges :: nat
  pr_states :: nat
  pr_traversal_truncated :: bool
  pr_output_truncated :: bool

definition evidence_gap :: "string \<Rightarrow> string \<Rightarrow> coverage_status \<Rightarrow> path_edge \<Rightarrow> coverage_gap" where
  "evidence_gap code message impact e = \<lparr>cg_code = code, cg_message = message, cg_impact = impact, cg_constructs = [],
     cg_scopes = [selection_path (pe_source e) False, selection_path (pe_target e) False],
     cg_location = Some (se_location (pe_evidence e))\<rparr>"

definition unresolved_edge_gaps :: "path_edge \<Rightarrow> coverage_gap list" where
  "unresolved_edge_gaps e = (if se_resolution (pe_evidence e) = ResUnresolved
     then [evidence_gap ''path_edge_evidence_unresolved'' ''path edge source evidence is unresolved'' CovInconclusive e] else [])"

definition path_evidence_gaps :: "hop list \<Rightarrow> coverage_gap list" where
  "path_evidence_gaps hops = concat (map (\<lambda>e. unresolved_edge_gaps e @
     (if \<not> pe_exact e then [evidence_gap ''path_bit_mapping_inexact''
        ''structural dependency is known but its exact bit mapping is not available'' CovPartial e] else [])) hops)"

section \<open>The search\<close>

definition follow_edge :: "signal_selection \<Rightarrow> path_edge \<Rightarrow> signal_selection result" where
  "follow_edge s e = (if pe_exact e then map_selection s (pe_source e) (pe_target e) else Inr (pe_target e))"

record bfs =
  bf_queue :: "signal_selection list"
  bf_visited :: "state_key list"
  bf_pred :: "(state_key \<times> state_key \<times> hop) list"
  bf_touched :: "string list"
  bf_gaps :: "(gap_id \<times> coverage_gap) list"
  bf_count :: nat
  bf_cut :: bool

text \<open>
  The edges of one state, in order: either the target is met (its state, the search as it is then),
  or the search goes on.
\<close>

datatype scan = Met state_key bfs | Going bfs

definition take_edge :: "signal_selection \<Rightarrow> signal_selection \<Rightarrow> state_key \<Rightarrow> path_edge \<Rightarrow> bfs \<Rightarrow> scan result" where
  "take_edge goal cur k e st =
     ebind (follow_edge cur e) (\<lambda>d.
       let st1 = st\<lparr>bf_count := bf_count st + 1, bf_touched := selection_path d False # bf_touched st,
                    bf_gaps := fold add_gap (unresolved_edge_gaps e) (bf_gaps st)\<rparr> in
       ebind (state_of d) (\<lambda>s.
       ebind (same_endpoint d goal) (\<lambda>met.
         Inr (if met then Met s (st1\<lparr>bf_pred := (if map_of (bf_pred st1) s = None
                                    then bf_pred st1 @ [(s, k, public_edge e cur d)] else bf_pred st1)\<rparr>)
              else if s \<in> set (bf_visited st1) then Going st1
              else Going (st1\<lparr>bf_visited := bf_visited st1 @ [s],
                              bf_pred := AList.update s (k, public_edge e cur d) (bf_pred st1),
                              bf_queue := bf_queue st1 @ [d]\<rparr>)))))"

fun scan_edges :: "nat \<Rightarrow> signal_selection \<Rightarrow> signal_selection \<Rightarrow> state_key \<Rightarrow> path_edge list \<Rightarrow> bfs \<Rightarrow> scan result" where
  "scan_edges limit goal cur k [] st = Inr (Going st)"
| "scan_edges limit goal cur k (e # es) st =
     (if \<not> overlaps (ss_bits (pe_source e)) (ss_bits cur) then scan_edges limit goal cur k es st
      else if limit \<le> bf_count st then Inr (Going (st\<lparr>bf_cut := True\<rparr>))
      else ebind (take_edge goal cur k e st) (\<lambda>r. case r of
        Met s st' \<Rightarrow> Inr (Met s st') | Going st' \<Rightarrow> scan_edges limit goal cur k es st'))"

definition exclusion_gaps :: "index \<Rightarrow> endpoint \<Rightarrow> signal_selection \<Rightarrow> coverage_gap list" where
  "exclusion_gaps ix k cur = map snd (filter (\<lambda>p. overlaps (ss_bits (fst p)) (ss_bits cur))
     (map snd (filter (\<lambda>p. fst p = k) (ix_exclusions ix))))"

text \<open>One turn of the outer loop, on the state at the head of the queue.\<close>

definition bfs_turn :: "index \<Rightarrow> nat \<Rightarrow> signal_selection \<Rightarrow> signal_selection \<Rightarrow> bfs \<Rightarrow> scan result" where
  "bfs_turn ix limit goal cur st =
     ebind (endpoint_key cur) (\<lambda>k.
       scan_edges limit goal cur (k, ss_bits cur) (lookup path_edge_key (ix_paths ix) k)
         (st\<lparr>bf_queue := tl (bf_queue st), bf_touched := selection_path cur False # bf_touched st,
             bf_gaps := fold add_gap (exclusion_gaps ix k cur) (bf_gaps st)\<rparr>))"

definition bfs_measure :: "nat \<Rightarrow> bfs \<Rightarrow> nat" where
  "bfs_measure limit st = 2 * (limit - bf_count st) + length (bf_queue st)"

lemma take_edge_measure: "take_edge goal cur k e st = Inr (Going st') \<Longrightarrow> bf_count st < limit \<Longrightarrow> bfs_measure limit st' < bfs_measure limit st"
  by (auto simp: take_edge_def ebind_Inr_iff Let_def bfs_measure_def split: if_splits)

lemma scan_edges_measure: "scan_edges limit goal cur k es st = Inr (Going st') \<Longrightarrow> bfs_measure limit st' \<le> bfs_measure limit st"
proof (induction es arbitrary: st)
  case (Cons e es)
  show ?case
  proof (cases "overlaps (ss_bits (pe_source e)) (ss_bits cur) \<and> bf_count st < limit")
    case True
    then obtain r where r: "take_edge goal cur k e st = Inr r"
      "(case r of Met s st' \<Rightarrow> Inr (Met s st') | Going st' \<Rightarrow> scan_edges limit goal cur k es st') = Inr (Going st')"
      using Cons.prems by (auto simp: ebind_Inr_iff)
    then obtain st1 where "r = Going st1" by (cases r) auto
    then show ?thesis using r True Cons.IH [of st1] take_edge_measure [of goal cur k e st st1 limit] by simp
  next
    case False
    then show ?thesis using Cons by (auto simp: bfs_measure_def split: if_splits)
  qed
qed simp

lemma bfs_turn_measure:
  assumes "bfs_turn ix limit goal cur st = Inr (Going st')" "bf_queue st \<noteq> []"
  shows "bfs_measure limit st' < bfs_measure limit st"
proof -
  obtain k es st1 where "scan_edges limit goal cur (k, ss_bits cur) es st1 = Inr (Going st')"
    "bf_count st1 = bf_count st" "bf_queue st1 = tl (bf_queue st)"
    using assms(1) by (auto simp: bfs_turn_def ebind_Inr_iff)
  then show ?thesis using scan_edges_measure [of limit goal cur "(k, ss_bits cur)" es st1 st'] assms(2)
    by (auto simp: bfs_measure_def neq_Nil_conv)
qed

function bfs_loop :: "index \<Rightarrow> nat \<Rightarrow> signal_selection \<Rightarrow> bfs \<Rightarrow> scan result" where
  "bfs_loop ix limit goal st =
     (if bf_queue st = [] \<or> bf_cut st then Inr (Going st)
      else case bfs_turn ix limit goal (hd (bf_queue st)) st of
        Inl e \<Rightarrow> Inl e
      | Inr (Met s st') \<Rightarrow> Inr (Met s st')
      | Inr (Going st') \<Rightarrow> bfs_loop ix limit goal st')"
  by pat_completeness auto
termination
  by (relation "measure (\<lambda>(ix, limit, goal, st). bfs_measure limit st)") (auto dest: bfs_turn_measure)

declare bfs_loop.simps [simp del]

text \<open>
  \<open>_reconstruct_path\<close>: at most as many steps as there are predecessors (more is the \<open>while\<close> loop that
  does not end, which \<open>Cq_Path_Laws\<close> excludes).
\<close>

fun reconstruct :: "nat \<Rightarrow> state_key \<Rightarrow> (state_key \<times> state_key \<times> hop) list \<Rightarrow> state_key \<Rightarrow> hop list result" where
  "reconstruct 0 from_state preds s = (if s = from_state then Inr [] else Inl IllTyped)"
| "reconstruct (Suc n) from_state preds s =
     (if s = from_state then Inr []
      else (case map_of preds s of
        None \<Rightarrow> Inl (KeyError ''predecessor'')
      | Some (s', hop) \<Rightarrow> ebind (reconstruct n from_state preds s') (\<lambda>hops. Inr (hops @ [hop]))))"

section \<open>The query\<close>

definition limit_gap :: "string \<Rightarrow> string \<Rightarrow> string list \<Rightarrow> coverage_gap" where
  "limit_gap code message scopes = \<lparr>cg_code = code, cg_message = message, cg_impact = CovInconclusive, cg_constructs = [],
     cg_scopes = scopes, cg_location = None\<rparr>"

definition hop_paths :: "hop list \<Rightarrow> string list" where
  "hop_paths hops = concat (map (\<lambda>h. [selection_path (pe_source h) False, selection_path (pe_target h) False]) hops)"

definition found_result :: "connectivity_ir \<Rightarrow> signal_selection \<Rightarrow> signal_selection \<Rightarrow> nat \<Rightarrow> state_key \<Rightarrow> hop list \<Rightarrow> bfs \<Rightarrow> path_result" where
  "found_result ir a b output s hops st =
     (let ends = [selection_path a False, selection_path b False];
          gaps = merge_path_gaps (ir_coverage ir) (ends @ hop_paths hops) (path_evidence_gaps hops);
          over = length hops > output
      in \<lparr>pr_from = Some a, pr_to = Some b, pr_status = (if over then PathTruncated else PathFound),
          pr_coverage = (if over then CovInconclusive else query_coverage (ir_coverage ir) gaps),
          pr_path = (if over then [] else hops),
          pr_gaps = gaps @ (if over then [limit_gap ''path_output_limit'' ''shortest path exceeds the internal output limit'' ends] else []),
          pr_alias = False, pr_edges = bf_count st, pr_states = length (List.insert s (bf_visited st)),
          pr_traversal_truncated = False, pr_output_truncated = over\<rparr>)"

definition missing_result :: "connectivity_ir \<Rightarrow> signal_selection \<Rightarrow> signal_selection \<Rightarrow> bfs \<Rightarrow> path_result" where
  "missing_result ir a b st =
     (let ends = [selection_path a False, selection_path b False];
          gaps = merge_path_gaps (ir_coverage ir) (bf_touched st) (map snd (bf_gaps st));
          cov = (if bf_cut st then CovInconclusive else query_coverage (ir_coverage ir) gaps)
      in \<lparr>pr_from = Some a, pr_to = Some b,
          pr_status = (if bf_cut st then PathTruncated else if cov = CovComplete then PathNotConnected else PathInconclusive),
          pr_coverage = cov, pr_path = [],
          pr_gaps = gaps @ (if bf_cut st then [limit_gap ''path_traversal_limit''
            ''path search reached the internal traversal edge limit'' ends] else []),
          pr_alias = False, pr_edges = bf_count st, pr_states = length (bf_visited st),
          pr_traversal_truncated = bf_cut st, pr_output_truncated = False\<rparr>)"

definition alias_result :: "connectivity_ir \<Rightarrow> signal_selection \<Rightarrow> signal_selection \<Rightarrow> path_result" where
  "alias_result ir a b =
     (let gaps = relevant_gaps (cr_gaps (ir_coverage ir)) [selection_path a False, selection_path b False] in
      \<lparr>pr_from = Some a, pr_to = Some b, pr_status = PathFound, pr_coverage = query_coverage (ir_coverage ir) gaps,
       pr_path = [], pr_gaps = gaps, pr_alias = True, pr_edges = 0, pr_states = 1,
       pr_traversal_truncated = False, pr_output_truncated = False\<rparr>)"

text \<open>\<open>_try_resolve_path_endpoint\<close>: a \<open>KeyError\<close> or a \<open>ValueError\<close> is a gap.\<close>

definition try_resolve :: "connectivity_ir \<Rightarrow> string \<Rightarrow> string \<Rightarrow> (coverage_gap + signal_selection) result" where
  "try_resolve ir label path = (case resolve_signal ir path [] of
     Inr s \<Rightarrow> Inr (Inr s)
   | Inl (KeyError _) \<Rightarrow> Inr (Inl (limit_gap (''path_'' @ label @ ''_endpoint_unresolved'')
       (''path '' @ label @ '' endpoint is absent from the bounded IR'') [path]))
   | Inl (ValueError _) \<Rightarrow> Inr (Inl (limit_gap (''path_'' @ label @ ''_endpoint_unresolved'')
       (''path '' @ label @ '' endpoint is absent from the bounded IR'') [path]))
   | Inl e \<Rightarrow> Inl e)"

definition unresolved_result :: "(coverage_gap + signal_selection) \<Rightarrow> (coverage_gap + signal_selection) \<Rightarrow> path_result" where
  "unresolved_result a b =
     \<lparr>pr_from = (case a of Inr s \<Rightarrow> Some s | Inl _ \<Rightarrow> None), pr_to = (case b of Inr s \<Rightarrow> Some s | Inl _ \<Rightarrow> None),
      pr_status = (case a of Inl _ \<Rightarrow> (case b of Inl _ \<Rightarrow> PathEndpointsUnresolved | Inr _ \<Rightarrow> PathFromUnresolved) | Inr _ \<Rightarrow> PathToUnresolved),
      pr_coverage = CovInconclusive, pr_path = [],
      pr_gaps = (case a of Inl g \<Rightarrow> [g] | Inr _ \<Rightarrow> []) @ (case b of Inl g \<Rightarrow> [g] | Inr _ \<Rightarrow> []),
      pr_alias = False, pr_edges = 0, pr_states = 0, pr_traversal_truncated = False, pr_output_truncated = False\<rparr>"

definition path_search :: "connectivity_ir \<Rightarrow> index \<Rightarrow> signal_selection \<Rightarrow> signal_selection \<Rightarrow> nat \<Rightarrow> nat \<Rightarrow> path_result result" where
  "path_search ir ix a b limit output =
     ebind (state_of a) (\<lambda>from_state.
     ebind (bfs_loop ix limit b \<lparr>bf_queue = [a], bf_visited = [from_state], bf_pred = [],
         bf_touched = [selection_path a False, selection_path b False], bf_gaps = [], bf_count = 0, bf_cut = False\<rparr>) (\<lambda>r.
       case r of
         Met s st \<Rightarrow> ebind (reconstruct (length (bf_pred st)) from_state (bf_pred st) s) (\<lambda>hops.
           Inr (found_result ir a b output s hops st))
       | Going st \<Rightarrow> Inr (missing_result ir a b st)))"

definition query_path :: "connectivity_ir \<Rightarrow> index \<Rightarrow> string \<Rightarrow> string \<Rightarrow> int \<Rightarrow> int \<Rightarrow> path_result result" where
  "query_path ir ix from_signal to_signal limit output =
     ebind (require (1 \<le> limit) (ValueError ''traversal_limit must be a positive integer'')) (\<lambda>_.
     ebind (require (1 \<le> output) (ValueError ''output_limit must be a positive integer'')) (\<lambda>_.
     ebind (try_resolve ir ''from'' from_signal) (\<lambda>a.
     ebind (try_resolve ir ''to'' to_signal) (\<lambda>b.
       case (a, b) of
         (Inr x, Inr y) \<Rightarrow> ebind (same_endpoint x y) (\<lambda>same.
           if same then Inr (alias_result ir x y) else path_search ir ix x y (nat limit) (nat output))
       | _ \<Rightarrow> Inr (unresolved_result a b)))))"

end
