(* ===== verification/Cq_Walk.thy ===== *)
theory Cq_Walk
  imports Cq_Path
begin

text \<open>
  src/src/connectivity_query.py, part three: \<open>query_driver\<close> and \<open>query_loads\<close>, the depth-first walks
  over port bindings with their work budget and their bounded collector. The two walks share their
  shape; \<open>walk_dir\<close> says which one it is.

  A step of a loop gives a flag (False is the \<open>return\<close> of the visit) and the state.
\<close>

section \<open>Results of a walk\<close>

datatype confidence = ConfExact | ConfConditional | ConfPartial
datatype walk_dir = Drivers | Loads

record trav_hop =
  th_kind :: edge_kind
  th_source :: signal_selection
  th_target :: signal_selection
  th_binding :: string
  th_style :: binding_style
  th_evidence :: source_evidence

record query_dependency =
  qd_source :: signal_selection
  qd_target :: signal_selection
  qd_role :: string
  qd_exact :: bool
  qd_guard :: "string option"

record query_match =
  qm_path :: string
  qm_fact :: string
  qm_kind :: edge_kind
  qm_target :: signal_selection
  qm_covered :: signal_selection
  qm_source :: "signal_selection option"
  qm_dependencies :: "query_dependency list"
  qm_role :: "string option"
  qm_boundary :: boundary_kind
  qm_procedure :: "string option"
  qm_guard :: "string option"
  qm_generate :: "string option"
  qm_evidence :: source_evidence
  qm_traversal :: "trav_hop list"
  qm_confidence :: confidence
  qm_constant :: "string list"
  qm_positive :: "confidence option"
  qm_driver :: "string option"
  qm_selected :: "signal_selection option"

record frontier =
  fr_signal :: signal_selection
  fr_target :: signal_selection

record query_limits =
  ql_state :: int
  ql_edge :: int
  ql_match :: int
  ql_frontier :: int
  ql_assignment :: int
  ql_evidence :: int

type_synonym driver_key = "string \<times> string"
type_synonym match_key = "string \<times> string \<times> string \<times> int list \<times> int list \<times> string option"
type_synonym structural_key = "driver_key \<times> signal_selection \<times> signal_selection \<times> string list \<times> trav_hop list"
type_synonym visit_key = "state_key \<times> int list"

record query_walk =
  wk_visited :: "visit_key list"
  wk_edges :: nat
  wk_assignments :: nat
  wk_state_cut :: bool
  wk_edge_cut :: bool
  wk_match_cut :: bool
  wk_frontier_cut :: bool
  wk_assignment_cut :: bool
  wk_evidence_cut :: bool
  wk_driver_keys :: "driver_key list"
  wk_structural :: "(structural_key \<times> query_match) list"
  wk_evidence_bits :: "int list"
  wk_matches :: "(match_key \<times> query_match) list"
  wk_frontiers :: "(visit_key \<times> frontier) list"
  wk_gaps :: "coverage_gap list"
  wk_traversed :: nat
  wk_depth_limited :: bool
  wk_touched :: "string list"
  wk_bit_paths :: "(signal_selection \<times> signal_selection) list"
  wk_depth_bits :: "int list"

definition walk0 :: "signal_selection \<Rightarrow> query_walk" where
  "walk0 s = \<lparr>wk_visited = [], wk_edges = 0, wk_assignments = 0, wk_state_cut = False, wk_edge_cut = False, wk_match_cut = False,
     wk_frontier_cut = False, wk_assignment_cut = False, wk_evidence_cut = False, wk_driver_keys = [], wk_structural = [],
     wk_evidence_bits = [], wk_matches = [], wk_frontiers = [], wk_gaps = [], wk_traversed = 0, wk_depth_limited = False,
     wk_touched = [selection_path s False], wk_bit_paths = [], wk_depth_bits = []\<rparr>"

text \<open>\<open>_QueryWorkBudget.truncated\<close> does not ask for the evidence limit.\<close>

definition walk_truncated :: "query_walk \<Rightarrow> bool" where
  "walk_truncated st \<longleftrightarrow> wk_state_cut st \<or> wk_edge_cut st \<or> wk_match_cut st \<or> wk_frontier_cut st \<or> wk_assignment_cut st"

section \<open>The budget\<close>

definition inspect_edge :: "query_limits \<Rightarrow> query_walk \<Rightarrow> bool \<times> query_walk" where
  "inspect_edge lim st = (if ql_edge lim \<le> int (wk_edges st) then (False, st\<lparr>wk_edge_cut := True\<rparr>)
     else (True, st\<lparr>wk_edges := wk_edges st + 1\<rparr>))"

definition inspect_assignment :: "query_limits \<Rightarrow> query_walk \<Rightarrow> bool \<times> query_walk" where
  "inspect_assignment lim st =
     (if ql_assignment lim \<le> int (wk_assignments st) then (False, st\<lparr>wk_assignment_cut := True\<rparr>)
      else case inspect_edge lim st of
        (False, st') \<Rightarrow> (False, st')
      | (True, st') \<Rightarrow> (True, st'\<lparr>wk_assignments := wk_assignments st' + 1\<rparr>))"

section \<open>The collector\<close>

definition structural_driver_key :: "query_match \<Rightarrow> driver_key option" where
  "structural_driver_key m =
     (if given (qm_driver m) then Some (qm_path m, the (qm_driver m))
      else if qm_kind m \<in> {EdgeContinuousAssign, EdgeConstantDriver} then Some (qm_path m, qm_fact m)
      else None)"

definition query_match_key :: "query_match \<Rightarrow> match_key" where
  "query_match_key m = (qm_path m, qm_fact m, ss_symbol (qm_target m), ss_bits (qm_target m), ss_bits (qm_covered m), qm_role m)"

definition admitted_key :: "query_match \<Rightarrow> driver_key" where
  "admitted_key m = (case structural_driver_key m of Some k \<Rightarrow> k | None \<Rightarrow> (qm_path m, ''unknown:'' @ qm_fact m))"

definition setdefault_key :: "'k \<Rightarrow> 'v \<Rightarrow> ('k \<times> 'v) list \<Rightarrow> ('k \<times> 'v) list" where
  "setdefault_key k v kvs = (if map_of kvs k = None then kvs @ [(k, v)] else kvs)"

definition keep_match :: "query_match \<Rightarrow> query_walk \<Rightarrow> query_walk" where
  "keep_match m st = st\<lparr>wk_matches := AList.update (query_match_key m) m (wk_matches st)\<rparr>"

definition add_driver :: "query_limits \<Rightarrow> query_match \<Rightarrow> query_walk \<Rightarrow> bool \<times> query_walk" where
  "add_driver lim m st =
     (let k = admitted_key m in
      if k \<notin> set (wk_driver_keys st) \<and> ql_match lim \<le> int (length (wk_driver_keys st)) then (False, st\<lparr>wk_match_cut := True\<rparr>)
      else (let st1 = st\<lparr>wk_driver_keys := List.insert k (wk_driver_keys st),
                wk_structural := setdefault_key (k, qm_target m, qm_covered m, qm_constant m, qm_traversal m) m (wk_structural st)\<rparr>
            in if ql_evidence lim \<le> int (length (wk_matches st1))
               then (True, st1\<lparr>wk_evidence_cut := True, wk_evidence_bits := wk_evidence_bits st1 @ ss_bits (qm_covered m)\<rparr>)
               else (True, keep_match m st1)))"

definition add_match :: "query_limits \<Rightarrow> walk_dir \<Rightarrow> query_match \<Rightarrow> query_walk \<Rightarrow> bool \<times> query_walk" where
  "add_match lim dir m st = (case map_of (wk_matches st) (query_match_key m) of
     Some old \<Rightarrow> (True, if length (qm_traversal m) < length (qm_traversal old) then keep_match m st else st)
   | None \<Rightarrow>
      (case dir of
         Drivers \<Rightarrow> add_driver lim m st
       | Loads \<Rightarrow> if ql_match lim \<le> int (length (wk_matches st)) then (False, st\<lparr>wk_match_cut := True\<rparr>) else (True, keep_match m st)))"

definition add_frontier :: "query_limits \<Rightarrow> frontier \<Rightarrow> query_walk \<Rightarrow> (bool \<times> query_walk) result" where
  "add_frontier lim f st = ebind (state_of (fr_signal f)) (\<lambda>s.
     let k = (s, ss_bits (fr_target f)) in
     Inr (if map_of (wk_frontiers st) k \<noteq> None then (True, st)
          else if ql_frontier lim \<le> int (length (wk_frontiers st)) then (False, st\<lparr>wk_frontier_cut := True\<rparr>)
          else (True, st\<lparr>wk_frontiers := AList.update k f (wk_frontiers st)\<rparr>)))"

section \<open>Matches\<close>

definition base_confidence :: "source_evidence \<Rightarrow> trav_hop list \<Rightarrow> confidence" where
  "base_confidence e hops =
     (let rs = se_resolution e # map (\<lambda>h. se_resolution (th_evidence h)) hops in
      if ResUnresolved \<in> set rs then ConfPartial else if ResConditional \<in> set rs then ConfConditional else ConfExact)"

definition bound_dependency :: "string \<Rightarrow> dependency_fact \<Rightarrow> query_dependency result" where
  "bound_dependency path d =
     ebind (selection_bind (df_source d) path) (\<lambda>s. ebind (selection_bind (df_target d) path) (\<lambda>t.
       Inr \<lparr>qd_source = s, qd_target = t, qd_role = role_text (df_role d), qd_exact = df_exact d, qd_guard = df_guard d\<rparr>))"

definition driver_match :: "assignment_fact \<Rightarrow> string \<Rightarrow> signal_selection \<Rightarrow> signal_selection \<Rightarrow> trav_hop list \<Rightarrow> query_match result" where
  "driver_match a path selected covered hops =
     ebind (mapM (bound_dependency path) (filter (\<lambda>d. overlaps (ss_bits (df_target d)) (ss_bits selected)) (af_dependencies a))) (\<lambda>deps.
     ebind (selection_bind (af_target a) path) (\<lambda>t.
       Inr \<lparr>qm_path = path, qm_fact = af_id a, qm_kind = af_kind a, qm_target = t, qm_covered = covered, qm_source = None,
         qm_dependencies = deps, qm_role = None, qm_boundary = af_boundary a, qm_procedure = af_procedure a,
         qm_guard = af_guard a, qm_generate = af_generate a, qm_evidence = af_evidence a, qm_traversal = hops,
         qm_confidence = base_confidence (af_evidence a) hops, qm_constant = [], qm_positive = None,
         qm_driver = af_driver a, qm_selected = Some selected\<rparr>))"

definition constant_match :: "terminal \<Rightarrow> signal_selection \<Rightarrow> signal_selection \<Rightarrow> trav_hop list \<Rightarrow> query_match" where
  "constant_match t selected covered hops =
     (let values = map_of (rev (zip (ss_bits (bm_target (tm_mapping t))) (bm_constant (tm_mapping t)))); b = tm_binding t in
      \<lparr>qm_path = (case ss_path selected of None \<Rightarrow> [] | Some p \<Rightarrow> p),
       qm_fact = pb_id b @ '':constant:'' @ join '','' (map show_int (ss_bits selected)), qm_kind = EdgeConstantDriver,
       qm_target = selected, qm_covered = covered, qm_source = None, qm_dependencies = [], qm_role = None,
       qm_boundary = BoundaryCombinational, qm_procedure = None, qm_guard = None, qm_generate = None,
       qm_evidence = pb_evidence b, qm_traversal = hops, qm_confidence = base_confidence (pb_evidence b) hops,
       qm_constant = map (\<lambda>x. the (values x)) (ss_bits selected), qm_positive = None, qm_driver = None, qm_selected = None\<rparr>)"

definition load_match :: "assignment_fact \<Rightarrow> dependency_fact \<Rightarrow> string \<Rightarrow> signal_selection \<Rightarrow> signal_selection \<Rightarrow> trav_hop list \<Rightarrow> query_match result" where
  "load_match a d path selected covered hops =
     ebind (bound_dependency path d) (\<lambda>bound.
     ebind (mk_selection \<lparr>ss_symbol = ss_symbol (qd_source bound),
        ss_bits = filter (\<lambda>b. b \<in> set (ss_bits selected)) (ss_bits (qd_source bound)), ss_path = Some path\<rparr>) (\<lambda>src.
     ebind (selection_bind (af_target a) path) (\<lambda>t.
       Inr \<lparr>qm_path = path, qm_fact = af_id a, qm_kind = af_kind a, qm_target = t, qm_covered = covered, qm_source = Some src,
         qm_dependencies = [bound], qm_role = Some (role_text (df_role d)), qm_boundary = af_boundary a,
         qm_procedure = af_procedure a, qm_guard = af_guard a, qm_generate = af_generate a, qm_evidence = af_evidence a,
         qm_traversal = hops, qm_confidence = base_confidence (af_evidence a) hops, qm_constant = [], qm_positive = None,
         qm_driver = None, qm_selected = None\<rparr>)))"

definition segment_gap :: "terminal \<Rightarrow> signal_selection \<Rightarrow> signal_selection \<Rightarrow> coverage_gap" where
  "segment_gap t selected covered = \<lparr>cg_code = ''port_segment_unresolved'',
     cg_message = ''port binding contains a dynamic bit segment with unresolved source provenance'',
     cg_impact = CovInconclusive, cg_constructs = [''port_binding'', ''bit_provenance''],
     cg_scopes = [selection_path selected True, selection_path covered True],
     cg_location = Some (se_location (pb_evidence (tm_binding t)))\<rparr>"

section \<open>One visit\<close>

definition andthen :: "(bool \<times> query_walk) result \<Rightarrow> (query_walk \<Rightarrow> (bool \<times> query_walk) result) \<Rightarrow> (bool \<times> query_walk) result" where
  "andthen r f = ebind r (\<lambda>(go, st). if go then f st else Inr (False, st))"

fun each :: "('a \<Rightarrow> query_walk \<Rightarrow> (bool \<times> query_walk) result) \<Rightarrow> 'a list \<Rightarrow> query_walk \<Rightarrow> (bool \<times> query_walk) result" where
  "each f [] st = Inr (True, st)"
| "each f (x # xs) st = andthen (f x st) (each f xs)"

text \<open>An entry of an index at the bits \<open>bits\<close> of the current endpoint: inspected, and used if it overlaps.\<close>

definition at_overlap :: "(query_walk \<Rightarrow> bool \<times> query_walk) \<Rightarrow> int list \<Rightarrow> signal_selection \<Rightarrow> signal_selection \<Rightarrow>
    (signal_selection \<Rightarrow> signal_selection \<Rightarrow> query_walk \<Rightarrow> (bool \<times> query_walk) result) \<Rightarrow> query_walk \<Rightarrow> (bool \<times> query_walk) result" where
  "at_overlap inspect bits cur tgt act st =
     andthen (Inr (inspect st)) (\<lambda>st.
       if \<not> overlaps bits (ss_bits cur) then Inr (True, st)
       else ebind (aligned_overlap cur tgt bits) (\<lambda>(selected, covered, _). act selected covered st))"

definition path_of :: "signal_selection \<Rightarrow> string" where
  "path_of s = (case ss_path s of None \<Rightarrow> [] | Some p \<Rightarrow> p)"

definition write_step :: "query_limits \<Rightarrow> signal_selection \<Rightarrow> signal_selection \<Rightarrow> trav_hop list \<Rightarrow> assignment_fact \<Rightarrow> query_walk \<Rightarrow> (bool \<times> query_walk) result" where
  "write_step lim cur tgt hops a = at_overlap (inspect_assignment lim) (ss_bits (af_target a)) cur tgt (\<lambda>selected covered st.
     ebind (driver_match a (path_of cur) selected covered hops) (\<lambda>m. Inr (add_match lim Drivers m st)))"

definition constant_step :: "query_limits \<Rightarrow> signal_selection \<Rightarrow> signal_selection \<Rightarrow> trav_hop list \<Rightarrow> terminal \<Rightarrow> query_walk \<Rightarrow> (bool \<times> query_walk) result" where
  "constant_step lim cur tgt hops t = at_overlap (inspect_edge lim) (ss_bits (bm_target (tm_mapping t))) cur tgt (\<lambda>selected covered st.
     Inr (add_match lim Drivers (constant_match t selected covered hops) st))"

definition unresolved_step :: "query_limits \<Rightarrow> signal_selection \<Rightarrow> signal_selection \<Rightarrow> terminal \<Rightarrow> query_walk \<Rightarrow> (bool \<times> query_walk) result" where
  "unresolved_step lim cur tgt t = at_overlap (inspect_edge lim) (ss_bits (bm_target (tm_mapping t))) cur tgt (\<lambda>selected covered st.
     Inr (True, st\<lparr>wk_gaps := wk_gaps st @ [segment_gap t selected covered]\<rparr>))"

definition read_step :: "query_limits \<Rightarrow> signal_selection \<Rightarrow> signal_selection \<Rightarrow> trav_hop list \<Rightarrow> assignment_fact \<times> dependency_fact \<Rightarrow> query_walk \<Rightarrow>
    (bool \<times> query_walk) result" where
  "read_step lim cur tgt hops p = at_overlap (inspect_edge lim) (ss_bits (df_source (snd p))) cur tgt (\<lambda>selected covered st.
     ebind (load_match (fst p) (snd p) (path_of cur) selected covered hops) (\<lambda>m. Inr (add_match lim Loads m st)))"

definition near :: "walk_dir \<Rightarrow> flow_segment \<Rightarrow> signal_selection" where
  "near dir f = (case dir of Drivers \<Rightarrow> fl_target f | Loads \<Rightarrow> fl_source f)"

definition far :: "walk_dir \<Rightarrow> flow_segment \<Rightarrow> signal_selection" where
  "far dir f = (case dir of Drivers \<Rightarrow> fl_source f | Loads \<Rightarrow> fl_target f)"

definition mk_hop :: "walk_dir \<Rightarrow> flow_segment \<Rightarrow> signal_selection \<Rightarrow> signal_selection \<Rightarrow> trav_hop result" where
  "mk_hop dir f selected beyond = ebind (binding_edge_kind (fl_binding f)) (\<lambda>k.
     Inr \<lparr>th_kind = k, th_source = (case dir of Drivers \<Rightarrow> beyond | Loads \<Rightarrow> selected),
       th_target = (case dir of Drivers \<Rightarrow> selected | Loads \<Rightarrow> beyond), th_binding = pb_id (fl_binding f),
       th_style = pb_style (fl_binding f), th_evidence = pb_evidence (fl_binding f)\<rparr>)"

type_synonym visitor = "signal_selection \<Rightarrow> signal_selection \<Rightarrow> trav_hop list \<Rightarrow> query_walk \<Rightarrow> query_walk result"

text \<open>A binding segment: followed by \<open>deeper\<close>, or a frontier where the depth is used up.\<close>

definition cross_segment :: "query_limits \<Rightarrow> walk_dir \<Rightarrow> visitor option \<Rightarrow> trav_hop list \<Rightarrow> flow_segment \<Rightarrow> signal_selection \<Rightarrow> signal_selection \<Rightarrow>
    query_walk \<Rightarrow> (bool \<times> query_walk) result" where
  "cross_segment lim dir deeper hops f selected covered st =
     ebind (map_selection selected (near dir f) (far dir f)) (\<lambda>beyond. case deeper of
       None \<Rightarrow> add_frontier lim \<lparr>fr_signal = beyond, fr_target = covered\<rparr>
         (st\<lparr>wk_depth_limited := True, wk_depth_bits := wk_depth_bits st @ ss_bits covered\<rparr>)
     | Some visit \<Rightarrow> ebind (mk_hop dir f selected beyond) (\<lambda>h.
         ebind (visit beyond covered (hops @ [h]) (st\<lparr>wk_traversed := wk_traversed st + 1\<rparr>)) (\<lambda>st'.
           Inr (\<not> walk_truncated st', st'))))"

definition segment_step :: "query_limits \<Rightarrow> walk_dir \<Rightarrow> visitor option \<Rightarrow> signal_selection \<Rightarrow> signal_selection \<Rightarrow> trav_hop list \<Rightarrow> flow_segment \<Rightarrow> query_walk \<Rightarrow>
    (bool \<times> query_walk) result" where
  "segment_step lim dir deeper cur tgt hops f =
     at_overlap (inspect_edge lim) (ss_bits (near dir f)) cur tgt (cross_segment lim dir deeper hops f)"

definition dir_segments :: "walk_dir \<Rightarrow> index \<Rightarrow> endpoint \<Rightarrow> flow_segment list" where
  "dir_segments dir ix k = lookup flow_key (case dir of Drivers \<Rightarrow> ix_incoming ix | Loads \<Rightarrow> ix_outgoing ix) k"

text \<open>The loops over the facts at an endpoint, and the bits of all its entries.\<close>

definition fact_loops :: "query_limits \<Rightarrow> walk_dir \<Rightarrow> index \<Rightarrow> endpoint \<Rightarrow> signal_selection \<Rightarrow> signal_selection \<Rightarrow> trav_hop list \<Rightarrow> query_walk \<Rightarrow>
    (bool \<times> query_walk) result" where
  "fact_loops lim dir ix k cur tgt hops st = (case dir of
     Drivers \<Rightarrow> andthen (andthen (each (write_step lim cur tgt hops) (lookup af_id (ix_writes ix) k) st)
         (each (constant_step lim cur tgt hops) (lookup terminal_key (ix_constant ix) k)))
         (each (unresolved_step lim cur tgt) (lookup terminal_key (ix_unresolved ix) k))
   | Loads \<Rightarrow> each (read_step lim cur tgt hops) (lookup read_key (ix_reads ix) k) st)"

definition entry_bits :: "walk_dir \<Rightarrow> index \<Rightarrow> endpoint \<Rightarrow> int list list" where
  "entry_bits dir ix k = (case dir of
     Drivers \<Rightarrow> map (\<lambda>a. ss_bits (af_target a)) (lookup af_id (ix_writes ix) k) @
       map (\<lambda>t. ss_bits (bm_target (tm_mapping t))) (lookup terminal_key (ix_constant ix) k @ lookup terminal_key (ix_unresolved ix) k)
   | Loads \<Rightarrow> map (\<lambda>p. ss_bits (df_source (snd p))) (lookup read_key (ix_reads ix) k)) @
   map (\<lambda>f. ss_bits (near dir f)) (dir_segments dir ix k)"

text \<open>The positions that no entry covers; the loops have met all entries when this is asked.\<close>

definition residual_positions :: "walk_dir \<Rightarrow> index \<Rightarrow> endpoint \<Rightarrow> signal_selection \<Rightarrow> nat list" where
  "residual_positions dir ix k cur =
     filter (\<lambda>i. \<not> list_ex (\<lambda>bits. ss_bits cur ! i \<in> set bits) (entry_bits dir ix k)) [0..<ss_width cur]"

definition add_residual :: "query_limits \<Rightarrow> walk_dir \<Rightarrow> index \<Rightarrow> endpoint \<Rightarrow> signal_selection \<Rightarrow> signal_selection \<Rightarrow> query_walk \<Rightarrow> query_walk result" where
  "add_residual lim dir ix k cur tgt st =
     (let rest = residual_positions dir ix k cur in
      if rest = [] then Inr st
      else ebind (selection_at cur rest) (\<lambda>c. ebind (selection_at tgt rest) (\<lambda>t.
        ebind (add_frontier lim \<lparr>fr_signal = c, fr_target = t\<rparr> st) (\<lambda>p. Inr (snd p)))))"

definition enter :: "signal_selection \<Rightarrow> signal_selection \<Rightarrow> visit_key \<Rightarrow> query_walk \<Rightarrow> query_walk" where
  "enter cur tgt key st = st\<lparr>wk_visited := wk_visited st @ [key], wk_touched := selection_path cur False # wk_touched st,
     wk_bit_paths := wk_bit_paths st @ [(cur, tgt)]\<rparr>"

definition visit_body :: "query_limits \<Rightarrow> walk_dir \<Rightarrow> index \<Rightarrow> visitor option \<Rightarrow> visitor" where
  "visit_body lim dir ix deeper cur tgt hops st =
     (if walk_truncated st then Inr st
      else if ss_width cur \<noteq> ss_width tgt then Inl (ValueError ''traversal lost query-bit alignment'')
      else ebind (state_of cur) (\<lambda>s.
        if (s, ss_bits tgt) \<in> set (wk_visited st) then Inr st
        else if ql_state lim \<le> int (length (wk_visited st)) then Inr (st\<lparr>wk_state_cut := True\<rparr>)
        else ebind (andthen (fact_loops lim dir ix (fst s) cur tgt hops (enter cur tgt (s, ss_bits tgt) st))
            (each (segment_step lim dir deeper cur tgt hops) (dir_segments dir ix (fst s)))) (\<lambda>(go, st').
          if go then add_residual lim dir ix (fst s) cur tgt st' else Inr st')))"

text \<open>\<open>visit\<close> with the depth that is left.\<close>

primrec visit :: "query_limits \<Rightarrow> walk_dir \<Rightarrow> index \<Rightarrow> nat \<Rightarrow> visitor" where
  "visit lim dir ix 0 = visit_body lim dir ix None"
| "visit lim dir ix (Suc k) = visit_body lim dir ix (Some (visit lim dir ix k))"

definition run_walk :: "query_limits \<Rightarrow> walk_dir \<Rightarrow> index \<Rightarrow> nat \<Rightarrow> signal_selection \<Rightarrow> query_walk result" where
  "run_walk lim dir ix depth s = visit lim dir ix depth s s [] (walk0 s)"

end
