(* ===== verification/Cq_Result.thy ===== *)
theory Cq_Result
  imports Cq_Walk
begin

text \<open>
  src/src/connectivity_query.py, part four: \<open>_finish_result\<close>, which turns a finished walk into the
  public result (gaps, the resolution of every requested bit, confidence, status), and the entry
  points \<open>query_driver\<close> and \<open>query_loads\<close>.
\<close>

section \<open>The result\<close>

datatype query_status = QueryFound | QueryNotConnected | QueryInconclusive
datatype bit_verdict = BitFound | BitNoDriver | BitUnknown

record bit_resolution =
  rb_bit :: int
  rb_verdict :: bit_verdict
  rb_reasons :: "string list"
  rb_complete :: bool

record connectivity_result =
  qr_operation :: walk_dir
  qr_signal :: signal_selection
  qr_status :: query_status
  qr_coverage :: coverage_status
  qr_matches :: "query_match list"
  qr_gaps :: "coverage_gap list"
  qr_traversed :: nat
  qr_max_depth :: int
  qr_resolved :: "int list"
  qr_unresolved :: "int list"
  qr_constant :: "int list"
  qr_multi :: "int list"
  qr_frontiers :: "frontier list"
  qr_states :: nat
  qr_edges :: nat
  qr_limits :: query_limits
  qr_state_cut :: bool
  qr_edge_cut :: bool
  qr_match_cut :: bool
  qr_frontier_cut :: bool
  qr_structural :: "query_match list"
  qr_drivers :: nat
  qr_assignments :: nat
  qr_assignment_cut :: bool
  qr_evidence_cut :: bool
  qr_bits :: "bit_resolution list"

definition query_truncated :: "connectivity_result \<Rightarrow> bool" where
  "query_truncated r \<longleftrightarrow> qr_state_cut r \<or> qr_edge_cut r \<or> qr_match_cut r \<or> qr_frontier_cut r \<or> qr_assignment_cut r \<or> qr_evidence_cut r"

section \<open>Gaps and selections\<close>

fun split_at_char :: "char \<Rightarrow> string \<Rightarrow> string list" where
  "split_at_char c [] = [[]]"
| "split_at_char c (x # xs) = (if x = c then [] # split_at_char c xs
     else (case split_at_char c xs of [] \<Rightarrow> [[x]] | y # ys \<Rightarrow> (x # y) # ys))"

text \<open>One scope of \<open>_gap_affects_selection\<close>, for a selection with the path \<open>base\<close>.\<close>

definition scope_selects :: "string \<Rightarrow> int list \<Rightarrow> string \<Rightarrow> bool" where
  "scope_selects base bits scope =
     (let prefix = base @ ''['';
          indices = (if starts_with prefix scope \<and> ends_with '']'' scope
                     then split_at_char (CHR '','') (butlast (drop (length prefix) scope)) else [])
      in if 1 < length indices then
           (if list_all (\<lambda>i. read_index i \<noteq> None) indices then overlaps (map (\<lambda>i. the (read_index i)) indices) bits else True)
         else (case split_select scope of
             Some (b, Some (l, r)) \<Rightarrow> b = base \<and> list_ex (\<lambda>x. min l r \<le> x \<and> x \<le> max l r) bits
           | _ \<Rightarrow> False))"

definition gap_affects_selection :: "coverage_gap \<Rightarrow> signal_selection \<Rightarrow> bool" where
  "gap_affects_selection g s \<longleftrightarrow> gap_affects g (selection_path s False) \<or>
     list_ex (scope_selects (selection_path s False) (ss_bits s)) (cg_scopes g)"

section \<open>Matches and frontiers\<close>

definition keep_shorter :: "query_match \<Rightarrow> (match_key \<times> query_match) list \<Rightarrow> (match_key \<times> query_match) list" where
  "keep_shorter m kvs = (case map_of kvs (query_match_key m) of
     None \<Rightarrow> AList.update (query_match_key m) m kvs
   | Some old \<Rightarrow> if length (qm_traversal m) < length (qm_traversal old) then AList.update (query_match_key m) m kvs else kvs)"

definition match_order :: "query_match \<Rightarrow> string \<times> string \<times> int \<times> string \<times> string" where
  "match_order m = (qm_path m, loc_file (se_location (qm_evidence m)), loc_line (se_location (qm_evidence m)), qm_fact m,
     (case qm_role m of None \<Rightarrow> [] | Some r \<Rightarrow> r))"

definition dedupe_matches :: "query_match list \<Rightarrow> query_match list" where
  "dedupe_matches ms = sort_key match_order (map snd (fold keep_shorter ms []))"

definition with_confidence :: "confidence \<Rightarrow> query_match \<Rightarrow> query_match" where
  "with_confidence c m = m\<lparr>qm_confidence := c,
     qm_positive := Some (case qm_positive m of None \<Rightarrow> qm_confidence m | Some p \<Rightarrow> p)\<rparr>"

definition dedupe_frontiers :: "frontier list \<Rightarrow> frontier list result" where
  "dedupe_frontiers fs = ebind (mapM (\<lambda>f. ebind (state_of (fr_signal f)) (\<lambda>s. Inr ((s, ss_bits (fr_target f)), f))) fs) (\<lambda>kvs.
     Inr (by_sorted_key (fold (\<lambda>(k, f). AList.update k f) kvs [])))"

section \<open>Gaps of the result\<close>

definition depth_gap :: "int \<Rightarrow> signal_selection \<Rightarrow> coverage_gap" where
  "depth_gap max_depth s = limit_gap ''query_depth_limit'' (''query traversal reached max_depth='' @ show_int max_depth) [selection_path s False]"

definition truncation_gaps :: "query_walk \<Rightarrow> signal_selection \<Rightarrow> coverage_gap list" where
  "truncation_gaps st s = map (\<lambda>(_, code, message). limit_gap code message [selection_path s False]) (filter fst
     [(wk_state_cut st, ''query_state_limit'', ''query traversal reached the internal state limit''),
      (wk_edge_cut st, ''query_edge_limit'', ''query traversal reached the internal inspected-edge limit''),
      (wk_match_cut st, ''query_match_limit'', ''query result exceeds the internal match output limit''),
      (wk_frontier_cut st, ''query_frontier_limit'', ''query result exceeds the internal expansion-frontier limit''),
      (wk_assignment_cut st, ''query_assignment_limit'', ''query reached the assignment inspection work limit''),
      (wk_evidence_cut st, ''query_evidence_limit'', ''statement evidence retention limit reached; structural inspection continued'')])"

definition coverage_gaps_of :: "connectivity_ir \<Rightarrow> walk_dir \<Rightarrow> query_walk \<Rightarrow> coverage_gap list" where
  "coverage_gaps_of ir dir st = (case dir of
     Drivers \<Rightarrow> filter (\<lambda>g. list_ex (\<lambda>p. gap_affects_selection g (fst p)) (wk_bit_paths st)) (cr_gaps (ir_coverage ir))
   | Loads \<Rightarrow> relevant_gaps (cr_gaps (ir_coverage ir)) (wk_touched st))"

definition identity_gaps :: "walk_dir \<Rightarrow> query_match list \<Rightarrow> coverage_gap list" where
  "identity_gaps dir ms = (case dir of
     Drivers \<Rightarrow> map (\<lambda>m. \<lparr>cg_code = ''driver_identity_unavailable'',
         cg_message = ''statement evidence has no known structural writer identity'', cg_impact = CovPartial, cg_constructs = [],
         cg_scopes = [selection_path (qm_covered m) True], cg_location = None\<rparr>) (filter (\<lambda>m. structural_driver_key m = None) ms)
   | Loads \<Rightarrow> [])"

definition walk_gaps :: "connectivity_ir \<Rightarrow> walk_dir \<Rightarrow> int \<Rightarrow> signal_selection \<Rightarrow> query_walk \<Rightarrow> query_match list \<Rightarrow> (gap_id \<times> coverage_gap) list" where
  "walk_gaps ir dir max_depth s st structural = fold add_gap
     (coverage_gaps_of ir dir st @ wk_gaps st @ (if wk_depth_limited st then [depth_gap max_depth s] else []) @
      truncation_gaps st s @ identity_gaps dir structural) []"

section \<open>The resolution of a bit\<close>

definition silent_codes :: "string set" where
  "silent_codes = {''query_evidence_limit'', ''query_depth_limit''}"

definition bit_of :: "signal_selection \<Rightarrow> int \<Rightarrow> signal_selection" where
  "bit_of s b = s\<lparr>ss_bits := [b]\<rparr>"

text \<open>The codes of the gaps on the inspected paths of the bit, and of those in its own coordinates.\<close>

definition path_reasons :: "(signal_selection \<times> signal_selection) list \<Rightarrow> coverage_gap list \<Rightarrow> int \<Rightarrow> string list" where
  "path_reasons paths gaps b = [cg_code g. (cur, tgt) \<leftarrow> paths, g \<leftarrow> gaps, cg_code g \<notin> silent_codes,
     (l, q) \<leftarrow> zip (ss_bits cur) (ss_bits tgt), q = b, gap_affects_selection g (bit_of cur l)]"

definition local_reasons :: "signal_selection \<Rightarrow> coverage_gap list \<Rightarrow> int \<Rightarrow> string list" where
  "local_reasons s gaps b = [cg_code g. g \<leftarrow> gaps, cg_code g \<notin> silent_codes, gap_affects_selection g (bit_of s b)]"

definition bit_reasons :: "connectivity_ir \<Rightarrow> signal_selection \<Rightarrow> query_walk \<Rightarrow> coverage_gap list \<Rightarrow> int \<Rightarrow> string list" where
  "bit_reasons ir s st gaps b =
     (let paths = (if wk_bit_paths st = [] then [(s, s)] else wk_bit_paths st);
          found = path_reasons paths gaps b @ local_reasons s gaps b;
          found = found @ (if query_coverage (ir_coverage ir) [] \<noteq> CovComplete \<and> found = [] then [''projection_coverage_incomplete''] else [])
      in found @ (if b \<in> set (wk_depth_bits st) then [''query_depth_limit''] else []))"

definition resolve_bit :: "connectivity_ir \<Rightarrow> signal_selection \<Rightarrow> query_walk \<Rightarrow> coverage_gap list \<Rightarrow> int set \<Rightarrow> int \<Rightarrow> bit_resolution" where
  "resolve_bit ir s st gaps resolved b =
     (let reasons = bit_reasons ir s st gaps b; complete = (reasons = []);
          shown = reasons @ (if b \<in> set (wk_evidence_bits st) then [''query_evidence_limit''] else [])
      in \<lparr>rb_bit = b, rb_verdict = (if b \<in> resolved then BitFound else if complete then BitNoDriver else BitUnknown),
          rb_reasons = sort (remdups shown), rb_complete = complete\<rparr>)"

section \<open>Finishing\<close>

definition covered_of :: "query_match list \<Rightarrow> int set" where
  "covered_of ms = (\<Union>m \<in> set ms. set (ss_bits (qm_covered m)))"

definition drivers_of_bit :: "query_match list \<Rightarrow> int \<Rightarrow> driver_key list" where
  "drivers_of_bit ms b = remdups (concat (map (\<lambda>m. case structural_driver_key m of None \<Rightarrow> [] | Some k \<Rightarrow> [k])
     (filter (\<lambda>m. b \<in> set (ss_bits (qm_covered m))) ms)))"

definition unconnected_gap :: "coverage_status \<Rightarrow> signal_selection \<Rightarrow> coverage_gap" where
  "unconnected_gap base s =
     \<lparr>cg_code = (if base = CovComplete then ''driver_bits_unconnected'' else ''driver_bits_unresolved''),
      cg_message = ''only a subset of the requested signal bits has proved driver provenance'',
      cg_impact = (if base = CovComplete then CovPartial else CovInconclusive), cg_constructs = [],
      cg_scopes = [selection_path s True], cg_location = None\<rparr>"

definition finish_result :: "connectivity_ir \<Rightarrow> query_limits \<Rightarrow> walk_dir \<Rightarrow> int \<Rightarrow> signal_selection \<Rightarrow> query_walk \<Rightarrow> connectivity_result result" where
  "finish_result ir lim dir max_depth s st =
     (let deduped = dedupe_matches (map snd (wk_matches st));
          structural = (case dir of Drivers \<Rightarrow> dedupe_matches (map snd (wk_structural st)) | Loads \<Rightarrow> deduped);
          resolved = covered_of structural;
          unresolved = filter (\<lambda>b. b \<notin> resolved) (ss_bits s);
          by_key = walk_gaps ir dir max_depth s st structural;
          bits = (case dir of Drivers \<Rightarrow> map (resolve_bit ir s st (map snd by_key) resolved) (ss_bits s) | Loads \<Rightarrow> []);
          by_key = (if dir = Drivers \<and> deduped \<noteq> [] \<and> unresolved \<noteq> []
                    then add_gap (unconnected_gap (query_coverage (ir_coverage ir) (map snd by_key)) s) by_key else by_key);
          gaps = by_sorted_key by_key;
          coverage = query_coverage (ir_coverage ir) gaps
      in ebind (dedupe_frontiers (map snd (wk_frontiers st))) (\<lambda>fronts. Inr
        \<lparr>qr_operation = dir, qr_signal = s,
         qr_status = (if deduped \<noteq> [] then QueryFound else if coverage = CovComplete then QueryNotConnected else QueryInconclusive),
         qr_coverage = coverage,
         qr_matches = (if coverage = CovComplete then deduped else map (with_confidence ConfPartial) deduped),
         qr_gaps = gaps, qr_traversed = wk_traversed st, qr_max_depth = max_depth,
         qr_resolved = filter (\<lambda>b. b \<in> resolved) (ss_bits s), qr_unresolved = unresolved,
         qr_constant = filter (\<lambda>b. b \<in> covered_of (filter (\<lambda>m. qm_kind m = EdgeConstantDriver) structural)) (ss_bits s),
         qr_multi = filter (\<lambda>b. 1 < length (drivers_of_bit structural b)) (ss_bits s),
         qr_frontiers = fronts, qr_states = length (wk_visited st), qr_edges = wk_edges st, qr_limits = lim,
         qr_state_cut = wk_state_cut st, qr_edge_cut = wk_edge_cut st, qr_match_cut = wk_match_cut st,
         qr_frontier_cut = wk_frontier_cut st, qr_structural = (case dir of Drivers \<Rightarrow> structural | Loads \<Rightarrow> []),
         qr_drivers = length (remdups (concat (map (\<lambda>m. case structural_driver_key m of None \<Rightarrow> [] | Some k \<Rightarrow> [k]) structural))),
         qr_assignments = wk_assignments st, qr_assignment_cut = wk_assignment_cut st,
         qr_evidence_cut = wk_evidence_cut st, qr_bits = bits\<rparr>))"

section \<open>The queries\<close>

definition positive_limit :: "int \<Rightarrow> string \<Rightarrow> unit result" where
  "positive_limit value label = require (1 \<le> value) (ValueError (label @ '' must be a positive integer''))"

definition run_query :: "connectivity_ir \<Rightarrow> index \<Rightarrow> query_limits \<Rightarrow> walk_dir \<Rightarrow> int \<Rightarrow> signal_selection \<Rightarrow> connectivity_result result" where
  "run_query ir ix lim dir max_depth s =
     ebind (run_walk lim dir ix (nat max_depth) s) (finish_result ir lim dir max_depth s)"

definition query_driver :: "connectivity_ir \<Rightarrow> index \<Rightarrow> string \<Rightarrow> int \<Rightarrow> string list \<Rightarrow> query_limits \<Rightarrow> connectivity_result result" where
  "query_driver ir ix path max_depth candidates lim =
     ebind (require (0 \<le> max_depth) (ValueError ''max_depth must not be negative'')) (\<lambda>_.
     ebind (positive_limit (ql_state lim) ''state_limit'') (\<lambda>_.
     ebind (positive_limit (ql_edge lim) ''edge_limit'') (\<lambda>_.
     ebind (positive_limit (ql_match lim) ''match_limit'') (\<lambda>_.
     ebind (positive_limit (ql_frontier lim) ''frontier_limit'') (\<lambda>_.
     ebind (positive_limit (ql_assignment lim) ''assignment_limit'') (\<lambda>_.
     ebind (positive_limit (ql_evidence lim) ''evidence_limit'') (\<lambda>_.
     ebind (resolve_signal ir path candidates) (run_query ir ix lim Drivers max_depth))))))))"

text \<open>\<open>query_loads\<close> takes four of the limits; the other two keep their defaults, which a walk over
  loads never asks for.\<close>

definition query_loads :: "connectivity_ir \<Rightarrow> index \<Rightarrow> string \<Rightarrow> int \<Rightarrow> string list \<Rightarrow> query_limits \<Rightarrow> connectivity_result result" where
  "query_loads ir ix path max_depth candidates lim =
     ebind (require (0 \<le> max_depth) (ValueError ''max_depth must not be negative'')) (\<lambda>_.
     ebind (positive_limit (ql_state lim) ''state_limit'') (\<lambda>_.
     ebind (positive_limit (ql_edge lim) ''edge_limit'') (\<lambda>_.
     ebind (positive_limit (ql_match lim) ''match_limit'') (\<lambda>_.
     ebind (positive_limit (ql_frontier lim) ''frontier_limit'') (\<lambda>_.
     ebind (resolve_signal ir path candidates) (\<lambda>s.
       run_query ir ix (lim\<lparr>ql_assignment := 16384, ql_evidence := 4096\<rparr>) Loads max_depth s))))))"

end
