(* ===== verification/Cq_Walk_Laws.thy ===== *)
theory Cq_Walk_Laws
  imports Cq_Result
begin

text \<open>
  The walks against reachability of single bits. A bit is an endpoint with an index; a segment leads
  from a bit to the bit that its mapping puts beside it. The invariant of a walk: what it has visited
  and found is reachable, and every finished state is closed under the segments and facts of its bits.
\<close>

section \<open>Bits\<close>

type_synonym signal_bit = "endpoint \<times> int"

definition leads :: "walk_dir \<Rightarrow> index \<Rightarrow> signal_bit \<Rightarrow> signal_bit \<Rightarrow> bool" where
  "leads dir ix p p' \<longleftrightarrow> (\<exists>f \<in> set (dir_segments dir ix (fst p)). endpoint_key (far dir f) = Inr (fst p') \<and>
     bit_map (ss_bits (near dir f)) (ss_bits (far dir f)) (snd p) = Some (snd p'))"

text \<open>
  What the result has to list for a bit: every write of it (a read, for loads) under its own identity,
  every constant under one of its identities, which name the selected bits.
\<close>

type_synonym match_id = "string \<times> string"

definition constant_fact :: "terminal \<Rightarrow> int list \<Rightarrow> string" where
  "constant_fact t bits = pb_id (tm_binding t) @ '':constant:'' @ join '','' (map show_int bits)"

definition required :: "walk_dir \<Rightarrow> index \<Rightarrow> signal_bit \<Rightarrow> match_id set \<Rightarrow> bool" where
  "required dir ix p I \<longleftrightarrow> (case dir of
     Drivers \<Rightarrow> (\<exists>a \<in> set (lookup af_id (ix_writes ix) (fst p)). snd p \<in> set (ss_bits (af_target a)) \<and> I = {(fst (fst p), af_id a)}) \<or>
       (\<exists>t \<in> set (lookup terminal_key (ix_constant ix) (fst p)). snd p \<in> set (ss_bits (bm_target (tm_mapping t))) \<and>
          I = {(fst (fst p), constant_fact t bits) | bits. snd p \<in> set bits})
   | Loads \<Rightarrow> (\<exists>r \<in> set (lookup read_key (ix_reads ix) (fst p)). snd p \<in> set (ss_bits (df_source (snd r))) \<and> I = {(fst (fst p), af_id (fst r))}))"

definition fact_at :: "walk_dir \<Rightarrow> index \<Rightarrow> signal_bit \<Rightarrow> bool" where
  "fact_at dir ix p \<longleftrightarrow> (\<exists>I. required dir ix p I)"

definition unresolved_at :: "walk_dir \<Rightarrow> index \<Rightarrow> signal_bit \<Rightarrow> bool" where
  "unresolved_at dir ix p \<longleftrightarrow> dir = Drivers \<and>
     (\<exists>t \<in> set (lookup terminal_key (ix_unresolved ix) (fst p)). snd p \<in> set (ss_bits (bm_target (tm_mapping t))))"

text \<open>The bits of a state with the query bits they stand for.\<close>

definition pairs_of :: "visit_key \<Rightarrow> (signal_bit \<times> int) set" where
  "pairs_of v = {((fst (fst v), b), q) | b q. (b, q) \<in> set (zip (snd (fst v)) (snd v))}"

definition pairs :: "query_walk \<Rightarrow> (signal_bit \<times> int) set" where
  "pairs st = (\<Union>v \<in> set (wk_visited st). pairs_of v)"

definition found_matches :: "walk_dir \<Rightarrow> query_walk \<Rightarrow> query_match list" where
  "found_matches dir st = (case dir of Drivers \<Rightarrow> map snd (wk_structural st) | Loads \<Rightarrow> map snd (wk_matches st))"

definition found_bits :: "walk_dir \<Rightarrow> query_walk \<Rightarrow> int set" where
  "found_bits dir st = covered_of (found_matches dir st)"

lemma in_covered_of: "q \<in> covered_of ms \<longleftrightarrow> (\<exists>m \<in> set ms. q \<in> set (ss_bits (qm_covered m)))"
  by (simp add: covered_of_def)

text \<open>The matches with their statements, each under its identity.\<close>

definition tagged :: "query_match \<Rightarrow> (match_id \<times> int) set" where
  "tagged m = {((qm_path m, qm_fact m), q) | q. q \<in> set (ss_bits (qm_covered m))}"

definition listed :: "query_walk \<Rightarrow> (match_id \<times> int) set" where
  "listed st = (\<Union>(k, m) \<in> set (wk_matches st). tagged m)"

definition kept :: "walk_dir \<Rightarrow> query_walk \<Rightarrow> bool" where
  "kept dir st \<longleftrightarrow> (\<forall>(k, m) \<in> set (wk_matches st). k = query_match_key m \<and> set (ss_bits (qm_covered m)) \<subseteq> found_bits dir st) \<and>
     (\<forall>(k, m) \<in> set (wk_structural st). fst (snd (snd k)) = qm_covered m)"

definition closed :: "walk_dir \<Rightarrow> index \<Rightarrow> query_walk \<Rightarrow> visit_key \<Rightarrow> bool" where
  "closed dir ix st v \<longleftrightarrow> (\<forall>(p, q) \<in> pairs_of v. (\<forall>I. required dir ix p I \<longrightarrow> q \<in> found_bits dir st \<and> (wk_evidence_cut st \<or> (\<exists>i \<in> I. (i, q) \<in> listed st))) \<and>
     (unresolved_at dir ix p \<longrightarrow> wk_gaps st \<noteq> []) \<and>
     (\<forall>p'. leads dir ix p p' \<longrightarrow> q \<in> set (wk_depth_bits st) \<or> (p', q) \<in> pairs st))"

definition grows :: "walk_dir \<Rightarrow> query_walk \<Rightarrow> query_walk \<Rightarrow> bool" where
  "grows dir st st' \<longleftrightarrow> set (wk_visited st) \<subseteq> set (wk_visited st') \<and> found_bits dir st \<subseteq> found_bits dir st' \<and>
     listed st \<subseteq> listed st' \<and> (wk_evidence_cut st \<longrightarrow> wk_evidence_cut st') \<and>
     set (wk_depth_bits st) \<subseteq> set (wk_depth_bits st') \<and> (wk_gaps st \<noteq> [] \<longrightarrow> wk_gaps st' \<noteq> []) \<and>
     (walk_truncated st \<longrightarrow> walk_truncated st')"

definition advances :: "walk_dir \<Rightarrow> index \<Rightarrow> query_walk \<Rightarrow> query_walk \<Rightarrow> bool" where
  "advances dir ix st st' \<longleftrightarrow> grows dir st st' \<and>
     (\<not> walk_truncated st' \<longrightarrow> (\<forall>v \<in> set (wk_visited st') - set (wk_visited st). closed dir ix st' v))"

definition sound :: "walk_dir \<Rightarrow> index \<Rightarrow> endpoint \<Rightarrow> query_walk \<Rightarrow> bool" where
  "sound dir ix k0 st \<longleftrightarrow> kept dir st \<and> (wk_depth_bits st \<noteq> [] \<longrightarrow> wk_depth_limited st) \<and> (\<forall>(p, q) \<in> pairs st. (leads dir ix)\<^sup>*\<^sup>* (k0, q) p) \<and>
     (\<forall>q \<in> found_bits dir st. \<exists>p. (leads dir ix)\<^sup>*\<^sup>* (k0, q) p \<and> fact_at dir ix p) \<and>
     (\<forall>(i, q) \<in> listed st. \<exists>p I. (leads dir ix)\<^sup>*\<^sup>* (k0, q) p \<and> required dir ix p I \<and> i \<in> I)"

lemma grows_refl: "grows dir st st" by (simp add: grows_def)
lemma grows_trans: "grows dir a b \<Longrightarrow> grows dir b c \<Longrightarrow> grows dir a c" unfolding grows_def by blast

lemma pairs_mono: "grows dir st st' \<Longrightarrow> pairs st \<subseteq> pairs st'"
  unfolding grows_def pairs_def by blast

lemma closed_mono: "grows dir st st' \<Longrightarrow> closed dir ix st v \<Longrightarrow> closed dir ix st' v"
  using pairs_mono [of dir st st'] unfolding closed_def grows_def by (fastforce simp del: split_paired_All)

lemma advances_refl: "advances dir ix st st" by (simp add: advances_def grows_refl)

lemma advances_trans:
  assumes "advances dir ix a b" "advances dir ix b c" shows "advances dir ix a c"
  unfolding advances_def
proof (intro conjI impI ballI)
  show "grows dir a c" using assms grows_trans unfolding advances_def by blast
  fix v assume c: "\<not> walk_truncated c" and v: "v \<in> set (wk_visited c) - set (wk_visited a)"
  have bc: "grows dir b c" using assms(2) unfolding advances_def by blast
  then have b: "\<not> walk_truncated b" using c unfolding grows_def by blast
  show "closed dir ix c v"
  proof (cases "v \<in> set (wk_visited b)")
    case True
    then have "closed dir ix b v" using assms(1) b v unfolding advances_def by blast
    then show ?thesis by (rule closed_mono [OF bc])
  next
    case False
    then show ?thesis using assms(2) c v unfolding advances_def by blast
  qed
qed

section \<open>Steps with a contract\<close>

text \<open>
  A step keeps an invariant, moves along a preorder, and, unless it stops the visit (which it does
  only after a budget has run out), establishes what is asked of it.
\<close>

locale step_contract =
  fixes inv :: "query_walk \<Rightarrow> bool" and rel :: "query_walk \<Rightarrow> query_walk \<Rightarrow> bool"
  assumes rel_refl: "rel st st" and rel_trans: "rel a b \<Longrightarrow> rel b c \<Longrightarrow> rel a c"
begin

definition meets_contract :: "(query_walk \<Rightarrow> (bool \<times> query_walk) result) \<Rightarrow> (query_walk \<Rightarrow> bool) \<Rightarrow> bool" where
  "meets_contract f post \<longleftrightarrow> (\<forall>st go st'. inv st \<longrightarrow> f st = Inr (go, st') \<longrightarrow>
     inv st' \<and> rel st st' \<and> (\<not> go \<longrightarrow> walk_truncated st') \<and> (go \<longrightarrow> post st'))"

definition stable :: "(query_walk \<Rightarrow> bool) \<Rightarrow> bool" where
  "stable post \<longleftrightarrow> (\<forall>st st'. rel st st' \<longrightarrow> post st \<longrightarrow> post st')"

lemma contractI:
  assumes "\<And>st go st'. inv st \<Longrightarrow> f st = Inr (go, st') \<Longrightarrow> inv st' \<and> rel st st' \<and> (\<not> go \<longrightarrow> walk_truncated st') \<and> (go \<longrightarrow> post st')"
  shows "meets_contract f post"
  using assms unfolding meets_contract_def by blast

lemma contract_done:
  assumes "meets_contract f post" "inv st" "f st = Inr (go, st')"
  shows "inv st'" "rel st st'" "\<not> go \<longrightarrow> walk_truncated st'" "go \<longrightarrow> post st'"
  using assms unfolding meets_contract_def by blast+

lemma contract_weaken: "meets_contract f P \<Longrightarrow> (\<And>st. P st \<Longrightarrow> Q st) \<Longrightarrow> meets_contract f Q"
  unfolding meets_contract_def by blast

lemma seq_contract:
  assumes "meets_contract f P" "meets_contract g Q" "stable P"
  shows "meets_contract (\<lambda>st. andthen (f st) g) (\<lambda>st. P st \<and> Q st)"
proof (rule contractI)
  fix st go' st' assume st: "inv st" "andthen (f st) g = Inr (go', st')"
  then obtain go st1 where f: "f st = Inr (go, st1)" by (auto simp: andthen_def ebind_Inr_iff)
  note c = contract_done [OF assms(1) st(1) f]
  show "inv st' \<and> rel st st' \<and> (\<not> go' \<longrightarrow> walk_truncated st') \<and> (go' \<longrightarrow> P st' \<and> Q st')"
  proof (cases go)
    case True
    then have "g st1 = Inr (go', st')" using f st by (simp add: andthen_def)
    from contract_done [OF assms(2) c(1) this] show ?thesis
      using rel_trans [OF c(2)] assms(3) c(4) True unfolding stable_def by blast
  next
    case False
    then have "st' = st1 \<and> \<not> go'" using f st by (simp add: andthen_def)
    then show ?thesis using c False by blast
  qed
qed

lemma each_contract:
  assumes "\<And>x. x \<in> set xs \<Longrightarrow> meets_contract (f x) (post x)" "\<And>x. stable (post x)"
  shows "meets_contract (each f xs) (\<lambda>st. \<forall>x \<in> set xs. post x st)"
  using assms(1)
proof (induction xs)
  case Nil
  show ?case using rel_refl by (auto intro!: contractI)
next
  case (Cons x xs)
  have "meets_contract (\<lambda>st. andthen (f x st) (each f xs)) (\<lambda>st. post x st \<and> (\<forall>y \<in> set xs. post y st))"
    using Cons assms(2) by (auto intro!: seq_contract)
  moreover have "each f (x # xs) = (\<lambda>st. andthen (f x st) (each f xs))" by auto
  ultimately show ?case by simp
qed

end

interpretation walk: step_contract "sound dir ix k0" "advances dir ix" for dir ix k0
  by unfold_locales (auto intro: advances_refl advances_trans)

section \<open>The budget and the collector\<close>

definition same_state :: "query_walk \<Rightarrow> query_walk \<Rightarrow> bool" where
  "same_state st st' \<longleftrightarrow> wk_visited st' = wk_visited st \<and> wk_depth_bits st' = wk_depth_bits st \<and> wk_gaps st' = wk_gaps st \<and> wk_depth_limited st' = wk_depth_limited st \<and>
     (walk_truncated st \<longrightarrow> walk_truncated st')"

definition same_facts :: "query_walk \<Rightarrow> query_walk \<Rightarrow> bool" where
  "same_facts st st' \<longleftrightarrow> wk_visited st' = wk_visited st \<and> wk_depth_bits st' = wk_depth_bits st \<and> wk_gaps st' = wk_gaps st \<and>
     wk_depth_limited st' = wk_depth_limited st \<and> wk_evidence_cut st' = wk_evidence_cut st \<and> (walk_truncated st \<longrightarrow> walk_truncated st')"

lemma inspect_edge_frame:
  assumes "inspect_edge lim st = (go, st')"
  shows "same_facts st st'" "wk_matches st' = wk_matches st" "wk_structural st' = wk_structural st" "\<not> go \<longrightarrow> walk_truncated st'"
  using assms by (auto simp: inspect_edge_def same_facts_def walk_truncated_def split: if_splits)

lemma inspect_assignment_frame:
  assumes "inspect_assignment lim st = (go, st')"
  shows "same_facts st st'" "wk_matches st' = wk_matches st" "wk_structural st' = wk_structural st" "\<not> go \<longrightarrow> walk_truncated st'"
proof -
  have "same_facts st st' \<and> wk_matches st' = wk_matches st \<and> wk_structural st' = wk_structural st \<and> (\<not> go \<longrightarrow> walk_truncated st')"
  proof (cases "ql_assignment lim \<le> int (wk_assignments st)")
    case True
    then show ?thesis using assms by (auto simp: inspect_assignment_def same_facts_def walk_truncated_def)
  next
    case False
    obtain g s where i: "inspect_edge lim st = (g, s)" by fastforce
    then have "go = g" "st' = s \<or> st' = s\<lparr>wk_assignments := wk_assignments s + 1\<rparr>"
      using assms False by (cases g; simp add: inspect_assignment_def)+
    moreover have "same_facts s (s\<lparr>wk_assignments := n\<rparr>)" "walk_truncated (s\<lparr>wk_assignments := n\<rparr>) = walk_truncated s" for n
      by (simp_all add: same_facts_def walk_truncated_def)
    ultimately show ?thesis using inspect_edge_frame [OF i] by (elim disjE) (simp_all add: same_facts_def)
  qed
  then show "same_facts st st'" "wk_matches st' = wk_matches st" "wk_structural st' = wk_structural st" "\<not> go \<longrightarrow> walk_truncated st'" by blast+
qed

lemma update_in: "(k, v) \<in> set (AList.update k v kvs)"
  by (induction kvs) auto

lemma update_from: "(k', v') \<in> set (AList.update k v kvs) \<Longrightarrow> (k', v') = (k, v) \<or> (k', v') \<in> set kvs"
  by (induction kvs) (auto split: if_splits)

lemma update_keeps: "(k', v') \<in> set kvs \<Longrightarrow> k' = k \<or> (k', v') \<in> set (AList.update k v kvs)"
  by (induction kvs) auto

lemma covered_key: "query_match_key m = query_match_key m' \<Longrightarrow> ss_bits (qm_covered m) = ss_bits (qm_covered m')"
  by (simp add: query_match_key_def)

text \<open>What a collected match does to the found bits.\<close>

definition collects :: "walk_dir \<Rightarrow> query_match \<Rightarrow> query_walk \<Rightarrow> query_walk \<Rightarrow> bool" where
  "collects dir m st st' \<longleftrightarrow> same_state st st' \<and> kept dir st' \<and> found_bits dir st \<subseteq> found_bits dir st' \<and>
     found_bits dir st' \<subseteq> found_bits dir st \<union> set (ss_bits (qm_covered m))"

lemma found_loads: "q \<in> found_bits Loads st \<longleftrightarrow> (\<exists>(k, m) \<in> set (wk_matches st). q \<in> set (ss_bits (qm_covered m)))"
  by (force simp: found_bits_def found_matches_def in_covered_of)

lemma found_drivers: "q \<in> found_bits Drivers st \<longleftrightarrow> (\<exists>(k, m) \<in> set (wk_structural st). q \<in> set (ss_bits (qm_covered m)))"
  by (force simp: found_bits_def found_matches_def in_covered_of)

lemma keep_match_collects:
  assumes "kept dir st" "dir = Drivers \<longrightarrow> set (ss_bits (qm_covered m)) \<subseteq> found_bits dir st"
  shows "collects dir m st (keep_match m st) \<and> set (ss_bits (qm_covered m)) \<subseteq> found_bits dir (keep_match m st)"
proof -
  let ?st = "keep_match m st"
  have frame: "same_state st ?st" "wk_structural ?st = wk_structural st"
    by (auto simp: same_state_def keep_match_def walk_truncated_def)
  have ms: "wk_matches ?st = AList.update (query_match_key m) m (wk_matches st)" by (simp add: keep_match_def)
  have up: "found_bits dir st \<subseteq> found_bits dir ?st"
  proof (cases dir)
    case Drivers
    then show ?thesis by (auto simp: found_drivers frame)
  next
    case Loads
    show ?thesis
    proof
      fix q assume "q \<in> found_bits dir st"
      then obtain k m' where m': "(k, m') \<in> set (wk_matches st)" "q \<in> set (ss_bits (qm_covered m'))" using Loads found_loads by blast
      then have "k = query_match_key m'" using assms(1) unfolding kept_def by blast
      then have "k = query_match_key m \<longrightarrow> q \<in> set (ss_bits (qm_covered m))" using m' covered_key by metis
      have "\<exists>m''. (query_match_key m, m) = (k, m'') \<or> (k, m') \<in> set (wk_matches ?st)"
        unfolding ms using update_keeps [OF m'(1)] by metis
      moreover have "(query_match_key m, m) \<in> set (wk_matches ?st)" unfolding ms by (rule update_in)
      ultimately have "\<exists>(k, m) \<in> set (wk_matches ?st). q \<in> set (ss_bits (qm_covered m))"
        using m'(2) \<open>k = query_match_key m \<longrightarrow> _\<close> by blast
      then show "q \<in> found_bits dir ?st" unfolding Loads found_loads .
    qed
  qed
  have down: "found_bits dir ?st \<subseteq> found_bits dir st \<union> set (ss_bits (qm_covered m))"
  proof (cases dir)
    case Drivers
    then show ?thesis by (auto simp: found_drivers frame)
  next
    case Loads
    show ?thesis
    proof
      fix q assume "q \<in> found_bits dir ?st"
      then obtain k m' where "(k, m') \<in> set (wk_matches ?st)" "q \<in> set (ss_bits (qm_covered m'))" unfolding Loads found_loads by blast
      then show "q \<in> found_bits dir st \<union> set (ss_bits (qm_covered m))"
        using update_from [of k m'] unfolding Loads Un_iff found_loads ms by blast
    qed
  qed
  have cov: "set (ss_bits (qm_covered m)) \<subseteq> found_bits dir ?st"
  proof (cases dir)
    case Drivers
    then show ?thesis using assms(2) up by blast
  next
    case Loads
    have "q \<in> found_bits Loads ?st" if "q \<in> set (ss_bits (qm_covered m))" for q
      unfolding found_loads ms using update_in that by (intro bexI [of _ "(query_match_key m, m)"]) simp_all
    then show ?thesis unfolding Loads by blast
  qed
  have "kept dir ?st" unfolding kept_def frame(2)
  proof (intro conjI)
    show "\<forall>(k, m) \<in> set (wk_structural st). fst (snd (snd k)) = qm_covered m" using assms(1) unfolding kept_def by blast
    have "k = query_match_key m' \<and> set (ss_bits (qm_covered m')) \<subseteq> found_bits dir ?st" if "(k, m') \<in> set (wk_matches ?st)" for k m'
    proof (cases "(k, m') \<in> set (wk_matches st)")
      case True
      then have "k = query_match_key m' \<and> set (ss_bits (qm_covered m')) \<subseteq> found_bits dir st" using assms(1) unfolding kept_def by blast
      then show ?thesis using up by blast
    next
      case False
      then have "k = query_match_key m \<and> m' = m" using update_from [OF that [unfolded ms]] by simp
      then show ?thesis using cov by blast
    qed
    then show "\<forall>(k, m) \<in> set (wk_matches ?st). k = query_match_key m \<and> set (ss_bits (qm_covered m)) \<subseteq> found_bits dir ?st" by blast
  qed
  then show ?thesis unfolding collects_def using frame(1) up down cov by blast
qed

lemma setdefault_in: "(k', v') \<in> set (setdefault_key k v kvs) \<Longrightarrow> (k', v') = (k, v) \<or> (k', v') \<in> set kvs"
  by (auto simp: setdefault_key_def split: if_splits)

lemma setdefault_keeps: "x \<in> set kvs \<Longrightarrow> x \<in> set (setdefault_key k v kvs)"
  by (simp add: setdefault_key_def)

lemma setdefault_has: "\<exists>v'. (k, v') \<in> set (setdefault_key k v kvs)"
  by (cases "map_of kvs k") (auto simp: setdefault_key_def dest: map_of_SomeD)


lemma add_driver_collects:
  assumes "kept Drivers st" "add_driver lim m st = (go, st')"
  shows "collects Drivers m st st'" "go \<longrightarrow> set (ss_bits (qm_covered m)) \<subseteq> found_bits Drivers st'" "\<not> go \<longrightarrow> walk_truncated st'"
proof -
  let ?k = "(admitted_key m, qm_target m, qm_covered m, qm_constant m, qm_traversal m)"
  define st1 where "st1 = st\<lparr>wk_driver_keys := List.insert (admitted_key m) (wk_driver_keys st),
     wk_structural := setdefault_key ?k m (wk_structural st)\<rparr>"
  have frame: "same_state st st1" "wk_matches st1 = wk_matches st" "wk_structural st1 = setdefault_key ?k m (wk_structural st)"
    by (simp_all add: st1_def same_state_def walk_truncated_def)
  have keys: "fst (snd (snd k)) = qm_covered m'" if "(k, m') \<in> set (wk_structural st1)" for k m'
    using setdefault_in [OF that [unfolded frame(3)]] assms(1) unfolding kept_def by auto
  have up: "found_bits Drivers st \<subseteq> found_bits Drivers st1"
  proof
    fix q assume "q \<in> found_bits Drivers st"
    then obtain k m' where "(k, m') \<in> set (wk_structural st)" "q \<in> set (ss_bits (qm_covered m'))" unfolding found_drivers by blast
    then show "q \<in> found_bits Drivers st1" using setdefault_keeps [of "(k, m')"] unfolding found_drivers frame by blast
  qed
  have cov: "set (ss_bits (qm_covered m)) \<subseteq> found_bits Drivers st1"
  proof -
    obtain m' where m': "(?k, m') \<in> set (wk_structural st1)" unfolding frame(3) using setdefault_has [of ?k m "wk_structural st"] by blast
    then have "qm_covered m' = qm_covered m" using keys by fastforce
    then have "q \<in> found_bits Drivers st1" if "q \<in> set (ss_bits (qm_covered m))" for q
      unfolding found_drivers using m' that by (intro bexI [of _ "(?k, m')"]) simp_all
    then show ?thesis by blast
  qed
  have down: "found_bits Drivers st1 \<subseteq> found_bits Drivers st \<union> set (ss_bits (qm_covered m))"
  proof
    fix q assume "q \<in> found_bits Drivers st1"
    then obtain k m' where "(k, m') \<in> set (wk_structural st1)" "q \<in> set (ss_bits (qm_covered m'))" unfolding found_drivers by blast
    then show "q \<in> found_bits Drivers st \<union> set (ss_bits (qm_covered m))"
      using setdefault_in [of k m'] unfolding Un_iff found_drivers frame by blast
  qed
  have matches: "k = query_match_key m' \<and> set (ss_bits (qm_covered m')) \<subseteq> found_bits Drivers st1" if "(k, m') \<in> set (wk_matches st1)" for k m'
    using that assms(1) up unfolding kept_def frame(2) by blast
  have kept1: "kept Drivers st1" unfolding kept_def using keys matches by blast
  then have st1: "collects Drivers m st st1" unfolding collects_def using frame(1) up down by blast
  show "collects Drivers m st st'" "go \<longrightarrow> set (ss_bits (qm_covered m)) \<subseteq> found_bits Drivers st'" "\<not> go \<longrightarrow> walk_truncated st'"
  proof -
    let ?cut = "admitted_key m \<notin> set (wk_driver_keys st) \<and> ql_match lim \<le> int (length (wk_driver_keys st))"
    let ?full = "ql_evidence lim \<le> int (length (wk_matches st1))"
    let ?noted = "st1\<lparr>wk_evidence_cut := True, wk_evidence_bits := wk_evidence_bits st1 @ ss_bits (qm_covered m)\<rparr>"
    have step: "add_driver lim m st = (if ?cut then (False, st\<lparr>wk_match_cut := True\<rparr>) else if ?full then (True, ?noted) else (True, keep_match m st1))"
      by (simp add: add_driver_def st1_def Let_def)
    have cut: "collects Drivers m st (st\<lparr>wk_match_cut := True\<rparr>)" "walk_truncated (st\<lparr>wk_match_cut := True\<rparr>)"
      using assms(1) by (simp_all add: collects_def same_state_def walk_truncated_def kept_def found_bits_def found_matches_def)
    have noted: "collects Drivers m st ?noted" "set (ss_bits (qm_covered m)) \<subseteq> found_bits Drivers ?noted"
      using st1 cov by (simp_all add: collects_def same_state_def walk_truncated_def kept_def found_bits_def found_matches_def)
    note k = keep_match_collects [of Drivers st1 m, OF kept1] 
    have kept: "collects Drivers m st (keep_match m st1)" "set (ss_bits (qm_covered m)) \<subseteq> found_bits Drivers (keep_match m st1)"
      using k st1 cov unfolding collects_def same_state_def by auto
    have "collects Drivers m st st' \<and> (go \<longrightarrow> set (ss_bits (qm_covered m)) \<subseteq> found_bits Drivers st') \<and> (\<not> go \<longrightarrow> walk_truncated st')"
      using assms(2) cut noted kept unfolding step by (auto split: if_splits)
    then show "collects Drivers m st st'" "go \<longrightarrow> set (ss_bits (qm_covered m)) \<subseteq> found_bits Drivers st'" "\<not> go \<longrightarrow> walk_truncated st'" by blast+
  qed
qed

lemma add_match_collects:
  assumes "kept dir st" "add_match lim dir m st = (go, st')"
  shows "collects dir m st st' \<and> (go \<longrightarrow> set (ss_bits (qm_covered m)) \<subseteq> found_bits dir st') \<and> (\<not> go \<longrightarrow> walk_truncated st')"
proof (cases "map_of (wk_matches st) (query_match_key m)")
  case (Some old)
  have "query_match_key m = query_match_key old" "set (ss_bits (qm_covered old)) \<subseteq> found_bits dir st"
    using map_of_SomeD [OF Some] assms(1) unfolding kept_def by blast+
  then have cov: "set (ss_bits (qm_covered m)) \<subseteq> found_bits dir st" using covered_key by metis
  have "collects dir m st st" using assms(1) by (simp add: collects_def same_state_def)
  moreover have "collects dir m st (keep_match m st) \<and> set (ss_bits (qm_covered m)) \<subseteq> found_bits dir (keep_match m st)"
    using keep_match_collects [OF assms(1)] cov by blast
  ultimately show ?thesis using assms(2) Some cov by (auto simp only: add_match_def option.case prod.inject split: if_splits)
next
  case None
  show ?thesis
  proof (cases dir)
    case Drivers
    then show ?thesis using add_driver_collects [of st lim m go st'] assms None by (simp add: add_match_def)
  next
    case Loads
    have "collects Loads m st (st\<lparr>wk_match_cut := True\<rparr>)"
      using assms(1) Loads by (simp add: collects_def same_state_def walk_truncated_def kept_def found_bits_def found_matches_def)
    then show ?thesis using keep_match_collects [of Loads st m] assms None Loads
      by (auto simp: add_match_def walk_truncated_def split: if_splits)
  qed
qed


text \<open>The same for the listed statements, which an evidence limit may leave out.\<close>

lemma keep_match_listed:
  assumes "kept dir st"
  shows "listed st \<subseteq> listed (keep_match m st)" "listed (keep_match m st) \<subseteq> listed st \<union> tagged m" "tagged m \<subseteq> listed (keep_match m st)"
proof -
  let ?st = "keep_match m st"
  have ms: "wk_matches ?st = AList.update (query_match_key m) m (wk_matches st)" by (simp add: keep_match_def)
  show new: "tagged m \<subseteq> listed ?st" unfolding listed_def ms using update_in [of "query_match_key m" m "wk_matches st"] by blast
  show "listed ?st \<subseteq> listed st \<union> tagged m"
  proof
    fix x assume "x \<in> listed ?st"
    then obtain k m' where "(k, m') \<in> set (wk_matches ?st)" "x \<in> tagged m'" unfolding listed_def by blast
    then show "x \<in> listed st \<union> tagged m" using update_from [of k m'] unfolding ms listed_def by blast
  qed
  show "listed st \<subseteq> listed ?st"
  proof
    fix x assume "x \<in> listed st"
    then obtain k m' where m': "(k, m') \<in> set (wk_matches st)" "x \<in> tagged m'" unfolding listed_def by blast
    then have k: "k = query_match_key m'" using assms unfolding kept_def by blast
    show "x \<in> listed ?st"
    proof (cases "k = query_match_key m")
      case True
      then have "tagged m' = tagged m" using k by (simp add: tagged_def query_match_key_def)
      then show ?thesis using m'(2) new by blast
    next
      case False
      then have "(k, m') \<in> set (wk_matches ?st)" unfolding ms using update_keeps [OF m'(1)] by blast
      then show ?thesis using m'(2) unfolding listed_def by blast
    qed
  qed
qed

definition lists :: "query_match \<Rightarrow> query_walk \<Rightarrow> query_walk \<Rightarrow> bool" where
  "lists m st st' \<longleftrightarrow> listed st \<subseteq> listed st' \<and> listed st' \<subseteq> listed st \<union> tagged m \<and> (wk_evidence_cut st \<longrightarrow> wk_evidence_cut st')"

lemma add_match_lists:
  assumes "kept dir st" "add_match lim dir m st = (go, st')"
  shows "lists m st st' \<and> (go \<longrightarrow> wk_evidence_cut st' \<or> tagged m \<subseteq> listed st')"
proof -
  have keep: "lists m s (keep_match m s) \<and> tagged m \<subseteq> listed (keep_match m s)" if "wk_matches s = wk_matches st" for s
  proof -
    have "listed s = listed st" "listed (keep_match m s) = listed (keep_match m st)" using that by (simp_all add: listed_def keep_match_def)
    then show ?thesis using keep_match_listed [OF assms(1), of m] by (simp add: lists_def keep_match_def)
  qed
  have same: "lists m st s" if "wk_matches s = wk_matches st" "wk_evidence_cut st \<longrightarrow> wk_evidence_cut s" for s
    using that by (simp add: lists_def listed_def)
  show ?thesis
  proof (cases "map_of (wk_matches st) (query_match_key m)")
    case (Some old)
    have o: "query_match_key m = query_match_key old" "(query_match_key m, old) \<in> set (wk_matches st)"
      using map_of_SomeD [OF Some] assms(1) unfolding kept_def by blast+
    then have "tagged m = tagged old" by (simp add: tagged_def query_match_key_def)
    then have "tagged m \<subseteq> listed st" using o(2) unfolding listed_def by blast
    moreover have "st' = st \<or> st' = keep_match m st" using assms(2) Some by (auto simp: add_match_def split: if_splits)
    ultimately show ?thesis using keep [of st] same [of st] by (elim disjE) simp_all
  next
    case None
    show ?thesis
    proof (cases dir)
      case Loads
      then show ?thesis using assms(2) None keep [of st] same [of st'] by (auto simp: add_match_def split: if_splits)
    next
      case Drivers
      define st1 where "st1 = st\<lparr>wk_driver_keys := List.insert (admitted_key m) (wk_driver_keys st),
        wk_structural := setdefault_key (admitted_key m, qm_target m, qm_covered m, qm_constant m, qm_traversal m) m (wk_structural st)\<rparr>"
      have m1: "wk_matches st1 = wk_matches st" "wk_evidence_cut st1 = wk_evidence_cut st" by (simp_all add: st1_def)
      have "(go, st') = (False, st\<lparr>wk_match_cut := True\<rparr>) \<or>
          (go, st') = (True, st1\<lparr>wk_evidence_cut := True, wk_evidence_bits := wk_evidence_bits st1 @ ss_bits (qm_covered m)\<rparr>) \<or>
          (go, st') = (True, keep_match m st1)"
        using assms(2) None Drivers by (auto simp: add_match_def add_driver_def st1_def Let_def split: if_splits)
      moreover have "lists m st (keep_match m st1)"
        using keep [OF m1(1)] m1 by (simp add: lists_def listed_def)
      ultimately show ?thesis using keep [OF m1(1)] same [of st'] m1 by auto
    qed
  qed
qed

end
