(* ===== verification/Cq_Walk_Steps.thy ===== *)
theory Cq_Walk_Steps
  imports Cq_Walk_Laws
begin

text \<open>
  The steps of a visit against the contract of \<open>Cq_Walk_Laws\<close>, and the visit itself by induction on
  the depth that is left.
\<close>

section \<open>Aligned selections\<close>

lemma mk_selection_same: "mk_selection s = Inr s' \<Longrightarrow> s' = s"
  by (simp add: mk_selection_def checked_Inr)

lemma endpoint_key_same: "ss_path a = ss_path b \<Longrightarrow> ss_symbol a = ss_symbol b \<Longrightarrow> endpoint_key a = endpoint_key b"
  by (cases "ss_path b") (simp_all add: endpoint_key_def)

lemma filter_full: "length (filter P xs) = length xs \<Longrightarrow> filter P xs = xs \<and> (\<forall>x \<in> set xs. P x)"
proof -
  assume "length (filter P xs) = length xs"
  then have "P x" if "x \<in> set xs" for x using length_filter_less [of x xs P] that by (cases "P x") simp_all
  then show ?thesis by (simp add: filter_id_conv)
qed

lemma zip_positions: "zip (map (\<lambda>i. xs ! i) ps) (map (\<lambda>i. ys ! i) ps) = map (\<lambda>i. (xs ! i, ys ! i)) ps"
  by (induction ps) simp_all

lemma zip_all: "length xs = length ys \<Longrightarrow> zip xs ys = map (\<lambda>i. (xs ! i, ys ! i)) [0..<length xs]"
  by (rule nth_equalityI) simp_all

lemma aligned_overlap_zip:
  assumes "aligned_overlap cur tgt bits = Inr (sel, cov, ps)"
  shows "zip (ss_bits sel) (ss_bits cov) = filter (\<lambda>p. fst p \<in> set bits) (zip (ss_bits cur) (ss_bits tgt))"
    "ss_width sel = ss_width cov" "endpoint_key sel = endpoint_key cur"
proof -
  have w: "ss_width cur = ss_width tgt" and ps: "ps = overlap_positions (ss_bits cur) bits"
    and sel: "ss_bits sel = map (\<lambda>i. ss_bits cur ! i) ps" "ss_path sel = ss_path cur" "ss_symbol sel = ss_symbol cur"
    and cov: "ss_bits cov = map (\<lambda>i. ss_bits tgt ! i) ps"
    using assms by (auto simp: aligned_overlap_def selection_at_def ebind_Inr_iff Let_def split: if_splits dest!: mk_selection_same)
  have len: "length (ss_bits cur) = length (ss_bits tgt)" using w by (simp add: ss_width_def)
  show "zip (ss_bits sel) (ss_bits cov) = filter (\<lambda>p. fst p \<in> set bits) (zip (ss_bits cur) (ss_bits tgt))"
    unfolding sel(1) cov zip_positions ps overlap_positions_def zip_all [OF len] filter_map comp_def fst_conv ..
  show "ss_width sel = ss_width cov" "endpoint_key sel = endpoint_key cur" using sel cov by (simp add: ss_width_def, intro endpoint_key_same)
qed

lemma in_zip_right: "length xs = length ys \<Longrightarrow> q \<in> set ys \<longleftrightarrow> (\<exists>b. (b, q) \<in> set (zip xs ys))"
  by (metis in_set_impl_in_set_zip2 set_zip_rightD)

lemma aligned_overlap_covered:
  assumes "aligned_overlap cur tgt bits = Inr (sel, cov, ps)"
  shows "q \<in> set (ss_bits cov) \<longleftrightarrow> (\<exists>b. (b, q) \<in> set (zip (ss_bits cur) (ss_bits tgt)) \<and> b \<in> set bits)"
  using in_zip_right [of "ss_bits sel" "ss_bits cov" q] aligned_overlap_zip [OF assms] by (auto simp: ss_width_def)

lemma map_selection_aligned:
  assumes "map_selection sel mfrom mto = Inr beyond" "ss_width beyond = ss_width cov" "ss_width sel = ss_width cov"
    "(b, q) \<in> set (zip (ss_bits sel) (ss_bits cov))"
  shows "\<exists>b'. bit_map (ss_bits mfrom) (ss_bits mto) b = Some b' \<and> (b', q) \<in> set (zip (ss_bits beyond) (ss_bits cov))"
    "endpoint_key beyond = endpoint_key mto"
proof -
  let ?m = "bit_map (ss_bits mfrom) (ss_bits mto)"
  have bits: "ss_bits beyond = map (\<lambda>b. the (?m b)) (filter (\<lambda>b. ?m b \<noteq> None) (ss_bits sel))" and "ss_path beyond = ss_path mto" "ss_symbol beyond = ss_symbol mto"
    using assms(1) by (auto simp: map_selection_def Let_def split: if_splits dest!: mk_selection_same)
  then show "endpoint_key beyond = endpoint_key mto" by (intro endpoint_key_same)
  have "length (filter (\<lambda>b. ?m b \<noteq> None) (ss_bits sel)) = length (ss_bits sel)"
    using assms(2,3) bits by (simp add: ss_width_def)
  then have all: "filter (\<lambda>b. ?m b \<noteq> None) (ss_bits sel) = ss_bits sel" "\<forall>b \<in> set (ss_bits sel). ?m b \<noteq> None"
    using filter_full by blast+
  have "b \<in> set (ss_bits sel)" using assms(4) by (auto dest: in_set_zipE set_zip_leftD)
  then obtain b' where b': "?m b = Some b'" using all by auto
  have "(the (?m b), q) \<in> set (zip (map (\<lambda>b. the (?m b)) (ss_bits sel)) (ss_bits cov))"
    using imageI [OF assms(4), of "\<lambda>(x, y). (the (?m x), y)"] unfolding zip_map1 by simp
  then show "\<exists>b'. ?m b = Some b' \<and> (b', q) \<in> set (zip (ss_bits beyond) (ss_bits cov))" using b' bits all by simp
qed

lemma map_selection_from:
  assumes "map_selection sel mfrom mto = Inr beyond" "ss_width beyond = ss_width cov" "ss_width sel = ss_width cov"
    "(b', q) \<in> set (zip (ss_bits beyond) (ss_bits cov))"
  shows "\<exists>b. bit_map (ss_bits mfrom) (ss_bits mto) b = Some b' \<and> (b, q) \<in> set (zip (ss_bits sel) (ss_bits cov))"
proof -
  let ?m = "bit_map (ss_bits mfrom) (ss_bits mto)"
  have bits: "ss_bits beyond = map (\<lambda>b. the (?m b)) (filter (\<lambda>b. ?m b \<noteq> None) (ss_bits sel))"
    using assms(1) by (auto simp: map_selection_def Let_def split: if_splits dest!: mk_selection_same)
  have "length (filter (\<lambda>b. ?m b \<noteq> None) (ss_bits sel)) = length (ss_bits sel)"
    using assms(2,3) bits by (simp add: ss_width_def)
  then have all: "filter (\<lambda>b. ?m b \<noteq> None) (ss_bits sel) = ss_bits sel" "\<forall>b \<in> set (ss_bits sel). ?m b \<noteq> None"
    using filter_full by blast+
  obtain b where b: "(b, q) \<in> set (zip (ss_bits sel) (ss_bits cov))" "b' = the (?m b)"
    using assms(4) unfolding bits all(1) zip_map1 by auto
  then have "?m b \<noteq> None" using all by (meson set_zip_leftD)
  then show ?thesis using b by auto
qed

lemma bit_map_in: "bit_map xs ys b = Some b' \<Longrightarrow> b \<in> set xs"
  by (auto simp: bit_map_def dest!: map_of_SomeD set_zip_leftD)

section \<open>Leaf steps\<close>

text \<open>The query bit of every bit of a state leads to it.\<close>

definition reached :: "walk_dir \<Rightarrow> index \<Rightarrow> endpoint \<Rightarrow> signal_selection \<Rightarrow> signal_selection \<Rightarrow> bool" where
  "reached dir ix k0 cur tgt \<longleftrightarrow> (\<forall>k b q. endpoint_key cur = Inr k \<longrightarrow> (b, q) \<in> set (zip (ss_bits cur) (ss_bits tgt)) \<longrightarrow>
     (leads dir ix)\<^sup>*\<^sup>* (k0, q) (k, b))"

lemma same_facts_sound:
  assumes "sound dir ix k0 st" "same_facts st st'" "wk_matches st' = wk_matches st" "wk_structural st' = wk_structural st"
  shows "sound dir ix k0 st'" "grows dir st st'"
proof -
  have "found_bits dir st' = found_bits dir st" using assms by (simp add: found_bits_def found_matches_def split: walk_dir.splits)
  moreover have "listed st' = listed st" using assms by (simp add: listed_def)
  moreover have "pairs st' = pairs st" using assms by (simp add: pairs_def same_facts_def)
  ultimately show "sound dir ix k0 st'" "grows dir st st'"
    using assms by (simp_all add: sound_def kept_def grows_def same_facts_def)
qed

lemma unvisited_advances: "grows dir st st' \<Longrightarrow> wk_visited st' = wk_visited st \<Longrightarrow> advances dir ix st st'"
  by (simp add: advances_def)

definition justified :: "walk_dir \<Rightarrow> index \<Rightarrow> endpoint \<Rightarrow> query_match \<Rightarrow> bool" where
  "justified dir ix k0 m \<longleftrightarrow> (\<forall>q \<in> set (ss_bits (qm_covered m)). \<exists>p I. (leads dir ix)\<^sup>*\<^sup>* (k0, q) p \<and> required dir ix p I \<and>
     (qm_path m, qm_fact m) \<in> I)"

lemma collects_sound:
  assumes "sound dir ix k0 st" "collects dir m st st'" "lists m st st'" "justified dir ix k0 m"
  shows "sound dir ix k0 st' \<and> advances dir ix st st'"
proof -
  have v: "wk_visited st' = wk_visited st" using assms(2) unfolding collects_def same_state_def by blast
  then have "pairs st' = pairs st" by (simp add: pairs_def)
  moreover have "\<exists>p. (leads dir ix)\<^sup>*\<^sup>* (k0, q) p \<and> fact_at dir ix p" if "q \<in> found_bits dir st'" for q
    using assms(1) that assms(2,4) unfolding collects_def sound_def justified_def fact_at_def by blast
  moreover have "\<exists>p I. (leads dir ix)\<^sup>*\<^sup>* (k0, q) p \<and> required dir ix p I \<and> i \<in> I" if "(i, q) \<in> listed st'" for i q
  proof (cases "(i, q) \<in> listed st")
    case True
    then show ?thesis using assms(1) unfolding sound_def by blast
  next
    case False
    then have "i = (qm_path m, qm_fact m)" "q \<in> set (ss_bits (qm_covered m))"
      using that assms(3) unfolding lists_def tagged_def by auto
    then show ?thesis using assms(4) unfolding justified_def by blast
  qed
  ultimately have "sound dir ix k0 st'" using assms(1,2) unfolding collects_def sound_def same_state_def
    by (simp del: split_paired_Ex) (simp add: case_prod_unfold del: split_paired_Ex)
  moreover have "grows dir st st'" using assms(2,3) unfolding grows_def collects_def same_state_def lists_def by simp
  ultimately show ?thesis using v unvisited_advances by blast
qed

definition recorded :: "walk_dir \<Rightarrow> query_match \<Rightarrow> query_walk \<Rightarrow> bool" where
  "recorded dir m st \<longleftrightarrow> set (ss_bits (qm_covered m)) \<subseteq> found_bits dir st \<and> (wk_evidence_cut st \<or> tagged m \<subseteq> listed st)"

lemma add_match_contract:
  assumes "justified dir ix k0 m"
  shows "walk.meets_contract dir ix k0 (\<lambda>st. Inr (add_match lim dir m st)) (recorded dir m)"
proof (rule walk.contractI)
  fix st go st' assume st: "sound dir ix k0 st" "Inr (add_match lim dir m st) = Inr (go, st')"
  then have k: "kept dir st" "add_match lim dir m st = (go, st')" by (simp_all add: sound_def)
  show "sound dir ix k0 st' \<and> advances dir ix st st' \<and> (\<not> go \<longrightarrow> walk_truncated st') \<and> (go \<longrightarrow> recorded dir m st')"
    using add_match_collects [OF k] add_match_lists [OF k] collects_sound [OF st(1) _ _ assms, of st'] unfolding recorded_def by blast
qed

text \<open>An entry: the budget, the overlap test, then the action on the overlapping part.\<close>

definition inspects :: "(query_walk \<Rightarrow> bool \<times> query_walk) \<Rightarrow> bool" where
  "inspects f \<longleftrightarrow> (\<forall>st go st'. f st = (go, st') \<longrightarrow> same_facts st st' \<and> wk_matches st' = wk_matches st \<and>
     wk_structural st' = wk_structural st \<and> (\<not> go \<longrightarrow> walk_truncated st'))"

lemma inspects_budget: "inspects (inspect_edge lim)" "inspects (inspect_assignment lim)"
proof -
  show "inspects (inspect_edge lim)" unfolding inspects_def
  proof (intro allI)
    fix st go st'
    show "inspect_edge lim st = (go, st') \<longrightarrow> same_facts st st' \<and> wk_matches st' = wk_matches st \<and>
       wk_structural st' = wk_structural st \<and> (\<not> go \<longrightarrow> walk_truncated st')"
      using inspect_edge_frame [of lim st go st'] by blast
  qed
  show "inspects (inspect_assignment lim)" unfolding inspects_def
  proof (intro allI)
    fix st go st'
    show "inspect_assignment lim st = (go, st') \<longrightarrow> same_facts st st' \<and> wk_matches st' = wk_matches st \<and>
       wk_structural st' = wk_structural st \<and> (\<not> go \<longrightarrow> walk_truncated st')"
      using inspect_assignment_frame [of lim st go st'] by blast
  qed
qed

lemma at_overlap_contract:
  assumes "inspects f" "\<And>sel cov ps. aligned_overlap cur tgt bits = Inr (sel, cov, ps) \<Longrightarrow> walk.meets_contract dir ix k0 (act sel cov) post"
    "\<And>st. \<not> overlaps bits (ss_bits cur) \<Longrightarrow> post st"
  shows "walk.meets_contract dir ix k0 (at_overlap f bits cur tgt act) post"
proof (rule walk.contractI)
  fix st go st' assume st: "sound dir ix k0 st" "at_overlap f bits cur tgt act st = Inr (go, st')"
  obtain g st1 where f: "f st = (g, st1)" by fastforce
  then have frame: "same_facts st st1" "wk_matches st1 = wk_matches st" "wk_structural st1 = wk_structural st" "\<not> g \<longrightarrow> walk_truncated st1"
    using assms(1) unfolding inspects_def by blast+
  have s1: "sound dir ix k0 st1" "grows dir st st1" using same_facts_sound [OF st(1) frame(1-3)] by blast+
  have a1: "advances dir ix st st1" using s1(2) frame(1) by (simp add: unvisited_advances same_facts_def)
  show "sound dir ix k0 st' \<and> advances dir ix st st' \<and> (\<not> go \<longrightarrow> walk_truncated st') \<and> (go \<longrightarrow> post st')"
  proof (cases "g \<and> overlaps bits (ss_bits cur)")
    case True
    then obtain sel cov ps where ov: "aligned_overlap cur tgt bits = Inr (sel, cov, ps)" "act sel cov st1 = Inr (go, st')"
      using st(2) f by (auto simp: at_overlap_def andthen_def ebind_Inr_iff)
    show ?thesis using walk.contract_done [OF assms(2) [OF ov(1)] s1(1) ov(2)] advances_trans [OF a1] by blast
  next
    case False
    then have "st' = st1 \<and> go = g" using st(2) f by (auto simp: at_overlap_def andthen_def split: if_splits)
    then show ?thesis using s1 a1 frame(4) False assms(3) by blast
  qed
qed

lemma found_same: "wk_matches st' = wk_matches st \<Longrightarrow> wk_structural st' = wk_structural st \<Longrightarrow> found_bits dir st' = found_bits dir st"
  by (cases dir) (simp_all add: found_bits_def found_matches_def)

definition answered :: "walk_dir \<Rightarrow> int list \<Rightarrow> (int \<Rightarrow> match_id set) \<Rightarrow> signal_selection \<Rightarrow> signal_selection \<Rightarrow> query_walk \<Rightarrow> bool" where
  "answered dir bits I cur tgt st \<longleftrightarrow> (\<forall>b q. (b, q) \<in> set (zip (ss_bits cur) (ss_bits tgt)) \<longrightarrow> b \<in> set bits \<longrightarrow>
     q \<in> found_bits dir st \<and> (wk_evidence_cut st \<or> (\<exists>i \<in> I b. (i, q) \<in> listed st)))"

lemma fact_step_contract:
  assumes "inspects f" "endpoint_key cur = Inr k" "reached dir ix k0 cur tgt" "\<And>b. b \<in> set bits \<Longrightarrow> required dir ix (k, b) (I b)"
    "\<And>sel cov m. build sel cov = Inr m \<Longrightarrow> endpoint_key sel = Inr k \<Longrightarrow>
       qm_covered m = cov \<and> (\<forall>b \<in> set (ss_bits sel). (qm_path m, qm_fact m) \<in> I b)"
  shows "walk.meets_contract dir ix k0 (at_overlap f bits cur tgt (\<lambda>sel cov st. ebind (build sel cov) (\<lambda>m. Inr (add_match lim dir m st))))
    (answered dir bits I cur tgt)"
proof (rule at_overlap_contract [OF assms(1)])
  fix sel cov ps assume ov: "aligned_overlap cur tgt bits = Inr (sel, cov, ps)"
  note z = aligned_overlap_zip [OF ov]
  have cov: "\<exists>b. (b, q) \<in> set (zip (ss_bits cur) (ss_bits tgt)) \<and> b \<in> set bits \<and> b \<in> set (ss_bits sel)"
    if q: "q \<in> set (ss_bits cov)" for q
  proof -
    have "length (ss_bits sel) = length (ss_bits cov)" using z(2) by (simp add: ss_width_def)
    then have "\<exists>b. (b, q) \<in> set (zip (ss_bits sel) (ss_bits cov))" using in_zip_right q by metis
    then obtain b where b: "(b, q) \<in> set (zip (ss_bits sel) (ss_bits cov))" ..
    have "(b, q) \<in> set (zip (ss_bits cur) (ss_bits tgt))" "b \<in> set bits" using b unfolding z(1) by simp_all
    then show ?thesis using set_zip_leftD [OF b] by blast
  qed
  show "walk.meets_contract dir ix k0 (\<lambda>st. ebind (build sel cov) (\<lambda>m. Inr (add_match lim dir m st))) (answered dir bits I cur tgt)"
  proof (cases "build sel cov")
    case (Inl e)
    then show ?thesis by (auto intro!: walk.contractI)
  next
    case (Inr m)
    have m: "qm_covered m = cov" "\<forall>b \<in> set (ss_bits sel). (qm_path m, qm_fact m) \<in> I b"
      using assms(5) [OF Inr] z(3) assms(2) by simp_all
    have "justified dir ix k0 m" unfolding justified_def m(1)
    proof
      fix q assume "q \<in> set (ss_bits cov)"
      then obtain b where b: "(b, q) \<in> set (zip (ss_bits cur) (ss_bits tgt))" "b \<in> set bits" "b \<in> set (ss_bits sel)" using cov by blast
      then have "(leads dir ix)\<^sup>*\<^sup>* (k0, q) (k, b)" using assms(2,3) unfolding reached_def by blast
      then show "\<exists>p I. (leads dir ix)\<^sup>*\<^sup>* (k0, q) p \<and> required dir ix p I \<and> (qm_path m, qm_fact m) \<in> I"
        using assms(4) [OF b(2)] m(2) b(3) by (intro exI [of _ "(k, b)"] exI [of _ "I b"]) simp
    qed
    then have c: "walk.meets_contract dir ix k0 (\<lambda>st. Inr (add_match lim dir m st)) (recorded dir m)"
      by (rule add_match_contract)
    have "walk.meets_contract dir ix k0 (\<lambda>st. Inr (add_match lim dir m st)) (answered dir bits I cur tgt)"
    proof (rule walk.contract_weaken [OF c])
      fix st assume r: "recorded dir m st"
      show "answered dir bits I cur tgt st" unfolding answered_def
      proof (intro allI impI)
        fix b q assume b: "(b, q) \<in> set (zip (ss_bits cur) (ss_bits tgt))" "b \<in> set bits"
        then have "(b, q) \<in> set (zip (ss_bits sel) (ss_bits cov))" using z(1) by simp
        then have "b \<in> set (ss_bits sel)" "q \<in> set (ss_bits cov)" by (auto dest: set_zip_leftD set_zip_rightD)
        then show "q \<in> found_bits dir st \<and> (wk_evidence_cut st \<or> (\<exists>i \<in> I b. (i, q) \<in> listed st))"
          using r m unfolding recorded_def tagged_def by blast
      qed
    qed
    then show ?thesis by (simp add: Inr)
  qed
next
  fix st assume no: "\<not> overlaps bits (ss_bits cur)"
  then have "\<forall>b \<in> set (ss_bits cur). b \<notin> set bits" by (simp add: overlaps_def list_ex_iff)
  then show "answered dir bits I cur tgt st" unfolding answered_def by (meson set_zip_leftD)
qed

lemma unresolved_contract:
  "walk.meets_contract dir ix k0 (unresolved_step lim cur tgt t)
    (\<lambda>st. \<forall>b \<in> set (ss_bits cur). b \<in> set (ss_bits (bm_target (tm_mapping t))) \<longrightarrow> wk_gaps st \<noteq> [])"
  unfolding unresolved_step_def
proof (rule at_overlap_contract [OF inspects_budget(1)])
  fix sel cov ps
  show "walk.meets_contract dir ix k0 (\<lambda>st. Inr (True, st\<lparr>wk_gaps := wk_gaps st @ [segment_gap t sel cov]\<rparr>))
    (\<lambda>st. \<forall>b \<in> set (ss_bits cur). b \<in> set (ss_bits (bm_target (tm_mapping t))) \<longrightarrow> wk_gaps st \<noteq> [])"
  proof (rule walk.contractI)
    fix st go st' assume st: "sound dir ix k0 st" "Inr (True, st\<lparr>wk_gaps := wk_gaps st @ [segment_gap t sel cov]\<rparr>) = Inr (go, st')"
    then have st': "st' = st\<lparr>wk_gaps := wk_gaps st @ [segment_gap t sel cov]\<rparr>" "go" by simp_all
    have same: "found_bits dir st' = found_bits dir st" "pairs st' = pairs st" "walk_truncated st' = walk_truncated st" "listed st' = listed st"
      by (rule found_same, simp_all add: st' pairs_def walk_truncated_def listed_def)
    have "sound dir ix k0 st'" using st(1) unfolding sound_def same kept_def by (simp add: st')
    moreover have "advances dir ix st st'" by (rule unvisited_advances) (simp_all add: grows_def same, simp_all add: st')
    ultimately show "sound dir ix k0 st' \<and> advances dir ix st st' \<and> (\<not> go \<longrightarrow> walk_truncated st') \<and>
      (go \<longrightarrow> (\<forall>b \<in> set (ss_bits cur). b \<in> set (ss_bits (bm_target (tm_mapping t))) \<longrightarrow> wk_gaps st' \<noteq> []))"
      by (simp add: st')
  qed
qed (auto simp: overlaps_def list_ex_iff)

section \<open>Crossing a segment\<close>

definition visits :: "walk_dir \<Rightarrow> index \<Rightarrow> endpoint \<Rightarrow> visitor \<Rightarrow> bool" where
  "visits dir ix k0 v \<longleftrightarrow> (\<forall>cur tgt hops st st'. sound dir ix k0 st \<longrightarrow> (ss_width cur = ss_width tgt \<longrightarrow> reached dir ix k0 cur tgt) \<longrightarrow>
     v cur tgt hops st = Inr st' \<longrightarrow> sound dir ix k0 st' \<and> advances dir ix st st' \<and>
     (\<not> walk_truncated st' \<longrightarrow> ss_width cur = ss_width tgt \<and> (\<exists>s. state_of cur = Inr s \<and> (s, ss_bits tgt) \<in> set (wk_visited st'))))"

lemma frontier_frame:
  assumes "add_frontier lim f st = Inr (go, st')"
  shows "same_facts st st'" "wk_matches st' = wk_matches st" "wk_structural st' = wk_structural st" "\<not> go \<longrightarrow> walk_truncated st'"
  using assms by (auto simp: add_frontier_def same_facts_def walk_truncated_def ebind_Inr_iff Let_def split: if_splits)

text \<open>What a segment has to give for a bit of the state.\<close>

definition crossed :: "walk_dir \<Rightarrow> flow_segment \<Rightarrow> signal_selection \<Rightarrow> signal_selection \<Rightarrow> query_walk \<Rightarrow> bool" where
  "crossed dir f cur tgt st \<longleftrightarrow> (\<forall>b q b' k'. (b, q) \<in> set (zip (ss_bits cur) (ss_bits tgt)) \<longrightarrow>
     bit_map (ss_bits (near dir f)) (ss_bits (far dir f)) b = Some b' \<longrightarrow> endpoint_key (far dir f) = Inr k' \<longrightarrow>
     q \<in> set (wk_depth_bits st) \<or> ((k', b'), q) \<in> pairs st)"

lemma depth_contract:
  assumes "aligned_overlap cur tgt (ss_bits (near dir f)) = Inr (sel, cov, ps)"
  shows "walk.meets_contract dir ix k0 (cross_segment lim dir None hops f sel cov) (crossed dir f cur tgt)"
proof (rule walk.contractI)
  fix st go st' assume st: "sound dir ix k0 st" "cross_segment lim dir None hops f sel cov st = Inr (go, st')"
  define st1 where "st1 = st\<lparr>wk_depth_limited := True, wk_depth_bits := wk_depth_bits st @ ss_bits cov\<rparr>"
  obtain fr where fr: "add_frontier lim fr st1 = Inr (go, st')"
    using st(2) by (auto simp: cross_segment_def ebind_Inr_iff st1_def)
  have same: "found_bits dir st1 = found_bits dir st" "pairs st1 = pairs st" "walk_truncated st1 = walk_truncated st" "listed st1 = listed st"
    by (rule found_same, simp_all add: st1_def pairs_def walk_truncated_def listed_def)
  have s1: "sound dir ix k0 st1" using st(1) unfolding sound_def same kept_def by (simp add: st1_def)
  have g1: "grows dir st st1" unfolding grows_def same by (simp add: st1_def)
  note fl = frontier_frame [OF fr]
  note s' = same_facts_sound [OF s1 fl(1-3)]
  have "wk_visited st' = wk_visited st" using fl(1) by (simp add: same_facts_def st1_def)
  then have "advances dir ix st st'" using grows_trans [OF g1 s'(2)] by (simp add: unvisited_advances)
  moreover have "crossed dir f cur tgt st'" unfolding crossed_def
  proof (intro allI impI disjI1)
    fix b q b' k' assume b: "(b, q) \<in> set (zip (ss_bits cur) (ss_bits tgt))"
      "bit_map (ss_bits (near dir f)) (ss_bits (far dir f)) b = Some b'"
    then have "q \<in> set (ss_bits cov)" using aligned_overlap_covered [OF assms] bit_map_in by blast
    then show "q \<in> set (wk_depth_bits st')" using fl(1) by (simp add: same_facts_def st1_def)
  qed
  ultimately show "sound dir ix k0 st' \<and> advances dir ix st st' \<and> (\<not> go \<longrightarrow> walk_truncated st') \<and> (go \<longrightarrow> crossed dir f cur tgt st')"
    using s'(1) fl(4) by blast
qed

lemma in_pairs: "(s, tb) \<in> set (wk_visited st) \<Longrightarrow> (b, q) \<in> set (zip (snd s) tb) \<Longrightarrow> ((fst s, b), q) \<in> pairs st"
  unfolding pairs_def pairs_of_def by (intro UN_I [of "(s, tb)"]) simp_all

lemma segment_leads:
  assumes "f \<in> set (dir_segments dir ix k)" "endpoint_key (far dir f) = Inr k'"
    "bit_map (ss_bits (near dir f)) (ss_bits (far dir f)) b = Some b'"
  shows "leads dir ix (k, b) (k', b')"
  using assms by (auto simp: leads_def)

lemma deeper_contract:
  assumes "visits dir ix k0 v" "endpoint_key cur = Inr k" "reached dir ix k0 cur tgt" "f \<in> set (dir_segments dir ix k)"
    "aligned_overlap cur tgt (ss_bits (near dir f)) = Inr (sel, cov, ps)"
  shows "walk.meets_contract dir ix k0 (cross_segment lim dir (Some v) hops f sel cov) (crossed dir f cur tgt)"
proof (rule walk.contractI)
  fix st go st' assume st: "sound dir ix k0 st" "cross_segment lim dir (Some v) hops f sel cov st = Inr (go, st')"
  define st1 where "st1 = st\<lparr>wk_traversed := wk_traversed st + 1\<rparr>"
  obtain beyond hops' where mp: "map_selection sel (near dir f) (far dir f) = Inr beyond"
    and v: "v beyond cov hops' st1 = Inr st'" and go: "go = (\<not> walk_truncated st')"
    using st(2) by (auto simp: cross_segment_def ebind_Inr_iff st1_def)
  have "same_facts st st1" "wk_matches st1 = wk_matches st" "wk_structural st1 = wk_structural st"
    by (simp_all add: same_facts_def st1_def walk_truncated_def)
  note s1 = same_facts_sound [OF st(1) this]
  have a1: "advances dir ix st st1" using s1(2) by (simp add: unvisited_advances st1_def)
  note z = aligned_overlap_zip [OF assms(5)]
  have far_key: "endpoint_key beyond = endpoint_key (far dir f)" using mp
    by (auto simp: map_selection_def Let_def split: if_splits intro!: endpoint_key_same dest!: mk_selection_same)
  have "reached dir ix k0 beyond cov" if w: "ss_width beyond = ss_width cov" unfolding reached_def
  proof (intro allI impI)
    fix k' b' q assume k': "endpoint_key beyond = Inr k'" and "(b', q) \<in> set (zip (ss_bits beyond) (ss_bits cov))"
    then obtain b where b: "bit_map (ss_bits (near dir f)) (ss_bits (far dir f)) b = Some b'" "(b, q) \<in> set (zip (ss_bits sel) (ss_bits cov))"
      using map_selection_from [OF mp w z(2)] by blast
    then have "(leads dir ix)\<^sup>*\<^sup>* (k0, q) (k, b)" using assms(2,3) z(1) unfolding reached_def by auto
    moreover have "leads dir ix (k, b) (k', b')" using segment_leads [OF assms(4)] b k' far_key by simp
    ultimately show "(leads dir ix)\<^sup>*\<^sup>* (k0, q) (k', b')" by (rule rtranclp.rtrancl_into_rtrancl)
  qed
  then have dn: "sound dir ix k0 st'" "advances dir ix st1 st'"
    "\<not> walk_truncated st' \<longrightarrow> ss_width beyond = ss_width cov \<and> (\<exists>s. state_of beyond = Inr s \<and> (s, ss_bits cov) \<in> set (wk_visited st'))"
    using assms(1) v s1(1) unfolding visits_def by blast+
  have "crossed dir f cur tgt st'" if ok: go unfolding crossed_def
  proof (intro allI impI disjI2)
    fix b q b' k' assume b: "(b, q) \<in> set (zip (ss_bits cur) (ss_bits tgt))"
      "bit_map (ss_bits (near dir f)) (ss_bits (far dir f)) b = Some b'" "endpoint_key (far dir f) = Inr k'"
    obtain s where s: "ss_width beyond = ss_width cov" "state_of beyond = Inr s" "(s, ss_bits cov) \<in> set (wk_visited st')"
      using dn(3) go ok by blast
    have "(b, q) \<in> set (zip (ss_bits sel) (ss_bits cov))" using z(1) b(1) bit_map_in [OF b(2)] by simp
    from map_selection_aligned(1) [OF mp s(1) z(2) this] b(2)
    have "(b', q) \<in> set (zip (ss_bits beyond) (ss_bits cov))" by auto
    moreover have "fst s = k'" "snd s = ss_bits beyond" using s(2) far_key b(3) by (auto simp: state_of_def ebind_Inr_iff)
    ultimately show "((k', b'), q) \<in> pairs st'" using in_pairs [OF s(3)] by simp
  qed
  then show "sound dir ix k0 st' \<and> advances dir ix st st' \<and> (\<not> go \<longrightarrow> walk_truncated st') \<and> (go \<longrightarrow> crossed dir f cur tgt st')"
    using dn advances_trans [OF a1] go by blast
qed

section \<open>The loops of a visit\<close>

lemma answered_stable: "walk.stable dir ix (answered dir bits I cur tgt)"
  unfolding walk.stable_def
proof (intro allI impI)
  fix st st' assume a: "advances dir ix st st'" "answered dir bits I cur tgt st"
  then have "found_bits dir st \<subseteq> found_bits dir st'" "listed st \<subseteq> listed st'" "wk_evidence_cut st \<longrightarrow> wk_evidence_cut st'"
    unfolding advances_def grows_def by blast+
  then show "answered dir bits I cur tgt st'" using a(2) unfolding answered_def by blast
qed

lemma gaps_stable: "walk.stable dir ix (\<lambda>st. \<forall>b \<in> B. P b \<longrightarrow> wk_gaps st \<noteq> [])"
  unfolding walk.stable_def advances_def grows_def by blast

lemma crossed_stable: "walk.stable dir ix (crossed dir f cur tgt)"
  unfolding walk.stable_def
proof (intro allI impI)
  fix st st' assume a: "advances dir ix st st'" "crossed dir f cur tgt st"
  then have "set (wk_depth_bits st) \<subseteq> set (wk_depth_bits st')" "pairs st \<subseteq> pairs st'"
    using pairs_mono unfolding advances_def grows_def by blast+
  then show "crossed dir f cur tgt st'" using a(2) unfolding crossed_def by blast
qed

definition noted :: "walk_dir \<Rightarrow> index \<Rightarrow> endpoint \<Rightarrow> signal_selection \<Rightarrow> signal_selection \<Rightarrow> query_walk \<Rightarrow> bool" where
  "noted dir ix k cur tgt st \<longleftrightarrow> (\<forall>b q. (b, q) \<in> set (zip (ss_bits cur) (ss_bits tgt)) \<longrightarrow>
     (\<forall>I. required dir ix (k, b) I \<longrightarrow> q \<in> found_bits dir st \<and> (wk_evidence_cut st \<or> (\<exists>i \<in> I. (i, q) \<in> listed st))) \<and>
     (unresolved_at dir ix (k, b) \<longrightarrow> wk_gaps st \<noteq> []))"

lemma noted_stable: "walk.stable dir ix (noted dir ix k cur tgt)"
  unfolding walk.stable_def
proof (intro allI impI)
  fix st st' assume a: "advances dir ix st st'" "noted dir ix k cur tgt st"
  then have "found_bits dir st \<subseteq> found_bits dir st'" "listed st \<subseteq> listed st'" "wk_evidence_cut st \<longrightarrow> wk_evidence_cut st'" "wk_gaps st \<noteq> [] \<longrightarrow> wk_gaps st' \<noteq> []"
    unfolding advances_def grows_def by blast+
  then show "noted dir ix k cur tgt st'" using a(2) unfolding noted_def by blast
qed

lemma path_of_key: "endpoint_key cur = Inr k \<Longrightarrow> path_of cur = fst k"
  by (auto simp: endpoint_key_def path_of_def split: option.splits)

lemma write_contract:
  assumes "endpoint_key cur = Inr k" "reached Drivers ix k0 cur tgt" "a \<in> set (lookup af_id (ix_writes ix) k)"
  shows "walk.meets_contract Drivers ix k0 (write_step lim cur tgt hops a) (answered Drivers (ss_bits (af_target a)) (\<lambda>b. {(fst k, af_id a)}) cur tgt)"
  unfolding write_step_def
proof (rule fact_step_contract [OF inspects_budget(2) assms(1,2)])
  show "required Drivers ix (k, b) {(fst k, af_id a)}" if "b \<in> set (ss_bits (af_target a))" for b
    unfolding required_def walk_dir.case fst_conv snd_conv using that assms(3) by blast
  show "qm_covered m = cov \<and> (\<forall>b \<in> set (ss_bits sel). (qm_path m, qm_fact m) \<in> {(fst k, af_id a)})"
    if "driver_match a (path_of cur) sel cov hops = Inr m" for sel cov m
    using that path_of_key [OF assms(1)] by (auto simp: driver_match_def ebind_Inr_iff)
qed

lemma constant_contract:
  assumes "endpoint_key cur = Inr k" "reached Drivers ix k0 cur tgt" "t \<in> set (lookup terminal_key (ix_constant ix) k)"
  shows "walk.meets_contract Drivers ix k0 (constant_step lim cur tgt hops t)
    (answered Drivers (ss_bits (bm_target (tm_mapping t))) (\<lambda>b. {(fst k, constant_fact t bits) | bits. b \<in> set bits}) cur tgt)"
proof -
  let ?I = "\<lambda>b. {(fst k, constant_fact t bits) | bits. b \<in> set bits}"
  have "walk.meets_contract Drivers ix k0 (at_overlap (inspect_edge lim) (ss_bits (bm_target (tm_mapping t))) cur tgt
      (\<lambda>sel cov st. ebind (Inr (constant_match t sel cov hops)) (\<lambda>m. Inr (add_match lim Drivers m st))))
      (answered Drivers (ss_bits (bm_target (tm_mapping t))) ?I cur tgt)"
  proof (rule fact_step_contract [OF inspects_budget(1) assms(1,2)])
    show "required Drivers ix (k, b) (?I b)" if "b \<in> set (ss_bits (bm_target (tm_mapping t)))" for b
      unfolding required_def walk_dir.case fst_conv snd_conv using that assms(3) by blast
    show "qm_covered m = cov \<and> (\<forall>b \<in> set (ss_bits sel). (qm_path m, qm_fact m) \<in> ?I b)"
      if "Inr (constant_match t sel cov hops) = Inr m" "endpoint_key sel = Inr k" for sel cov m
    proof -
      have "qm_covered m = cov" "qm_path m = fst k" "qm_fact m = constant_fact t (ss_bits sel)"
        using that path_of_key [OF that(2)] by (auto simp: constant_match_def Let_def constant_fact_def path_of_def)
      then show ?thesis by blast
    qed
  qed
  then show ?thesis by (simp add: constant_step_def)
qed

lemma read_contract:
  assumes "endpoint_key cur = Inr k" "reached Loads ix k0 cur tgt" "p \<in> set (lookup read_key (ix_reads ix) k)"
  shows "walk.meets_contract Loads ix k0 (read_step lim cur tgt hops p) (answered Loads (ss_bits (df_source (snd p))) (\<lambda>b. {(fst k, af_id (fst p))}) cur tgt)"
  unfolding read_step_def
proof (rule fact_step_contract [OF inspects_budget(1) assms(1,2)])
  show "required Loads ix (k, b) {(fst k, af_id (fst p))}" if "b \<in> set (ss_bits (df_source (snd p)))" for b
    unfolding required_def walk_dir.case fst_conv snd_conv using that assms(3) by blast
  show "qm_covered m = cov \<and> (\<forall>b \<in> set (ss_bits sel). (qm_path m, qm_fact m) \<in> {(fst k, af_id (fst p))})"
    if "load_match (fst p) (snd p) (path_of cur) sel cov hops = Inr m" for sel cov m
    using that path_of_key [OF assms(1)] by (auto simp: load_match_def ebind_Inr_iff)
qed

lemma fact_loops_contract:
  assumes "endpoint_key cur = Inr k" "reached dir ix k0 cur tgt"
  shows "walk.meets_contract dir ix k0 (fact_loops lim dir ix k cur tgt hops) (noted dir ix k cur tgt)"
proof (cases dir)
  case Drivers
  let ?z = "set (zip (ss_bits cur) (ss_bits tgt))"
  let ?w = "\<lambda>a. answered Drivers (ss_bits (af_target a)) (\<lambda>b. {(fst k, af_id a)}) cur tgt"
  let ?c = "\<lambda>t. answered Drivers (ss_bits (bm_target (tm_mapping t))) (\<lambda>b. {(fst k, constant_fact t bits) | bits. b \<in> set bits}) cur tgt"
  let ?u = "\<lambda>t st. \<forall>b \<in> set (ss_bits cur). b \<in> set (ss_bits (bm_target (tm_mapping t))) \<longrightarrow> wk_gaps st \<noteq> []"
  have r: "reached Drivers ix k0 cur tgt" using assms(2) Drivers by simp
  let ?W = "\<lambda>st. \<forall>a \<in> set (lookup af_id (ix_writes ix) k). ?w a st"
  let ?C = "\<lambda>st. \<forall>t \<in> set (lookup terminal_key (ix_constant ix) k). ?c t st"
  let ?U = "\<lambda>st. \<forall>t \<in> set (lookup terminal_key (ix_unresolved ix) k). ?u t st"
  have W: "walk.meets_contract Drivers ix k0 (each (write_step lim cur tgt hops) (lookup af_id (ix_writes ix) k)) ?W"
    by (rule walk.each_contract [OF write_contract [OF assms(1) r] answered_stable])
  have C: "walk.meets_contract Drivers ix k0 (each (constant_step lim cur tgt hops) (lookup terminal_key (ix_constant ix) k)) ?C"
    by (rule walk.each_contract [OF constant_contract [OF assms(1) r] answered_stable])
  have U: "walk.meets_contract Drivers ix k0 (each (unresolved_step lim cur tgt) (lookup terminal_key (ix_unresolved ix) k)) ?U"
    by (rule walk.each_contract [OF unresolved_contract gaps_stable])
  have sW: "walk.stable Drivers ix ?W" and sC: "walk.stable Drivers ix ?C"
    using answered_stable unfolding walk.stable_def by blast+
  have sWC: "walk.stable Drivers ix (\<lambda>st. ?W st \<and> ?C st)" using sW sC unfolding walk.stable_def by blast
  note all = walk.seq_contract [OF walk.seq_contract [OF W C sW] U sWC]
  have "walk.meets_contract Drivers ix k0 (fact_loops lim Drivers ix k cur tgt hops) (noted Drivers ix k cur tgt)"
    unfolding fact_loops_def walk_dir.case
  proof (rule walk.contract_weaken [OF all])
    fix st assume st: "(?W st \<and> ?C st) \<and> ?U st"
    show "noted Drivers ix k cur tgt st" unfolding noted_def
    proof (intro allI impI conjI)
      fix b q I assume z: "(b, q) \<in> ?z"
      assume "required Drivers ix (k, b) I"
      then consider a where "a \<in> set (lookup af_id (ix_writes ix) k)" "b \<in> set (ss_bits (af_target a))" "I = {(fst k, af_id a)}"
        | t where "t \<in> set (lookup terminal_key (ix_constant ix) k)" "b \<in> set (ss_bits (bm_target (tm_mapping t)))"
          "I = {(fst k, constant_fact t bits) | bits. b \<in> set bits}"
        unfolding required_def walk_dir.case fst_conv snd_conv by blast
      then have "q \<in> found_bits Drivers st \<and> (wk_evidence_cut st \<or> (\<exists>i \<in> I. (i, q) \<in> listed st))"
      proof cases
        case 1
        then have "?w a st" using st by blast
        then show ?thesis using z 1(2,3) unfolding answered_def by blast
      next
        case 2
        then have "?c t st" using st by blast
        then show ?thesis using z 2(2) unfolding answered_def 2(3) by blast
      qed
      then show "q \<in> found_bits Drivers st" "wk_evidence_cut st \<or> (\<exists>i \<in> I. (i, q) \<in> listed st)" by blast+
    next
      fix b q assume z: "(b, q) \<in> ?z" and "unresolved_at Drivers ix (k, b)"
      then show "wk_gaps st \<noteq> []" using st set_zip_leftD [OF z] unfolding unresolved_at_def fst_conv snd_conv by blast
    qed
  qed
  then show ?thesis unfolding Drivers .
next
  case Loads
  let ?r = "\<lambda>p. answered Loads (ss_bits (df_source (snd p))) (\<lambda>b. {(fst k, af_id (fst p))}) cur tgt"
  have r: "reached Loads ix k0 cur tgt" using assms(2) Loads by simp
  have "walk.meets_contract Loads ix k0 (each (read_step lim cur tgt hops) (lookup read_key (ix_reads ix) k))
      (\<lambda>st. \<forall>p \<in> set (lookup read_key (ix_reads ix) k). ?r p st)"
    by (rule walk.each_contract [OF read_contract [OF assms(1) r] answered_stable])
  then have "walk.meets_contract Loads ix k0 (fact_loops lim Loads ix k cur tgt hops) (noted Loads ix k cur tgt)"
    unfolding fact_loops_def walk_dir.case
  proof (rule walk.contract_weaken)
    fix st assume st: "\<forall>p \<in> set (lookup read_key (ix_reads ix) k). ?r p st"
    show "noted Loads ix k cur tgt st" unfolding noted_def
    proof (intro allI impI conjI)
      fix b q I assume z: "(b, q) \<in> set (zip (ss_bits cur) (ss_bits tgt))"
      assume "required Loads ix (k, b) I"
      then obtain p where p: "p \<in> set (lookup read_key (ix_reads ix) k)" "b \<in> set (ss_bits (df_source (snd p)))" "I = {(fst k, af_id (fst p))}"
        unfolding required_def walk_dir.case fst_conv snd_conv by blast
      then have "?r p st" using st by blast
      then have "q \<in> found_bits Loads st \<and> (wk_evidence_cut st \<or> (\<exists>i \<in> I. (i, q) \<in> listed st))" using z p(2,3) unfolding answered_def by blast
      then show "q \<in> found_bits Loads st" "wk_evidence_cut st \<or> (\<exists>i \<in> I. (i, q) \<in> listed st)" by blast+
    qed (simp add: unresolved_at_def)
  qed
  then show ?thesis unfolding Loads .
qed

lemma segment_step_contract:
  assumes "\<And>v. deeper = Some v \<Longrightarrow> visits dir ix k0 v" "endpoint_key cur = Inr k" "reached dir ix k0 cur tgt" "f \<in> set (dir_segments dir ix k)"
  shows "walk.meets_contract dir ix k0 (segment_step lim dir deeper cur tgt hops f) (crossed dir f cur tgt)"
  unfolding segment_step_def
proof (rule at_overlap_contract [OF inspects_budget(1)])
  fix sel cov ps assume ov: "aligned_overlap cur tgt (ss_bits (near dir f)) = Inr (sel, cov, ps)"
  show "walk.meets_contract dir ix k0 (cross_segment lim dir deeper hops f sel cov) (crossed dir f cur tgt)"
  proof (cases deeper)
    case None
    show ?thesis unfolding None by (rule depth_contract [OF ov])
  next
    case (Some v)
    show ?thesis unfolding Some by (rule deeper_contract [OF assms(1) [OF Some] assms(2-4) ov])
  qed
next
  fix st assume no: "\<not> overlaps (ss_bits (near dir f)) (ss_bits cur)"
  show "crossed dir f cur tgt st" unfolding crossed_def
  proof (intro allI impI)
    fix b q b' k' assume "(b, q) \<in> set (zip (ss_bits cur) (ss_bits tgt))" "bit_map (ss_bits (near dir f)) (ss_bits (far dir f)) b = Some b'"
    then have "b \<in> set (ss_bits cur)" "b \<in> set (ss_bits (near dir f))" using bit_map_in set_zip_leftD by fast+
    then show "q \<in> set (wk_depth_bits st) \<or> ((k', b'), q) \<in> pairs st" using no by (auto simp: overlaps_def list_ex_iff)
  qed
qed


section \<open>A visit\<close>

lemma enter_sound:
  assumes "sound dir ix k0 st" "state_of cur = Inr s" "reached dir ix k0 cur tgt"
  shows "sound dir ix k0 (enter cur tgt (s, ss_bits tgt) st)"
proof -
  let ?st = "enter cur tgt (s, ss_bits tgt) st"
  have same: "found_bits dir ?st = found_bits dir st" "listed ?st = listed st" by (rule found_same, simp_all add: enter_def listed_def)
  have ps: "pairs ?st = pairs st \<union> pairs_of (s, ss_bits tgt)" by (auto simp: pairs_def enter_def)
  have s: "endpoint_key cur = Inr (fst s)" "snd s = ss_bits cur" using assms(2) by (auto simp: state_of_def ebind_Inr_iff)
  have "(leads dir ix)\<^sup>*\<^sup>* (k0, q) p" if "(p, q) \<in> pairs_of (s, ss_bits tgt)" for p q
    using that assms(3) s unfolding pairs_of_def reached_def by auto
  moreover have "kept dir ?st" using assms(1) unfolding sound_def kept_def same by (simp add: enter_def)
  moreover have "wk_depth_bits ?st = wk_depth_bits st" "wk_depth_limited ?st = wk_depth_limited st" by (simp_all add: enter_def)
  ultimately show ?thesis using assms(1) unfolding sound_def same ps by auto
qed

lemma residual_frame:
  assumes "add_residual lim dir ix k cur tgt st = Inr st'"
  shows "same_facts st st'" "wk_matches st' = wk_matches st" "wk_structural st' = wk_structural st"
proof -
  have "st' = st \<or> (\<exists>fr go. add_frontier lim fr st = Inr (go, st'))"
    using assms by (auto simp: add_residual_def ebind_Inr_iff Let_def split: if_splits)
  then have "same_facts st st' \<and> wk_matches st' = wk_matches st \<and> wk_structural st' = wk_structural st"
    using frontier_frame by (metis same_facts_def)
  then show "same_facts st st'" "wk_matches st' = wk_matches st" "wk_structural st' = wk_structural st" by blast+
qed

lemma visit_main:
  assumes "\<And>v. deeper = Some v \<Longrightarrow> visits dir ix k0 v" "sound dir ix k0 st" "reached dir ix k0 cur tgt" "state_of cur = Inr s"
    "andthen (fact_loops lim dir ix (fst s) cur tgt hops (enter cur tgt (s, ss_bits tgt) st))
       (each (segment_step lim dir deeper cur tgt hops) (dir_segments dir ix (fst s))) = Inr (go, st1)"
    "(if go then add_residual lim dir ix (fst s) cur tgt st1 else Inr st1) = Inr st'"
  shows "sound dir ix k0 st' \<and> advances dir ix st st' \<and> (\<not> walk_truncated st' \<longrightarrow> (s, ss_bits tgt) \<in> set (wk_visited st'))"
proof -
  let ?key = "(s, ss_bits tgt)" and ?st0 = "enter cur tgt (s, ss_bits tgt) st"
  have s: "endpoint_key cur = Inr (fst s)" "snd s = ss_bits cur" using assms(4) by (auto simp: state_of_def ebind_Inr_iff)
  have "walk.meets_contract dir ix k0 (each (segment_step lim dir deeper cur tgt hops) (dir_segments dir ix (fst s)))
      (\<lambda>st. \<forall>f \<in> set (dir_segments dir ix (fst s)). crossed dir f cur tgt st)"
    by (rule walk.each_contract [OF segment_step_contract crossed_stable]) (use assms s in auto)
  from walk.seq_contract [OF fact_loops_contract [OF s(1) assms(3)] this noted_stable]
  have loops: "walk.meets_contract dir ix k0 (\<lambda>st. andthen (fact_loops lim dir ix (fst s) cur tgt hops st)
      (each (segment_step lim dir deeper cur tgt hops) (dir_segments dir ix (fst s))))
      (\<lambda>st. noted dir ix (fst s) cur tgt st \<and> (\<forall>f \<in> set (dir_segments dir ix (fst s)). crossed dir f cur tgt st))" .
  note l = walk.contract_done [OF loops enter_sound [OF assms(2,4,3)] assms(5)]
  have fin: "sound dir ix k0 st'" "grows dir st1 st'" "wk_visited st' = wk_visited st1"
    using assms(6) l(1) residual_frame [of lim dir ix "fst s" cur tgt st1 st'] same_facts_sound [of dir ix k0 st1 st']
    by (auto simp: grows_refl same_facts_def split: if_splits)
  have a1: "advances dir ix ?st0 st'" using l(2) advances_trans unvisited_advances [OF fin(2,3)] by blast
  have same: "found_bits dir ?st0 = found_bits dir st" "listed ?st0 = listed st" by (rule found_same, simp_all add: enter_def listed_def)
  have g0: "grows dir st ?st0" unfolding grows_def same by (auto simp: enter_def walk_truncated_def)
  have v: "?key \<in> set (wk_visited st')" using a1 by (auto simp: advances_def grows_def enter_def)
  have key: "closed dir ix st' ?key" if ok: "\<not> walk_truncated st'"
  proof -
    have go using l(3) fin(2) ok unfolding grows_def by blast
    then have post: "noted dir ix (fst s) cur tgt st1" "\<forall>f \<in> set (dir_segments dir ix (fst s)). crossed dir f cur tgt st1"
      using l(4) by blast+
    have "closed dir ix st1 ?key" unfolding closed_def
    proof (clarsimp simp: pairs_of_def s simp del: split_paired_All, intro conjI impI allI)
      fix b q assume z: "(b, q) \<in> set (zip (ss_bits cur) (ss_bits tgt))"
      show "required dir ix (fst s, b) I \<Longrightarrow> q \<in> found_bits dir st1" "unresolved_at dir ix (fst s, b) \<Longrightarrow> wk_gaps st1 \<noteq> []"
        "required dir ix (fst s, b) I \<Longrightarrow> wk_evidence_cut st1 \<or> (\<exists>i \<in> I. (i, q) \<in> listed st1)" for I
        using post(1) z unfolding noted_def by blast+
      fix p' assume "leads dir ix (fst s, b) p'"
      then obtain f where "f \<in> set (dir_segments dir ix (fst s))" "endpoint_key (far dir f) = Inr (fst p')"
        "bit_map (ss_bits (near dir f)) (ss_bits (far dir f)) b = Some (snd p')" by (auto simp: leads_def)
      then show "q \<in> set (wk_depth_bits st1) \<or> (p', q) \<in> pairs st1"
        using post(2) z unfolding crossed_def by (metis prod.collapse)
    qed
    then show ?thesis by (rule closed_mono [OF fin(2)])
  qed
  have "closed dir ix st' v" if "\<not> walk_truncated st'" "v \<in> set (wk_visited st') - set (wk_visited st)" for v
  proof (cases "v = ?key")
    case True
    then show ?thesis using key that by blast
  next
    case False
    then have "v \<in> set (wk_visited st') - set (wk_visited ?st0)" using that by (simp add: enter_def)
    then show ?thesis using a1 that(1) unfolding advances_def by blast
  qed
  then have "advances dir ix st st'" using a1 grows_trans [OF g0] unfolding advances_def by blast
  then show ?thesis using fin(1) v by blast
qed

lemma visit_body_visits:
  assumes "\<And>v. deeper = Some v \<Longrightarrow> visits dir ix k0 v"
  shows "visits dir ix k0 (visit_body lim dir ix deeper)"
  unfolding visits_def
proof (intro allI impI)
  fix cur tgt hops st st'
  assume st: "sound dir ix k0 st" "ss_width cur = ss_width tgt \<longrightarrow> reached dir ix k0 cur tgt" "visit_body lim dir ix deeper cur tgt hops st = Inr st'"
  let ?goal = "sound dir ix k0 st' \<and> advances dir ix st st' \<and>
     (\<not> walk_truncated st' \<longrightarrow> ss_width cur = ss_width tgt \<and> (\<exists>s. state_of cur = Inr s \<and> (s, ss_bits tgt) \<in> set (wk_visited st')))"
  show ?goal
  proof (cases "walk_truncated st")
    case True
    then show ?thesis using st by (simp add: visit_body_def advances_refl)
  next
    case False
    then obtain s where s: "ss_width cur = ss_width tgt" "state_of cur = Inr s"
      using st(3) by (auto simp: visit_body_def ebind_Inr_iff split: if_splits)
    then have r: "reached dir ix k0 cur tgt" using st(2) by simp
    consider "(s, ss_bits tgt) \<in> set (wk_visited st)" "st' = st" | "st' = st\<lparr>wk_state_cut := True\<rparr>"
      | go st1 where "andthen (fact_loops lim dir ix (fst s) cur tgt hops (enter cur tgt (s, ss_bits tgt) st))
            (each (segment_step lim dir deeper cur tgt hops) (dir_segments dir ix (fst s))) = Inr (go, st1)"
          "(if go then add_residual lim dir ix (fst s) cur tgt st1 else Inr st1) = Inr st'"
      using st(3) False s by (auto simp: visit_body_def ebind_Inr_iff split: if_splits)
    then show ?thesis
    proof cases
      case 1
      then show ?thesis using st(1) s by (auto simp: advances_refl)
    next
      case 2
      have t: "walk_truncated st'" by (simp add: 2 walk_truncated_def)
      have same: "found_bits dir st' = found_bits dir st" "pairs st' = pairs st" "listed st' = listed st"
        by (rule found_same, simp_all add: 2 pairs_def listed_def)
      have "sound dir ix k0 st'" using st(1) unfolding sound_def same kept_def by (simp add: 2)
      moreover have "advances dir ix st st'"
        by (rule unvisited_advances) (simp_all add: grows_def same t, simp_all add: 2)
      ultimately show ?thesis using t by blast
    next
      case 3
      from visit_main [OF assms st(1) r s(2) 3] show ?thesis using s by blast
    qed
  qed
qed

lemma visit_visits: "visits dir ix k0 (visit lim dir ix n)"
proof (induction n)
  case 0
  show ?case unfolding visit.simps by (rule visit_body_visits) simp
next
  case (Suc n)
  show ?case unfolding visit.simps by (rule visit_body_visits) (use Suc in simp)
qed

end
