(* ===== verification/Cq_Index_Laws.thy ===== *)
theory Cq_Index_Laws
  imports Cq_Index
begin

text \<open>What the indexes contain, in terms of the bindings and the assignments of the IR.\<close>

section \<open>Folds that collect\<close>

lemma efold_collect:
  assumes "efold f xs s = Inr s'" "\<And>x s s'. x \<in> set xs \<Longrightarrow> f x s = Inr s' \<Longrightarrow> g s' = g s \<union> A x"
  shows "g s' = g s \<union> (\<Union>x \<in> set xs. A x)"
  using assms
proof (induction xs arbitrary: s)
  case (Cons x xs)
  then obtain s1 where "f x s = Inr s1" "efold f xs s1 = Inr s'" by (auto simp: ebind_Inr_iff)
  then have "g s' = g s1 \<union> (\<Union>x \<in> set xs. A x)" "g s1 = g s \<union> A x" using Cons by simp_all
  then show ?case by auto
qed simp

lemma efold_each:
  assumes "efold f xs s = Inr s'" "x \<in> set xs" shows "\<exists>s1 s2. f x s1 = Inr s2"
  using assms by (induction xs arbitrary: s) (auto simp: ebind_Inr_iff)

section \<open>Bindings\<close>

definition mapping_segments :: "port_binding \<Rightarrow> bit_mapping \<Rightarrow> flow_segment set" where
  "mapping_segments b m = {f. bm_kind m = SrcSignal \<and> (\<exists>fs. oriented_segments b m = Inr fs \<and> f \<in> set fs)}"

definition mapping_terminals :: "binding_source_kind \<Rightarrow> port_binding \<Rightarrow> bit_mapping \<Rightarrow> terminal set" where
  "mapping_terminals k b m = {t. bm_kind m = k \<and> inbound b \<and> t = \<lparr>tm_mapping = m, tm_binding = b\<rparr>}"

definition keyed :: "('a \<Rightarrow> signal_selection) \<Rightarrow> 'a set \<Rightarrow> (endpoint \<times> 'a) set" where
  "keyed key X = {(k, x). x \<in> X \<and> endpoint_key (key x) = Inr k}"

lemma keyed_simps: "keyed key {} = {}" "keyed key (X \<union> Y) = keyed key X \<union> keyed key Y" "keyed key (\<Union>x \<in> A. F x) = (\<Union>x \<in> A. keyed key (F x))"
  by (auto simp: keyed_def)

definition binding_edges :: "flow_segment set \<Rightarrow> path_edge set" where
  "binding_edges F = {e. \<exists>f \<in> F. binding_edge f = Inr e}"

lemma binding_edges_simps: "binding_edges {} = {}" "binding_edges (X \<union> Y) = binding_edges X \<union> binding_edges Y"
  "binding_edges (\<Union>x \<in> A. F x) = (\<Union>x \<in> A. binding_edges (F x))"
  by (auto simp: binding_edges_def)

lemma binding_edge_ends: "binding_edge f = Inr e \<Longrightarrow> pe_source e = fl_source f \<and> pe_target e = fl_target f \<and> pe_exact e"
  by (auto simp: binding_edge_def ebind_Inr_iff)

lemma singletons: "(\<Union>x \<in> X. keyed key {x}) = keyed key X"
  "(\<Union>f \<in> F. keyed pe_source (binding_edges {f})) = keyed pe_source (binding_edges F)"
  by (auto simp: keyed_def binding_edges_def)

lemma add_segment_sets:
  assumes "add_segment f ix = Inr ix'"
  shows "set (ix_incoming ix') = set (ix_incoming ix) \<union> keyed fl_target {f}" "set (ix_outgoing ix') = set (ix_outgoing ix) \<union> keyed fl_source {f}"
    "set (ix_paths ix') = set (ix_paths ix) \<union> keyed pe_source (binding_edges {f})"
    "ix_constant ix' = ix_constant ix" "ix_unresolved ix' = ix_unresolved ix" "ix_writes ix' = ix_writes ix"
    "ix_reads ix' = ix_reads ix" "ix_exclusions ix' = ix_exclusions ix"
    "ss_path (fl_source f) \<noteq> None" "ss_path (fl_target f) \<noteq> None"
proof -
  obtain t s e where e: "endpoint_key (fl_target f) = Inr t" "endpoint_key (fl_source f) = Inr s" "binding_edge f = Inr e"
    "ix' = ix\<lparr>ix_incoming := ix_incoming ix @ [(t, f)], ix_outgoing := ix_outgoing ix @ [(s, f)], ix_paths := ix_paths ix @ [(s, e)]\<rparr>"
    using assms by (auto simp: add_segment_def ebind_Inr_iff)
  have k: "keyed fl_target {f} = {(t, f)}" "keyed fl_source {f} = {(s, f)}" "keyed pe_source (binding_edges {f}) = {(s, e)}"
    using e binding_edge_ends [OF e(3)] by (auto simp: keyed_def binding_edges_def)
  show "set (ix_incoming ix') = set (ix_incoming ix) \<union> keyed fl_target {f}" "set (ix_outgoing ix') = set (ix_outgoing ix) \<union> keyed fl_source {f}"
    "set (ix_paths ix') = set (ix_paths ix) \<union> keyed pe_source (binding_edges {f})"
    "ix_constant ix' = ix_constant ix" "ix_unresolved ix' = ix_unresolved ix" "ix_writes ix' = ix_writes ix"
    "ix_reads ix' = ix_reads ix" "ix_exclusions ix' = ix_exclusions ix" unfolding k e(4) by simp_all
  show "ss_path (fl_source f) \<noteq> None" "ss_path (fl_target f) \<noteq> None" using e(1,2) by (auto simp: endpoint_key_def split: option.splits)
qed

lemma index_mapping_sets:
  assumes "index_mapping b m ix = Inr ix'"
  shows "set (ix_incoming ix') = set (ix_incoming ix) \<union> keyed fl_target (mapping_segments b m)"
    "set (ix_outgoing ix') = set (ix_outgoing ix) \<union> keyed fl_source (mapping_segments b m)"
    "set (ix_paths ix') = set (ix_paths ix) \<union> keyed pe_source (binding_edges (mapping_segments b m))"
    "set (ix_constant ix') = set (ix_constant ix) \<union> keyed (\<lambda>t. bm_target (tm_mapping t)) (mapping_terminals SrcConstant b m)"
    "set (ix_unresolved ix') = set (ix_unresolved ix) \<union> keyed (\<lambda>t. bm_target (tm_mapping t)) (mapping_terminals SrcUnresolved b m)"
    "set (ix_writes ix') = set (ix_writes ix)"
    "\<forall>f \<in> mapping_segments b m. ss_path (fl_source f) \<noteq> None \<and> ss_path (fl_target f) \<noteq> None"
proof -
  note defs = mapping_segments_def mapping_terminals_def keyed_simps binding_edges_simps
  have "set (ix_incoming ix') = set (ix_incoming ix) \<union> keyed fl_target (mapping_segments b m) \<and>
    set (ix_outgoing ix') = set (ix_outgoing ix) \<union> keyed fl_source (mapping_segments b m) \<and>
    set (ix_paths ix') = set (ix_paths ix) \<union> keyed pe_source (binding_edges (mapping_segments b m)) \<and>
    set (ix_constant ix') = set (ix_constant ix) \<union> keyed (\<lambda>t. bm_target (tm_mapping t)) (mapping_terminals SrcConstant b m) \<and>
    set (ix_unresolved ix') = set (ix_unresolved ix) \<union> keyed (\<lambda>t. bm_target (tm_mapping t)) (mapping_terminals SrcUnresolved b m) \<and>
    set (ix_writes ix') = set (ix_writes ix) \<and> (\<forall>f \<in> mapping_segments b m. ss_path (fl_source f) \<noteq> None \<and> ss_path (fl_target f) \<noteq> None)"
  proof (cases "bm_kind m")
    case SrcSignal
    then obtain fs where fs: "oriented_segments b m = Inr fs" "efold add_segment fs ix = Inr ix'"
      using assms by (auto simp: index_mapping_def ebind_Inr_iff)
    have seg: "mapping_segments b m = set fs" using SrcSignal fs(1) by (auto simp: mapping_segments_def)
    have none: "mapping_terminals k b m = {}" if "k \<noteq> SrcSignal" for k using that SrcSignal by (simp add: mapping_terminals_def)
    have paths: "\<forall>f \<in> set fs. ss_path (fl_source f) \<noteq> None \<and> ss_path (fl_target f) \<noteq> None"
      using efold_each [OF fs(2)] add_segment_sets(9,10) by metis
    have "set (ix_incoming ix') = set (ix_incoming ix) \<union> (\<Union>f \<in> set fs. keyed fl_target {f})"
      by (rule efold_collect [OF fs(2)]) (rule add_segment_sets)
    moreover have "set (ix_outgoing ix') = set (ix_outgoing ix) \<union> (\<Union>f \<in> set fs. keyed fl_source {f})"
      by (rule efold_collect [OF fs(2)]) (rule add_segment_sets)
    moreover have "set (ix_paths ix') = set (ix_paths ix) \<union> (\<Union>f \<in> set fs. keyed pe_source (binding_edges {f}))"
      by (rule efold_collect [OF fs(2)]) (rule add_segment_sets)
    moreover have "set (ix_constant ix') = set (ix_constant ix) \<union> (\<Union>f \<in> set fs. {})"
      by (rule efold_collect [OF fs(2)]) (simp add: add_segment_sets(4))
    moreover have "set (ix_unresolved ix') = set (ix_unresolved ix) \<union> (\<Union>f \<in> set fs. {})"
      by (rule efold_collect [OF fs(2)]) (simp add: add_segment_sets(5))
    moreover have "set (ix_writes ix') = set (ix_writes ix) \<union> (\<Union>f \<in> set fs. {})"
      by (rule efold_collect [OF fs(2)]) (simp add: add_segment_sets(6))
    ultimately show ?thesis using paths by (simp add: seg singletons none keyed_simps)
  next
    case SrcConstant
    then show ?thesis using assms
      by (cases "inbound b") (auto simp: index_mapping_def ebind_Inr_iff mapping_segments_def mapping_terminals_def keyed_def binding_edges_def)
  next
    case SrcUnresolved
    then show ?thesis using assms
      by (cases "inbound b") (auto simp: index_mapping_def ebind_Inr_iff mapping_segments_def mapping_terminals_def keyed_def binding_edges_def)
  qed
  then show "set (ix_incoming ix') = set (ix_incoming ix) \<union> keyed fl_target (mapping_segments b m)"
    "set (ix_outgoing ix') = set (ix_outgoing ix) \<union> keyed fl_source (mapping_segments b m)"
    "set (ix_paths ix') = set (ix_paths ix) \<union> keyed pe_source (binding_edges (mapping_segments b m))"
    "set (ix_constant ix') = set (ix_constant ix) \<union> keyed (\<lambda>t. bm_target (tm_mapping t)) (mapping_terminals SrcConstant b m)"
    "set (ix_unresolved ix') = set (ix_unresolved ix) \<union> keyed (\<lambda>t. bm_target (tm_mapping t)) (mapping_terminals SrcUnresolved b m)"
    "set (ix_writes ix') = set (ix_writes ix)"
    "\<forall>f \<in> mapping_segments b m. ss_path (fl_source f) \<noteq> None \<and> ss_path (fl_target f) \<noteq> None" by blast+
qed


definition binding_segments :: "port_binding \<Rightarrow> flow_segment set" where
  "binding_segments b = (\<Union>m \<in> set (pb_mappings b). mapping_segments b m)"

definition binding_terminals :: "binding_source_kind \<Rightarrow> port_binding \<Rightarrow> terminal set" where
  "binding_terminals k b = (\<Union>m \<in> set (pb_mappings b). mapping_terminals k b m)"

abbreviation terminal_target :: "terminal \<Rightarrow> signal_selection" where
  "terminal_target t \<equiv> bm_target (tm_mapping t)"

lemma index_binding_sets:
  assumes "index_binding b ix = Inr ix'"
  shows "set (ix_incoming ix') = set (ix_incoming ix) \<union> keyed fl_target (binding_segments b)"
    "set (ix_outgoing ix') = set (ix_outgoing ix) \<union> keyed fl_source (binding_segments b)"
    "set (ix_paths ix') = set (ix_paths ix) \<union> keyed pe_source (binding_edges (binding_segments b))"
    "set (ix_constant ix') = set (ix_constant ix) \<union> keyed terminal_target (binding_terminals SrcConstant b)"
    "set (ix_unresolved ix') = set (ix_unresolved ix) \<union> keyed terminal_target (binding_terminals SrcUnresolved b)"
    "set (ix_writes ix') = set (ix_writes ix)"
    "\<forall>f \<in> binding_segments b. ss_path (fl_source f) \<noteq> None \<and> ss_path (fl_target f) \<noteq> None"
proof -
  note f = assms [unfolded index_binding_def]
  show "set (ix_incoming ix') = set (ix_incoming ix) \<union> keyed fl_target (binding_segments b)"
    unfolding binding_segments_def keyed_simps by (rule efold_collect [OF f]) (rule index_mapping_sets(1))
  show "set (ix_outgoing ix') = set (ix_outgoing ix) \<union> keyed fl_source (binding_segments b)"
    unfolding binding_segments_def keyed_simps by (rule efold_collect [OF f]) (rule index_mapping_sets(2))
  show "set (ix_paths ix') = set (ix_paths ix) \<union> keyed pe_source (binding_edges (binding_segments b))"
    unfolding binding_segments_def binding_edges_simps keyed_simps by (rule efold_collect [OF f]) (rule index_mapping_sets(3))
  show "set (ix_constant ix') = set (ix_constant ix) \<union> keyed terminal_target (binding_terminals SrcConstant b)"
    unfolding binding_terminals_def keyed_simps by (rule efold_collect [OF f]) (rule index_mapping_sets(4))
  show "set (ix_unresolved ix') = set (ix_unresolved ix) \<union> keyed terminal_target (binding_terminals SrcUnresolved b)"
    unfolding binding_terminals_def keyed_simps by (rule efold_collect [OF f]) (rule index_mapping_sets(5))
  have "set (ix_writes ix') = set (ix_writes ix) \<union> (\<Union>m \<in> set (pb_mappings b). {})"
    by (rule efold_collect [OF f]) (simp add: index_mapping_sets(6))
  then show "set (ix_writes ix') = set (ix_writes ix)" by simp
  show "\<forall>f \<in> binding_segments b. ss_path (fl_source f) \<noteq> None \<and> ss_path (fl_target f) \<noteq> None"
    unfolding binding_segments_def using efold_each [OF f] index_mapping_sets(7) by fast
qed

section \<open>Assignments\<close>

definition dependency_edges :: "string \<Rightarrow> assignment_fact \<Rightarrow> dependency_fact \<Rightarrow> path_edge set" where
  "dependency_edges path a d = {e. af_boundary a \<noteq> BoundarySequential \<and> df_role d \<noteq> RoleControl \<and>
     (\<exists>s t. selection_bind (df_source d) path = Inr s \<and> selection_bind (df_target d) path = Inr t \<and> e = assignment_edge a d s t)}"

lemma selection_bind_path: "selection_bind s path = Inr s' \<Longrightarrow> ss_path s' = Some path \<and> ss_symbol s' = ss_symbol s \<and> ss_bits s' = ss_bits s"
  by (auto simp: selection_bind_def mk_selection_def checked_Inr split: option.splits if_splits)

text \<open>The bindings' part of an index, which assignments leave alone.\<close>

definition same_ports :: "index \<Rightarrow> index \<Rightarrow> bool" where
  "same_ports ix ix' \<longleftrightarrow> ix_incoming ix' = ix_incoming ix \<and> ix_outgoing ix' = ix_outgoing ix \<and> ix_constant ix' = ix_constant ix \<and>
     ix_unresolved ix' = ix_unresolved ix"

lemma efold_same_ports: "efold f xs s = Inr s' \<Longrightarrow> (\<And>x s s'. f x s = Inr s' \<Longrightarrow> same_ports s s') \<Longrightarrow> same_ports s s'"
proof (induction xs arbitrary: s)
  case (Cons x xs)
  then obtain s1 where "f x s = Inr s1" "efold f xs s1 = Inr s'" by (auto simp: ebind_Inr_iff)
  then have "same_ports s s1" "same_ports s1 s'" using Cons by blast+
  then show ?case by (simp add: same_ports_def)
qed (simp add: same_ports_def)

lemma index_dependency_sets:
  assumes "index_dependency path a d ix = Inr ix'"
  shows "set (ix_paths ix') = set (ix_paths ix) \<union> keyed pe_source (dependency_edges path a d)" "same_ports ix ix'"
    "ix_writes ix' = ix_writes ix"
proof -
  obtain s t k where b: "selection_bind (df_source d) path = Inr s" "selection_bind (df_target d) path = Inr t" "endpoint_key s = Inr k"
    using assms by (auto simp: index_dependency_def Let_def ebind_Inr_iff)
  show "same_ports ix ix'" "ix_writes ix' = ix_writes ix"
    using assms b by (auto simp: index_dependency_def Let_def same_ports_def split: if_splits)
  show "set (ix_paths ix') = set (ix_paths ix) \<union> keyed pe_source (dependency_edges path a d)"
    using assms b by (auto simp: index_dependency_def Let_def dependency_edges_def keyed_def assignment_edge_def split: if_splits)
qed

definition assignment_edges :: "string \<Rightarrow> assignment_fact \<Rightarrow> path_edge set" where
  "assignment_edges path a = (\<Union>d \<in> set (af_dependencies a). dependency_edges path a d)"

lemma index_assignment_sets:
  assumes "index_assignment path a ix = Inr ix'"
  shows "set (ix_paths ix') = set (ix_paths ix) \<union> keyed pe_source (assignment_edges path a)" "same_ports ix ix'"
    "set (ix_writes ix') = set (ix_writes ix) \<union> {((path, ss_symbol (af_target a)), a)}"
proof -
  let ?ix = "ix\<lparr>ix_writes := ix_writes ix @ [((path, ss_symbol (af_target a)), a)]\<rparr>"
  have f: "efold (index_dependency path a) (af_dependencies a) ?ix = Inr ix'" using assms by (simp add: index_assignment_def)
  have "set (ix_paths ix') = set (ix_paths ?ix) \<union> keyed pe_source (assignment_edges path a)"
    unfolding assignment_edges_def keyed_simps by (rule efold_collect [OF f]) (rule index_dependency_sets(1))
  then show "set (ix_paths ix') = set (ix_paths ix) \<union> keyed pe_source (assignment_edges path a)" by simp
  have "same_ports ?ix ix'" by (rule efold_same_ports [OF f]) (rule index_dependency_sets(2))
  then show "same_ports ix ix'" by (simp add: same_ports_def)
  have "set (ix_writes ix') = set (ix_writes ?ix) \<union> (\<Union>d \<in> set (af_dependencies a). {})"
    by (rule efold_collect [OF f]) (simp add: index_dependency_sets(3))
  then show "set (ix_writes ix') = set (ix_writes ix) \<union> {((path, ss_symbol (af_target a)), a)}" by auto
qed

text \<open>The assignments of an instance, by the definition it instantiates.\<close>

definition instance_assignments :: "connectivity_ir \<Rightarrow> instance_decl \<Rightarrow> assignment_fact set" where
  "instance_assignments ir i = (case definition_index ir (id_definition i) of None \<Rightarrow> {} | Some d \<Rightarrow> set (dt_assignments d))"

definition instance_writes :: "connectivity_ir \<Rightarrow> instance_decl \<Rightarrow> (endpoint \<times> assignment_fact) set" where
  "instance_writes ir i = (\<Union>a \<in> instance_assignments ir i. {((id_path i, ss_symbol (af_target a)), a)})"

definition instance_edges :: "connectivity_ir \<Rightarrow> instance_decl \<Rightarrow> path_edge set" where
  "instance_edges ir i = (\<Union>a \<in> instance_assignments ir i. assignment_edges (id_path i) a)"

lemma index_instance_sets:
  assumes "index_instance ir i ix = Inr ix'"
  shows "set (ix_paths ix') = set (ix_paths ix) \<union> keyed pe_source (instance_edges ir i)" "same_ports ix ix'"
    "set (ix_writes ix') = set (ix_writes ix) \<union> instance_writes ir i"
proof -
  obtain d where d: "definition_index ir (id_definition i) = Some d"
    and f: "efold (index_assignment (id_path i)) (dt_assignments d) ix = Inr ix'"
    using assms by (auto simp: index_instance_def definition_of_def ebind_Inr_iff split: option.splits)
  have a: "instance_assignments ir i = set (dt_assignments d)" by (simp add: instance_assignments_def d)
  show "set (ix_paths ix') = set (ix_paths ix) \<union> keyed pe_source (instance_edges ir i)"
    unfolding instance_edges_def keyed_simps a by (rule efold_collect [OF f]) (rule index_assignment_sets(1))
  show "same_ports ix ix'" by (rule efold_same_ports [OF f]) (rule index_assignment_sets(2))
  show "set (ix_writes ix') = set (ix_writes ix) \<union> instance_writes ir i"
    unfolding instance_writes_def a by (rule efold_collect [OF f]) (rule index_assignment_sets(3))
qed

section \<open>The whole index\<close>

definition segments :: "connectivity_ir \<Rightarrow> flow_segment set" where
  "segments ir = (\<Union>b \<in> set (ir_bindings ir). binding_segments b)"

definition terminals :: "binding_source_kind \<Rightarrow> connectivity_ir \<Rightarrow> terminal set" where
  "terminals k ir = (\<Union>b \<in> set (ir_bindings ir). binding_terminals k b)"

definition writes :: "connectivity_ir \<Rightarrow> (endpoint \<times> assignment_fact) set" where
  "writes ir = (\<Union>i \<in> set (ir_instances ir). instance_writes ir i)"

definition flow_edges :: "connectivity_ir \<Rightarrow> path_edge set" where
  "flow_edges ir = binding_edges (segments ir) \<union> (\<Union>i \<in> set (ir_instances ir). instance_edges ir i)"

lemma build_index_sets:
  assumes "build_index ir = Inr ix"
  shows "set (ix_incoming ix) = keyed fl_target (segments ir)" "set (ix_outgoing ix) = keyed fl_source (segments ir)"
    "set (ix_constant ix) = keyed terminal_target (terminals SrcConstant ir)"
    "set (ix_unresolved ix) = keyed terminal_target (terminals SrcUnresolved ir)"
    "set (ix_writes ix) = writes ir" "set (ix_paths ix) = keyed pe_source (flow_edges ir)"
    "f \<in> segments ir \<Longrightarrow> ss_path (fl_source f) \<noteq> None \<and> ss_path (fl_target f) \<noteq> None"
proof -
  obtain ix1 where b: "efold index_binding (ir_bindings ir) index0 = Inr ix1" and i: "efold (index_instance ir) (ir_instances ir) ix1 = Inr ix"
    using assms by (auto simp: build_index_def ebind_Inr_iff)
  have ports: "same_ports ix1 ix" by (rule efold_same_ports [OF i]) (rule index_instance_sets(2))
  have "set (ix_incoming ix1) = set (ix_incoming index0) \<union> keyed fl_target (segments ir)"
    unfolding segments_def keyed_simps by (rule efold_collect [OF b]) (rule index_binding_sets(1))
  then show "set (ix_incoming ix) = keyed fl_target (segments ir)" using ports by (simp add: same_ports_def index0_def)
  have "set (ix_outgoing ix1) = set (ix_outgoing index0) \<union> keyed fl_source (segments ir)"
    unfolding segments_def keyed_simps by (rule efold_collect [OF b]) (rule index_binding_sets(2))
  then show "set (ix_outgoing ix) = keyed fl_source (segments ir)" using ports by (simp add: same_ports_def index0_def)
  have "set (ix_constant ix1) = set (ix_constant index0) \<union> keyed terminal_target (terminals SrcConstant ir)"
    unfolding terminals_def keyed_simps by (rule efold_collect [OF b]) (rule index_binding_sets(4))
  then show "set (ix_constant ix) = keyed terminal_target (terminals SrcConstant ir)" using ports by (simp add: same_ports_def index0_def)
  have "set (ix_unresolved ix1) = set (ix_unresolved index0) \<union> keyed terminal_target (terminals SrcUnresolved ir)"
    unfolding terminals_def keyed_simps by (rule efold_collect [OF b]) (rule index_binding_sets(5))
  then show "set (ix_unresolved ix) = keyed terminal_target (terminals SrcUnresolved ir)" using ports by (simp add: same_ports_def index0_def)
  have "set (ix_writes ix1) = set (ix_writes index0) \<union> (\<Union>b \<in> set (ir_bindings ir). {})"
    by (rule efold_collect [OF b]) (simp add: index_binding_sets(6))
  moreover have "set (ix_writes ix) = set (ix_writes ix1) \<union> writes ir"
    unfolding writes_def by (rule efold_collect [OF i]) (rule index_instance_sets(3))
  ultimately show "set (ix_writes ix) = writes ir" by (simp add: index0_def)
  have "set (ix_paths ix1) = set (ix_paths index0) \<union> keyed pe_source (binding_edges (segments ir))"
    unfolding segments_def binding_edges_simps keyed_simps by (rule efold_collect [OF b]) (rule index_binding_sets(3))
  moreover have "set (ix_paths ix) = set (ix_paths ix1) \<union> (\<Union>i \<in> set (ir_instances ir). keyed pe_source (instance_edges ir i))"
    by (rule efold_collect [OF i]) (rule index_instance_sets(1))
  ultimately show "set (ix_paths ix) = keyed pe_source (flow_edges ir)" by (simp add: flow_edges_def keyed_simps index0_def)
  show "f \<in> segments ir \<Longrightarrow> ss_path (fl_source f) \<noteq> None \<and> ss_path (fl_target f) \<noteq> None"
    unfolding segments_def using efold_each [OF b] index_binding_sets(7) by fast
qed

text \<open>Every edge ends at a bound selection.\<close>

lemma flow_edges_bound:
  assumes "build_index ir = Inr ix" "e \<in> flow_edges ir"
  shows "ss_path (pe_source e) \<noteq> None" "ss_path (pe_target e) \<noteq> None"
proof -
  have "ss_path (pe_source e) \<noteq> None \<and> ss_path (pe_target e) \<noteq> None"
  proof (cases "e \<in> binding_edges (segments ir)")
    case True
    then show ?thesis using build_index_sets(7) [OF assms(1)] by (auto simp: binding_edges_def dest: binding_edge_ends)
  next
    case False
    then show ?thesis using assms(2)
      by (auto simp: flow_edges_def instance_edges_def assignment_edges_def dependency_edges_def assignment_edge_def dest: selection_bind_path)
  qed
  then show "ss_path (pe_source e) \<noteq> None" "ss_path (pe_target e) \<noteq> None" by blast+
qed


section \<open>A small design\<close>

definition cq_loc :: source_location where
  "cq_loc = \<lparr>loc_file = ''a.sv'', loc_line = 1, loc_column = 0\<rparr>"

definition cq_evidence :: source_evidence where
  "cq_evidence = \<lparr>se_construct = ''c'', se_location = cq_loc, se_resolution = ResExact, se_frontend = ''slang'',
     se_frontend_version = None, se_detail = None\<rparr>"

definition cq_range :: bit_range_decl where
  "cq_range = \<lparr>br_left = 1, br_right = 0\<rparr>"

definition cq_port :: "string \<Rightarrow> port_direction \<Rightarrow> int \<Rightarrow> port_decl" where
  "cq_port n d k = \<lparr>pd_name = n, pd_direction = d, pd_range = cq_range, pd_ordinal = k, pd_location = cq_loc,
     pd_interface = None, pd_modport = None\<rparr>"

definition cq_signal :: "string \<Rightarrow> signal_decl" where
  "cq_signal n = \<lparr>sd_name = n, sd_kind = SymNet, sd_range = cq_range, sd_location = cq_loc\<rparr>"

definition cq_local :: "string \<Rightarrow> signal_selection" where
  "cq_local n = \<lparr>ss_symbol = n, ss_bits = [1, 0], ss_path = None\<rparr>"

definition cq_at :: "string \<Rightarrow> string \<Rightarrow> signal_selection" where
  "cq_at p n = \<lparr>ss_symbol = n, ss_bits = [1, 0], ss_path = Some p\<rparr>"

definition cq_assign :: assignment_fact where
  "cq_assign = \<lparr>af_id = ''m:1'', af_kind = EdgeContinuousAssign, af_target = cq_local ''o'',
     af_dependencies = [\<lparr>df_source = cq_local ''i'', df_target = cq_local ''o'', df_role = RoleData, df_exact = True, df_guard = None\<rparr>],
     af_boundary = BoundaryCombinational, af_evidence = cq_evidence, af_procedure = None, af_guard = None, af_generate = None,
     af_dynamic = None, af_driver = None\<rparr>"

definition cq_definition :: "string \<Rightarrow> port_decl list \<Rightarrow> signal_decl list \<Rightarrow> assignment_fact list \<Rightarrow> definition_template" where
  "cq_definition n ps ss as = \<lparr>dt_id = n, dt_name = n, dt_kind = DefModule, dt_location = cq_loc, dt_ports = ps, dt_signals = ss,
     dt_members = [], dt_modports = [], dt_assignments = as\<rparr>"

definition cq_instance :: "string \<Rightarrow> string \<Rightarrow> string option \<Rightarrow> instance_decl" where
  "cq_instance p d parent = \<lparr>id_path = p, id_name = p, id_definition = d, id_parent = parent, id_location = cq_loc,
     id_generate = None, id_parameters = []\<rparr>"

definition cq_binding :: "string \<Rightarrow> string \<Rightarrow> port_direction \<Rightarrow> string \<Rightarrow> port_binding" where
  "cq_binding n port d actual = \<lparr>pb_id = n, pb_instance = ''top.u'', pb_port = port, pb_direction = d, pb_style = StyleNamed,
     pb_mappings = [\<lparr>bm_source = Some (cq_at ''top'' actual), bm_target = cq_at ''top.u'' port, bm_kind = SrcSignal,
       bm_constant = [], bm_reason = None\<rparr>],
     pb_evidence = cq_evidence, pb_position = None, pb_interface = None, pb_modport = None\<rparr>"

definition cq_ir :: connectivity_ir where
  "cq_ir = \<lparr>ir_frontend = ''slang'', ir_frontend_version = ''7'',
     ir_definitions = [cq_definition ''t'' [] [cq_signal ''a'', cq_signal ''b''] [],
       cq_definition ''m'' [cq_port ''i'' DirInput 0, cq_port ''o'' DirOutput 1] [] [cq_assign]],
     ir_instances = [cq_instance ''top'' ''t'' None, cq_instance ''top.u'' ''m'' (Some ''top'')],
     ir_bindings = [cq_binding ''b1'' ''i'' DirInput ''a'', cq_binding ''b2'' ''o'' DirOutput ''b''],
     ir_coverage = \<lparr>cr_status = CovComplete, cr_total = 1, cr_projected = 1, cr_gaps = [], cr_diagnostics = 0, cr_blocking = 0\<rparr>,
     ir_tops = [''top''], ir_metadata = []\<rparr>"

end
