(* ===== verification/Cq_Query_Laws.thy ===== *)
theory Cq_Query_Laws
  imports Cq_Walk_Steps Cq_Index_Laws
begin

text \<open>
  A finished walk in terms of the IR: bits lead along port bindings, and the facts at a bit are the
  writes, the constant and unresolved port segments, or the reads of the IR.
\<close>

section \<open>The reads of the index\<close>

definition assignment_reads :: "string \<Rightarrow> assignment_fact \<Rightarrow> (endpoint \<times> assignment_fact \<times> dependency_fact) set" where
  "assignment_reads path a = (\<Union>d \<in> set (af_dependencies a). {((path, ss_symbol (df_source d)), a, d)})"

definition instance_reads :: "connectivity_ir \<Rightarrow> instance_decl \<Rightarrow> (endpoint \<times> assignment_fact \<times> dependency_fact) set" where
  "instance_reads ir i = (\<Union>a \<in> instance_assignments ir i. assignment_reads (id_path i) a)"

definition reads :: "connectivity_ir \<Rightarrow> (endpoint \<times> assignment_fact \<times> dependency_fact) set" where
  "reads ir = (\<Union>i \<in> set (ir_instances ir). instance_reads ir i)"

lemma index_dependency_reads:
  assumes "index_dependency path a d ix = Inr ix'"
  shows "set (ix_reads ix') = set (ix_reads ix) \<union> {((path, ss_symbol (df_source d)), a, d)}"
proof -
  obtain s t k where b: "selection_bind (df_source d) path = Inr s" "selection_bind (df_target d) path = Inr t" "endpoint_key s = Inr k"
    using assms by (auto simp: index_dependency_def Let_def ebind_Inr_iff)
  have "ix_reads ix' = ix_reads ix @ [((path, ss_symbol (df_source d)), a, d)]"
    using assms b by (auto simp: index_dependency_def Let_def split: if_splits)
  then show ?thesis by simp
qed

lemma index_assignment_reads:
  assumes "index_assignment path a ix = Inr ix'"
  shows "set (ix_reads ix') = set (ix_reads ix) \<union> assignment_reads path a"
proof -
  let ?ix = "ix\<lparr>ix_writes := ix_writes ix @ [((path, ss_symbol (af_target a)), a)]\<rparr>"
  have f: "efold (index_dependency path a) (af_dependencies a) ?ix = Inr ix'" using assms by (simp add: index_assignment_def)
  have "set (ix_reads ix') = set (ix_reads ?ix) \<union> assignment_reads path a"
    unfolding assignment_reads_def by (rule efold_collect [OF f]) (rule index_dependency_reads)
  then show ?thesis by simp
qed

lemma index_instance_reads:
  assumes "index_instance ir i ix = Inr ix'"
  shows "set (ix_reads ix') = set (ix_reads ix) \<union> instance_reads ir i"
proof -
  obtain d where d: "definition_index ir (id_definition i) = Some d"
    and f: "efold (index_assignment (id_path i)) (dt_assignments d) ix = Inr ix'"
    using assms by (auto simp: index_instance_def definition_of_def ebind_Inr_iff split: option.splits)
  have a: "instance_assignments ir i = set (dt_assignments d)" by (simp add: instance_assignments_def d)
  show ?thesis unfolding instance_reads_def a by (rule efold_collect [OF f]) (rule index_assignment_reads)
qed

lemma index_mapping_reads:
  assumes "index_mapping b m ix = Inr ix'" shows "set (ix_reads ix') = set (ix_reads ix) \<union> {}"
proof (cases "bm_kind m")
  case SrcSignal
  then obtain fs where fs: "efold add_segment fs ix = Inr ix'" using assms by (auto simp: index_mapping_def ebind_Inr_iff)
  have "set (ix_reads ix') = set (ix_reads ix) \<union> (\<Union>f \<in> set fs. {})"
    by (rule efold_collect [OF fs]) (simp add: add_segment_sets(7))
  then show ?thesis by simp
next
  case SrcConstant
  then show ?thesis using assms by (cases "inbound b") (auto simp: index_mapping_def ebind_Inr_iff)
next
  case SrcUnresolved
  then show ?thesis using assms by (cases "inbound b") (auto simp: index_mapping_def ebind_Inr_iff)
qed

lemma build_index_reads:
  assumes "build_index ir = Inr ix" shows "set (ix_reads ix) = reads ir"
proof -
  obtain ix1 where b: "efold index_binding (ir_bindings ir) index0 = Inr ix1" and i: "efold (index_instance ir) (ir_instances ir) ix1 = Inr ix"
    using assms by (auto simp: build_index_def ebind_Inr_iff)
  have bind: "set (ix_reads s') = set (ix_reads s) \<union> {}" if "index_binding x s = Inr s'" for x s s'
  proof -
    have "set (ix_reads s') = set (ix_reads s) \<union> (\<Union>m \<in> set (pb_mappings x). {})"
      by (rule efold_collect [OF that [unfolded index_binding_def]]) (rule index_mapping_reads)
    then show ?thesis by simp
  qed
  have "set (ix_reads ix1) = set (ix_reads index0) \<union> (\<Union>b \<in> set (ir_bindings ir). {})"
    by (rule efold_collect [OF b]) (rule bind)
  moreover have "set (ix_reads ix) = set (ix_reads ix1) \<union> reads ir"
    unfolding reads_def by (rule efold_collect [OF i]) (rule index_instance_reads)
  ultimately show ?thesis by (simp add: index0_def)
qed

section \<open>Bits of the IR\<close>

text \<open>A port segment leads from a bit to the bit of its other end, upstream for drivers.\<close>

definition feeds :: "connectivity_ir \<Rightarrow> walk_dir \<Rightarrow> signal_bit \<Rightarrow> signal_bit \<Rightarrow> bool" where
  "feeds ir dir p p' \<longleftrightarrow> (\<exists>f \<in> segments ir. endpoint_key (near dir f) = Inr (fst p) \<and> endpoint_key (far dir f) = Inr (fst p') \<and>
     bit_map (ss_bits (near dir f)) (ss_bits (far dir f)) (snd p) = Some (snd p'))"

definition reaches :: "connectivity_ir \<Rightarrow> walk_dir \<Rightarrow> signal_bit \<Rightarrow> signal_bit \<Rightarrow> bool" where
  "reaches ir dir = (feeds ir dir)\<^sup>*\<^sup>*"

text \<open>The assignments that write, or read, a bit in the instance of its endpoint.\<close>

definition written_by :: "connectivity_ir \<Rightarrow> signal_bit \<Rightarrow> assignment_fact \<Rightarrow> bool" where
  "written_by ir p a \<longleftrightarrow> (fst p, a) \<in> writes ir \<and> snd p \<in> set (ss_bits (af_target a))"

definition read_by :: "connectivity_ir \<Rightarrow> signal_bit \<Rightarrow> assignment_fact \<Rightarrow> bool" where
  "read_by ir p a \<longleftrightarrow> (\<exists>d. (fst p, a, d) \<in> reads ir \<and> snd p \<in> set (ss_bits (df_source d)))"

definition port_terminal :: "connectivity_ir \<Rightarrow> binding_source_kind \<Rightarrow> signal_bit \<Rightarrow> terminal \<Rightarrow> bool" where
  "port_terminal ir kind p t \<longleftrightarrow> t \<in> terminals kind ir \<and> endpoint_key (bm_target (tm_mapping t)) = Inr (fst p) \<and>
     snd p \<in> set (ss_bits (bm_target (tm_mapping t)))"

definition driven :: "connectivity_ir \<Rightarrow> signal_bit \<Rightarrow> bool" where
  "driven ir p \<longleftrightarrow> (\<exists>a. written_by ir p a) \<or> (\<exists>t. port_terminal ir SrcConstant p t)"

lemma leads_feeds:
  assumes "build_index ir = Inr ix" shows "leads dir ix = feeds ir dir"
proof (intro ext)
  fix p p' :: signal_bit
  have "f \<in> set (dir_segments dir ix (fst p)) \<longleftrightarrow> f \<in> segments ir \<and> endpoint_key (near dir f) = Inr (fst p)" for f
    by (cases dir) (auto simp: dir_segments_def near_def build_index_sets(1,2) [OF assms] keyed_def)
  then show "leads dir ix p p' = feeds ir dir p p'" unfolding leads_def feeds_def by blast
qed

lemma required_ir:
  assumes "build_index ir = Inr ix"
  shows "required Drivers ix p I \<longleftrightarrow> (\<exists>a. written_by ir p a \<and> I = {(fst (fst p), af_id a)}) \<or>
      (\<exists>t. port_terminal ir SrcConstant p t \<and> I = {(fst (fst p), constant_fact t bits) | bits. snd p \<in> set bits})"
    "required Loads ix p I \<longleftrightarrow> (\<exists>a. read_by ir p a \<and> I = {(fst (fst p), af_id a)})"
    "unresolved_at Drivers ix p \<longleftrightarrow> (\<exists>t. port_terminal ir SrcUnresolved p t)"
proof -
  note s = build_index_sets [OF assms] and r = build_index_reads [OF assms]
  show "required Drivers ix p I \<longleftrightarrow> (\<exists>a. written_by ir p a \<and> I = {(fst (fst p), af_id a)}) \<or>
      (\<exists>t. port_terminal ir SrcConstant p t \<and> I = {(fst (fst p), constant_fact t bits) | bits. snd p \<in> set bits})"
    unfolding required_def walk_dir.case set_lookup mem_Collect_eq s keyed_def written_by_def port_terminal_def by blast
  show "required Loads ix p I \<longleftrightarrow> (\<exists>a. read_by ir p a \<and> I = {(fst (fst p), af_id a)})"
    unfolding required_def walk_dir.case set_lookup r read_by_def by force
  show "unresolved_at Drivers ix p \<longleftrightarrow> (\<exists>t. port_terminal ir SrcUnresolved p t)"
    unfolding unresolved_at_def s set_lookup keyed_def port_terminal_def by simp
qed

lemma fact_at_ir:
  assumes "build_index ir = Inr ix"
  shows "fact_at Drivers ix p \<longleftrightarrow> driven ir p" "fact_at Loads ix p \<longleftrightarrow> (\<exists>a. read_by ir p a)"
  unfolding fact_at_def required_ir [OF assms] driven_def by blast+

section \<open>A finished walk\<close>

lemma walk0_sound: "sound dir ix k (walk0 s)"
  by (simp add: sound_def walk0_def kept_def pairs_def found_bits_def found_matches_def covered_of_def listed_def split: walk_dir.splits)

lemma closed_reaches:
  assumes "\<forall>v \<in> set (wk_visited st). closed dir ix st v" "((k, q), q) \<in> pairs st" "q \<notin> set (wk_depth_bits st)"
    "(leads dir ix)\<^sup>*\<^sup>* (k, q) p"
  shows "(p, q) \<in> pairs st"
  using assms(4)
proof (induction rule: rtranclp_induct)
  case base
  show ?case by (rule assms(2))
next
  case (step p p')
  then obtain v where "v \<in> set (wk_visited st)" "(p, q) \<in> pairs_of v" unfolding pairs_def by blast
  then show ?case using assms(1,3) step(2) unfolding closed_def by blast
qed

lemma run_walk_sound:
  assumes "run_walk lim dir ix depth s = Inr st" "endpoint_key s = Inr k"
  shows "sound dir ix k st"
    "\<not> walk_truncated st \<Longrightarrow> q \<in> set (ss_bits s) \<Longrightarrow> q \<notin> set (wk_depth_bits st) \<Longrightarrow> (leads dir ix)\<^sup>*\<^sup>* (k, q) p \<Longrightarrow>
      (\<forall>I. required dir ix p I \<longrightarrow> q \<in> found_bits dir st \<and> (wk_evidence_cut st \<or> (\<exists>i \<in> I. (i, q) \<in> listed st))) \<and>
      (unresolved_at dir ix p \<longrightarrow> wk_gaps st \<noteq> [])"
proof -
  have "reached dir ix k s s" unfolding reached_def using assms(2) by (auto simp: zip_same_conv_map)
  then have v: "sound dir ix k st" "advances dir ix (walk0 s) st"
      "\<not> walk_truncated st \<longrightarrow> (\<exists>t. state_of s = Inr t \<and> (t, ss_bits s) \<in> set (wk_visited st))"
    using visit_visits [of dir ix k lim depth] walk0_sound [of dir ix k s] assms(1) unfolding visits_def run_walk_def by blast+
  show "sound dir ix k st" by (rule v)
  assume ok: "\<not> walk_truncated st" and q: "q \<in> set (ss_bits s)" "q \<notin> set (wk_depth_bits st)" and p: "(leads dir ix)\<^sup>*\<^sup>* (k, q) p"
  have cl: "\<forall>v \<in> set (wk_visited st). closed dir ix st v" using v(2) ok by (simp add: advances_def walk0_def)
  obtain t where t: "state_of s = Inr t" "(t, ss_bits s) \<in> set (wk_visited st)" using v(3) ok by blast
  then have "fst t = k" "snd t = ss_bits s" using assms(2) by (auto simp: state_of_def ebind_Inr_iff)
  moreover have "(q, q) \<in> set (zip (ss_bits s) (ss_bits s))" using q(1) by (simp add: zip_same_conv_map)
  ultimately have "((k, q), q) \<in> pairs st" using in_pairs [OF t(2), of q q] by simp
  from closed_reaches [OF cl this q(2) p] obtain w where "w \<in> set (wk_visited st)" "(p, q) \<in> pairs_of w" unfolding pairs_def by blast
  then show "(\<forall>I. required dir ix p I \<longrightarrow> q \<in> found_bits dir st \<and> (wk_evidence_cut st \<or> (\<exists>i \<in> I. (i, q) \<in> listed st))) \<and>
      (unresolved_at dir ix p \<longrightarrow> wk_gaps st \<noteq> [])"
    using cl unfolding closed_def by blast
qed

end
