(* ===== verification/Cq_Path_Laws.thy ===== *)
theory Cq_Path_Laws
  imports Cq_Path
begin

text \<open>
  The breadth-first search of \<open>query_path\<close>: what its queue, its visited states and its predecessors
  are at every turn, and from it that a path it reports is a shortest one and that it finds one
  whenever there is one.
\<close>

section \<open>States\<close>

definition sel :: "state_key \<Rightarrow> signal_selection" where
  "sel s = \<lparr>ss_symbol = snd (fst s), ss_bits = snd s, ss_path = Some (fst (fst s))\<rparr>"

lemma sel_simps [simp]: "ss_symbol (sel s) = snd (fst s)" "ss_bits (sel s) = snd s" "ss_path (sel s) = Some (fst (fst s))"
  "endpoint_key (sel s) = Inr (fst s)" "state_of (sel s) = Inr s" "sel s = sel t \<longleftrightarrow> s = t"
  by (auto simp: sel_def endpoint_key_def state_of_def prod_eq_iff)

lemma state_of_sel: "state_of d = Inr s \<longleftrightarrow> d = sel s"
  by (cases d, cases "ss_path d") (auto simp: state_of_def endpoint_key_def sel_def)

text \<open>The index as a graph: a step from a state along one of its edges.\<close>

definition step :: "index \<Rightarrow> state_key \<Rightarrow> path_edge \<Rightarrow> state_key \<Rightarrow> bool" where
  "step ix s e t \<longleftrightarrow> (fst s, e) \<in> set (ix_paths ix) \<and> overlaps (ss_bits (pe_source e)) (snd s) \<and> follow_edge (sel s) e = Inr (sel t)"

fun reach :: "index \<Rightarrow> state_key \<Rightarrow> nat \<Rightarrow> state_key \<Rightarrow> bool" where
  "reach ix s 0 t = (s = t)"
| "reach ix s (Suc n) t = (\<exists>u e. reach ix s n u \<and> step ix u e t)"

definition dist :: "index \<Rightarrow> state_key \<Rightarrow> state_key \<Rightarrow> nat" where
  "dist ix s t = (LEAST n. reach ix s n t)"

definition reachable :: "index \<Rightarrow> state_key \<Rightarrow> state_key \<Rightarrow> bool" where
  "reachable ix s t \<longleftrightarrow> (\<exists>n. reach ix s n t)"

lemma reach_dist: "reachable ix s t \<Longrightarrow> reach ix s (dist ix s t) t"
  unfolding dist_def reachable_def by (rule LeastI_ex)

lemma dist_le: "reach ix s n t \<Longrightarrow> dist ix s t \<le> n"
  unfolding dist_def by (rule Least_le)

lemma dist_self [simp]: "dist ix s s = 0"
  using dist_le [of ix s 0 s] by simp

lemma reachable_self: "reachable ix s s"
  unfolding reachable_def by (rule exI [of _ 0]) simp

lemma step_reachable: "reachable ix s u \<Longrightarrow> step ix u e t \<Longrightarrow> reachable ix s t \<and> dist ix s t \<le> Suc (dist ix s u)"
  using reach_dist dist_le unfolding reachable_def by (metis reach.simps(2))

lemma dist_Suc:
  assumes "reachable ix s t" "dist ix s t = Suc n"
  shows "\<exists>u e. reachable ix s u \<and> dist ix s u = n \<and> step ix u e t"
proof -
  obtain u e where u: "reach ix s n u" "step ix u e t" using reach_dist [OF assms(1)] assms(2) by auto
  then have r: "reachable ix s u" by (auto simp: reachable_def)
  then have "dist ix s u = n" using step_reachable [OF r u(2)] dist_le [OF u(1)] assms(2) by simp
  then show ?thesis using r u by blast
qed

lemma dist_0: "reachable ix s t \<Longrightarrow> dist ix s t = 0 \<Longrightarrow> t = s"
  using reach_dist by fastforce

section \<open>The invariant\<close>

text \<open>
  \<open>finished\<close> are the states whose edges have all been looked at. The first component speaks of the start
  \<open>a\<close>, the goal test and the distances; \<open>level\<close> is the distance of the states at the head.
\<close>

definition meets :: "signal_selection \<Rightarrow> state_key \<Rightarrow> bool" where
  "meets goal s \<longleftrightarrow> same_endpoint (sel s) goal = Inr True"

definition told :: "index \<Rightarrow> state_key \<Rightarrow> (state_key \<times> state_key \<times> hop) list \<Rightarrow> state_key \<Rightarrow> bool" where
  "told ix a preds s \<longleftrightarrow> reachable ix a s \<and> dist ix a s \<le> length preds \<and>
     (s \<noteq> a \<longrightarrow> (\<exists>u e. map_of preds s = Some (u, public_edge e (sel u) (sel s)) \<and> step ix u e s \<and>
        reachable ix a u \<and> dist ix a s = Suc (dist ix a u) \<and> (u = a \<or> map_of preds u \<noteq> None)))"

definition bfs_inv :: "index \<Rightarrow> signal_selection \<Rightarrow> state_key \<Rightarrow> nat \<Rightarrow> state_key set \<Rightarrow> state_key list \<Rightarrow> bfs \<Rightarrow> bool" where
  "bfs_inv ix goal a level finished qs st \<longleftrightarrow>
     bf_queue st = map sel qs \<and> a \<in> set (bf_visited st) \<and>
     (\<forall>s \<in> set (bf_visited st). told ix a (bf_pred st) s \<and> \<not> meets goal s) \<and>
     (\<forall>s. map_of (bf_pred st) s \<noteq> None \<longrightarrow> s \<in> set (bf_visited st)) \<and> map_of (bf_pred st) a = None \<and>
     set qs \<subseteq> set (bf_visited st) \<and>
     (\<forall>s \<in> set (bf_visited st). s \<in> finished \<or> s \<in> set qs \<or> dist ix a s = level) \<and>
     (\<forall>s \<in> finished. \<forall>e t. step ix s e t \<longrightarrow> t \<in> set (bf_visited st)) \<and>
     (\<forall>s \<in> set qs. level \<le> dist ix a s \<and> dist ix a s \<le> Suc level) \<and> sorted (map (dist ix a) qs)"


lemma bfs_inv_visited:
  assumes "bfs_inv ix goal a level fin qs st"
  shows "a \<in> set (bf_visited st)" "s \<in> set (bf_visited st) \<Longrightarrow> told ix a (bf_pred st) s" "s \<in> set (bf_visited st) \<Longrightarrow> \<not> meets goal s"
    "map_of (bf_pred st) s \<noteq> None \<Longrightarrow> s \<in> set (bf_visited st)" "map_of (bf_pred st) a = None"
  using assms by (simp_all only: bfs_inv_def) blast+

lemma complete_below:
  assumes inv: "bfs_inv ix goal a level fin qs st" and t: "reachable ix a t" "dist ix a t \<le> level"
  shows "t \<in> set (bf_visited st)"
  using t
proof (induction "dist ix a t" arbitrary: t)
  case 0
  then show ?case using dist_0 bfs_inv_visited(1) [OF inv] by metis
next
  case (Suc n)
  obtain u e where u: "reachable ix a u" "dist ix a u = n" "step ix u e t" using dist_Suc [OF Suc.prems(1)] Suc.hyps(2) by metis
  then have v: "u \<in> set (bf_visited st)" using Suc.hyps Suc.prems(2) by simp
  have "dist ix a u < level" using u(2) Suc.hyps(2) Suc.prems(2) by simp
  moreover have "\<forall>s \<in> set qs. level \<le> dist ix a s" "\<forall>s \<in> set (bf_visited st). s \<in> fin \<or> s \<in> set qs \<or> dist ix a s = level"
    using inv unfolding bfs_inv_def by blast+
  ultimately have "u \<in> fin" using v by force
  then show ?case using inv u(3) unfolding bfs_inv_def by blast
qed

lemma update_fresh: "map_of kvs k = None \<Longrightarrow> AList.update k v kvs = kvs @ [(k, v)]"
  by (induction kvs) auto

lemma told_mono:
  assumes "told ix a preds s" "map_of preds k = None"
  shows "told ix a (preds @ [(k, v)]) s"
proof -
  let ?p = "preds @ [(k, v)]"
  have keep: "map_of ?p x = Some y" if "map_of preds x = Some y" for x y
    using that by (simp add: map_add_def)
  have "\<exists>u e. map_of ?p s = Some (u, public_edge e (sel u) (sel s)) \<and> step ix u e s \<and> reachable ix a u \<and>
      dist ix a s = Suc (dist ix a u) \<and> (u = a \<or> map_of ?p u \<noteq> None)" if ne: "s \<noteq> a"
  proof -
    obtain u e where u: "map_of preds s = Some (u, public_edge e (sel u) (sel s))" "step ix u e s" "reachable ix a u"
      "dist ix a s = Suc (dist ix a u)" "u = a \<or> map_of preds u \<noteq> None"
      using assms(1) ne unfolding told_def by blast
    have "u = a \<or> map_of ?p u \<noteq> None" using u(5) by (cases "map_of preds u") (simp_all add: keep)
    then show ?thesis using u(2-4) keep [OF u(1)] by blast
  qed
  then show ?thesis using assms(1) unfolding told_def by simp
qed

lemma told_new:
  assumes "told ix a preds c" "step ix c e s" "dist ix a s = Suc (dist ix a c)" "map_of preds s = None" "c = a \<or> map_of preds c \<noteq> None"
  shows "told ix a (preds @ [(s, c, public_edge e (sel c) (sel s))]) s"
proof -
  have r: "reachable ix a c" "dist ix a c \<le> length preds" using assms(1) by (simp_all add: told_def)
  then have reach: "reachable ix a s" using step_reachable assms(2) by blast
  let ?preds = "preds @ [(s, c, public_edge e (sel c) (sel s))]"
  have "map_of ?preds s = Some (c, public_edge e (sel c) (sel s))" using assms(4) by (simp add: map_add_def)
  moreover have "c = a \<or> map_of ?preds c \<noteq> None" using assms(5) by (cases "map_of preds c") (simp_all add: map_add_def)
  moreover have "dist ix a s \<le> length ?preds" using assms(3) r(2) by simp
  ultimately show ?thesis using assms(2,3) r(1) reach
    unfolding told_def by (intro conjI impI exI [of _ c] exI [of _ e]) assumption+
qed

text \<open>One edge of a state \<open>c\<close> of the present level.\<close>

definition going :: "index \<Rightarrow> signal_selection \<Rightarrow> state_key \<Rightarrow> state_key set \<Rightarrow> state_key list \<Rightarrow> bfs \<Rightarrow> state_key \<Rightarrow> bool" where
  "going ix goal a fin qs st c \<longleftrightarrow> bfs_inv ix goal a (dist ix a c) fin qs st \<and> c \<in> set (bf_visited st)"

lemma next_level:
  assumes g: "going ix goal a fin qs st c" and s: "step ix c e s" "s \<notin> set (bf_visited st)"
  shows "reachable ix a s" "dist ix a s = Suc (dist ix a c)" "map_of (bf_pred st) s = None" "c = a \<or> map_of (bf_pred st) c \<noteq> None"
proof -
  have inv: "bfs_inv ix goal a (dist ix a c) fin qs st" and c: "c \<in> set (bf_visited st)" using g by (simp_all add: going_def)
  note v = bfs_inv_visited [OF inv]
  have told: "told ix a (bf_pred st) c" using v(2) c by blast
  then have r: "reachable ix a c" by (simp add: told_def)
  show "reachable ix a s" using step_reachable r s(1) by blast
  then show "dist ix a s = Suc (dist ix a c)"
    using step_reachable [OF r s(1)] complete_below [OF inv, of s] s(2) by fastforce
  show "map_of (bf_pred st) s = None" using v(4) s(2) by blast
  show "c = a \<or> map_of (bf_pred st) c \<noteq> None" using told by (auto simp: told_def)
qed

lemma take_edge_going:
  assumes g: "going ix goal a fin qs st c" and t: "take_edge goal (sel c) c e st = Inr (Going st')"
    and e: "(fst c, e) \<in> set (ix_paths ix)" "overlaps (ss_bits (pe_source e)) (snd c)"
  shows "\<exists>new. going ix goal a fin (qs @ new) st' c \<and> set (bf_visited st') = set (bf_visited st) \<union> set new \<and>
    bf_cut st' = bf_cut st \<and> (\<forall>s. step ix c e s \<longrightarrow> s \<in> set (bf_visited st'))"
proof -
  obtain d s met where d: "follow_edge (sel c) e = Inr d" "state_of d = Inr s" "same_endpoint d goal = Inr met" "\<not> met"
    using t by (auto simp: take_edge_def ebind_Inr_iff Let_def split: if_splits)
  then have ds: "d = sel s" by (simp add: state_of_sel)
  then have st: "step ix c e s" using d e by (simp add: step_def)
  have only: "u = s" if "step ix c e u" for u using that d(1) ds by (simp add: step_def)
  have nm: "\<not> meets goal s" using d ds by (simp add: meets_def)
  have inv: "bfs_inv ix goal a (dist ix a c) fin qs st" and c: "c \<in> set (bf_visited st)" using g by (simp_all add: going_def)
  show ?thesis
  proof (cases "s \<in> set (bf_visited st)")
    case True
    then have "bf_queue st' = bf_queue st" "bf_visited st' = bf_visited st" "bf_pred st' = bf_pred st" "bf_cut st' = bf_cut st"
      using t d by (auto simp: take_edge_def ebind_Inr_iff Let_def)
    moreover from this have "going ix goal a fin qs st' c" using g unfolding going_def bfs_inv_def by simp
    ultimately show ?thesis using True only by (intro exI [of _ "[]"]) auto
  next
    case False
    note n = next_level [OF g st False]
    let ?preds = "bf_pred st @ [(s, c, public_edge e (sel c) (sel s))]"
    have f: "bf_queue st' = bf_queue st @ [sel s]" "bf_visited st' = bf_visited st @ [s]" "bf_pred st' = ?preds" "bf_cut st' = bf_cut st"
      using t d False ds by (auto simp: take_edge_def ebind_Inr_iff Let_def update_fresh [OF n(3)])
    note v = bfs_inv_visited [OF inv]
    have told: "told ix a ?preds x" if "x \<in> set (bf_visited st')" for x
    proof (cases "x = s")
      case True
      then show ?thesis using told_new [OF v(2) [OF c] st n(2-4)] by simp
    next
      case False
      then have "x \<in> set (bf_visited st)" using that by (simp add: f)
      then show ?thesis by (intro told_mono [OF v(2) n(3)])
    qed
    have dom: "x \<in> set (bf_visited st')" if "map_of ?preds x \<noteq> None" for x
      using that v(4) by (auto simp: f map_add_def split: option.splits if_splits)
    have "s \<noteq> a" using False v(1) by blast
    then have start: "map_of ?preds a = None" using v(5) by (simp add: map_add_def)
    have q: "sorted (map (dist ix a) (qs @ [s]))" "\<forall>x \<in> set (qs @ [s]). dist ix a c \<le> dist ix a x \<and> dist ix a x \<le> Suc (dist ix a c)"
      using inv n(2) unfolding bfs_inv_def by (auto simp: sorted_append)
    have "bfs_inv ix goal a (dist ix a c) fin (qs @ [s]) st'"
      unfolding bfs_inv_def f(1,3)
      using inv told dom start q nm v(1) by (auto simp: f bfs_inv_def)
    then have "going ix goal a fin (qs @ [s]) st' c" using c f by (simp add: going_def)
    then show ?thesis using f only by (intro exI [of _ "[s]"]) auto
  qed
qed

lemma take_edge_met:
  assumes g: "going ix goal a fin qs st c" and t: "take_edge goal (sel c) c e st = Inr (Met s st')"
    and e: "(fst c, e) \<in> set (ix_paths ix)" "overlaps (ss_bits (pe_source e)) (snd c)"
  shows "meets goal s" "reachable ix a s" "dist ix a s = Suc (dist ix a c)"
    "\<forall>x. x = a \<or> map_of (bf_pred st') x \<noteq> None \<longrightarrow> told ix a (bf_pred st') x" "map_of (bf_pred st') s \<noteq> None"
proof -
  obtain d where d: "follow_edge (sel c) e = Inr d" "state_of d = Inr s" "same_endpoint d goal = Inr True"
    using t by (auto simp: take_edge_def ebind_Inr_iff Let_def split: if_splits)
  then have ds: "d = sel s" by (simp add: state_of_sel)
  then have st: "step ix c e s" using d e by (simp add: step_def)
  show m: "meets goal s" using d ds by (simp add: meets_def)
  have inv: "bfs_inv ix goal a (dist ix a c) fin qs st" and c: "c \<in> set (bf_visited st)" using g by (simp_all add: going_def)
  note v = bfs_inv_visited [OF inv]
  have new: "s \<notin> set (bf_visited st)" using v(3) m by blast
  note n = next_level [OF g st new]
  show "reachable ix a s" "dist ix a s = Suc (dist ix a c)" by (fact n)+
  have p: "bf_pred st' = bf_pred st @ [(s, c, public_edge e (sel c) (sel s))]"
    using t d ds n(3) by (auto simp: take_edge_def ebind_Inr_iff Let_def)
  show "map_of (bf_pred st') s \<noteq> None" using n(3) by (simp add: p map_add_def)
  show "\<forall>x. x = a \<or> map_of (bf_pred st') x \<noteq> None \<longrightarrow> told ix a (bf_pred st') x"
  proof (intro allI impI)
    fix x assume x: "x = a \<or> map_of (bf_pred st') x \<noteq> None"
    show "told ix a (bf_pred st') x"
    proof (cases "x = s")
      case True
      then show ?thesis using told_new [OF v(2) [OF c] st n(2-4)] p by simp
    next
      case False
      then have "x = a \<or> map_of (bf_pred st) x \<noteq> None" using x by (simp add: p map_add_def split: option.splits)
      then have "x \<in> set (bf_visited st)" using v(1,4) by blast
      then show ?thesis using told_mono [OF v(2) n(3)] p by simp
    qed
  qed
qed


section \<open>A state, and the whole search\<close>

lemma going_frame:
  "going ix goal a fin qs st c \<Longrightarrow> bf_queue st' = bf_queue st \<Longrightarrow> bf_visited st' = bf_visited st \<Longrightarrow> bf_pred st' = bf_pred st \<Longrightarrow>
    going ix goal a fin qs st' c"
  unfolding going_def bfs_inv_def by simp

definition found :: "index \<Rightarrow> signal_selection \<Rightarrow> state_key \<Rightarrow> state_key \<Rightarrow> bfs \<Rightarrow> bool" where
  "found ix goal a s st \<longleftrightarrow> meets goal s \<and> reachable ix a s \<and> (\<forall>t. reachable ix a t \<and> meets goal t \<longrightarrow> dist ix a s \<le> dist ix a t) \<and>
     (\<forall>x. x = a \<or> map_of (bf_pred st) x \<noteq> None \<longrightarrow> told ix a (bf_pred st) x) \<and> map_of (bf_pred st) s \<noteq> None"

lemma met_found:
  assumes g: "going ix goal a fin qs st c" and t: "take_edge goal (sel c) c e st = Inr (Met s st')"
    and e: "(fst c, e) \<in> set (ix_paths ix)" "overlaps (ss_bits (pe_source e)) (snd c)"
  shows "found ix goal a s st'"
proof -
  note m = take_edge_met [OF assms]
  have inv: "bfs_inv ix goal a (dist ix a c) fin qs st" using g by (simp add: going_def)
  have "Suc (dist ix a c) \<le> dist ix a t" if "reachable ix a t" "meets goal t" for t
    using complete_below [OF inv that(1)] bfs_inv_visited(3) [OF inv, of t] that(2) by (meson not_less_eq_eq)
  then show ?thesis using m unfolding found_def by simp
qed

lemma scan_edges_inv:
  assumes "going ix goal a fin qs st c" "\<forall>e \<in> set es. (fst c, e) \<in> set (ix_paths ix)" "scan_edges limit goal (sel c) c es st = Inr r"
  shows "(\<forall>s st'. r = Met s st' \<longrightarrow> found ix goal a s st') \<and>
    (\<forall>st'. r = Going st' \<longrightarrow> (\<exists>new. going ix goal a fin (qs @ new) st' c \<and> set (bf_visited st') = set (bf_visited st) \<union> set new) \<and>
      (\<not> bf_cut st' \<longrightarrow> (\<forall>e \<in> set es. \<forall>s. step ix c e s \<longrightarrow> s \<in> set (bf_visited st'))))"
  using assms
proof (induction es arbitrary: st qs)
  case Nil
  then show ?case by (auto intro: exI [of _ "[]"])
next
  case (Cons e es)
  consider (skip) "\<not> overlaps (ss_bits (pe_source e)) (snd c)" | (cut) "overlaps (ss_bits (pe_source e)) (snd c)" "limit \<le> bf_count st"
    | (take) "overlaps (ss_bits (pe_source e)) (snd c)" "bf_count st < limit" by linarith
  then show ?case
  proof cases
    case skip
    then have "\<not> step ix c e s" for s by (simp add: step_def)
    then show ?thesis using Cons.IH [OF Cons.prems(1)] Cons.prems(2,3) skip by simp
  next
    case cut
    then have r: "r = Going (st\<lparr>bf_cut := True\<rparr>)" using Cons.prems(3) by simp
    have "going ix goal a fin (qs @ []) (st\<lparr>bf_cut := True\<rparr>) c" using going_frame [OF Cons.prems(1)] by simp
    then show ?thesis using r by (intro conjI allI impI exI [of _ "[]"]) auto
  next
    case take
    have e: "(fst c, e) \<in> set (ix_paths ix)" using Cons.prems(2) by simp
    obtain r1 where r1: "take_edge goal (sel c) c e st = Inr r1"
      "(case r1 of Met s st' \<Rightarrow> Inr (Met s st') | Going st' \<Rightarrow> scan_edges limit goal (sel c) c es st') = Inr r"
      using Cons.prems(3) take by (auto simp: ebind_Inr_iff)
    show ?thesis
    proof (cases r1)
      case (Met s st')
      then show ?thesis using met_found [OF Cons.prems(1) _ e take(1)] r1 by auto
    next
      case (Going st1)
      obtain new where 1: "going ix goal a fin (qs @ new) st1 c" "set (bf_visited st1) = set (bf_visited st) \<union> set new"
        "\<forall>s. step ix c e s \<longrightarrow> s \<in> set (bf_visited st1)"
        using take_edge_going [OF Cons.prems(1) _ e take(1)] r1(1) Going by blast
      have 2: "(\<forall>s st'. r = Met s st' \<longrightarrow> found ix goal a s st') \<and>
        (\<forall>st'. r = Going st' \<longrightarrow> (\<exists>new'. going ix goal a fin ((qs @ new) @ new') st' c \<and> set (bf_visited st') = set (bf_visited st1) \<union> set new') \<and>
          (\<not> bf_cut st' \<longrightarrow> (\<forall>e \<in> set es. \<forall>s. step ix c e s \<longrightarrow> s \<in> set (bf_visited st'))))"
        using Cons.IH [OF 1(1)] Cons.prems(2) r1(2) Going by simp
      show ?thesis
      proof (intro conjI allI impI)
        fix s st' assume "r = Met s st'" then show "found ix goal a s st'" using 2 by blast
      next
        fix st' assume r: "r = Going st'"
        then obtain new' where n: "going ix goal a fin ((qs @ new) @ new') st' c" "set (bf_visited st') = set (bf_visited st1) \<union> set new'"
          using 2 by blast
        show "\<exists>new. going ix goal a fin (qs @ new) st' c \<and> set (bf_visited st') = set (bf_visited st) \<union> set new"
          using n 1(2) by (intro exI [of _ "new @ new'"]) auto
        show "\<forall>e \<in> set (e # es). \<forall>s. step ix c e s \<longrightarrow> s \<in> set (bf_visited st')" if "\<not> bf_cut st'"
          using 2 r that 1(3) n(2) by auto
      qed
    qed
  qed
qed

definition loop_inv :: "index \<Rightarrow> signal_selection \<Rightarrow> state_key \<Rightarrow> state_key set \<Rightarrow> state_key list \<Rightarrow> bfs \<Rightarrow> bool" where
  "loop_inv ix goal a fin qs st \<longleftrightarrow> (\<exists>level. bfs_inv ix goal a level fin qs st \<and> (qs \<noteq> [] \<longrightarrow> level = dist ix a (hd qs))) \<and>
     set (bf_visited st) \<subseteq> fin \<union> set qs"

lemma bfs_turn_inv:
  assumes l: "loop_inv ix goal a fin (c # qs) st" and t: "bfs_turn ix limit goal (sel c) st = Inr r"
  shows "(\<forall>s st'. r = Met s st' \<longrightarrow> found ix goal a s st') \<and>
    (\<forall>st'. r = Going st' \<and> \<not> bf_cut st' \<longrightarrow> (\<exists>qs'. loop_inv ix goal a (insert c fin) qs' st'))"
proof -
  have inv: "bfs_inv ix goal a (dist ix a c) fin (c # qs) st" using l by (auto simp: loop_inv_def)
  define st0 where "st0 = st\<lparr>bf_queue := tl (bf_queue st), bf_touched := selection_path (sel c) False # bf_touched st,
      bf_gaps := fold add_gap (exclusion_gaps ix (fst c) (sel c)) (bf_gaps st)\<rparr>"
  let ?es = "lookup path_edge_key (ix_paths ix) (fst c)"
  have scan: "scan_edges limit goal (sel c) c ?es st0 = Inr r" using t by (simp add: bfs_turn_def st0_def)
  have f: "bf_queue st0 = map sel qs" "bf_visited st0 = bf_visited st" "bf_pred st0 = bf_pred st"
    using inv by (simp_all add: st0_def bfs_inv_def)
  have "c \<in> set (bf_visited st)" using inv by (simp add: bfs_inv_def)
  moreover have "bfs_inv ix goal a (dist ix a c) fin qs st0"
    using inv unfolding bfs_inv_def f by auto
  ultimately have g: "going ix goal a fin qs st0 c" by (simp add: going_def f)
  note s = scan_edges_inv [OF g _ scan]
  show ?thesis
  proof (intro conjI allI impI)
    fix s st' assume "r = Met s st'" then show "found ix goal a s st'" using s by auto
  next
    fix st' assume r: "r = Going st' \<and> \<not> bf_cut st'"
    then obtain new where n: "going ix goal a fin (qs @ new) st' c" "set (bf_visited st') = set (bf_visited st0) \<union> set new"
      "\<forall>e \<in> set ?es. \<forall>s. step ix c e s \<longrightarrow> s \<in> set (bf_visited st')"
      using s by auto
    have closed: "t \<in> set (bf_visited st')" if "step ix c e t" for e t
    proof -
      have "e \<in> set ?es" using that by (simp add: step_def)
      then show ?thesis using n(3) that by blast
    qed
    have cover: "set (bf_visited st') \<subseteq> insert c fin \<union> set (qs @ new)"
      using l n(2) by (auto simp: loop_inv_def f)
    have inv': "bfs_inv ix goal a (dist ix a c) fin (qs @ new) st'" using n(1) by (simp add: going_def)
    define level where "level = (if qs @ new = [] then dist ix a c else dist ix a (hd (qs @ new)))"
    have q: "\<forall>s \<in> set (qs @ new). dist ix a c \<le> dist ix a s \<and> dist ix a s \<le> Suc (dist ix a c)" "sorted (map (dist ix a) (qs @ new))"
      using inv' unfolding bfs_inv_def by blast+
    have "\<forall>s \<in> set (qs @ new). level \<le> dist ix a s \<and> dist ix a s \<le> Suc level"
    proof (cases "qs @ new")
      case (Cons x xs)
      then show ?thesis using q unfolding level_def by (auto intro: order_trans)
    qed simp
    then have "bfs_inv ix goal a level (insert c fin) (qs @ new) st'"
      using inv' closed cover unfolding bfs_inv_def by blast
    then have "loop_inv ix goal a (insert c fin) (qs @ new) st'"
      using cover unfolding loop_inv_def level_def by auto
    then show "\<exists>qs'. loop_inv ix goal a (insert c fin) qs' st'" by blast
  qed
qed

lemma loop_inv_queue: "loop_inv ix goal a fin qs st \<Longrightarrow> bf_queue st = map sel qs"
  by (auto simp: loop_inv_def bfs_inv_def)

lemma loop_inv_closed:
  assumes "loop_inv ix goal a fin [] st" "reachable ix a t" shows "\<not> meets goal t"
proof -
  have c: "set (bf_visited st) \<subseteq> fin" "a \<in> set (bf_visited st)" "\<forall>s \<in> fin. \<forall>e t. step ix s e t \<longrightarrow> t \<in> set (bf_visited st)"
    "\<forall>s \<in> set (bf_visited st). \<not> meets goal s"
    using assms(1) unfolding loop_inv_def bfs_inv_def by auto
  have "t \<in> set (bf_visited st)" if "reach ix a n t" for n t
    using that
  proof (induction n arbitrary: t)
    case (Suc n)
    then obtain u e where u: "reach ix a n u" "step ix u e t" by (simp only: reach.simps) blast
    then have "u \<in> fin" using Suc.IH c(1) by blast
    then show ?case using c(3) u(2) by blast
  qed (use c(2) in simp)
  then show ?thesis using assms(2) c(4) unfolding reachable_def by blast
qed

theorem bfs_loop_inv:
  assumes "loop_inv ix goal a fin qs st" "\<not> bf_cut st" "bfs_loop ix limit goal st = Inr r"
  shows "(\<forall>s st'. r = Met s st' \<longrightarrow> found ix goal a s st') \<and>
    (\<forall>st'. r = Going st' \<and> \<not> bf_cut st' \<longrightarrow> (\<forall>t. reachable ix a t \<longrightarrow> \<not> meets goal t))"
  using assms
proof (induction ix limit goal st arbitrary: fin qs rule: bfs_loop.induct)
  case (1 ix limit goal st)
  note q = loop_inv_queue [OF "1.prems"(1)]
  show ?case
  proof (cases qs)
    case Nil
    then have "r = Going st" using "1.prems"(3) q by (simp add: bfs_loop.simps [of ix limit goal st])
    then show ?thesis using loop_inv_closed "1.prems"(1) Nil by auto
  next
    case (Cons c qs')
    have hd: "hd (bf_queue st) = sel c" "bf_queue st \<noteq> []" using q Cons by simp_all
    have l: "(case bfs_turn ix limit goal (sel c) st of Inl e \<Rightarrow> Inl e | Inr (Met s st') \<Rightarrow> Inr (Met s st')
        | Inr (Going st') \<Rightarrow> bfs_loop ix limit goal st') = Inr r"
      using "1.prems"(2,3) hd by (simp add: bfs_loop.simps [of ix limit goal st])
    then obtain r1 where r1: "bfs_turn ix limit goal (sel c) st = Inr r1" by (cases "bfs_turn ix limit goal (sel c) st") auto
    note t = bfs_turn_inv [OF "1.prems"(1) [unfolded Cons] r1]
    show ?thesis
    proof (cases r1)
      case (Met s st')
      then show ?thesis using l r1 t by auto
    next
      case (Going st1)
      then have l1: "bfs_loop ix limit goal st1 = Inr r" using l r1 by simp
      show ?thesis
      proof (cases "bf_cut st1")
        case True
        then have "r = Going st1" using l1 by (simp add: bfs_loop.simps [of ix limit goal st1])
        then show ?thesis using True by auto
      next
        case False
        then obtain qs1 where "loop_inv ix goal a (insert c fin) qs1 st1" using t Going by blast
        then show ?thesis using "1.IH" [OF _ _ Going] "1.prems"(2) hd r1 Going False l1 by auto
      qed
    qed
  qed
qed


section \<open>The path that is reported\<close>

fun chain :: "index \<Rightarrow> state_key \<Rightarrow> hop list \<Rightarrow> state_key \<Rightarrow> bool" where
  "chain ix s [] t = (s = t)"
| "chain ix s (h # hs) t = (\<exists>e u. step ix s e u \<and> h = public_edge e (sel s) (sel u) \<and> chain ix u hs t)"

lemma chain_append: "chain ix s (xs @ ys) t = (\<exists>u. chain ix s xs u \<and> chain ix u ys t)"
proof (induction xs arbitrary: s)
  case (Cons x xs)
  show ?case unfolding append_Cons chain.simps Cons by blast
qed simp

lemma chain_snoc: "chain ix s (xs @ [h]) t = (\<exists>u e. chain ix s xs u \<and> step ix u e t \<and> h = public_edge e (sel u) (sel t))"
  unfolding chain_append chain.simps by blast

lemma reach_chain: "reach ix s n t \<longleftrightarrow> (\<exists>hops. length hops = n \<and> chain ix s hops t)"
proof (induction n arbitrary: t)
  case (Suc n)
  have "reach ix s (Suc n) t \<longleftrightarrow> (\<exists>hops h. length hops = n \<and> chain ix s (hops @ [h]) t)"
    unfolding reach.simps Suc chain_snoc by blast
  also have "\<dots> \<longleftrightarrow> (\<exists>hops. length hops = Suc n \<and> chain ix s hops t)"
    unfolding length_Suc_conv_rev by blast
  finally show ?case .
qed auto

lemma reconstruct_chain:
  assumes told: "\<forall>x. x = a \<or> map_of preds x \<noteq> None \<longrightarrow> told ix a preds x"
    and s: "s = a \<or> map_of preds s \<noteq> None" "dist ix a s \<le> n"
  shows "\<exists>hops. reconstruct n a preds s = Inr hops \<and> chain ix a hops s \<and> length hops = dist ix a s"
  using s
proof (induction n arbitrary: s)
  case 0
  then have "s = a" using told dist_0 unfolding told_def by (metis le_zero_eq)
  then show ?case by simp
next
  case (Suc n)
  show ?case
  proof (cases "s = a")
    case False
    then obtain u e where u: "map_of preds s = Some (u, public_edge e (sel u) (sel s))" "step ix u e s"
      "dist ix a s = Suc (dist ix a u)" "u = a \<or> map_of preds u \<noteq> None"
      using told Suc.prems(1) unfolding told_def by blast
    then obtain hops where h: "reconstruct n a preds u = Inr hops" "chain ix a hops u" "length hops = dist ix a u"
      using Suc.IH [of u] Suc.prems(2) by auto
    have "chain ix a (hops @ [public_edge e (sel u) (sel s)]) s" unfolding chain_snoc using h(2) u(2) by blast
    then show ?thesis using u h False by simp
  qed simp
qed

text \<open>What \<open>path_search\<close> returns.\<close>

definition bfs_init :: "state_key \<Rightarrow> signal_selection \<Rightarrow> bfs" where
  "bfs_init a goal = \<lparr>bf_queue = [sel a], bf_visited = [a], bf_pred = [],
     bf_touched = [selection_path (sel a) False, selection_path goal False], bf_gaps = [], bf_count = 0, bf_cut = False\<rparr>"

lemma loop_inv_init: "\<not> meets goal a \<Longrightarrow> loop_inv ix goal a {} [a] (bfs_init a goal)"
  by (simp add: loop_inv_def bfs_inv_def bfs_init_def told_def reachable_self)

theorem path_search_shortest:
  assumes "path_search ir ix (sel a) goal limit output = Inr r" "\<not> meets goal a"
  shows "pr_status r = PathFound \<Longrightarrow> \<exists>t. chain ix a (pr_path r) t \<and> meets goal t \<and>
      (\<forall>hops u. chain ix a hops u \<and> meets goal u \<longrightarrow> length (pr_path r) \<le> length hops)"
    "pr_status r = PathNotConnected \<Longrightarrow> \<not> (\<exists>hops u. chain ix a hops u \<and> meets goal u)"
    "pr_status r \<in> {PathFound, PathTruncated, PathNotConnected, PathInconclusive}"
    "pr_status r = PathNotConnected \<Longrightarrow> pr_coverage r = CovComplete"
proof -
  obtain x where x: "bfs_loop ix limit goal (bfs_init a goal) = Inr x"
    "(case x of Met s st \<Rightarrow> ebind (reconstruct (length (bf_pred st)) a (bf_pred st) s) (\<lambda>hops. Inr (found_result ir (sel a) goal output s hops st))
      | Going st \<Rightarrow> Inr (missing_result ir (sel a) goal st)) = Inr r"
    using assms(1) by (auto simp: path_search_def bfs_init_def ebind_Inr_iff)
  have c0: "\<not> bf_cut (bfs_init a goal)" by (simp add: bfs_init_def)
  note l = bfs_loop_inv [OF loop_inv_init [OF assms(2)] c0 x(1)]
  show "pr_status r \<in> {PathFound, PathTruncated, PathNotConnected, PathInconclusive}"
    using x(2) by (auto simp: ebind_Inr_iff found_result_def missing_result_def Let_def split: scan.splits if_splits)
  show "pr_coverage r = CovComplete" if "pr_status r = PathNotConnected"
    using x(2) that by (cases x) (auto simp: ebind_Inr_iff found_result_def missing_result_def Let_def split: if_splits)
  show "\<exists>t. chain ix a (pr_path r) t \<and> meets goal t \<and> (\<forall>hops u. chain ix a hops u \<and> meets goal u \<longrightarrow> length (pr_path r) \<le> length hops)"
    if f: "pr_status r = PathFound"
  proof (cases x)
    case (Met s st)
    then have found: "found ix goal a s st" using l by blast
    obtain hops where h: "reconstruct (length (bf_pred st)) a (bf_pred st) s = Inr hops" "r = found_result ir (sel a) goal output s hops st"
      using x(2) Met by (auto simp: ebind_Inr_iff)
    have told: "\<forall>x. x = a \<or> map_of (bf_pred st) x \<noteq> None \<longrightarrow> told ix a (bf_pred st) x" "map_of (bf_pred st) s \<noteq> None"
      using found unfolding found_def by blast+
    then have le: "dist ix a s \<le> length (bf_pred st)" unfolding told_def by blast
    obtain hops' where "reconstruct (length (bf_pred st)) a (bf_pred st) s = Inr hops'" "chain ix a hops' s" "length hops' = dist ix a s"
      using reconstruct_chain [OF told(1) disjI2 [OF told(2)] le] by blast
    then have c: "chain ix a hops s" "length hops = dist ix a s" using h(1) by simp_all
    have "pr_path r = hops" using h(2) f by (simp add: found_result_def Let_def split: if_splits)
    moreover have "dist ix a s \<le> length hs" if "chain ix a hs u" "meets goal u" for hs u
    proof -
      have r: "reach ix a (length hs) u" using that(1) reach_chain by blast
      then have "reachable ix a u" unfolding reachable_def by blast
      then have "dist ix a s \<le> dist ix a u" using found that(2) unfolding found_def by blast
      then show ?thesis using dist_le [OF r] by simp
    qed
    moreover have "meets goal s" using found unfolding found_def by blast
    ultimately show ?thesis using c by (intro exI [of _ s]) (auto simp del: split_paired_All split_paired_Ex)
  next
    case (Going st)
    then show ?thesis using x(2) f by (auto simp: missing_result_def Let_def split: if_splits)
  qed
  show "\<not> (\<exists>hops u. chain ix a hops u \<and> meets goal u)" if n: "pr_status r = PathNotConnected"
  proof (cases x)
    case (Met s st)
    then show ?thesis using x(2) n by (auto simp: ebind_Inr_iff found_result_def Let_def split: if_splits)
  next
    case (Going st)
    then have "\<not> bf_cut st" using x(2) n by (auto simp: missing_result_def Let_def split: if_splits)
    then have "\<forall>t. reachable ix a t \<longrightarrow> \<not> meets goal t" using l Going by blast
    then show ?thesis unfolding reachable_def reach_chain by blast
  qed
qed

end
