(* ===== verification/Cq_Path_Claims.thy ===== *)
theory Cq_Path_Claims
  imports Cq_Path_Laws Cq_Index_Laws
begin

text \<open>
  \<open>query_path\<close> against the IR itself: a path is a chain of port bindings and combinational data
  dependencies, followed bit by bit.
\<close>

fun ir_path :: "connectivity_ir \<Rightarrow> signal_selection \<Rightarrow> hop list \<Rightarrow> signal_selection \<Rightarrow> bool" where
  "ir_path ir s [] t \<longleftrightarrow> s = t"
| "ir_path ir s (h # hs) t \<longleftrightarrow> (\<exists>e \<in> flow_edges ir. \<exists>u. endpoint_key (pe_source e) = endpoint_key s \<and>
     overlaps (ss_bits (pe_source e)) (ss_bits s) \<and> follow_edge s e = Inr u \<and> h = public_edge e s u \<and> ir_path ir u hs t)"

lemma bound_sel: "ss_path s \<noteq> None \<Longrightarrow> \<exists>k. s = sel k"
proof -
  assume "ss_path s \<noteq> None"
  then obtain p where "state_of s = Inr ((p, ss_symbol s), ss_bits s)" by (auto simp: state_of_def endpoint_key_def)
  then show ?thesis unfolding state_of_sel by blast
qed

lemma mk_selection_Inr: "mk_selection s = Inr s' \<Longrightarrow> s' = s"
  by (simp add: mk_selection_def checked_Inr)

lemma follow_bound:
  assumes "build_index ir = Inr ix" "e \<in> flow_edges ir" "follow_edge s e = Inr u"
  shows "\<exists>k. u = sel k"
proof -
  have "ss_path u \<noteq> None" using flow_edges_bound(2) [OF assms(1,2)] assms(3)
    by (auto simp: follow_edge_def map_selection_def Let_def split: if_splits dest: mk_selection_Inr)
  then show ?thesis by (rule bound_sel)
qed

lemma step_flow:
  assumes "build_index ir = Inr ix"
  shows "step ix s e t \<longleftrightarrow> e \<in> flow_edges ir \<and> endpoint_key (pe_source e) = endpoint_key (sel s) \<and>
    overlaps (ss_bits (pe_source e)) (ss_bits (sel s)) \<and> follow_edge (sel s) e = Inr (sel t)"
  by (auto simp: step_def build_index_sets(6) [OF assms] keyed_def)

lemma chain_ir:
  assumes "build_index ir = Inr ix"
  shows "ir_path ir (sel s) hops v \<longleftrightarrow> (\<exists>t. v = sel t \<and> chain ix s hops t)"
proof (induction hops arbitrary: s)
  case Nil
  show ?case unfolding ir_path.simps chain.simps by blast
next
  case (Cons h hs)
  have "ir_path ir (sel s) (h # hs) v \<longleftrightarrow> (\<exists>e u. step ix s e u \<and> h = public_edge e (sel s) (sel u) \<and> ir_path ir (sel u) hs v)"
    (is "?l \<longleftrightarrow> ?r")
  proof
    assume ?l
    then obtain e w where e: "e \<in> flow_edges ir" "endpoint_key (pe_source e) = endpoint_key (sel s)"
      "overlaps (ss_bits (pe_source e)) (ss_bits (sel s))" "follow_edge (sel s) e = Inr w" "h = public_edge e (sel s) w" "ir_path ir w hs v"
      unfolding ir_path.simps by blast
    obtain u where u: "w = sel u" using follow_bound [OF assms e(1,4)] by blast
    then have "step ix s e u" using step_flow [OF assms] e by simp
    then show ?r using e(5,6) u by blast
  next
    assume ?r
    then show ?l unfolding ir_path.simps step_flow [OF assms] by blast
  qed
  then show ?case unfolding Cons chain.simps by blast
qed

lemma resolve_bound: "resolve_signal ir path cs = Inr s \<Longrightarrow> ss_path s \<noteq> None"
  by (auto simp: resolve_signal_def Let_def ebind_Inr_iff split: option.splits prod.splits dest!: mk_selection_Inr)

text \<open>C2. When both ends resolve: a found path is a chain of bindings and combinational data dependencies of the
  IR from the first to bits of the second, and none is shorter; and when the answer is that they are
  not connected there is no such chain at all, and the coverage is complete.\<close>

theorem path_query_exact:
  assumes "build_index ir = Inr ix" "query_path ir ix from_signal to_signal limit out = Inr r"
    "resolve_signal ir from_signal [] = Inr a" "resolve_signal ir to_signal [] = Inr b"
  shows "(pr_status r = PathFound \<longrightarrow> (\<exists>v. ir_path ir a (pr_path r) v \<and> same_endpoint v b = Inr True) \<and>
      (\<forall>hops v. ir_path ir a hops v \<and> same_endpoint v b = Inr True \<longrightarrow> length (pr_path r) \<le> length hops)) \<and>
    (pr_status r = PathNotConnected \<longrightarrow> pr_coverage r = CovComplete \<and>
      \<not> (\<exists>hops v. ir_path ir a hops v \<and> same_endpoint v b = Inr True)) \<and>
    pr_status r \<in> {PathFound, PathTruncated, PathNotConnected, PathInconclusive}"
proof -
  obtain ka where ka: "a = sel ka" using bound_sel resolve_bound [OF assms(3)] by blast
  have ends: "try_resolve ir ''from'' from_signal = Inr (Inr a)" "try_resolve ir ''to'' to_signal = Inr (Inr b)"
    using assms(3,4) by (simp_all add: try_resolve_def)
  with assms(2) obtain same where same: "same_endpoint a b = Inr same" "(if same then Inr (alias_result ir a b) else path_search ir ix a b (nat limit) (nat out)) = Inr r"
    by (auto simp: query_path_def ebind_Inr_iff)
  show ?thesis
  proof (cases same)
    case True
    then have "r = alias_result ir a b" using same(2) by simp
    then show ?thesis using same(1) True by (auto simp: alias_result_def Let_def intro!: exI [of _ a])
  next
    case False
    then have s: "path_search ir ix (sel ka) b (nat limit) (nat out) = Inr r" "\<not> meets b ka"
      using same ka by (simp_all add: meets_def)
    note p = path_search_shortest [OF s]
    have ir: "(\<exists>v. ir_path ir a hops v \<and> same_endpoint v b = Inr True) \<longleftrightarrow> (\<exists>t. chain ix ka hops t \<and> meets b t)" for hops
      unfolding ka chain_ir [OF assms(1)] meets_def by blast
    show ?thesis using p ir by metis
  qed
qed


lemma cq_ends: "resolve_signal cq_ir ''top.a[0]'' [] = Inr \<lparr>ss_symbol = ''a'', ss_bits = [0], ss_path = Some ''top''\<rparr>"
  "resolve_signal cq_ir ''top.b'' [] = Inr \<lparr>ss_symbol = ''b'', ss_bits = [1, 0], ss_path = Some ''top''\<rparr>"
  by code_simp+

lemma cq_path: "ebind (build_index cq_ir) (\<lambda>ix. ebind (query_path cq_ir ix ''top.a[0]'' ''top.b'' 100 10) (\<lambda>r.
    Inr (pr_status r, length (pr_path r)))) = Inr (PathFound, 3)"
  by code_simp

lemma path_query_exact_witness:
  "\<exists>ix r v. build_index cq_ir = Inr ix \<and> query_path cq_ir ix ''top.a[0]'' ''top.b'' 100 10 = Inr r \<and> length (pr_path r) = 3 \<and>
     ir_path cq_ir \<lparr>ss_symbol = ''a'', ss_bits = [0], ss_path = Some ''top''\<rparr> (pr_path r) v"
proof -
  obtain ix r where r: "build_index cq_ir = Inr ix" "query_path cq_ir ix ''top.a[0]'' ''top.b'' 100 10 = Inr r"
    "pr_status r = PathFound" "length (pr_path r) = 3"
    using cq_path by (auto simp: ebind_Inr_iff)
  show ?thesis using path_query_exact [OF r(1,2) cq_ends] r by blast
qed

end
