(* ===== verification/Cq_Query_Claims.thy ===== *)
theory Cq_Query_Claims
  imports Cq_Query_Laws Cq_Path_Claims
begin

text \<open>
  \<open>query_driver\<close> and \<open>query_loads\<close> against reachability in the IR: what the verdict of a bit, a
  complete driver set, a list of loads and \<open>not_connected\<close> say.
\<close>

section \<open>Deduplication\<close>

lemma keep_shorter_in: "(k, x) \<in> set (keep_shorter m kvs) \<Longrightarrow> (k, x) = (query_match_key m, m) \<or> (k, x) \<in> set kvs"
  by (auto simp: keep_shorter_def split: option.splits if_splits dest: update_from)

lemma keep_shorter_keys:
  assumes "k \<in> fst ` set kvs \<or> k = query_match_key m"
  shows "k \<in> fst ` set (keep_shorter m kvs)"
proof -
  have "fst ` set (keep_shorter m kvs) = insert (query_match_key m) (fst ` set kvs)"
  proof (cases "map_of kvs (query_match_key m)")
    case None
    then show ?thesis by (simp add: keep_shorter_def dom_update)
  next
    case (Some old)
    then have "query_match_key m \<in> fst ` set kvs" using map_of_SomeD by force
    then show ?thesis using Some by (simp add: keep_shorter_def dom_update insert_absorb)
  qed
  then show ?thesis using assms by blast
qed

definition keyed_matches :: "(match_key \<times> query_match) list \<Rightarrow> bool" where
  "keyed_matches kvs \<longleftrightarrow> (\<forall>(k, x) \<in> set kvs. k = query_match_key x)"

lemma fold_keep_shorter:
  "(keyed_matches kvs \<longrightarrow> keyed_matches (fold keep_shorter ms kvs)) \<and>
   snd ` set (fold keep_shorter ms kvs) \<subseteq> set ms \<union> snd ` set kvs \<and>
   fst ` set kvs \<union> query_match_key ` set ms \<subseteq> fst ` set (fold keep_shorter ms kvs)"
proof (induction ms arbitrary: kvs)
  case (Cons m ms)
  have a: "keyed_matches kvs \<longrightarrow> keyed_matches (keep_shorter m kvs)"
    unfolding keyed_matches_def using keep_shorter_in by blast
  have b: "snd ` set (keep_shorter m kvs) \<subseteq> insert m (snd ` set kvs)"
    using keep_shorter_in by force
  have c: "insert (query_match_key m) (fst ` set kvs) \<subseteq> fst ` set (keep_shorter m kvs)"
    using keep_shorter_keys by blast
  note IH = Cons.IH [of "keep_shorter m kvs"]
  show ?case unfolding fold_simps list.set image_insert
  proof (intro conjI)
    show "keyed_matches kvs \<longrightarrow> keyed_matches (fold keep_shorter ms (keep_shorter m kvs))" using a IH by blast
    show "snd ` set (fold keep_shorter ms (keep_shorter m kvs)) \<subseteq> insert m (set ms) \<union> snd ` set kvs"
      using conjunct1 [OF conjunct2 [OF IH]] b by (rule order_trans [OF _ Un_mono [OF order_refl], THEN order_trans]) auto
    show "fst ` set kvs \<union> insert (query_match_key m) (query_match_key ` set ms) \<subseteq> fst ` set (fold keep_shorter ms (keep_shorter m kvs))"
    proof -
      have d: "fst ` set (keep_shorter m kvs) \<subseteq> fst ` set (fold keep_shorter ms (keep_shorter m kvs))"
        "query_match_key ` set ms \<subseteq> fst ` set (fold keep_shorter ms (keep_shorter m kvs))" using IH by simp_all
      show ?thesis using subset_trans [OF c d(1)] d(2) by simp
    qed
  qed
qed simp

lemma dedupe_matches_from: "m \<in> set (dedupe_matches ms) \<Longrightarrow> m \<in> set ms"
  using fold_keep_shorter [of "[]" ms] unfolding dedupe_matches_def by auto

lemma dedupe_matches_keeps:
  assumes "m \<in> set ms" shows "\<exists>m' \<in> set (dedupe_matches ms). query_match_key m' = query_match_key m"
proof -
  have f: "keyed_matches (fold keep_shorter ms [])" "query_match_key ` set ms \<subseteq> fst ` set (fold keep_shorter ms [])"
    using fold_keep_shorter [of "[]" ms] by (simp_all add: keyed_matches_def)
  then have "query_match_key m \<in> fst ` set (fold keep_shorter ms [])" using assms by blast
  then obtain x where x: "(query_match_key m, x) \<in> set (fold keep_shorter ms [])" by (elim imageE) (metis prod.collapse)
  then have "query_match_key m = query_match_key x" using f(1) unfolding keyed_matches_def by blast
  moreover have "x \<in> set (dedupe_matches ms)" using x unfolding dedupe_matches_def by force
  ultimately show ?thesis by metis
qed

lemma dedupe_tagged: "(\<Union>m \<in> set (dedupe_matches ms). tagged m) = (\<Union>m \<in> set ms. tagged m)"
proof -
  have same: "query_match_key m = query_match_key m' \<Longrightarrow> tagged m = tagged m'" for m m'
    by (simp add: tagged_def query_match_key_def)
  show ?thesis
  proof (intro equalityI UN_least)
    show "tagged m \<subseteq> (\<Union>m \<in> set ms. tagged m)" if "m \<in> set (dedupe_matches ms)" for m
      using dedupe_matches_from [OF that] by blast
    show "tagged m \<subseteq> (\<Union>m \<in> set (dedupe_matches ms). tagged m)" if mem: "m \<in> set ms" for m
    proof -
      obtain m' where "m' \<in> set (dedupe_matches ms)" "query_match_key m' = query_match_key m" using dedupe_matches_keeps [OF mem] by blast
      then show ?thesis using same [of m' m] by blast
    qed
  qed
qed

lemma covered_tagged: "covered_of ms = snd ` (\<Union>m \<in> set ms. tagged m)"
  by (force simp: covered_of_def tagged_def)

lemma dedupe_covered: "covered_of (dedupe_matches ms) = covered_of ms"
  by (simp add: covered_tagged dedupe_tagged)

section \<open>Gaps\<close>

lemma fold_add_gap_keeps:
  "(query_gap_key g, g) \<in> set kvs \<Longrightarrow> \<forall>y \<in> set ys. query_gap_key y \<noteq> query_gap_key g \<Longrightarrow> (query_gap_key g, g) \<in> set (fold add_gap ys kvs)"
proof (induction ys arbitrary: kvs)
  case (Cons y ys)
  then have "(query_gap_key g, g) \<in> set (add_gap y kvs)"
    using update_keeps [of "query_gap_key g" g kvs "query_gap_key y" y] unfolding add_gap_def by auto
  then show ?case using Cons.IH Cons.prems(2) by simp
qed simp

lemma fold_add_gap_last:
  assumes "\<forall>y \<in> set ys. query_gap_key y \<noteq> query_gap_key g"
  shows "g \<in> set (map snd (fold add_gap (xs @ g # ys) kvs))"
proof -
  have "(query_gap_key g, g) \<in> set (add_gap g (fold add_gap xs kvs))" unfolding add_gap_def by (rule update_in)
  from fold_add_gap_keeps [OF this assms] show ?thesis by force
qed

lemma add_gap_nonempty: "add_gap g kvs \<noteq> []"
  unfolding add_gap_def by (cases kvs) auto

lemma fold_add_gap_nonempty: "kvs \<noteq> [] \<Longrightarrow> fold add_gap gs kvs \<noteq> []"
  by (induction gs arbitrary: kvs) (auto simp: add_gap_nonempty)

lemma fold_add_gap_empty: "fold add_gap gs [] = [] \<Longrightarrow> gs = []"
  by (cases gs) (auto simp: add_gap_nonempty fold_add_gap_nonempty)

lemma complete_no_gaps: "query_coverage report gaps = CovComplete \<Longrightarrow> gaps = []"
  by (auto simp: query_coverage_def split: if_splits)

lemma truncated_gap:
  assumes "walk_truncated st"
  shows "\<exists>code message. code \<notin> silent_codes \<and>
    limit_gap code message [selection_path s False] \<in> set (map snd (walk_gaps ir dir max_depth s st ms))"
proof -
  let ?pre = "coverage_gaps_of ir dir st @ wk_gaps st @ (if wk_depth_limited st then [depth_gap max_depth s] else [])"
  let ?all = "truncation_gaps st s @ identity_gaps dir ms"
  have "\<exists>code message xs ys. ?all = xs @ limit_gap code message [selection_path s False] # ys \<and> code \<notin> silent_codes \<and>
      (\<forall>y \<in> set ys. query_gap_key y \<noteq> query_gap_key (limit_gap code message [selection_path s False]))"
  proof -
    let ?f = "\<lambda>(b :: bool, code, message). limit_gap code message [selection_path s False]"
    define six where "six = [(wk_state_cut st, ''query_state_limit'', ''query traversal reached the internal state limit''),
      (wk_edge_cut st, ''query_edge_limit'', ''query traversal reached the internal inspected-edge limit''),
      (wk_match_cut st, ''query_match_limit'', ''query result exceeds the internal match output limit''),
      (wk_frontier_cut st, ''query_frontier_limit'', ''query result exceeds the internal expansion-frontier limit''),
      (wk_assignment_cut st, ''query_assignment_limit'', ''query reached the assignment inspection work limit''),
      (wk_evidence_cut st, ''query_evidence_limit'', ''statement evidence retention limit reached; structural inspection continued'')]"
    have gaps: "truncation_gaps st s = map ?f (filter fst six)"
      unfolding truncation_gaps_def six_def by (rule arg_cong2 [of _ _ _ _ map]) auto
    have "distinct (map (\<lambda>r. fst (snd r)) six)" by (simp add: six_def)
    then have dist: "distinct (map (\<lambda>r. fst (snd r)) (filter fst six))" by (rule distinct_map_filter)
    have "\<exists>r \<in> set six. fst r \<and> fst (snd r) \<notin> silent_codes"
      using assms unfolding walk_truncated_def six_def silent_codes_def by auto
    then obtain r where r: "r \<in> set (filter fst six)" "fst (snd r) \<notin> silent_codes" by auto
    have "r \<in> set six" using r(1) by simp
    then have other: "fst (snd r) \<noteq> ''driver_identity_unavailable''" unfolding six_def by auto
    obtain xs ys where split: "filter fst six = xs @ r # ys" using split_list [OF r(1)] by blast
    obtain b code message where rr: "r = (b, code, message)" by (cases r)
    have "query_gap_key y \<noteq> query_gap_key (limit_gap code message [selection_path s False])" if y: "y \<in> set (map ?f ys @ identity_gaps dir ms)" for y
    proof -
      have "cg_code y \<noteq> code"
      proof (cases "y \<in> set (identity_gaps dir ms)")
        case True
        then show ?thesis using other rr by (auto simp: identity_gaps_def split: walk_dir.splits)
      next
        case False
        then obtain r' where "r' \<in> set ys" "y = ?f r'" using y by auto
        moreover have "code \<notin> (\<lambda>r. fst (snd r)) ` set ys" using dist unfolding split rr by simp
        moreover have "cg_code (?f r') = fst (snd r')" by (cases r') (simp add: limit_gap_def)
        ultimately show ?thesis by force
      qed
      then show ?thesis by (simp add: query_gap_key_def limit_gap_def)
    qed
    moreover have "?all = map ?f xs @ limit_gap code message [selection_path s False] # (map ?f ys @ identity_gaps dir ms)"
      unfolding gaps split rr by simp
    moreover have "code \<notin> silent_codes" using r(2) rr by simp
    ultimately show ?thesis by blast
  qed
  then obtain code message xs ys where c: "?all = xs @ limit_gap code message [selection_path s False] # ys" "code \<notin> silent_codes"
      "\<forall>y \<in> set ys. query_gap_key y \<noteq> query_gap_key (limit_gap code message [selection_path s False])" by blast
  have "walk_gaps ir dir max_depth s st ms = fold add_gap ((?pre @ xs) @ limit_gap code message [selection_path s False] # ys) []"
    unfolding walk_gaps_def using c(1) by simp
  then show ?thesis using fold_add_gap_last [OF c(3)] c(2) by metis
qed


section \<open>A finished result\<close>

lemma by_sorted_empty: "by_sorted_key kvs = [] \<longleftrightarrow> kvs = []"
  by (cases kvs) (simp_all add: by_sorted_key_def)

lemma listed_matches: "listed st = (\<Union>m \<in> set (map snd (wk_matches st)). tagged m)"
  by (force simp: listed_def)

lemma with_confidence_tagged: "tagged (with_confidence c m) = tagged m"
  by (simp add: tagged_def with_confidence_def)

lemma walk_gaps_empty:
  assumes "walk_gaps ir dir max_depth s st ms = []"
  shows "wk_gaps st = []" "\<not> wk_depth_limited st" "\<not> walk_truncated st" "\<not> wk_evidence_cut st"
  using fold_add_gap_empty [OF assms [unfolded walk_gaps_def]]
  by (auto simp: truncation_gaps_def walk_truncated_def filter_empty_conv split: if_splits)

lemma finish_parts:
  assumes "finish_result ir lim dir max_depth s st = Inr r"
  shows "qr_signal r = s" "qr_evidence_cut r = wk_evidence_cut st" "(\<Union>m \<in> set (qr_matches r). tagged m) = listed st"
    "qr_coverage r = CovComplete \<Longrightarrow> wk_gaps st = [] \<and> \<not> wk_depth_limited st \<and> \<not> walk_truncated st \<and> \<not> wk_evidence_cut st"
    "qr_status r = QueryNotConnected \<Longrightarrow> qr_coverage r = CovComplete \<and> listed st = {}"
    "dir = Drivers \<Longrightarrow> qr_bits r = map (resolve_bit ir s st (map snd (walk_gaps ir dir max_depth s st
        (dedupe_matches (map snd (wk_structural st))))) (found_bits Drivers st)) (ss_bits s)"
proof -
  let ?ded = "dedupe_matches (map snd (wk_matches st))"
  let ?str = "case dir of Drivers \<Rightarrow> dedupe_matches (map snd (wk_structural st)) | Loads \<Rightarrow> ?ded"
  let ?gaps = "walk_gaps ir dir max_depth s st ?str"
  define by_key where "by_key = (if dir = Drivers \<and> ?ded \<noteq> [] \<and> filter (\<lambda>b. b \<notin> covered_of ?str) (ss_bits s) \<noteq> []
    then add_gap (unconnected_gap (query_coverage (ir_coverage ir) (map snd ?gaps)) s) ?gaps else ?gaps)"
  have "by_key = ?gaps \<or> (\<exists>g. by_key = add_gap g ?gaps)" unfolding by_key_def by (cases dir) auto
  moreover have "qr_coverage r = query_coverage (ir_coverage ir) (by_sorted_key by_key)"
    using assms unfolding by_key_def finish_result_def Let_def ebind_Inr_iff by auto
  ultimately have by_key: "by_key = ?gaps \<or> (\<exists>g. by_key = add_gap g ?gaps)"
    "qr_coverage r = query_coverage (ir_coverage ir) (by_sorted_key by_key)" by blast+
  have ded: "(\<Union>m \<in> set ?ded. tagged m) = listed st" unfolding dedupe_tagged listed_matches ..
  have r: "qr_signal r = s" "qr_evidence_cut r = wk_evidence_cut st"
    "qr_matches r = (if qr_coverage r = CovComplete then ?ded else map (with_confidence ConfPartial) ?ded)"
    "qr_status r = (if ?ded \<noteq> [] then QueryFound else if qr_coverage r = CovComplete then QueryNotConnected else QueryInconclusive)"
    using assms by (auto simp: finish_result_def Let_def ebind_Inr_iff)
  show "qr_signal r = s" "qr_evidence_cut r = wk_evidence_cut st" by (fact r)+
  show "(\<Union>m \<in> set (qr_matches r). tagged m) = listed st"
    unfolding r(3) ded [symmetric] by (simp add: with_confidence_tagged)
  show "qr_status r = QueryNotConnected \<Longrightarrow> qr_coverage r = CovComplete \<and> listed st = {}"
    using r(4) ded by (auto split: if_splits)
  show "wk_gaps st = [] \<and> \<not> wk_depth_limited st \<and> \<not> walk_truncated st \<and> \<not> wk_evidence_cut st" if "qr_coverage r = CovComplete"
  proof -
    have "by_key = []" using complete_no_gaps that by_key(2) by_sorted_empty by metis
    then have "?gaps = []" using by_key(1) add_gap_nonempty by metis
    from walk_gaps_empty [OF this] show ?thesis by blast
  qed
  show "qr_bits r = map (resolve_bit ir s st (map snd (walk_gaps ir dir max_depth s st
      (dedupe_matches (map snd (wk_structural st))))) (found_bits Drivers st)) (ss_bits s)" if "dir = Drivers"
    using assms that by (auto simp: finish_result_def Let_def ebind_Inr_iff dedupe_covered found_bits_def found_matches_def)
qed

lemma complete_bit:
  assumes "rb_complete (resolve_bit ir s st (map snd (walk_gaps ir dir max_depth s st ms)) resolved b)"
  shows "\<not> walk_truncated st" "b \<notin> set (wk_depth_bits st)"
proof -
  let ?gaps = "map snd (walk_gaps ir dir max_depth s st ms)"
  have reasons: "bit_reasons ir s st ?gaps b = []" using assms by (simp add: resolve_bit_def Let_def)
  then show "b \<notin> set (wk_depth_bits st)" by (auto simp: bit_reasons_def Let_def split: if_splits)
  have loc: "local_reasons s ?gaps b = []" using reasons by (auto simp: bit_reasons_def Let_def)
  show "\<not> walk_truncated st"
  proof
    assume "walk_truncated st"
    then obtain code message where g: "code \<notin> silent_codes" "limit_gap code message [selection_path s False] \<in> set ?gaps"
      using truncated_gap by metis
    have "gap_affects_selection (limit_gap code message [selection_path s False]) (bit_of s b)"
      by (simp add: gap_affects_selection_def gap_affects_def limit_gap_def bit_of_def selection_path_def Let_def)
    then have "code \<in> set (local_reasons s ?gaps b)" using g by (force simp: local_reasons_def limit_gap_def)
    then show False using loc by simp
  qed
qed


section \<open>What the queries say\<close>

text \<open>The statements that drive, or read, a bit through the port bindings, under their identities.\<close>

definition drives :: "connectivity_ir \<Rightarrow> signal_bit \<Rightarrow> match_id \<Rightarrow> bool" where
  "drives ir p0 i \<longleftrightarrow> (\<exists>p a. reaches ir Drivers p0 p \<and> written_by ir p a \<and> i = (fst (fst p), af_id a))"

definition ties :: "connectivity_ir \<Rightarrow> signal_bit \<Rightarrow> match_id \<Rightarrow> bool" where
  "ties ir p0 i \<longleftrightarrow> (\<exists>p t bits. reaches ir Drivers p0 p \<and> port_terminal ir SrcConstant p t \<and> snd p \<in> set bits \<and>
     i = (fst (fst p), constant_fact t bits))"

definition loads_bit :: "connectivity_ir \<Rightarrow> signal_bit \<Rightarrow> match_id \<Rightarrow> bool" where
  "loads_bit ir p0 i \<longleftrightarrow> (\<exists>p a. reaches ir Loads p0 p \<and> read_by ir p a \<and> i = (fst (fst p), af_id a))"

definition has_driver :: "connectivity_ir \<Rightarrow> signal_bit \<Rightarrow> bool" where
  "has_driver ir p0 \<longleftrightarrow> (\<exists>p. reaches ir Drivers p0 p \<and> driven ir p)"

text \<open>The statements that a result lists for a bit of the queried signal.\<close>

definition lists_for :: "connectivity_result \<Rightarrow> int \<Rightarrow> match_id \<Rightarrow> bool" where
  "lists_for r q i \<longleftrightarrow> (\<exists>m \<in> set (qr_matches r). (qm_path m, qm_fact m) = i \<and> q \<in> set (ss_bits (qm_covered m)))"

lemma lists_for_listed:
  assumes "finish_result ir lim dir max_depth s st = Inr r"
  shows "lists_for r q i \<longleftrightarrow> (i, q) \<in> listed st"
  unfolding finish_parts(3) [OF assms, symmetric] lists_for_def tagged_def by auto

lemma run_query_parts:
  assumes "run_query ir ix lim dir max_depth s = Inr r"
  obtains st where "run_walk lim dir ix (nat max_depth) s = Inr st" "finish_result ir lim dir max_depth s st = Inr r"
  using assms by (auto simp: run_query_def ebind_Inr_iff)

lemma bound_key: "ss_path s \<noteq> None \<Longrightarrow> \<exists>k. endpoint_key s = Inr k"
  by (auto simp: endpoint_key_def)

lemma query_driver_run:
  assumes "query_driver ir ix path max_depth cs lim = Inr r"
  obtains s k where "resolve_signal ir path cs = Inr s" "endpoint_key s = Inr k" "run_query ir ix lim Drivers max_depth s = Inr r"
  using assms resolve_bound bound_key by (auto simp: query_driver_def ebind_Inr_iff) blast

lemma query_loads_run:
  assumes "query_loads ir ix path max_depth cs lim = Inr r"
  obtains s k lim' where "resolve_signal ir path cs = Inr s" "endpoint_key s = Inr k" "run_query ir ix lim' Loads max_depth s = Inr r"
  using assms resolve_bound bound_key by (auto simp: query_loads_def ebind_Inr_iff) blast

lemma driver_walk_bit:
  assumes "build_index ir = Inr ix" "run_walk lim Drivers ix depth s = Inr st" "endpoint_key s = Inr k"
    "\<not> walk_truncated st" "q \<in> set (ss_bits s)" "q \<notin> set (wk_depth_bits st)" "reaches ir Drivers (k, q) p"
  shows "driven ir p \<Longrightarrow> q \<in> found_bits Drivers st" "port_terminal ir SrcUnresolved p t \<Longrightarrow> wk_gaps st \<noteq> []"
    "written_by ir p a \<Longrightarrow> \<not> wk_evidence_cut st \<Longrightarrow> ((fst (fst p), af_id a), q) \<in> listed st"
proof -
  have l: "(leads Drivers ix)\<^sup>*\<^sup>* (k, q) p" using assms(7) unfolding reaches_def leads_feeds [OF assms(1)] .
  note w = run_walk_sound(2) [OF assms(2-6) l]
  show "driven ir p \<Longrightarrow> q \<in> found_bits Drivers st" using w fact_at_ir(1) [OF assms(1)] unfolding fact_at_def by blast
  show "port_terminal ir SrcUnresolved p t \<Longrightarrow> wk_gaps st \<noteq> []" using w required_ir(3) [OF assms(1)] by blast
  show "((fst (fst p), af_id a), q) \<in> listed st" if "written_by ir p a" "\<not> wk_evidence_cut st"
  proof -
    have "required Drivers ix p {(fst (fst p), af_id a)}" using that(1) required_ir(1) [OF assms(1)] by blast
    then show ?thesis using w that(2) by blast
  qed
qed

section \<open>The small design\<close>

definition cq_limits :: query_limits where
  "cq_limits = \<lparr>ql_state = 4096, ql_edge = 16384, ql_match = 256, ql_frontier = 4096, ql_assignment = 16384, ql_evidence = 4096\<rparr>"

lemma cq_driver_b: "ebind (build_index cq_ir) (\<lambda>ix. ebind (query_driver cq_ir ix ''top.b'' 64 [] cq_limits) (\<lambda>r.
    Inr (map (\<lambda>b. (rb_bit b, rb_verdict b, rb_complete b)) (qr_bits r), endpoint_key (qr_signal r)))) =
  Inr ([(1, BitFound, True), (0, BitFound, True)], Inr (''top'', ''b''))"
  by code_simp

lemma cq_driver_a: "ebind (build_index cq_ir) (\<lambda>ix. ebind (query_driver cq_ir ix ''top.a'' 64 [] cq_limits) (\<lambda>r.
    Inr (qr_status r, qr_signal r))) = Inr (QueryNotConnected, \<lparr>ss_symbol = ''a'', ss_bits = [1, 0], ss_path = Some ''top''\<rparr>)"
  by code_simp

lemma cq_loads_a: "ebind (build_index cq_ir) (\<lambda>ix. ebind (query_loads cq_ir ix ''top.a'' 64 [] cq_limits) (\<lambda>r.
    Inr (map (\<lambda>m. (qm_path m, qm_fact m, ss_bits (qm_covered m))) (qr_matches r), endpoint_key (qr_signal r)))) =
  Inr ([(''top.u'', ''m:1'', [1, 0])], Inr (''top'', ''a''))"
  by code_simp

text \<open>C1. The verdict of every bit is right: a bit reported found has a driver through the port bindings of the IR,
  a bit reported without a driver has none, and where the driver set of a bit is called complete (and
  no statement was dropped for the evidence limit) every assignment that drives the bit is listed for it.\<close>

theorem driver_bits_exact:
  assumes "build_index ir = Inr ix" "query_driver ir ix path max_depth cs lim = Inr r"
  shows "\<exists>k. endpoint_key (qr_signal r) = Inr k \<and> map rb_bit (qr_bits r) = ss_bits (qr_signal r) \<and>
    (\<forall>b \<in> set (qr_bits r).
      (rb_verdict b = BitFound \<longrightarrow> has_driver ir (k, rb_bit b)) \<and>
      (rb_verdict b = BitNoDriver \<longrightarrow> \<not> has_driver ir (k, rb_bit b)) \<and>
      (rb_complete b \<and> \<not> qr_evidence_cut r \<longrightarrow> (\<forall>i. drives ir (k, rb_bit b) i \<longrightarrow> lists_for r (rb_bit b) i)))"
proof -
  obtain s k where s: "endpoint_key s = Inr k" "run_query ir ix lim Drivers max_depth s = Inr r"
    by (rule query_driver_run [OF assms(2)])
  obtain st where st: "run_walk lim Drivers ix (nat max_depth) s = Inr st" "finish_result ir lim Drivers max_depth s st = Inr r"
    by (rule run_query_parts [OF s(2)])
  let ?gaps = "map snd (walk_gaps ir Drivers max_depth s st (dedupe_matches (map snd (wk_structural st))))"
  note f = finish_parts [OF st(2)]
  have bits: "qr_bits r = map (resolve_bit ir s st ?gaps (found_bits Drivers st)) (ss_bits s)" by (rule f(6) [OF refl])
  have one: "(rb_verdict b = BitFound \<longrightarrow> has_driver ir (k, q)) \<and> (rb_verdict b = BitNoDriver \<longrightarrow> \<not> has_driver ir (k, q)) \<and>
      (rb_complete b \<and> \<not> wk_evidence_cut st \<longrightarrow> (\<forall>i. drives ir (k, q) i \<longrightarrow> lists_for r q i))"
    if q: "q \<in> set (ss_bits s)" and b: "b = resolve_bit ir s st ?gaps (found_bits Drivers st) q" for q b
  proof (intro conjI impI allI)
    assume "rb_verdict b = BitFound"
    then have "q \<in> found_bits Drivers st" using b by (auto simp: resolve_bit_def Let_def split: if_splits)
    then obtain p where "(leads Drivers ix)\<^sup>*\<^sup>* (k, q) p" "fact_at Drivers ix p"
      using run_walk_sound(1) [OF st(1) s(1)] unfolding sound_def by blast
    then show "has_driver ir (k, q)"
      unfolding has_driver_def reaches_def leads_feeds [OF assms(1)] fact_at_ir [OF assms(1)] by blast
  next
    assume v: "rb_verdict b = BitNoDriver"
    then have "rb_complete b" "q \<notin> found_bits Drivers st" using b by (auto simp: resolve_bit_def Let_def split: if_splits)
    then show "\<not> has_driver ir (k, q)"
      using driver_walk_bit(1) [OF assms(1) st(1) s(1) _ q] complete_bit b unfolding has_driver_def by blast
  next
    fix i assume c: "rb_complete b \<and> \<not> wk_evidence_cut st" "drives ir (k, q) i"
    then show "lists_for r q i"
      using driver_walk_bit(3) [OF assms(1) st(1) s(1) _ q] complete_bit b
      unfolding lists_for_listed [OF st(2)] drives_def by blast
  qed
  have "map rb_bit (qr_bits r) = ss_bits s" unfolding bits by (simp add: comp_def resolve_bit_def Let_def)
  moreover have "rb_bit (resolve_bit ir s st ?gaps (found_bits Drivers st) q) = q" for q by (simp add: resolve_bit_def Let_def)
  ultimately show ?thesis using s(1) one unfolding f(1,2) bits by auto
qed

lemma driver_bits_exact_witness: "has_driver cq_ir ((''top'', ''b''), 1) \<and> has_driver cq_ir ((''top'', ''b''), 0)"
proof -
  obtain ix r where r: "build_index cq_ir = Inr ix" "query_driver cq_ir ix ''top.b'' 64 [] cq_limits = Inr r"
    "map (\<lambda>b. (rb_bit b, rb_verdict b, rb_complete b)) (qr_bits r) = [(1, BitFound, True), (0, BitFound, True)]"
    "endpoint_key (qr_signal r) = Inr (''top'', ''b'')"
    using cq_driver_b by (auto simp: ebind_Inr_iff)
  have "\<forall>b \<in> set (qr_bits r). rb_verdict b = BitFound \<longrightarrow> has_driver cq_ir ((''top'', ''b''), rb_bit b)"
    using driver_bits_exact [OF r(1,2)] r(4) by auto
  then show ?thesis using r(3) by auto
qed

text \<open>C11. Nothing is listed that is not there: every listed statement drives each bit it covers, as an assignment or
  a constant; and \<open>not_connected\<close> is answered only with complete coverage, when no bit of the signal has
  a driver and no port segment of unknown provenance is reached.\<close>

theorem driver_result_sound:
  assumes "build_index ir = Inr ix" "query_driver ir ix path max_depth cs lim = Inr r"
  shows "\<exists>k. endpoint_key (qr_signal r) = Inr k \<and>
    (\<forall>q i. lists_for r q i \<longrightarrow> drives ir (k, q) i \<or> ties ir (k, q) i) \<and>
    (qr_status r = QueryNotConnected \<longrightarrow> qr_coverage r = CovComplete \<and>
      (\<forall>q \<in> set (ss_bits (qr_signal r)). \<not> has_driver ir (k, q) \<and>
        \<not> (\<exists>p t. reaches ir Drivers (k, q) p \<and> port_terminal ir SrcUnresolved p t)))"
proof -
  obtain s k where s: "endpoint_key s = Inr k" "run_query ir ix lim Drivers max_depth s = Inr r"
    by (rule query_driver_run [OF assms(2)])
  obtain st where st: "run_walk lim Drivers ix (nat max_depth) s = Inr st" "finish_result ir lim Drivers max_depth s st = Inr r"
    by (rule run_query_parts [OF s(2)])
  note f = finish_parts [OF st(2)]
  note snd = run_walk_sound(1) [OF st(1) s(1)]
  have "drives ir (k, q) i \<or> ties ir (k, q) i" if l: "(i, q) \<in> listed st" for q i
  proof -
    obtain p I where "(leads Drivers ix)\<^sup>*\<^sup>* (k, q) p" "required Drivers ix p I" "i \<in> I" using snd l unfolding sound_def by blast
    then show ?thesis unfolding required_ir [OF assms(1)] drives_def ties_def reaches_def leads_feeds [OF assms(1)] by blast
  qed
  moreover have "qr_coverage r = CovComplete \<and> (\<forall>q \<in> set (ss_bits s). \<not> has_driver ir (k, q) \<and>
      \<not> (\<exists>p t. reaches ir Drivers (k, q) p \<and> port_terminal ir SrcUnresolved p t))" if n: "qr_status r = QueryNotConnected"
  proof -
    have cov: "qr_coverage r = CovComplete" "listed st = {}" using f(5) [OF n] by blast+
    have c: "wk_gaps st = []" "\<not> wk_depth_limited st" "\<not> walk_truncated st" "\<not> wk_evidence_cut st" using f(4) [OF cov(1)] by blast+
    then have depth: "wk_depth_bits st = []" using snd unfolding sound_def by blast
    have "\<not> driven ir p \<and> \<not> port_terminal ir SrcUnresolved p t" if r: "q \<in> set (ss_bits s)" "reaches ir Drivers (k, q) p" for q p t
    proof -
      have l: "(leads Drivers ix)\<^sup>*\<^sup>* (k, q) p" using r(2) unfolding reaches_def leads_feeds [OF assms(1)] .
      have w: "(\<forall>I. required Drivers ix p I \<longrightarrow> (\<exists>i \<in> I. (i, q) \<in> listed st)) \<and> \<not> unresolved_at Drivers ix p"
        using run_walk_sound(2) [OF st(1) s(1) c(3) r(1) _ l] c depth by simp
      then show ?thesis using fact_at_ir(1) [OF assms(1)] required_ir(3) [OF assms(1)] cov(2) unfolding fact_at_def by blast
    qed
    then show ?thesis using cov(1) unfolding has_driver_def by blast
  qed
  ultimately show ?thesis using s(1) unfolding f(1) lists_for_listed [OF st(2)] by blast
qed

lemma driver_result_sound_witness: "\<not> has_driver cq_ir ((''top'', ''a''), 1) \<and> \<not> has_driver cq_ir ((''top'', ''a''), 0)"
proof -
  obtain ix r where r: "build_index cq_ir = Inr ix" "query_driver cq_ir ix ''top.a'' 64 [] cq_limits = Inr r"
    "qr_status r = QueryNotConnected" "qr_signal r = \<lparr>ss_symbol = ''a'', ss_bits = [1, 0], ss_path = Some ''top''\<rparr>"
    using cq_driver_a by (auto simp: ebind_Inr_iff)
  then have "endpoint_key (qr_signal r) = Inr (''top'', ''a'')" "ss_bits (qr_signal r) = [1, 0]" by (simp_all add: endpoint_key_def)
  then show ?thesis using driver_result_sound [OF r(1,2)] r(3) by auto
qed

text \<open>C12. A load query lists only assignments that read the bits they cover, through the port bindings, and when its
  coverage is complete it lists every one; \<open>not_connected\<close> means that nothing reads the signal.\<close>

theorem load_query_exact:
  assumes "build_index ir = Inr ix" "query_loads ir ix path max_depth cs lim = Inr r"
  shows "\<exists>k. endpoint_key (qr_signal r) = Inr k \<and>
    (\<forall>q i. lists_for r q i \<longrightarrow> loads_bit ir (k, q) i) \<and>
    (qr_coverage r = CovComplete \<longrightarrow> (\<forall>q \<in> set (ss_bits (qr_signal r)). \<forall>i. loads_bit ir (k, q) i \<longrightarrow> lists_for r q i)) \<and>
    (qr_status r = QueryNotConnected \<longrightarrow> \<not> (\<exists>q \<in> set (ss_bits (qr_signal r)). \<exists>i. loads_bit ir (k, q) i))"
proof -
  obtain s k lim' where s: "endpoint_key s = Inr k" "run_query ir ix lim' Loads max_depth s = Inr r"
    by (rule query_loads_run [OF assms(2)])
  obtain st where st: "run_walk lim' Loads ix (nat max_depth) s = Inr st" "finish_result ir lim' Loads max_depth s st = Inr r"
    by (rule run_query_parts [OF s(2)])
  note f = finish_parts [OF st(2)]
  note snd = run_walk_sound(1) [OF st(1) s(1)]
  have "loads_bit ir (k, q) i" if l: "(i, q) \<in> listed st" for q i
  proof -
    obtain p I where "(leads Loads ix)\<^sup>*\<^sup>* (k, q) p" "required Loads ix p I" "i \<in> I" using snd l unfolding sound_def by blast
    then show ?thesis unfolding required_ir [OF assms(1)] loads_bit_def reaches_def leads_feeds [OF assms(1)] by blast
  qed
  moreover have all: "(i, q) \<in> listed st" if cov: "qr_coverage r = CovComplete" and q: "q \<in> set (ss_bits s)" and l: "loads_bit ir (k, q) i" for q i
  proof -
    have c: "\<not> wk_depth_limited st" "\<not> walk_truncated st" "\<not> wk_evidence_cut st" using f(4) [OF cov] by blast+
    then have depth: "q \<notin> set (wk_depth_bits st)" using snd unfolding sound_def by auto
    obtain p a where p: "reaches ir Loads (k, q) p" "read_by ir p a" "i = (fst (fst p), af_id a)" using l unfolding loads_bit_def by blast
    then have "(leads Loads ix)\<^sup>*\<^sup>* (k, q) p" "required Loads ix p {i}"
      unfolding reaches_def leads_feeds [OF assms(1)] required_ir [OF assms(1)] by blast+
    from run_walk_sound(2) [OF st(1) s(1) c(2) q depth this(1)] this(2) c(3) show ?thesis by blast
  qed
  moreover have "\<not> (\<exists>q \<in> set (ss_bits s). \<exists>i. loads_bit ir (k, q) i)" if n: "qr_status r = QueryNotConnected"
    using f(5) [OF n] all by blast
  ultimately show ?thesis using s(1) unfolding f(1) lists_for_listed [OF st(2)] by blast
qed

lemma load_query_exact_witness: "loads_bit cq_ir ((''top'', ''a''), 0) (''top.u'', ''m:1'')"
proof -
  obtain ix r where r: "build_index cq_ir = Inr ix" "query_loads cq_ir ix ''top.a'' 64 [] cq_limits = Inr r"
    "map (\<lambda>m. (qm_path m, qm_fact m, ss_bits (qm_covered m))) (qr_matches r) = [(''top.u'', ''m:1'', [1, 0])]"
    "endpoint_key (qr_signal r) = Inr (''top'', ''a'')"
    using cq_loads_a by (auto simp: ebind_Inr_iff)
  have "lists_for r 0 (''top.u'', ''m:1'')" using r(3) by (auto simp: lists_for_def)
  then show ?thesis using load_query_exact [OF r(1,2)] r(4) by auto
qed

end
