(* ===== verification/Spec2Isabelle.thy ===== *)
theory Spec2Isabelle
  imports Four_State_Claims Dyn_Eval_Claims Dyn_Step_Claims Ir_Claims Txn_Claims Window_Claims Sv_Claims Vcd_Readback Event_Pages_Claims Compare_Claims Compare_Clock_Claims Cq_Query_Claims
begin

text \<open>
  TraceWeave is a server with tools for debugging simulations: it reads wave files, builds a graph of
  the connectivity of a design, samples signals by clock cycles and answers questions about values,
  drivers, loads, paths, transactions and temporal conditions. This library models the engines behind
  the tools. The source is Python; a theory names the file under src/ that it translates, and a
  definition keeps the name of its function or method where Isabelle allows it.

  Conventions. A function that may raise has a result in \<open>py_error + 'a\<close> (\<open>Prelude\<close>): \<open>Inl\<close> is the
  exception, \<open>Inr\<close> the return value, \<open>ebind\<close> sequences, \<open>require\<close> raises. Python's integers are \<open>int\<close>;
  the program has no machine words, its bit vectors are strings of the characters 0, 1, x and z with
  a width. A frozen dataclass is a record with the checks of its \<open>__post_init__\<close> as a list of
  conditions and messages; a dict is an association list where its order shows in the result, a map
  otherwise. JSON documents are a datatype (\<open>Py_Json\<close>) whose numbers are integers. Cancellation,
  which may stop every loop with an exception, is left out everywhere.

  The parts and their theories.

  \<^item> Four-state values, src/src/expression_values.py: \<open>Four_State\<close>. A value is bits, width and sign;
    every operator of the expression language is a function on values. \<open>Four_State_Laws\<close> reads known
    values as integers, \<open>Four_State_Order\<close> compares values by their unknown bits, \<open>Four_State_Claims\<close>
    shows totality, exact arithmetic and soundness of unknown bits.
  \<^item> Typed expressions and their evaluation, src/src/dynamic_evidence.py with
    src/src/dynamic_selection.py: \<open>Bit_Value\<close>, \<open>Dyn_Expr\<close> (nodes, checks, JSON), \<open>Dyn_Eval\<close> (the evaluator
    over a sampler), \<open>Dyn_Step\<close> (narrowing, validation of steps). \<open>Dyn_Expr_Laws\<close>, \<open>Dyn_Eval_Laws\<close> and
    \<open>Dyn_Eval_Sound\<close> carry one induction over the evaluator, in the locale \<open>reading\<close>; \<open>Dyn_Eval_Claims\<close>
    and \<open>Dyn_Step_Claims\<close> have the properties.
  \<^item> The connectivity IR, src/src/connectivity_ir.py: \<open>Ir_Types\<close>, \<open>Ir_Facts\<close>, \<open>Ir_Model\<close>, \<open>Ir_Document\<close>.
    Every record has a codec, an interpretation of the locale \<open>json_codec\<close> of \<open>Py_Json\<close>; the codec of
    the document rests on them. \<open>Ir_Claims\<close>: the round trip, independence of the order of facts.
  \<^item> Queries over the IR, src/src/connectivity_query.py: \<open>Cq_Index\<close> (the indexes of the engine, resolution
    of signal paths), \<open>Cq_Path\<close> (\<open>query_path\<close>), \<open>Cq_Walk\<close> (the depth-first walk that \<open>query_driver\<close> and
    \<open>query_loads\<close> share, with its work budget and collector), \<open>Cq_Result\<close> (\<open>_finish_result\<close> and the entry
    points). \<open>Cq_Index_Laws\<close> gives the content of the indexes in terms of the IR. \<open>Cq_Path_Laws\<close> and
    \<open>Cq_Path_Claims\<close> show that found paths are shortest. \<open>Cq_Walk_Laws\<close> and \<open>Cq_Walk_Steps\<close> prove the
    closure of the walk in the locale \<open>step_contract\<close>, \<open>Cq_Query_Laws\<close> reads it in the IR, and
    \<open>Cq_Query_Claims\<close> shows what the verdict of a bit, a complete driver set and \<open>not_connected\<close> say.
  \<^item> Expressions as text, src/src/expression_parser.py: \<open>Sv_Parse\<close> (tokens and trees), \<open>Sv_Type\<close> (types and
    literals), \<open>Sv_Compile\<close> (lowering to typed expressions). \<open>Sv_Parse_Laws\<close> and \<open>Sv_Compile_Laws\<close> are
    weakest-precondition style rules for the parser and the compiler; \<open>Sv_Claims\<close> has the properties.
  \<^item> The VCD reader, src/src/vcd_parser.py and src/src/waveform_hints.py: \<open>Vcd_Parse\<close> (tokens, declarations,
    changes), \<open>Vcd_Query\<close> (values, windows, search). \<open>Vcd_Laws\<close>, \<open>Vcd_Claims\<close>, and \<open>Vcd_Readback\<close>, which
    writes a dump from a log and reads it back.
  \<^item> Paged events, src/src/event_pages.py: \<open>Event_Pages\<close>, with \<open>Event_Pages_Laws\<close> (the locale \<open>page_reader\<close>,
    what a cursor relies on) and \<open>Event_Pages_Claims\<close>.
  \<^item> Comparison of two recorded signals, src/src/divergence_compare.py: \<open>Compare_Pages\<close> (the search over two
    page cursors), \<open>Compare_Stream\<close> (streams read as a whole, the search over them, the choice of the
    engine), \<open>Compare_Clock\<close> (the edges of a clock, src/src/dynamic_observe.py, and the comparison at
    them, src/src/divergence_clock.py). \<open>Compare_Verdict\<close> relates the hit and the gaps of a search to the
    waveforms at every time of the window, in the locale \<open>gap_log\<close>, which both ways of logging gaps
    interpret; \<open>Compare_Laws\<close> and \<open>Compare_Stream_Laws\<close> follow the two searches, \<open>Compare_Claims\<close>,
    \<open>Compare_Stream_Claims\<close> and \<open>Compare_Clock_Claims\<close> have the properties.
  \<^item> Transactions, src/src/txn_reconstruct.py: \<open>Txn_Walk\<close> (the correlator, row by row), \<open>Txn_Report\<close>.
    \<open>Txn_Laws\<close> has the invariant between its containers, \<open>Txn_Bounds\<close> the limits, \<open>Txn_Refine\<close> the
    simulation of a naive search, \<open>Txn_Unknown\<close> which rows the counters of unknown values and ids count,
    \<open>Txn_Claims\<close> the properties. \<open>Wave_Value\<close> reads sampled values.
  \<^item> Temporal templates, src/src/window_verify.py: \<open>Window_Verify\<close> and \<open>Window_Claims\<close>.

  How they interact. The text of an expression is compiled (\<open>Sv_Compile\<close>) to a typed expression
  (\<open>Dyn_Expr\<close>), which the evaluator (\<open>Dyn_Eval\<close>) runs on four-state values (\<open>Four_State\<close>) read through a
  sampler. The IR embeds typed expressions in its assignments and is what the queries index. The
  event pages read a parsed VCD file, and the comparison reads two of them. The correlator and the templates take sampled rows.

  Parameters. What comes from outside is an argument of the definitions: the text of a wave file, the
  sampler of the evaluator, the caller's resolution of names and types in an expression, the
  sampled rows, what a wave parser answers to the comparison over whole streams and whether a file changed
  meanwhile, the size of a Python integer in bytes (for the byte account of the correlator), and
  the number of deadline checks that pass before time is up.

  Bounds and fuel. Loops over lists are recursions on them. The bisections decrease the length of
  their interval, the breadth-first search of \<open>query_path\<close> the measure \<open>2 * (limit - edges) + queue\<close>, and
  the walks recurse on the depth that is left. The reconstruction of a path has as many steps as
  there are predecessors, which \<open>path_search_shortest\<close> shows to be enough. The tokenizer has the length
  of the text as fuel, every loop of the parser the number of tokens that are left (\<open>parse_total\<close>: it
  never runs out). The paging loops have fuel of their own; \<open>paging_exact\<close> gives an amount, linear in
  the number of rows, with which the whole window is read, and \<open>comparison_exact\<close> one for the comparison
  over them. The search over streams has two turns more than there are events (\<open>scan_loop_scanned\<close>).

  Not modelled: the server and its schemas, configuration, telemetry and cancellation; the readers of
  binary wave formats and the backends that drive an external tool, which are bindings to native
  code; the front end that walks syntax trees of a package outside the repository and writes the IR;
  the heuristic scans of logs, sources and directories; the sampling of rows by clock cycles and the
  analyses built on it other than transactions and templates (conditions, handshakes, tracing of
  unknown values and of a difference along the graph). Inside modelled files: floating-point numbers for display,
  timings, messages and positions of errors, and identity checks of files between two reads.
\<close>

end
